(* ===== verification/OrionPrelude.thy ===== *)
theory OrionPrelude
  imports Main "HOL-Library.Word" "HOL-Library.AList"
begin

section \<open>Shared vocabulary of the Orion Code model\<close>

text \<open>
  The vocabulary every component theory uses:
  \<^item> JavaScript strings as lists of 16-bit code units, with the three built-ins the program
    calls on them where lengths matter (\<open>trim\<close>, \<open>Buffer.byteLength\<close>, \<open>startsWith\<close>);
  \<^item> \<open>Number.isSafeInteger\<close> on integers;
  \<^item> \<open>findIndex\<close> with a one-element \<open>splice\<close>, the idiom the program uses to take an
    element out of a queue;
  \<^item> JavaScript objects and \<open>Map\<close>s with string keys as association lists in insertion
    order (\<open>AList.update\<close> keeps the place of an existing key and appends a new one, as
    both do);
  \<^item> replay of an event log by a step that may reject an event, and runs of a component
    by a total step, each with a locale for the invariant argument the components share.
\<close>

named_theorems inv_defs \<open>definitions of the component invariants\<close>
named_theorems op_defs \<open>definitions of the component operations\<close>
named_theorems js_lookup \<open>lookup after update in JavaScript objects and Maps\<close>

declare update_conv' [js_lookup] delete_conv' [js_lookup]

subsection \<open>Strings and numbers\<close>

type_synonym jsstr = "16 word list"

text \<open>A string literal of the source, whose characters are all ASCII.\<close>

definition js :: "string \<Rightarrow> jsstr" where
  "js s = map (\<lambda>c. word_of_nat (of_char c)) s"

text \<open>
  White space as \<open>String.prototype.trim\<close> removes it: the ECMAScript WhiteSpace and
  LineTerminator code points, all of which are single code units.
\<close>

definition js_white :: "16 word \<Rightarrow> bool" where
  "js_white u \<longleftrightarrow> u \<in> set [0x09, 0x0A, 0x0B, 0x0C, 0x0D, 0x20, 0xA0, 0x1680,
     0x2028, 0x2029, 0x202F, 0x205F, 0x3000, 0xFEFF] \<or> 0x2000 \<le> u \<and> u \<le> 0x200A"

definition js_trim :: "jsstr \<Rightarrow> jsstr" where
  "js_trim s = rev (dropWhile js_white (rev (dropWhile js_white s)))"

text \<open>
  \<open>Buffer.byteLength(s, 'utf8')\<close>: one, two or three bytes for a code unit, four for a
  surrogate pair, and the three bytes of the replacement character for a lone surrogate.
\<close>

fun utf8_bytes :: "jsstr \<Rightarrow> nat" where
  "utf8_bytes [] = 0"
| "utf8_bytes [u] = (if u < 0x80 then 1 else if u < 0x800 then 2 else 3)"
| "utf8_bytes (u # v # us) =
     (if u < 0x80 then 1 + utf8_bytes (v # us)
      else if u < 0x800 then 2 + utf8_bytes (v # us)
      else if 0xD800 \<le> u \<and> u \<le> 0xDBFF \<and> 0xDC00 \<le> v \<and> v \<le> 0xDFFF then 4 + utf8_bytes us
      else 3 + utf8_bytes (v # us))"

definition starts_with :: "jsstr \<Rightarrow> jsstr \<Rightarrow> bool" where
  "starts_with s p \<longleftrightarrow> take (length p) s = p"

text \<open>JavaScript truthiness of an optional string: \<open>undefined\<close> and the empty string are falsy.\<close>

definition truthy :: "jsstr option \<Rightarrow> bool" where
  "truthy s \<longleftrightarrow> s \<noteq> None \<and> s \<noteq> Some []"

lemma truthy_simps [simp]:
  "\<not> truthy None" "truthy (Some s) \<longleftrightarrow> s \<noteq> []"
  by (simp_all add: truthy_def)

definition is_safe_integer :: "int \<Rightarrow> bool" where
  "is_safe_integer x \<longleftrightarrow> - (2 ^ 53 - 1) \<le> x \<and> x \<le> 2 ^ 53 - 1"

definition positive_safe :: "int \<Rightarrow> bool" where
  "positive_safe x \<longleftrightarrow> is_safe_integer x \<and> 0 < x"

definition non_negative_safe :: "int \<Rightarrow> bool" where
  "non_negative_safe x \<longleftrightarrow> is_safe_integer x \<and> 0 \<le> x"

lemma js_trim_Nil [simp]: "js_trim [] = []"
  by (simp add: js_trim_def)

lemma js_trim_eq_Nil_iff: "js_trim s = [] \<longleftrightarrow> (\<forall>u \<in> set s. js_white u)"
  by (auto simp: js_trim_def dropWhile_eq_Nil_conv dest: set_dropWhileD)
    (metis dropWhile_eq_Nil_conv set_dropWhileD hd_dropWhile list.set_sel(1))

lemma js_trim_nonempty: "js_trim s \<noteq> [] \<Longrightarrow> s \<noteq> []"
  by auto

subsection \<open>Queues: findIndex and splice\<close>

fun find_index :: "('a \<Rightarrow> bool) \<Rightarrow> 'a list \<Rightarrow> nat option" where
  "find_index P [] = None"
| "find_index P (x # xs) = (if P x then Some 0 else map_option Suc (find_index P xs))"

text \<open>\<open>xs.splice(i, 1)\<close> for an index in range.\<close>

definition splice1 :: "nat \<Rightarrow> 'a list \<Rightarrow> 'a list" where
  "splice1 i xs = take i xs @ drop (Suc i) xs"

lemma find_index_None [simp]: "find_index P xs = None \<longleftrightarrow> (\<forall>x \<in> set xs. \<not> P x)"
  by (induction xs) auto

lemma find_index_SomeD:
  "find_index P xs = Some i \<Longrightarrow> i < length xs \<and> P (xs ! i) \<and> (\<forall>j < i. \<not> P (xs ! j))"
proof (induction xs arbitrary: i)
  case Nil
  then show ?case by simp
next
  case (Cons x xs)
  then show ?case
    by (cases "P x") (auto simp: less_Suc_eq_0_disj nth_Cons' split: nat.splits)
qed

lemma splice1_split:
  "i < length xs \<Longrightarrow> xs = take i xs @ xs ! i # drop (Suc i) xs"
  by (simp add: id_take_nth_drop)

lemma set_splice1_subset: "set (splice1 i xs) \<subseteq> set xs"
  by (auto simp: splice1_def dest: in_set_takeD in_set_dropD)

lemma length_splice1 [simp]: "i < length xs \<Longrightarrow> length (splice1 i xs) = length xs - 1"
  by (simp add: splice1_def)

lemma map_splice1: "map f (splice1 i xs) = splice1 i (map f xs)"
  by (simp add: splice1_def take_map drop_map)

lemma distinct_splice1: "distinct xs \<Longrightarrow> distinct (splice1 i xs)"
  by (simp add: splice1_def distinct_append set_take_disj_set_drop_if_distinct)

lemma sum_list_splice1:
  fixes f :: "'a \<Rightarrow> int"
  assumes "i < length xs"
  shows "sum_list (map f (splice1 i xs)) = sum_list (map f xs) - f (xs ! i)"
proof -
  have "sum_list (map f xs)
      = sum_list (map f (take i xs)) + f (xs ! i) + sum_list (map f (drop (Suc i) xs))"
    by (subst splice1_split [OF assms]) simp
  then show ?thesis by (simp add: splice1_def)
qed

lemma mset_splice1_Cons: "i < length xs \<Longrightarrow> set xs = insert (xs ! i) (set (splice1 i xs))"
proof -
  assume "i < length xs"
  then have "set xs = set (take i xs @ xs ! i # drop (Suc i) xs)"
    using splice1_split by metis
  then show ?thesis by (simp add: splice1_def)
qed

lemma sum_list_filter_le:
  fixes f :: "'a \<Rightarrow> int"
  assumes "\<And>x. x \<in> set xs \<Longrightarrow> 0 \<le> f x"
  shows "sum_list (map f (filter P xs)) \<le> sum_list (map f xs)"
  using assms by (induction xs) (auto intro: add_increasing)

lemma int_length_filter: "int (length xs) \<le> n \<Longrightarrow> int (length (filter P xs)) \<le> n"
  by (rule order_trans) (simp_all only: of_nat_le_iff length_filter_le)

lemma list_all_filter: "list_all P xs \<Longrightarrow> list_all P (filter Q xs)"
  by (simp add: list_all_iff)

lemma sum_list_nonneg_map:
  fixes f :: "'a \<Rightarrow> int"
  shows "(\<And>x. x \<in> set xs \<Longrightarrow> 0 \<le> f x) \<Longrightarrow> 0 \<le> sum_list (map f xs)"
  by (induction xs) auto

subsection \<open>Event logs: replay by a step that may reject\<close>

fun replay :: "('s \<Rightarrow> 'e \<Rightarrow> 'x + 's) \<Rightarrow> 's \<Rightarrow> 'e list \<Rightarrow> 'x + 's" where
  "replay f s [] = Inr s"
| "replay f s (e # es) = (case f s e of Inl x \<Rightarrow> Inl x | Inr s' \<Rightarrow> replay f s' es)"

lemma replay_append:
  "replay f s (es @ es') =
     (case replay f s es of Inl x \<Rightarrow> Inl x | Inr s' \<Rightarrow> replay f s' es')"
  by (induction es arbitrary: s) (auto split: sum.splits)

lemma replay_append_Inr:
  "replay f s es = Inr s' \<Longrightarrow> replay f s (es @ es') = replay f s' es'"
  by (simp add: replay_append)

lemma replay_prefix:
  "replay f s (es @ es') = Inr s'' \<Longrightarrow> \<exists>s'. replay f s es = Inr s' \<and> replay f s' es' = Inr s''"
  by (auto simp: replay_append split: sum.splits)

lemma replay_snoc_Inr:
  "replay f s es = Inr s' \<Longrightarrow> replay f s (es @ [e]) = f s' e"
  by (simp add: replay_append split: sum.splits)

text \<open>
  The contract of an event log with a rejecting step: an accepted event keeps the invariant
  and advances the cursor to the event's own sequence number, one past the old cursor.
\<close>

locale event_log =
  fixes step :: "'s \<Rightarrow> 'e \<Rightarrow> 'x + 's"
    and inv :: "'s \<Rightarrow> bool"
    and cursor :: "'s \<Rightarrow> int"
    and seq_of :: "'e \<Rightarrow> int"
  assumes step_inv: "inv s \<Longrightarrow> step s e = Inr s' \<Longrightarrow> inv s'"
    and step_cursor: "step s e = Inr s' \<Longrightarrow> seq_of e = cursor s + 1 \<and> cursor s' = seq_of e"
begin

lemma replay_inv: "inv s \<Longrightarrow> replay step s es = Inr s' \<Longrightarrow> inv s'"
  by (induction es arbitrary: s) (auto split: sum.splits intro: step_inv)

lemma replay_cursor: "replay step s es = Inr s' \<Longrightarrow> cursor s' = cursor s + int (length es)"
proof (induction es arbitrary: s)
  case Nil
  then show ?case by simp
next
  case (Cons e es)
  from Cons.prems obtain t where t: "step s e = Inr t" "replay step t es = Inr s'"
    by (auto split: sum.splits)
  from Cons.IH [OF t(2)] step_cursor [OF t(1)] show ?case by simp
qed

lemma replay_seqs:
  "replay step s es = Inr s' \<Longrightarrow> map seq_of es = [cursor s + 1 .. cursor s + int (length es)]"
proof (induction es arbitrary: s)
  case Nil
  then show ?case by simp
next
  case (Cons e es)
  from Cons.prems obtain t where t: "step s e = Inr t" "replay step t es = Inr s'"
    by (auto split: sum.splits)
  have "map seq_of es = [cursor s + 1 + 1 .. cursor s + int (length (e # es))]"
    using Cons.IH [OF t(2)] step_cursor [OF t(1)] by (simp add: algebra_simps)
  then show ?case using step_cursor [OF t(1)] by (simp add: upto_rec1)
qed

text \<open>A fact about the log read so far and the state it leads to, proved event by event.\<close>

lemma replay_snoc_induct:
  assumes "replay step s es = Inr s'" and "P [] s"
    and "\<And>es t e t'. replay step s es = Inr t \<Longrightarrow> P es t \<Longrightarrow> step t e = Inr t' \<Longrightarrow> P (es @ [e]) t'"
  shows "P es s'"
  using assms(1)
proof (induction es arbitrary: s' rule: rev_induct)
  case Nil
  with assms(2) show ?case by simp
next
  case (snoc e es)
  then obtain t where t: "replay step s es = Inr t" "step t e = Inr s'"
    by (auto simp: replay_append split: sum.splits)
  from assms(3) [OF t(1) snoc.IH [OF t(1)] t(2)] show ?case .
qed

text \<open>A fact about two states that every accepted event keeps holds across any tail.\<close>

lemma replay_keeps:
  assumes "replay step s es = Inr s'" and "inv s" and "Q s"
    and "\<And>t e t'. inv t \<Longrightarrow> Q t \<Longrightarrow> step t e = Inr t' \<Longrightarrow> Q t'"
  shows "Q s'"
  using assms(1-3)
proof (induction es arbitrary: s)
  case Nil
  then show ?case by simp
next
  case (Cons e es)
  from Cons.prems obtain t where t: "step s e = Inr t" "replay step t es = Inr s'"
    by (auto split: sum.splits)
  with Cons.prems show ?case by (auto intro: Cons.IH step_inv assms(4))
qed

end

subsection \<open>Components: runs of a total step\<close>

definition run :: "('o \<Rightarrow> 's \<Rightarrow> 's) \<Rightarrow> 'o list \<Rightarrow> 's \<Rightarrow> 's" where
  "run step ops s = fold step ops s"

lemma run_simps [simp]:
  "run step [] s = s" "run step (x # xs) s = run step xs (step x s)"
  "run step (xs @ ys) s = run step ys (run step xs s)"
  by (simp_all add: run_def)

text \<open>
  The contract of a component whose operations are total: every operation keeps the
  invariant. \<open>measure_of\<close> is a quantity no operation lets fall (a cursor, a counter).
\<close>

locale component =
  fixes step :: "'o \<Rightarrow> 's \<Rightarrow> 's" and inv :: "'s \<Rightarrow> bool"
  assumes step_inv: "inv s \<Longrightarrow> inv (step x s)"
begin

lemma run_inv: "inv s \<Longrightarrow> inv (run step ops s)"
  by (induction ops arbitrary: s) (auto intro: step_inv)

lemma run_keeps:
  assumes "inv s" "Q s" and "\<And>x t. inv t \<Longrightarrow> Q t \<Longrightarrow> Q (step x t)"
  shows "Q (run step ops s)"
  using assms(1,2) by (induction ops arbitrary: s) (auto intro: step_inv assms(3))

end

locale monotone_component = component step inv
  for step :: "'o \<Rightarrow> 's \<Rightarrow> 's" and inv :: "'s \<Rightarrow> bool" +
  fixes measure_of :: "'s \<Rightarrow> int"
  assumes step_mono: "inv s \<Longrightarrow> measure_of s \<le> measure_of (step x s)"
begin

lemma run_mono: "inv s \<Longrightarrow> measure_of s \<le> measure_of (run step ops s)"
proof (induction ops arbitrary: s)
  case Nil
  then show ?case by simp
next
  case (Cons x ops)
  from Cons.IH [OF step_inv [OF Cons.prems]] step_mono [OF Cons.prems] show ?case
    by (metis order_trans run_simps(2))
qed

end

end
