(* ===== verification/JsonValue.thy ===== *)
theory JsonValue
  imports OrionPrelude Complex_Main "HOL-Library.Multiset"
begin

section \<open>Runtime values and their canonical digest\<close>

text \<open>
  Models \<open>src/src/runtime/protocol/canonical.ts\<close> over JavaScript's JSON-like values.
  An object is the list of its own properties in property order: array-index keys first in
  ascending order, then the others in insertion order (\<open>own_order\<close>). What the file takes
  from the platform is collected in \<open>js_env\<close>: \<open>JSON.stringify\<close> and \<open>JSON.parse\<close>,
  \<open>String(v)\<close> of a non-string, Node's SHA-256 and the collation of \<open>localeCompare\<close>.
  Every theorem of the development holds for all of them, unless it names a hypothesis.
\<close>

datatype jsnum = Fin rat | NaN | PosInf | NegInf

datatype jsval =
    JUndefined
  | JNull
  | JBool bool
  | JNum jsnum
  | JStr jsstr
  | JArr "jsval list"
  | JObj "(jsstr \<times> jsval) list"

record js_env =
  json_stringify :: "jsval \<Rightarrow> jsstr"
  json_parse :: "jsstr \<Rightarrow> jsval option"
  string_of :: "jsval \<Rightarrow> jsstr"
  sha256_hex :: "jsstr \<Rightarrow> jsstr"
  locale_le :: "jsstr \<Rightarrow> jsstr \<Rightarrow> bool"

subsection \<open>Property access\<close>

text \<open>
  \<open>v.k\<close> and \<open>k in v\<close> for the values the program inspects. On \<open>null\<close> and
  \<open>undefined\<close> the access throws; the callers below test for that first.
\<close>

fun get_prop :: "jsval \<Rightarrow> jsstr \<Rightarrow> jsval" where
  "get_prop (JObj kvs) k = (case map_of kvs k of None \<Rightarrow> JUndefined | Some v \<Rightarrow> v)"
| "get_prop _ k = JUndefined"

fun has_prop :: "jsval \<Rightarrow> jsstr \<Rightarrow> bool" where
  "has_prop (JObj kvs) k = (map_of kvs k \<noteq> None)"
| "has_prop _ k = False"

text \<open>\<open>typeof v === 'object' \<and> v !== null \<and> !Array.isArray(v)\<close>.\<close>

fun is_record :: "jsval \<Rightarrow> bool" where
  "is_record (JObj _) = True"
| "is_record _ = False"

text \<open>\<open>const { k, ...rest } = v\<close> on an object: the rest.\<close>

fun rest_without :: "jsstr \<Rightarrow> jsval \<Rightarrow> jsval" where
  "rest_without k (JObj kvs) = JObj (filter (\<lambda>kv. fst kv \<noteq> k) kvs)"
| "rest_without k v = JObj []"

fun int_of_val :: "jsval \<Rightarrow> int option" where
  "int_of_val (JNum (Fin q)) =
     (if snd (quotient_of q) = 1 then Some (fst (quotient_of q)) else None)"
| "int_of_val _ = None"

text \<open>\<open>Number.isSafeInteger(v)\<close>.\<close>

definition val_is_safe_integer :: "jsval \<Rightarrow> bool" where
  "val_is_safe_integer v =
     (case int_of_val v of None \<Rightarrow> False | Some n \<Rightarrow> is_safe_integer n)"

definition jint :: "int \<Rightarrow> jsval" where
  "jint n = JNum (Fin (of_int n))"

lemma int_of_val_jint [simp]: "int_of_val (jint n) = Some n"
  by (simp add: jint_def)

lemma val_is_safe_integer_jint [simp]: "val_is_safe_integer (jint n) = is_safe_integer n"
  by (simp add: val_is_safe_integer_def)

subsection \<open>Property order\<close>

text \<open>
  A canonical array index: a decimal numeral without leading zeros below \<open>2 ^ 32 - 1\<close>.
  \<open>Object.entries\<close>, \<open>Object.fromEntries\<close> and \<open>JSON.stringify\<close> list such keys first.
\<close>

definition is_digit :: "16 word \<Rightarrow> bool" where
  "is_digit u \<longleftrightarrow> 0x30 \<le> u \<and> u \<le> 0x39"

definition dec_value :: "jsstr \<Rightarrow> nat" where
  "dec_value s = foldl (\<lambda>n u. 10 * n + unat (u - 0x30)) 0 s"

definition is_index_key :: "jsstr \<Rightarrow> bool" where
  "is_index_key s \<longleftrightarrow> s \<noteq> [] \<and> list_all is_digit s \<and> (hd s \<noteq> 0x30 \<or> length s = 1)
     \<and> dec_value s < 2 ^ 32 - 1"

text \<open>A stable sort by an order given as a predicate, as \<open>Array.prototype.sort\<close> is.\<close>

fun ins_by :: "('a \<Rightarrow> 'a \<Rightarrow> bool) \<Rightarrow> 'a \<Rightarrow> 'a list \<Rightarrow> 'a list" where
  "ins_by le x [] = [x]"
| "ins_by le x (y # ys) = (if le x y then x # y # ys else y # ins_by le x ys)"

fun sort_by :: "('a \<Rightarrow> 'a \<Rightarrow> bool) \<Rightarrow> 'a list \<Rightarrow> 'a list" where
  "sort_by le [] = []"
| "sort_by le (x # xs) = ins_by le x (sort_by le xs)"

definition own_order :: "(jsstr \<times> 'v) list \<Rightarrow> (jsstr \<times> 'v) list" where
  "own_order kvs =
     sort_by (\<lambda>a b. dec_value (fst a) \<le> dec_value (fst b)) (filter (is_index_key \<circ> fst) kvs)
     @ filter (Not \<circ> is_index_key \<circ> fst) kvs"

subsection \<open>canonicalRuntimeJson and digestRuntimeValue\<close>

fun sortValue :: "(jsstr \<Rightarrow> jsstr \<Rightarrow> bool) \<Rightarrow> jsval \<Rightarrow> jsval" where
  "sortValue le (JArr xs) = JArr (map (sortValue le) xs)"
| "sortValue le (JObj kvs) =
     JObj (own_order (sort_by (\<lambda>a b. le (fst a) (fst b))
       (map (\<lambda>(k, v). (k, sortValue le v)) kvs)))"
| "sortValue le v = v"

definition canonicalRuntimeJson :: "js_env \<Rightarrow> jsval \<Rightarrow> jsstr" where
  "canonicalRuntimeJson E v = json_stringify E (sortValue (locale_le E) v)"

definition digestRuntimeValue :: "js_env \<Rightarrow> jsval \<Rightarrow> jsstr" where
  "digestRuntimeValue E v = sha256_hex E (canonicalRuntimeJson E v)"

subsection \<open>Sorting facts\<close>

lemma mset_ins_by [simp]: "mset (ins_by le x xs) = add_mset x (mset xs)"
  by (induction xs) auto

lemma mset_sort_by [simp]: "mset (sort_by le xs) = mset xs"
  by (induction xs) auto

lemma set_sort_by [simp]: "set (sort_by le xs) = set xs"
  by (metis mset_sort_by set_mset_mset)

lemma map_ins_by:
  "(\<And>a b. le' (f a) (f b) = le a b) \<Longrightarrow> map f (ins_by le x xs) = ins_by le' (f x) (map f xs)"
  by (induction xs) auto

lemma map_sort_by:
  "(\<And>a b. le' (f a) (f b) = le a b) \<Longrightarrow> map f (sort_by le xs) = sort_by le' (map f xs)"
  by (induction xs) (simp_all add: map_ins_by [of le' f le])

text \<open>
  Where the order is linear on the elements that occur, the result of sorting depends on
  the multiset of the elements alone.
\<close>

definition linear_on :: "('a \<Rightarrow> 'a \<Rightarrow> bool) \<Rightarrow> 'a set \<Rightarrow> bool" where
  "linear_on le A \<longleftrightarrow> (\<forall>a \<in> A. \<forall>b \<in> A. le a b \<or> le b a) \<and> (\<forall>a \<in> A. \<forall>b \<in> A. le a b \<and> le b a \<longrightarrow> a = b)
     \<and> (\<forall>a \<in> A. \<forall>b \<in> A. \<forall>c \<in> A. le a b \<and> le b c \<longrightarrow> le a c)"

lemma linear_on_total: "linear_on le A \<Longrightarrow> a \<in> A \<Longrightarrow> b \<in> A \<Longrightarrow> \<not> le a b \<Longrightarrow> le b a"
  unfolding linear_on_def by blast

lemma linear_on_antisym: "linear_on le A \<Longrightarrow> le a b \<Longrightarrow> le b a \<Longrightarrow> a \<in> A \<Longrightarrow> b \<in> A \<Longrightarrow> a = b"
  unfolding linear_on_def by blast

lemma linear_on_trans:
  "linear_on le A \<Longrightarrow> le a b \<Longrightarrow> le b c \<Longrightarrow> a \<in> A \<Longrightarrow> b \<in> A \<Longrightarrow> c \<in> A \<Longrightarrow> le a c"
  unfolding linear_on_def by blast

lemma linear_on_subset: "linear_on le A \<Longrightarrow> B \<subseteq> A \<Longrightarrow> linear_on le B"
  unfolding linear_on_def by blast

lemma sorted_wrt_ins_by:
  "linear_on le (insert x (set xs)) \<Longrightarrow> sorted_wrt le xs \<Longrightarrow> sorted_wrt le (ins_by le x xs)"
proof (induction xs)
  case Nil
  then show ?case by simp
next
  case (Cons y ys)
  have lin: "linear_on le (insert x (set ys))"
    by (rule linear_on_subset [OF Cons.prems(1)]) auto
  have set_ins: "set (ins_by le x ys) = insert x (set ys)"
    by (metis mset_ins_by set_mset_add_mset_insert set_mset_mset)
  show ?case
  proof (cases "le x y")
    case True
    have "le x z" if "z \<in> set ys" for z
      using linear_on_trans [OF Cons.prems(1) True, of z] Cons.prems(2) that by simp
    with True Cons.prems(2) show ?thesis by simp
  next
    case False
    then have "le y x" by (intro linear_on_total [OF Cons.prems(1)]) simp_all
    then show ?thesis using False Cons.IH [OF lin] Cons.prems(2) set_ins by auto
  qed
qed

lemma sorted_wrt_sort_by: "linear_on le (set xs) \<Longrightarrow> sorted_wrt le (sort_by le xs)"
proof (induction xs)
  case Nil
  then show ?case by simp
next
  case (Cons x xs)
  have "linear_on le (set xs)" by (rule linear_on_subset [OF Cons.prems]) auto
  with Cons show ?case by (auto intro!: sorted_wrt_ins_by)
qed

lemma sorted_wrt_unique:
  assumes "linear_on le (set xs)" "sorted_wrt le xs" "sorted_wrt le ys" "mset xs = mset ys"
  shows "xs = ys"
  using assms
proof (induction xs arbitrary: ys)
  case Nil
  then show ?case by simp
next
  case (Cons x xs)
  from Cons.prems(4) obtain y ys' where ys: "ys = y # ys'" by (cases ys) auto
  have sets: "set (x # xs) = set ys" using Cons.prems(4) by (metis mset_eq_setD)
  have "x = y"
  proof (rule ccontr)
    assume "x \<noteq> y"
    with sets ys have "y \<in> set xs" "x \<in> set ys'" by auto
    with Cons.prems(2,3) ys have "le x y" "le y x" by auto
    with \<open>x \<noteq> y\<close> \<open>y \<in> set xs\<close> linear_on_antisym [OF Cons.prems(1)] show False by simp
  qed
  moreover have "xs = ys'"
  proof (rule Cons.IH)
    show "linear_on le (set xs)" by (rule linear_on_subset [OF Cons.prems(1)]) auto
  qed (use Cons.prems ys \<open>x = y\<close> in simp_all)
  ultimately show ?case using ys by simp
qed

lemma sort_by_mset_cong:
  assumes "linear_on le (set xs)" and "mset xs = mset ys"
  shows "sort_by le xs = sort_by le ys"
proof (rule sorted_wrt_unique)
  have "set ys = set xs" using assms(2) by (metis mset_eq_setD)
  then show "sorted_wrt le (sort_by le ys)" using assms(1) by (simp add: sorted_wrt_sort_by)
qed (use assms in \<open>simp_all add: sorted_wrt_sort_by\<close>)

end
