(* ===== verification/RuntimeProtocol.thy ===== *)
theory RuntimeProtocol
  imports JsonValue
begin

section \<open>The typed runtime protocol\<close>

text \<open>
  Models the inferred types of \<open>src/src/runtime/protocol/runtime-protocol-v1.ts\<close>: the
  commands and events of \<open>AgentRuntimeCommandV1\<close> and \<open>RuntimeEventV1\<close> as datatypes
  (an optional property is an \<open>option\<close>, an enumeration a datatype), the envelope as a
  record and \<open>isRuntimeId\<close> as an executable test of the UUID pattern.
  Text and identities are JavaScript strings.
\<close>

subsection \<open>Enumerations\<close>

datatype turn_mode = ModeBuild | ModePlan | ModeAuto | ModeGoal | ModeMaintenance

datatype turn_kind = KindRegular | KindGoal | KindMaintenance

datatype queue_source = SourceStart | SourceFollowUp

datatype turn_terminal = TermCompleted | TermFailed | TermInterrupted

datatype tool_terminal = ToolCompleted | ToolFailed | ToolInterrupted | ToolIndeterminate

datatype return_mode = ReturnBuild | ReturnAuto

datatype review_action = Approve | Continue | Cancel

datatype item_kind =
  IkMessage | IkReasoning | IkCommand | IkFileChange | IkMcp | IkPlan | IkCompact

datatype item_role = RoleUser | RoleAssistant | RoleSystem | RoleTool

datatype delta_channel = ChContent | ChReasoning | ChOutput

datatype approval_scope = ScopeOnce | ScopeProject | ScopeGlobal

datatype durability = Durable | Ephemeral

subsection \<open>Commands\<close>

datatype runtime_command =
    CmdInitialize jsstr "jsstr option"
  | CmdThreadStart "jsstr option" jsstr
  | CmdThreadResume jsstr "int option"
  | CmdThreadFork jsstr "int option" "jsstr option"
  | CmdTurnStart jsstr turn_mode "jsstr option"
  | CmdTurnSteer jsstr
  | CmdTurnFollowUp jsstr
  | CmdTurnInterrupt "jsstr option"
  | CmdApprovalRespond jsstr bool "approval_scope option"

subsection \<open>Events\<close>

record queued_data =
  qd_queueId :: jsstr
  qd_input :: jsstr
  qd_mode :: turn_mode
  qd_kind :: turn_kind
  qd_source :: queue_source
  qd_enqueuedAt :: int
  qd_deadline :: int

record commit_data =
  cd_commitId :: jsstr
  cd_terminal :: turn_terminal
  cd_digest :: jsstr
  cd_receipt :: jsstr
  cd_outcome :: "jsstr option"
  cd_error :: "jsstr option"
  cd_reason :: "jsstr option"

record review_requested_data =
  rq_reviewId :: jsstr
  rq_revision :: jsstr
  rq_planDigest :: jsstr
  rq_planReceiptDigest :: jsstr
  rq_createdAt :: int
  rq_createdModel :: jsstr
  rq_returnMode :: return_mode

record review_resolved_data =
  rs_reviewId :: jsstr
  rs_previousRevision :: jsstr
  rs_revision :: jsstr
  rs_planDigest :: jsstr
  rs_action :: review_action
  rs_resolvedAt :: int
  rs_feedback :: "jsstr option"
  rs_feedbackDigest :: "jsstr option"

record item_started_data =
  is_kind :: item_kind
  is_parentItemId :: "jsstr option"
  is_role :: "item_role option"
  is_name :: "jsstr option"
  is_inputDigest :: "jsstr option"
  is_intent :: "jsstr option"

record tool_receipt_data =
  tr_invocationId :: jsstr
  tr_terminal :: tool_terminal
  tr_success :: bool
  tr_outputDigest :: jsstr
  tr_receiptDigest :: jsstr
  tr_intentDigest :: jsstr

text \<open>
  Positional fields, in the order of the source: \<open>ThreadForked sourceThreadId sourceSeq\<close>,
  \<open>TurnStarted input mode queueId\<close>, \<open>TurnSteered itemId input\<close>,
  \<open>TurnInterruptRequested intentId reason\<close>, \<open>ItemDelta delta channel\<close>,
  \<open>ItemCompleted content summary outputDigest receipt\<close>, \<open>ItemFailed error receipt\<close>,
  \<open>ItemInterrupted reason receipt\<close>, \<open>ItemIndeterminate reason receipt\<close>,
  \<open>CompactStarted sourceSeq transactionId sourceReceiptDigest startedProjectionDigest\<close>,
  \<open>CompactCompleted checkpointId sourceSeq transactionId commitReceiptDigest
  nextModelVisibleHistoryDigest\<close>, \<open>CompactFailed error transactionId sourceSeq failureCode
  failureReceiptDigest\<close>, \<open>ApprovalRequested requestId toolName\<close>,
  \<open>StepSnapshotEvent snapshotId digest receipt\<close>, \<open>CapabilityReceiptEvent receiptId digest
  receipt\<close>.
\<close>

datatype (plugins only: size code) runtime_event =
    ThreadStarted "jsstr option"
  | ThreadResumed int
  | ThreadForked jsstr int
  | TurnStarted jsstr turn_mode "jsstr option"
  | TurnQueued queued_data
  | TurnQueueExpired jsstr
  | TurnSteered jsstr jsstr
  | TurnInterruptRequested jsstr "jsstr option"
  | TurnCommitted commit_data
  | PlanReviewRequested review_requested_data
  | PlanReviewResolved review_resolved_data
  | TurnCompleted "jsstr option"
  | TurnFailed jsstr
  | TurnInterrupted "jsstr option"
  | ItemStarted item_started_data
  | ItemDelta jsstr "delta_channel option"
  | ItemCompleted "jsstr option" "jsstr option" "jsstr option" "jsstr option"
  | ItemFailed jsstr "jsstr option"
  | ItemInterrupted "jsstr option" "jsstr option"
  | ItemIndeterminate jsstr "jsstr option"
  | CompactStarted int jsstr jsstr jsstr
  | CompactCompleted jsstr int jsstr jsstr jsstr
  | CompactFailed jsstr jsstr int jsstr jsstr
  | ApprovalRequested jsstr jsstr
  | StepSnapshotEvent jsstr jsstr jsstr
  | CapabilityReceiptEvent jsstr jsstr jsstr
  | ToolReceiptEvent tool_receipt_data

text \<open>\<open>RuntimeEventEnvelopeV1\<close>; \<open>protocolVersion\<close> is always 1.\<close>

record envelope =
  en_eventId :: jsstr
  en_seq :: int
  en_threadId :: jsstr
  en_turnId :: "jsstr option"
  en_stepId :: "jsstr option"
  en_itemId :: "jsstr option"
  en_durability :: durability
  en_timestamp :: int
  en_payload :: runtime_event

subsection \<open>Identities\<close>

definition is_hex :: "16 word \<Rightarrow> bool" where
  "is_hex u \<longleftrightarrow> 0x30 \<le> u \<and> u \<le> 0x39 \<or> 0x41 \<le> u \<and> u \<le> 0x46 \<or> 0x61 \<le> u \<and> u \<le> 0x66"

text \<open>The pattern \<open>UUID_PATTERN\<close>: groups of 8, 4, 4, 4 and 12 hexadecimal digits joined by
  dashes, the third starting with 1 to 8 and the fourth with 8, 9, a or b in either case.\<close>

definition isRuntimeId :: "jsstr \<Rightarrow> bool" where
  "isRuntimeId s \<longleftrightarrow> length s = 36
     \<and> (\<forall>i \<in> set [8, 13, 18, 23]. s ! i = 0x2D)
     \<and> list_all is_hex (take 8 s @ take 4 (drop 9 s) @ take 4 (drop 14 s) @ take 4 (drop 19 s)
          @ drop 24 s)
     \<and> 0x31 \<le> s ! 14 \<and> s ! 14 \<le> 0x38
     \<and> s ! 19 \<in> set [0x38, 0x39, 0x61, 0x62, 0x41, 0x42]"

lemma isRuntimeId_nonempty: "isRuntimeId s \<Longrightarrow> s \<noteq> []"
  by (auto simp: isRuntimeId_def)

lemma isRuntimeId_example: "isRuntimeId (js ''00000000-0000-4000-8000-000000000001'')"
  by code_simp

end
