(* ===== verification/ThreadState.thy ===== *)
theory ThreadState
  imports RuntimeProtocol
begin

section \<open>The state a Thread's event log projects to\<close>

text \<open>
  The data of \<open>src/src/runtime/thread-projection.ts\<close>: the interfaces of the projection and
  one constructor per way \<open>applyThreadEvent\<close> rejects an event. \<open>turns\<close> and \<open>items\<close>
  are association lists in insertion order. \<open>diagnosticEvents\<close> is its two optional fields.
\<close>

subsection \<open>The projected state\<close>

datatype item_status =
  IsStarted | IsCompleted | IsFailed | IsInterrupted | IsIndeterminate

datatype turn_status = TsActive | TsCompleted | TsFailed | TsInterrupted

datatype thread_status = ThNew | ThActive | ThIdle

datatype review_status = AwaitingReview | Approved | Continued | Cancelled

record item_projection =
  ip_itemId :: jsstr
  ip_turnId :: jsstr
  ip_stepId :: jsstr
  ip_kind :: item_kind
  ip_role :: "item_role option"
  ip_name :: "jsstr option"
  ip_inputDigest :: "jsstr option"
  ip_intent :: "jsstr option"
  ip_status :: item_status
  ip_startedSeq :: int
  ip_terminalSeq :: "int option"
  ip_summary :: "jsstr option"
  ip_content :: "jsstr option"
  ip_receipt :: "jsstr option"
  ip_error :: "jsstr option"

record commit_projection =
  cp_commitId :: jsstr
  cp_terminal :: turn_terminal
  cp_digest :: jsstr
  cp_receipt :: jsstr
  cp_outcome :: "jsstr option"
  cp_error :: "jsstr option"
  cp_reason :: "jsstr option"
  cp_seq :: int

record turn_projection =
  tp_turnId :: jsstr
  tp_status :: turn_status
  tp_mode :: turn_mode
  tp_input :: jsstr
  tp_startedSeq :: int
  tp_terminalSeq :: "int option"
  tp_itemIds :: "jsstr list"
  tp_steeringItemIds :: "jsstr list"
  tp_interruptIntentId :: "jsstr option"
  tp_commit :: "commit_projection option"

record queued_turn =
  qt_queueId :: jsstr
  qt_input :: jsstr
  qt_mode :: turn_mode
  qt_kind :: turn_kind
  qt_source :: queue_source
  qt_enqueuedAt :: int
  qt_deadline :: int
  qt_queuedSeq :: int

record plan_review =
  pr_reviewId :: jsstr
  pr_revision :: jsstr
  pr_planDigest :: jsstr
  pr_planReceiptDigest :: jsstr
  pr_status :: review_status
  pr_createdAt :: int
  pr_createdModel :: jsstr
  pr_returnMode :: return_mode
  pr_requestedSeq :: int
  pr_resolvedAt :: "int option"
  pr_resolvedSeq :: "int option"
  pr_feedback :: "jsstr option"
  pr_feedbackDigest :: "jsstr option"

record projection =
  threadId :: jsstr
  cursor :: int
  status :: thread_status
  activeTurnId :: "jsstr option"
  turns :: "(jsstr \<times> turn_projection) list"
  items :: "(jsstr \<times> item_projection) list"
  queue :: "queued_turn list"
  planReview :: "plan_review option"
  latestCapability :: "envelope option"
  latestStepSnapshot :: "envelope option"
  compactEvents :: "envelope list"
  stepSnapshotDigests :: "jsstr list"
  capabilityReceiptDigests :: "jsstr list"
  toolInvocationIds :: "jsstr list"

subsection \<open>Rejections\<close>

text \<open>
  One constructor per message of \<open>invariant(...)\<close>; \<open>PropertyOfNull\<close> is the
  \<open>TypeError\<close> a handler throws when it reads a property of \<open>null\<close> or of a missing item.
\<close>

datatype (plugins only: size code) rejection =
    EphemeralEvent
  | ThreadIdMismatch
  | ExpectedSeq int int
  | ThreadAlreadyStarted
  | IdentityRequired string
  | TurnAlreadyActive jsstr
  | TurnAlreadyExists jsstr
  | ThreadMustStartFirst
  | QueuedTurnMissing jsstr
  | QueueItemExists jsstr
  | QueueItemMissing jsstr
  | TurnNotActive jsstr
  | SteeringItemExists jsstr
  | DifferentInterruptIntent jsstr
  | NotTheActiveTurn jsstr
  | OpenItem jsstr
  | TerminalConflictsWithCommit jsstr
  | AlreadyCommitted jsstr
  | CommitReceiptNotJson
  | CommitReceiptIntegrity
  | ReviewNeedsCommittedTurn
  | AnotherReviewPending
  | ReviewNotBoundToReceipt
  | PlanReceiptIntegrity
  | NoReviewPending
  | StaleResolution
  | ContinueNeedsFeedback
  | FeedbackDigestInvalid
  | OnlyContinueBindsFeedback
  | ItemOutsideActiveTurn jsstr
  | ItemExists jsstr
  | ItemMissingOrTerminal jsstr
  | ItemIdentityChanged jsstr
  | SnapshotExists
  | CapabilityReceiptExists
  | ToolReceiptExists
  | ReceiptNotJson string
  | ReceiptIntegrity string
  | ReceiptIdentity string
  | DeltaNotDurable
  | PropertyOfNull

end
