(* ===== verification/ThreadProjection.thy ===== *)
theory ThreadProjection
  imports ThreadState
begin

section \<open>The durable Thread projection\<close>

text \<open>
  Models \<open>src/src/runtime/thread-projection.ts\<close>: the state a Thread's event log projects to,
  \<open>applyThreadEvent\<close> with every handler it dispatches to, \<open>projectThreadEvents\<close>,
  \<open>advanceThreadProjection\<close> and the digest check. An accepted event returns the new state;
  a \<open>ThreadProjectionInvariantError\<close> is \<open>Inl\<close> of the reason with the sequence number and
  the payload of the event, and the state the handler was mutating is dropped, as both callers
  drop it. \<open>turns\<close> and \<open>items\<close> are association lists in insertion order.
\<close>

subsection \<open>Rejecting an event\<close>

type_synonym invariant_error = "rejection \<times> int \<times> runtime_event"

type_synonym 'a result = "rejection + 'a"

definition invariant :: "rejection \<Rightarrow> envelope \<Rightarrow> invariant_error" where
  "invariant r ev = (r, en_seq ev, en_payload ev)"

text \<open>\<open>requiredIdentity\<close>: an absent or empty identity is rejected.\<close>

fun requiredIdentity :: "jsstr option \<Rightarrow> string \<Rightarrow> jsstr result" where
  "requiredIdentity None name = Inl (IdentityRequired name)"
| "requiredIdentity (Some s) name = (if s = [] then Inl (IdentityRequired name) else Inr s)"

definition turn_of :: "projection \<Rightarrow> jsstr \<Rightarrow> turn_projection option" where
  "turn_of st t = map_of (turns st) t"

definition item_of :: "projection \<Rightarrow> jsstr \<Rightarrow> item_projection option" where
  "item_of st i = map_of (items st) i"

definition put_turn :: "projection \<Rightarrow> jsstr \<Rightarrow> turn_projection \<Rightarrow> projection" where
  "put_turn st t tn = st\<lparr>turns := AList.update t tn (turns st)\<rparr>"

definition put_item :: "projection \<Rightarrow> jsstr \<Rightarrow> item_projection \<Rightarrow> projection" where
  "put_item st i it = st\<lparr>items := AList.update i it (items st)\<rparr>"

text \<open>
  \<open>turn.itemIds.map(id => state.items[id]).find(item => item.status === 'started')\<close>: the
  first listed item that is still open. Reading the status of a missing item throws.
\<close>

fun first_open_item :: "projection \<Rightarrow> jsstr list \<Rightarrow> (jsstr option) result" where
  "first_open_item st [] = Inr None"
| "first_open_item st (i # is) =
     (case item_of st i of
        None \<Rightarrow> Inl PropertyOfNull
      | Some it \<Rightarrow>
          if ip_status it = IsStarted then Inr (Some (ip_itemId it)) else first_open_item st is)"

subsection \<open>Turns and the queue\<close>

text \<open>\<open>state.queue.splice(state.queue.findIndex(...), 1)\<close> where the index exists.\<close>

definition take_queued :: "jsstr \<Rightarrow> queued_turn list \<Rightarrow> (queued_turn list) option" where
  "take_queued q qs =
     map_option (\<lambda>i. splice1 i qs) (find_index (\<lambda>x. qt_queueId x = q) qs)"

definition new_turn :: "jsstr \<Rightarrow> turn_mode \<Rightarrow> jsstr \<Rightarrow> int \<Rightarrow> turn_projection" where
  "new_turn t mode input sq =
     \<lparr>tp_turnId = t, tp_status = TsActive, tp_mode = mode, tp_input = input,
      tp_startedSeq = sq, tp_terminalSeq = None, tp_itemIds = [], tp_steeringItemIds = [],
      tp_interruptIntentId = None, tp_commit = None\<rparr>"

definition startTurn ::
  "projection \<Rightarrow> envelope \<Rightarrow> jsstr \<Rightarrow> turn_mode \<Rightarrow> jsstr option \<Rightarrow> projection result" where
  "startTurn st ev input mode queueId =
     (case requiredIdentity (en_turnId ev) ''turnId'' of
        Inl r \<Rightarrow> Inl r
      | Inr t \<Rightarrow>
          if truthy (activeTurnId st) then Inl (TurnAlreadyActive (the (activeTurnId st)))
          else if turn_of st t \<noteq> None then Inl (TurnAlreadyExists t)
          else if status st = ThNew then Inl ThreadMustStartFirst
          else (case (if truthy queueId then take_queued (the queueId) (queue st)
                      else Some (queue st)) of
                  None \<Rightarrow> Inl (QueuedTurnMissing (the queueId))
                | Some qs \<Rightarrow>
                    Inr ((put_turn st t (new_turn t mode input (en_seq ev)))
                           \<lparr>queue := qs, activeTurnId := Some t, status := ThActive\<rparr>)))"

definition queueTurn :: "projection \<Rightarrow> envelope \<Rightarrow> queued_data \<Rightarrow> projection result" where
  "queueTurn st ev d =
     (if \<exists>x \<in> set (queue st). qt_queueId x = qd_queueId d
      then Inl (QueueItemExists (qd_queueId d))
      else Inr (st\<lparr>queue := queue st @
        [\<lparr>qt_queueId = qd_queueId d, qt_input = qd_input d, qt_mode = qd_mode d,
          qt_kind = qd_kind d, qt_source = qd_source d, qt_enqueuedAt = qd_enqueuedAt d,
          qt_deadline = qd_deadline d, qt_queuedSeq = en_seq ev\<rparr>]\<rparr>))"

definition expireQueuedTurn :: "projection \<Rightarrow> jsstr \<Rightarrow> projection result" where
  "expireQueuedTurn st q =
     (case take_queued q (queue st) of
        None \<Rightarrow> Inl (QueueItemMissing q)
      | Some qs \<Rightarrow> Inr (st\<lparr>queue := qs\<rparr>))"

text \<open>The guard \<open>!turn || turn.status !== 'active' || state.activeTurnId !== turnId\<close>.\<close>

definition active_turn :: "projection \<Rightarrow> jsstr \<Rightarrow> turn_projection option" where
  "active_turn st t =
     (case turn_of st t of
        None \<Rightarrow> None
      | Some tn \<Rightarrow> if tp_status tn = TsActive \<and> activeTurnId st = Some t then Some tn else None)"

definition steerTurn :: "projection \<Rightarrow> envelope \<Rightarrow> jsstr \<Rightarrow> projection result" where
  "steerTurn st ev itemId =
     (case requiredIdentity (en_turnId ev) ''turnId'' of
        Inl r \<Rightarrow> Inl r
      | Inr t \<Rightarrow>
          (case active_turn st t of
             None \<Rightarrow> Inl (TurnNotActive t)
           | Some tn \<Rightarrow>
               if itemId \<in> set (tp_steeringItemIds tn) then Inl (SteeringItemExists itemId)
               else Inr (put_turn st t
                      (tn\<lparr>tp_steeringItemIds := tp_steeringItemIds tn @ [itemId]\<rparr>))))"

definition requestTurnInterrupt :: "projection \<Rightarrow> envelope \<Rightarrow> jsstr \<Rightarrow> projection result" where
  "requestTurnInterrupt st ev intentId =
     (case requiredIdentity (en_turnId ev) ''turnId'' of
        Inl r \<Rightarrow> Inl r
      | Inr t \<Rightarrow>
          (case active_turn st t of
             None \<Rightarrow> Inl (TurnNotActive t)
           | Some tn \<Rightarrow>
               if truthy (tp_interruptIntentId tn) \<and> tp_interruptIntentId tn \<noteq> Some intentId
               then Inl (DifferentInterruptIntent t)
               else Inr (put_turn st t (tn\<lparr>tp_interruptIntentId := Some intentId\<rparr>))))"

fun terminal_status :: "turn_terminal \<Rightarrow> turn_status" where
  "terminal_status TermCompleted = TsCompleted"
| "terminal_status TermFailed = TsFailed"
| "terminal_status TermInterrupted = TsInterrupted"

definition finishTurn :: "projection \<Rightarrow> envelope \<Rightarrow> turn_terminal \<Rightarrow> projection result" where
  "finishTurn st ev term =
     (case requiredIdentity (en_turnId ev) ''turnId'' of
        Inl r \<Rightarrow> Inl r
      | Inr t \<Rightarrow>
          (case turn_of st t of
             None \<Rightarrow> Inl (TurnNotActive t)
           | Some tn \<Rightarrow>
               if tp_status tn \<noteq> TsActive then Inl (TurnNotActive t)
               else if activeTurnId st \<noteq> Some t then Inl (NotTheActiveTurn t)
               else (case first_open_item st (tp_itemIds tn) of
                       Inl r \<Rightarrow> Inl r
                     | Inr (Some i) \<Rightarrow> Inl (OpenItem i)
                     | Inr None \<Rightarrow>
                         if (case tp_commit tn of None \<Rightarrow> False | Some c \<Rightarrow> cp_terminal c \<noteq> term)
                         then Inl (TerminalConflictsWithCommit t)
                         else Inr ((put_turn st t
                                (tn\<lparr>tp_status := terminal_status term,
                                    tp_terminalSeq := Some (en_seq ev)\<rparr>))
                              \<lparr>activeTurnId := None, status := ThIdle\<rparr>))))"

subsection \<open>Commits and plan reviews\<close>

fun terminal_name :: "turn_terminal \<Rightarrow> jsstr" where
  "terminal_name TermCompleted = js ''completed''"
| "terminal_name TermFailed = js ''failed''"
| "terminal_name TermInterrupted = js ''interrupted''"

fun val_of_opt :: "jsstr option \<Rightarrow> jsval" where
  "val_of_opt None = JUndefined"
| "val_of_opt (Some s) = JStr s"

text \<open>\<open>String(v ?? '')\<close>.\<close>

fun string_or_empty :: "js_env \<Rightarrow> jsval \<Rightarrow> jsstr" where
  "string_or_empty E JUndefined = []"
| "string_or_empty E JNull = []"
| "string_or_empty E (JStr s) = s"
| "string_or_empty E v = string_of E v"

definition commit_receipt_valid :: "js_env \<Rightarrow> jsval \<Rightarrow> commit_data \<Rightarrow> bool" where
  "commit_receipt_valid E receipt d \<longleftrightarrow>
     get_prop receipt (js ''digest'') = JStr (cd_digest d)
     \<and> digestRuntimeValue E (rest_without (js ''digest'') receipt) = cd_digest d
     \<and> get_prop receipt (js ''commitId'') = JStr (cd_commitId d)
     \<and> get_prop receipt (js ''terminal'') = JStr (terminal_name (cd_terminal d))"

definition commitTurn :: "js_env \<Rightarrow> projection \<Rightarrow> envelope \<Rightarrow> commit_data \<Rightarrow> projection result" where
  "commitTurn E st ev d =
     (case requiredIdentity (en_turnId ev) ''turnId'' of
        Inl r \<Rightarrow> Inl r
      | Inr t \<Rightarrow>
          (case active_turn st t of
             None \<Rightarrow> Inl (TurnNotActive t)
           | Some tn \<Rightarrow>
               if tp_commit tn \<noteq> None then Inl (AlreadyCommitted t)
               else (case first_open_item st (tp_itemIds tn) of
                       Inl r \<Rightarrow> Inl r
                     | Inr (Some i) \<Rightarrow> Inl (OpenItem i)
                     | Inr None \<Rightarrow>
                         (case json_parse E (cd_receipt d) of
                            None \<Rightarrow> Inl CommitReceiptNotJson
                          | Some receipt \<Rightarrow>
                              if receipt = JNull then Inl PropertyOfNull
                              else if \<not> commit_receipt_valid E receipt d
                              then Inl CommitReceiptIntegrity
                              else Inr (put_turn st t (tn\<lparr>tp_commit := Some
                                \<lparr>cp_commitId = cd_commitId d, cp_terminal = cd_terminal d,
                                 cp_digest = cd_digest d, cp_receipt = cd_receipt d,
                                 cp_outcome = cd_outcome d, cp_error = cd_error d,
                                 cp_reason = cd_reason d, cp_seq = en_seq ev\<rparr>\<rparr>))))))"

definition plan_receipt_valid ::
  "js_env \<Rightarrow> projection \<Rightarrow> jsstr \<Rightarrow> jsval \<Rightarrow> jsval \<Rightarrow> review_requested_data \<Rightarrow> bool" where
  "plan_receipt_valid E st t commit receipt d \<longleftrightarrow>
     get_prop commit (js ''planReceiptDigest'') = JStr (rq_planReceiptDigest d)
     \<and> get_prop receipt (js ''digest'') = JStr (rq_planReceiptDigest d)
     \<and> digestRuntimeValue E (rest_without (js ''digest'') receipt) = rq_planReceiptDigest d
     \<and> get_prop receipt (js ''planDigest'') = JStr (rq_planDigest d)
     \<and> get_prop receipt (js ''threadId'') = JStr (threadId st)
     \<and> get_prop receipt (js ''turnId'') = JStr t"

text \<open>The two parses inside the \<open>try\<close>: the commit and the plan receipt it holds.\<close>

definition parse_plan_receipt :: "js_env \<Rightarrow> jsstr \<Rightarrow> (jsval \<times> jsval) option" where
  "parse_plan_receipt E s =
     (case json_parse E s of
        None \<Rightarrow> None
      | Some commit \<Rightarrow>
          if commit = JNull then None
          else map_option (\<lambda>r. (commit, r))
            (json_parse E (string_or_empty E (get_prop commit (js ''planReceipt'')))))"

definition requestPlanReview ::
  "js_env \<Rightarrow> projection \<Rightarrow> envelope \<Rightarrow> review_requested_data \<Rightarrow> projection result" where
  "requestPlanReview E st ev d =
     (case requiredIdentity (en_turnId ev) ''turnId'' of
        Inl r \<Rightarrow> Inl r
      | Inr t \<Rightarrow>
          (case Option.bind (turn_of st t) tp_commit of
             None \<Rightarrow> Inl ReviewNeedsCommittedTurn
           | Some c \<Rightarrow>
               if map_option pr_status (planReview st) = Some AwaitingReview
               then Inl AnotherReviewPending
               else (case parse_plan_receipt E (cp_receipt c) of
                       None \<Rightarrow> Inl ReviewNotBoundToReceipt
                     | Some (commit, receipt) \<Rightarrow>
                         if receipt = JNull then Inl PropertyOfNull
                         else if \<not> plan_receipt_valid E st t commit receipt d
                         then Inl PlanReceiptIntegrity
                         else Inr (st\<lparr>planReview := Some
                           \<lparr>pr_reviewId = rq_reviewId d, pr_revision = rq_revision d,
                            pr_planDigest = rq_planDigest d,
                            pr_planReceiptDigest = rq_planReceiptDigest d,
                            pr_status = AwaitingReview, pr_createdAt = rq_createdAt d,
                            pr_createdModel = rq_createdModel d,
                            pr_returnMode = rq_returnMode d, pr_requestedSeq = en_seq ev,
                            pr_resolvedAt = None, pr_resolvedSeq = None, pr_feedback = None,
                            pr_feedbackDigest = None\<rparr>\<rparr>))))"

fun resolved_status :: "review_action \<Rightarrow> review_status" where
  "resolved_status Approve = Approved"
| "resolved_status Continue = Continued"
| "resolved_status Cancel = Cancelled"

definition resolvePlanReview ::
  "js_env \<Rightarrow> projection \<Rightarrow> envelope \<Rightarrow> review_resolved_data \<Rightarrow> projection result" where
  "resolvePlanReview E st ev d =
     (case planReview st of
        None \<Rightarrow> Inl NoReviewPending
      | Some current \<Rightarrow>
          if pr_status current \<noteq> AwaitingReview then Inl NoReviewPending
          else if pr_reviewId current \<noteq> rs_reviewId d
            \<or> pr_revision current \<noteq> rs_previousRevision d
            \<or> pr_planDigest current \<noteq> rs_planDigest d then Inl StaleResolution
          else if rs_action d = Continue
            \<and> (\<not> truthy (rs_feedback d) \<or> \<not> truthy (rs_feedbackDigest d))
          then Inl ContinueNeedsFeedback
          else let feedback = map_option js_trim (rs_feedback d) in
            if rs_action d = Continue
              \<and> Some (digestRuntimeValue E (val_of_opt feedback)) \<noteq> rs_feedbackDigest d
            then Inl FeedbackDigestInvalid
            else if rs_action d \<noteq> Continue
              \<and> (truthy (rs_feedback d) \<or> truthy (rs_feedbackDigest d))
            then Inl OnlyContinueBindsFeedback
            else Inr (st\<lparr>planReview := Some (current
              \<lparr>pr_revision := rs_revision d, pr_status := resolved_status (rs_action d),
               pr_resolvedAt := Some (rs_resolvedAt d), pr_resolvedSeq := Some (en_seq ev),
               pr_feedback := (if truthy feedback then feedback else pr_feedback current),
               pr_feedbackDigest :=
                 (if truthy (rs_feedbackDigest d) then rs_feedbackDigest d
                  else pr_feedbackDigest current)\<rparr>)\<rparr>))"

subsection \<open>Items\<close>

definition new_item :: "jsstr \<Rightarrow> jsstr \<Rightarrow> jsstr \<Rightarrow> item_started_data \<Rightarrow> int \<Rightarrow> item_projection" where
  "new_item i t s d sq =
     \<lparr>ip_itemId = i, ip_turnId = t, ip_stepId = s, ip_kind = is_kind d, ip_role = is_role d,
      ip_name = is_name d, ip_inputDigest = is_inputDigest d, ip_intent = is_intent d,
      ip_status = IsStarted, ip_startedSeq = sq, ip_terminalSeq = None, ip_summary = None,
      ip_content = None, ip_receipt = None, ip_error = None\<rparr>"

definition startItem :: "projection \<Rightarrow> envelope \<Rightarrow> item_started_data \<Rightarrow> projection result" where
  "startItem st ev d =
     (case requiredIdentity (en_turnId ev) ''turnId'' of
        Inl r \<Rightarrow> Inl r
      | Inr t \<Rightarrow>
     (case requiredIdentity (en_stepId ev) ''stepId'' of
        Inl r \<Rightarrow> Inl r
      | Inr s \<Rightarrow>
     (case requiredIdentity (en_itemId ev) ''itemId'' of
        Inl r \<Rightarrow> Inl r
      | Inr i \<Rightarrow>
          (case active_turn st t of
             None \<Rightarrow> Inl (ItemOutsideActiveTurn i)
           | Some tn \<Rightarrow>
               if item_of st i \<noteq> None then Inl (ItemExists i)
               else Inr (put_turn (put_item st i (new_item i t s d (en_seq ev))) t
                      (tn\<lparr>tp_itemIds := tp_itemIds tn @ [i]\<rparr>))))))"

text \<open>The terminal fields of an item: content, receipt, summary and \<open>error ?? reason\<close>.\<close>

definition finishItem ::
  "projection \<Rightarrow> envelope \<Rightarrow> item_status \<Rightarrow> jsstr option \<Rightarrow> jsstr option \<Rightarrow> jsstr option
     \<Rightarrow> jsstr option \<Rightarrow> projection result" where
  "finishItem st ev ist content receipt summary err =
     (case requiredIdentity (en_itemId ev) ''itemId'' of
        Inl r \<Rightarrow> Inl r
      | Inr i \<Rightarrow>
          (case item_of st i of
             None \<Rightarrow> Inl (ItemMissingOrTerminal i)
           | Some it \<Rightarrow>
               if ip_status it \<noteq> IsStarted then Inl (ItemMissingOrTerminal i)
               else if en_turnId ev \<noteq> Some (ip_turnId it) \<or> en_stepId ev \<noteq> Some (ip_stepId it)
               then Inl (ItemIdentityChanged i)
               else Inr (put_item st i
                      (it\<lparr>ip_status := ist, ip_terminalSeq := Some (en_seq ev),
                         ip_content := content, ip_receipt := receipt,
                         ip_summary := summary, ip_error := err\<rparr>))))"

subsection \<open>Receipts\<close>

definition parseIntegrityReceipt :: "js_env \<Rightarrow> jsstr \<Rightarrow> string \<Rightarrow> jsval result" where
  "parseIntegrityReceipt E s label =
     (case json_parse E s of
        None \<Rightarrow> Inl (ReceiptNotJson label)
      | Some receipt \<Rightarrow>
          if \<not> is_record receipt then Inl (ReceiptNotJson label)
          else (case get_prop receipt (js ''digest'') of
                  JStr digest \<Rightarrow>
                    if digestRuntimeValue E (rest_without (js ''digest'') receipt) \<noteq> digest
                    then Inl (ReceiptIntegrity label) else Inr receipt
                | _ \<Rightarrow> Inl (ReceiptIntegrity label)))"

definition receipt_envelope_matches :: "jsval \<Rightarrow> envelope \<Rightarrow> bool" where
  "receipt_envelope_matches receipt ev \<longleftrightarrow>
     get_prop receipt (js ''threadId'') = JStr (en_threadId ev)
     \<and> get_prop receipt (js ''turnId'') = val_of_opt (en_turnId ev)
     \<and> get_prop receipt (js ''stepId'') = val_of_opt (en_stepId ev)"

definition validateStepSnapshotReceipt ::
  "js_env \<Rightarrow> envelope \<Rightarrow> jsstr \<Rightarrow> jsstr \<Rightarrow> jsstr \<Rightarrow> unit result" where
  "validateStepSnapshotReceipt E ev snapshotId digest receipt =
     (case parseIntegrityReceipt E receipt ''step snapshot'' of
        Inl r \<Rightarrow> Inl r
      | Inr v \<Rightarrow>
          if get_prop v (js ''snapshotId'') = JStr snapshotId
             \<and> get_prop v (js ''snapshotDigest'') = JStr digest
             \<and> receipt_envelope_matches v ev
          then Inr () else Inl (ReceiptIdentity ''step snapshot''))"

definition validateCapabilityReceipt ::
  "js_env \<Rightarrow> envelope \<Rightarrow> jsstr \<Rightarrow> jsstr \<Rightarrow> jsstr \<Rightarrow> unit result" where
  "validateCapabilityReceipt E ev receiptId digest receipt =
     (case parseIntegrityReceipt E receipt ''capability'' of
        Inl r \<Rightarrow> Inl r
      | Inr v \<Rightarrow>
          if get_prop v (js ''requestId'') = JStr receiptId
             \<and> receipt_envelope_matches v ev
             \<and> get_prop v (js ''digest'') = JStr digest
          then Inr () else Inl (ReceiptIdentity ''capability''))"

definition recordStepSnapshot ::
  "js_env \<Rightarrow> projection \<Rightarrow> envelope \<Rightarrow> jsstr \<Rightarrow> jsstr \<Rightarrow> jsstr \<Rightarrow> projection result" where
  "recordStepSnapshot E st ev snapshotId digest receipt =
     (case validateStepSnapshotReceipt E ev snapshotId digest receipt of
        Inl r \<Rightarrow> Inl r
      | Inr _ \<Rightarrow>
          if digest \<in> set (stepSnapshotDigests st) then Inl SnapshotExists
          else Inr (st\<lparr>stepSnapshotDigests := stepSnapshotDigests st @ [digest],
                       latestStepSnapshot := Some ev\<rparr>))"

definition recordCapability ::
  "js_env \<Rightarrow> projection \<Rightarrow> envelope \<Rightarrow> jsstr \<Rightarrow> jsstr \<Rightarrow> jsstr \<Rightarrow> projection result" where
  "recordCapability E st ev receiptId digest receipt =
     (case validateCapabilityReceipt E ev receiptId digest receipt of
        Inl r \<Rightarrow> Inl r
      | Inr _ \<Rightarrow>
          if digest \<in> set (capabilityReceiptDigests st) then Inl CapabilityReceiptExists
          else Inr (st\<lparr>capabilityReceiptDigests := capabilityReceiptDigests st @ [digest],
                       latestCapability := Some ev\<rparr>))"

definition recordToolReceipt :: "projection \<Rightarrow> jsstr \<Rightarrow> projection result" where
  "recordToolReceipt st invocationId =
     (if invocationId \<in> set (toolInvocationIds st) then Inl ToolReceiptExists
      else Inr (st\<lparr>toolInvocationIds := toolInvocationIds st @ [invocationId]\<rparr>))"

subsection \<open>applyThreadEvent\<close>

definition startThread :: "projection \<Rightarrow> projection result" where
  "startThread st =
     (if status st \<noteq> ThNew then Inl ThreadAlreadyStarted else Inr (st\<lparr>status := ThIdle\<rparr>))"

definition wakeThread :: "projection \<Rightarrow> projection" where
  "wakeThread st = (if status st = ThNew then st\<lparr>status := ThIdle\<rparr> else st)"

definition keepCompactEvent :: "projection \<Rightarrow> envelope \<Rightarrow> projection" where
  "keepCompactEvent st ev = st\<lparr>compactEvents := compactEvents st @ [ev]\<rparr>"

text \<open>The \<open>switch\<close> over the payload.\<close>

fun applyPayload :: "js_env \<Rightarrow> projection \<Rightarrow> envelope \<Rightarrow> runtime_event \<Rightarrow> projection result" where
  "applyPayload E st ev (ThreadStarted _) = startThread st"
| "applyPayload E st ev (ThreadResumed _) = Inr (wakeThread st)"
| "applyPayload E st ev (ThreadForked _ _) = Inr (wakeThread st)"
| "applyPayload E st ev (TurnStarted input mode queueId) = startTurn st ev input mode queueId"
| "applyPayload E st ev (TurnQueued d) = queueTurn st ev d"
| "applyPayload E st ev (TurnQueueExpired q) = expireQueuedTurn st q"
| "applyPayload E st ev (TurnSteered itemId _) = steerTurn st ev itemId"
| "applyPayload E st ev (TurnInterruptRequested intentId _) =
     requestTurnInterrupt st ev intentId"
| "applyPayload E st ev (TurnCommitted d) = commitTurn E st ev d"
| "applyPayload E st ev (PlanReviewRequested d) = requestPlanReview E st ev d"
| "applyPayload E st ev (PlanReviewResolved d) = resolvePlanReview E st ev d"
| "applyPayload E st ev (TurnCompleted _) = finishTurn st ev TermCompleted"
| "applyPayload E st ev (TurnFailed _) = finishTurn st ev TermFailed"
| "applyPayload E st ev (TurnInterrupted _) = finishTurn st ev TermInterrupted"
| "applyPayload E st ev (ItemStarted d) = startItem st ev d"
| "applyPayload E st ev (ItemCompleted content summary _ receipt) =
     finishItem st ev IsCompleted content receipt summary None"
| "applyPayload E st ev (ItemFailed err receipt) =
     finishItem st ev IsFailed None receipt None (Some err)"
| "applyPayload E st ev (ItemInterrupted reason receipt) =
     finishItem st ev IsInterrupted None receipt None reason"
| "applyPayload E st ev (ItemIndeterminate reason receipt) =
     finishItem st ev IsIndeterminate None receipt None (Some reason)"
| "applyPayload E st ev (StepSnapshotEvent i d r) = recordStepSnapshot E st ev i d r"
| "applyPayload E st ev (CapabilityReceiptEvent i d r) = recordCapability E st ev i d r"
| "applyPayload E st ev (ToolReceiptEvent d) = recordToolReceipt st (tr_invocationId d)"
| "applyPayload E st ev (CompactStarted _ _ _ _) = Inr (keepCompactEvent st ev)"
| "applyPayload E st ev (CompactCompleted _ _ _ _ _) = Inr (keepCompactEvent st ev)"
| "applyPayload E st ev (CompactFailed _ _ _ _ _) = Inr (keepCompactEvent st ev)"
| "applyPayload E st ev (ApprovalRequested _ _) = Inr st"
| "applyPayload E st ev (ItemDelta _ _) = Inl DeltaNotDurable"

definition applyThreadEvent ::
  "js_env \<Rightarrow> projection \<Rightarrow> envelope \<Rightarrow> invariant_error + projection" where
  "applyThreadEvent E st ev =
     (if en_durability ev \<noteq> Durable then Inl (invariant EphemeralEvent ev)
      else if en_threadId ev \<noteq> threadId st then Inl (invariant ThreadIdMismatch ev)
      else if en_seq ev \<noteq> cursor st + 1
      then Inl (invariant (ExpectedSeq (cursor st + 1) (en_seq ev)) ev)
      else (case applyPayload E st ev (en_payload ev) of
              Inl r \<Rightarrow> Inl (invariant r ev)
            | Inr st' \<Rightarrow> Inr (st'\<lparr>cursor := en_seq ev\<rparr>)))"

subsection \<open>projectThreadEvents, advanceThreadProjection and the digest\<close>

definition new_projection :: "jsstr \<Rightarrow> projection" where
  "new_projection t =
     \<lparr>threadId = t, cursor = 0, status = ThNew, activeTurnId = None, turns = [], items = [],
      queue = [], planReview = None, latestCapability = None, latestStepSnapshot = None,
      compactEvents = [], stepSnapshotDigests = [], capabilityReceiptDigests = [],
      toolInvocationIds = []\<rparr>"

text \<open>
  A frozen projection is the state with the digest of its content. \<open>D\<close> is
  \<open>digestRuntimeValue\<close> of the content object \<open>freezeProjection\<close> builds.
\<close>

type_synonym frozen_projection = "projection \<times> jsstr"

definition freezeProjection :: "(projection \<Rightarrow> jsstr) \<Rightarrow> projection \<Rightarrow> frozen_projection" where
  "freezeProjection D st = (st, D st)"

definition projectThreadEvents ::
  "js_env \<Rightarrow> (projection \<Rightarrow> jsstr) \<Rightarrow> jsstr \<Rightarrow> envelope list
     \<Rightarrow> invariant_error + frozen_projection" where
  "projectThreadEvents E D t evs =
     (case replay (applyThreadEvent E) (new_projection t) evs of
        Inl e \<Rightarrow> Inl e
      | Inr st \<Rightarrow> Inr (freezeProjection D st))"

definition verifyThreadProjectionDigest ::
  "(projection \<Rightarrow> jsstr) \<Rightarrow> frozen_projection \<Rightarrow> bool" where
  "verifyThreadProjectionDigest D p \<longleftrightarrow> D (fst p) = snd p"

datatype advance_error = InvalidDigest | TailRejected invariant_error

definition advanceThreadProjection ::
  "js_env \<Rightarrow> (projection \<Rightarrow> jsstr) \<Rightarrow> frozen_projection \<Rightarrow> envelope list
     \<Rightarrow> advance_error + frozen_projection" where
  "advanceThreadProjection E D p evs =
     (if \<not> verifyThreadProjectionDigest D p then Inl InvalidDigest
      else if evs = [] then Inr p
      else (case replay (applyThreadEvent E) (fst p) evs of
              Inl e \<Rightarrow> Inl (TailRejected e)
            | Inr st \<Rightarrow> Inr (freezeProjection D st)))"

text \<open>
  The versioned digests of the cutover compatibility: \<open>D1\<close> digests the content without the
  head-only fields, \<open>D2\<close> the whole content.
\<close>

definition threadProjectionDigestForVersionV1 ::
  "(projection \<Rightarrow> jsstr) \<Rightarrow> (projection \<Rightarrow> jsstr) \<Rightarrow> projection \<Rightarrow> int \<Rightarrow> jsstr" where
  "threadProjectionDigestForVersionV1 D1 D2 p version = (if version = 1 then D1 p else D2 p)"

definition resolveThreadProjectionDigestVersionV1 ::
  "(projection \<Rightarrow> jsstr) \<Rightarrow> (projection \<Rightarrow> jsstr) \<Rightarrow> projection \<Rightarrow> jsstr \<Rightarrow> int option
     \<Rightarrow> int option" where
  "resolveThreadProjectionDigestVersionV1 D1 D2 p digest requested =
     (case requested of
        Some v \<Rightarrow>
          if v \<noteq> 1 \<and> v \<noteq> 2 then None
          else if threadProjectionDigestForVersionV1 D1 D2 p v = digest then Some v else None
      | None \<Rightarrow> find (\<lambda>v. threadProjectionDigestForVersionV1 D1 D2 p v = digest) [2, 1])"

end
