(* ===== verification/ThreadInvariants.thy ===== *)
theory ThreadInvariants
  imports ThreadProjection
begin

section \<open>What every accepted event keeps true of a projection\<close>

text \<open>
  The invariant of the projected state: identities are the keys, at most one turn is active
  and it is the one \<open>activeTurnId\<close> names, items and turns refer to each other, open items
  belong to the active turn, a finished turn agrees with its commit, and receipts and queue
  entries are unique. The elimination rules say what an accepted event found and wrote; every
  lemma about \<open>applyThreadEvent\<close> goes through them.
\<close>

subsection \<open>Lookup after update\<close>

lemma turn_of_put [simp]:
  "turn_of (put_turn st t tn) t' = (if t' = t then Some tn else turn_of st t')"
  "turn_of (put_item st i it) = turn_of st"
  by (simp_all add: turn_of_def put_turn_def put_item_def js_lookup fun_eq_iff)

lemma item_of_put [simp]:
  "item_of (put_item st i it) i' = (if i' = i then Some it else item_of st i')"
  "item_of (put_turn st t tn) = item_of st"
  by (simp_all add: item_of_def put_turn_def put_item_def js_lookup fun_eq_iff)

lemma turn_of_frame [simp]:
  "turn_of (st\<lparr>queue := q\<rparr>) = turn_of st" "turn_of (st\<lparr>cursor := c\<rparr>) = turn_of st"
  "turn_of (st\<lparr>status := s\<rparr>) = turn_of st" "turn_of (st\<lparr>activeTurnId := a\<rparr>) = turn_of st"
  "turn_of (st\<lparr>planReview := p\<rparr>) = turn_of st" "turn_of (st\<lparr>compactEvents := es\<rparr>) = turn_of st"
  "turn_of (st\<lparr>latestCapability := e\<rparr>) = turn_of st"
  "turn_of (st\<lparr>latestStepSnapshot := e\<rparr>) = turn_of st"
  "turn_of (st\<lparr>stepSnapshotDigests := ds\<rparr>) = turn_of st"
  "turn_of (st\<lparr>capabilityReceiptDigests := ds\<rparr>) = turn_of st"
  "turn_of (st\<lparr>toolInvocationIds := ds\<rparr>) = turn_of st"
  by (simp_all add: turn_of_def fun_eq_iff)

lemma item_of_frame [simp]:
  "item_of (st\<lparr>queue := q\<rparr>) = item_of st" "item_of (st\<lparr>cursor := c\<rparr>) = item_of st"
  "item_of (st\<lparr>status := s\<rparr>) = item_of st" "item_of (st\<lparr>activeTurnId := a\<rparr>) = item_of st"
  "item_of (st\<lparr>planReview := p\<rparr>) = item_of st" "item_of (st\<lparr>compactEvents := es\<rparr>) = item_of st"
  "item_of (st\<lparr>latestCapability := e\<rparr>) = item_of st"
  "item_of (st\<lparr>latestStepSnapshot := e\<rparr>) = item_of st"
  "item_of (st\<lparr>stepSnapshotDigests := ds\<rparr>) = item_of st"
  "item_of (st\<lparr>capabilityReceiptDigests := ds\<rparr>) = item_of st"
  "item_of (st\<lparr>toolInvocationIds := ds\<rparr>) = item_of st"
  by (simp_all add: item_of_def fun_eq_iff)

lemma put_turn_frame [simp]:
  "queue (put_turn st t tn) = queue st" "cursor (put_turn st t tn) = cursor st"
  "status (put_turn st t tn) = status st" "activeTurnId (put_turn st t tn) = activeTurnId st"
  "items (put_turn st t tn) = items st" "threadId (put_turn st t tn) = threadId st"
  "planReview (put_turn st t tn) = planReview st"
  "stepSnapshotDigests (put_turn st t tn) = stepSnapshotDigests st"
  "capabilityReceiptDigests (put_turn st t tn) = capabilityReceiptDigests st"
  "toolInvocationIds (put_turn st t tn) = toolInvocationIds st"
  by (simp_all add: put_turn_def)

lemma put_item_frame [simp]:
  "queue (put_item st i it) = queue st" "cursor (put_item st i it) = cursor st"
  "status (put_item st i it) = status st" "activeTurnId (put_item st i it) = activeTurnId st"
  "turns (put_item st i it) = turns st" "threadId (put_item st i it) = threadId st"
  "planReview (put_item st i it) = planReview st"
  "stepSnapshotDigests (put_item st i it) = stepSnapshotDigests st"
  "capabilityReceiptDigests (put_item st i it) = capabilityReceiptDigests st"
  "toolInvocationIds (put_item st i it) = toolInvocationIds st"
  by (simp_all add: put_item_def)

lemma turns_put_turn [simp]: "turns (put_turn st t tn) = AList.update t tn (turns st)"
  by (simp add: put_turn_def)

lemma items_put_item [simp]: "items (put_item st i it) = AList.update i it (items st)"
  by (simp add: put_item_def)

lemma requiredIdentity_Inr [simp]:
  "requiredIdentity x n = Inr s \<longleftrightarrow> x = Some s \<and> s \<noteq> []"
  by (cases x) auto

lemma active_turn_Some:
  "active_turn st t = Some tn \<longleftrightarrow>
     turn_of st t = Some tn \<and> tp_status tn = TsActive \<and> activeTurnId st = Some t"
  by (auto simp: active_turn_def split: option.splits if_splits)

lemma take_queued_Some:
  "take_queued q qs = Some qs' \<longleftrightarrow>
     (\<exists>i. find_index (\<lambda>x. qt_queueId x = q) qs = Some i \<and> qs' = splice1 i qs)"
  by (auto simp: take_queued_def)

subsection \<open>What an accepted event found and wrote\<close>

lemma startTurnE:
  assumes "startTurn st ev input mode queueId = Inr st'"
  obtains t qs where "en_turnId ev = Some t" "t \<noteq> []" "\<not> truthy (activeTurnId st)"
    "turn_of st t = None" "status st \<noteq> ThNew"
    "(if truthy queueId then take_queued (the queueId) (queue st) else Some (queue st)) = Some qs"
    "st' = (put_turn st t (new_turn t mode input (en_seq ev)))
       \<lparr>queue := qs, activeTurnId := Some t, status := ThActive\<rparr>"
  using assms unfolding startTurn_def
  by (auto split: sum.splits option.splits if_splits)

lemma steerTurnE:
  assumes "steerTurn st ev i = Inr st'"
  obtains t tn where "en_turnId ev = Some t" "active_turn st t = Some tn"
    "i \<notin> set (tp_steeringItemIds tn)"
    "st' = put_turn st t (tn\<lparr>tp_steeringItemIds := tp_steeringItemIds tn @ [i]\<rparr>)"
  using assms unfolding steerTurn_def
  by (auto split: sum.splits option.splits if_splits)

lemma requestTurnInterruptE:
  assumes "requestTurnInterrupt st ev i = Inr st'"
  obtains t tn where "en_turnId ev = Some t" "active_turn st t = Some tn"
    "\<not> truthy (tp_interruptIntentId tn) \<or> tp_interruptIntentId tn = Some i"
    "st' = put_turn st t (tn\<lparr>tp_interruptIntentId := Some i\<rparr>)"
  using assms unfolding requestTurnInterrupt_def
  by (auto split: sum.splits option.splits if_splits)

lemma finishTurnE:
  assumes "finishTurn st ev term = Inr st'"
  obtains t tn where "en_turnId ev = Some t" "active_turn st t = Some tn"
    "first_open_item st (tp_itemIds tn) = Inr None"
    "\<And>c. tp_commit tn = Some c \<Longrightarrow> cp_terminal c = term"
    "st' = (put_turn st t (tn\<lparr>tp_status := terminal_status term,
        tp_terminalSeq := Some (en_seq ev)\<rparr>))\<lparr>activeTurnId := None, status := ThIdle\<rparr>"
  using assms unfolding finishTurn_def
  by (fastforce simp: active_turn_Some split: sum.splits option.splits if_splits)

lemma commitTurnE:
  assumes "commitTurn E st ev d = Inr st'"
  obtains t tn where "en_turnId ev = Some t" "active_turn st t = Some tn" "tp_commit tn = None"
    "first_open_item st (tp_itemIds tn) = Inr None"
    "st' = put_turn st t (tn\<lparr>tp_commit := Some
        \<lparr>cp_commitId = cd_commitId d, cp_terminal = cd_terminal d, cp_digest = cd_digest d,
         cp_receipt = cd_receipt d, cp_outcome = cd_outcome d, cp_error = cd_error d,
         cp_reason = cd_reason d, cp_seq = en_seq ev\<rparr>\<rparr>)"
  using assms unfolding commitTurn_def
  by (auto split: sum.splits option.splits if_splits)

lemma requestPlanReviewE:
  assumes "requestPlanReview E st ev d = Inr st'"
  obtains pr where "st' = st\<lparr>planReview := Some pr\<rparr>" "pr_status pr = AwaitingReview"
    "pr_planDigest pr = rq_planDigest d" "map_option pr_status (planReview st) \<noteq> Some AwaitingReview"
    "\<exists>t tn c. en_turnId ev = Some t \<and> turn_of st t = Some tn \<and> tp_commit tn = Some c"
  using assms unfolding requestPlanReview_def
  by (auto split: sum.splits option.splits if_splits prod.splits simp: bind_eq_Some_conv)

lemma resolvePlanReviewE:
  assumes "resolvePlanReview E st ev d = Inr st'"
  obtains pr pr' where "planReview st = Some pr" "pr_status pr = AwaitingReview"
    "pr_reviewId pr = rs_reviewId d" "pr_revision pr = rs_previousRevision d"
    "pr_planDigest pr = rs_planDigest d" "st' = st\<lparr>planReview := Some pr'\<rparr>"
    "pr_status pr' = resolved_status (rs_action d)" "pr_planDigest pr' = pr_planDigest pr"
    "pr_revision pr' = rs_revision d"
  using assms unfolding resolvePlanReview_def Let_def
  by (fastforce split: option.splits if_splits)

lemma startItemE:
  assumes "startItem st ev d = Inr st'"
  obtains t s i tn where "en_turnId ev = Some t" "en_stepId ev = Some s" "en_itemId ev = Some i"
    "i \<noteq> []" "active_turn st t = Some tn" "item_of st i = None"
    "st' = put_turn (put_item st i (new_item i t s d (en_seq ev))) t
       (tn\<lparr>tp_itemIds := tp_itemIds tn @ [i]\<rparr>)"
  using assms unfolding startItem_def
  by (auto split: sum.splits option.splits if_splits)

lemma finishItemE:
  assumes "finishItem st ev ist content receipt summary err = Inr st'"
  obtains i it where "en_itemId ev = Some i" "i \<noteq> []" "item_of st i = Some it"
    "ip_status it = IsStarted" "en_turnId ev = Some (ip_turnId it)"
    "en_stepId ev = Some (ip_stepId it)"
    "st' = put_item st i (it\<lparr>ip_status := ist, ip_terminalSeq := Some (en_seq ev),
        ip_content := content, ip_receipt := receipt, ip_summary := summary, ip_error := err\<rparr>)"
  using assms unfolding finishItem_def
  by (auto split: sum.splits option.splits if_splits)

lemma applyThreadEvent_Inr:
  "applyThreadEvent E st ev = Inr st' \<longleftrightarrow>
     en_durability ev = Durable \<and> en_threadId ev = threadId st \<and> en_seq ev = cursor st + 1
     \<and> (\<exists>st1. applyPayload E st ev (en_payload ev) = Inr st1 \<and> st' = st1\<lparr>cursor := en_seq ev\<rparr>)"
  by (auto simp: applyThreadEvent_def split: sum.splits)

subsection \<open>The invariant\<close>

text \<open>Identities are the keys of the two tables, each table holds a key once.\<close>

definition keys_ok :: "projection \<Rightarrow> bool" where
  "keys_ok st \<longleftrightarrow> distinct (map fst (turns st)) \<and> distinct (map fst (items st))
     \<and> (\<forall>t tn. turn_of st t = Some tn \<longrightarrow> tp_turnId tn = t \<and> t \<noteq> [])
     \<and> (\<forall>i it. item_of st i = Some it \<longrightarrow> ip_itemId it = i \<and> i \<noteq> [])"

text \<open>The active turn is the turn with status \<open>active\<close>, and the Thread's status says so.\<close>

definition active_ok :: "projection \<Rightarrow> bool" where
  "active_ok st \<longleftrightarrow> (activeTurnId st = None \<longleftrightarrow> status st \<noteq> ThActive)
     \<and> (\<forall>t. activeTurnId st = Some t \<longleftrightarrow> map_option tp_status (turn_of st t) = Some TsActive)"

text \<open>An item is listed by its turn and a turn lists items that name it.\<close>

definition links_ok :: "projection \<Rightarrow> bool" where
  "links_ok st \<longleftrightarrow>
     (\<forall>t tn i. turn_of st t = Some tn \<longrightarrow> i \<in> set (tp_itemIds tn) \<longrightarrow>
        map_option ip_turnId (item_of st i) = Some t)
     \<and> (\<forall>i it. item_of st i = Some it \<longrightarrow>
        (\<exists>tn. turn_of st (ip_turnId it) = Some tn \<and> i \<in> set (tp_itemIds tn)))"

text \<open>An open item belongs to the active turn.\<close>

definition open_ok :: "projection \<Rightarrow> bool" where
  "open_ok st \<longleftrightarrow> (\<forall>i it. item_of st i = Some it \<longrightarrow> ip_status it = IsStarted \<longrightarrow>
     activeTurnId st = Some (ip_turnId it))"

text \<open>A finished turn has the status its durable commit announced.\<close>

definition commits_ok :: "projection \<Rightarrow> bool" where
  "commits_ok st \<longleftrightarrow> (\<forall>t tn c. turn_of st t = Some tn \<longrightarrow> tp_commit tn = Some c \<longrightarrow>
     tp_status tn \<in> {TsActive, terminal_status (cp_terminal c)})"

definition unique_ok :: "projection \<Rightarrow> bool" where
  "unique_ok st \<longleftrightarrow> distinct (map qt_queueId (queue st)) \<and> distinct (toolInvocationIds st)
     \<and> distinct (stepSnapshotDigests st) \<and> distinct (capabilityReceiptDigests st)"

definition proj_inv :: "projection \<Rightarrow> bool" where
  "proj_inv st \<longleftrightarrow> keys_ok st \<and> active_ok st \<and> links_ok st \<and> open_ok st \<and> commits_ok st
     \<and> unique_ok st"

lemmas proj_inv_parts [inv_defs] =
  keys_ok_def active_ok_def links_ok_def open_ok_def commits_ok_def unique_ok_def

lemma proj_inv_new [simp]: "proj_inv (new_projection t)"
  by (simp add: proj_inv_def inv_defs new_projection_def turn_of_def item_of_def)

lemma unique_ok_frame [simp]:
  "unique_ok (put_turn st t tn) = unique_ok st" "unique_ok (put_item st i it) = unique_ok st"
  by (simp_all add: unique_ok_def)

lemma first_open_item_None:
  "first_open_item st is = Inr None \<Longrightarrow> i \<in> set is \<Longrightarrow>
     \<exists>it. item_of st i = Some it \<and> ip_status it \<noteq> IsStarted"
  by (induction "is") (auto split: option.splits if_splits)

lemma terminal_status_neq_active [simp]: "terminal_status term \<noteq> TsActive"
  by (cases "term") auto

subsection \<open>Every handler keeps it\<close>

text \<open>Rewriting a turn without touching its identity, status, items or a set commit.\<close>

lemma proj_inv_put_turn_same:
  assumes inv: "proj_inv st" and t: "turn_of st t = Some tn"
    and same: "tp_turnId tn' = tp_turnId tn" "tp_status tn' = tp_status tn"
      "tp_itemIds tn' = tp_itemIds tn"
    and commit: "tp_commit tn' = tp_commit tn \<or> tp_status tn = TsActive"
  shows "proj_inv (put_turn st t tn')"
  unfolding proj_inv_def
proof (intro conjI)
  show "keys_ok (put_turn st t tn')"
    using assms by (auto simp: proj_inv_def keys_ok_def distinct_update)
  show "active_ok (put_turn st t tn')"
    using assms by (auto simp: proj_inv_def active_ok_def)
  show "links_ok (put_turn st t tn')"
    using inv t same by (force simp: proj_inv_def links_ok_def)
  show "commits_ok (put_turn st t tn')"
    unfolding commits_ok_def
  proof (intro allI impI)
    fix u un c
    assume u: "turn_of (put_turn st t tn') u = Some un" "tp_commit un = Some c"
    show "tp_status un \<in> {TsActive, terminal_status (cp_terminal c)}"
    proof (cases "u = t")
      case True
      with u have un: "un = tn'" by simp
      from commit show ?thesis
      proof
        assume "tp_commit tn' = tp_commit tn"
        with u un have "tp_commit tn = Some c" by simp
        with inv t have "tp_status tn \<in> {TsActive, terminal_status (cp_terminal c)}"
          unfolding proj_inv_def commits_ok_def by blast
        with un same show ?thesis by simp
      next
        assume "tp_status tn = TsActive"
        with un same show ?thesis by simp
      qed
    next
      case False
      with u have "turn_of st u = Some un" by simp
      with inv u(2) show ?thesis unfolding proj_inv_def commits_ok_def by blast
    qed
  qed
qed (use inv in \<open>simp_all add: proj_inv_def open_ok_def\<close>)

lemma startTurn_inv:
  assumes inv: "proj_inv st" and st': "startTurn st ev input mode q = Inr st'"
  shows "proj_inv st'"
  using st'
proof (cases rule: startTurnE)
  case (1 t qs)
  have none: "activeTurnId st = None"
    using 1(3) inv by (auto simp: proj_inv_def keys_ok_def active_ok_def truthy_def)
  show ?thesis
    unfolding proj_inv_def
  proof (intro conjI)
    show "keys_ok st'" "active_ok st'" "open_ok st'" "commits_ok st'"
      using inv 1(2,4,7) none
      by (auto simp: proj_inv_def inv_defs new_turn_def distinct_update)
    show "links_ok st'"
      using inv 1(4,7) by (force simp: proj_inv_def links_ok_def new_turn_def)
    show "unique_ok st'"
      using inv 1(6,7)
      by (auto simp: take_queued_Some map_splice1 distinct_splice1 proj_inv_def unique_ok_def
          split: if_splits)
  qed
qed

lemma finishTurn_inv:
  assumes inv: "proj_inv st" and st': "finishTurn st ev term = Inr st'"
  shows "proj_inv st'"
  using st'
proof (cases rule: finishTurnE)
  case (1 t tn)
  have tn: "turn_of st t = Some tn" "activeTurnId st = Some t"
    using 1(2) by (simp_all add: active_turn_Some)
  have closed: "ip_status it \<noteq> IsStarted" if "item_of st i = Some it" for i it
  proof
    assume "ip_status it = IsStarted"
    with that inv tn have "i \<in> set (tp_itemIds tn)"
      by (force simp: proj_inv_def open_ok_def links_ok_def)
    with first_open_item_None [OF 1(3)] that \<open>ip_status it = IsStarted\<close> show False by force
  qed
  show ?thesis
    unfolding proj_inv_def
  proof (intro conjI)
    show "keys_ok st'"
      using inv 1(5) tn by (auto simp: proj_inv_def keys_ok_def distinct_update)
    show "active_ok st'"
      using inv 1(5) tn by (auto simp: proj_inv_def active_ok_def)
    show "links_ok st'"
      using inv 1(5) tn by (force simp: proj_inv_def links_ok_def)
    show "open_ok st'"
      using 1(5) closed by (simp add: open_ok_def)
    show "commits_ok st'"
      using inv 1(4,5) tn by (auto simp: proj_inv_def commits_ok_def)
    show "unique_ok st'"
      using inv 1(5) by (simp add: proj_inv_def unique_ok_def)
  qed
qed

lemma startItem_inv:
  assumes inv: "proj_inv st" and st': "startItem st ev d = Inr st'"
  shows "proj_inv st'"
  using st'
proof (cases rule: startItemE)
  case (1 t s i tn)
  have tn: "turn_of st t = Some tn" "activeTurnId st = Some t" "tp_status tn = TsActive"
    using 1(5) by (simp_all add: active_turn_Some)
  show ?thesis
    unfolding proj_inv_def
  proof (intro conjI)
    show "keys_ok st'" "active_ok st'" "commits_ok st'" "open_ok st'"
      using inv 1(4,6,7) tn
      by (auto simp: proj_inv_def inv_defs new_item_def distinct_update)
    show "links_ok st'"
      using inv 1(6,7) tn by (force simp: proj_inv_def links_ok_def new_item_def)
    show "unique_ok st'"
      using inv 1(7) by (simp add: proj_inv_def)
  qed
qed

lemma finishItem_inv:
  assumes inv: "proj_inv st" and ist: "ist \<noteq> IsStarted"
    and st': "finishItem st ev ist content receipt summary err = Inr st'"
  shows "proj_inv st'"
  using st'
proof (cases rule: finishItemE)
  case (1 i it)
  show ?thesis
    unfolding proj_inv_def
  proof (intro conjI)
    show "keys_ok st'" "active_ok st'" "commits_ok st'" "open_ok st'"
      using inv ist 1(2,3,7) by (auto simp: proj_inv_def inv_defs distinct_update)
    show "links_ok st'"
      using inv 1(3,7) by (force simp: proj_inv_def links_ok_def)
    show "unique_ok st'"
      using inv 1(7) by (simp add: proj_inv_def)
  qed
qed

lemma turn_rewrite_inv:
  assumes inv: "proj_inv st"
  shows "steerTurn st ev i = Inr st' \<Longrightarrow> proj_inv st'"
    and "requestTurnInterrupt st ev i = Inr st' \<Longrightarrow> proj_inv st'"
    and "commitTurn E st ev d = Inr st' \<Longrightarrow> proj_inv st'"
proof -
  show "proj_inv st'" if "steerTurn st ev i = Inr st'"
    using that by (cases rule: steerTurnE)
      (auto simp: active_turn_Some intro!: proj_inv_put_turn_same [OF inv])
  show "proj_inv st'" if "requestTurnInterrupt st ev i = Inr st'"
    using that by (cases rule: requestTurnInterruptE)
      (auto simp: active_turn_Some intro!: proj_inv_put_turn_same [OF inv])
  show "proj_inv st'" if "commitTurn E st ev d = Inr st'"
    using that by (cases rule: commitTurnE)
      (auto simp: active_turn_Some intro!: proj_inv_put_turn_same [OF inv])
qed

text \<open>Parts of the invariant that do not look at the fields a handler writes.\<close>

lemma keys_ok_frame [simp]:
  "keys_ok (st\<lparr>queue := q\<rparr>) = keys_ok st" "keys_ok (st\<lparr>cursor := c\<rparr>) = keys_ok st"
  "keys_ok (st\<lparr>status := s\<rparr>) = keys_ok st" "keys_ok (st\<lparr>planReview := p\<rparr>) = keys_ok st"
  "keys_ok (st\<lparr>compactEvents := es\<rparr>) = keys_ok st"
  "keys_ok (st\<lparr>latestCapability := e\<rparr>) = keys_ok st"
  "keys_ok (st\<lparr>latestStepSnapshot := e\<rparr>) = keys_ok st"
  "keys_ok (st\<lparr>stepSnapshotDigests := ds\<rparr>) = keys_ok st"
  "keys_ok (st\<lparr>capabilityReceiptDigests := ds\<rparr>) = keys_ok st"
  "keys_ok (st\<lparr>toolInvocationIds := ds\<rparr>) = keys_ok st"
  by (simp_all add: keys_ok_def)

lemma active_ok_frame [simp]:
  "active_ok (st\<lparr>queue := q\<rparr>) = active_ok st" "active_ok (st\<lparr>cursor := c\<rparr>) = active_ok st"
  "active_ok (st\<lparr>planReview := p\<rparr>) = active_ok st"
  "active_ok (st\<lparr>compactEvents := es\<rparr>) = active_ok st"
  "active_ok (st\<lparr>latestCapability := e\<rparr>) = active_ok st"
  "active_ok (st\<lparr>latestStepSnapshot := e\<rparr>) = active_ok st"
  "active_ok (st\<lparr>stepSnapshotDigests := ds\<rparr>) = active_ok st"
  "active_ok (st\<lparr>capabilityReceiptDigests := ds\<rparr>) = active_ok st"
  "active_ok (st\<lparr>toolInvocationIds := ds\<rparr>) = active_ok st"
  by (simp_all add: active_ok_def)

lemma links_ok_frame [simp]:
  "links_ok (st\<lparr>queue := q\<rparr>) = links_ok st" "links_ok (st\<lparr>cursor := c\<rparr>) = links_ok st"
  "links_ok (st\<lparr>status := s\<rparr>) = links_ok st" "links_ok (st\<lparr>planReview := p\<rparr>) = links_ok st"
  "links_ok (st\<lparr>compactEvents := es\<rparr>) = links_ok st"
  "links_ok (st\<lparr>latestCapability := e\<rparr>) = links_ok st"
  "links_ok (st\<lparr>latestStepSnapshot := e\<rparr>) = links_ok st"
  "links_ok (st\<lparr>stepSnapshotDigests := ds\<rparr>) = links_ok st"
  "links_ok (st\<lparr>capabilityReceiptDigests := ds\<rparr>) = links_ok st"
  "links_ok (st\<lparr>toolInvocationIds := ds\<rparr>) = links_ok st"
  by (simp_all add: links_ok_def)

lemma open_ok_frame [simp]:
  "open_ok (st\<lparr>queue := q\<rparr>) = open_ok st" "open_ok (st\<lparr>cursor := c\<rparr>) = open_ok st"
  "open_ok (st\<lparr>status := s\<rparr>) = open_ok st" "open_ok (st\<lparr>planReview := p\<rparr>) = open_ok st"
  "open_ok (st\<lparr>compactEvents := es\<rparr>) = open_ok st"
  "open_ok (st\<lparr>latestCapability := e\<rparr>) = open_ok st"
  "open_ok (st\<lparr>latestStepSnapshot := e\<rparr>) = open_ok st"
  "open_ok (st\<lparr>stepSnapshotDigests := ds\<rparr>) = open_ok st"
  "open_ok (st\<lparr>capabilityReceiptDigests := ds\<rparr>) = open_ok st"
  "open_ok (st\<lparr>toolInvocationIds := ds\<rparr>) = open_ok st"
  by (simp_all add: open_ok_def)

lemma commits_ok_frame [simp]:
  "commits_ok (st\<lparr>queue := q\<rparr>) = commits_ok st" "commits_ok (st\<lparr>cursor := c\<rparr>) = commits_ok st"
  "commits_ok (st\<lparr>status := s\<rparr>) = commits_ok st"
  "commits_ok (st\<lparr>planReview := p\<rparr>) = commits_ok st"
  "commits_ok (st\<lparr>compactEvents := es\<rparr>) = commits_ok st"
  "commits_ok (st\<lparr>latestCapability := e\<rparr>) = commits_ok st"
  "commits_ok (st\<lparr>latestStepSnapshot := e\<rparr>) = commits_ok st"
  "commits_ok (st\<lparr>stepSnapshotDigests := ds\<rparr>) = commits_ok st"
  "commits_ok (st\<lparr>capabilityReceiptDigests := ds\<rparr>) = commits_ok st"
  "commits_ok (st\<lparr>toolInvocationIds := ds\<rparr>) = commits_ok st"
  by (simp_all add: commits_ok_def)

lemma unique_ok_field_frame [simp]:
  "unique_ok (st\<lparr>cursor := c\<rparr>) = unique_ok st" "unique_ok (st\<lparr>status := s\<rparr>) = unique_ok st"
  "unique_ok (st\<lparr>planReview := p\<rparr>) = unique_ok st"
  "unique_ok (st\<lparr>compactEvents := es\<rparr>) = unique_ok st"
  "unique_ok (st\<lparr>latestCapability := e\<rparr>) = unique_ok st"
  "unique_ok (st\<lparr>latestStepSnapshot := e\<rparr>) = unique_ok st"
  by (simp_all add: unique_ok_def)

lemma queue_handlers_inv:
  assumes inv: "proj_inv st"
  shows "queueTurn st ev d = Inr st' \<Longrightarrow> proj_inv st'"
    and "expireQueuedTurn st q = Inr st' \<Longrightarrow> proj_inv st'"
  using inv
  by (auto simp: queueTurn_def expireQueuedTurn_def proj_inv_def unique_ok_def take_queued_Some
      map_splice1 distinct_splice1 split: if_splits option.splits)
    metis

lemma receipt_handlers_inv:
  assumes inv: "proj_inv st"
  shows "recordStepSnapshot E st ev i d r = Inr st' \<Longrightarrow> proj_inv st'"
    and "recordCapability E st ev i d r = Inr st' \<Longrightarrow> proj_inv st'"
    and "recordToolReceipt st i = Inr st' \<Longrightarrow> proj_inv st'"
  using inv
  by (auto simp: recordStepSnapshot_def recordCapability_def recordToolReceipt_def
      proj_inv_def unique_ok_def split: if_splits sum.splits)

lemma proj_inv_frame [simp]:
  "proj_inv (st\<lparr>planReview := p\<rparr>) = proj_inv st" "proj_inv (st\<lparr>cursor := c\<rparr>) = proj_inv st"
  "proj_inv (st\<lparr>compactEvents := es\<rparr>) = proj_inv st"
  by (simp_all add: proj_inv_def)

lemma proj_inv_idle:
  "proj_inv st \<Longrightarrow> status st = ThNew \<Longrightarrow> proj_inv (st\<lparr>status := ThIdle\<rparr>)"
  by (force simp: proj_inv_def active_ok_def)

lemma thread_handlers_inv:
  assumes inv: "proj_inv st"
  shows "startThread st = Inr st' \<Longrightarrow> proj_inv st'" and "proj_inv (wakeThread st)"
    and "proj_inv (keepCompactEvent st ev)"
  using inv
  by (auto simp: startThread_def wakeThread_def keepCompactEvent_def proj_inv_idle
      split: if_splits)

lemma review_handlers_inv:
  assumes inv: "proj_inv st"
  shows "requestPlanReview E st ev d = Inr st' \<Longrightarrow> proj_inv st'"
    and "resolvePlanReview E st ev r = Inr st' \<Longrightarrow> proj_inv st'"
proof -
  show "proj_inv st'" if "requestPlanReview E st ev d = Inr st'"
    using that inv by (cases rule: requestPlanReviewE) simp
  show "proj_inv st'" if "resolvePlanReview E st ev r = Inr st'"
    using that inv by (cases rule: resolvePlanReviewE) simp
qed

lemmas handler_invs = startTurn_inv finishTurn_inv startItem_inv finishItem_inv turn_rewrite_inv
  queue_handlers_inv receipt_handlers_inv thread_handlers_inv review_handlers_inv

lemma applyPayload_inv:
  assumes inv: "proj_inv st" and ok: "applyPayload E st ev p = Inr st'"
  shows "proj_inv st'"
  using ok inv by (cases p) (auto intro: handler_invs)

lemma applyThreadEvent_inv:
  "proj_inv st \<Longrightarrow> applyThreadEvent E st ev = Inr st' \<Longrightarrow> proj_inv st'"
  by (auto simp: applyThreadEvent_Inr dest: applyPayload_inv)

text \<open>The projection is an event log: the shared replay lemmas apply to it.\<close>

interpretation thread_log: event_log "applyThreadEvent E" proj_inv cursor en_seq
  by unfold_locales (auto simp: applyThreadEvent_Inr dest: applyPayload_inv)

lemma projectThreadEvents_Inr:
  "projectThreadEvents E D t evs = Inr (st, d) \<longleftrightarrow>
     replay (applyThreadEvent E) (new_projection t) evs = Inr st \<and> d = D st"
  by (auto simp: projectThreadEvents_def freezeProjection_def split: sum.splits)

lemma projection_inv: "projectThreadEvents E D t evs = Inr (st, d) \<Longrightarrow> proj_inv st"
  using thread_log.replay_inv [OF proj_inv_new] by (auto simp: projectThreadEvents_Inr)

lemma advance_project:
  assumes "projectThreadEvents E D t evs = Inr p"
  shows "advanceThreadProjection E D p evs'
    = map_sum TailRejected id (projectThreadEvents E D t (evs @ evs'))"
proof -
  obtain st where p: "p = (st, D st)"
    and run: "replay (applyThreadEvent E) (new_projection t) evs = Inr st"
    using assms by (cases p) (auto simp: projectThreadEvents_Inr)
  show ?thesis
    by (cases "replay (applyThreadEvent E) st evs'")
      (auto simp: advanceThreadProjection_def verifyThreadProjectionDigest_def p
        projectThreadEvents_def freezeProjection_def replay_append run)
qed

subsection \<open>What an accepted event may change\<close>

lemmas plain_handlers = startThread_def wakeThread_def keepCompactEvent_def queueTurn_def
  expireQueuedTurn_def recordStepSnapshot_def recordCapability_def recordToolReceipt_def

lemmas handler_elims = startTurnE steerTurnE requestTurnInterruptE commitTurnE finishTurnE
  startItemE finishItemE requestPlanReviewE resolvePlanReviewE

text \<open>What each kind of event may change, read off the handlers.\<close>

lemma applyPayload_threadId:
  "applyPayload E st ev p = Inr st' \<Longrightarrow> threadId st' = threadId st"
  by (cases p)
    (auto simp: plain_handlers split: if_splits option.splits sum.splits
      elim!: handler_elims)

lemma applyPayload_tools:
  "applyPayload E st ev p = Inr st' \<Longrightarrow> toolInvocationIds st' = toolInvocationIds st @
     (case p of ToolReceiptEvent d \<Rightarrow> [tr_invocationId d] | _ \<Rightarrow> [])"
  by (cases p)
    (auto simp: plain_handlers split: if_splits option.splits sum.splits
      elim!: handler_elims)


text \<open>A turn that is not active and an item that is not open are never rewritten.\<close>

lemma applyPayload_turn_kept:
  assumes "applyPayload E st ev p = Inr st'" "turn_of st u = Some tn" "tp_status tn \<noteq> TsActive"
  shows "turn_of st' u = Some tn"
  using assms
  by (cases p)
    (auto simp: plain_handlers active_turn_Some split: if_splits option.splits sum.splits
      elim!: handler_elims)

lemma applyPayload_item_kept:
  assumes "applyPayload E st ev p = Inr st'" "item_of st i = Some it" "ip_status it \<noteq> IsStarted"
  shows "item_of st' i = Some it"
  using assms
  by (cases p)
    (auto simp: plain_handlers split: if_splits option.splits sum.splits elim!: handler_elims)

text \<open>A turn keeps a commit it has.\<close>

lemma applyPayload_commit_kept:
  assumes "applyPayload E st ev p = Inr st'" "map_option tp_commit (turn_of st u) = Some (Some c)"
  shows "map_option tp_commit (turn_of st' u) = Some (Some c)"
  using assms
  by (cases p)
    (auto simp: plain_handlers active_turn_Some split: if_splits option.splits sum.splits
      elim!: handler_elims)


lemma applyThreadEvent_kept:
  assumes "applyThreadEvent E st ev = Inr st'"
  shows "turn_of st u = Some tn \<Longrightarrow> tp_status tn \<noteq> TsActive \<Longrightarrow> turn_of st' u = Some tn"
    and "item_of st i = Some it \<Longrightarrow> ip_status it \<noteq> IsStarted \<Longrightarrow> item_of st' i = Some it"
    and "map_option tp_commit (turn_of st u) = Some (Some c) \<Longrightarrow>
      map_option tp_commit (turn_of st' u) = Some (Some c)"
    and "threadId st' = threadId st"
    and "toolInvocationIds st' = toolInvocationIds st @
      (case en_payload ev of ToolReceiptEvent d \<Rightarrow> [tr_invocationId d] | _ \<Rightarrow> [])"
  using assms
  by (auto simp: applyThreadEvent_Inr dest: applyPayload_turn_kept applyPayload_item_kept
      applyPayload_commit_kept applyPayload_threadId applyPayload_tools)

lemma replay_threadId:
  "replay (applyThreadEvent E) st evs = Inr st' \<Longrightarrow>
     threadId st' = threadId st
     \<and> list_all (\<lambda>ev. en_durability ev = Durable \<and> en_threadId ev = threadId st) evs"
proof (induction evs arbitrary: st)
  case Nil
  then show ?case by simp
next
  case (Cons ev evs)
  from Cons.prems obtain s where s: "applyThreadEvent E st ev = Inr s"
    "replay (applyThreadEvent E) s evs = Inr st'" by (auto split: sum.splits)
  from Cons.IH [OF s(2)] applyThreadEvent_kept(4) [OF s(1)] s(1) show ?case
    by (simp add: applyThreadEvent_Inr)
qed

end
