(* ===== verification/ThreadProperties.thy ===== *)
theory ThreadProperties
  imports ThreadInvariants
begin

section \<open>What a projected Thread log guarantees\<close>

text \<open>
  The properties of \<open>projectThreadEvents\<close> and \<open>advanceThreadProjection\<close>: the shape of every
  accepted log, the invariant of its projection, incremental projection, terminal facts that
  never change, the binding of a finished turn to its commit, and what the tool receipts, the
  queue and the plan review of a projection say of the log they came from.
\<close>

subsection \<open>Handlers and the fields they leave alone\<close>

lemma new_projection_simps [simp]:
  "threadId (new_projection t) = t" "cursor (new_projection t) = 0"
  "turn_of (new_projection t) u = None" "item_of (new_projection t) i = None"
  "queue (new_projection t) = []" "planReview (new_projection t) = None"
  "toolInvocationIds (new_projection t) = []" "status (new_projection t) = ThNew"
  "activeTurnId (new_projection t) = None"
  by (simp_all add: new_projection_def turn_of_def item_of_def)

lemma projectThreadEvents_tail:
  assumes "projectThreadEvents E D t evs = Inr (st, d)"
    and "projectThreadEvents E D t (evs @ evs') = Inr (st', d')"
  shows "replay (applyThreadEvent E) st evs' = Inr st'"
  using assms by (simp add: projectThreadEvents_Inr replay_append)

subsection \<open>Properties of the projection\<close>

text \<open>An accepted log is the durable events of one Thread, numbered 1, 2, 3, ...
  without a gap, and the projection carries that Thread's id, the number of the last event as
  its cursor, and the digest of its content.\<close>

lemma projection_log_shape:
  assumes "projectThreadEvents E D t evs = Inr (st, d)"
  shows "map en_seq evs = [1 .. int (length evs)]
    \<and> list_all (\<lambda>ev. en_durability ev = Durable \<and> en_threadId ev = t) evs
    \<and> threadId st = t \<and> cursor st = int (length evs)
    \<and> d = D st \<and> verifyThreadProjectionDigest D (st, d)"
proof -
  have run: "replay (applyThreadEvent E) (new_projection t) evs = Inr st" and d: "d = D st"
    using assms by (simp_all add: projectThreadEvents_Inr)
  show ?thesis
    using thread_log.replay_seqs [OF run] thread_log.replay_cursor [OF run]
      replay_threadId [OF run] d
    by (simp add: verifyThreadProjectionDigest_def)
qed

text \<open>C1 (invariant): in the projection of any accepted log, identities are the keys of the
  tables, at most one turn is active and it is the one the projection names, items and turns
  refer to each other, an open item belongs to the active turn, a finished turn has the status
  its commit announced, and queue entries, tool receipts, step snapshots and capability
  receipts are unique.\<close>

theorem projection_invariant:
  assumes "projectThreadEvents E D t evs = Inr (st, d)"
  shows "proj_inv st"
  using assms by (rule projection_inv)


text \<open>C3 (terminal facts are final): once a turn has a terminal status or an item is closed,
  no longer log changes its record: a recorded outcome is never revised.\<close>

theorem terminal_facts_final:
  assumes "projectThreadEvents E D t evs = Inr (st, d)"
    and "projectThreadEvents E D t (evs @ evs') = Inr (st', d')"
  shows "(\<forall>u tn. turn_of st u = Some tn \<and> tp_status tn \<noteq> TsActive \<longrightarrow> turn_of st' u = Some tn)
    \<and> (\<forall>i it. item_of st i = Some it \<and> ip_status it \<noteq> IsStarted \<longrightarrow> item_of st' i = Some it)"
proof -
  note run = projectThreadEvents_tail [OF assms]
  have inv: "proj_inv st" by (rule projection_inv [OF assms(1)])
  have "turn_of st' u = Some tn" if "turn_of st u = Some tn" "tp_status tn \<noteq> TsActive" for u tn
    using thread_log.replay_keeps [where Q = "\<lambda>s. turn_of s u = Some tn", OF run] that
      applyThreadEvent_kept(1) inv by blast
  moreover have "item_of st' i = Some it" if "item_of st i = Some it" "ip_status it \<noteq> IsStarted"
    for i it
    using thread_log.replay_keeps [where Q = "\<lambda>s. item_of s i = Some it", OF run] that
      applyThreadEvent_kept(2) inv by blast
  ultimately show ?thesis by blast
qed

text \<open>A turn's durable commit is written once and stays, and whatever
  terminal status a longer log gives that turn is the one the commit announced.\<close>

lemma commit_decides_terminal:
  assumes "projectThreadEvents E D t evs = Inr (st, d)"
    and "projectThreadEvents E D t (evs @ evs') = Inr (st', d')"
    and "turn_of st u = Some tn" "tp_commit tn = Some c"
  shows "\<exists>tn'. turn_of st' u = Some tn' \<and> tp_commit tn' = Some c
    \<and> tp_status tn' \<in> {TsActive, terminal_status (cp_terminal c)}"
proof -
  have inv: "proj_inv st" "proj_inv st'"
    using assms(1,2) by (auto dest: projection_inv)
  have "map_option tp_commit (turn_of st' u) = Some (Some c)"
    using thread_log.replay_keeps
      [where Q = "\<lambda>s. map_option tp_commit (turn_of s u) = Some (Some c)",
        OF projectThreadEvents_tail [OF assms(1,2)] inv(1)] assms(3,4) applyThreadEvent_kept(3)
    by auto
  then obtain tn' where "turn_of st' u = Some tn'" "tp_commit tn' = Some c" by auto
  with inv(2) show ?thesis unfolding proj_inv_def commits_ok_def by blast
qed

text \<open>The invocation ids of a projection are those of the tool receipts
  of its log, in order, and none occurs twice: a log never records two receipts for one
  tool invocation.\<close>

lemma tool_receipts_unique:
  assumes "projectThreadEvents E D t evs = Inr (st, d)"
  shows "toolInvocationIds st = concat (map (\<lambda>ev. case en_payload ev of
      ToolReceiptEvent r \<Rightarrow> [tr_invocationId r] | _ \<Rightarrow> []) evs)
    \<and> distinct (toolInvocationIds st)"
proof
  have run: "replay (applyThreadEvent E) (new_projection t) evs = Inr st"
    using assms by (simp add: projectThreadEvents_Inr)
  then show "toolInvocationIds st = concat (map (\<lambda>ev. case en_payload ev of
      ToolReceiptEvent r \<Rightarrow> [tr_invocationId r] | _ \<Rightarrow> []) evs)"
    by (rule thread_log.replay_snoc_induct) (simp_all add: applyThreadEvent_kept(5))
  show "distinct (toolInvocationIds st)"
    using projection_inv [OF assms] by (simp add: proj_inv_def unique_ok_def)
qed


subsection \<open>The queue and the plan review of a projection\<close>

text \<open>A queue entry was announced by the \<open>turn.queued\<close> event with its sequence number.\<close>

definition queued_by :: "envelope list \<Rightarrow> queued_turn \<Rightarrow> bool" where
  "queued_by evs x \<longleftrightarrow> (\<exists>ev \<in> set evs. en_seq ev = qt_queuedSeq x
     \<and> (\<exists>d. en_payload ev = TurnQueued d \<and> qd_queueId d = qt_queueId x
          \<and> qd_input d = qt_input x \<and> qd_mode d = qt_mode x
          \<and> qd_deadline d = qt_deadline x))"

lemma queued_by_snoc: "queued_by evs x \<Longrightarrow> queued_by (evs @ [ev]) x"
  by (auto simp: queued_by_def)

lemma applyPayload_queue:
  assumes "applyPayload E st ev p = Inr st'"
  shows "(\<exists>i. queue st' = splice1 i (queue st)) \<or> queue st' = queue st
    \<or> (\<exists>d. p = TurnQueued d \<and> queue st' = queue st @
        [\<lparr>qt_queueId = qd_queueId d, qt_input = qd_input d, qt_mode = qd_mode d,
          qt_kind = qd_kind d, qt_source = qd_source d, qt_enqueuedAt = qd_enqueuedAt d,
          qt_deadline = qd_deadline d, qt_queuedSeq = en_seq ev\<rparr>])"
  using assms
  by (cases p)
    (auto simp: plain_handlers take_queued_Some split: if_splits option.splits sum.splits
      elim!: handler_elims)

lemma sorted_wrt_splice1: "sorted_wrt R xs \<Longrightarrow> sorted_wrt R (splice1 i xs)"
  by (auto simp: splice1_def sorted_wrt_append sorted_wrt_take sorted_wrt_drop)
    (metis append_take_drop_id in_set_dropD drop_Suc nth_drop sorted_wrt_append set_drop_subset_set_drop
      Suc_leD order_refl subsetD le_SucI)

definition queue_logged :: "envelope list \<Rightarrow> projection \<Rightarrow> bool" where
  "queue_logged evs st \<longleftrightarrow> sorted_wrt (<) (map qt_queuedSeq (queue st))
     \<and> (\<forall>x \<in> set (queue st). qt_queuedSeq x \<le> cursor st \<and> queued_by evs x)"

lemma queue_logged_new: "queue_logged [] (new_projection t)"
  by (simp add: queue_logged_def)

lemma queue_logged_step:
  assumes "queue_logged evs st" "applyThreadEvent E st ev = Inr st'"
  shows "queue_logged (evs @ [ev]) st'"
proof -
  obtain s where p: "applyPayload E st ev (en_payload ev) = Inr s" "en_seq ev = cursor st + 1"
    "st' = s\<lparr>cursor := en_seq ev\<rparr>"
    using assms(2) by (auto simp: applyThreadEvent_Inr)
  have old: "sorted_wrt (<) (map qt_queuedSeq (queue st))"
    "\<And>x. x \<in> set (queue st) \<Longrightarrow> qt_queuedSeq x \<le> cursor st \<and> queued_by evs x"
    using assms(1) by (auto simp: queue_logged_def)
  from applyPayload_queue [OF p(1)] show ?thesis
  proof (elim disjE exE conjE)
    fix i assume "queue s = splice1 i (queue st)"
    with old p show ?thesis
      by (fastforce simp: queue_logged_def map_splice1 sorted_wrt_splice1
          intro: queued_by_snoc dest: set_splice1_subset [THEN subsetD])
  next
    assume "queue s = queue st"
    with old p show ?thesis
      by (fastforce simp: queue_logged_def intro: queued_by_snoc)
  next
    fix d assume d: "en_payload ev = TurnQueued d" "queue s = queue st @
        [\<lparr>qt_queueId = qd_queueId d, qt_input = qd_input d, qt_mode = qd_mode d,
          qt_kind = qd_kind d, qt_source = qd_source d, qt_enqueuedAt = qd_enqueuedAt d,
          qt_deadline = qd_deadline d, qt_queuedSeq = en_seq ev\<rparr>]"
    have "queued_by (evs @ [ev]) x" if "x \<in> set (queue st)" for x
      using old(2) [OF that] queued_by_snoc by blast
    moreover have "queued_by (evs @ [ev]) \<lparr>qt_queueId = qd_queueId d, qt_input = qd_input d,
        qt_mode = qd_mode d, qt_kind = qd_kind d, qt_source = qd_source d,
        qt_enqueuedAt = qd_enqueuedAt d, qt_deadline = qd_deadline d, qt_queuedSeq = en_seq ev\<rparr>"
      using d(1) by (auto simp: queued_by_def)
    ultimately show ?thesis
      using old p d(2) by (fastforce simp: queue_logged_def sorted_wrt_append)
  qed
qed

text \<open>The queued turns of a projection stand in the order their \<open>turn.queued\<close>
  events were logged, and each carries the id, input, mode and deadline of its event.\<close>

lemma queue_in_log_order:
  assumes "projectThreadEvents E D t evs = Inr (st, d)"
  shows "sorted_wrt (<) (map qt_queuedSeq (queue st)) \<and> (\<forall>x \<in> set (queue st). queued_by evs x)"
proof -
  have "replay (applyThreadEvent E) (new_projection t) evs = Inr st"
    using assms by (simp add: projectThreadEvents_Inr)
  then have "queue_logged evs st"
    by (rule thread_log.replay_snoc_induct) (simp_all add: queue_logged_new queue_logged_step)
  then show ?thesis by (simp add: queue_logged_def)
qed


text \<open>The request a plan review came from, and the resolution that decided it.\<close>

definition review_requested_by :: "envelope list \<Rightarrow> plan_review \<Rightarrow> jsstr \<Rightarrow> bool" where
  "review_requested_by evs pr revision \<longleftrightarrow> (\<exists>ev \<in> set evs. en_seq ev = pr_requestedSeq pr
     \<and> (\<exists>d. en_payload ev = PlanReviewRequested d \<and> rq_reviewId d = pr_reviewId pr
          \<and> rq_planDigest d = pr_planDigest pr
          \<and> rq_planReceiptDigest d = pr_planReceiptDigest pr \<and> rq_revision d = revision))"

definition review_resolved_by :: "js_env \<Rightarrow> envelope list \<Rightarrow> plan_review \<Rightarrow> jsstr \<Rightarrow> bool" where
  "review_resolved_by E evs pr revision \<longleftrightarrow> (\<exists>ev \<in> set evs. Some (en_seq ev) = pr_resolvedSeq pr
     \<and> pr_requestedSeq pr < en_seq ev
     \<and> (\<exists>d. en_payload ev = PlanReviewResolved d \<and> rs_reviewId d = pr_reviewId pr
          \<and> rs_previousRevision d = revision \<and> rs_planDigest d = pr_planDigest pr
          \<and> resolved_status (rs_action d) = pr_status pr
          \<and> (rs_action d = Continue \<longrightarrow> (\<exists>text.
               pr_feedbackDigest pr = Some (digestRuntimeValue E (JStr text))
               \<and> (text \<noteq> [] \<longrightarrow> pr_feedback pr = Some text)))))"

definition review_logged :: "js_env \<Rightarrow> envelope list \<Rightarrow> projection \<Rightarrow> bool" where
  "review_logged E evs st \<longleftrightarrow> (case planReview st of
     None \<Rightarrow> True
   | Some pr \<Rightarrow> pr_requestedSeq pr \<le> cursor st \<and> (\<exists>revision.
       review_requested_by evs pr revision
       \<and> (if pr_status pr = AwaitingReview then pr_revision pr = revision
          else review_resolved_by E evs pr revision)))"

lemma review_by_snoc:
  "review_requested_by evs pr r \<Longrightarrow> review_requested_by (evs @ [ev]) pr r"
  "review_resolved_by E evs pr r \<Longrightarrow> review_resolved_by E (evs @ [ev]) pr r"
  by (auto simp: review_requested_by_def review_resolved_by_def)

lemma review_logged_keep:
  "review_logged E evs st \<Longrightarrow> planReview st' = planReview st \<Longrightarrow> cursor st \<le> cursor st' \<Longrightarrow>
     review_logged E (evs @ [ev]) st'"
  by (simp add: review_logged_def split: option.splits) (meson order_trans review_by_snoc)

lemma resolved_status_neq [simp]: "resolved_status a \<noteq> AwaitingReview"
  by (cases a) auto

lemma applyPayload_review:
  assumes "applyPayload E st ev p = Inr st'"
  shows "planReview st' = planReview st
    \<or> (\<exists>d. p = PlanReviewRequested d \<and> requestPlanReview E st ev d = Inr st')
    \<or> (\<exists>d. p = PlanReviewResolved d \<and> resolvePlanReview E st ev d = Inr st')"
  using assms
  by (cases p)
    (auto simp: plain_handlers split: if_splits option.splits sum.splits
      elim!: startTurnE steerTurnE requestTurnInterruptE commitTurnE finishTurnE startItemE
        finishItemE)

lemma review_logged_request:
  assumes "requestPlanReview E st ev d = Inr s" "en_payload ev = PlanReviewRequested d"
  shows "review_logged E (evs @ [ev]) (s\<lparr>cursor := en_seq ev\<rparr>)"
  using assms unfolding requestPlanReview_def
  by (auto simp: review_logged_def review_requested_by_def split: sum.splits option.splits
      if_splits prod.splits)

lemma review_logged_resolve:
  assumes "review_logged E evs st" "resolvePlanReview E st ev d = Inr s"
    and "en_payload ev = PlanReviewResolved d" "cursor st < en_seq ev"
  shows "review_logged E (evs @ [ev]) (s\<lparr>cursor := en_seq ev\<rparr>)"
proof -
  obtain pr where pr: "planReview st = Some pr" "pr_status pr = AwaitingReview"
    "pr_reviewId pr = rs_reviewId d" "pr_revision pr = rs_previousRevision d"
    "pr_planDigest pr = rs_planDigest d"
    using assms(2) by (cases rule: resolvePlanReviewE)
  have req: "pr_requestedSeq pr \<le> cursor st" "review_requested_by evs pr (pr_revision pr)"
    using assms(1) pr(1,2) by (auto simp: review_logged_def)
  obtain pr' where pr': "s = st\<lparr>planReview := Some pr'\<rparr>"
    "pr_status pr' = resolved_status (rs_action d)" "pr_reviewId pr' = pr_reviewId pr"
    "pr_planDigest pr' = pr_planDigest pr" "pr_planReceiptDigest pr' = pr_planReceiptDigest pr"
    "pr_requestedSeq pr' = pr_requestedSeq pr" "pr_resolvedSeq pr' = Some (en_seq ev)"
    "rs_action d = Continue \<longrightarrow> (\<exists>text.
       pr_feedbackDigest pr' = Some (digestRuntimeValue E (JStr text))
       \<and> (text \<noteq> [] \<longrightarrow> pr_feedback pr' = Some text))"
  proof (rule that)
    let ?fb = "map_option js_trim (rs_feedback d)"
    let ?pr = "pr\<lparr>pr_revision := rs_revision d, pr_status := resolved_status (rs_action d),
       pr_resolvedAt := Some (rs_resolvedAt d), pr_resolvedSeq := Some (en_seq ev),
       pr_feedback := (if truthy ?fb then ?fb else pr_feedback pr),
       pr_feedbackDigest := (if truthy (rs_feedbackDigest d) then rs_feedbackDigest d
          else pr_feedbackDigest pr)\<rparr>"
    show "s = st\<lparr>planReview := Some ?pr\<rparr>"
      using assms(2) pr by (simp add: resolvePlanReview_def Let_def split: if_splits)
    show "rs_action d = Continue \<longrightarrow> (\<exists>text.
       pr_feedbackDigest ?pr = Some (digestRuntimeValue E (JStr text))
       \<and> (text \<noteq> [] \<longrightarrow> pr_feedback ?pr = Some text))"
    proof
      assume a: "rs_action d = Continue"
      with assms(2) pr obtain f where f: "rs_feedback d = Some f"
        "rs_feedbackDigest d = Some (digestRuntimeValue E (JStr (js_trim f)))"
        "truthy (rs_feedbackDigest d)"
        by (cases "rs_feedback d") (auto simp: resolvePlanReview_def Let_def split: if_splits,
            (metis truthy_simps(2))+)
      then show "\<exists>text. pr_feedbackDigest ?pr = Some (digestRuntimeValue E (JStr text))
          \<and> (text \<noteq> [] \<longrightarrow> pr_feedback ?pr = Some text)"
        by (intro exI [of _ "js_trim f"]) auto
    qed
  qed simp_all
  have "review_requested_by (evs @ [ev]) pr' (pr_revision pr)"
    using req(2) pr' by (auto simp: review_requested_by_def)
  moreover have "review_resolved_by E (evs @ [ev]) pr' (pr_revision pr)"
    using pr pr' req(1) assms(3,4) by (auto simp: review_resolved_by_def)
  ultimately show ?thesis
    using pr' req(1) assms(4) by (auto simp: review_logged_def)
qed


lemma review_logged_new: "review_logged E [] (new_projection t)"
  by (simp add: review_logged_def)

lemma review_logged_step:
  assumes "review_logged E evs st" "applyThreadEvent E st ev = Inr st'"
  shows "review_logged E (evs @ [ev]) st'"
proof -
  obtain s where p: "applyPayload E st ev (en_payload ev) = Inr s" "en_seq ev = cursor st + 1"
    "st' = s\<lparr>cursor := en_seq ev\<rparr>"
    using assms(2) by (auto simp: applyThreadEvent_Inr)
  from applyPayload_review [OF p(1)] show ?thesis
  proof (elim disjE exE conjE)
    assume "planReview s = planReview st"
    moreover have "cursor st \<le> cursor st'" using p by simp
    ultimately show ?thesis using assms(1) p(3) by (intro review_logged_keep) simp_all
  next
    fix d assume d: "en_payload ev = PlanReviewRequested d" "requestPlanReview E st ev d = Inr s"
    show ?thesis unfolding p(3) using d(2,1) by (rule review_logged_request)
  next
    fix d assume d: "en_payload ev = PlanReviewResolved d" "resolvePlanReview E st ev d = Inr s"
    have "cursor st < en_seq ev" using p(2) by simp
    then show ?thesis unfolding p(3) by (rule review_logged_resolve [OF assms(1) d(2,1)])
  qed
qed

text \<open>A review that is no longer awaiting was requested by a
  \<open>plan.review_requested\<close> event of the log and decided by a later \<open>plan.review_resolved\<close>
  event that names the same review, the revision and the plan digest of the request, and the
  action that gave it its status; a continuation's feedback digest is the digest of the
  trimmed feedback. No plan is approved on another digest than the one under review.\<close>

lemma plan_review_resolution_bound:
  assumes "projectThreadEvents E D t evs = Inr (st, d)"
    and "planReview st = Some pr" "pr_status pr \<noteq> AwaitingReview"
  shows "\<exists>revision. review_requested_by evs pr revision \<and> review_resolved_by E evs pr revision"
proof -
  have "replay (applyThreadEvent E) (new_projection t) evs = Inr st"
    using assms(1) by (simp add: projectThreadEvents_Inr)
  then have "review_logged E evs st"
    by (rule thread_log.replay_snoc_induct) (simp_all add: review_logged_new review_logged_step)
  with assms(2,3) show ?thesis by (auto simp: review_logged_def)
qed

subsection \<open>A concrete log\<close>

text \<open>
  The log the witnesses project: a Thread starts, one turn is queued, a turn starts, runs an
  item and a tool, commits, completes and asks for a plan review that is then approved.
  The platform functions are instantiated by concrete ones: one receipt text parses to a
  commit receipt, another to a plan receipt, and every digest is the same text.
\<close>

definition log_receipt :: jsval where
  "log_receipt = JObj
     [(js ''commitId'', JStr (js ''c'')), (js ''terminal'', JStr (js ''completed'')),
      (js ''planReceiptDigest'', JStr (js ''h'')), (js ''planReceipt'', JStr (js ''plan'')),
      (js ''digest'', JStr (js ''h''))]"

definition log_plan_receipt :: jsval where
  "log_plan_receipt = JObj
     [(js ''planDigest'', JStr (js ''p'')), (js ''threadId'', JStr (js ''T'')),
      (js ''turnId'', JStr (js ''t'')), (js ''digest'', JStr (js ''h''))]"

definition log_env :: js_env where
  "log_env = \<lparr>json_stringify = (\<lambda>v. []),
     json_parse = (\<lambda>s. if s = js ''plan'' then Some log_plan_receipt else Some log_receipt),
     string_of = (\<lambda>v. []), sha256_hex = (\<lambda>s. js ''h''), locale_le = (\<lambda>a b. True)\<rparr>"

definition log_event :: "int \<Rightarrow> jsstr option \<Rightarrow> jsstr option \<Rightarrow> runtime_event \<Rightarrow> envelope" where
  "log_event n i q p =
     \<lparr>en_eventId = [], en_seq = n, en_threadId = js ''T'', en_turnId = Some (js ''t''),
      en_stepId = q, en_itemId = i, en_durability = Durable, en_timestamp = n,
      en_payload = p\<rparr>"

definition log_start :: "envelope list" where
  "log_start =
     [log_event 1 None None (ThreadStarted None),
      log_event 2 None None (TurnQueued \<lparr>qd_queueId = js ''q'', qd_input = js ''later'',
        qd_mode = ModeBuild, qd_kind = KindRegular, qd_source = SourceStart,
        qd_enqueuedAt = 0, qd_deadline = 9\<rparr>),
      log_event 3 None None (TurnStarted (js ''go'') ModePlan None),
      log_event 4 (Some (js ''i'')) (Some (js ''s'')) (ItemStarted
        \<lparr>is_kind = IkCommand, is_parentItemId = None, is_role = None, is_name = None,
         is_inputDigest = None, is_intent = None\<rparr>),
      log_event 5 (Some (js ''i'')) (Some (js ''s'')) (ItemCompleted None None None None),
      log_event 6 None None (ToolReceiptEvent \<lparr>tr_invocationId = js ''v'',
        tr_terminal = ToolCompleted, tr_success = True, tr_outputDigest = [],
        tr_receiptDigest = [], tr_intentDigest = []\<rparr>),
      log_event 7 None None (TurnCommitted \<lparr>cd_commitId = js ''c'', cd_terminal = TermCompleted,
        cd_digest = js ''h'', cd_receipt = js ''receipt'', cd_outcome = None, cd_error = None,
        cd_reason = None\<rparr>)]"

definition log_end :: "envelope list" where
  "log_end =
     [log_event 8 None None (TurnCompleted None),
      log_event 9 None None (PlanReviewRequested \<lparr>rq_reviewId = js ''w'', rq_revision = js ''1'',
        rq_planDigest = js ''p'', rq_planReceiptDigest = js ''h'', rq_createdAt = 9,
        rq_createdModel = [], rq_returnMode = ReturnBuild\<rparr>),
      log_event 10 None None (PlanReviewResolved \<lparr>rs_reviewId = js ''w'',
        rs_previousRevision = js ''1'', rs_revision = js ''2'', rs_planDigest = js ''p'',
        rs_action = Approve, rs_resolvedAt = 10, rs_feedback = None,
        rs_feedbackDigest = None\<rparr>)]"


abbreviation log_of :: "envelope list \<Rightarrow> invariant_error + frozen_projection" where
  "log_of evs \<equiv> projectThreadEvents log_env (\<lambda>_. []) (js ''T'') evs"

lemma log_start_runs:
  obtains st where "log_of log_start = Inr (st, [])"
    and "map_option tp_commit (turn_of st (js ''t'')) = Some (Some \<lparr>cp_commitId = js ''c'',
      cp_terminal = TermCompleted, cp_digest = js ''h'', cp_receipt = js ''receipt'',
      cp_outcome = None, cp_error = None, cp_reason = None, cp_seq = 7\<rparr>)"
    and "map_option ip_status (item_of st (js ''i'')) = Some IsCompleted"
proof -
  have "(case log_of log_start of Inl _ \<Rightarrow> False | Inr p \<Rightarrow> snd p = []
    \<and> map_option tp_commit (turn_of (fst p) (js ''t'')) = Some (Some \<lparr>cp_commitId = js ''c'',
      cp_terminal = TermCompleted, cp_digest = js ''h'', cp_receipt = js ''receipt'',
      cp_outcome = None, cp_error = None, cp_reason = None, cp_seq = 7\<rparr>)
    \<and> map_option ip_status (item_of (fst p) (js ''i'')) = Some IsCompleted)"
    by code_simp
  then show thesis by (auto split: sum.splits intro: that)
qed

lemma log_runs:
  obtains st pr where "log_of (log_start @ log_end) = Inr (st, [])"
    and "map_option tp_status (turn_of st (js ''t'')) = Some TsCompleted"
    and "planReview st = Some pr" "pr_status pr = Approved"
    and "toolInvocationIds st = [js ''v'']" "map qt_queuedSeq (queue st) = [2]"
proof -
  have "(case log_of (log_start @ log_end) of Inl _ \<Rightarrow> False | Inr p \<Rightarrow> snd p = []
    \<and> map_option tp_status (turn_of (fst p) (js ''t'')) = Some TsCompleted
    \<and> map_option pr_status (planReview (fst p)) = Some Approved
    \<and> toolInvocationIds (fst p) = [js ''v''] \<and> map qt_queuedSeq (queue (fst p)) = [2])"
    by code_simp
  then show thesis by (auto split: sum.splits intro: that)
qed

text \<open>Each property applied to that log.\<close>

lemma projection_log_shape_example:
  "\<exists>st. log_of (log_start @ log_end) = Inr (st, []) \<and> cursor st = 10"
proof -
  obtain st where "log_of (log_start @ log_end) = Inr (st, [])" by (rule log_runs)
  with projection_log_shape [OF this] show ?thesis by (simp add: log_start_def log_end_def)
qed

theorem projection_invariant_witness:
  "\<exists>st. log_of (log_start @ log_end) = Inr (st, []) \<and> proj_inv st \<and> queue st \<noteq> []"
proof -
  obtain st where "log_of (log_start @ log_end) = Inr (st, [])" "map qt_queuedSeq (queue st) = [2]"
    by (rule log_runs)
  with projection_invariant [OF this(1)] show ?thesis by auto
qed


theorem terminal_facts_final_witness:
  "\<exists>st st' it. log_of log_start = Inr (st, []) \<and> log_of (log_start @ log_end) = Inr (st', [])
     \<and> item_of st (js ''i'') = Some it \<and> item_of st' (js ''i'') = Some it"
proof -
  obtain st where st: "log_of log_start = Inr (st, [])"
    "map_option ip_status (item_of st (js ''i'')) = Some IsCompleted" by (rule log_start_runs)
  obtain st' where st': "log_of (log_start @ log_end) = Inr (st', [])" by (rule log_runs)
  from terminal_facts_final [OF st(1) st'] st st' show ?thesis by auto
qed

lemma commit_decides_terminal_example:
  "\<exists>st st' tn. log_of log_start = Inr (st, []) \<and> log_of (log_start @ log_end) = Inr (st', [])
     \<and> turn_of st' (js ''t'') = Some tn \<and> tp_commit tn \<noteq> None \<and> tp_status tn = TsCompleted"
proof -
  obtain st where st: "log_of log_start = Inr (st, [])"
    "map_option tp_commit (turn_of st (js ''t'')) = Some (Some \<lparr>cp_commitId = js ''c'',
      cp_terminal = TermCompleted, cp_digest = js ''h'', cp_receipt = js ''receipt'',
      cp_outcome = None, cp_error = None, cp_reason = None, cp_seq = 7\<rparr>)"
    by (rule log_start_runs)
  obtain st' where st': "log_of (log_start @ log_end) = Inr (st', [])"
    "map_option tp_status (turn_of st' (js ''t'')) = Some TsCompleted" by (rule log_runs)
  from commit_decides_terminal [OF st(1) st'(1)] st st' show ?thesis by fastforce
qed

lemma tool_receipts_unique_example:
  "\<exists>st. log_of (log_start @ log_end) = Inr (st, []) \<and> toolInvocationIds st = [js ''v'']
     \<and> distinct (toolInvocationIds st)"
proof -
  obtain st where "log_of (log_start @ log_end) = Inr (st, [])"
    "toolInvocationIds st = [js ''v'']" by (rule log_runs)
  with tool_receipts_unique [OF this(1)] show ?thesis by blast
qed

lemma queue_in_log_order_example:
  "\<exists>st x. log_of (log_start @ log_end) = Inr (st, []) \<and> x \<in> set (queue st)
     \<and> queued_by (log_start @ log_end) x"
proof -
  obtain st where "log_of (log_start @ log_end) = Inr (st, [])" "map qt_queuedSeq (queue st) = [2]"
    by (rule log_runs)
  with queue_in_log_order [OF this(1)] show ?thesis by auto
qed

lemma plan_review_resolution_bound_example:
  "\<exists>st pr r. log_of (log_start @ log_end) = Inr (st, []) \<and> planReview st = Some pr
     \<and> pr_status pr = Approved \<and> review_resolved_by log_env (log_start @ log_end) pr r"
proof -
  obtain st pr where "log_of (log_start @ log_end) = Inr (st, [])" "planReview st = Some pr"
    "pr_status pr = Approved" by (rule log_runs)
  with plan_review_resolution_bound [OF this(1,2)] show ?thesis by auto
qed

end
