(* ===== verification/ThreadAdmission.thy ===== *)
theory ThreadAdmission
  imports RuntimeProtocol
begin

section \<open>The admission controller of a Thread\<close>

text \<open>
  Models \<open>ThreadAdmissionControllerV1\<close> of \<open>src/src/runtime/thread-admission.ts\<close>. Readings of
  \<open>clock\<close> and results of \<open>idFactory\<close> are arguments, one per call the method makes, in
  the order of the calls; an id that is not consulted is not used. A method that can throw
  returns the error or its result together with the state it leaves behind. Epoch times and
  byte counts are exact integers; a requested deadline is any JavaScript number.
\<close>

subsection \<open>Data\<close>

record turn_request =
  req_input :: jsstr
  req_mode :: turn_mode
  req_kind :: "turn_kind option"
  req_deadline :: "jsnum option"

record active_turn_record =
  at_turnId :: jsstr
  at_input :: jsstr
  at_mode :: turn_mode
  at_kind :: turn_kind
  at_startedAt :: int
  at_intentId :: "jsstr option"

record queued_entry =
  qe_queueId :: jsstr
  qe_input :: jsstr
  qe_inputBytes :: int
  qe_mode :: turn_mode
  qe_kind :: turn_kind
  qe_source :: queue_source
  qe_enqueuedAt :: int
  qe_deadline :: int

datatype admission_reason =
    Overloaded
  | NonSteerable
  | ShutDown
  | NoActiveTurn
  | DeadlineExpired
  | InvalidInput
  | TurnMismatch

datatype turn_admission =
    AdStarted jsstr
  | AdSteered jsstr jsstr
  | AdQueued jsstr int int
  | AdRejected admission_reason

datatype interrupt_admission =
    InterruptRequested jsstr jsstr bool
  | InterruptRejected admission_reason

text \<open>\<open>FinStarted turnId queueId expired\<close>, \<open>FinIdle expired\<close>, \<open>FinRejected reason\<close>.\<close>

datatype turn_finish =
    FinStarted jsstr "jsstr option" "jsstr list"
  | FinIdle "jsstr list"
  | FinRejected admission_reason

text \<open>
  The mutable fields. A snapshot (\<open>ThreadAdmissionSnapshotV1\<close>) is a copy of the same five.
\<close>

record admission =
  ad_active :: "active_turn_record option"
  ad_queue :: "queued_entry list"
  ad_bytes :: int
  ad_mode :: turn_mode
  ad_shutdown :: bool

record admission_limits =
  maxQueuedItems :: int
  maxQueuedBytes :: int
  maxQueueWaitMs :: int
  maxInputBytes :: int

datatype admission_error =
    IdMustBeUuid string
  | NotPositive string
  | PriorityInputInvalid
  | PriorityDeadlineExpired
  | SnapshotByteAccounting
  | SnapshotItemLimit
  | SnapshotMode
  | SnapshotTurnId
  | SnapshotQueueItem

type_synonym 'a outcome = "(admission_error + 'a) \<times> admission"

subsection \<open>Construction\<close>

definition positiveInteger :: "jsnum \<Rightarrow> string \<Rightarrow> admission_error + int" where
  "positiveInteger v name =
     (case int_of_val (JNum v) of
        None \<Rightarrow> Inl (NotPositive name)
      | Some n \<Rightarrow> if is_safe_integer n \<and> 0 < n then Inr n else Inl (NotPositive name))"

definition or_default :: "jsnum option \<Rightarrow> int \<Rightarrow> jsnum" where
  "or_default v d = (case v of None \<Rightarrow> Fin (of_int d) | Some n \<Rightarrow> n)"

definition new_limits ::
  "jsnum option \<Rightarrow> jsnum option \<Rightarrow> jsnum option \<Rightarrow> jsnum option
     \<Rightarrow> admission_error + admission_limits" where
  "new_limits items bytes wait input =
     (case positiveInteger (or_default items 16) ''maxQueuedItems'' of
        Inl e \<Rightarrow> Inl e
      | Inr i \<Rightarrow>
     (case positiveInteger (or_default bytes (256 * 1024)) ''maxQueuedBytes'' of
        Inl e \<Rightarrow> Inl e
      | Inr b \<Rightarrow>
     (case positiveInteger (or_default wait (5 * 60 * 1000)) ''maxQueueWaitMs'' of
        Inl e \<Rightarrow> Inl e
      | Inr w \<Rightarrow>
     (case positiveInteger (or_default input b) ''maxInputBytes'' of
        Inl e \<Rightarrow> Inl e
      | Inr m \<Rightarrow> Inr \<lparr>maxQueuedItems = i, maxQueuedBytes = b, maxQueueWaitMs = w,
                  maxInputBytes = m\<rparr>))))"

definition new_admission :: admission where
  "new_admission =
     \<lparr>ad_active = None, ad_queue = [], ad_bytes = 0, ad_mode = ModeBuild, ad_shutdown = False\<rparr>"

subsection \<open>Helpers\<close>

definition byte_length :: "jsstr \<Rightarrow> int" where
  "byte_length s = int (utf8_bytes s)"

definition validInput :: "jsstr \<Rightarrow> int \<Rightarrow> bool" where
  "validInput input maxBytes \<longleftrightarrow> js_trim input \<noteq> [] \<and> byte_length input \<le> maxBytes"

definition validDeadline :: "jsnum \<Rightarrow> int \<Rightarrow> bool" where
  "validDeadline d now =
     (case int_of_val (JNum d) of None \<Rightarrow> False | Some n \<Rightarrow> is_safe_integer n \<and> n > now)"

text \<open>\<open>request.deadline\<close> as an integer, once \<open>validDeadline\<close> accepted it.\<close>

definition deadline_of :: "jsnum option \<Rightarrow> int option" where
  "deadline_of d = Option.bind d (\<lambda>n. int_of_val (JNum n))"

definition nextId :: "jsstr \<Rightarrow> string \<Rightarrow> admission_error + jsstr" where
  "nextId i subject = (if isRuntimeId i then Inr i else Inl (IdMustBeUuid subject))"

definition dropExpired :: "int \<Rightarrow> admission \<Rightarrow> jsstr list \<times> admission" where
  "dropExpired now s =
     (let retained = filter (\<lambda>e. \<not> qe_deadline e \<le> now) (ad_queue s) in
      (map qe_queueId (filter (\<lambda>e. qe_deadline e \<le> now) (ad_queue s)),
       s\<lparr>ad_queue := retained, ad_bytes := sum_list (map qe_inputBytes retained)\<rparr>))"

definition begin_turn ::
  "jsstr \<Rightarrow> turn_mode \<Rightarrow> turn_kind \<Rightarrow> int \<Rightarrow> jsstr \<Rightarrow> admission \<Rightarrow> jsstr outcome" where
  "begin_turn input mode kind now i s =
     (case nextId i ''turn'' of
        Inl e \<Rightarrow> (Inl e, s)
      | Inr turnId \<Rightarrow>
          (Inr turnId,
           s\<lparr>ad_mode := (if mode \<noteq> ModeMaintenance then mode else ad_mode s),
             ad_active := Some \<lparr>at_turnId = turnId, at_input = input, at_mode = mode,
               at_kind = kind, at_startedAt = now, at_intentId = None\<rparr>\<rparr>))"

subsection \<open>Admission of a turn\<close>

definition request_kind :: "turn_request \<Rightarrow> turn_kind" where
  "request_kind r = (case req_kind r of
     Some k \<Rightarrow> k
   | None \<Rightarrow> if req_mode r = ModeMaintenance then KindMaintenance else KindRegular)"

definition admitTurn ::
  "admission_limits \<Rightarrow> turn_request \<Rightarrow> queue_source \<Rightarrow> int \<Rightarrow> jsstr \<Rightarrow> admission
     \<Rightarrow> turn_admission outcome" where
  "admitTurn L r source now i s0 =
     (if ad_shutdown s0 then (Inr (AdRejected ShutDown), s0)
      else let s = snd (dropExpired now s0); inputBytes = byte_length (req_input r) in
        if \<not> validInput (req_input r) (maxInputBytes L) then (Inr (AdRejected InvalidInput), s)
        else if (case req_deadline r of None \<Rightarrow> False | Some d \<Rightarrow> \<not> validDeadline d now)
        then (Inr (AdRejected DeadlineExpired), s)
        else if ad_active s = None
        then (case begin_turn (req_input r) (req_mode r) (request_kind r) now i s of
                (Inl e, s') \<Rightarrow> (Inl e, s')
              | (Inr turnId, s') \<Rightarrow> (Inr (AdStarted turnId), s'))
        else if int (length (ad_queue s)) \<ge> maxQueuedItems L \<or> inputBytes > maxQueuedBytes L
          \<or> ad_bytes s + inputBytes > maxQueuedBytes L
        then (Inr (AdRejected Overloaded), s)
        else (case nextId i ''queue item'' of
                Inl e \<Rightarrow> (Inl e, s)
              | Inr queueId \<Rightarrow>
                  (let deadline = min (case deadline_of (req_deadline r) of
                                         None \<Rightarrow> now + maxQueueWaitMs L | Some d \<Rightarrow> d)
                                      (now + maxQueueWaitMs L);
                       queue = ad_queue s @
                         [\<lparr>qe_queueId = queueId, qe_input = req_input r,
                           qe_inputBytes = inputBytes, qe_mode = req_mode r,
                           qe_kind = request_kind r, qe_source = source,
                           qe_enqueuedAt = now, qe_deadline = deadline\<rparr>] in
                   (Inr (AdQueued queueId (int (length queue)) deadline),
                    s\<lparr>ad_queue := queue, ad_bytes := ad_bytes s + inputBytes\<rparr>))))"

definition start_turn ::
  "admission_limits \<Rightarrow> turn_request \<Rightarrow> int \<Rightarrow> jsstr \<Rightarrow> admission \<Rightarrow> turn_admission outcome" where
  "start_turn L r now i s = admitTurn L r SourceStart now i s"

definition followUp ::
  "admission_limits \<Rightarrow> turn_request \<Rightarrow> int \<Rightarrow> jsstr \<Rightarrow> admission \<Rightarrow> turn_admission outcome" where
  "followUp L r now i s = admitTurn L r SourceFollowUp now i s"

definition steer ::
  "admission_limits \<Rightarrow> jsstr \<Rightarrow> jsstr \<Rightarrow> admission \<Rightarrow> turn_admission outcome" where
  "steer L input i s =
     (if ad_shutdown s then (Inr (AdRejected ShutDown), s)
      else case ad_active s of
        None \<Rightarrow> (Inr (AdRejected NoActiveTurn), s)
      | Some a \<Rightarrow>
          if at_kind a = KindMaintenance then (Inr (AdRejected NonSteerable), s)
          else if \<not> validInput input (maxInputBytes L) then (Inr (AdRejected InvalidInput), s)
          else (case nextId i ''steer item'' of
                  Inl e \<Rightarrow> (Inl e, s)
                | Inr itemId \<Rightarrow> (Inr (AdSteered (at_turnId a) itemId), s)))"

definition interrupt :: "jsstr \<Rightarrow> admission \<Rightarrow> interrupt_admission outcome" where
  "interrupt i s =
     (if ad_shutdown s then (Inr (InterruptRejected ShutDown), s)
      else case ad_active s of
        None \<Rightarrow> (Inr (InterruptRejected NoActiveTurn), s)
      | Some a \<Rightarrow>
          if truthy (at_intentId a)
          then (Inr (InterruptRequested (at_turnId a) (the (at_intentId a)) True), s)
          else (case nextId i ''interrupt intent'' of
                  Inl e \<Rightarrow> (Inl e, s)
                | Inr intentId \<Rightarrow>
                    (Inr (InterruptRequested (at_turnId a) intentId False),
                     s\<lparr>ad_active := Some (a\<lparr>at_intentId := Some intentId\<rparr>)\<rparr>)))"

subsection \<open>Finishing and promotion\<close>

definition startNextQueued ::
  "int \<Rightarrow> int \<Rightarrow> jsstr \<Rightarrow> admission \<Rightarrow> turn_finish outcome" where
  "startNextQueued now now' i s0 =
     (if ad_active s0 \<noteq> None then (Inr (FinRejected TurnMismatch), s0)
      else let (expired, s) = dropExpired now s0 in
        case ad_queue s of
          [] \<Rightarrow> (Inr (FinIdle expired), s)
        | e # es \<Rightarrow>
            (case begin_turn (qe_input e) (qe_mode e) (qe_kind e) now' i
                    (s\<lparr>ad_queue := es, ad_bytes := ad_bytes s - qe_inputBytes e\<rparr>) of
               (Inl x, s') \<Rightarrow> (Inl x, s')
             | (Inr turnId, s') \<Rightarrow> (Inr (FinStarted turnId (Some (qe_queueId e)) expired), s')))"

definition active_is :: "admission \<Rightarrow> jsstr \<Rightarrow> bool" where
  "active_is s t \<longleftrightarrow> map_option at_turnId (ad_active s) = Some t"

definition finish ::
  "jsstr \<Rightarrow> int \<Rightarrow> int \<Rightarrow> jsstr \<Rightarrow> admission \<Rightarrow> turn_finish outcome" where
  "finish turnId now now' i s =
     (if \<not> active_is s turnId then (Inr (FinRejected TurnMismatch), s)
      else startNextQueued now now' i (s\<lparr>ad_active := None\<rparr>))"

definition finishAndStartPriority ::
  "admission_limits \<Rightarrow> jsstr \<Rightarrow> jsstr \<Rightarrow> jsnum option \<Rightarrow> int \<Rightarrow> jsstr \<Rightarrow> admission
     \<Rightarrow> turn_finish outcome" where
  "finishAndStartPriority L turnId input deadline now i s0 =
     (if \<not> active_is s0 turnId then (Inr (FinRejected TurnMismatch), s0)
      else if \<not> validInput input (maxInputBytes L) then (Inl PriorityInputInvalid, s0)
      else if (case deadline of None \<Rightarrow> False | Some d \<Rightarrow> \<not> validDeadline d now)
      then (Inl PriorityDeadlineExpired, s0)
      else let (expired, s) = dropExpired now (s0\<lparr>ad_active := None\<rparr>) in
        (case begin_turn input ModeMaintenance KindMaintenance now i s of
           (Inl e, s') \<Rightarrow> (Inl e, s')
         | (Inr turnId', s') \<Rightarrow> (Inr (FinStarted turnId' None expired), s')))"

subsection \<open>Shutdown, snapshot and restore\<close>

definition close_admission :: "admission \<Rightarrow> jsstr list \<times> admission" where
  "close_admission s =
     (map qe_queueId (ad_queue s), s\<lparr>ad_shutdown := True, ad_queue := [], ad_bytes := 0\<rparr>)"

definition getSnapshot :: "int \<Rightarrow> admission \<Rightarrow> admission \<times> admission" where
  "getSnapshot now s = (let s' = snd (dropExpired now s) in (s', s'))"

definition restore :: "admission_limits \<Rightarrow> admission \<Rightarrow> admission \<Rightarrow> unit outcome" where
  "restore L snap s =
     (let queuedBytes = sum_list (map qe_inputBytes (ad_queue snap)) in
      if queuedBytes \<noteq> ad_bytes snap \<or> queuedBytes > maxQueuedBytes L
      then (Inl SnapshotByteAccounting, s)
      else if int (length (ad_queue snap)) > maxQueuedItems L then (Inl SnapshotItemLimit, s)
      else if ad_mode snap \<notin> set [ModeBuild, ModePlan, ModeAuto, ModeGoal]
      then (Inl SnapshotMode, s)
      else if (case ad_active snap of None \<Rightarrow> False | Some a \<Rightarrow> \<not> isRuntimeId (at_turnId a))
      then (Inl SnapshotTurnId, s)
      else if \<exists>e \<in> set (ad_queue snap). \<not> isRuntimeId (qe_queueId e)
                \<or> \<not> validInput (qe_input e) (maxInputBytes L)
      then (Inl SnapshotQueueItem, s)
      else (Inr (), snap\<lparr>ad_bytes := queuedBytes\<rparr>))"

subsection \<open>admit\<close>

datatype command_admission = TurnAdmission turn_admission | IntAdmission interrupt_admission

definition lift_turn :: "turn_admission outcome \<Rightarrow> command_admission outcome" where
  "lift_turn r = (map_sum id TurnAdmission (fst r), snd r)"

definition lift_int :: "interrupt_admission outcome \<Rightarrow> command_admission outcome" where
  "lift_int r = (map_sum id IntAdmission (fst r), snd r)"

text \<open>The mode of a follow-up: the active turn's, unless that is maintenance.\<close>

definition follow_up_mode :: "admission \<Rightarrow> turn_mode" where
  "follow_up_mode s = (case ad_active s of
     Some a \<Rightarrow> if at_mode a \<noteq> ModeMaintenance then at_mode a else ad_mode s
   | None \<Rightarrow> ad_mode s)"

text \<open>\<open>admit\<close> takes the four turn commands; the type of its argument excludes the others.\<close>

fun admit ::
  "admission_limits \<Rightarrow> runtime_command \<Rightarrow> int \<Rightarrow> jsstr \<Rightarrow> admission
     \<Rightarrow> (command_admission outcome) option" where
  "admit L (CmdTurnStart input mode p) now i s =
     Some (lift_turn (start_turn L \<lparr>req_input = input, req_mode = mode,
       req_kind = Some (if mode = ModeGoal then KindGoal else KindRegular),
       req_deadline = None\<rparr> now i s))"
| "admit L (CmdTurnSteer input) now i s = Some (lift_turn (steer L input i s))"
| "admit L (CmdTurnFollowUp input) now i s =
     Some (lift_turn (followUp L \<lparr>req_input = input, req_mode = follow_up_mode s,
       req_kind = None, req_deadline = None\<rparr> now i s))"
| "admit L (CmdTurnInterrupt p) now i s = Some (lift_int (interrupt i s))"
| "admit L _ now i s = None"

end
