(* ===== verification/AdmissionProperties.thy ===== *)
theory AdmissionProperties
  imports ThreadAdmission
begin

section \<open>What the admission controller guarantees\<close>

text \<open>
  The queue accounting invariant, kept by every public method whatever its clock readings and
  ids, errors included; promotion in arrival order with every queued turn accounted for;
  interrupts that ask once; and snapshots that restore.
\<close>

subsection \<open>The invariant\<close>

definition entry_ok :: "admission_limits \<Rightarrow> queued_entry \<Rightarrow> bool" where
  "entry_ok L e \<longleftrightarrow> isRuntimeId (qe_queueId e) \<and> validInput (qe_input e) (maxInputBytes L)
     \<and> qe_inputBytes e = byte_length (qe_input e)"

definition adm_inv :: "admission_limits \<Rightarrow> admission \<Rightarrow> bool" where
  "adm_inv L s \<longleftrightarrow> list_all (entry_ok L) (ad_queue s)
     \<and> ad_bytes s = sum_list (map (\<lambda>e. byte_length (qe_input e)) (ad_queue s))
     \<and> ad_bytes s \<le> maxQueuedBytes L \<and> int (length (ad_queue s)) \<le> maxQueuedItems L
     \<and> ad_mode s \<noteq> ModeMaintenance
     \<and> (\<forall>a. ad_active s = Some a \<longrightarrow> isRuntimeId (at_turnId a))
     \<and> (ad_shutdown s \<longrightarrow> ad_queue s = [])"

definition limits_ok :: "admission_limits \<Rightarrow> bool" where
  "limits_ok L \<longleftrightarrow> 0 < maxQueuedItems L \<and> 0 < maxQueuedBytes L \<and> 0 < maxQueueWaitMs L
     \<and> 0 < maxInputBytes L"

lemma new_limits_ok: "new_limits a b c d = Inr L \<Longrightarrow> limits_ok L"
  by (auto simp: new_limits_def positiveInteger_def limits_ok_def split: sum.splits option.splits
      if_splits)

lemma byte_length_nonneg [simp]: "0 \<le> byte_length s"
  by (simp add: byte_length_def)

lemma adm_inv_new: "limits_ok L \<Longrightarrow> adm_inv L new_admission"
  by (simp add: adm_inv_def new_admission_def limits_ok_def)

lemma entry_bytes:
  "list_all (entry_ok L) es \<Longrightarrow> map qe_inputBytes es = map (\<lambda>e. byte_length (qe_input e)) es"
  by (simp add: entry_ok_def list_all_iff)

lemma dropExpired_simps [simp]:
  "ad_active (snd (dropExpired now s)) = ad_active s"
  "ad_mode (snd (dropExpired now s)) = ad_mode s"
  "ad_shutdown (snd (dropExpired now s)) = ad_shutdown s"
  "ad_queue (snd (dropExpired now s)) = filter (\<lambda>e. \<not> qe_deadline e \<le> now) (ad_queue s)"
  "fst (dropExpired now s) = map qe_queueId (filter (\<lambda>e. qe_deadline e \<le> now) (ad_queue s))"
  by (simp_all add: dropExpired_def Let_def)

lemma dropExpired_inv:
  assumes "adm_inv L s"
  shows "adm_inv L (snd (dropExpired now s))"
proof -
  let ?es = "filter (\<lambda>e. \<not> qe_deadline e \<le> now) (ad_queue s)"
  have ok: "list_all (entry_ok L) ?es"
    using assms by (simp add: adm_inv_def list_all_filter)
  have "ad_bytes (snd (dropExpired now s)) = sum_list (map (\<lambda>e. byte_length (qe_input e)) ?es)"
    using entry_bytes [OF ok] by (simp only: dropExpired_def Let_def) simp
  moreover have "\<dots> \<le> ad_bytes s"
    using assms sum_list_filter_le [of "ad_queue s" "\<lambda>e. byte_length (qe_input e)"]
    by (simp add: adm_inv_def)
  moreover have "int (length ?es) \<le> maxQueuedItems L"
    using assms by (simp add: adm_inv_def int_length_filter)
  ultimately show ?thesis
    using assms ok by (auto simp: adm_inv_def)
qed

lemma begin_turn_inv:
  "adm_inv L s \<Longrightarrow> adm_inv L (snd (begin_turn input mode kind now i s))"
  by (auto simp: begin_turn_def nextId_def adm_inv_def)

lemma begin_turn_Inr:
  "begin_turn input mode kind now i s = (Inr t, s') \<Longrightarrow>
     t = i \<and> isRuntimeId i \<and> ad_queue s' = ad_queue s \<and> ad_bytes s' = ad_bytes s
     \<and> ad_shutdown s' = ad_shutdown s
     \<and> ad_active s' = Some \<lparr>at_turnId = i, at_input = input, at_mode = mode,
         at_kind = kind, at_startedAt = now, at_intentId = None\<rparr>"
  by (auto simp: begin_turn_def nextId_def split: if_splits)

lemma begin_turn_Inl:
  "begin_turn input mode kind now i s = (Inl e, s') \<Longrightarrow> s' = s \<and> \<not> isRuntimeId i"
  by (auto simp: begin_turn_def nextId_def split: if_splits)

subsection \<open>Every method keeps it\<close>

lemma snd_pair_sum_case [simp]:
  "snd (case p of (Inl e, s') \<Rightarrow> (Inl e, s') | (Inr t, s') \<Rightarrow> (Inr (f t), s')) = snd p"
  "snd (case fst p of Inl e \<Rightarrow> (Inl e, snd p) | Inr t \<Rightarrow> (Inr (f t), snd p)) = snd p"
  by (auto split: prod.splits sum.splits)

lemma admitTurn_inv:
  assumes "adm_inv L s"
  shows "adm_inv L (snd (admitTurn L r source now i s))"
proof -
  note inv = dropExpired_inv [OF assms, of now]
  show ?thesis
  proof (cases "nextId i ''queue item''")
    case (Inl e)
    then show ?thesis
      using assms inv begin_turn_inv [OF inv]
      by (auto simp: admitTurn_def Let_def split: option.split)
  next
    case (Inr q)
    let ?s = "snd (dropExpired now s)"
    have q: "isRuntimeId q" using Inr by (simp add: nextId_def split: if_splits)
    have push: "adm_inv L (?s\<lparr>ad_queue := ad_queue ?s @
          [\<lparr>qe_queueId = q, qe_input = req_input r, qe_inputBytes = byte_length (req_input r),
            qe_mode = req_mode r, qe_kind = request_kind r, qe_source = source,
            qe_enqueuedAt = now, qe_deadline = d\<rparr>],
         ad_bytes := ad_bytes ?s + byte_length (req_input r)\<rparr>)"
      if "\<not> ad_shutdown s" "validInput (req_input r) (maxInputBytes L)"
        "int (length (ad_queue ?s)) < maxQueuedItems L"
        "ad_bytes ?s + byte_length (req_input r) \<le> maxQueuedBytes L" for d
      using inv that q by (simp add: adm_inv_def entry_ok_def)
    show ?thesis
      using assms inv begin_turn_inv [OF inv] push Inr
      by (auto simp: admitTurn_def Let_def)
  qed
qed

lemma steer_state [simp]: "snd (steer L input i s) = s"
  by (auto simp: steer_def split: option.split sum.split)

lemma interrupt_inv: "adm_inv L s \<Longrightarrow> adm_inv L (snd (interrupt i s))"
  by (auto simp: interrupt_def adm_inv_def split: option.split sum.split)

lemma startNextQueued_inv:
  assumes "adm_inv L s"
  shows "adm_inv L (snd (startNextQueued now now' i s))"
proof -
  let ?s = "snd (dropExpired now s)"
  note inv = dropExpired_inv [OF assms, of now]
  have "adm_inv L (?s\<lparr>ad_queue := es, ad_bytes := ad_bytes ?s - qe_inputBytes e\<rparr>)"
    if "ad_queue ?s = e # es" for e es
    using inv that byte_length_nonneg [of "qe_input e"]
    by (auto simp: adm_inv_def entry_ok_def simp del: byte_length_nonneg)
  then show ?thesis
    using assms inv
    by (auto simp: startNextQueued_def Let_def case_prod_unfold begin_turn_inv split: list.split)
qed

lemma adm_inv_idle: "adm_inv L s \<Longrightarrow> adm_inv L (s\<lparr>ad_active := None\<rparr>)"
  by (simp add: adm_inv_def)

lemma finish_inv: "adm_inv L s \<Longrightarrow> adm_inv L (snd (finish t now now' i s))"
  by (simp add: finish_def startNextQueued_inv adm_inv_idle)

lemma finishAndStartPriority_inv:
  "adm_inv L s \<Longrightarrow> adm_inv L (snd (finishAndStartPriority L t input d now i s))"
  by (auto simp: finishAndStartPriority_def Let_def case_prod_unfold begin_turn_inv
      dropExpired_inv adm_inv_idle split: option.split)

lemma close_admission_inv:
  "limits_ok L \<Longrightarrow> adm_inv L s \<Longrightarrow> adm_inv L (snd (close_admission s))"
  by (simp add: close_admission_def adm_inv_def limits_ok_def)

lemma getSnapshot_inv: "adm_inv L s \<Longrightarrow> adm_inv L (snd (getSnapshot now s))"
  by (simp add: getSnapshot_def Let_def dropExpired_inv)


text \<open>
  A run of the controller, with the snapshot the caller took last. \<open>restore\<close> is only given
  such a snapshot, as the runtime does when a durable write fails.
\<close>

datatype admission_op =
    OpStart turn_request int jsstr
  | OpFollowUp turn_request int jsstr
  | OpSteer jsstr jsstr
  | OpInterrupt jsstr
  | OpFinish jsstr int int jsstr
  | OpPriority jsstr jsstr "jsnum option" int jsstr
  | OpStartNext int int jsstr
  | OpClose
  | OpSnapshot int
  | OpRestore

fun adm_step :: "admission_limits \<Rightarrow> admission_op \<Rightarrow> admission \<times> admission
    \<Rightarrow> admission \<times> admission" where
  "adm_step L (OpStart r now i) (s, p) = (snd (start_turn L r now i s), p)"
| "adm_step L (OpFollowUp r now i) (s, p) = (snd (followUp L r now i s), p)"
| "adm_step L (OpSteer input i) (s, p) = (snd (steer L input i s), p)"
| "adm_step L (OpInterrupt i) (s, p) = (snd (interrupt i s), p)"
| "adm_step L (OpFinish t now now' i) (s, p) = (snd (finish t now now' i s), p)"
| "adm_step L (OpPriority t input d now i) (s, p) =
     (snd (finishAndStartPriority L t input d now i s), p)"
| "adm_step L (OpStartNext now now' i) (s, p) = (snd (startNextQueued now now' i s), p)"
| "adm_step L OpClose (s, p) = (snd (close_admission s), p)"
| "adm_step L (OpSnapshot now) (s, p) = (snd (getSnapshot now s), fst (getSnapshot now s))"
| "adm_step L OpRestore (s, p) = (snd (restore L p s), p)"

lemma restore_inv:
  "adm_inv L s \<Longrightarrow> adm_inv L p \<Longrightarrow> adm_inv L (snd (restore L p s))"
  by (auto simp: restore_def adm_inv_def Let_def)

definition run_inv_of :: "admission_limits \<Rightarrow> admission \<times> admission \<Rightarrow> bool" where
  "run_inv_of L sp \<longleftrightarrow> limits_ok L \<and> adm_inv L (fst sp) \<and> adm_inv L (snd sp)"

lemma adm_step_inv: "run_inv_of L sp \<Longrightarrow> run_inv_of L (adm_step L x sp)"
  by (cases sp; cases x)
    (auto simp: run_inv_of_def start_turn_def followUp_def admitTurn_inv interrupt_inv finish_inv
      finishAndStartPriority_inv startNextQueued_inv close_admission_inv getSnapshot_inv
      restore_inv getSnapshot_def Let_def dropExpired_inv)

interpretation admission_runs: component "adm_step L" "run_inv_of L"
  by unfold_locales (rule adm_step_inv)

subsection \<open>Properties\<close>

lemma adm_runs_inv:
  assumes "limits_ok L"
  shows "adm_inv L (fst (run (adm_step L) ops (new_admission, new_admission)))"
proof -
  have "run_inv_of L (new_admission, new_admission)"
    using assms by (simp add: run_inv_of_def adm_inv_new)
  from admission_runs.run_inv [OF this] show ?thesis by (simp add: run_inv_of_def)
qed


text \<open>Finishing the active turn drops exactly the entries whose deadline has
  passed, reports them, and starts the oldest entry that is left, so turns start in the order
  they were queued and no queued turn leaves the queue unreported.\<close>

lemma finish_promotes_in_order:
  assumes "active_is s t" "isRuntimeId i"
  shows "case filter (\<lambda>e. \<not> qe_deadline e \<le> now) (ad_queue s) of
      [] \<Rightarrow> fst (finish t now now' i s)
              = Inr (FinIdle (map qe_queueId (filter (\<lambda>e. qe_deadline e \<le> now) (ad_queue s))))
            \<and> ad_active (snd (finish t now now' i s)) = None
            \<and> ad_queue (snd (finish t now now' i s)) = []
    | e # es \<Rightarrow> fst (finish t now now' i s) = Inr (FinStarted i (Some (qe_queueId e))
              (map qe_queueId (filter (\<lambda>e. qe_deadline e \<le> now) (ad_queue s))))
            \<and> ad_queue (snd (finish t now now' i s)) = es
            \<and> map_option at_input (ad_active (snd (finish t now now' i s))) = Some (qe_input e)"
  using assms
  by (auto simp: finish_def startNextQueued_def Let_def case_prod_unfold begin_turn_def nextId_def
      split: list.split)

text \<open>The first interrupt of an active turn records its intent; every later
  one before the turn ends reports the same intent and changes nothing, whatever id is at
  hand.\<close>

lemma interrupt_idempotent:
  assumes "interrupt i s = (Inr (InterruptRequested t intent False), s')"
  shows "interrupt j s' = (Inr (InterruptRequested t intent True), s')
    \<and> isRuntimeId intent \<and> ad_queue s' = ad_queue s \<and> active_is s' t"
  using assms isRuntimeId_nonempty
  by (auto simp: interrupt_def nextId_def active_is_def split: if_splits option.splits)

lemma restore_self:
  assumes "adm_inv L t"
  shows "restore L t s' = (Inr (), t)"
proof -
  have es: "list_all (entry_ok L) (ad_queue t)" using assms by (simp add: adm_inv_def)
  have bytes: "sum_list (map qe_inputBytes (ad_queue t)) = ad_bytes t"
    using assms entry_bytes [OF es] by (simp only: adm_inv_def)
  have mode: "ad_mode t \<in> set [ModeBuild, ModePlan, ModeAuto, ModeGoal]"
    using assms by (cases "ad_mode t") (auto simp: adm_inv_def)
  show ?thesis
    using assms es mode
    by (auto simp: restore_def Let_def bytes adm_inv_def entry_ok_def list_all_iff
        split: option.split)
qed

text \<open>A snapshot of any reachable state restores, from any state, exactly the
  state the snapshot was taken in.\<close>

lemma snapshot_restores:
  assumes "adm_inv L s"
  shows "restore L (fst (getSnapshot now s)) s' = (Inr (), snd (getSnapshot now s))"
  using restore_self [OF dropExpired_inv [OF assms]] by (simp add: getSnapshot_def Let_def)

subsection \<open>A concrete run\<close>

definition adm_id :: jsstr where
  "adm_id = js ''00000000-0000-4000-8000-000000000001''"

definition adm_limits :: admission_limits where
  "adm_limits = \<lparr>maxQueuedItems = 2, maxQueuedBytes = 10, maxQueueWaitMs = 100,
     maxInputBytes = 10\<rparr>"

definition adm_request :: "string \<Rightarrow> turn_request" where
  "adm_request s = \<lparr>req_input = js s, req_mode = ModeBuild, req_kind = None, req_deadline = None\<rparr>"

definition adm_busy :: admission where
  "adm_busy = snd (start_turn adm_limits (adm_request ''two'') 5 adm_id
     (snd (start_turn adm_limits (adm_request ''one'') 0 adm_id new_admission)))"


lemma finish_promotes_in_order_example:
  "map_option at_input (ad_active (snd (finish adm_id 6 6 adm_id adm_busy))) = Some (js ''two'')"
proof -
  have "active_is adm_busy adm_id" "isRuntimeId adm_id" "map qe_input (filter (\<lambda>e. \<not> qe_deadline e \<le> 6) (ad_queue adm_busy)) = [js ''two'']"
    by code_simp+
  with finish_promotes_in_order [OF this(1,2), of 6 6] show ?thesis
    by (auto split: list.splits)
qed

lemma snapshot_restores_example:
  "restore adm_limits (fst (getSnapshot 6 adm_busy)) new_admission
     = (Inr (), snd (getSnapshot 6 adm_busy))"
proof -
  have "adm_inv adm_limits adm_busy"
    using adm_runs_inv [of adm_limits "[OpStart (adm_request ''one'') 0 adm_id,
      OpStart (adm_request ''two'') 5 adm_id]"]
    by (simp add: adm_busy_def limits_ok_def adm_limits_def)
  from snapshot_restores [OF this] show ?thesis .
qed

end
