(* ===== verification/ProtocolSchema.thy ===== *)
theory ProtocolSchema
  imports RuntimeProtocol
begin

section \<open>The protocol schemas and their validators\<close>

text \<open>
  Models the schema half of \<open>src/src/runtime/protocol/runtime-protocol-v1.ts\<close>: the schema
  type, every command and event schema, \<open>validateSchema\<close>, \<open>validateEventIdentity\<close> and the
  two assertions, which collect problems and throw when there is one. A problem is its path
  and kind, or the fixed message of the source; the assertions return the list of problems,
  empty when the value is accepted. \<open>in\<close> and property reads on an object see the members of
  \<open>Object.prototype\<close>, a schema found there has no known type.
\<close>

subsection \<open>Schemas\<close>

text \<open>
  \<open>SStr enum minLength\<close>, \<open>SNum integer minimum\<close>, \<open>SArr items maxItems\<close> and
  \<open>SObj properties required\<close>; \<open>additionalProperties\<close> is always false.
\<close>

datatype schema =
    SStr "jsstr list option" "nat option"
  | SNum bool "int option"
  | SBool
  | SArr schema "nat option"
  | SObj "(jsstr \<times> schema) list" "jsstr list"

definition string_schema :: schema where
  "string_schema = SStr None None"

definition nonEmptyString :: schema where
  "nonEmptyString = SStr None (Some 1)"

definition nonNegativeInteger :: schema where
  "nonNegativeInteger = SNum True (Some 0)"

subsection \<open>The command and event schemas\<close>

definition cmd_initialize :: schema where
  "cmd_initialize = SObj
     [(js ''clientId'', nonEmptyString),
      (js ''cwd'', string_schema)]
     [js ''clientId'']"

definition cmd_thread_start :: schema where
  "cmd_thread_start = SObj
     [(js ''threadId'', nonEmptyString),
      (js ''input'', string_schema)]
     [js ''input'']"

definition cmd_thread_resume :: schema where
  "cmd_thread_resume = SObj
     [(js ''threadId'', nonEmptyString),
      (js ''cursor'', nonNegativeInteger)]
     [js ''threadId'']"

definition cmd_thread_fork :: schema where
  "cmd_thread_fork = SObj
     [(js ''sourceThreadId'', nonEmptyString),
      (js ''sourceSeq'', nonNegativeInteger),
      (js ''threadId'', nonEmptyString)]
     [js ''sourceThreadId'']"

definition cmd_turn_start :: schema where
  "cmd_turn_start = SObj
     [(js ''input'', nonEmptyString),
      (js ''mode'', SStr (Some [js ''build'', js ''plan'', js ''auto'', js ''goal'']) None),
      (js ''authorityId'', nonEmptyString)]
     [js ''input'', js ''mode'']"

definition cmd_turn_steer :: schema where
  "cmd_turn_steer = SObj
     [(js ''input'', nonEmptyString)]
     [js ''input'']"

definition cmd_turn_follow_up :: schema where
  "cmd_turn_follow_up = SObj
     [(js ''input'', nonEmptyString)]
     [js ''input'']"

definition cmd_turn_interrupt :: schema where
  "cmd_turn_interrupt = SObj
     [(js ''reason'', string_schema)]
     []"

definition cmd_approval_respond :: schema where
  "cmd_approval_respond = SObj
     [(js ''requestId'', nonEmptyString),
      (js ''approved'', SBool),
      (js ''scope'', SStr (Some [js ''once'', js ''project'', js ''global'']) None)]
     [js ''requestId'', js ''approved'']"

definition AGENT_RUNTIME_COMMAND_DEFINITIONS_V1 :: "(jsstr \<times> schema) list" where
  "AGENT_RUNTIME_COMMAND_DEFINITIONS_V1 =
    [(js ''initialize'', cmd_initialize),
     (js ''thread.start'', cmd_thread_start),
     (js ''thread.resume'', cmd_thread_resume),
     (js ''thread.fork'', cmd_thread_fork),
     (js ''turn.start'', cmd_turn_start),
     (js ''turn.steer'', cmd_turn_steer),
     (js ''turn.follow_up'', cmd_turn_follow_up),
     (js ''turn.interrupt'', cmd_turn_interrupt),
     (js ''approval.respond'', cmd_approval_respond)]"

definition ev_thread_started :: schema where
  "ev_thread_started = SObj
     [(js ''projectPath'', string_schema)]
     []"

definition ev_thread_resumed :: schema where
  "ev_thread_resumed = SObj
     [(js ''fromSeq'', nonNegativeInteger)]
     [js ''fromSeq'']"

definition ev_thread_forked :: schema where
  "ev_thread_forked = SObj
     [(js ''sourceThreadId'', nonEmptyString),
      (js ''sourceSeq'', nonNegativeInteger)]
     [js ''sourceThreadId'', js ''sourceSeq'']"

definition ev_turn_started :: schema where
  "ev_turn_started = SObj
     [(js ''input'', nonEmptyString),
      (js ''mode'', SStr (Some [js ''build'', js ''plan'', js ''auto'', js ''goal'', js ''maintenance'']) None),
      (js ''queueId'', nonEmptyString)]
     [js ''input'', js ''mode'']"

definition ev_turn_queued :: schema where
  "ev_turn_queued = SObj
     [(js ''queueId'', nonEmptyString),
      (js ''input'', nonEmptyString),
      (js ''mode'', SStr (Some [js ''build'', js ''plan'', js ''auto'', js ''goal'', js ''maintenance'']) None),
      (js ''kind'', SStr (Some [js ''regular'', js ''goal'', js ''maintenance'']) None),
      (js ''source'', SStr (Some [js ''start'', js ''follow_up'']) None),
      (js ''enqueuedAt'', nonNegativeInteger),
      (js ''deadline'', nonNegativeInteger)]
     [js ''queueId'', js ''input'', js ''mode'',
      js ''kind'', js ''source'', js ''enqueuedAt'',
      js ''deadline'']"

definition ev_turn_queue_expired :: schema where
  "ev_turn_queue_expired = SObj
     [(js ''queueId'', nonEmptyString)]
     [js ''queueId'']"

definition ev_turn_steered :: schema where
  "ev_turn_steered = SObj
     [(js ''itemId'', nonEmptyString),
      (js ''input'', nonEmptyString)]
     [js ''itemId'', js ''input'']"

definition ev_turn_interrupt_requested :: schema where
  "ev_turn_interrupt_requested = SObj
     [(js ''intentId'', nonEmptyString),
      (js ''reason'', string_schema)]
     [js ''intentId'']"

definition ev_turn_committed :: schema where
  "ev_turn_committed = SObj
     [(js ''commitId'', nonEmptyString),
      (js ''terminal'', SStr (Some [js ''completed'', js ''failed'', js ''interrupted'']) None),
      (js ''digest'', nonEmptyString),
      (js ''receipt'', nonEmptyString),
      (js ''outcome'', string_schema),
      (js ''error'', string_schema),
      (js ''reason'', string_schema)]
     [js ''commitId'', js ''terminal'', js ''digest'',
      js ''receipt'']"

definition ev_plan_review_requested :: schema where
  "ev_plan_review_requested = SObj
     [(js ''reviewId'', nonEmptyString),
      (js ''revision'', nonEmptyString),
      (js ''planDigest'', nonEmptyString),
      (js ''planReceiptDigest'', nonEmptyString),
      (js ''createdAt'', nonNegativeInteger),
      (js ''createdModel'', nonEmptyString),
      (js ''returnMode'', SStr (Some [js ''build'', js ''auto'']) None)]
     [js ''reviewId'', js ''revision'', js ''planDigest'',
      js ''planReceiptDigest'', js ''createdAt'', js ''createdModel'',
      js ''returnMode'']"

definition ev_plan_review_resolved :: schema where
  "ev_plan_review_resolved = SObj
     [(js ''reviewId'', nonEmptyString),
      (js ''previousRevision'', nonEmptyString),
      (js ''revision'', nonEmptyString),
      (js ''planDigest'', nonEmptyString),
      (js ''action'', SStr (Some [js ''approve'', js ''continue'', js ''cancel'']) None),
      (js ''resolvedAt'', nonNegativeInteger),
      (js ''feedback'', string_schema),
      (js ''feedbackDigest'', nonEmptyString)]
     [js ''reviewId'', js ''previousRevision'', js ''revision'',
      js ''planDigest'', js ''action'', js ''resolvedAt'']"

definition ev_turn_completed :: schema where
  "ev_turn_completed = SObj
     [(js ''outcome'', string_schema)]
     []"

definition ev_turn_failed :: schema where
  "ev_turn_failed = SObj
     [(js ''error'', nonEmptyString)]
     [js ''error'']"

definition ev_turn_interrupted :: schema where
  "ev_turn_interrupted = SObj
     [(js ''reason'', string_schema)]
     []"

definition ev_item_started :: schema where
  "ev_item_started = SObj
     [(js ''kind'', SStr (Some [js ''message'', js ''reasoning'', js ''command'', js ''file_change'', js ''mcp'', js ''plan'', js ''compact'']) None),
      (js ''parentItemId'', nonEmptyString),
      (js ''role'', SStr (Some [js ''user'', js ''assistant'', js ''system'', js ''tool'']) None),
      (js ''name'', nonEmptyString),
      (js ''inputDigest'', nonEmptyString),
      (js ''intent'', string_schema)]
     [js ''kind'']"

definition ev_item_delta :: schema where
  "ev_item_delta = SObj
     [(js ''delta'', string_schema),
      (js ''channel'', SStr (Some [js ''content'', js ''reasoning'', js ''output'']) None)]
     [js ''delta'']"

definition ev_item_completed :: schema where
  "ev_item_completed = SObj
     [(js ''content'', string_schema),
      (js ''summary'', string_schema),
      (js ''outputDigest'', nonEmptyString),
      (js ''receipt'', string_schema)]
     []"

definition ev_item_failed :: schema where
  "ev_item_failed = SObj
     [(js ''error'', nonEmptyString),
      (js ''receipt'', string_schema)]
     [js ''error'']"

definition ev_item_interrupted :: schema where
  "ev_item_interrupted = SObj
     [(js ''reason'', string_schema),
      (js ''receipt'', string_schema)]
     []"

definition ev_item_indeterminate :: schema where
  "ev_item_indeterminate = SObj
     [(js ''reason'', nonEmptyString),
      (js ''receipt'', string_schema)]
     [js ''reason'']"

definition ev_compact_started :: schema where
  "ev_compact_started = SObj
     [(js ''sourceSeq'', nonNegativeInteger),
      (js ''transactionId'', nonEmptyString),
      (js ''sourceReceiptDigest'', nonEmptyString),
      (js ''startedProjectionDigest'', nonEmptyString)]
     [js ''sourceSeq'', js ''transactionId'', js ''sourceReceiptDigest'',
      js ''startedProjectionDigest'']"

definition ev_compact_completed :: schema where
  "ev_compact_completed = SObj
     [(js ''checkpointId'', nonEmptyString),
      (js ''sourceSeq'', nonNegativeInteger),
      (js ''transactionId'', nonEmptyString),
      (js ''commitReceiptDigest'', nonEmptyString),
      (js ''nextModelVisibleHistoryDigest'', nonEmptyString)]
     [js ''checkpointId'', js ''sourceSeq'', js ''transactionId'',
      js ''commitReceiptDigest'', js ''nextModelVisibleHistoryDigest'']"

definition ev_compact_failed :: schema where
  "ev_compact_failed = SObj
     [(js ''error'', nonEmptyString),
      (js ''transactionId'', nonEmptyString),
      (js ''sourceSeq'', nonNegativeInteger),
      (js ''failureCode'', nonEmptyString),
      (js ''failureReceiptDigest'', nonEmptyString)]
     [js ''error'', js ''transactionId'', js ''sourceSeq'',
      js ''failureCode'', js ''failureReceiptDigest'']"

definition ev_approval_requested :: schema where
  "ev_approval_requested = SObj
     [(js ''requestId'', nonEmptyString),
      (js ''toolName'', nonEmptyString)]
     [js ''requestId'', js ''toolName'']"

definition ev_step_snapshot :: schema where
  "ev_step_snapshot = SObj
     [(js ''snapshotId'', nonEmptyString),
      (js ''digest'', nonEmptyString),
      (js ''receipt'', nonEmptyString)]
     [js ''snapshotId'', js ''digest'', js ''receipt'']"

definition ev_capability_receipt :: schema where
  "ev_capability_receipt = SObj
     [(js ''receiptId'', nonEmptyString),
      (js ''digest'', nonEmptyString),
      (js ''receipt'', nonEmptyString)]
     [js ''receiptId'', js ''digest'', js ''receipt'']"

definition ev_tool_receipt :: schema where
  "ev_tool_receipt = SObj
     [(js ''invocationId'', nonEmptyString),
      (js ''terminal'', SStr (Some [js ''completed'', js ''failed'', js ''interrupted'', js ''indeterminate'']) None),
      (js ''success'', SBool),
      (js ''outputDigest'', nonEmptyString),
      (js ''receiptDigest'', nonEmptyString),
      (js ''intentDigest'', nonEmptyString)]
     [js ''invocationId'', js ''terminal'', js ''success'',
      js ''outputDigest'', js ''receiptDigest'', js ''intentDigest'']"

definition RUNTIME_EVENT_DEFINITIONS_V1 :: "(jsstr \<times> schema) list" where
  "RUNTIME_EVENT_DEFINITIONS_V1 =
    [(js ''thread.started'', ev_thread_started),
     (js ''thread.resumed'', ev_thread_resumed),
     (js ''thread.forked'', ev_thread_forked),
     (js ''turn.started'', ev_turn_started),
     (js ''turn.queued'', ev_turn_queued),
     (js ''turn.queue_expired'', ev_turn_queue_expired),
     (js ''turn.steered'', ev_turn_steered),
     (js ''turn.interrupt_requested'', ev_turn_interrupt_requested),
     (js ''turn.committed'', ev_turn_committed),
     (js ''plan.review_requested'', ev_plan_review_requested),
     (js ''plan.review_resolved'', ev_plan_review_resolved),
     (js ''turn.completed'', ev_turn_completed),
     (js ''turn.failed'', ev_turn_failed),
     (js ''turn.interrupted'', ev_turn_interrupted),
     (js ''item.started'', ev_item_started),
     (js ''item.delta'', ev_item_delta),
     (js ''item.completed'', ev_item_completed),
     (js ''item.failed'', ev_item_failed),
     (js ''item.interrupted'', ev_item_interrupted),
     (js ''item.indeterminate'', ev_item_indeterminate),
     (js ''compact.started'', ev_compact_started),
     (js ''compact.completed'', ev_compact_completed),
     (js ''compact.failed'', ev_compact_failed),
     (js ''approval.requested'', ev_approval_requested),
     (js ''step.snapshot'', ev_step_snapshot),
     (js ''capability.receipt'', ev_capability_receipt),
     (js ''tool.receipt'', ev_tool_receipt)]"

subsection \<open>validateSchema\<close>

datatype path_step = Key jsstr | Index nat

datatype problem_kind =
    MustBeString
  | MustNotBeEmpty
  | MustBeOneOf "jsstr list"
  | MustBeNumber bool
  | MustBeAtLeast int
  | MustBeBoolean
  | MustBeArray
  | AtMostItems nat
  | MustBeObject
  | IsRequired
  | NotAllowed
  | UnsupportedSchema

datatype problem =
    At "path_step list" problem_kind
  | Says string
  | SaysOf jsstr string

definition object_prototype :: "jsstr list" where
  "object_prototype = map js
     [''constructor'', ''__defineGetter__'', ''__defineSetter__'', ''hasOwnProperty'',
      ''__lookupGetter__'', ''__lookupSetter__'', ''isPrototypeOf'', ''propertyIsEnumerable'',
      ''toString'', ''valueOf'', ''__proto__'', ''toLocaleString'']"

text \<open>\<open>key in value\<close>.\<close>

definition in_object :: "jsstr \<Rightarrow> (jsstr \<times> 'v) list \<Rightarrow> bool" where
  "in_object k kvs \<longleftrightarrow> map_of kvs k \<noteq> None \<or> k \<in> set object_prototype"

definition is_number :: "bool \<Rightarrow> jsval \<Rightarrow> bool" where
  "is_number integer v = (case v of
     JNum (Fin q) \<Rightarrow> \<not> integer \<or> val_is_safe_integer v
   | _ \<Rightarrow> False)"

definition number_below :: "jsval \<Rightarrow> int \<Rightarrow> bool" where
  "number_below v n = (case v of JNum (Fin q) \<Rightarrow> q < of_int n | _ \<Rightarrow> False)"

lemma size_entry: "(k, v) \<in> set kvs \<Longrightarrow> size v < size (JObj kvs)"
  by (induction kvs) auto

lemma size_element: "i < length vs \<Longrightarrow> size (vs ! i) < size (JArr vs)"
  by (simp add: less_Suc_eq_le size_list_estimation' [OF nth_mem])

function (sequential) validateSchema :: "jsval \<Rightarrow> schema \<Rightarrow> path_step list \<Rightarrow> problem list" where
  "validateSchema v (SStr enum minLength) path =
     (case v of
        JStr s \<Rightarrow>
          (case minLength of
             None \<Rightarrow> [] | Some n \<Rightarrow> if length s < n then [At path MustNotBeEmpty] else [])
          @ (case enum of
               None \<Rightarrow> [] | Some es \<Rightarrow> if s \<notin> set es then [At path (MustBeOneOf es)] else [])
      | _ \<Rightarrow> [At path MustBeString])"
| "validateSchema v (SNum integer minimum) path =
     (if \<not> is_number integer v then [At path (MustBeNumber integer)]
      else (case minimum of
              None \<Rightarrow> [] | Some n \<Rightarrow> if number_below v n then [At path (MustBeAtLeast n)] else []))"
| "validateSchema v SBool path =
     (case v of JBool b \<Rightarrow> [] | _ \<Rightarrow> [At path MustBeBoolean])"
| "validateSchema v (SArr items maxItems) path =
     (case v of
        JArr vs \<Rightarrow>
          (case maxItems of
             None \<Rightarrow> [] | Some n \<Rightarrow> if length vs > n then [At path (AtMostItems n)] else [])
          @ concat (map (\<lambda>i. validateSchema (vs ! i) items (path @ [Index i])) [0..<length vs])
      | _ \<Rightarrow> [At path MustBeArray])"
| "validateSchema v (SObj properties required) path =
     (case v of
        JObj kvs \<Rightarrow>
          concat (map (\<lambda>k. if in_object k kvs then [] else [At (path @ [Key k]) IsRequired])
            (remdups required))
          @ concat (map (\<lambda>kv.
              case map_of properties (fst kv) of
                None \<Rightarrow>
                  if fst kv \<in> set object_prototype
                  then [At (path @ [Key (fst kv)]) UnsupportedSchema]
                  else [At (path @ [Key (fst kv)]) NotAllowed]
              | Some s \<Rightarrow> validateSchema (snd kv) s (path @ [Key (fst kv)])) kvs)
      | _ \<Rightarrow> [At path MustBeObject])"
  by pat_completeness auto

termination
proof (relation "measure (\<lambda>(v, s, path). size v)", goal_cases)
  case 1
  show ?case by (rule wf_measure)
next
  case (2 v items maxItems path vs i)
  then show ?case using size_element by simp
next
  case (3 v properties required path kvs kv s)
  then show ?case using size_entry [of "fst kv" "snd kv" kvs] by simp
qed

subsection \<open>The two assertions\<close>

fun is_runtime_id :: "jsval \<Rightarrow> bool" where
  "is_runtime_id (JStr s) = isRuntimeId s"
| "is_runtime_id _ = False"

definition problem_when :: "bool \<Rightarrow> problem \<Rightarrow> problem list" where
  "problem_when b p = (if b then [p] else [])"

text \<open>\<open>value.type in TABLE\<close>, then \<open>validateSchema\<close> against the schema found.\<close>

definition validate_against ::
  "(jsstr \<times> schema) list \<Rightarrow> jsstr \<Rightarrow> jsval \<Rightarrow> path_step list \<Rightarrow> problem list" where
  "validate_against table t v path = (case map_of table t of
     Some s \<Rightarrow> validateSchema v s path
   | None \<Rightarrow> [At path UnsupportedSchema])"

definition assertAgentRuntimeCommandV1 :: "jsval \<Rightarrow> problem list" where
  "assertAgentRuntimeCommandV1 v =
     (if \<not> is_record v then [Says ''command must be an object'']
      else problem_when (get_prop v (js ''protocolVersion'') \<noteq> jint 1)
             (Says ''protocolVersion must equal 1'')
        @ problem_when (\<not> is_runtime_id (get_prop v (js ''commandId'')))
             (Says ''commandId must be a UUID'')
        @ (case get_prop v (js ''type'') of
             JStr t \<Rightarrow>
               if in_object t AGENT_RUNTIME_COMMAND_DEFINITIONS_V1
               then validate_against AGENT_RUNTIME_COMMAND_DEFINITIONS_V1 t
                      (get_prop v (js ''data'')) [Key (js ''data'')]
               else [Says ''type must be a known command'']
           | _ \<Rightarrow> [Says ''type must be a known command'']))"

definition safe_non_negative :: "jsval \<Rightarrow> bool" where
  "safe_non_negative v = (case int_of_val v of
     None \<Rightarrow> False | Some n \<Rightarrow> is_safe_integer n \<and> 0 \<le> n)"

definition validateEventIdentity :: "jsval \<Rightarrow> jsstr \<Rightarrow> problem list" where
  "validateEventIdentity v t =
     (let durable = get_prop v (js ''durability'') = JStr (js ''durable'');
          no_turn = \<not> is_runtime_id (get_prop v (js ''turnId''));
          sq = get_prop v (js ''seq'') in
      (if t = js ''item.delta''
       then problem_when (get_prop v (js ''durability'') \<noteq> JStr (js ''ephemeral''))
              (Says ''item.delta must be ephemeral'')
       else problem_when (\<not> durable) (SaysOf t ''must be durable''))
      @ problem_when (durable \<and> (\<not> val_is_safe_integer sq \<or> sq = jint 0))
          (Says ''durable events require seq >= 1'')
      @ problem_when (starts_with t (js ''turn.'') \<and> t \<noteq> js ''turn.queued''
            \<and> t \<noteq> js ''turn.queue_expired'' \<and> no_turn) (SaysOf t ''requires turnId'')
      @ (if starts_with t (js ''item.'')
         then problem_when no_turn (SaysOf t ''requires turnId'')
           @ problem_when (\<not> is_runtime_id (get_prop v (js ''stepId''))) (SaysOf t ''requires stepId'')
           @ problem_when (\<not> is_runtime_id (get_prop v (js ''itemId''))) (SaysOf t ''requires itemId'')
         else [])
      @ problem_when (starts_with t (js ''compact.'') \<and> no_turn) (SaysOf t ''requires turnId''))"

definition assertRuntimeEventEnvelopeV1 :: "jsval \<Rightarrow> problem list" where
  "assertRuntimeEventEnvelopeV1 v =
     (if \<not> is_record v then [Says ''event envelope must be an object'']
      else problem_when (get_prop v (js ''protocolVersion'') \<noteq> jint 1)
             (Says ''protocolVersion must equal 1'')
        @ problem_when (\<not> is_runtime_id (get_prop v (js ''eventId''))) (Says ''eventId must be a UUID'')
        @ problem_when (\<not> is_runtime_id (get_prop v (js ''threadId''))) (Says ''threadId must be a UUID'')
        @ concat (map (\<lambda>f. problem_when (get_prop v f \<noteq> JUndefined \<and> \<not> is_runtime_id (get_prop v f))
             (SaysOf f ''must be a UUID when present''))
             [js ''turnId'', js ''stepId'', js ''itemId''])
        @ problem_when (\<not> safe_non_negative (get_prop v (js ''seq'')))
             (Says ''seq must be a non-negative safe integer'')
        @ problem_when (\<not> safe_non_negative (get_prop v (js ''timestamp'')))
             (Says ''timestamp must be a non-negative safe integer'')
        @ problem_when (get_prop v (js ''durability'') \<noteq> JStr (js ''durable'')
              \<and> get_prop v (js ''durability'') \<noteq> JStr (js ''ephemeral''))
             (Says ''durability must be durable or ephemeral'')
        @ (let p = get_prop v (js ''payload'') in
           case get_prop p (js ''type'') of
             JStr t \<Rightarrow>
               if \<not> is_record p then [Says ''payload must be a typed event object'']
               else if \<not> in_object t RUNTIME_EVENT_DEFINITIONS_V1
               then [Says ''payload.type must be a known event'']
               else validate_against RUNTIME_EVENT_DEFINITIONS_V1 t (get_prop p (js ''data''))
                      [Key (js ''payload''), Key (js ''data'')]
                 @ validateEventIdentity v t
           | _ \<Rightarrow> [Says ''payload must be a typed event object'']))"

end
