(* ===== verification/ProtocolEncoding.thy ===== *)
theory ProtocolEncoding
  imports ProtocolSchema
begin

section \<open>Typed events as the values the validators see\<close>

text \<open>
  The objects the typed commands, events and envelopes of \<open>RuntimeProtocol\<close> stand for, and
  the exact condition under which the validators accept them: the protocol types and the
  schemas describe the same values.
\<close>

subsection \<open>String literals\<close>

lemma word16_of_char_inject: "(word_of_nat (of_char c) :: 16 word) = word_of_nat (of_char d) \<Longrightarrow> c = d"
proof -
  assume eq: "(word_of_nat (of_char c) :: 16 word) = word_of_nat (of_char d)"
  have small: "(of_char e :: nat) < 2 ^ 16" for e :: char
    by (rule order_less_trans [OF nat_of_char_less_256]) simp
  have "(of_char c :: nat) = of_char d"
    using arg_cong [OF eq, of unat] small by (simp add: unat_of_nat take_bit_nat_eq_self)
  then show ?thesis by simp
qed

lemma js_inject [simp]: "js s = js t \<longleftrightarrow> s = t"
  unfolding js_def by (intro inj_map_eq_map injI) (rule word16_of_char_inject)

lemma js_Nil_iff [simp]: "js s = [] \<longleftrightarrow> s = []" "[] = js s \<longleftrightarrow> s = []"
  by (auto simp: js_def)

lemma length_js [simp]: "length (js s) = length s"
  by (simp add: js_def)

lemma starts_with_js [simp]: "starts_with (js s) (js p) \<longleftrightarrow> take (length p) s = p"
  unfolding starts_with_def length_js by (simp add: js_def take_map flip: js_inject [unfolded js_def])

subsection \<open>Names of the enumerations\<close>

fun mode_name :: "turn_mode \<Rightarrow> jsstr" where
  "mode_name ModeBuild = js ''build''"
| "mode_name ModePlan = js ''plan''"
| "mode_name ModeAuto = js ''auto''"
| "mode_name ModeGoal = js ''goal''"
| "mode_name ModeMaintenance = js ''maintenance''"

fun kind_name :: "turn_kind \<Rightarrow> jsstr" where
  "kind_name KindRegular = js ''regular''"
| "kind_name KindGoal = js ''goal''"
| "kind_name KindMaintenance = js ''maintenance''"

fun source_name :: "queue_source \<Rightarrow> jsstr" where
  "source_name SourceStart = js ''start''"
| "source_name SourceFollowUp = js ''follow_up''"

fun turn_terminal_name :: "turn_terminal \<Rightarrow> jsstr" where
  "turn_terminal_name TermCompleted = js ''completed''"
| "turn_terminal_name TermFailed = js ''failed''"
| "turn_terminal_name TermInterrupted = js ''interrupted''"

fun tool_terminal_name :: "tool_terminal \<Rightarrow> jsstr" where
  "tool_terminal_name ToolCompleted = js ''completed''"
| "tool_terminal_name ToolFailed = js ''failed''"
| "tool_terminal_name ToolInterrupted = js ''interrupted''"
| "tool_terminal_name ToolIndeterminate = js ''indeterminate''"

fun return_mode_name :: "return_mode \<Rightarrow> jsstr" where
  "return_mode_name ReturnBuild = js ''build''"
| "return_mode_name ReturnAuto = js ''auto''"

fun action_name :: "review_action \<Rightarrow> jsstr" where
  "action_name Approve = js ''approve''"
| "action_name Continue = js ''continue''"
| "action_name Cancel = js ''cancel''"

fun item_kind_name :: "item_kind \<Rightarrow> jsstr" where
  "item_kind_name IkMessage = js ''message''"
| "item_kind_name IkReasoning = js ''reasoning''"
| "item_kind_name IkCommand = js ''command''"
| "item_kind_name IkFileChange = js ''file_change''"
| "item_kind_name IkMcp = js ''mcp''"
| "item_kind_name IkPlan = js ''plan''"
| "item_kind_name IkCompact = js ''compact''"

fun role_name :: "item_role \<Rightarrow> jsstr" where
  "role_name RoleUser = js ''user''"
| "role_name RoleAssistant = js ''assistant''"
| "role_name RoleSystem = js ''system''"
| "role_name RoleTool = js ''tool''"

fun channel_name :: "delta_channel \<Rightarrow> jsstr" where
  "channel_name ChContent = js ''content''"
| "channel_name ChReasoning = js ''reasoning''"
| "channel_name ChOutput = js ''output''"

fun scope_name :: "approval_scope \<Rightarrow> jsstr" where
  "scope_name ScopeOnce = js ''once''"
| "scope_name ScopeProject = js ''project''"
| "scope_name ScopeGlobal = js ''global''"

fun durability_name :: "durability \<Rightarrow> jsstr" where
  "durability_name Durable = js ''durable''"
| "durability_name Ephemeral = js ''ephemeral''"

subsection \<open>Encoding\<close>

definition prop_str :: "string \<Rightarrow> jsstr \<Rightarrow> (jsstr \<times> jsval) list" where
  "prop_str k s = [(js k, JStr s)]"

definition prop_int :: "string \<Rightarrow> int \<Rightarrow> (jsstr \<times> jsval) list" where
  "prop_int k n = [(js k, jint n)]"

definition prop_bool :: "string \<Rightarrow> bool \<Rightarrow> (jsstr \<times> jsval) list" where
  "prop_bool k b = [(js k, JBool b)]"

text \<open>An absent optional property is left out.\<close>

definition opt_str :: "string \<Rightarrow> jsstr option \<Rightarrow> (jsstr \<times> jsval) list" where
  "opt_str k v = (case v of None \<Rightarrow> [] | Some s \<Rightarrow> prop_str k s)"

definition opt_int :: "string \<Rightarrow> int option \<Rightarrow> (jsstr \<times> jsval) list" where
  "opt_int k v = (case v of None \<Rightarrow> [] | Some n \<Rightarrow> prop_int k n)"

fun event_type :: "runtime_event \<Rightarrow> string" where
  "event_type (ThreadStarted _) = ''thread.started''"
| "event_type (ThreadResumed _) = ''thread.resumed''"
| "event_type (ThreadForked _ _) = ''thread.forked''"
| "event_type (TurnStarted _ _ _) = ''turn.started''"
| "event_type (TurnQueued _) = ''turn.queued''"
| "event_type (TurnQueueExpired _) = ''turn.queue_expired''"
| "event_type (TurnSteered _ _) = ''turn.steered''"
| "event_type (TurnInterruptRequested _ _) = ''turn.interrupt_requested''"
| "event_type (TurnCommitted _) = ''turn.committed''"
| "event_type (PlanReviewRequested _) = ''plan.review_requested''"
| "event_type (PlanReviewResolved _) = ''plan.review_resolved''"
| "event_type (TurnCompleted _) = ''turn.completed''"
| "event_type (TurnFailed _) = ''turn.failed''"
| "event_type (TurnInterrupted _) = ''turn.interrupted''"
| "event_type (ItemStarted _) = ''item.started''"
| "event_type (ItemDelta _ _) = ''item.delta''"
| "event_type (ItemCompleted _ _ _ _) = ''item.completed''"
| "event_type (ItemFailed _ _) = ''item.failed''"
| "event_type (ItemInterrupted _ _) = ''item.interrupted''"
| "event_type (ItemIndeterminate _ _) = ''item.indeterminate''"
| "event_type (CompactStarted _ _ _ _) = ''compact.started''"
| "event_type (CompactCompleted _ _ _ _ _) = ''compact.completed''"
| "event_type (CompactFailed _ _ _ _ _) = ''compact.failed''"
| "event_type (ApprovalRequested _ _) = ''approval.requested''"
| "event_type (StepSnapshotEvent _ _ _) = ''step.snapshot''"
| "event_type (CapabilityReceiptEvent _ _ _) = ''capability.receipt''"
| "event_type (ToolReceiptEvent _) = ''tool.receipt''"

fun event_data :: "runtime_event \<Rightarrow> (jsstr \<times> jsval) list" where
  "event_data (ThreadStarted p) = opt_str ''projectPath'' p"
| "event_data (ThreadResumed n) = prop_int ''fromSeq'' n"
| "event_data (ThreadForked t n) = prop_str ''sourceThreadId'' t @ prop_int ''sourceSeq'' n"
| "event_data (TurnStarted input mode q) =
     prop_str ''input'' input @ prop_str ''mode'' (mode_name mode) @ opt_str ''queueId'' q"
| "event_data (TurnQueued d) =
     prop_str ''queueId'' (qd_queueId d) @ prop_str ''input'' (qd_input d)
     @ prop_str ''mode'' (mode_name (qd_mode d)) @ prop_str ''kind'' (kind_name (qd_kind d))
     @ prop_str ''source'' (source_name (qd_source d))
     @ prop_int ''enqueuedAt'' (qd_enqueuedAt d) @ prop_int ''deadline'' (qd_deadline d)"
| "event_data (TurnQueueExpired q) = prop_str ''queueId'' q"
| "event_data (TurnSteered i input) = prop_str ''itemId'' i @ prop_str ''input'' input"
| "event_data (TurnInterruptRequested i r) = prop_str ''intentId'' i @ opt_str ''reason'' r"
| "event_data (TurnCommitted d) =
     prop_str ''commitId'' (cd_commitId d)
     @ prop_str ''terminal'' (turn_terminal_name (cd_terminal d))
     @ prop_str ''digest'' (cd_digest d) @ prop_str ''receipt'' (cd_receipt d)
     @ opt_str ''outcome'' (cd_outcome d) @ opt_str ''error'' (cd_error d)
     @ opt_str ''reason'' (cd_reason d)"
| "event_data (PlanReviewRequested d) =
     prop_str ''reviewId'' (rq_reviewId d) @ prop_str ''revision'' (rq_revision d)
     @ prop_str ''planDigest'' (rq_planDigest d)
     @ prop_str ''planReceiptDigest'' (rq_planReceiptDigest d)
     @ prop_int ''createdAt'' (rq_createdAt d) @ prop_str ''createdModel'' (rq_createdModel d)
     @ prop_str ''returnMode'' (return_mode_name (rq_returnMode d))"
| "event_data (PlanReviewResolved d) =
     prop_str ''reviewId'' (rs_reviewId d)
     @ prop_str ''previousRevision'' (rs_previousRevision d)
     @ prop_str ''revision'' (rs_revision d) @ prop_str ''planDigest'' (rs_planDigest d)
     @ prop_str ''action'' (action_name (rs_action d)) @ prop_int ''resolvedAt'' (rs_resolvedAt d)
     @ opt_str ''feedback'' (rs_feedback d) @ opt_str ''feedbackDigest'' (rs_feedbackDigest d)"
| "event_data (TurnCompleted r) = opt_str ''outcome'' r"
| "event_data (TurnFailed e) = prop_str ''error'' e"
| "event_data (TurnInterrupted r) = opt_str ''reason'' r"
| "event_data (ItemStarted d) =
     prop_str ''kind'' (item_kind_name (is_kind d)) @ opt_str ''parentItemId'' (is_parentItemId d)
     @ opt_str ''role'' (map_option role_name (is_role d)) @ opt_str ''name'' (is_name d)
     @ opt_str ''inputDigest'' (is_inputDigest d) @ opt_str ''intent'' (is_intent d)"
| "event_data (ItemDelta d c) =
     prop_str ''delta'' d @ opt_str ''channel'' (map_option channel_name c)"
| "event_data (ItemCompleted c s d r) =
     opt_str ''content'' c @ opt_str ''summary'' s @ opt_str ''outputDigest'' d
     @ opt_str ''receipt'' r"
| "event_data (ItemFailed e r) = prop_str ''error'' e @ opt_str ''receipt'' r"
| "event_data (ItemInterrupted e r) = opt_str ''reason'' e @ opt_str ''receipt'' r"
| "event_data (ItemIndeterminate e r) = prop_str ''reason'' e @ opt_str ''receipt'' r"
| "event_data (CompactStarted n t s p) =
     prop_int ''sourceSeq'' n @ prop_str ''transactionId'' t @ prop_str ''sourceReceiptDigest'' s
     @ prop_str ''startedProjectionDigest'' p"
| "event_data (CompactCompleted c n t d h) =
     prop_str ''checkpointId'' c @ prop_int ''sourceSeq'' n @ prop_str ''transactionId'' t
     @ prop_str ''commitReceiptDigest'' d @ prop_str ''nextModelVisibleHistoryDigest'' h"
| "event_data (CompactFailed e t n c d) =
     prop_str ''error'' e @ prop_str ''transactionId'' t @ prop_int ''sourceSeq'' n
     @ prop_str ''failureCode'' c @ prop_str ''failureReceiptDigest'' d"
| "event_data (ApprovalRequested r t) = prop_str ''requestId'' r @ prop_str ''toolName'' t"
| "event_data (StepSnapshotEvent i d r) =
     prop_str ''snapshotId'' i @ prop_str ''digest'' d @ prop_str ''receipt'' r"
| "event_data (CapabilityReceiptEvent i d r) =
     prop_str ''receiptId'' i @ prop_str ''digest'' d @ prop_str ''receipt'' r"
| "event_data (ToolReceiptEvent d) =
     prop_str ''invocationId'' (tr_invocationId d)
     @ prop_str ''terminal'' (tool_terminal_name (tr_terminal d))
     @ prop_bool ''success'' (tr_success d) @ prop_str ''outputDigest'' (tr_outputDigest d)
     @ prop_str ''receiptDigest'' (tr_receiptDigest d)
     @ prop_str ''intentDigest'' (tr_intentDigest d)"

definition event_value :: "runtime_event \<Rightarrow> jsval" where
  "event_value p = JObj [(js ''type'', JStr (js (event_type p))), (js ''data'', JObj (event_data p))]"

definition envelope_value :: "envelope \<Rightarrow> jsval" where
  "envelope_value ev = JObj
     (prop_int ''protocolVersion'' 1 @ prop_str ''eventId'' (en_eventId ev)
      @ prop_int ''seq'' (en_seq ev) @ prop_str ''threadId'' (en_threadId ev)
      @ opt_str ''turnId'' (en_turnId ev) @ opt_str ''stepId'' (en_stepId ev)
      @ opt_str ''itemId'' (en_itemId ev)
      @ prop_str ''durability'' (durability_name (en_durability ev))
      @ prop_int ''timestamp'' (en_timestamp ev)
      @ [(js ''payload'', event_value (en_payload ev))])"


subsection \<open>Which typed values are valid\<close>

definition opt_nonempty :: "jsstr option \<Rightarrow> bool" where
  "opt_nonempty v \<longleftrightarrow> v \<noteq> Some []"

fun event_ok :: "runtime_event \<Rightarrow> bool" where
  "event_ok (ThreadStarted p) = True"
| "event_ok (ThreadResumed n) = non_negative_safe n"
| "event_ok (ThreadForked t n) = (t \<noteq> [] \<and> non_negative_safe n)"
| "event_ok (TurnStarted input mode q) = (input \<noteq> [] \<and> opt_nonempty q)"
| "event_ok (TurnQueued d) = (qd_queueId d \<noteq> [] \<and> qd_input d \<noteq> []
     \<and> non_negative_safe (qd_enqueuedAt d) \<and> non_negative_safe (qd_deadline d))"
| "event_ok (TurnQueueExpired q) = (q \<noteq> [])"
| "event_ok (TurnSteered i input) = (i \<noteq> [] \<and> input \<noteq> [])"
| "event_ok (TurnInterruptRequested i r) = (i \<noteq> [])"
| "event_ok (TurnCommitted d) =
     (cd_commitId d \<noteq> [] \<and> cd_digest d \<noteq> [] \<and> cd_receipt d \<noteq> [])"
| "event_ok (PlanReviewRequested d) = (rq_reviewId d \<noteq> [] \<and> rq_revision d \<noteq> []
     \<and> rq_planDigest d \<noteq> [] \<and> rq_planReceiptDigest d \<noteq> []
     \<and> non_negative_safe (rq_createdAt d) \<and> rq_createdModel d \<noteq> [])"
| "event_ok (PlanReviewResolved d) = (rs_reviewId d \<noteq> [] \<and> rs_previousRevision d \<noteq> []
     \<and> rs_revision d \<noteq> [] \<and> rs_planDigest d \<noteq> [] \<and> non_negative_safe (rs_resolvedAt d)
     \<and> opt_nonempty (rs_feedbackDigest d))"
| "event_ok (TurnCompleted r) = True"
| "event_ok (TurnFailed e) = (e \<noteq> [])"
| "event_ok (TurnInterrupted r) = True"
| "event_ok (ItemStarted d) = (opt_nonempty (is_parentItemId d) \<and> opt_nonempty (is_name d)
     \<and> opt_nonempty (is_inputDigest d))"
| "event_ok (ItemDelta d c) = True"
| "event_ok (ItemCompleted c s d r) = opt_nonempty d"
| "event_ok (ItemFailed e r) = (e \<noteq> [])"
| "event_ok (ItemInterrupted e r) = True"
| "event_ok (ItemIndeterminate e r) = (e \<noteq> [])"
| "event_ok (CompactStarted n t s p) = (non_negative_safe n \<and> t \<noteq> [] \<and> s \<noteq> [] \<and> p \<noteq> [])"
| "event_ok (CompactCompleted c n t d h) =
     (c \<noteq> [] \<and> non_negative_safe n \<and> t \<noteq> [] \<and> d \<noteq> [] \<and> h \<noteq> [])"
| "event_ok (CompactFailed e t n c d) =
     (e \<noteq> [] \<and> t \<noteq> [] \<and> non_negative_safe n \<and> c \<noteq> [] \<and> d \<noteq> [])"
| "event_ok (ApprovalRequested r t) = (r \<noteq> [] \<and> t \<noteq> [])"
| "event_ok (StepSnapshotEvent i d r) = (i \<noteq> [] \<and> d \<noteq> [] \<and> r \<noteq> [])"
| "event_ok (CapabilityReceiptEvent i d r) = (i \<noteq> [] \<and> d \<noteq> [] \<and> r \<noteq> [])"
| "event_ok (ToolReceiptEvent d) = (tr_invocationId d \<noteq> [] \<and> tr_outputDigest d \<noteq> []
     \<and> tr_receiptDigest d \<noteq> [] \<and> tr_intentDigest d \<noteq> [])"

lemma validate_string_schema [simp]:
  "validateSchema (JStr s) string_schema path = []"
  "validateSchema (JStr s) nonEmptyString path = [] \<longleftrightarrow> s \<noteq> []"
  "validateSchema (JStr s) (SStr (Some es) None) path = [] \<longleftrightarrow> s \<in> set es"
  "validateSchema (jint n) nonNegativeInteger path = [] \<longleftrightarrow> non_negative_safe n"
  "validateSchema (JBool b) SBool path = []"
  by (simp_all add: string_schema_def nonEmptyString_def nonNegativeInteger_def is_number_def
      jint_def number_below_def non_negative_safe_def not_less Suc_le_eq
      flip: val_is_safe_integer_jint)

lemmas event_schemas = ev_thread_started_def ev_thread_resumed_def ev_thread_forked_def
  ev_turn_started_def ev_turn_queued_def ev_turn_queue_expired_def ev_turn_steered_def
  ev_turn_interrupt_requested_def ev_turn_committed_def ev_plan_review_requested_def
  ev_plan_review_resolved_def ev_turn_completed_def ev_turn_failed_def ev_turn_interrupted_def
  ev_item_started_def ev_item_delta_def ev_item_completed_def ev_item_failed_def
  ev_item_interrupted_def ev_item_indeterminate_def ev_compact_started_def
  ev_compact_completed_def ev_compact_failed_def ev_approval_requested_def ev_step_snapshot_def
  ev_capability_receipt_def ev_tool_receipt_def

lemma enum_names:
  "mode_name m \<in> set [js ''build'', js ''plan'', js ''auto'', js ''goal'', js ''maintenance'']"
  "kind_name k \<in> set [js ''regular'', js ''goal'', js ''maintenance'']"
  "source_name q \<in> set [js ''start'', js ''follow_up'']"
  "turn_terminal_name t \<in> set [js ''completed'', js ''failed'', js ''interrupted'']"
  "tool_terminal_name u \<in> set [js ''completed'', js ''failed'', js ''interrupted'',
     js ''indeterminate'']"
  "return_mode_name r \<in> set [js ''build'', js ''auto'']"
  "action_name a \<in> set [js ''approve'', js ''continue'', js ''cancel'']"
  "item_kind_name i \<in> set [js ''message'', js ''reasoning'', js ''command'', js ''file_change'',
     js ''mcp'', js ''plan'', js ''compact'']"
  "role_name l \<in> set [js ''user'', js ''assistant'', js ''system'', js ''tool'']"
  "channel_name c \<in> set [js ''content'', js ''reasoning'', js ''output'']"
  by (cases m, simp_all) (cases k, simp_all, cases q, simp_all, cases t, simp_all, cases u,
    simp_all, cases r, simp_all, cases a, simp_all, cases i, simp_all, cases l, simp_all,
    cases c, simp_all)

lemmas enum_names_listed [simp] = enum_names [simplified]

text \<open>The schema each event type has in the table.\<close>

fun schema_of :: "runtime_event \<Rightarrow> schema" where
  "schema_of (ThreadStarted _) = ev_thread_started"
| "schema_of (ThreadResumed _) = ev_thread_resumed"
| "schema_of (ThreadForked _ _) = ev_thread_forked"
| "schema_of (TurnStarted _ _ _) = ev_turn_started"
| "schema_of (TurnQueued _) = ev_turn_queued"
| "schema_of (TurnQueueExpired _) = ev_turn_queue_expired"
| "schema_of (TurnSteered _ _) = ev_turn_steered"
| "schema_of (TurnInterruptRequested _ _) = ev_turn_interrupt_requested"
| "schema_of (TurnCommitted _) = ev_turn_committed"
| "schema_of (PlanReviewRequested _) = ev_plan_review_requested"
| "schema_of (PlanReviewResolved _) = ev_plan_review_resolved"
| "schema_of (TurnCompleted _) = ev_turn_completed"
| "schema_of (TurnFailed _) = ev_turn_failed"
| "schema_of (TurnInterrupted _) = ev_turn_interrupted"
| "schema_of (ItemStarted _) = ev_item_started"
| "schema_of (ItemDelta _ _) = ev_item_delta"
| "schema_of (ItemCompleted _ _ _ _) = ev_item_completed"
| "schema_of (ItemFailed _ _) = ev_item_failed"
| "schema_of (ItemInterrupted _ _) = ev_item_interrupted"
| "schema_of (ItemIndeterminate _ _) = ev_item_indeterminate"
| "schema_of (CompactStarted _ _ _ _) = ev_compact_started"
| "schema_of (CompactCompleted _ _ _ _ _) = ev_compact_completed"
| "schema_of (CompactFailed _ _ _ _ _) = ev_compact_failed"
| "schema_of (ApprovalRequested _ _) = ev_approval_requested"
| "schema_of (StepSnapshotEvent _ _ _) = ev_step_snapshot"
| "schema_of (CapabilityReceiptEvent _ _ _) = ev_capability_receipt"
| "schema_of (ToolReceiptEvent _) = ev_tool_receipt"

definition event_schema :: "runtime_event \<Rightarrow> schema" where
  "event_schema p = the (map_of RUNTIME_EVENT_DEFINITIONS_V1 (js (event_type p)))"

lemma event_keys_distinct: "distinct (map fst RUNTIME_EVENT_DEFINITIONS_V1)"
  by (simp add: RUNTIME_EVENT_DEFINITIONS_V1_def)

lemma event_schema_listed: "(js (event_type p), schema_of p) \<in> set RUNTIME_EVENT_DEFINITIONS_V1"
  by (cases p) (simp_all add: RUNTIME_EVENT_DEFINITIONS_V1_def)

lemma event_schema_lookup: "map_of RUNTIME_EVENT_DEFINITIONS_V1 (js (event_type p)) = Some (schema_of p)"
  using event_keys_distinct event_schema_listed by (rule map_of_is_SomeI)

lemma event_schema_eq: "event_schema p = schema_of p"
  by (simp add: event_schema_def event_schema_lookup)

lemma event_schema_cases:
  "map_of RUNTIME_EVENT_DEFINITIONS_V1 (js (event_type p)) = Some (event_schema p)"
  by (simp add: event_schema_eq event_schema_lookup)

lemmas encode_props = prop_str_def prop_int_def prop_bool_def opt_str_def opt_int_def

text \<open>Validation of an object, property by property.\<close>

definition props_ok :: "(jsstr \<times> schema) list \<Rightarrow> path_step list \<Rightarrow> (jsstr \<times> jsval) list \<Rightarrow> bool" where
  "props_ok ps path kvs \<longleftrightarrow> (\<forall>kv \<in> set kvs. case map_of ps (fst kv) of
     None \<Rightarrow> False | Some s \<Rightarrow> validateSchema (snd kv) s (path @ [Key (fst kv)]) = [])"

lemma validate_object:
  "validateSchema (JObj kvs) (SObj ps req) path = [] \<longleftrightarrow>
     (\<forall>k \<in> set req. in_object k kvs) \<and> props_ok ps path kvs"
  by (auto simp: props_ok_def split: option.splits if_splits)

lemma props_ok_append: "props_ok ps path (a @ b) \<longleftrightarrow> props_ok ps path a \<and> props_ok ps path b"
  by (auto simp: props_ok_def)

definition prop_ok :: "(jsstr \<times> schema) list \<Rightarrow> path_step list \<Rightarrow> string \<Rightarrow> jsval \<Rightarrow> bool" where
  "prop_ok ps path k v = (case map_of ps (js k) of
     None \<Rightarrow> False | Some s \<Rightarrow> validateSchema v s (path @ [Key (js k)]) = [])"

lemma props_ok_single:
  "props_ok ps path (prop_str k s) = prop_ok ps path k (JStr s)"
  "props_ok ps path (prop_int k n) = prop_ok ps path k (jint n)"
  "props_ok ps path (prop_bool k b) = prop_ok ps path k (JBool b)"
  "props_ok ps path (opt_str k v) = (case v of None \<Rightarrow> True | Some s \<Rightarrow> prop_ok ps path k (JStr s))"
  by (simp_all add: props_ok_def prop_ok_def prop_str_def prop_int_def prop_bool_def opt_str_def
      split: option.split)

lemma case_nonempty [simp]:
  "(case v of None \<Rightarrow> True | Some s \<Rightarrow> s \<noteq> []) = opt_nonempty v"
  "(case w of None \<Rightarrow> True | Some x \<Rightarrow> True) = True"
  by (simp_all add: opt_nonempty_def split: option.split)

lemma in_object_encoded:
  "in_object q (a @ b) \<longleftrightarrow> in_object q a \<or> in_object q b"
  "in_object (js k) (prop_str k s)" "in_object (js k) (prop_int k n)"
  "in_object (js k) (prop_bool k b')"
  by (auto simp: in_object_def prop_str_def prop_int_def prop_bool_def map_add_def
      split: option.splits)

lemma prop_ok_enum:
  "s \<in> set es \<Longrightarrow> map_of ps (js k) = Some (SStr (Some es) None) \<Longrightarrow> prop_ok ps path k (JStr s)"
  by (simp add: prop_ok_def)

lemma prop_ok_map_of:
  "map_of ps (js k) = Some sc \<Longrightarrow> prop_ok ps path k v = (validateSchema v sc (path @ [Key (js k)]) = [])"
  by (simp add: prop_ok_def)

lemmas encoded_ok = validate_object props_ok_append props_ok_single in_object_encoded

lemmas encoded_simps = event_schemas encoded_ok prop_ok_def comp_def

lemma validate_event_data:
  "validateSchema (JObj (event_data p)) (event_schema p) path = [] \<longleftrightarrow> event_ok p"
  unfolding event_schema_eq
  by (cases p) (simp_all add: encoded_simps del: validateSchema.simps cong: option.case_cong)

fun needs_turn :: "runtime_event \<Rightarrow> bool" where
  "needs_turn (TurnStarted _ _ _) = True"
| "needs_turn (TurnSteered _ _) = True"
| "needs_turn (TurnInterruptRequested _ _) = True"
| "needs_turn (TurnCommitted _) = True"
| "needs_turn (TurnCompleted _) = True"
| "needs_turn (TurnFailed _) = True"
| "needs_turn (TurnInterrupted _) = True"
| "needs_turn (CompactStarted _ _ _ _) = True"
| "needs_turn (CompactCompleted _ _ _ _ _) = True"
| "needs_turn (CompactFailed _ _ _ _ _) = True"
| "needs_turn _ = False"

fun needs_item :: "runtime_event \<Rightarrow> bool" where
  "needs_item (ItemStarted _) = True"
| "needs_item (ItemDelta _ _) = True"
| "needs_item (ItemCompleted _ _ _ _) = True"
| "needs_item (ItemFailed _ _) = True"
| "needs_item (ItemInterrupted _ _) = True"
| "needs_item (ItemIndeterminate _ _) = True"
| "needs_item _ = False"

fun is_delta :: "runtime_event \<Rightarrow> bool" where
  "is_delta (ItemDelta _ _) = True"
| "is_delta _ = False"

definition opt_id_ok :: "jsstr option \<Rightarrow> bool" where
  "opt_id_ok v = (case v of None \<Rightarrow> True | Some i \<Rightarrow> isRuntimeId i)"

definition envelope_ok :: "envelope \<Rightarrow> bool" where
  "envelope_ok ev \<longleftrightarrow> isRuntimeId (en_eventId ev) \<and> isRuntimeId (en_threadId ev)
     \<and> opt_id_ok (en_turnId ev) \<and> opt_id_ok (en_stepId ev) \<and> opt_id_ok (en_itemId ev)
     \<and> non_negative_safe (en_seq ev) \<and> non_negative_safe (en_timestamp ev)
     \<and> event_ok (en_payload ev)
     \<and> (en_durability ev = Ephemeral \<longleftrightarrow> is_delta (en_payload ev))
     \<and> (en_durability ev = Durable \<longrightarrow> en_seq ev \<noteq> 0)
     \<and> (needs_turn (en_payload ev) \<or> needs_item (en_payload ev) \<longrightarrow> en_turnId ev \<noteq> None)
     \<and> (needs_item (en_payload ev) \<longrightarrow> en_stepId ev \<noteq> None \<and> en_itemId ev \<noteq> None)"

lemma envelope_props [simp]:
  "is_record (envelope_value ev)"
  "get_prop (envelope_value ev) (js ''protocolVersion'') = jint 1"
  "get_prop (envelope_value ev) (js ''eventId'') = JStr (en_eventId ev)"
  "get_prop (envelope_value ev) (js ''seq'') = jint (en_seq ev)"
  "get_prop (envelope_value ev) (js ''threadId'') = JStr (en_threadId ev)"
  "get_prop (envelope_value ev) (js ''turnId'') = (case en_turnId ev of None \<Rightarrow> JUndefined | Some s \<Rightarrow> JStr s)"
  "get_prop (envelope_value ev) (js ''stepId'') = (case en_stepId ev of None \<Rightarrow> JUndefined | Some s \<Rightarrow> JStr s)"
  "get_prop (envelope_value ev) (js ''itemId'') = (case en_itemId ev of None \<Rightarrow> JUndefined | Some s \<Rightarrow> JStr s)"
  "get_prop (envelope_value ev) (js ''durability'') = JStr (durability_name (en_durability ev))"
  "get_prop (envelope_value ev) (js ''timestamp'') = jint (en_timestamp ev)"
  "get_prop (envelope_value ev) (js ''payload'') = event_value (en_payload ev)"
  by (simp_all add: envelope_value_def encode_props split: option.split)

lemma problem_when_Nil [simp]: "problem_when b p = [] \<longleftrightarrow> \<not> b"
  by (simp add: problem_when_def)

lemma is_runtime_id_opt [simp]:
  "is_runtime_id (case v of None \<Rightarrow> JUndefined | Some s \<Rightarrow> JStr s) \<longleftrightarrow> v \<noteq> None \<and> opt_id_ok v"
  "(case v of None \<Rightarrow> JUndefined | Some s \<Rightarrow> JStr s) \<noteq> JUndefined \<longleftrightarrow> v \<noteq> None"
  by (simp_all add: opt_id_ok_def split: option.split)

lemma durability_name_simps [simp]:
  "durability_name d = js ''durable'' \<longleftrightarrow> d = Durable"
  "durability_name d = js ''ephemeral'' \<longleftrightarrow> d = Ephemeral"
  by (cases d; simp)+

lemma none_or_some [simp]: "v = None \<or> (\<exists>y. v = Some y)"
  by (cases v) simp_all

lemma safe_non_negative_jint [simp]: "safe_non_negative (jint n) = non_negative_safe n"
  by (simp add: safe_non_negative_def non_negative_safe_def)

lemma jint_eq [simp]: "jint m = jint n \<longleftrightarrow> m = n"
  by (simp add: jint_def)

lemma validateEventIdentity_iff:
  assumes "non_negative_safe (en_seq ev)" "opt_id_ok (en_turnId ev)" "opt_id_ok (en_stepId ev)"
    "opt_id_ok (en_itemId ev)"
  shows "validateEventIdentity (envelope_value ev) (js (event_type (en_payload ev))) = [] \<longleftrightarrow>
      (en_durability ev = Ephemeral \<longleftrightarrow> is_delta (en_payload ev))
     \<and> (en_durability ev = Durable \<longrightarrow> en_seq ev \<noteq> 0)
     \<and> (needs_turn (en_payload ev) \<or> needs_item (en_payload ev) \<longrightarrow> en_turnId ev \<noteq> None)
     \<and> (needs_item (en_payload ev) \<longrightarrow> en_stepId ev \<noteq> None \<and> en_itemId ev \<noteq> None)"
proof -
  have safe: "is_safe_integer (en_seq ev)" using assms(1) by (simp add: non_negative_safe_def)
  have dur: "en_durability ev = Ephemeral \<longleftrightarrow> en_durability ev \<noteq> Durable"
    by (cases "en_durability ev") simp_all
  show ?thesis
    using assms(2-4) safe dur
    by (cases "en_payload ev") (auto simp: validateEventIdentity_def Let_def)
qed

lemma validate_against_event:
  "validate_against RUNTIME_EVENT_DEFINITIONS_V1 (js (event_type p)) (JObj (event_data p)) path = []
     \<longleftrightarrow> event_ok p"
  by (simp only: validate_against_def event_schema_cases option.case validate_event_data)

lemma event_value_props [simp]:
  "is_record (event_value p)" "get_prop (event_value p) (js ''type'') = JStr (js (event_type p))"
  "get_prop (event_value p) (js ''data'') = JObj (event_data p)"
  by (simp_all add: event_value_def)

lemma known_event: "in_object (js (event_type p)) RUNTIME_EVENT_DEFINITIONS_V1"
  using event_schema_cases [of p] by (simp add: in_object_def)

lemma envelope_valid_accept:
  "assertRuntimeEventEnvelopeV1 (envelope_value ev) = [] \<longleftrightarrow> envelope_ok ev"
proof -
  have dur: "en_durability ev = Durable \<or> en_durability ev = Ephemeral"
    by (cases "en_durability ev") simp_all
  show ?thesis
  proof (cases "non_negative_safe (en_seq ev) \<and> opt_id_ok (en_turnId ev)
      \<and> opt_id_ok (en_stepId ev) \<and> opt_id_ok (en_itemId ev)")
    case True
    then show ?thesis
      using dur known_event [of "en_payload ev"] validateEventIdentity_iff [of ev]
      by (simp add: assertRuntimeEventEnvelopeV1_def Let_def validate_against_event
          envelope_ok_def)
  next
    case False
    then show ?thesis
      by (auto simp: assertRuntimeEventEnvelopeV1_def envelope_ok_def opt_id_ok_def
          split: option.splits)
  qed
qed


end
