(* ===== verification/ThreadStore.thy ===== *)
theory ThreadStore
  imports ThreadInvariants ProtocolEncoding
begin

section \<open>Appending to a Thread's durable log\<close>

text \<open>
  Models the core of \<open>ThreadEventStore\<close> in \<open>src/src/runtime/thread-event-store.ts\<close>: how
  \<open>appendDurableBatch\<close> turns inputs into envelopes, validates them and advances the
  projection before anything becomes durable, and \<open>recoverIncomplete\<close>. The state is the log
  with its verified head. The files behind them (locking, hash chain, fsync, caches and the
  session index) are not modelled; a batch that fails a check throws before any write. The
  results of \<open>idFactory\<close> and \<open>clock\<close> of one call are functions of the sequence number the
  event gets.
\<close>

subsection \<open>Data\<close>

record append_input =
  ai_turnId :: "jsstr option"
  ai_stepId :: "jsstr option"
  ai_itemId :: "jsstr option"
  ai_timestamp :: "int option"
  ai_payload :: runtime_event

record thread_store =
  ts_threadId :: jsstr
  ts_events :: "envelope list"
  ts_head :: frozen_projection

datatype append_error =
    EventIdentity jsstr
  | EnvelopeInvalid "problem list"
  | AdvanceRejected advance_error

subsection \<open>appendDurableBatch\<close>

definition input_event ::
  "jsstr \<Rightarrow> (int \<Rightarrow> jsstr) \<Rightarrow> (int \<Rightarrow> int) \<Rightarrow> int \<Rightarrow> append_input \<Rightarrow> envelope" where
  "input_event tid ids clk sq x =
     \<lparr>en_eventId = ids sq, en_seq = sq, en_threadId = tid, en_turnId = ai_turnId x,
      en_stepId = ai_stepId x, en_itemId = ai_itemId x, en_durability = Durable,
      en_timestamp = (case ai_timestamp x of None \<Rightarrow> clk sq | Some n \<Rightarrow> n),
      en_payload = ai_payload x\<rparr>"

text \<open>The loop over the inputs; \<open>known\<close> is the set of event ids seen so far.\<close>

fun seal_inputs ::
  "jsstr \<Rightarrow> (int \<Rightarrow> jsstr) \<Rightarrow> (int \<Rightarrow> int) \<Rightarrow> int \<Rightarrow> jsstr list \<Rightarrow> append_input list
     \<Rightarrow> append_error + envelope list" where
  "seal_inputs tid ids clk sq known [] = Inr []"
| "seal_inputs tid ids clk sq known (x # xs) =
     (let eventId = ids (sq + 1); event = input_event tid ids clk (sq + 1) x in
      if \<not> isRuntimeId eventId \<or> eventId \<in> set known then Inl (EventIdentity eventId)
      else case assertRuntimeEventEnvelopeV1 (envelope_value event) of
        [] \<Rightarrow> (case seal_inputs tid ids clk (sq + 1) (eventId # known) xs of
                 Inl e \<Rightarrow> Inl e
               | Inr events \<Rightarrow> Inr (event # events))
      | problems \<Rightarrow> Inl (EnvelopeInvalid problems))"

definition appendDurableBatch ::
  "js_env \<Rightarrow> (projection \<Rightarrow> jsstr) \<Rightarrow> (int \<Rightarrow> jsstr) \<Rightarrow> (int \<Rightarrow> int) \<Rightarrow> thread_store
     \<Rightarrow> append_input list \<Rightarrow> (append_error + envelope list) \<times> thread_store" where
  "appendDurableBatch E D ids clk s inputs =
     (if inputs = [] then (Inr [], s)
      else case seal_inputs (ts_threadId s) ids clk (cursor (fst (ts_head s)))
                  (map en_eventId (ts_events s)) inputs of
        Inl e \<Rightarrow> (Inl e, s)
      | Inr events \<Rightarrow>
          (case advanceThreadProjection E D (ts_head s) events of
             Inl e \<Rightarrow> (Inl (AdvanceRejected e), s)
           | Inr head \<Rightarrow>
               (Inr events, s\<lparr>ts_events := ts_events s @ events, ts_head := head\<rparr>)))"

subsection \<open>recoverIncomplete\<close>

definition open_items :: "projection \<Rightarrow> item_projection list" where
  "open_items st = filter (\<lambda>it. ip_status it = IsStarted) (map snd (items st))"

definition indeterminate_input :: "jsstr \<Rightarrow> item_projection \<Rightarrow> append_input" where
  "indeterminate_input reason it =
     \<lparr>ai_turnId = Some (ip_turnId it), ai_stepId = Some (ip_stepId it),
      ai_itemId = Some (ip_itemId it), ai_timestamp = None,
      ai_payload = ItemIndeterminate reason None\<rparr>"

text \<open>The terminal event of an active turn: what its commit says, else interrupted.\<close>

definition recovery_terminal :: "jsstr \<Rightarrow> commit_projection option \<Rightarrow> runtime_event" where
  "recovery_terminal reason commit = (case commit of
     None \<Rightarrow> TurnInterrupted (Some reason)
   | Some c \<Rightarrow>
       (case cp_terminal c of
          TermCompleted \<Rightarrow> TurnCompleted (cp_outcome c)
        | TermFailed \<Rightarrow> TurnFailed (if truthy (cp_error c) then the (cp_error c)
             else js ''Turn failed before terminal publication'')
        | TermInterrupted \<Rightarrow> TurnInterrupted
             (case cp_reason c of None \<Rightarrow> Some reason | Some r \<Rightarrow> Some r)))"

definition recovery_inputs :: "jsstr \<Rightarrow> projection \<Rightarrow> append_input list" where
  "recovery_inputs reason st =
     map (indeterminate_input reason) (open_items st)
     @ (if truthy (activeTurnId st)
        then [\<lparr>ai_turnId = activeTurnId st, ai_stepId = None, ai_itemId = None,
               ai_timestamp = None, ai_payload = recovery_terminal reason
                 (Option.bind (turn_of st (the (activeTurnId st))) tp_commit)\<rparr>]
        else [])"

definition recoverIncomplete ::
  "js_env \<Rightarrow> (projection \<Rightarrow> jsstr) \<Rightarrow> (int \<Rightarrow> jsstr) \<Rightarrow> (int \<Rightarrow> int) \<Rightarrow> jsstr \<Rightarrow> thread_store
     \<Rightarrow> (append_error + projection) \<times> thread_store" where
  "recoverIncomplete E D ids clk reason s =
     (case recovery_inputs reason (fst (ts_head s)) of
        [] \<Rightarrow> (Inr (fst (ts_head s)), s)
      | inputs \<Rightarrow>
          (case appendDurableBatch E D ids clk s inputs of
             (Inl e, s') \<Rightarrow> (Inl e, s')
           | (Inr _, s') \<Rightarrow> (Inr (fst (ts_head s')), s')))"

subsection \<open>createEphemeral and replay\<close>

definition createEphemeral ::
  "jsstr \<Rightarrow> int \<Rightarrow> thread_store \<Rightarrow> append_input \<Rightarrow> append_error + envelope" where
  "createEphemeral eventId now s x =
     (let event =
        \<lparr>en_eventId = eventId, en_seq = cursor (fst (ts_head s)), en_threadId = ts_threadId s,
         en_turnId = ai_turnId x, en_stepId = ai_stepId x, en_itemId = ai_itemId x,
         en_durability = Ephemeral,
         en_timestamp = (case ai_timestamp x of None \<Rightarrow> now | Some n \<Rightarrow> n),
         en_payload = ai_payload x\<rparr> in
      case assertRuntimeEventEnvelopeV1 (envelope_value event) of
        [] \<Rightarrow> Inr event
      | problems \<Rightarrow> Inl (EnvelopeInvalid problems))"

datatype replay_error = CursorInvalid | LimitInvalid | LimitExceeded int | CursorAhead int

record replay_page =
  rp_events :: "envelope list"
  rp_fromCursor :: int
  rp_nextCursor :: int
  rp_hasMore :: bool

definition replay_log :: "int \<Rightarrow> int \<Rightarrow> int \<Rightarrow> thread_store \<Rightarrow> replay_error + replay_page" where
  "replay_log maxReplayEvents cur limit s =
     (if \<not> is_safe_integer cur \<or> cur < 0 then Inl CursorInvalid
      else if \<not> is_safe_integer limit \<or> limit \<le> 0 then Inl LimitInvalid
      else if limit > maxReplayEvents then Inl (LimitExceeded limit)
      else if cur > int (length (ts_events s)) then Inl (CursorAhead cur)
      else let events = take (nat limit) (drop (nat cur) (ts_events s));
               nextCursor = (if events = [] then cur else en_seq (last events)) in
        Inr \<lparr>rp_events = events, rp_fromCursor = cur, rp_nextCursor = nextCursor,
             rp_hasMore = (nextCursor < int (length (ts_events s)))\<rparr>)"

definition new_store :: "(projection \<Rightarrow> jsstr) \<Rightarrow> jsstr \<Rightarrow> thread_store" where
  "new_store D t = \<lparr>ts_threadId = t, ts_events = [],
     ts_head = freezeProjection D (new_projection t)\<rparr>"

subsection \<open>The log and its head agree\<close>

definition store_ok :: "js_env \<Rightarrow> (projection \<Rightarrow> jsstr) \<Rightarrow> thread_store \<Rightarrow> bool" where
  "store_ok E D s \<longleftrightarrow> projectThreadEvents E D (ts_threadId s) (ts_events s) = Inr (ts_head s)
     \<and> list_all envelope_ok (ts_events s) \<and> distinct (map en_eventId (ts_events s))"

lemma store_ok_new: "store_ok E D (new_store D t)"
  by (simp add: store_ok_def new_store_def projectThreadEvents_def)

lemma seal_inputs_Inr:
  "seal_inputs tid ids clk sq known xs = Inr evs \<Longrightarrow>
     list_all envelope_ok evs \<and> distinct (map en_eventId evs)
     \<and> set (map en_eventId evs) \<inter> set known = {} \<and> map en_payload evs = map ai_payload xs"
proof (induction xs arbitrary: sq known evs)
  case Nil
  then show ?case by simp
next
  case (Cons x xs)
  let ?ev = "input_event tid ids clk (sq + 1) x"
  from Cons.prems obtain evs' where
    new: "ids (sq + 1) \<notin> set known" and ok: "assertRuntimeEventEnvelopeV1 (envelope_value ?ev) = []"
    and rest: "seal_inputs tid ids clk (sq + 1) (ids (sq + 1) # known) xs = Inr evs'"
    and evs: "evs = ?ev # evs'"
    by (auto simp: Let_def split: if_splits list.splits sum.splits)
  from Cons.IH [OF rest] ok new evs show ?case
    by (auto simp: envelope_valid_accept input_event_def)
qed

lemma appendDurableBatch_ok:
  assumes "store_ok E D s"
  shows "store_ok E D (snd (appendDurableBatch E D ids clk s inputs))"
proof (cases "appendDurableBatch E D ids clk s inputs")
  case (Pair r s')
  show ?thesis
  proof (cases "s' = s")
    case True
    with assms Pair show ?thesis by simp
  next
    case False
    with Pair obtain evs head where
      seal: "seal_inputs (ts_threadId s) ids clk (cursor (fst (ts_head s)))
        (map en_eventId (ts_events s)) inputs = Inr evs"
      and adv: "advanceThreadProjection E D (ts_head s) evs = Inr head"
      and s': "s' = s\<lparr>ts_events := ts_events s @ evs, ts_head := head\<rparr>"
      by (auto simp: appendDurableBatch_def split: if_splits sum.splits)
    have "projectThreadEvents E D (ts_threadId s) (ts_events s @ evs) = Inr head"
      using adv advance_project [of E D "ts_threadId s" "ts_events s" "ts_head s" evs] assms
      by (cases "projectThreadEvents E D (ts_threadId s) (ts_events s @ evs)")
        (auto simp: store_ok_def)
    with assms seal_inputs_Inr [OF seal] Pair s' show ?thesis
      by (auto simp: store_ok_def)
  qed
qed


text \<open>Following \<open>nextCursor\<close> while there is more, for at most \<open>fuel\<close> pages.\<close>

fun read_pages ::
  "nat \<Rightarrow> int \<Rightarrow> int \<Rightarrow> int \<Rightarrow> thread_store \<Rightarrow> (replay_error + envelope list) option" where
  "read_pages 0 mx cur limit s = None"
| "read_pages (Suc fuel) mx cur limit s =
     (case replay_log mx cur limit s of
        Inl e \<Rightarrow> Some (Inl e)
      | Inr page \<Rightarrow>
          if rp_hasMore page
          then map_option (map_sum id (\<lambda>rest. rp_events page @ rest))
                 (read_pages fuel mx (rp_nextCursor page) limit s)
          else Some (Inr (rp_events page)))"

lemma store_seqs:
  assumes "store_ok E D s"
  shows "map en_seq (ts_events s) = [1 .. int (length (ts_events s))]"
    and "cursor (fst (ts_head s)) = int (length (ts_events s))"
proof -
  obtain st d where head: "ts_head s = (st, d)" by (cases "ts_head s")
  have run: "replay (applyThreadEvent E) (new_projection (ts_threadId s)) (ts_events s) = Inr st"
    using assms head by (simp add: store_ok_def projectThreadEvents_Inr)
  from thread_log.replay_seqs [OF run] thread_log.replay_cursor [OF run] head
  show "map en_seq (ts_events s) = [1 .. int (length (ts_events s))]"
    and "cursor (fst (ts_head s)) = int (length (ts_events s))"
    by (simp_all add: new_projection_def)
qed

lemma store_seq_nth:
  assumes "store_ok E D s" "k < length (ts_events s)"
  shows "en_seq (ts_events s ! k) = int k + 1"
proof -
  have "en_seq (ts_events s ! k) = map en_seq (ts_events s) ! k"
    using assms(2) by simp
  also have "\<dots> = int k + 1"
    unfolding store_seqs(1) [OF assms(1)] using assms(2) by (simp add: nth_upto)
  finally show ?thesis .
qed

lemma replay_log_page:
  assumes "store_ok E D s" "0 < limit" "limit \<le> mx" "is_safe_integer limit"
    and "k \<le> length (ts_events s)" "is_safe_integer (int k)"
  shows "replay_log mx (int k) limit s = Inr
     \<lparr>rp_events = take (nat limit) (drop k (ts_events s)), rp_fromCursor = int k,
      rp_nextCursor = int (min (length (ts_events s)) (k + nat limit)),
      rp_hasMore = (k + nat limit < length (ts_events s))\<rparr>"
proof -
  let ?page = "take (nat limit) (drop k (ts_events s))"
  let ?n = "length (ts_events s)"
  have "(if ?page = [] then int k else en_seq (last ?page)) = int (min ?n (k + nat limit))"
  proof (cases "k = ?n")
    case True
    then show ?thesis by simp
  next
    case False
    with assms(5) have k: "k < ?n" by simp
    then have ne: "?page \<noteq> []" using assms(2) by simp
    let ?m = "min ?n (k + nat limit) - 1"
    have m: "?m < ?n" "k \<le> ?m" using k assms(2) by auto
    have "last ?page = ?page ! (length ?page - 1)" by (rule last_conv_nth [OF ne])
    also have "\<dots> = ts_events s ! ?m"
      using k assms(2) by (simp add: min_def)
    finally have "en_seq (last ?page) = int ?m + 1"
      using store_seq_nth [OF assms(1) m(1)] by simp
    moreover have "int ?m + 1 = int (min ?n (k + nat limit))" using k assms(2) by auto
    ultimately show ?thesis using ne by simp
  qed
  moreover have "min ?n (k + nat limit) < ?n \<longleftrightarrow> k + nat limit < ?n" by auto
  ultimately show ?thesis
    using assms by (simp add: replay_log_def Let_def)
qed


lemma safe_below: "0 \<le> m \<Longrightarrow> m \<le> n \<Longrightarrow> is_safe_integer n \<Longrightarrow> is_safe_integer m"
  by (auto simp: is_safe_integer_def)

lemma read_pages_drop:
  assumes "store_ok E D s" "0 < limit" "limit \<le> mx" "is_safe_integer limit"
    and "is_safe_integer (int (length (ts_events s)))"
  shows "k \<le> length (ts_events s) \<Longrightarrow> length (ts_events s) - k < fuel \<Longrightarrow>
    read_pages fuel mx (int k) limit s = Some (Inr (drop k (ts_events s)))"
proof (induction fuel arbitrary: k)
  case 0
  then show ?case by simp
next
  case (Suc fuel)
  let ?n = "length (ts_events s)"
  have safe: "is_safe_integer (int k)"
    using Suc.prems(1) by (intro safe_below [OF _ _ assms(5)]) simp_all
  note page = replay_log_page [OF assms(1-4) Suc.prems(1) safe]
  show ?case
  proof (cases "k + nat limit < ?n")
    case True
    have next': "read_pages fuel mx (int (k + nat limit)) limit s
        = Some (Inr (drop (k + nat limit) (ts_events s)))"
      using True Suc.prems(2) assms(2) by (intro Suc.IH) linarith+
    have "take (nat limit) (drop k (ts_events s)) @ drop (k + nat limit) (ts_events s)
        = drop k (ts_events s)"
      by (metis add.commute append_take_drop_id drop_drop)
    with True page next' show ?thesis by (simp add: min_def)
  next
    case False
    with page show ?thesis by simp
  qed
qed

text \<open>Following \<open>nextCursor\<close> from any cursor while there is more returns exactly
  the events after the cursor, in order, each once, whatever the page limit, in at most one
  page per remaining event and one more.\<close>

lemma replay_pages_complete:
  assumes "store_ok E D s" "0 < limit" "limit \<le> mx" "is_safe_integer limit"
    and "is_safe_integer (int (length (ts_events s)))" "k \<le> length (ts_events s)"
  shows "read_pages (Suc (length (ts_events s))) mx (int k) limit s
    = Some (Inr (drop k (ts_events s)))"
  using assms by (intro read_pages_drop) simp_all

end
