(* ===== verification/StoreRecovery.thy ===== *)
theory StoreRecovery
  imports ThreadStore ThreadProperties
begin

section \<open>Crash recovery always succeeds\<close>

text \<open>
  After a crash the log may end in the middle of a turn. The lemmas show that the batch
  \<open>recoverIncomplete\<close> builds is accepted from every state a log can be in, closes every open
  item as indeterminate and ends the active turn the way its commit announced.
\<close>

subsection \<open>Identities in a projection are UUIDs\<close>

definition ids_ok :: "projection \<Rightarrow> bool" where
  "ids_ok st \<longleftrightarrow> (\<forall>i it. item_of st i = Some it \<longrightarrow>
       isRuntimeId (ip_itemId it) \<and> isRuntimeId (ip_turnId it) \<and> isRuntimeId (ip_stepId it))
     \<and> (\<forall>t tn. turn_of st t = Some tn \<longrightarrow> isRuntimeId t)"

lemma ids_ok_new: "ids_ok (new_projection t)"
  by (simp add: ids_ok_def new_projection_def item_of_def turn_of_def)

lemma ids_ok_frame [simp]:
  "ids_ok (st\<lparr>queue := q\<rparr>) = ids_ok st" "ids_ok (st\<lparr>cursor := c\<rparr>) = ids_ok st"
  "ids_ok (st\<lparr>status := s\<rparr>) = ids_ok st" "ids_ok (st\<lparr>activeTurnId := a\<rparr>) = ids_ok st"
  "ids_ok (st\<lparr>planReview := p\<rparr>) = ids_ok st" "ids_ok (st\<lparr>compactEvents := es\<rparr>) = ids_ok st"
  "ids_ok (st\<lparr>latestCapability := e\<rparr>) = ids_ok st"
  "ids_ok (st\<lparr>latestStepSnapshot := e\<rparr>) = ids_ok st"
  "ids_ok (st\<lparr>stepSnapshotDigests := ds\<rparr>) = ids_ok st"
  "ids_ok (st\<lparr>capabilityReceiptDigests := ds\<rparr>) = ids_ok st"
  "ids_ok (st\<lparr>toolInvocationIds := ds\<rparr>) = ids_ok st"
  by (simp_all add: ids_ok_def)

lemma ids_ok_put:
  "ids_ok st \<Longrightarrow> isRuntimeId t \<Longrightarrow> ids_ok (put_turn st t tn)"
  "ids_ok st \<Longrightarrow> isRuntimeId (ip_itemId it) \<Longrightarrow> isRuntimeId (ip_turnId it) \<Longrightarrow>
     isRuntimeId (ip_stepId it) \<Longrightarrow> ids_ok (put_item st i it)"
  by (auto simp: ids_ok_def)

lemma ids_ok_put_known:
  "ids_ok st \<Longrightarrow> turn_of st t = Some tn \<Longrightarrow> ids_ok (put_turn st t tn')"
  by (rule ids_ok_put) (auto simp: ids_ok_def)

lemma handler_ids_ok:
  assumes "ids_ok st" "opt_id_ok (en_turnId ev)" "opt_id_ok (en_stepId ev)"
    "opt_id_ok (en_itemId ev)"
  shows "startTurn st ev input mode q = Inr st' \<Longrightarrow> ids_ok st'"
    and "steerTurn st ev i = Inr st' \<Longrightarrow> ids_ok st'"
    and "requestTurnInterrupt st ev i = Inr st' \<Longrightarrow> ids_ok st'"
    and "commitTurn E st ev d = Inr st' \<Longrightarrow> ids_ok st'"
    and "finishTurn st ev term = Inr st' \<Longrightarrow> ids_ok st'"
    and "startItem st ev sd = Inr st' \<Longrightarrow> ids_ok st'"
    and "finishItem st ev ist c r s e = Inr st' \<Longrightarrow> ids_ok st'"
    and "requestPlanReview E st ev rd = Inr st' \<Longrightarrow> ids_ok st'"
    and "resolvePlanReview E st ev sd' = Inr st' \<Longrightarrow> ids_ok st'"
proof -
  show "ids_ok st'" if "startTurn st ev input mode q = Inr st'"
    using that by (cases rule: startTurnE) (use assms in \<open>simp add: opt_id_ok_def ids_ok_put\<close>)
  show "ids_ok st'" if "steerTurn st ev i = Inr st'"
    using that by (cases rule: steerTurnE)
      (use assms in \<open>simp add: active_turn_Some ids_ok_put_known\<close>)
  show "ids_ok st'" if "requestTurnInterrupt st ev i = Inr st'"
    using that by (cases rule: requestTurnInterruptE)
      (use assms in \<open>simp add: active_turn_Some ids_ok_put_known\<close>)
  show "ids_ok st'" if "commitTurn E st ev d = Inr st'"
    using that by (cases rule: commitTurnE)
      (use assms in \<open>simp add: active_turn_Some ids_ok_put_known\<close>)
  show "ids_ok st'" if "finishTurn st ev term = Inr st'"
    using that by (cases rule: finishTurnE)
      (use assms in \<open>simp add: active_turn_Some ids_ok_put_known\<close>)
  show "ids_ok st'" if "startItem st ev sd = Inr st'"
    using that by (cases rule: startItemE)
      (use assms in \<open>simp add: opt_id_ok_def ids_ok_put new_item_def\<close>)
  show "ids_ok st'" if "finishItem st ev ist c r s e = Inr st'"
    using that
  proof (cases rule: finishItemE)
    case (1 i it)
    with assms(1) have "isRuntimeId (ip_itemId it)" "isRuntimeId (ip_turnId it)"
      "isRuntimeId (ip_stepId it)" by (simp_all add: ids_ok_def)
    with 1(7) assms(1) show ?thesis by (simp add: ids_ok_put)
  qed
  show "ids_ok st'" if "requestPlanReview E st ev rd = Inr st'"
    using that by (cases rule: requestPlanReviewE) (use assms in simp)
  show "ids_ok st'" if "resolvePlanReview E st ev sd' = Inr st'"
    using that by (cases rule: resolvePlanReviewE) (use assms in simp)
qed

lemma applyPayload_ids_ok:
  assumes "ids_ok st" "applyPayload E st ev p = Inr st'"
    and "opt_id_ok (en_turnId ev)" "opt_id_ok (en_stepId ev)" "opt_id_ok (en_itemId ev)"
  shows "ids_ok st'"
  using assms(2) assms(1) handler_ids_ok [OF assms(1,3-5)]
  by (cases p)
    (auto simp: startThread_def wakeThread_def keepCompactEvent_def queueTurn_def
      expireQueuedTurn_def recordStepSnapshot_def recordCapability_def recordToolReceipt_def
      split: if_splits option.splits sum.splits)

lemma replay_ids_ok:
  "replay (applyThreadEvent E) st evs = Inr st' \<Longrightarrow> list_all envelope_ok evs \<Longrightarrow> ids_ok st \<Longrightarrow>
     ids_ok st'"
proof (induction evs arbitrary: st)
  case Nil
  then show ?case by simp
next
  case (Cons ev evs)
  from Cons.prems(1) obtain s where s: "applyThreadEvent E st ev = Inr s"
    "replay (applyThreadEvent E) s evs = Inr st'" by (auto split: sum.splits)
  have "ids_ok s"
    using s(1) Cons.prems(2,3) by (auto simp: applyThreadEvent_Inr envelope_ok_def
        dest: applyPayload_ids_ok)
  with Cons.IH [OF s(2)] Cons.prems(2) show ?case by simp
qed

subsection \<open>Closing the open items\<close>

lemma applyThreadEvent_indeterminate:
  assumes inv: "proj_inv st" and it: "item_of st i = Some it" "ip_status it = IsStarted"
    and ev: "en_durability ev = Durable" "en_threadId ev = threadId st" "en_seq ev = cursor st + 1"
      "en_turnId ev = Some (ip_turnId it)" "en_stepId ev = Some (ip_stepId it)"
      "en_itemId ev = Some (ip_itemId it)" "en_payload ev = ItemIndeterminate reason r"
  shows "applyThreadEvent E st ev = Inr ((put_item st i
     (it\<lparr>ip_status := IsIndeterminate, ip_terminalSeq := Some (en_seq ev), ip_content := None,
        ip_receipt := r, ip_summary := None, ip_error := Some reason\<rparr>))\<lparr>cursor := en_seq ev\<rparr>)"
proof -
  have "ip_itemId it = i" "i \<noteq> []"
    using inv it by (auto simp: proj_inv_def keys_ok_def)
  then show ?thesis
    using it ev by (simp add: applyThreadEvent_def finishItem_def)
qed

text \<open>The envelopes of a list of inputs, numbered from \<open>sq + 1\<close>.\<close>

fun number_inputs ::
  "jsstr \<Rightarrow> (int \<Rightarrow> jsstr) \<Rightarrow> (int \<Rightarrow> int) \<Rightarrow> int \<Rightarrow> append_input list \<Rightarrow> envelope list" where
  "number_inputs tid ids clk sq [] = []"
| "number_inputs tid ids clk sq (x # xs) =
     input_event tid ids clk (sq + 1) x # number_inputs tid ids clk (sq + 1) xs"

lemma close_items:
  assumes "proj_inv st" "threadId st = tid" "distinct (map ip_itemId its)"
    and "\<forall>it \<in> set its. item_of st (ip_itemId it) = Some it \<and> ip_status it = IsStarted"
  shows "\<exists>st'. replay (applyThreadEvent E) st
        (number_inputs tid ids clk (cursor st) (map (indeterminate_input reason) its)) = Inr st'
     \<and> cursor st' = cursor st + int (length its) \<and> threadId st' = tid
     \<and> activeTurnId st' = activeTurnId st \<and> turn_of st' = turn_of st
     \<and> (\<forall>it \<in> set its. map_option ip_status (item_of st' (ip_itemId it)) = Some IsIndeterminate)
     \<and> (\<forall>i. i \<notin> ip_itemId ` set its \<longrightarrow> item_of st' i = item_of st i)"
  using assms
proof (induction its arbitrary: st)
  case Nil
  then show ?case by simp
next
  case (Cons it its)
  let ?ev = "input_event tid ids clk (cursor st + 1) (indeterminate_input reason it)"
  let ?it = "it\<lparr>ip_status := IsIndeterminate, ip_terminalSeq := Some (cursor st + 1),
     ip_content := None, ip_receipt := None, ip_summary := None, ip_error := Some reason\<rparr>"
  let ?s = "(put_item st (ip_itemId it) ?it)\<lparr>cursor := cursor st + 1\<rparr>"
  have step: "applyThreadEvent E st ?ev = Inr ?s"
    using applyThreadEvent_indeterminate [OF Cons.prems(1), of "ip_itemId it" it ?ev reason None E]
      Cons.prems(2,4) by (simp add: input_event_def indeterminate_input_def)
  have inv: "proj_inv ?s" by (rule applyThreadEvent_inv [OF Cons.prems(1) step])
  have opn: "\<forall>x \<in> set its. item_of ?s (ip_itemId x) = Some x \<and> ip_status x = IsStarted"
  proof
    fix x assume x: "x \<in> set its"
    then have "ip_itemId x \<noteq> ip_itemId it" using Cons.prems(3) by (auto simp: image_iff)
    moreover have "item_of st (ip_itemId x) = Some x \<and> ip_status x = IsStarted"
      using bspec [OF Cons.prems(4), of x] x by simp
    ultimately show "item_of ?s (ip_itemId x) = Some x \<and> ip_status x = IsStarted" by simp
  qed
  have thread: "threadId ?s = tid" using Cons.prems(2) by simp
  have dist: "distinct (map ip_itemId its)" using Cons.prems(3) by simp
  obtain st' where st': "replay (applyThreadEvent E) ?s
        (number_inputs tid ids clk (cursor ?s) (map (indeterminate_input reason) its)) = Inr st'"
     "cursor st' = cursor ?s + int (length its)" "threadId st' = tid"
     "activeTurnId st' = activeTurnId ?s" "turn_of st' = turn_of ?s"
     "\<forall>x \<in> set its. map_option ip_status (item_of st' (ip_itemId x)) = Some IsIndeterminate"
     "\<forall>i. i \<notin> ip_itemId ` set its \<longrightarrow> item_of st' i = item_of ?s i"
    using Cons.IH [OF inv thread dist opn] by (elim exE conjE) (rule that)
  have closed: "item_of st' (ip_itemId it) = Some ?it"
    using st'(7) Cons.prems(3) by auto
  have rest: "\<forall>i. i \<notin> ip_itemId ` set (it # its) \<longrightarrow> item_of st' i = item_of st i"
    using st'(7) by auto
  show ?case
  proof (intro exI conjI)
    show "replay (applyThreadEvent E) st (number_inputs tid ids clk (cursor st)
        (map (indeterminate_input reason) (it # its))) = Inr st'"
      using step st'(1) by simp
    show "\<forall>x \<in> set (it # its).
        map_option ip_status (item_of st' (ip_itemId x)) = Some IsIndeterminate"
      using closed st'(6) by simp
  qed (use st' rest in simp_all)
qed


lemma number_inputs_append:
  "number_inputs tid ids clk sq (xs @ ys)
     = number_inputs tid ids clk sq xs @ number_inputs tid ids clk (sq + int (length xs)) ys"
  by (induction xs arbitrary: sq) (simp_all add: add.assoc)

lemma seal_inputs_number:
  assumes "\<And>k. sq < k \<Longrightarrow> k \<le> sq + int (length xs) \<Longrightarrow> isRuntimeId (ids k) \<and> ids k \<notin> set known"
    and "inj_on ids {sq + 1 .. sq + int (length xs)}"
    and "list_all envelope_ok (number_inputs tid ids clk sq xs)"
  shows "seal_inputs tid ids clk sq known xs = Inr (number_inputs tid ids clk sq xs)"
  using assms
proof (induction xs arbitrary: sq known)
  case Nil
  then show ?case by simp
next
  case (Cons x xs)
  let ?len = "int (length (x # xs))"
  have here: "isRuntimeId (ids (sq + 1)) \<and> ids (sq + 1) \<notin> set known"
    using Cons.prems(1) [of "sq + 1"] by simp
  have "seal_inputs tid ids clk (sq + 1) (ids (sq + 1) # known) xs
      = Inr (number_inputs tid ids clk (sq + 1) xs)"
  proof (rule Cons.IH)
    fix k assume k: "sq + 1 < k" "k \<le> sq + 1 + int (length xs)"
    then have "ids k \<noteq> ids (sq + 1)"
      using inj_onD [OF Cons.prems(2), of k "sq + 1"] by auto
    with k Cons.prems(1) [of k] show "isRuntimeId (ids k) \<and> ids k \<notin> set (ids (sq + 1) # known)"
      by simp
  next
    show "inj_on ids {sq + 1 + 1 .. sq + 1 + int (length xs)}"
      by (rule inj_on_subset [OF Cons.prems(2)]) auto
  qed (use Cons.prems(3) in simp)
  moreover have "assertRuntimeEventEnvelopeV1
      (envelope_value (input_event tid ids clk (sq + 1) x)) = []"
    using Cons.prems(3) by (simp add: envelope_valid_accept)
  ultimately show ?case using here by (simp add: Let_def)
qed

subsection \<open>Ending the active turn\<close>

lemma first_open_item_closed:
  "\<forall>i \<in> set is. \<exists>it. item_of st i = Some it \<and> ip_status it \<noteq> IsStarted \<Longrightarrow>
     first_open_item st is = Inr None"
  by (induction "is") auto

definition recovered_terminal :: "commit_projection option \<Rightarrow> turn_terminal" where
  "recovered_terminal commit = (case commit of None \<Rightarrow> TermInterrupted | Some c \<Rightarrow> cp_terminal c)"

lemma finish_active:
  assumes inv: "proj_inv st" and t: "activeTurnId st = Some t" "turn_of st t = Some tn"
    and closed: "\<And>i it. item_of st i = Some it \<Longrightarrow> ip_status it \<noteq> IsStarted"
    and ev: "en_durability ev = Durable" "en_threadId ev = threadId st" "en_seq ev = cursor st + 1"
      "en_turnId ev = Some t" "en_payload ev = recovery_terminal reason (tp_commit tn)"
  shows "\<exists>st'. applyThreadEvent E st ev = Inr st' \<and> activeTurnId st' = None
     \<and> item_of st' = item_of st
     \<and> map_option tp_status (turn_of st' t)
         = Some (terminal_status (recovered_terminal (tp_commit tn)))"
proof -
  have ne: "t \<noteq> []" using inv t(2) by (simp add: proj_inv_def keys_ok_def)
  have "map_option tp_status (turn_of st t) = Some TsActive"
    using inv t(1) unfolding proj_inv_def active_ok_def by blast
  then have active: "tp_status tn = TsActive" using t(2) by simp
  have "\<forall>i \<in> set (tp_itemIds tn). \<exists>it. item_of st i = Some it \<and> ip_status it \<noteq> IsStarted"
    using inv t(2) closed by (fastforce simp: proj_inv_def links_ok_def)
  then have "first_open_item st (tp_itemIds tn) = Inr None" by (rule first_open_item_closed)
  then have "finishTurn st ev (recovered_terminal (tp_commit tn)) = Inr ((put_turn st t
        (tn\<lparr>tp_status := terminal_status (recovered_terminal (tp_commit tn)),
            tp_terminalSeq := Some (en_seq ev)\<rparr>))\<lparr>activeTurnId := None, status := ThIdle\<rparr>)"
    using ne active t ev(4)
    by (simp add: finishTurn_def recovered_terminal_def split: option.split)
  moreover have "applyPayload E st ev (en_payload ev)
      = finishTurn st ev (recovered_terminal (tp_commit tn))"
    unfolding ev(5)
    by (simp add: recovery_terminal_def recovered_terminal_def split: option.split
        turn_terminal.split)
  ultimately show ?thesis
    using ev(1-3) by (simp add: applyThreadEvent_def)
qed

lemma open_items_known:
  assumes "proj_inv st"
  shows "it \<in> set (open_items st) \<longleftrightarrow>
      item_of st (ip_itemId it) = Some it \<and> ip_status it = IsStarted"
    and "distinct (map ip_itemId (open_items st))"
proof -
  have dist: "distinct (map fst (items st))"
    and ids: "\<And>i it. item_of st i = Some it \<Longrightarrow> ip_itemId it = i"
    using assms by (auto simp: proj_inv_def keys_ok_def)
  have entry: "(i, it) \<in> set (items st) \<longleftrightarrow> item_of st i = Some it" for i it
    using dist by (simp add: item_of_def)
  have "(\<exists>i. (i, it) \<in> set (items st)) \<longleftrightarrow> item_of st (ip_itemId it) = Some it"
    using ids unfolding entry by metis
  then show "it \<in> set (open_items st) \<longleftrightarrow>
      item_of st (ip_itemId it) = Some it \<and> ip_status it = IsStarted"
    by (force simp: open_items_def)
  have "ip_itemId (snd x) = fst x" if "x \<in> set (items st)" for x
    using ids entry [of "fst x" "snd x"] that by simp
  then have "map ip_itemId (map snd (items st)) = map fst (items st)" by simp
  with dist have "distinct (map ip_itemId (map snd (items st)))" by metis
  then show "distinct (map ip_itemId (open_items st))"
    unfolding open_items_def by (rule distinct_map_filter)
qed


subsection \<open>The recovery batch\<close>

lemma recovery_inputs_cases:
  "recovery_inputs reason st = map (indeterminate_input reason) (open_items st)
    @ (case activeTurnId st of
         None \<Rightarrow> []
       | Some t \<Rightarrow> if t = [] then []
           else [\<lparr>ai_turnId = Some t, ai_stepId = None, ai_itemId = None, ai_timestamp = None,
             ai_payload = recovery_terminal reason (Option.bind (turn_of st t) tp_commit)\<rparr>])"
  by (simp add: recovery_inputs_def split: option.split)

lemma recovery_replays:
  assumes inv: "proj_inv st" and tid: "threadId st = tid"
  shows "\<exists>st'. replay (applyThreadEvent E) st
        (number_inputs tid ids clk (cursor st) (recovery_inputs reason st)) = Inr st'
     \<and> activeTurnId st' = None \<and> (\<forall>i it. item_of st' i = Some it \<longrightarrow> ip_status it \<noteq> IsStarted)
     \<and> (\<forall>it \<in> set (open_items st).
          map_option ip_status (item_of st' (ip_itemId it)) = Some IsIndeterminate)
     \<and> (\<forall>t tn. activeTurnId st = Some t \<longrightarrow> turn_of st t = Some tn \<longrightarrow>
          map_option tp_status (turn_of st' t)
            = Some (terminal_status (recovered_terminal (tp_commit tn))))"
proof -
  let ?its = "open_items st"
  have its: "\<forall>it \<in> set ?its. item_of st (ip_itemId it) = Some it \<and> ip_status it = IsStarted"
    using open_items_known(1) [OF inv] by blast
  from close_items [OF inv tid open_items_known(2) [OF inv] its, where E = E and ids = ids
      and clk = clk and reason = reason]
  obtain s where s: "replay (applyThreadEvent E) st (number_inputs tid ids clk (cursor st)
        (map (indeterminate_input reason) ?its)) = Inr s"
    "cursor s = cursor st + int (length ?its)" "threadId s = tid"
    "activeTurnId s = activeTurnId st" "turn_of s = turn_of st"
    "\<forall>it \<in> set ?its. map_option ip_status (item_of s (ip_itemId it)) = Some IsIndeterminate"
    "\<forall>i. i \<notin> ip_itemId ` set ?its \<longrightarrow> item_of s i = item_of st i"
    by (elim exE conjE) (rule that)
  have sinv: "proj_inv s" by (rule thread_log.replay_inv [OF inv s(1)])
  have closed: "ip_status it \<noteq> IsStarted" if "item_of s i = Some it" for i it
  proof (cases "i \<in> ip_itemId ` set ?its")
    case True
    with s(6) that show ?thesis by fastforce
  next
    case False
    with s(7) that have "item_of st i = Some it" by simp
    moreover from this have "ip_itemId it = i" using inv by (simp add: proj_inv_def keys_ok_def)
    ultimately show ?thesis using False open_items_known(1) [OF inv, of it] by force
  qed
  show ?thesis
  proof (cases "activeTurnId st")
    case None
    with s closed show ?thesis by (intro exI [of _ s]) (simp add: recovery_inputs_cases)
  next
    case (Some t)
    have "map_option tp_status (turn_of st t) = Some TsActive"
      using inv Some unfolding proj_inv_def active_ok_def by blast
    then obtain tn where tn: "turn_of st t = Some tn" by auto
    have ne: "t \<noteq> []" using inv tn by (simp add: proj_inv_def keys_ok_def)
    let ?x = "\<lparr>ai_turnId = Some t, ai_stepId = None, ai_itemId = None, ai_timestamp = None,
       ai_payload = recovery_terminal reason (tp_commit tn)\<rparr>"
    let ?ev = "input_event tid ids clk (cursor s + 1) ?x"
    have "\<exists>st'. applyThreadEvent E s ?ev = Inr st' \<and> activeTurnId st' = None
       \<and> item_of st' = item_of s \<and> map_option tp_status (turn_of st' t)
           = Some (terminal_status (recovered_terminal (tp_commit tn)))"
      by (rule finish_active [OF sinv _ _ closed])
        (use s Some tn in \<open>simp_all add: input_event_def\<close>)
    then obtain st' where st': "applyThreadEvent E s ?ev = Inr st'" "activeTurnId st' = None"
      "item_of st' = item_of s" "map_option tp_status (turn_of st' t)
           = Some (terminal_status (recovered_terminal (tp_commit tn)))"
      by blast
    have "number_inputs tid ids clk (cursor st) (recovery_inputs reason st)
        = number_inputs tid ids clk (cursor st) (map (indeterminate_input reason) ?its) @ [?ev]"
      using Some tn ne s(2) by (simp add: recovery_inputs_cases number_inputs_append)
    then have "replay (applyThreadEvent E) st
        (number_inputs tid ids clk (cursor st) (recovery_inputs reason st)) = Inr st'"
      using replay_snoc_Inr [OF s(1), of ?ev] st'(1) by simp
    with st' s(6) closed Some tn show ?thesis by (intro exI [of _ st']) simp
  qed
qed

lemma recovery_terminal_valid:
  "event_ok (recovery_terminal reason c)" "\<not> is_delta (recovery_terminal reason c)"
  "\<not> needs_item (recovery_terminal reason c)"
  by (auto simp: recovery_terminal_def truthy_def split: option.split turn_terminal.split)

lemma recovery_envelopes_ok:
  assumes inv: "proj_inv st" "ids_ok st" and tid: "isRuntimeId tid" and reason: "reason \<noteq> []"
    and range: "\<And>k. sq < k \<Longrightarrow> k \<le> sq + int (length (recovery_inputs reason st)) \<Longrightarrow>
      isRuntimeId (ids k) \<and> non_negative_safe (clk k) \<and> non_negative_safe k \<and> k \<noteq> 0"
  shows "list_all envelope_ok (number_inputs tid ids clk sq (recovery_inputs reason st))"
proof -
  have each: "list_all envelope_ok (number_inputs tid ids clk sq xs)"
    if "\<And>k. sq < k \<Longrightarrow> k \<le> sq + int (length xs) \<Longrightarrow>
      isRuntimeId (ids k) \<and> non_negative_safe (clk k) \<and> non_negative_safe k \<and> k \<noteq> 0"
      and "\<And>x. x \<in> set xs \<Longrightarrow> ai_timestamp x = None \<and> event_ok (ai_payload x)
        \<and> \<not> is_delta (ai_payload x) \<and> opt_id_ok (ai_turnId x) \<and> ai_turnId x \<noteq> None
        \<and> opt_id_ok (ai_stepId x) \<and> opt_id_ok (ai_itemId x)
        \<and> (needs_item (ai_payload x) \<longrightarrow> ai_stepId x \<noteq> None \<and> ai_itemId x \<noteq> None)" for xs sq
    using that
  proof (induction xs arbitrary: sq)
    case Nil
    then show ?case by simp
  next
    case (Cons x xs)
    have "envelope_ok (input_event tid ids clk (sq + 1) x)"
      using Cons.prems(1) [of "sq + 1"] Cons.prems(2) [of x] tid
      by (simp add: envelope_ok_def input_event_def)
    moreover have "list_all envelope_ok (number_inputs tid ids clk (sq + 1) xs)"
      using Cons.prems by (intro Cons.IH) auto
    ultimately show ?case by simp
  qed
  have item: "isRuntimeId (ip_turnId it) \<and> isRuntimeId (ip_stepId it) \<and> isRuntimeId (ip_itemId it)"
    if "it \<in> set (open_items st)" for it
    using that open_items_known(1) [OF inv(1), of it] inv(2) unfolding ids_ok_def by blast
  have turn: "isRuntimeId t" if "activeTurnId st = Some t" for t
  proof -
    have "map_option tp_status (turn_of st t) = Some TsActive"
      using inv(1) that unfolding proj_inv_def active_ok_def by blast
    with inv(2) show ?thesis by (auto simp: ids_ok_def)
  qed
  show ?thesis
  proof (rule each)
    fix x assume "x \<in> set (recovery_inputs reason st)"
    then consider (item) it where "it \<in> set (open_items st)" "x = indeterminate_input reason it"
      | (turn) t where "activeTurnId st = Some t" "x = \<lparr>ai_turnId = Some t, ai_stepId = None,
          ai_itemId = None, ai_timestamp = None,
          ai_payload = recovery_terminal reason (Option.bind (turn_of st t) tp_commit)\<rparr>"
      by (cases "activeTurnId st") (auto simp: recovery_inputs_cases split: if_splits)
    then show "ai_timestamp x = None \<and> event_ok (ai_payload x)
        \<and> \<not> is_delta (ai_payload x) \<and> opt_id_ok (ai_turnId x) \<and> ai_turnId x \<noteq> None
        \<and> opt_id_ok (ai_stepId x) \<and> opt_id_ok (ai_itemId x)
        \<and> (needs_item (ai_payload x) \<longrightarrow> ai_stepId x \<noteq> None \<and> ai_itemId x \<noteq> None)"
      by cases (use item turn reason in
        \<open>simp_all add: indeterminate_input_def opt_id_ok_def recovery_terminal_valid\<close>)
  qed (use range in blast)
qed


text \<open>Fresh event ids and usable clock readings for the next \<open>n\<close> sequence numbers.\<close>

definition fresh_for :: "thread_store \<Rightarrow> nat \<Rightarrow> (int \<Rightarrow> jsstr) \<Rightarrow> (int \<Rightarrow> int) \<Rightarrow> bool" where
  "fresh_for s n ids clk \<longleftrightarrow> (let c = cursor (fst (ts_head s)) in
     is_safe_integer (c + int n) \<and> inj_on ids {c + 1 .. c + int n}
     \<and> (\<forall>k \<in> {c + 1 .. c + int n}. isRuntimeId (ids k) \<and> non_negative_safe (clk k)
          \<and> ids k \<notin> set (map en_eventId (ts_events s))))"

lemma store_head:
  assumes "store_ok E D s" "ts_head s = (st, d)"
  shows "proj_inv st" "ids_ok st" "threadId st = ts_threadId s" "d = D st" "0 \<le> cursor st"
proof -
  have run: "replay (applyThreadEvent E) (new_projection (ts_threadId s)) (ts_events s) = Inr st"
    and "d = D st" using assms by (simp_all add: store_ok_def projectThreadEvents_Inr)
  then show "d = D st" by simp
  show "proj_inv st" by (rule thread_log.replay_inv [OF proj_inv_new run])
  show "ids_ok st" using replay_ids_ok [OF run _ ids_ok_new] assms(1) by (simp add: store_ok_def)
  show "threadId st = ts_threadId s" using replay_threadId [OF run]
    by (simp add: new_projection_def)
  show "0 \<le> cursor st" using thread_log.replay_cursor [OF run] by (simp add: new_projection_def)
qed

lemma recoverIncomplete_state:
  "snd (recoverIncomplete E D ids clk reason s)
     = snd (appendDurableBatch E D ids clk s (recovery_inputs reason (fst (ts_head s))))"
proof (cases "recovery_inputs reason (fst (ts_head s))")
  case Nil
  then show ?thesis by (simp add: recoverIncomplete_def appendDurableBatch_def)
next
  case (Cons x xs)
  then show ?thesis
    by (cases "appendDurableBatch E D ids clk s (x # xs)")
      (simp add: recoverIncomplete_def split: sum.split)
qed

lemma recover_unfold:
  assumes head: "ts_head s = (st, d)" "d = D st"
    and seal: "seal_inputs (ts_threadId s) ids clk (cursor st) (map en_eventId (ts_events s))
      (recovery_inputs reason st) = Inr evs"
    and run: "replay (applyThreadEvent E) st evs = Inr st'"
  shows "recoverIncomplete E D ids clk reason s = (Inr st',
    if recovery_inputs reason st = [] then s
    else s\<lparr>ts_events := ts_events s @ evs, ts_head := (st', D st')\<rparr>)"
proof (cases "recovery_inputs reason st")
  case Nil
  with seal run head show ?thesis by (simp add: recoverIncomplete_def)
next
  case (Cons x xs)
  then have "evs \<noteq> []" using seal by (auto simp: Let_def split: if_splits list.splits sum.splits)
  with Cons seal run head show ?thesis
    by (simp add: recoverIncomplete_def appendDurableBatch_def advanceThreadProjection_def
        verifyThreadProjectionDigest_def freezeProjection_def del: seal_inputs.simps)
qed

text \<open>C8 (recovery): from any log the store can hold, with usable fresh ids and clock
  readings, \<open>recoverIncomplete\<close> succeeds: afterwards the log still projects to its head, no
  turn is active, no item is open, every item that was open is indeterminate, and the turn that
  was active has the terminal status its commit announced, or is interrupted when it had none.\<close>

theorem recovery_succeeds:
  assumes "store_ok E D s" "isRuntimeId (ts_threadId s)" "reason \<noteq> []"
    and "fresh_for s (length (recovery_inputs reason (fst (ts_head s)))) ids clk"
  shows "\<exists>st' s'. recoverIncomplete E D ids clk reason s = (Inr st', s') \<and> store_ok E D s'
    \<and> st' = fst (ts_head s') \<and> activeTurnId st' = None
    \<and> (\<forall>i it. item_of st' i = Some it \<longrightarrow> ip_status it \<noteq> IsStarted)
    \<and> (\<forall>it \<in> set (open_items (fst (ts_head s))).
         map_option ip_status (item_of st' (ip_itemId it)) = Some IsIndeterminate)
    \<and> (\<forall>t tn. activeTurnId (fst (ts_head s)) = Some t \<longrightarrow> turn_of (fst (ts_head s)) t = Some tn
         \<longrightarrow> map_option tp_status (turn_of st' t)
           = Some (terminal_status (recovered_terminal (tp_commit tn))))"
proof -
  obtain st where head: "ts_head s = (st, D st)"
    using store_head(4) [OF assms(1)] by (cases "ts_head s") auto
  note st = store_head [OF assms(1) head]
  let ?xs = "recovery_inputs reason st"
  let ?evs = "number_inputs (ts_threadId s) ids clk (cursor st) ?xs"
  have fresh: "is_safe_integer (cursor st + int (length ?xs))"
    "inj_on ids {cursor st + 1 .. cursor st + int (length ?xs)}"
    "\<And>k. cursor st < k \<Longrightarrow> k \<le> cursor st + int (length ?xs) \<Longrightarrow> isRuntimeId (ids k)
        \<and> non_negative_safe (clk k) \<and> ids k \<notin> set (map en_eventId (ts_events s))"
    using assms(4) head by (auto simp: fresh_for_def Let_def)
  have ok: "list_all envelope_ok ?evs"
    by (rule recovery_envelopes_ok [OF st(1,2) assms(2,3)])
      (use fresh st(5) in \<open>auto simp: non_negative_safe_def is_safe_integer_def\<close>)
  have seal: "seal_inputs (ts_threadId s) ids clk (cursor st) (map en_eventId (ts_events s)) ?xs
      = Inr ?evs"
    by (rule seal_inputs_number [OF _ fresh(2) ok]) (use fresh(3) in blast)
  obtain st' where st': "replay (applyThreadEvent E) st ?evs = Inr st'"
    "activeTurnId st' = None" "\<forall>i it. item_of st' i = Some it \<longrightarrow> ip_status it \<noteq> IsStarted"
    "\<forall>it \<in> set (open_items st).
       map_option ip_status (item_of st' (ip_itemId it)) = Some IsIndeterminate"
    "\<forall>t tn. activeTurnId st = Some t \<longrightarrow> turn_of st t = Some tn \<longrightarrow>
       map_option tp_status (turn_of st' t)
         = Some (terminal_status (recovered_terminal (tp_commit tn)))"
    using recovery_replays [OF st(1) st(3), where E = E and ids = ids and clk = clk
        and reason = reason] by (elim exE conjE) (rule that)
  have rec: "recoverIncomplete E D ids clk reason s = (Inr st', if ?xs = [] then s
      else s\<lparr>ts_events := ts_events s @ ?evs, ts_head := (st', D st')\<rparr>)"
    by (rule recover_unfold [where D = D, OF head refl seal st'(1)])
  let ?s' = "snd (recoverIncomplete E D ids clk reason s)"
  have ok': "store_ok E D ?s'"
    using appendDurableBatch_ok [OF assms(1)] by (simp only: recoverIncomplete_state)
  have "fst (ts_head ?s') = st'"
    using rec head st'(1) by (simp split: if_splits)
  with rec ok' st' head show ?thesis by (metis fst_conv prod.collapse)
qed


subsection \<open>Runs of the store\<close>

fun store_step ::
  "js_env \<Rightarrow> (projection \<Rightarrow> jsstr) \<Rightarrow> (int \<Rightarrow> jsstr) \<times> (int \<Rightarrow> int) \<times> append_input list
     \<Rightarrow> thread_store \<Rightarrow> thread_store" where
  "store_step E D (ids, clk, inputs) s = snd (appendDurableBatch E D ids clk s inputs)"

interpretation store_runs: component "store_step E D" "store_ok E D"
  by unfold_locales (auto simp: appendDurableBatch_ok)


subsection \<open>A concrete crash\<close>

definition test_id :: "int \<Rightarrow> jsstr" where
  "test_id k = js ''00000000-0000-4000-8000-00000000000'' @ [0x30 + word_of_int k]"

definition test_input :: "int option \<Rightarrow> runtime_event \<Rightarrow> append_input" where
  "test_input i p = \<lparr>ai_turnId = Some (test_id 1), ai_stepId = map_option test_id i,
     ai_itemId = map_option test_id i, ai_timestamp = Some 7, ai_payload = p\<rparr>"

definition crashed_log :: "envelope list" where
  "crashed_log = number_inputs (test_id 0) test_id id 0
     [test_input None (ThreadStarted None), test_input None (TurnStarted (js ''go'') ModeBuild None),
      test_input (Some 2) (ItemStarted \<lparr>is_kind = IkCommand, is_parentItemId = None,
        is_role = None, is_name = None, is_inputDigest = None, is_intent = None\<rparr>)]"

definition crashed_projection :: projection where
  "crashed_projection =
     (case replay (applyThreadEvent log_env) (new_projection (test_id 0)) crashed_log of
        Inl e \<Rightarrow> new_projection [] | Inr st \<Rightarrow> st)"

definition crashed_store :: thread_store where
  "crashed_store = \<lparr>ts_threadId = test_id 0, ts_events = crashed_log,
     ts_head = (crashed_projection, [])\<rparr>"

lemma test_ids:
  "isRuntimeId (test_id 0)" "isRuntimeId (test_id 1)" "isRuntimeId (test_id 2)"
  "isRuntimeId (test_id 3)" "isRuntimeId (test_id 4)" "isRuntimeId (test_id 5)"
  by code_simp+

lemma crashed_log_ok: "list_all envelope_ok crashed_log"
  using test_ids by (simp add: crashed_log_def test_input_def input_event_def envelope_ok_def
      opt_id_ok_def non_negative_safe_def is_safe_integer_def opt_nonempty_def)

lemma crashed_replay:
  "\<not> isl (replay (applyThreadEvent log_env) (new_projection (test_id 0)) crashed_log)"
  "cursor crashed_projection = 3" "activeTurnId crashed_projection = Some (test_id 1)"
  "length (recovery_inputs (js ''r'') crashed_projection) = 2"
  by code_simp+

lemma crashed_store_ok: "store_ok log_env (\<lambda>st. []) crashed_store"
proof -
  have "replay (applyThreadEvent log_env) (new_projection (test_id 0)) crashed_log
      = Inr crashed_projection"
    using crashed_replay(1) by (auto simp: crashed_projection_def split: sum.splits)
  moreover have "distinct (map en_eventId crashed_log)"
    by (simp add: crashed_log_def input_event_def test_id_def)
  ultimately show ?thesis
    using crashed_log_ok by (simp add: store_ok_def crashed_store_def projectThreadEvents_Inr)
qed

lemma crashed_store_facts:
  "length (ts_events crashed_store) = 3" "ts_threadId crashed_store = test_id 0"
  "fst (ts_head crashed_store) = crashed_projection"
  "map en_eventId (ts_events crashed_store) = [test_id 1, test_id 2, test_id 3]"
  by (simp_all add: crashed_store_def crashed_log_def input_event_def)

theorem recovery_succeeds_witness:
  "\<exists>st' s'. recoverIncomplete log_env (\<lambda>st. []) test_id id (js ''r'') crashed_store
     = (Inr st', s') \<and> activeTurnId crashed_projection \<noteq> None \<and> activeTurnId st' = None"
proof -
  have range: "{cursor crashed_projection + 1 .. cursor crashed_projection + int 2} = {4, 5}"
    by (auto simp: crashed_replay)
  have "fresh_for crashed_store 2 test_id id"
    unfolding fresh_for_def Let_def crashed_store_facts range
    using test_ids by (auto simp: crashed_replay inj_on_def is_safe_integer_def
        non_negative_safe_def test_id_def)
  then have "fresh_for crashed_store
      (length (recovery_inputs (js ''r'') (fst (ts_head crashed_store)))) test_id id"
    by (simp only: crashed_store_facts crashed_replay)
  from recovery_succeeds [OF crashed_store_ok _ _ this] show ?thesis
    using test_ids(1) by (auto simp: crashed_store_facts crashed_replay)
qed

theorem replay_pages_complete_witness:
  "read_pages 4 10 (int 1) 1 crashed_store = Some (Inr (drop 1 (ts_events crashed_store)))
   \<and> length (drop 1 (ts_events crashed_store)) = 2"
  using replay_pages_complete [OF crashed_store_ok, of 1 10 1]
  by (simp add: crashed_store_facts is_safe_integer_def eval_nat_numeral)

end
