(* ===== verification/EventBuffer.thy ===== *)
theory EventBuffer
  imports ProtocolEncoding
begin

section \<open>The delivery buffer of a runtime event consumer\<close>

text \<open>
  Models \<open>RuntimeEventBufferV1\<close> of \<open>src/src/runtime/runtime-event-buffer.ts\<close>. A method that
  throws returns the error and leaves the state alone. The limits are the constructor's
  positive integers. A buffered item is an event with its size in bytes.
\<close>

subsection \<open>Data\<close>

datatype replay_reason = DurableOverflow | SequenceGap

record replay_required =
  rr_cursor :: int
  rr_latest :: int
  rr_reason :: replay_reason

record event_buffer =
  eb_items :: "(envelope \<times> int) list"
  eb_bytes :: int
  eb_ack :: int
  eb_latest :: int
  eb_replay :: "replay_required option"

record buffer_config =
  bc_threadId :: jsstr
  bc_maxItems :: int
  bc_maxBytes :: int

datatype buffer_error =
    BufferOption string
  | EventInvalid "problem list"
  | WrongThread
  | AckDuringReplay
  | AckOutOfRange int
  | NoReplayPending
  | ReplayNotReached int

datatype drop_reason = DropCapacity | DropReplay

datatype offer_result =
    Buffered int int nat
  | Coalesced int int
  | DroppedEphemeral drop_reason
  | Duplicate int
  | ReplayRequired replay_required

subsection \<open>Construction\<close>

definition positive_option :: "int \<Rightarrow> string \<Rightarrow> buffer_error + int" where
  "positive_option n name = (if positive_safe n then Inr n else Inl (BufferOption name))"

definition non_negative_option :: "int \<Rightarrow> string \<Rightarrow> buffer_error + int" where
  "non_negative_option n name = (if non_negative_safe n then Inr n else Inl (BufferOption name))"

definition new_buffer ::
  "jsstr \<Rightarrow> int option \<Rightarrow> int option \<Rightarrow> int option
     \<Rightarrow> buffer_error + buffer_config \<times> event_buffer" where
  "new_buffer tid maxItems maxBytes initialCursor =
     (case positive_option (case maxItems of None \<Rightarrow> 256 | Some n \<Rightarrow> n) ''maxItems'' of
        Inl e \<Rightarrow> Inl e
      | Inr i \<Rightarrow>
     (case positive_option (case maxBytes of None \<Rightarrow> 1024 * 1024 | Some n \<Rightarrow> n) ''maxBytes'' of
        Inl e \<Rightarrow> Inl e
      | Inr b \<Rightarrow>
     (case non_negative_option (case initialCursor of None \<Rightarrow> 0 | Some n \<Rightarrow> n) ''initialCursor'' of
        Inl e \<Rightarrow> Inl e
      | Inr c \<Rightarrow> Inr (\<lparr>bc_threadId = tid, bc_maxItems = i, bc_maxBytes = b\<rparr>,
           \<lparr>eb_items = [], eb_bytes = 0, eb_ack = c, eb_latest = c, eb_replay = None\<rparr>))))"

subsection \<open>Sizes and coalescing\<close>

definition eventBytes :: "js_env \<Rightarrow> envelope \<Rightarrow> int" where
  "eventBytes E ev = int (utf8_bytes (canonicalRuntimeJson E (envelope_value ev)))"

fun delta_of :: "runtime_event \<Rightarrow> (jsstr \<times> delta_channel option) option" where
  "delta_of (ItemDelta d c) = Some (d, c)"
| "delta_of _ = None"

definition canCoalesce :: "envelope \<Rightarrow> envelope \<Rightarrow> bool" where
  "canCoalesce l r \<longleftrightarrow> en_durability l = Ephemeral \<and> en_durability r = Ephemeral
     \<and> (case (delta_of (en_payload l), delta_of (en_payload r)) of
          (Some (dl, cl), Some (dr, cr)) \<Rightarrow>
            en_turnId l = en_turnId r \<and> en_stepId l = en_stepId r \<and> en_itemId l = en_itemId r
            \<and> cl = cr
        | _ \<Rightarrow> False)"

text \<open>\<open>mergeDeltas\<close> of two deltas; on other payloads it throws, and its caller checks first.\<close>

definition mergeDeltas :: "envelope \<Rightarrow> envelope \<Rightarrow> envelope" where
  "mergeDeltas l r = (case (delta_of (en_payload l), delta_of (en_payload r)) of
     (Some (dl, cl), Some (dr, cr)) \<Rightarrow> r\<lparr>en_payload := ItemDelta (dl @ dr) cr\<rparr>
   | _ \<Rightarrow> r)"

definition fits :: "buffer_config \<Rightarrow> int \<Rightarrow> (envelope \<times> int) list \<Rightarrow> int \<Rightarrow> bool" where
  "fits C incoming items bytes \<longleftrightarrow>
     int (length items) + 1 \<le> bc_maxItems C \<and> bytes + incoming \<le> bc_maxBytes C"

definition is_ephemeral :: "envelope \<times> int \<Rightarrow> bool" where
  "is_ephemeral x \<longleftrightarrow> en_durability (fst x) = Ephemeral"

function evictEphemeralUntilFits ::
  "buffer_config \<Rightarrow> int \<Rightarrow> (envelope \<times> int) list \<Rightarrow> int \<Rightarrow> nat
     \<Rightarrow> (envelope \<times> int) list \<times> int \<times> nat" where
  "evictEphemeralUntilFits C incoming items bytes dropped =
     (if fits C incoming items bytes then (items, bytes, dropped)
      else case find_index is_ephemeral items of
        None \<Rightarrow> (items, bytes, dropped)
      | Some i \<Rightarrow> evictEphemeralUntilFits C incoming (splice1 i items)
          (bytes - snd (items ! i)) (Suc dropped))"
  by pat_completeness auto

termination
  by (relation "measure (\<lambda>(C, incoming, items, bytes, dropped). length items)")
    (auto dest: find_index_SomeD)

declare evictEphemeralUntilFits.simps [simp del]

subsection \<open>offer\<close>

definition requireReplay :: "replay_reason \<Rightarrow> int \<Rightarrow> event_buffer \<Rightarrow> offer_result \<times> event_buffer" where
  "requireReplay reason latestAvailable b =
     (let r = \<lparr>rr_cursor = eb_ack b, rr_latest = max (eb_latest b) latestAvailable,
               rr_reason = reason\<rparr> in
      (ReplayRequired r, b\<lparr>eb_items := [], eb_bytes := 0, eb_replay := Some r\<rparr>))"

definition offerEphemeral ::
  "js_env \<Rightarrow> buffer_config \<Rightarrow> envelope \<Rightarrow> event_buffer \<Rightarrow> offer_result \<times> event_buffer" where
  "offerEphemeral E C ev b =
     (if en_seq ev < eb_ack b \<or> en_seq ev > eb_latest b then (DroppedEphemeral DropCapacity, b)
      else if eb_items b \<noteq> [] \<and> canCoalesce (fst (last (eb_items b))) ev
      then (let merged = mergeDeltas (fst (last (eb_items b))) ev; bytes = eventBytes E merged;
                old = snd (last (eb_items b)) in
            if bytes \<le> bc_maxBytes C \<and> eb_bytes b - old + bytes \<le> bc_maxBytes C
            then let b' = b\<lparr>eb_items := butlast (eb_items b) @ [(merged, bytes)],
                           eb_bytes := eb_bytes b + (bytes - old)\<rparr> in
              (Coalesced (int (length (eb_items b'))) (eb_bytes b'), b')
            else (DroppedEphemeral DropCapacity, b))
      else let bytes = eventBytes E ev in
        if bytes > bc_maxBytes C \<or> \<not> fits C bytes (eb_items b) (eb_bytes b)
        then (DroppedEphemeral DropCapacity, b)
        else let b' = b\<lparr>eb_items := eb_items b @ [(ev, bytes)], eb_bytes := eb_bytes b + bytes\<rparr> in
          (Buffered (int (length (eb_items b'))) (eb_bytes b') 0, b'))"

text \<open>The durable path past the duplicate and gap checks.\<close>

definition offerDurable ::
  "js_env \<Rightarrow> buffer_config \<Rightarrow> envelope \<Rightarrow> event_buffer \<Rightarrow> offer_result \<times> event_buffer" where
  "offerDurable E C ev b =
     (let bytes = eventBytes E ev;
          (items, kept, dropped) = evictEphemeralUntilFits C bytes (eb_items b) (eb_bytes b) 0;
          b' = b\<lparr>eb_items := items, eb_bytes := kept\<rparr> in
      if bytes > bc_maxBytes C \<or> \<not> fits C bytes items kept
      then requireReplay DurableOverflow (en_seq ev) b'
      else let b'' = b'\<lparr>eb_items := items @ [(ev, bytes)], eb_bytes := kept + bytes,
                       eb_latest := en_seq ev\<rparr> in
        (Buffered (int (length (eb_items b''))) (eb_bytes b'') dropped, b''))"

definition offer ::
  "js_env \<Rightarrow> buffer_config \<Rightarrow> envelope \<Rightarrow> event_buffer \<Rightarrow> (buffer_error + offer_result) \<times> event_buffer" where
  "offer E C ev b =
     (case assertRuntimeEventEnvelopeV1 (envelope_value ev) of
        p # ps \<Rightarrow> (Inl (EventInvalid (p # ps)), b)
      | [] \<Rightarrow>
          if en_threadId ev \<noteq> bc_threadId C then (Inl WrongThread, b)
          else case eb_replay b of
            Some r \<Rightarrow>
              if en_durability ev = Durable
              then (let r' = r\<lparr>rr_latest := max (rr_latest r) (en_seq ev)\<rparr> in
                    (Inr (ReplayRequired r'), b\<lparr>eb_replay := Some r'\<rparr>))
              else (Inr (DroppedEphemeral DropReplay), b)
          | None \<Rightarrow>
              let (result, b') =
                if en_durability ev = Ephemeral then offerEphemeral E C ev b
                else if en_seq ev \<le> eb_latest b then (Duplicate (eb_latest b), b)
                else if en_seq ev \<noteq> eb_latest b + 1 then requireReplay SequenceGap (en_seq ev) b
                else offerDurable E C ev b in
              (Inr result, b'))"

subsection \<open>read, acknowledge and reset\<close>

datatype read_result = ReadEvents "envelope list" int | ReadReplay replay_required

definition read_buffer :: "buffer_config \<Rightarrow> int option \<Rightarrow> event_buffer \<Rightarrow> buffer_error + read_result" where
  "read_buffer C maxItems b =
     (case eb_replay b of
        Some r \<Rightarrow> Inr (ReadReplay r)
      | None \<Rightarrow>
          (case positive_option (case maxItems of None \<Rightarrow> bc_maxItems C | Some n \<Rightarrow> n)
                  ''read maxItems'' of
             Inl e \<Rightarrow> Inl e
           | Inr limit \<Rightarrow> Inr (ReadEvents (map fst (take (nat limit) (eb_items b))) (eb_ack b))))"

definition removeWhere :: "(envelope \<times> int \<Rightarrow> bool) \<Rightarrow> event_buffer \<Rightarrow> event_buffer" where
  "removeWhere P b = (let retained = filter (\<lambda>x. \<not> P x) (eb_items b) in
     b\<lparr>eb_items := retained, eb_bytes := sum_list (map snd retained)\<rparr>)"

definition acknowledgeThrough ::
  "int \<Rightarrow> event_buffer \<Rightarrow> (buffer_error + unit) \<times> event_buffer" where
  "acknowledgeThrough cur b =
     (case non_negative_option cur ''acknowledgement cursor'' of
        Inl e \<Rightarrow> (Inl e, b)
      | Inr next \<Rightarrow>
          if eb_replay b \<noteq> None then (Inl AckDuringReplay, b)
          else if next < eb_ack b \<or> next > eb_latest b then (Inl (AckOutOfRange next), b)
          else (Inr (), removeWhere (\<lambda>x. en_seq (fst x) \<le> next) (b\<lparr>eb_ack := next\<rparr>)))"

definition resetAfterReplay ::
  "int \<Rightarrow> event_buffer \<Rightarrow> (buffer_error + unit) \<times> event_buffer" where
  "resetAfterReplay cur b =
     (case non_negative_option cur ''replay cursor'' of
        Inl e \<Rightarrow> (Inl e, b)
      | Inr next \<Rightarrow>
          (case eb_replay b of
             None \<Rightarrow> (Inl NoReplayPending, b)
           | Some r \<Rightarrow>
               if next < rr_latest r then (Inl (ReplayNotReached next), b)
               else (Inr (), \<lparr>eb_items = [], eb_bytes = 0, eb_ack = next, eb_latest = next,
                             eb_replay = None\<rparr>)))"

end
