(* ===== verification/CanonicalDigest.thy ===== *)
theory CanonicalDigest
  imports JsonValue
begin

section \<open>The canonical digest does not depend on property order\<close>

text \<open>
  Two values that differ only in the order of the properties of their objects, at any depth,
  have the same canonical JSON and the same digest, provided the collation orders the keys
  that occur linearly. Property order is the one difference the digest is meant to ignore.
\<close>

inductive same_up_to_order :: "jsval \<Rightarrow> jsval \<Rightarrow> bool" where
  same_refl: "same_up_to_order v v"
| same_arr: "list_all2 same_up_to_order xs ys \<Longrightarrow> same_up_to_order (JArr xs) (JArr ys)"
| same_obj: "list_all2 (\<lambda>a b. fst a = fst b \<and> same_up_to_order (snd a) (snd b)) kvs zs \<Longrightarrow>
    mset zs = mset lvs \<Longrightarrow> distinct (map fst kvs) \<Longrightarrow> same_up_to_order (JObj kvs) (JObj lvs)"

fun keys_of :: "jsval \<Rightarrow> jsstr set" where
  "keys_of (JArr xs) = \<Union> (keys_of ` set xs)"
| "keys_of (JObj kvs) = fst ` set kvs \<union> \<Union> ((keys_of \<circ> snd) ` set kvs)"
| "keys_of _ = {}"

definition sort_entry :: "(jsstr \<Rightarrow> jsstr \<Rightarrow> bool) \<Rightarrow> jsstr \<times> jsval \<Rightarrow> jsstr \<times> jsval" where
  "sort_entry le kv = (fst kv, sortValue le (snd kv))"

lemma sortValue_obj:
  "sortValue le (JObj kvs)
     = JObj (own_order (sort_by (\<lambda>a b. le (fst a) (fst b)) (map (sort_entry le) kvs)))"
  by (simp add: sort_entry_def [abs_def] case_prod_unfold)

lemma linear_on_entries:
  assumes "linear_on le (fst ` set es)" "distinct (map fst es)"
  shows "linear_on (\<lambda>a b. le (fst a) (fst b)) (set es)"
proof -
  have inj: "inj_on fst (set es)" using assms(2) by (simp add: distinct_map)
  show ?thesis
    using assms(1) inj unfolding linear_on_def inj_on_def by (simp only: ball_simps) blast
qed

lemma sortValue_same:
  "same_up_to_order v w \<Longrightarrow> linear_on le (keys_of v) \<Longrightarrow> sortValue le v = sortValue le w"
proof (induction rule: same_up_to_order.induct)
  case (same_refl v)
  show ?case by simp
next
  case (same_arr xs ys)
  have lin: "linear_on le (keys_of x)" if "x \<in> set xs" for x
    using that by (intro linear_on_subset [OF same_arr.prems]) auto
  have "map (sortValue le) xs = map (sortValue le) ys"
    using same_arr.IH lin by (simp add: list_all2_conv_all_nth list_eq_iff_nth_eq)
  then show ?case by simp
next
  case (same_obj kvs zs lvs)
  let ?le = "\<lambda>a b. le (fst a) (fst b)"
  have lin: "linear_on le (keys_of (snd kv))" if "kv \<in> set kvs" for kv
    using that by (intro linear_on_subset [OF same_obj.prems]) auto
  have len: "length kvs = length zs"
    using same_obj.IH by (rule list_all2_lengthD)
  have entries: "map (sort_entry le) kvs = map (sort_entry le) zs"
    using same_obj.IH lin by (simp add: list_all2_conv_all_nth list_eq_iff_nth_eq sort_entry_def)
  have "linear_on ?le (set (map (sort_entry le) kvs))"
  proof (rule linear_on_entries)
    show "linear_on le (fst ` set (map (sort_entry le) kvs))"
      by (rule linear_on_subset [OF same_obj.prems]) (force simp: sort_entry_def)
    show "distinct (map fst (map (sort_entry le) kvs))"
      using same_obj.hyps by (simp add: sort_entry_def comp_def)
  qed
  moreover have "mset (map (sort_entry le) kvs) = mset (map (sort_entry le) lvs)"
    using entries same_obj.hyps by simp
  ultimately show ?case
    unfolding sortValue_obj by (simp only: sort_by_mset_cong [of ?le])
qed

text \<open>Reordering the properties of objects, at any depth, changes
  neither the canonical JSON nor the digest, where the collation orders the keys that occur
  linearly.\<close>

lemma digest_ignores_property_order:
  assumes "same_up_to_order v w" "linear_on (locale_le E) (keys_of v)"
  shows "canonicalRuntimeJson E v = canonicalRuntimeJson E w
    \<and> digestRuntimeValue E v = digestRuntimeValue E w"
  using sortValue_same [OF assms] by (simp add: canonicalRuntimeJson_def digestRuntimeValue_def)

text \<open>An environment that renders nothing but the first key of an object.\<close>

definition first_key_env :: js_env where
  "first_key_env = \<lparr>json_stringify = (\<lambda>v. case v of JObj (kv # _) \<Rightarrow> fst kv | _ \<Rightarrow> []),
     json_parse = (\<lambda>s. None), string_of = (\<lambda>v. []), sha256_hex = (\<lambda>s. s),
     locale_le = (\<lambda>a b. case (a, b) of (x # _, y # _) \<Rightarrow> x \<le> y | _ \<Rightarrow> True)\<rparr>"

lemma digest_ignores_property_order_example:
  "digestRuntimeValue first_key_env (JObj [(js ''b'', JNull), (js ''a'', JNull)]) = js ''a''
   \<and> digestRuntimeValue first_key_env (JObj [(js ''b'', JNull), (js ''a'', JNull)])
     = digestRuntimeValue first_key_env (JObj [(js ''a'', JNull), (js ''b'', JNull)])"
proof -
  let ?kvs = "[(js ''b'', JNull), (js ''a'', JNull)]"
  have lin: "linear_on (locale_le first_key_env) (keys_of (JObj ?kvs))"
    by (simp add: linear_on_def first_key_env_def js_def)
  have "same_up_to_order (JObj ?kvs) (JObj [(js ''a'', JNull), (js ''b'', JNull)])"
    by (rule same_obj [of _ ?kvs]) (auto simp: js_def intro: same_refl)
  moreover have "digestRuntimeValue first_key_env (JObj ?kvs) = js ''a''" by code_simp
  ultimately show ?thesis using digest_ignores_property_order [OF _ lin] by simp
qed

end
