(* ===== verification/BufferProperties.thy ===== *)
theory BufferProperties
  imports EventBuffer CanonicalDigest
begin

section \<open>Bounded memory without losing a durable fact\<close>

text \<open>
  The invariant of a delivery buffer and that every method keeps it: memory stays within the
  limits, and unless the consumer was told to replay, the buffered durable events are exactly
  the ones after its acknowledged cursor, in order.
\<close>

definition durable_items :: "(envelope \<times> int) list \<Rightarrow> envelope list" where
  "durable_items xs = map fst (filter (\<lambda>x. \<not> is_ephemeral x) xs)"

lemma durable_items_simps [simp]:
  "durable_items [] = []" "durable_items (xs @ ys) = durable_items xs @ durable_items ys"
  "durable_items [x] = (if is_ephemeral x then [] else [fst x])"
  by (simp_all add: durable_items_def)

lemma durable_items_splice1:
  "i < length xs \<Longrightarrow> is_ephemeral (xs ! i) \<Longrightarrow> durable_items (splice1 i xs) = durable_items xs"
proof -
  assume i: "i < length xs" "is_ephemeral (xs ! i)"
  have "durable_items xs = durable_items (take i xs @ [xs ! i] @ drop (Suc i) xs)"
    using splice1_split [OF i(1)] by simp
  then show ?thesis using i(2) by (simp add: splice1_def del: append_Cons)
qed

definition sizes_ok :: "(envelope \<times> int) list \<Rightarrow> int \<Rightarrow> bool" where
  "sizes_ok xs bytes \<longleftrightarrow> bytes = sum_list (map snd xs) \<and> (\<forall>x \<in> set xs. 0 \<le> snd x)"

lemma evict_spec:
  assumes "evictEphemeralUntilFits C inc items bytes n = (items', bytes', n')"
    and "sizes_ok items bytes"
  shows "durable_items items' = durable_items items \<and> sizes_ok items' bytes'
    \<and> set items' \<subseteq> set items \<and> length items' \<le> length items \<and> bytes' \<le> bytes"
  using assms
proof (induction C inc items bytes n rule: evictEphemeralUntilFits.induct)
  case (1 C inc items bytes n)
  show ?case
  proof (cases "fits C inc items bytes \<or> find_index is_ephemeral items = None")
    case True
    then have "evictEphemeralUntilFits C inc items bytes n = (items, bytes, n)"
      by (subst evictEphemeralUntilFits.simps) (auto simp del: find_index_None)
    with 1(2,3) show ?thesis by simp
  next
    case False
    then obtain i where fit: "\<not> fits C inc items bytes" and i: "find_index is_ephemeral items = Some i"
      by (auto simp del: find_index_None)
    note at = find_index_SomeD [OF i]
    have rest: "evictEphemeralUntilFits C inc (splice1 i items) (bytes - snd (items ! i)) (Suc n)
        = (items', bytes', n')"
      using 1(2) fit i by (subst (asm) evictEphemeralUntilFits.simps) simp
    have nonneg: "0 \<le> snd (items ! i)" using at 1(3) by (simp add: sizes_ok_def)
    have "sizes_ok (splice1 i items) (bytes - snd (items ! i))"
      using at 1(3) set_splice1_subset [of i items]
      by (auto simp: sizes_ok_def sum_list_splice1)
    from 1(1) [OF fit i rest this] at nonneg durable_items_splice1 [of i items]
      set_splice1_subset [of i items]
    show ?thesis by auto
  qed
qed

definition buf_inv :: "buffer_config \<Rightarrow> event_buffer \<Rightarrow> bool" where
  "buf_inv C b \<longleftrightarrow> 0 < bc_maxItems C \<and> 0 < bc_maxBytes C
     \<and> sizes_ok (eb_items b) (eb_bytes b)
     \<and> int (length (eb_items b)) \<le> bc_maxItems C \<and> eb_bytes b \<le> bc_maxBytes C
     \<and> 0 \<le> eb_ack b \<and> eb_ack b \<le> eb_latest b
     \<and> (\<forall>x \<in> set (eb_items b). en_threadId (fst x) = bc_threadId C)
     \<and> (case eb_replay b of
          None \<Rightarrow> map en_seq (durable_items (eb_items b)) = [eb_ack b + 1 .. eb_latest b]
        | Some r \<Rightarrow> eb_items b = [] \<and> rr_cursor r = eb_ack b \<and> eb_latest b \<le> rr_latest r)"

lemma eventBytes_nonneg [simp]: "0 \<le> eventBytes E ev"
  by (simp add: eventBytes_def)

lemma new_buffer_inv: "new_buffer tid i y c = Inr (C, b) \<Longrightarrow> buf_inv C b"
  by (auto simp: new_buffer_def positive_option_def non_negative_option_def positive_safe_def
      non_negative_safe_def buf_inv_def sizes_ok_def split: sum.splits if_splits)

lemma requireReplay_inv:
  "buf_inv C b \<Longrightarrow> eb_replay b = None \<Longrightarrow> buf_inv C (snd (requireReplay reason n b))"
  by (auto simp: requireReplay_def Let_def buf_inv_def sizes_ok_def)

lemma merge_ephemeral:
  "canCoalesce l r \<Longrightarrow> en_durability (mergeDeltas l r) = Ephemeral
     \<and> en_threadId (mergeDeltas l r) = en_threadId r"
  by (auto simp: canCoalesce_def mergeDeltas_def split: option.splits prod.splits)

lemma offerEphemeral_inv:
  assumes inv: "buf_inv C b" and b: "eb_replay b = None"
    and ev: "en_durability ev = Ephemeral" "en_threadId ev = bc_threadId C"
  shows "buf_inv C (snd (offerEphemeral E C ev b))"
proof -
  have push: "buf_inv C (b\<lparr>eb_items := eb_items b @ [(ev, n)], eb_bytes := eb_bytes b + n\<rparr>)"
    if "fits C n (eb_items b) (eb_bytes b)" "0 \<le> n" for n
    using inv b ev that by (auto simp: buf_inv_def sizes_ok_def fits_def is_ephemeral_def)
  have swap: "buf_inv C (b\<lparr>eb_items := butlast (eb_items b)
        @ [(mergeDeltas (fst (last (eb_items b))) ev, n)],
      eb_bytes := eb_bytes b + (n - snd (last (eb_items b)))\<rparr>)"
    if ne: "eb_items b \<noteq> []" and co: "canCoalesce (fst (last (eb_items b))) ev"
      and small: "eb_bytes b - snd (last (eb_items b)) + n \<le> bc_maxBytes C" "0 \<le> n" for n
  proof -
    obtain xs x where xs: "eb_items b = xs @ [x]" using ne by (metis append_butlast_last_id)
    have eph: "is_ephemeral x" using co xs by (simp add: canCoalesce_def is_ephemeral_def)
    have "is_ephemeral (mergeDeltas (fst x) ev, n)" "en_threadId (mergeDeltas (fst x) ev) = bc_threadId C"
      using merge_ephemeral [OF co] xs ev by (simp_all add: is_ephemeral_def)
    with inv b xs eph small show ?thesis by (auto simp: buf_inv_def sizes_ok_def)
  qed
  show ?thesis
    using inv push swap by (auto simp: offerEphemeral_def Let_def)
qed

lemma offerDurable_inv:
  assumes inv: "buf_inv C b" and b: "eb_replay b = None"
    and ev: "en_durability ev = Durable" "en_threadId ev = bc_threadId C"
      "en_seq ev = eb_latest b + 1"
  shows "buf_inv C (snd (offerDurable E C ev b))"
proof -
  obtain items bytes n where evict: "evictEphemeralUntilFits C (eventBytes E ev) (eb_items b)
      (eb_bytes b) 0 = (items, bytes, n)" by (metis prod_cases3)
  have sizes: "sizes_ok (eb_items b) (eb_bytes b)" using inv by (simp add: buf_inv_def)
  note kept = evict_spec [OF evict sizes]
  let ?b = "b\<lparr>eb_items := items, eb_bytes := bytes\<rparr>"
  have inv': "buf_inv C ?b" using inv b kept by (auto simp: buf_inv_def)
  have push: "buf_inv C (?b\<lparr>eb_items := items @ [(ev, m)], eb_bytes := bytes + m,
      eb_latest := en_seq ev\<rparr>)" if "fits C m items bytes" "0 \<le> m" for m
    using inv' b ev that
    by (auto simp: buf_inv_def sizes_ok_def fits_def is_ephemeral_def upto_rec2)
  show ?thesis
    using requireReplay_inv [OF inv'] b push
    by (auto simp: offerDurable_def Let_def evict)
qed

lemma offer_inv:
  assumes "buf_inv C b"
  shows "buf_inv C (snd (offer E C ev b))"
proof (cases "assertRuntimeEventEnvelopeV1 (envelope_value ev) = [] \<and> en_threadId ev = bc_threadId C")
  case False
  then show ?thesis
    using assms by (auto simp: offer_def split: list.split)
next
  case True
  show ?thesis
  proof (cases "eb_replay b")
    case None
    have dur: "en_durability ev \<noteq> Ephemeral \<longleftrightarrow> en_durability ev = Durable"
      by (cases "en_durability ev") simp_all
    show ?thesis
      using True None assms offerEphemeral_inv [OF assms None] offerDurable_inv [OF assms None]
        requireReplay_inv [OF assms None] dur
      by (auto simp: offer_def Let_def case_prod_unfold)
  next
    case (Some r)
    with True assms show ?thesis by (auto simp: offer_def buf_inv_def Let_def)
  qed
qed

lemma upto_filter_greater:
  "a \<le> n \<Longrightarrow> n \<le> b \<Longrightarrow> filter (\<lambda>k. n < k) [a + 1 .. b] = [n + 1 .. b]" for a :: int
proof -
  assume "a \<le> n" "n \<le> b"
  then have "[a + 1 .. b] = [a + 1 .. n] @ [n + 1 .. b]"
    using upto_split2 [of "a + 1" n b] by (cases "a = n") simp_all
  then show ?thesis by (simp add: filter_empty_conv filter_id_conv)
qed

lemma acknowledgeThrough_inv:
  assumes "buf_inv C b"
  shows "buf_inv C (snd (acknowledgeThrough n b))"
proof (cases "non_negative_safe n \<and> eb_replay b = None \<and> eb_ack b \<le> n \<and> n \<le> eb_latest b")
  case False
  with assms show ?thesis
    by (auto simp: acknowledgeThrough_def non_negative_option_def not_less split: sum.split)
next
  case True
  let ?keep = "filter (\<lambda>x. \<not> en_seq (fst x) \<le> n) (eb_items b)"
  have sizes: "sizes_ok (eb_items b) (eb_bytes b)" using assms by (simp add: buf_inv_def)
  have "map en_seq (durable_items ?keep) = filter (\<lambda>k. n < k) (map en_seq (durable_items (eb_items b)))"
    by (simp add: durable_items_def filter_map comp_def conj_commute not_le)
  also have "\<dots> = [n + 1 .. eb_latest b]"
    using True assms by (simp add: buf_inv_def upto_filter_greater)
  finally have seqs: "map en_seq (durable_items ?keep) = [n + 1 .. eb_latest b]" .
  have "sum_list (map snd ?keep) \<le> eb_bytes b"
    using sum_list_filter_le [of "eb_items b" snd] sizes by (simp add: sizes_ok_def)
  moreover have "int (length ?keep) \<le> bc_maxItems C"
    using assms by (simp add: buf_inv_def int_length_filter)
  moreover have "sizes_ok ?keep (sum_list (map snd ?keep))" using sizes by (simp add: sizes_ok_def)
  ultimately have "buf_inv C (b\<lparr>eb_ack := n, eb_items := ?keep, eb_bytes := sum_list (map snd ?keep)\<rparr>)"
    using assms True seqs unfolding buf_inv_def by (simp add: non_negative_safe_def)
  with True show ?thesis
    by (simp add: acknowledgeThrough_def removeWhere_def Let_def non_negative_option_def)
qed

lemma resetAfterReplay_inv:
  "buf_inv C b \<Longrightarrow> buf_inv C (snd (resetAfterReplay n b))"
  by (auto simp: resetAfterReplay_def non_negative_option_def non_negative_safe_def buf_inv_def
      sizes_ok_def split: sum.split option.split)


subsection \<open>Runs\<close>

datatype buffer_op = BufOffer envelope | BufAck int | BufReset int

fun buffer_step :: "js_env \<Rightarrow> buffer_config \<Rightarrow> buffer_op \<Rightarrow> event_buffer \<Rightarrow> event_buffer" where
  "buffer_step E C (BufOffer ev) b = snd (offer E C ev b)"
| "buffer_step E C (BufAck n) b = snd (acknowledgeThrough n b)"
| "buffer_step E C (BufReset n) b = snd (resetAfterReplay n b)"

lemma buffer_step_inv: "buf_inv C b \<Longrightarrow> buf_inv C (buffer_step E C x b)"
  by (cases x) (simp_all add: offer_inv acknowledgeThrough_inv resetAfterReplay_inv)

lemma offer_latest_mono:
  assumes "buf_inv C b" shows "eb_ack b \<le> eb_ack (buffer_step E C x b)"
proof (cases x)
  case (BufOffer ev)
  have "eb_ack (snd (offerDurable E C ev b)) = eb_ack b" for ev
    by (simp add: offerDurable_def requireReplay_def Let_def case_prod_unfold)
  with BufOffer show ?thesis
    by (auto simp: offer_def offerEphemeral_def requireReplay_def Let_def case_prod_unfold
        split: list.split option.split)
next
  case (BufAck n)
  then show ?thesis
    by (auto simp: acknowledgeThrough_def removeWhere_def Let_def split: sum.split)
next
  case (BufReset n)
  with assms show ?thesis
    by (auto simp: resetAfterReplay_def buf_inv_def split: sum.split option.split)
qed

interpretation buffer_runs: monotone_component "buffer_step E C" "buf_inv C" eb_ack
  by unfold_locales (auto simp: buffer_step_inv offer_latest_mono)

text \<open>The durable events a run offers.\<close>

definition offered :: "buffer_op list \<Rightarrow> envelope set" where
  "offered ops = {ev. BufOffer ev \<in> set ops \<and> en_durability ev = Durable}"

lemma evict_subset:
  "evictEphemeralUntilFits C inc items bytes n = (items', bytes', n') \<Longrightarrow> sizes_ok items bytes \<Longrightarrow>
     durable_items items' = durable_items items"
  using evict_spec by blast

lemma durable_butlast: "set (durable_items (butlast xs)) \<subseteq> set (durable_items xs)"
  by (auto simp: durable_items_def dest: in_set_butlastD)

lemma buffer_step_content:
  assumes "buf_inv C b"
  shows "set (durable_items (eb_items (buffer_step E C x b)))
    \<subseteq> set (durable_items (eb_items b)) \<union> offered [x]"
proof (cases x)
  case (BufOffer ev)
  have sizes: "sizes_ok (eb_items b) (eb_bytes b)" using assms by (simp add: buf_inv_def)
  obtain items bytes n where evict: "evictEphemeralUntilFits C (eventBytes E ev) (eb_items b)
      (eb_bytes b) 0 = (items, bytes, n)" by (metis prod_cases3)
  have dur: "set (durable_items (eb_items (snd (offerDurable E C ev b))))
      \<subseteq> set (durable_items (eb_items b)) \<union> {ev}"
    using evict_subset [OF evict sizes]
    by (auto simp: offerDurable_def evict requireReplay_def Let_def)
  have eph: "set (durable_items (eb_items (snd (offerEphemeral E C ev b))))
      \<subseteq> set (durable_items (eb_items b))" if "en_durability ev = Ephemeral"
    using that durable_butlast [of "eb_items b"] merge_ephemeral
    by (auto simp: offerEphemeral_def Let_def is_ephemeral_def)
  have "en_durability ev \<noteq> Ephemeral \<longleftrightarrow> en_durability ev = Durable"
    by (cases "en_durability ev") simp_all
  with dur eph BufOffer show ?thesis
    by (auto simp: offer_def requireReplay_def Let_def case_prod_unfold offered_def
        split: list.splits option.splits if_splits)
next
  case (BufAck n)
  then show ?thesis
    by (auto simp: acknowledgeThrough_def removeWhere_def Let_def durable_items_def
        split: sum.splits if_splits)
next
  case (BufReset n)
  then show ?thesis
    by (auto simp: resetAfterReplay_def split: sum.splits option.splits if_splits)
qed

lemma buffer_run_content:
  "buf_inv C b \<Longrightarrow> set (durable_items (eb_items (run (buffer_step E C) ops b)))
     \<subseteq> set (durable_items (eb_items b)) \<union> offered ops"
proof (induction ops arbitrary: b)
  case Nil
  then show ?case by simp
next
  case (Cons x ops)
  have "offered (x # ops) = offered [x] \<union> offered ops" by (auto simp: offered_def)
  with Cons.IH [OF buffer_step_inv [OF Cons.prems]] buffer_step_content [OF Cons.prems]
  show ?case by fastforce
qed


text \<open>The acknowledged cursor of a consumer never moves back.\<close>

lemma acknowledged_cursor_monotone:
  assumes "new_buffer tid i y c = Inr (C, b0)"
  shows "eb_ack b0 \<le> eb_ack (run (buffer_step E C) ops b0)"
  by (rule buffer_runs.run_mono) (rule new_buffer_inv [OF assms])

lemma buffer_example:
  "\<exists>C b0. new_buffer [] (Some 2) (Some 9) (Some 3) = Inr (C, b0)"
  by (simp add: new_buffer_def positive_option_def non_negative_option_def positive_safe_def
      non_negative_safe_def is_safe_integer_def)

definition example_event :: "int \<Rightarrow> envelope" where
  "example_event n = \<lparr>en_eventId = js ''00000000-0000-4000-8000-000000000001'', en_seq = n,
     en_threadId = js ''00000000-0000-4000-8000-000000000002'', en_turnId = None,
     en_stepId = None, en_itemId = None, en_durability = Durable, en_timestamp = 0,
     en_payload = ThreadStarted None\<rparr>"


lemma acknowledged_cursor_monotone_example:
  "\<exists>C b0. new_buffer [] (Some 2) (Some 9) (Some 3) = Inr (C, b0)
     \<and> eb_ack b0 \<le> eb_ack (run (buffer_step first_key_env C)
          [BufOffer (example_event 4), BufAck 4] b0)"
proof -
  obtain C b0 where new: "new_buffer [] (Some 2) (Some 9) (Some 3) = Inr (C, b0)"
    using buffer_example by blast
  from acknowledged_cursor_monotone [OF new] new show ?thesis by blast
qed

end
