(* ===== verification/CircuitBreaker.thy ===== *)
theory CircuitBreaker
  imports OrionPrelude
begin

section \<open>The provider circuit breaker\<close>

text \<open>
  Models \<open>ProviderCircuitBreaker\<close> of
  \<open>src/src/services/provider-resilience/circuit-breaker.ts\<close>. Every reading of \<open>Date.now()\<close>
  is an argument, in the order the method makes them.
\<close>

datatype circuit_state = Closed | Open | HalfOpen

record breaker_config =
  failureThreshold :: int
  windowMs :: int
  cooldownMs :: int

definition default_breaker_config :: breaker_config where
  "default_breaker_config = \<lparr>failureThreshold = 5, windowMs = 60000, cooldownMs = 30000\<rparr>"

record breaker =
  cb_state :: circuit_state
  cb_failures :: "int list"
  cb_openedAt :: int
  cb_probeActive :: bool

definition new_breaker :: breaker where
  "new_breaker = \<lparr>cb_state = Closed, cb_failures = [], cb_openedAt = 0, cb_probeActive = False\<rparr>"

definition cooldownUntil :: "breaker_config \<Rightarrow> breaker \<Rightarrow> int" where
  "cooldownUntil C b = cb_openedAt b + cooldownMs C"

definition pruneFailures :: "breaker_config \<Rightarrow> int \<Rightarrow> breaker \<Rightarrow> breaker" where
  "pruneFailures C now b = b\<lparr>cb_failures := filter (\<lambda>t. t > now - windowMs C) (cb_failures b)\<rparr>"

definition allowRequest :: "breaker_config \<Rightarrow> int \<Rightarrow> int \<Rightarrow> breaker \<Rightarrow> bool \<times> breaker" where
  "allowRequest C now1 now2 b0 =
     (let b = pruneFailures C now1 b0 in
      case cb_state b of
        Closed \<Rightarrow> (True, b)
      | Open \<Rightarrow>
          if now2 \<ge> cooldownUntil C b
          then (True, b\<lparr>cb_state := HalfOpen, cb_probeActive := True\<rparr>)
          else (False, b)
      | HalfOpen \<Rightarrow>
          if cb_probeActive b then (False, b) else (True, b\<lparr>cb_probeActive := True\<rparr>))"

definition recordSuccess :: "breaker_config \<Rightarrow> int \<Rightarrow> breaker \<Rightarrow> breaker" where
  "recordSuccess C now b =
     pruneFailures C now
       (if cb_state b = HalfOpen
        then b\<lparr>cb_state := Closed, cb_probeActive := False, cb_failures := []\<rparr> else b)"

definition recordFailure :: "breaker_config \<Rightarrow> int \<Rightarrow> int \<Rightarrow> int \<Rightarrow> breaker \<Rightarrow> breaker" where
  "recordFailure C now1 now2 now3 b0 =
     (let b = pruneFailures C now1 b0; b' = b\<lparr>cb_failures := cb_failures b @ [now2]\<rparr> in
      if cb_state b' = HalfOpen \<or> int (length (cb_failures b')) \<ge> failureThreshold C
      then b'\<lparr>cb_state := Open, cb_openedAt := now3, cb_probeActive := False\<rparr>
      else b')"

definition reset_breaker :: "breaker \<Rightarrow> breaker" where
  "reset_breaker b = b\<lparr>cb_state := Closed, cb_failures := [], cb_probeActive := False\<rparr>"

subsection \<open>Runs\<close>

datatype breaker_op =
    BrAllow int int
  | BrSuccess int
  | BrFailure int int int
  | BrReset

fun breaker_step :: "breaker_config \<Rightarrow> breaker_op \<Rightarrow> breaker \<Rightarrow> breaker" where
  "breaker_step C (BrAllow n m) b = snd (allowRequest C n m b)"
| "breaker_step C (BrSuccess n) b = recordSuccess C n b"
| "breaker_step C (BrFailure n m k) b = recordFailure C n m k b"
| "breaker_step C BrReset b = reset_breaker b"

lemmas breaker_ops = allowRequest_def recordSuccess_def recordFailure_def reset_breaker_def
  pruneFailures_def cooldownUntil_def

definition breaker_inv :: "breaker_config \<Rightarrow> breaker \<Rightarrow> bool" where
  "breaker_inv C b \<longleftrightarrow> 0 < failureThreshold C
     \<and> (cb_state b = Closed \<longrightarrow> int (length (cb_failures b)) < failureThreshold C)
     \<and> (cb_state b = HalfOpen \<longleftrightarrow> cb_probeActive b)"

lemma breaker_inv_new: "0 < failureThreshold C \<Longrightarrow> breaker_inv C new_breaker"
  by (simp add: breaker_inv_def new_breaker_def)

lemma length_filter_less: "int (length xs) < n \<Longrightarrow> int (length (filter P xs)) < n"
  using length_filter_le [of P xs] by linarith

lemma breaker_step_inv: "breaker_inv C b \<Longrightarrow> breaker_inv C (breaker_step C x b)"
  by (cases x; cases "cb_state b")
    (auto simp: breaker_inv_def breaker_ops Let_def length_filter_less split: if_splits)

interpretation breaker_runs: component "breaker_step C" "breaker_inv C"
  by unfold_locales (rule breaker_step_inv)

text \<open>From a new breaker with a positive threshold, whatever is asked and
  reported at whatever times, a closed breaker has recorded fewer failures than the threshold,
  and it is half open exactly while a probe is under way; so while it is half open every
  further request is refused, and so is every request of an open one before its cooldown
  ends.\<close>

lemma breaker_blocks:
  assumes "0 < failureThreshold C" and "b = run (breaker_step C) ops new_breaker"
  shows "(cb_state b = Closed \<longrightarrow> int (length (cb_failures b)) < failureThreshold C)
    \<and> (cb_state b = HalfOpen \<longrightarrow> \<not> fst (allowRequest C n m b))
    \<and> (cb_state b = Open \<longrightarrow> fst (allowRequest C n m b) = (cb_openedAt b + cooldownMs C \<le> m))"
proof -
  have "breaker_inv C b"
    unfolding assms(2) by (rule breaker_runs.run_inv) (rule breaker_inv_new [OF assms(1)])
  then show ?thesis by (auto simp: breaker_inv_def allowRequest_def pruneFailures_def
      cooldownUntil_def Let_def)
qed

text \<open>A failure reported to a closed breaker opens it exactly when, with it, the
  failures inside the window reach the threshold.\<close>

lemma failure_trips_at_threshold:
  assumes "cb_state b = Closed"
  shows "cb_state (recordFailure C n m k b) = Open \<longleftrightarrow>
    failureThreshold C \<le> int (length (filter (\<lambda>t. n - windowMs C < t) (cb_failures b))) + 1"
  using assms by (auto simp: recordFailure_def pruneFailures_def Let_def)

text \<open>Once a cooled-down breaker lets a probe through, it refuses every later request
  until the probe reports or the breaker is reset, for as long as that takes: a probe that never
  reports leaves the provider blocked.\<close>

lemma silent_probe_blocks_forever:
  assumes "cb_state b = Open" "cb_openedAt b + cooldownMs C \<le> m"
    and "\<forall>x \<in> set ops. \<exists>n' m'. x = BrAllow n' m'"
  shows "fst (allowRequest C n m b)
    \<and> \<not> fst (allowRequest C n'' m'' (run (breaker_step C) ops (snd (allowRequest C n m b))))"
proof -
  have keep: "cb_state (run (breaker_step C) ops s) = HalfOpen
      \<and> cb_probeActive (run (breaker_step C) ops s)"
    if "cb_state s = HalfOpen" "cb_probeActive s" for s
    using that assms(3)
  proof (induction ops arbitrary: s)
    case Nil
    then show ?case by simp
  next
    case (Cons x ops)
    then show ?case by (force simp: allowRequest_def pruneFailures_def Let_def)
  qed
  have "cb_state (snd (allowRequest C n m b)) = HalfOpen"
    "cb_probeActive (snd (allowRequest C n m b))" "fst (allowRequest C n m b)"
    using assms(1,2) by (auto simp: allowRequest_def pruneFailures_def cooldownUntil_def Let_def)
  with keep [OF this(1,2)] show ?thesis
    by (auto simp: allowRequest_def [of C n''] pruneFailures_def Let_def)
qed

definition tripped :: breaker where
  "tripped = run (breaker_step default_breaker_config) (map (\<lambda>t. BrFailure t t t) [1..5]) new_breaker"

lemma breaker_blocks_example:
  "cb_state tripped = Open \<and> \<not> fst (allowRequest default_breaker_config 9 9 tripped)"
proof -
  have "cb_state tripped = Open" "cb_openedAt tripped = 5" by code_simp+
  with breaker_blocks [OF _ tripped_def, of 9 9] show ?thesis
    by (simp add: default_breaker_config_def)
qed

lemma failure_trips_at_threshold_example:
  "cb_state (recordFailure default_breaker_config 5 5 5
     (new_breaker\<lparr>cb_failures := [1, 2, 3, 4]\<rparr>)) = Open"
  using failure_trips_at_threshold
    [of "new_breaker\<lparr>cb_failures := [1, 2, 3, 4]\<rparr>" default_breaker_config 5 5 5]
  by (simp add: new_breaker_def default_breaker_config_def)

lemma silent_probe_blocks_forever_example:
  "\<not> fst (allowRequest default_breaker_config 99999999 99999999
     (run (breaker_step default_breaker_config) [BrAllow 40000 40000]
        (snd (allowRequest default_breaker_config 30005 30005 tripped))))"
proof -
  have "cb_state tripped = Open" "cb_openedAt tripped = 5" by code_simp+
  with silent_probe_blocks_forever [of tripped default_breaker_config 30005
      "[BrAllow 40000 40000]" 30005 99999999 99999999]
  show ?thesis by (simp add: default_breaker_config_def)
qed

end
