(* ===== verification/RequestGate.thy ===== *)
theory RequestGate
  imports Complex_Main OrionPrelude "HOL-Library.AList"
begin

section \<open>The provider request gate\<close>

text \<open>
  Models \<open>ProviderRequestGate\<close> of \<open>src/src/services/provider-resilience/request-gate.ts\<close>:
  the shared concurrency limit, the priority queue of waiters, the cooldown of each provider and
  the wake timer. A \<open>Map\<close> is an association list in insertion order (\<open>AList.update\<close> is
  \<open>Map.set\<close>). A promise is a number; \<open>g_open\<close> holds the leases whose closure variable
  \<open>released\<close> is still false, \<open>g_rejected\<close> the promises rejected by an abort. The readings of
  \<open>Date.now()\<close> are arguments. The timer is its due time and the time it is set to fire.
\<close>

record gate_request =
  gr_priority :: int
  gr_provider :: jsstr
  gr_aborted :: bool

record gate_waiter =
  gw_id :: nat
  gw_priority :: int
  gw_provider :: jsstr

record request_gate =
  g_max :: nat
  g_active :: nat
  g_byProvider :: "(jsstr \<times> nat) list"
  g_waiters :: "gate_waiter list"
  g_cooldowns :: "(jsstr \<times> int \<times> jsstr) list"
  g_timer :: "(int \<times> int) option"
  g_next :: nat
  g_open :: "(nat \<times> jsstr) list"
  g_rejected :: "nat list"

record gate_snapshot =
  gs_activeCount :: nat
  gs_waitingCount :: nat
  gs_cooldown :: "(int \<times> jsstr) option"

text \<open>\<open>Number(maxConcurrent ?? 6)\<close>, where \<open>None\<close> is an option left out and the inner
  \<open>None\<close> a number that is not finite.\<close>

definition new_gate :: "rat option option \<Rightarrow> request_gate" where
  "new_gate configured =
     \<lparr>g_max = (case configured of
          None \<Rightarrow> 6
        | Some None \<Rightarrow> 1
        | Some (Some q) \<Rightarrow> if 1 \<le> q then nat \<lfloor>q\<rfloor> else 1),
      g_active = 0, g_byProvider = [], g_waiters = [], g_cooldowns = [], g_timer = None,
      g_next = 0, g_open = [], g_rejected = []\<rparr>"

definition clearExpiredCooldowns :: "int \<Rightarrow> request_gate \<Rightarrow> request_gate" where
  "clearExpiredCooldowns now g =
     g\<lparr>g_cooldowns := filter (\<lambda>(k, until, reason). \<not> until \<le> now) (g_cooldowns g)\<rparr>"

definition scheduleCooldownWake :: "int \<Rightarrow> request_gate \<Rightarrow> request_gate" where
  "scheduleCooldownWake now g =
     (let waitingKeys = remdups (map gw_provider (g_waiters g));
          untils = map fst (List.map_filter (map_of (g_cooldowns g)) waitingKeys) in
      case sort untils of
        [] \<Rightarrow> g\<lparr>g_timer := None\<rparr>
      | earliest # _ \<Rightarrow>
          if g_active g \<ge> g_max g then g
          else if (case g_timer g of None \<Rightarrow> False | Some (due, _) \<Rightarrow> due \<le> earliest) then g
          else g\<lparr>g_timer := Some (earliest, now + max 0 (earliest - now) + 1)\<rparr>)"

text \<open>One pass of the dispatch loop's body: the waiter leaves the queue and gets a lease.\<close>

definition grant :: "nat \<Rightarrow> request_gate \<Rightarrow> request_gate" where
  "grant i g =
     (let next = g_waiters g ! i; k = gw_provider next;
          n = (case map_of (g_byProvider g) k of None \<Rightarrow> 0 | Some n \<Rightarrow> n) in
      g\<lparr>g_waiters := splice1 i (g_waiters g),
        g_active := g_active g + 1,
        g_byProvider := AList.update k (n + 1) (g_byProvider g),
        g_open := g_open g @ [(gw_id next, k)]\<rparr>)"

definition eligible :: "request_gate \<Rightarrow> gate_waiter \<Rightarrow> bool" where
  "eligible g w \<longleftrightarrow> map_of (g_cooldowns g) (gw_provider w) = None"

function dispatch_loop :: "request_gate \<Rightarrow> request_gate" where
  "dispatch_loop g =
     (if g_waiters g \<noteq> [] \<and> g_active g < g_max g
      then (case find_index (eligible g) (g_waiters g) of
              None \<Rightarrow> g
            | Some i \<Rightarrow> dispatch_loop (grant i g))
      else g)"
  by pat_completeness auto
termination
  by (relation "measure (length \<circ> g_waiters)")
     (auto simp: grant_def Let_def dest!: find_index_SomeD)

lemmas [simp del] = dispatch_loop.simps

definition tryDispatch :: "int \<Rightarrow> int \<Rightarrow> request_gate \<Rightarrow> request_gate" where
  "tryDispatch now1 now2 g =
     scheduleCooldownWake now2 (dispatch_loop (clearExpiredCooldowns now1 g))"

definition gate_acquire :: "int \<Rightarrow> int \<Rightarrow> gate_request \<Rightarrow> request_gate \<Rightarrow> request_gate" where
  "gate_acquire now1 now2 r g =
     (if gr_aborted r
      then g\<lparr>g_rejected := g_rejected g @ [g_next g], g_next := g_next g + 1\<rparr>
      else tryDispatch now1 now2
        (g\<lparr>g_waiters := sort_key gw_priority (g_waiters g @
             [\<lparr>gw_id = g_next g, gw_priority = gr_priority r, gw_provider = gr_provider r\<rparr>]),
           g_next := g_next g + 1\<rparr>))"

definition gate_abort :: "int \<Rightarrow> int \<Rightarrow> nat \<Rightarrow> request_gate \<Rightarrow> request_gate" where
  "gate_abort now1 now2 n g =
     (case find_index (\<lambda>w. gw_id w = n) (g_waiters g) of
        None \<Rightarrow> g
      | Some i \<Rightarrow> tryDispatch now1 now2
          (g\<lparr>g_waiters := splice1 i (g_waiters g), g_rejected := g_rejected g @ [n]\<rparr>))"

definition enterCooldown ::
  "int \<Rightarrow> int \<Rightarrow> jsstr \<Rightarrow> int \<Rightarrow> jsstr \<Rightarrow> request_gate \<Rightarrow> request_gate" where
  "enterCooldown now1 now2 k until reason g =
     (if (case map_of (g_cooldowns g) k of None \<Rightarrow> True | Some (u, _) \<Rightarrow> until > u)
      then tryDispatch now1 now2
             (g\<lparr>g_cooldowns := AList.update k (until, reason) (g_cooldowns g)\<rparr>)
      else g)"

definition gate_release :: "int \<Rightarrow> int \<Rightarrow> nat \<Rightarrow> request_gate \<Rightarrow> request_gate" where
  "gate_release now1 now2 n g =
     (case find_index (\<lambda>l. fst l = n) (g_open g) of
        None \<Rightarrow> g
      | Some i \<Rightarrow>
          (let k = snd (g_open g ! i);
               left = (case map_of (g_byProvider g) k of None \<Rightarrow> 1 | Some m \<Rightarrow> m) - 1 in
           tryDispatch now1 now2
             (g\<lparr>g_open := splice1 i (g_open g),
                g_active := g_active g - 1,
                g_byProvider := (if left = 0 then AList.delete k (g_byProvider g)
                                 else AList.update k left (g_byProvider g))\<rparr>)))"

text \<open>The callback of the wake timer.\<close>

definition gate_wake :: "int \<Rightarrow> int \<Rightarrow> request_gate \<Rightarrow> request_gate" where
  "gate_wake now1 now2 g = tryDispatch now1 now2 (g\<lparr>g_timer := None\<rparr>)"

definition gate_snapshot_of :: "int \<Rightarrow> jsstr option \<Rightarrow> request_gate \<Rightarrow> gate_snapshot \<times> request_gate" where
  "gate_snapshot_of now key g0 =
     (let g = clearExpiredCooldowns now g0 in
      (if truthy key
       then \<lparr>gs_activeCount = (case map_of (g_byProvider g) (the key) of None \<Rightarrow> 0 | Some n \<Rightarrow> n),
             gs_waitingCount = length (filter (\<lambda>w. gw_provider w = the key) (g_waiters g)),
             gs_cooldown = map_of (g_cooldowns g) (the key)\<rparr>
       else \<lparr>gs_activeCount = g_active g,
             gs_waitingCount = length (g_waiters g),
             gs_cooldown = (case sort_key (\<lambda>(until, _). - until) (map snd (g_cooldowns g)) of
                [] \<Rightarrow> None | c # _ \<Rightarrow> Some c)\<rparr>, g))"

subsection \<open>The steps of the gate, with the clock\<close>

inductive gate_step :: "int \<times> request_gate \<Rightarrow> int \<times> request_gate \<Rightarrow> bool" where
  acquire: "t \<le> a \<Longrightarrow> a \<le> b \<Longrightarrow> gate_step (t, g) (b, gate_acquire a b r g)"
| abort: "t \<le> a \<Longrightarrow> a \<le> b \<Longrightarrow> gate_step (t, g) (b, gate_abort a b n g)"
| cooldown: "t \<le> a \<Longrightarrow> a \<le> b \<Longrightarrow> gate_step (t, g) (b, enterCooldown a b k until why g)"
| release: "t \<le> a \<Longrightarrow> a \<le> b \<Longrightarrow> gate_step (t, g) (b, gate_release a b n g)"
| wake: "t \<le> a \<Longrightarrow> a \<le> b \<Longrightarrow> gate_step (t, g) (b, gate_wake a b g)"
| observe: "t \<le> a \<Longrightarrow> gate_step (t, g) (a, snd (gate_snapshot_of a key g))"

inductive_cases gate_step_elims: "gate_step s s'"

inductive gate_reach :: "rat option option \<Rightarrow> int \<times> request_gate \<Rightarrow> bool" for configured where
  init: "gate_reach configured (t, new_gate configured)"
| step: "gate_reach configured s \<Longrightarrow> gate_step s s' \<Longrightarrow> gate_reach configured s'"

end
