(* ===== verification/GateProperties.thy ===== *)
theory GateProperties
  imports RequestGate "HOL-Library.Multiset"
begin

section \<open>Properties of the request gate\<close>

text \<open>
  The invariant of the gate (accounting of leases, order of the queue, a wake timer whenever a
  request waits beside a free slot), kept by every step; the dispatch loop against a one-pass
  reference.
\<close>

subsection \<open>The reference of the dispatch loop\<close>

text \<open>The first \<open>n\<close> entries that satisfy \<open>P\<close>, and the others, both in order.\<close>

fun take_ready :: "('a \<Rightarrow> bool) \<Rightarrow> nat \<Rightarrow> 'a list \<Rightarrow> 'a list \<times> 'a list" where
  "take_ready P n [] = ([], [])"
| "take_ready P n (x # xs) =
     (if 0 < n \<and> P x then (x # fst (take_ready P (n - 1) xs), snd (take_ready P (n - 1) xs))
      else (fst (take_ready P n xs), x # snd (take_ready P n xs)))"

lemma take_ready_zero [simp]: "take_ready P 0 xs = ([], xs)"
  by (induction xs) auto

lemma take_ready_none: "\<forall>x \<in> set xs. \<not> P x \<Longrightarrow> take_ready P n xs = ([], xs)"
  by (induction xs) auto

lemma take_ready_some:
  "find_index P xs = Some i \<Longrightarrow> 0 < n \<Longrightarrow>
   take_ready P n xs = (xs ! i # fst (take_ready P (n - 1) (splice1 i xs)),
                        snd (take_ready P (n - 1) (splice1 i xs)))"
proof (induction xs arbitrary: i)
  case (Cons x xs)
  show ?case
  proof (cases "P x")
    case True
    then show ?thesis using Cons.prems by (simp add: splice1_def)
  next
    case False
    then obtain j where "find_index P xs = Some j" "i = Suc j"
      using Cons.prems(1) by (auto split: option.splits)
    then show ?thesis using Cons.IH [of j] Cons.prems(2) False by (simp add: splice1_def)
  qed
qed simp

lemma take_ready_rest: "set (snd (take_ready P n xs)) \<subseteq> set xs"
  by (induction xs arbitrary: n) auto

lemma take_ready_exhausted:
  "length (fst (take_ready P n xs)) < n \<Longrightarrow> x \<in> set (snd (take_ready P n xs)) \<Longrightarrow> \<not> P x"
proof (induction xs arbitrary: n)
  case (Cons y ys)
  then show ?case by (cases n) (auto split: if_splits)
qed simp

lemma take_ready_bound: "length (fst (take_ready P n xs)) \<le> n"
proof (induction xs arbitrary: n)
  case (Cons y ys)
  then show ?case by (cases n) auto
qed simp

lemma take_ready_mset:
  "mset (map f (fst (take_ready P n xs))) + mset (map f (snd (take_ready P n xs))) = mset (map f xs)"
  by (induction xs arbitrary: n) auto

lemma take_ready_sorted: "sorted (map f xs) \<Longrightarrow> sorted (map f (snd (take_ready P n xs)))"
proof (induction xs arbitrary: n)
  case (Cons x xs)
  then show ?case using take_ready_rest [of P n xs] by (auto simp: subset_iff)
qed simp

subsection \<open>What the dispatch loop does\<close>

definition lease_of :: "gate_waiter \<Rightarrow> nat \<times> jsstr" where
  "lease_of w = (gw_id w, gw_provider w)"

definition ready_split :: "request_gate \<Rightarrow> gate_waiter list \<times> gate_waiter list" where
  "ready_split g = take_ready (eligible g) (g_max g - g_active g) (g_waiters g)"

lemma grant_fields [simp]:
  "g_max (grant i g) = g_max g" "g_active (grant i g) = g_active g + 1"
  "g_waiters (grant i g) = splice1 i (g_waiters g)" "g_cooldowns (grant i g) = g_cooldowns g"
  "g_timer (grant i g) = g_timer g" "g_next (grant i g) = g_next g"
  "g_open (grant i g) = g_open g @ [lease_of (g_waiters g ! i)]"
  "g_rejected (grant i g) = g_rejected g"
  by (simp_all add: grant_def Let_def lease_of_def)

lemma eligible_grant [simp]: "eligible (grant i g) = eligible g"
  by (simp add: eligible_def fun_eq_iff)

lemma dispatch_loop_spec:
  "g_max (dispatch_loop g) = g_max g \<and> g_cooldowns (dispatch_loop g) = g_cooldowns g
   \<and> g_timer (dispatch_loop g) = g_timer g \<and> g_next (dispatch_loop g) = g_next g
   \<and> g_rejected (dispatch_loop g) = g_rejected g
   \<and> g_open (dispatch_loop g) = g_open g @ map lease_of (fst (ready_split g))
   \<and> g_waiters (dispatch_loop g) = snd (ready_split g)
   \<and> g_active (dispatch_loop g) = g_active g + length (fst (ready_split g))"
proof (induction g rule: dispatch_loop.induct)
  case (1 g)
  show ?case
  proof (cases "g_waiters g \<noteq> [] \<and> g_active g < g_max g")
    case False
    then show ?thesis by (auto simp: dispatch_loop.simps [of g] ready_split_def)
  next
    case open_slot: True
    show ?thesis
    proof (cases "find_index (eligible g) (g_waiters g)")
      case None
      then have "dispatch_loop g = g" by (subst dispatch_loop.simps) (simp only: option.case if_cancel)
      then show ?thesis
        using None take_ready_none [of "g_waiters g" "eligible g"] by (simp add: ready_split_def)
    next
      case (Some i)
      have "ready_split g = (g_waiters g ! i # fst (ready_split (grant i g)),
                             snd (ready_split (grant i g)))"
        using take_ready_some [OF Some, of "g_max g - g_active g"] open_slot
        by (simp add: ready_split_def)
      then show ?thesis
        using 1 open_slot Some by (simp add: dispatch_loop.simps [of g])
    qed
  qed
qed

subsection \<open>The invariant\<close>

definition lease_count :: "jsstr \<Rightarrow> (nat \<times> jsstr) list \<Rightarrow> nat" where
  "lease_count k ls = length (filter (\<lambda>l. snd l = k) ls)"

definition provider_entry :: "jsstr \<Rightarrow> (nat \<times> jsstr) list \<Rightarrow> nat option" where
  "provider_entry k ls = (if lease_count k ls = 0 then None else Some (lease_count k ls))"

definition leases_ok :: "request_gate \<Rightarrow> bool" where
  "leases_ok g \<longleftrightarrow> 1 \<le> g_max g \<and> g_active g = length (g_open g) \<and> g_active g \<le> g_max g
     \<and> (\<forall>k. map_of (g_byProvider g) k = provider_entry k (g_open g))"

definition promises :: "request_gate \<Rightarrow> nat list" where
  "promises g = map gw_id (g_waiters g) @ map fst (g_open g)"

definition queue_ok :: "request_gate \<Rightarrow> bool" where
  "queue_ok g \<longleftrightarrow> sorted (map gw_priority (g_waiters g)) \<and> distinct (promises g)
     \<and> (\<forall>n \<in> set (promises g). n < g_next g)"

text \<open>A request that waits beside a free slot has a timer that is due no later than its
  provider's cooldown, or is due already.\<close>

definition wake_ok :: "int \<Rightarrow> request_gate \<Rightarrow> bool" where
  "wake_ok t g \<longleftrightarrow> g_active g = g_max g \<or> g_waiters g = []
     \<or> (\<exists>due fire. g_timer g = Some (due, fire)
         \<and> (\<forall>w \<in> set (g_waiters g). case map_of (g_cooldowns g) (gw_provider w) of
              None \<Rightarrow> due \<le> t | Some (until, _) \<Rightarrow> due \<le> until))"

definition timer_ok :: "int \<Rightarrow> request_gate \<Rightarrow> bool" where
  "timer_ok t g \<longleftrightarrow> (case g_timer g of None \<Rightarrow> True | Some (due, fire) \<Rightarrow> fire \<le> max due t + 1)"

definition gate_inv :: "int \<times> request_gate \<Rightarrow> bool" where
  "gate_inv s \<longleftrightarrow> leases_ok (snd s) \<and> queue_ok (snd s) \<and> wake_ok (fst s) (snd s)
     \<and> timer_ok (fst s) (snd s) \<and> distinct (map fst (g_cooldowns (snd s)))"

lemma lease_count_simps [simp]:
  "lease_count k [] = 0"
  "lease_count k (ls @ [l]) = lease_count k ls + (if snd l = k then 1 else 0)"
  by (simp_all add: lease_count_def)

lemma lease_count_splice1:
  "i < length ls \<Longrightarrow>
   lease_count k ls = lease_count k (splice1 i ls) + (if snd (ls ! i) = k then 1 else 0)"
proof -
  assume "i < length ls"
  then have "ls = take i ls @ ls ! i # drop (Suc i) ls" by (simp add: id_take_nth_drop)
  then have "lease_count k ls = lease_count k (take i ls @ ls ! i # drop (Suc i) ls)" by simp
  then show ?thesis by (simp add: lease_count_def splice1_def)
qed

lemma provider_entry_snoc:
  "provider_entry k (ls @ [l])
     = (if snd l = k then Some (lease_count k ls + 1) else provider_entry k ls)"
  by (simp add: provider_entry_def)

lemma leases_ok_grant:
  "leases_ok g \<Longrightarrow> g_active g < g_max g \<Longrightarrow> leases_ok (grant i g)"
  unfolding leases_ok_def
  by (auto simp: grant_def Let_def update_conv' provider_entry_snoc)
     (auto simp: provider_entry_def)

lemma leases_ok_loop: "leases_ok g \<Longrightarrow> leases_ok (dispatch_loop g)"
proof (induction g rule: dispatch_loop.induct)
  case (1 g)
  then show ?case
    by (subst dispatch_loop.simps) (auto split: option.split intro: leases_ok_grant)
qed

lemma leases_ok_cong:
  "g_max g' = g_max g \<Longrightarrow> g_active g' = g_active g \<Longrightarrow> g_open g' = g_open g \<Longrightarrow>
   g_byProvider g' = g_byProvider g \<Longrightarrow> leases_ok g' = leases_ok g"
  by (simp add: leases_ok_def)

lemma map_splice_lease: "map fst (map lease_of ws) = map gw_id ws"
  by (simp add: lease_of_def)

lemma queue_ok_loop: "queue_ok g \<Longrightarrow> queue_ok (dispatch_loop g)"
proof -
  assume q: "queue_ok g"
  have ids: "map (fst \<circ> lease_of) ws = map gw_id ws" for ws by (simp add: lease_of_def)
  have "mset (promises (dispatch_loop g)) = mset (promises g)"
    using take_ready_mset [of gw_id "eligible g" "g_max g - g_active g" "g_waiters g"]
    by (simp add: promises_def dispatch_loop_spec ready_split_def ids add.commute del: mset_map)
  then have "distinct (promises (dispatch_loop g)) = distinct (promises g)"
    "set (promises (dispatch_loop g)) = set (promises g)"
    by (metis mset_eq_imp_distinct_iff, metis set_mset_mset)
  then show ?thesis
    using q take_ready_sorted by (auto simp: queue_ok_def dispatch_loop_spec ready_split_def)
qed

lemma scheduleCooldownWake_fields [simp]:
  "g_max (scheduleCooldownWake t g) = g_max g" "g_active (scheduleCooldownWake t g) = g_active g"
  "g_waiters (scheduleCooldownWake t g) = g_waiters g"
  "g_cooldowns (scheduleCooldownWake t g) = g_cooldowns g"
  "g_byProvider (scheduleCooldownWake t g) = g_byProvider g"
  "g_open (scheduleCooldownWake t g) = g_open g" "g_next (scheduleCooldownWake t g) = g_next g"
  "g_rejected (scheduleCooldownWake t g) = g_rejected g"
  by (simp_all add: scheduleCooldownWake_def Let_def split: list.split)

lemma clearExpired_fields [simp]:
  "g_max (clearExpiredCooldowns t g) = g_max g" "g_active (clearExpiredCooldowns t g) = g_active g"
  "g_waiters (clearExpiredCooldowns t g) = g_waiters g"
  "g_byProvider (clearExpiredCooldowns t g) = g_byProvider g"
  "g_timer (clearExpiredCooldowns t g) = g_timer g"
  "g_open (clearExpiredCooldowns t g) = g_open g" "g_next (clearExpiredCooldowns t g) = g_next g"
  "g_rejected (clearExpiredCooldowns t g) = g_rejected g"
  by (simp_all add: clearExpiredCooldowns_def)

text \<open>The dispatch loop leaves a free slot only when every waiter's provider is cooling down.\<close>

lemma loop_exhausts:
  assumes "g_active g \<le> g_max g"
  shows "g_active (dispatch_loop g) = g_max g
    \<or> (\<forall>w \<in> set (g_waiters (dispatch_loop g)). \<not> eligible g w)"
proof -
  let ?r = "ready_split g"
  have "length (fst ?r) \<le> g_max g - g_active g"
    by (simp add: ready_split_def take_ready_bound)
  moreover have "length (fst ?r) < g_max g - g_active g \<Longrightarrow>
      \<forall>w \<in> set (snd ?r). \<not> eligible g w"
    using take_ready_exhausted by (fastforce simp: ready_split_def)
  ultimately show ?thesis using assms by (auto simp: dispatch_loop_spec)
qed

text \<open>Scheduling the wake leaves a timer that is due by the end of every waiter's cooldown.\<close>

lemma schedule_wakes:
  assumes "\<forall>w \<in> set (g_waiters g). \<not> eligible g w" "g_active g < g_max g" "g_waiters g \<noteq> []"
  shows "\<exists>due fire. g_timer (scheduleCooldownWake t g) = Some (due, fire)
    \<and> (\<forall>w \<in> set (g_waiters g). \<exists>until why.
         map_of (g_cooldowns g) (gw_provider w) = Some (until, why) \<and> due \<le> until)"
proof -
  let ?us = "map fst (List.map_filter (map_of (g_cooldowns g))
                        (remdups (map gw_provider (g_waiters g))))"
  have cooling: "\<exists>until why. map_of (g_cooldowns g) (gw_provider w) = Some (until, why)
      \<and> until \<in> set ?us" if w: "w \<in> set (g_waiters g)" for w
  proof -
    obtain until why where c: "map_of (g_cooldowns g) (gw_provider w) = Some (until, why)"
      using assms(1) w by (auto simp: eligible_def)
    then have "(until, why) \<in> set (List.map_filter (map_of (g_cooldowns g))
                 (remdups (map gw_provider (g_waiters g))))"
      using w by (force simp: map_filter_def)
    then have "fst (until, why) \<in> set ?us" unfolding set_map by (rule imageI)
    then show ?thesis using c by simp
  qed
  obtain w where "w \<in> set (g_waiters g)" using assms(3) by fastforce
  then have "sort ?us \<noteq> []" using cooling by (metis empty_iff empty_set set_sort)
  then obtain m ms where s: "sort ?us = m # ms" by (cases "sort ?us") auto
  then have "\<forall>u \<in> set ?us. m \<le> u"
    by (metis set_sort sorted_sort sorted_simps(2) set_ConsD order_refl)
  then show ?thesis
    using cooling assms(2) s
    by (fastforce simp: scheduleCooldownWake_def Let_def split: option.split)
qed

lemma wake_ok_tryDispatch:
  assumes "g_active g \<le> g_max g"
  shows "wake_ok t (tryDispatch a b g)"
proof -
  let ?c = "clearExpiredCooldowns a g" and ?d = "dispatch_loop (clearExpiredCooldowns a g)"
  have full: "g_active ?d = g_max ?d \<or> (\<forall>w \<in> set (g_waiters ?d). \<not> eligible ?d w)"
    using loop_exhausts [of ?c] assms by (auto simp: eligible_def dispatch_loop_spec)
  have "g_active ?d \<le> g_max ?d"
    using assms take_ready_bound [of "eligible ?c" "g_max g - g_active g" "g_waiters g"]
    by (simp add: dispatch_loop_spec ready_split_def)
  then show ?thesis
    using full schedule_wakes [of ?d b] by (fastforce simp: wake_ok_def tryDispatch_def)
qed

lemma timer_ok_tryDispatch:
  "timer_ok t g \<Longrightarrow> t \<le> a \<Longrightarrow> a \<le> b \<Longrightarrow> timer_ok b (tryDispatch a b g)"
  by (auto simp: timer_ok_def tryDispatch_def scheduleCooldownWake_def Let_def dispatch_loop_spec
      split: list.split option.splits)

subsection \<open>Every step keeps the invariant\<close>

text \<open>What is left of a Map's entry after the loop that deletes entries.\<close>

lemma kept_entry:
  "distinct (map fst m) \<Longrightarrow>
   map_of (filter keep m) k = Some v \<longleftrightarrow> map_of m k = Some v \<and> keep (k, v)"
proof (induction m)
  case (Cons e m)
  then show ?case
    by (cases e) (auto dest: map_of_SomeD simp: image_iff)
qed simp

definition gate_core :: "int \<Rightarrow> request_gate \<Rightarrow> bool" where
  "gate_core t g \<longleftrightarrow> leases_ok g \<and> queue_ok g \<and> timer_ok t g \<and> distinct (map fst (g_cooldowns g))"

lemma gate_inv_core: "gate_inv (t, g) \<longleftrightarrow> gate_core t g \<and> wake_ok t g"
  by (auto simp: gate_inv_def gate_core_def)

lemma tryDispatch_inv:
  assumes "gate_core t g" "t \<le> a" "a \<le> b"
  shows "gate_inv (b, tryDispatch a b g)"
proof -
  let ?c = "clearExpiredCooldowns a g"
  have "leases_ok ?c" "queue_ok ?c"
    using assms(1) by (simp_all add: gate_core_def queue_ok_def promises_def leases_ok_def)
  then have "leases_ok (dispatch_loop ?c)" "queue_ok (dispatch_loop ?c)"
    by (auto intro: leases_ok_loop queue_ok_loop)
  then have "leases_ok (tryDispatch a b g)" "queue_ok (tryDispatch a b g)"
    by (auto simp: tryDispatch_def leases_ok_def queue_ok_def promises_def)
  moreover have "distinct (map fst (g_cooldowns (tryDispatch a b g)))"
    using assms(1) distinct_map_filter
    by (auto simp: gate_core_def tryDispatch_def dispatch_loop_spec clearExpiredCooldowns_def)
  ultimately show ?thesis
    using assms timer_ok_tryDispatch wake_ok_tryDispatch [of g b a b]
    by (auto simp: gate_inv_def gate_core_def leases_ok_def)
qed

lemma gate_inv_later: "gate_inv (t, g) \<Longrightarrow> t \<le> t' \<Longrightarrow> gate_inv (t', g)"
  by (fastforce simp: gate_inv_def wake_ok_def timer_ok_def split: option.splits)

lemma gate_core_later: "gate_inv (t, g) \<Longrightarrow> gate_core t g"
  by (simp add: gate_inv_core)

lemma leases_ok_new: "leases_ok (new_gate c)"
proof -
  have "1 \<le> nat \<lfloor>q\<rfloor>" if "1 \<le> q" for q :: rat using that by linarith
  then show ?thesis
    by (auto simp: leases_ok_def new_gate_def provider_entry_def split: option.split)
qed

lemma gate_inv_new: "gate_inv (t, new_gate c)"
  using leases_ok_new [of c]
  by (simp add: gate_inv_def queue_ok_def wake_ok_def timer_ok_def promises_def new_gate_def)

lemma acquire_inv:
  assumes "gate_inv (t, g)" "t \<le> a" "a \<le> b"
  shows "gate_inv (b, gate_acquire a b r g)"
proof (cases "gr_aborted r")
  case True
  have "gate_inv (t, g\<lparr>g_rejected := x, g_next := g_next g + 1\<rparr>)" for x
    using assms(1) by (auto simp: gate_inv_def leases_ok_def queue_ok_def wake_ok_def timer_ok_def
        promises_def less_SucI)
  then show ?thesis using True assms(2,3) gate_inv_later [of t _ b] by (simp add: gate_acquire_def)
next
  case False
  let ?w = "\<lparr>gw_id = g_next g, gw_priority = gr_priority r, gw_provider = gr_provider r\<rparr>"
  have q: "queue_ok g" using assms(1) by (simp add: gate_inv_def)
  then have fresh: "g_next g \<notin> set (promises g)" by (auto simp: queue_ok_def)
  have "mset (map gw_id (sort_key gw_priority (g_waiters g @ [?w]))) = mset (map gw_id (g_waiters g) @ [g_next g])"
    by simp
  then have ids: "distinct (map gw_id (sort_key gw_priority (g_waiters g @ [?w])))
      = distinct (map gw_id (g_waiters g) @ [g_next g])"
    by (rule mset_eq_imp_distinct_iff)
  have "gate_core t (g\<lparr>g_waiters := sort_key gw_priority (g_waiters g @ [?w]), g_next := g_next g + 1\<rparr>)"
    using assms(1) q fresh ids
    by (auto simp: gate_inv_core gate_core_def leases_ok_def timer_ok_def queue_ok_def promises_def
        less_SucI)
  then show ?thesis using False assms(2,3) tryDispatch_inv by (simp add: gate_acquire_def)
qed

lemma sorted_splice1: "sorted xs \<Longrightarrow> sorted (splice1 i xs)"
proof (cases "i < length xs")
  case True
  assume "sorted xs"
  then have "sorted (take i xs @ xs ! i # drop (Suc i) xs)"
    using True by (simp flip: id_take_nth_drop)
  then show ?thesis by (simp add: splice1_def sorted_append)
qed (simp add: splice1_def)

lemma distinct_splice1_append:
  "distinct (xs @ ys) \<Longrightarrow> distinct (splice1 i xs @ ys) \<and> distinct (ys @ splice1 i xs)"
  using set_splice1_subset [of i xs] by (auto simp: distinct_splice1)

lemma abort_inv:
  assumes "gate_inv (t, g)" "t \<le> a" "a \<le> b"
  shows "gate_inv (b, gate_abort a b n g)"
proof (cases "find_index (\<lambda>w. gw_id w = n) (g_waiters g)")
  case None
  then have "gate_abort a b n g = g" by (simp only: gate_abort_def option.case)
  then show ?thesis using assms gate_inv_later by simp
next
  case (Some i)
  have "queue_ok g" using assms(1) by (simp add: gate_inv_def)
  then have "sorted (map gw_priority (splice1 i (g_waiters g)))"
      "distinct (map gw_id (splice1 i (g_waiters g)) @ map fst (g_open g))"
      "\<forall>m \<in> gw_id ` set (splice1 i (g_waiters g)). m < g_next g"
    using set_splice1_subset [of i "g_waiters g"]
      distinct_splice1_append [of "map gw_id (g_waiters g)" "map fst (g_open g)" i]
    by (auto simp: queue_ok_def promises_def map_splice1 sorted_splice1)
  then have "gate_core t (g\<lparr>g_waiters := splice1 i (g_waiters g), g_rejected := g_rejected g @ [n]\<rparr>)"
    using assms(1)
    by (auto simp: gate_inv_core gate_core_def leases_ok_def timer_ok_def queue_ok_def promises_def)
  then show ?thesis using Some assms(2,3) tryDispatch_inv by (simp add: gate_abort_def)
qed

lemma release_leases:
  assumes ok: "leases_ok g" and i: "i < length (g_open g)"
  shows "leases_ok
    (let k = snd (g_open g ! i);
         left = (case map_of (g_byProvider g) k of None \<Rightarrow> 1 | Some m \<Rightarrow> m) - 1 in
     g\<lparr>g_open := splice1 i (g_open g), g_active := g_active g - 1,
       g_byProvider := (if left = 0 then AList.delete k (g_byProvider g)
                        else AList.update k left (g_byProvider g))\<rparr>)"
  using ok i lease_count_splice1 [OF i]
  by (auto simp: leases_ok_def Let_def provider_entry_def update_conv' delete_conv')

lemma release_inv:
  assumes "gate_inv (t, g)" "t \<le> a" "a \<le> b"
  shows "gate_inv (b, gate_release a b n g)"
proof (cases "find_index (\<lambda>l. fst l = n) (g_open g)")
  case None
  then have "gate_release a b n g = g" by (simp only: gate_release_def option.case)
  then show ?thesis using assms gate_inv_later by simp
next
  case (Some i)
  let ?k = "snd (g_open g ! i)"
  let ?left = "(case map_of (g_byProvider g) ?k of None \<Rightarrow> 1 | Some m \<Rightarrow> m) - 1"
  let ?g = "g\<lparr>g_open := splice1 i (g_open g), g_active := g_active g - 1,
       g_byProvider := (if ?left = 0 then AList.delete ?k (g_byProvider g)
                        else AList.update ?k ?left (g_byProvider g))\<rparr>"
  have "i < length (g_open g)" using find_index_SomeD [OF Some] by simp
  then have "leases_ok ?g"
    using release_leases [of g i] assms(1) unfolding Let_def by (simp only: gate_inv_def snd_conv)
  moreover have "queue_ok ?g"
  proof -
    have q: "distinct (map gw_id (g_waiters g) @ map fst (g_open g))"
      "\<forall>n \<in> set (promises g). n < g_next g" "sorted (map gw_priority (g_waiters g))"
      using assms(1) by (auto simp: gate_inv_def queue_ok_def promises_def)
    have p: "promises ?g = map gw_id (g_waiters g) @ splice1 i (map fst (g_open g))"
      by (simp add: promises_def map_splice1)
    then have "set (promises ?g) \<subseteq> set (promises g)"
      using set_splice1_subset [of i "map fst (g_open g)"] by (auto simp: promises_def)
    moreover have "distinct (promises ?g)"
      unfolding p using set_splice1_subset [of i "map fst (g_open g)"] q(1)
      by (auto simp: distinct_splice1 simp del: set_map)
    ultimately show ?thesis using q by (auto simp: queue_ok_def)
  qed
  ultimately have "gate_core t ?g"
    using assms(1) by (auto simp: gate_inv_core gate_core_def timer_ok_def)
  moreover have "gate_release a b n g = tryDispatch a b ?g"
    by (simp only: gate_release_def Some option.case Let_def)
  ultimately show ?thesis using assms(2,3) tryDispatch_inv [of t ?g a b] by (simp only:)
qed

lemma cooldown_inv:
  assumes "gate_inv (t, g)" "t \<le> a" "a \<le> b"
  shows "gate_inv (b, enterCooldown a b k until why g)"
proof -
  have "gate_core t (g\<lparr>g_cooldowns := AList.update k (until, why) (g_cooldowns g)\<rparr>)"
    using assms(1)
    by (auto simp: gate_inv_core gate_core_def leases_ok_def timer_ok_def queue_ok_def promises_def
        distinct_update)
  then show ?thesis
    using tryDispatch_inv assms gate_inv_later by (simp add: enterCooldown_def)
qed

lemma wake_inv:
  assumes "gate_inv (t, g)" "t \<le> a" "a \<le> b"
  shows "gate_inv (b, gate_wake a b g)"
proof -
  have "gate_core t (g\<lparr>g_timer := None\<rparr>)"
    using assms(1)
    by (auto simp: gate_inv_core gate_core_def leases_ok_def timer_ok_def queue_ok_def promises_def)
  then show ?thesis using tryDispatch_inv assms by (simp add: gate_wake_def)
qed

lemma observe_inv:
  assumes "gate_inv (t, g)" "t \<le> a"
  shows "gate_inv (a, snd (gate_snapshot_of a key g))"
proof -
  have g: "snd (gate_snapshot_of a key g) = clearExpiredCooldowns a g"
    by (simp add: gate_snapshot_of_def Let_def)
  have keys: "distinct (map fst (g_cooldowns g))" using assms(1) by (simp add: gate_inv_def)
  have "wake_ok a (clearExpiredCooldowns a g)"
  proof -
    have "case map_of (g_cooldowns (clearExpiredCooldowns a g)) k of
            None \<Rightarrow> due \<le> a | Some (until, _) \<Rightarrow> due \<le> until"
      if "case map_of (g_cooldowns g) k of None \<Rightarrow> due \<le> t | Some (until, _) \<Rightarrow> due \<le> until"
      for due k
    proof (cases "map_of (g_cooldowns (clearExpiredCooldowns a g)) k")
      case (Some c)
      then have "map_of (g_cooldowns g) k = Some c"
        using kept_entry [OF keys, of "\<lambda>(k, until, reason). \<not> until \<le> a" k c]
        by (simp add: clearExpiredCooldowns_def)
      then show ?thesis using that Some by (cases c) simp
    next
      case None
      show ?thesis
      proof (cases "map_of (g_cooldowns g) k")
        case old: (Some c)
        have "fst c \<le> a"
          using None old kept_entry [OF keys, of "\<lambda>(k, until, reason). \<not> until \<le> a" k c]
          by (cases c) (simp add: clearExpiredCooldowns_def)
        then show ?thesis using that None old by (cases c) simp
      qed (use that assms(2) None in simp)
    qed
    then show ?thesis using assms(1) by (fastforce simp: gate_inv_def wake_ok_def)
  qed
  moreover have "gate_core a (clearExpiredCooldowns a g)"
    using gate_inv_later [OF assms] keys distinct_map_filter
    by (auto simp: gate_inv_core gate_core_def leases_ok_def timer_ok_def queue_ok_def promises_def)
       (auto simp: clearExpiredCooldowns_def)
  ultimately show ?thesis by (simp add: g gate_inv_core)
qed

lemma step_inv: "gate_step s s' \<Longrightarrow> gate_inv s \<Longrightarrow> gate_inv s'"
  by (induction rule: gate_step.induct)
     (auto intro: acquire_inv abort_inv cooldown_inv release_inv wake_inv observe_inv)

lemma reach_inv: "gate_reach c s \<Longrightarrow> gate_inv s"
  by (induction rule: gate_reach.induct) (auto intro: gate_inv_new step_inv)

lemma distinct_splice1_nth:
  "distinct xs \<Longrightarrow> i < length xs \<Longrightarrow> xs ! i \<notin> set (splice1 i xs)"
proof -
  assume d: "distinct xs" "i < length xs"
  then have "distinct (take i xs @ xs ! i # drop (Suc i) xs)" by (simp flip: id_take_nth_drop)
  then show ?thesis by (auto simp: splice1_def)
qed

lemma tryDispatch_open:
  "set (map fst (g_open (tryDispatch a b g))) \<subseteq> set (map fst (g_open g)) \<union> gw_id ` set (g_waiters g)"
proof -
  have "set (fst (take_ready P n ws)) \<subseteq> set ws" for P n and ws :: "gate_waiter list"
    by (induction ws arbitrary: n) auto
  then show ?thesis
    by (fastforce simp: tryDispatch_def dispatch_loop_spec ready_split_def lease_of_def)
qed

subsection \<open>Properties\<close>

text \<open>C11 (lease accounting): in every state the gate can reach, the active count is the number of
  leases granted and not yet released, it never exceeds the limit, the table of providers holds
  exactly the providers with such leases and their numbers, the waiters stand in priority order,
  and no request is waiting twice or both waiting and granted.\<close>

theorem gate_accounting:
  assumes "gate_reach configured (t, g)"
  shows "g_active g = length (g_open g) \<and> g_active g \<le> g_max g
    \<and> (\<forall>k. map_of (g_byProvider g) k
         = (let n = length (filter (\<lambda>l. snd l = k) (g_open g)) in if n = 0 then None else Some n))
    \<and> sorted (map gw_priority (g_waiters g))
    \<and> distinct (map gw_id (g_waiters g) @ map fst (g_open g))"
  using reach_inv [OF assms]
  by (simp add: gate_inv_def leases_ok_def queue_ok_def promises_def Let_def provider_entry_def
      lease_count_def)

text \<open>C12 (no stranded waiter): in every reachable state, whenever a request waits although a slot
  is free, the wake timer is set, it is due no later than the end of each waiter's cooldown or is
  due already, and it fires at most one millisecond after the later of its due time and the last
  reading of the clock; diagnostics snapshots that drop expired cooldowns do not break this.\<close>

theorem no_stranded_waiter:
  assumes "gate_reach configured (t, g)" "g_active g < g_max g" "g_waiters g \<noteq> []"
  shows "\<exists>due fire. g_timer g = Some (due, fire) \<and> fire \<le> max due t + 1
    \<and> (\<forall>w \<in> set (g_waiters g). case map_of (g_cooldowns g) (gw_provider w) of
         None \<Rightarrow> due \<le> t | Some (until, _) \<Rightarrow> due \<le> until)"
proof -
  have inv: "wake_ok t g" "timer_ok t g" using reach_inv [OF assms(1)] by (simp_all add: gate_inv_def)
  then obtain due fire where t: "g_timer g = Some (due, fire)"
    "\<forall>w \<in> set (g_waiters g). case map_of (g_cooldowns g) (gw_provider w) of
       None \<Rightarrow> due \<le> t | Some (until, _) \<Rightarrow> due \<le> until"
    using assms(2,3) by (auto simp: wake_ok_def)
  moreover have "fire \<le> max due t + 1" using inv(2) t(1) by (simp add: timer_ok_def)
  ultimately show ?thesis by blast
qed

text \<open>A dispatch grants exactly the first waiters, in queue order, whose
  provider is not cooling down, as many as there are free slots, and leaves the others in their
  order.\<close>

lemma dispatch_grants_first_ready:
  "let g1 = clearExpiredCooldowns a g;
       ready = take_ready (\<lambda>w. map_of (g_cooldowns g1) (gw_provider w) = None)
                 (g_max g - g_active g) (g_waiters g);
       g' = tryDispatch a b g in
   g_open g' = g_open g @ map (\<lambda>w. (gw_id w, gw_provider w)) (fst ready)
   \<and> g_waiters g' = snd ready
   \<and> g_active g' = g_active g + length (fst ready) \<and> g_rejected g' = g_rejected g"
proof -
  have "(\<lambda>w. map_of (g_cooldowns g1) (gw_provider w) = None) = eligible g1" for g1
    by (simp add: fun_eq_iff eligible_def)
  moreover have "(\<lambda>w. (gw_id w, gw_provider w)) = lease_of" by (simp add: fun_eq_iff lease_of_def)
  ultimately show ?thesis
    by (simp add: Let_def tryDispatch_def dispatch_loop_spec ready_split_def)
qed

text \<open>Releasing a lease a second time changes nothing.\<close>

lemma release_idempotent:
  assumes "gate_reach configured (t, g)" "t \<le> a" "a \<le> b" "n \<in> set (map fst (g_open g))"
  shows "n \<notin> set (map fst (g_open (gate_release a b n g)))
    \<and> gate_release c d n (gate_release a b n g) = gate_release a b n g"
proof -
  have inv: "gate_inv (t, g)" by (rule reach_inv [OF assms(1)])
  obtain i where i: "find_index (\<lambda>l. fst l = n) (g_open g) = Some i" using assms(4)
    by (cases "find_index (\<lambda>l. fst l = n) (g_open g)") auto
  then have "i < length (g_open g)" "fst (g_open g ! i) = n" using find_index_SomeD by fastforce+
  moreover have "distinct (map fst (g_open g))" "n \<notin> gw_id ` set (g_waiters g)"
    using inv assms(4) by (auto simp: gate_inv_def queue_ok_def promises_def)
  ultimately have "n \<notin> set (map fst (splice1 i (g_open g)))"
    by (metis distinct_splice1_nth length_map map_splice1 nth_map)
  then have gone: "n \<notin> set (map fst (g_open (gate_release a b n g)))"
    using tryDispatch_open [of a b "g\<lparr>g_open := splice1 i (g_open g), g_active := _,
        g_byProvider := _\<rparr>"] \<open>n \<notin> gw_id ` set (g_waiters g)\<close>
    by (auto simp: gate_release_def i Let_def simp del: set_map)
  then have "find_index (\<lambda>l. fst l = n) (g_open (gate_release a b n g)) = None" by auto
  then have "gate_release c d n (gate_release a b n g) = gate_release a b n g"
    by (simp only: gate_release_def [of c d] option.case)
  with gone show ?thesis by blast
qed

subsection \<open>Witnesses\<close>

definition ask :: "string \<Rightarrow> gate_request" where
  "ask k = \<lparr>gr_priority = 0, gr_provider = js k, gr_aborted = False\<rparr>"

text \<open>One slot: the first request holds it, the second waits.\<close>

definition busy_gate :: request_gate where
  "busy_gate = gate_acquire 5 5 (ask ''b'') (gate_acquire 5 5 (ask ''a'') (new_gate (Some (Some 1))))"

text \<open>A free slot, and a request whose provider cools down until 100.\<close>

definition cooling_gate :: request_gate where
  "cooling_gate = gate_acquire 5 5 (ask ''a'')
     (enterCooldown 5 5 (js ''a'') 100 (js ''retry-after'') (new_gate (Some (Some 1))))"

lemma reach_acquire:
  "gate_reach c (t, g) \<Longrightarrow> t \<le> a \<Longrightarrow> a \<le> b \<Longrightarrow> gate_reach c (b, gate_acquire a b r g)"
  by (rule gate_reach.step [OF _ gate_step.acquire])

lemma reach_busy: "gate_reach (Some (Some 1)) (5, busy_gate)"
  unfolding busy_gate_def
  by (rule reach_acquire [OF reach_acquire [OF gate_reach.init order_refl]]) simp_all

lemma reach_cooling: "gate_reach (Some (Some 1)) (5, cooling_gate)"
  unfolding cooling_gate_def
  by (rule reach_acquire [OF gate_reach.step
        [OF gate_reach.init gate_step.cooldown [OF order_refl]]]) simp_all

theorem gate_accounting_witness:
  "g_active busy_gate = 1 \<and> length (g_open busy_gate) = 1 \<and> length (g_waiters busy_gate) = 1"
proof -
  have "length (g_open busy_gate) = 1" "length (g_waiters busy_gate) = 1" by code_simp+
  with gate_accounting [OF reach_busy] show ?thesis by simp
qed

theorem no_stranded_waiter_witness:
  "g_waiters cooling_gate \<noteq> [] \<and> (\<exists>due fire. g_timer cooling_gate = Some (due, fire) \<and> due \<le> 100)"
proof -
  have g: "g_active cooling_gate < g_max cooling_gate" "g_waiters cooling_gate \<noteq> []"
    "map_of (g_cooldowns cooling_gate) (gw_provider (hd (g_waiters cooling_gate)))
       = Some (100, js ''retry-after'')" by code_simp+
  then show ?thesis using no_stranded_waiter [OF reach_cooling g(1,2)]
    by (metis (no_types, lifting) case_prod_conv list.set_sel(1) option.simps(5))
qed

lemma release_idempotent_example:
  "gate_release 7 7 0 (gate_release 6 6 0 busy_gate) = gate_release 6 6 0 busy_gate
   \<and> map fst (g_open (gate_release 6 6 0 busy_gate)) = [1]"
proof -
  have "0 \<in> set (map fst (g_open busy_gate))" by code_simp
  then have "gate_release 7 7 0 (gate_release 6 6 0 busy_gate) = gate_release 6 6 0 busy_gate"
    using release_idempotent [OF reach_busy, of 6 6 0 7 7] by simp
  moreover have "map fst (g_open (gate_release 6 6 0 busy_gate)) = [1]" by code_simp
  ultimately show ?thesis by simp
qed

end
