(* ===== verification/StreamRecovery.thy ===== *)
theory StreamRecovery
  imports JsonValue
begin

section \<open>Stream recovery\<close>

text \<open>
  Models \<open>src/src/services/provider-resilience/stream-recovery.ts\<close>: joining the text of a
  recovery stream to the text already shown, and the tests for committed and partial output.
\<close>

record overlap_result =
  ov_suffix :: jsstr
  ov_found :: bool
  ov_text :: jsstr

text \<open>\<open>s.slice(-n)\<close>; \<open>s.slice(-0)\<close> is all of \<open>s\<close>.\<close>

definition slice_end :: "nat \<Rightarrow> jsstr \<Rightarrow> jsstr" where
  "slice_end n s = (if n = 0 then s else drop (length s - n) s)"

text \<open>The loop over \<open>len\<close> from the given length down to 1: the first match, else 0.\<close>

fun best_overlap :: "jsstr \<Rightarrow> jsstr \<Rightarrow> nat \<Rightarrow> nat" where
  "best_overlap tail recov 0 = 0"
| "best_overlap tail recov (Suc n) =
     (if slice_end (Suc n) tail = take (Suc n) recov then Suc n else best_overlap tail recov n)"

definition recovery_marker :: jsstr where
  "recovery_marker = [0x0A] @ js ''[stream recovered]'' @ [0x0A]"

definition reconcileStreamOverlap :: "jsstr \<Rightarrow> jsstr \<Rightarrow> nat \<Rightarrow> overlap_result" where
  "reconcileStreamOverlap previous recovery maxWindow =
     (if previous = [] \<or> recovery = []
      then \<lparr>ov_suffix = recovery, ov_found = False, ov_text = []\<rparr>
      else let tail = (if length previous > maxWindow then slice_end maxWindow previous else previous);
               best = best_overlap tail recovery (min (length tail) (length recovery)) in
        if best = 0
        then \<lparr>ov_suffix = recovery_marker @ recovery, ov_found = False, ov_text = []\<rparr>
        else \<lparr>ov_suffix = drop best recovery, ov_found = True, ov_text = take best recovery\<rparr>)"

text \<open>Truthiness of a property value.\<close>

fun val_truthy :: "jsval \<Rightarrow> bool" where
  "val_truthy JUndefined = False"
| "val_truthy JNull = False"
| "val_truthy (JBool b) = b"
| "val_truthy (JNum NaN) = False"
| "val_truthy (JNum (Fin q)) = (q \<noteq> 0)"
| "val_truthy (JStr s) = (s \<noteq> [])"
| "val_truthy _ = True"

fun nonempty_text :: "jsval \<Rightarrow> bool" where
  "nonempty_text (JStr s) = (s \<noteq> [])"
| "nonempty_text _ = False"

definition isSemanticDelta :: "jsval \<Rightarrow> bool" where
  "isSemanticDelta chunk \<longleftrightarrow> (case chunk of JObj _ \<Rightarrow> True | JArr _ \<Rightarrow> True | _ \<Rightarrow> False)
     \<and> (nonempty_text (get_prop chunk (js ''content''))
        \<or> val_truthy (get_prop chunk (js ''tool_calls''))
        \<or> val_truthy (get_prop chunk (js ''function_call''))
        \<or> nonempty_text (get_prop chunk (js ''reasoning_content'')))"

record partial_call =
  pc_name :: "jsstr option"
  pc_arguments :: jsstr

text \<open>The calls are the values of the map, in insertion order.\<close>

definition isPartialToolCall :: "js_env \<Rightarrow> bool \<Rightarrow> partial_call list \<Rightarrow> bool" where
  "isPartialToolCall E toolCallDeltaSeen calls \<longleftrightarrow> toolCallDeltaSeen
     \<and> (\<exists>c \<in> set calls. \<not> truthy (pc_name c) \<or> pc_arguments c = []
          \<or> pc_arguments c = js ''{}'' \<or> json_parse E (pc_arguments c) = None)"

subsection \<open>The join is exact\<close>

lemma best_overlap_spec:
  "best_overlap tail recov n \<le> n
   \<and> (best_overlap tail recov n = 0 \<or> slice_end (best_overlap tail recov n) tail = take (best_overlap tail recov n) recov)
   \<and> (\<forall>k. best_overlap tail recov n < k \<and> k \<le> n \<longrightarrow> slice_end k tail \<noteq> take k recov)"
  by (induction n) (auto simp: le_Suc_eq)

text \<open>The window in effect: \<open>slice(-0)\<close> makes a window of 0 unlimited.\<close>

definition window :: "nat \<Rightarrow> jsstr \<Rightarrow> nat" where
  "window w previous = (if w = 0 then length previous else w)"

lemma slice_end_window:
  "0 < k \<Longrightarrow> k \<le> window w s \<Longrightarrow>
     slice_end k (if length s > w then slice_end w s else s) = slice_end k s"
  by (auto simp: slice_end_def window_def)

definition overlaps :: "jsstr \<Rightarrow> jsstr \<Rightarrow> nat \<Rightarrow> bool" where
  "overlaps previous recovery k \<longleftrightarrow> k \<le> length previous \<and> k \<le> length recovery
     \<and> slice_end k previous = take k recovery"

text \<open>When an overlap is found, it is the longest one within the window: a
  suffix of the shown text equal to a prefix of the recovery text; exactly that prefix is
  removed, so the shown text with the returned suffix ends with the whole recovery text and
  nothing is lost or repeated. When none is found no character of the recovery text is
  dropped.\<close>

lemma stream_join_exact:
  fixes previous recovery :: jsstr and w :: nat
  defines "r \<equiv> reconcileStreamOverlap previous recovery w"
  shows "(if ov_found r
     then \<exists>k. 0 < k \<and> k \<le> window w previous \<and> overlaps previous recovery k
       \<and> (\<forall>j. k < j \<and> j \<le> window w previous \<longrightarrow> \<not> overlaps previous recovery j)
       \<and> previous @ ov_suffix r = take (length previous - k) previous @ recovery
     else (previous = [] \<or> recovery = [] \<or> (\<forall>j. 0 < j \<and> j \<le> window w previous \<longrightarrow> \<not> overlaps previous recovery j))
       \<and> (\<exists>pre. ov_suffix r = pre @ recovery \<and> pre \<in> {[], recovery_marker}))"
proof (cases "previous = [] \<or> recovery = []")
  case True
  then show ?thesis by (auto simp: r_def reconcileStreamOverlap_def)
next
  case False
  let ?tail = "if length previous > w then slice_end w previous else previous"
  let ?n = "min (length ?tail) (length recovery)"
  let ?k = "best_overlap ?tail recovery ?n"
  have len: "length ?tail = min (window w previous) (length previous)"
    by (simp add: slice_end_def window_def)
  have spec: "?k \<le> ?n" "?k = 0 \<or> slice_end ?k ?tail = take ?k recovery"
    "\<And>j. ?k < j \<Longrightarrow> j \<le> ?n \<Longrightarrow> slice_end j ?tail \<noteq> take j recovery"
    using best_overlap_spec [of ?tail recovery ?n] by auto
  have longest: "\<not> overlaps previous recovery j" if "?k < j" "j \<le> window w previous" for j
    using spec(3) [of j] that len slice_end_window [of j w previous] by (auto simp: overlaps_def)
  show ?thesis
  proof (cases "?k = 0")
    case True
    then have "r = \<lparr>ov_suffix = recovery_marker @ recovery, ov_found = False, ov_text = []\<rparr>"
      using False by (simp add: r_def reconcileStreamOverlap_def Let_def)
    with longest True show ?thesis by auto
  next
    case k: False
    have bounds: "?k \<le> window w previous" "?k \<le> length previous" "?k \<le> length recovery"
      using spec(1) len by simp_all
    have eq: "slice_end ?k previous = take ?k recovery"
      using spec(2) k slice_end_window [OF _ bounds(1)] by simp
    have "previous @ drop ?k recovery
        = take (length previous - ?k) previous @ slice_end ?k previous @ drop ?k recovery"
      using k by (simp add: slice_end_def)
    then have "previous @ drop ?k recovery = take (length previous - ?k) previous @ recovery"
      using eq by simp
    moreover have "r = \<lparr>ov_suffix = drop ?k recovery, ov_found = True, ov_text = take ?k recovery\<rparr>"
      using False k by (simp add: r_def reconcileStreamOverlap_def Let_def)
    ultimately show ?thesis
      using k bounds eq longest by (auto simp: overlaps_def)
  qed
qed


lemma stream_join_exact_example:
  "\<exists>k. reconcileStreamOverlap (js ''hello wor'') (js ''world'') 2048
       = \<lparr>ov_suffix = js ''ld'', ov_found = True, ov_text = js ''wor''\<rparr>
     \<and> js ''hello wor'' @ js ''ld'' = take (9 - k) (js ''hello wor'') @ js ''world''"
proof -
  have r: "reconcileStreamOverlap (js ''hello wor'') (js ''world'') 2048
      = \<lparr>ov_suffix = js ''ld'', ov_found = True, ov_text = js ''wor''\<rparr>" by code_simp
  have "length (js ''hello wor'') = 9" by code_simp
  with stream_join_exact [of "js ''hello wor''" "js ''world''" 2048] r show ?thesis by auto
qed

end
