(* ===== verification/ErrorClassifier.thy ===== *)
theory ErrorClassifier
  imports StreamRecovery
begin

section \<open>Classification of provider errors\<close>

text \<open>
  Models \<open>src/src/services/provider-resilience/error-classifier.ts\<close>. A thrown value is a
  JavaScript value, whether it is an instance of \<open>Error\<close>, and its headers: those of the value
  or of its response, either an object with a \<open>get\<close> function or a plain value. The platform's
  \<open>toLowerCase\<close>, \<open>Number(text)\<close> and \<open>Date.parse\<close> are parameters.
\<close>

datatype failure_kind =
    KAborted | KPreflightRejected | KConnectTimeout | KReadTimeout | KConnectionReset
  | KNetworkError | KRateLimit | KProviderOverloaded | KServerError | KConflict | KAuthFailed
  | KPermissionDenied | KQuotaOrCreditExhausted | KModelNotFound | KInvalidEndpoint
  | KInvalidRequest | KUnsupportedEffort | KContextOverflow | KRequestTooLarge
  | KContentPolicy | KMalformedResponse | KStreamInterrupted | KUnknown

datatype disposition =
  RetryPrecommit | RecoverStream | FallbackOnce | DeferUntilCooldown | FailFast

datatype header_source = HeaderGet "jsstr \<Rightarrow> jsval" | HeaderValue jsval

record thrown =
  th_isError :: bool
  th_value :: jsval
  th_headers :: header_source

record classification =
  cl_kind :: failure_kind
  cl_disposition :: disposition
  cl_retryAfterMs :: "rat option"
  cl_status :: "jsnum option"

record text_env =
  lower_case :: "jsstr \<Rightarrow> jsstr"
  number_of :: "jsstr \<Rightarrow> jsnum"
  date_parse :: "jsstr \<Rightarrow> jsnum"
  text_of :: "jsval \<Rightarrow> jsstr"

subsection \<open>Reading the error\<close>

text \<open>\<open>s.includes(t)\<close>.\<close>

fun str_includes :: "jsstr \<Rightarrow> jsstr \<Rightarrow> bool" where
  "str_includes [] t = (t = [])"
| "str_includes (u # s) t = (starts_with (u # s) t \<or> str_includes s t)"

definition string_property :: "text_env \<Rightarrow> thrown \<Rightarrow> string \<Rightarrow> jsstr" where
  "string_property T e k = (case get_prop (th_value e) (js k) of
     JUndefined \<Rightarrow> [] | JNull \<Rightarrow> [] | JStr s \<Rightarrow> s | v \<Rightarrow> text_of T v)"

definition lowerMessage :: "text_env \<Rightarrow> thrown \<Rightarrow> jsstr" where
  "lowerMessage T e = lower_case T (string_property T e ''message'')"

definition says :: "text_env \<Rightarrow> thrown \<Rightarrow> string \<Rightarrow> bool" where
  "says T e k \<longleftrightarrow> str_includes (lowerMessage T e) (js k)"

definition isProviderRequestPreflightError :: "thrown \<Rightarrow> bool" where
  "isProviderRequestPreflightError e \<longleftrightarrow> th_isError e
     \<and> get_prop (th_value e) (js ''name'') = JStr (js ''ProviderRequestPreflightError'')"

definition isAbortError :: "thrown \<Rightarrow> bool" where
  "isAbortError e \<longleftrightarrow> th_isError e
     \<and> (get_prop (th_value e) (js ''name'') = JStr (js ''AbortError'')
        \<or> get_prop (th_value e) (js ''name'') = JStr (js ''CanceledError'')
        \<or> (case get_prop (th_value e) (js ''message'') of
             JStr s \<Rightarrow> str_includes s (js ''abort'') \<or> str_includes s (js ''cancel'')
           | _ \<Rightarrow> False))"

definition extractStatus :: "thrown \<Rightarrow> jsnum option" where
  "extractStatus e = (case get_prop (th_value e) (js ''status'') of
     JNum n \<Rightarrow> Some n
   | _ \<Rightarrow> (case get_prop (th_value e) (js ''statusCode'') of JNum n \<Rightarrow> Some n | _ \<Rightarrow> None))"

definition isUnsupportedEffort :: "text_env \<Rightarrow> thrown \<Rightarrow> bool" where
  "isUnsupportedEffort T e \<longleftrightarrow>
     (says T e ''reasoning_effort'' \<or> says T e ''reasoning effort''
      \<or> says T e ''thinking level'' \<or> says T e ''output_config.effort'')
     \<and> (says T e ''unsupported'' \<or> says T e ''not support'' \<or> says T e ''unknown''
      \<or> says T e ''invalid'')"

definition isQuotaError :: "text_env \<Rightarrow> thrown \<Rightarrow> bool" where
  "isQuotaError T e \<longleftrightarrow> val_truthy (th_value e)
     \<and> (says T e ''quota'' \<or> says T e ''credit'' \<or> says T e ''insufficient''
        \<or> lower_case T (string_property T e ''code'') = js ''insufficient_quota''
        \<or> lower_case T (string_property T e ''code'') = js ''billing_not_active'')"

definition isContextOverflow :: "text_env \<Rightarrow> thrown \<Rightarrow> bool" where
  "isContextOverflow T e \<longleftrightarrow> says T e ''context''
     \<and> (says T e ''overflow'' \<or> says T e ''too long'' \<or> says T e ''maximum context'')"

definition isContentPolicy :: "text_env \<Rightarrow> thrown \<Rightarrow> bool" where
  "isContentPolicy T e \<longleftrightarrow> says T e ''content''
     \<and> (says T e ''policy'' \<or> says T e ''safety'' \<or> says T e ''moderation'')"

definition isConnectionReset :: "text_env \<Rightarrow> thrown \<Rightarrow> bool" where
  "isConnectionReset T e \<longleftrightarrow>
     says T e ''reset'' \<or> says T e ''econnreset'' \<or> says T e ''epipe''"

definition isTimeout :: "text_env \<Rightarrow> thrown \<Rightarrow> bool" where
  "isTimeout T e \<longleftrightarrow> says T e ''timeout'' \<or> says T e ''timed out''"

definition isConnectTimeout :: "text_env \<Rightarrow> thrown \<Rightarrow> bool" where
  "isConnectTimeout T e \<longleftrightarrow> says T e ''connect'' \<and> says T e ''timeout''"

definition isNetworkError :: "text_env \<Rightarrow> thrown \<Rightarrow> bool" where
  "isNetworkError T e \<longleftrightarrow> says T e ''econnrefused'' \<or> says T e ''enotfound''
     \<or> says T e ''enonet'' \<or> says T e ''network'' \<or> says T e ''dns''"

definition isMalformedResponse :: "text_env \<Rightarrow> thrown \<Rightarrow> bool" where
  "isMalformedResponse T e \<longleftrightarrow>
     says T e ''malformed'' \<or> says T e ''unexpected token'' \<or> says T e ''parse error''"

subsection \<open>Retry-After\<close>

definition trimmed_text :: "jsstr \<Rightarrow> jsstr option" where
  "trimmed_text s = (if js_trim s = [] then None else Some (js_trim s))"

text \<open>The text of a header value: a string, a number, or the first entry of an array of them.\<close>

fun header_text :: "text_env \<Rightarrow> jsval \<Rightarrow> (jsstr option) option" where
  "header_text T (JStr s) = Some (trimmed_text s)"
| "header_text T (JNum n) = Some (trimmed_text (text_of T (JNum n)))"
| "header_text T v = None"

definition header_scalar :: "jsval \<Rightarrow> jsval" where
  "header_scalar v = (case v of JArr [] \<Rightarrow> JUndefined | JArr (x # _) \<Rightarrow> x | _ \<Rightarrow> v)"

fun find_header :: "text_env \<Rightarrow> jsstr \<Rightarrow> (jsstr \<times> jsval) list \<Rightarrow> jsstr option" where
  "find_header T name [] = None"
| "find_header T name ((k, v) # kvs) =
     (if lower_case T k \<noteq> name then find_header T name kvs
      else case header_text T (header_scalar v) of
        Some r \<Rightarrow> r
      | None \<Rightarrow> find_header T name kvs)"

fun readHeader :: "text_env \<Rightarrow> header_source \<Rightarrow> jsstr \<Rightarrow> jsstr option" where
  "readHeader T (HeaderGet get) name =
     (case get name of JStr s \<Rightarrow> trimmed_text s | _ \<Rightarrow> None)"
| "readHeader T (HeaderValue (JObj kvs)) name = find_header T name kvs"
| "readHeader T (HeaderValue _) name = None"

text \<open>\<open>Number.isFinite(v) \<and> v > 0\<close>.\<close>

fun positive_finite :: "jsnum \<Rightarrow> rat option" where
  "positive_finite (Fin q) = (if 0 < q then Some q else None)"
| "positive_finite _ = None"

definition scale_num :: "(rat \<Rightarrow> rat) \<Rightarrow> jsnum \<Rightarrow> jsnum" where
  "scale_num f n = (case n of Fin q \<Rightarrow> Fin (f q) | _ \<Rightarrow> n)"

definition extractRetryAfterMs :: "text_env \<Rightarrow> rat \<Rightarrow> thrown \<Rightarrow> rat option" where
  "extractRetryAfterMs T now e =
     (if \<not> val_truthy (th_value e) then None
      else case Option.bind (readHeader T (th_headers e) (js ''retry-after-ms''))
                  (positive_finite \<circ> number_of T) of
        Some ms \<Rightarrow> Some ms
      | None \<Rightarrow>
          (case readHeader T (th_headers e) (js ''retry-after'') of
             None \<Rightarrow> None
           | Some retryAfter \<Rightarrow>
               (case positive_finite (number_of T retryAfter) of
                  Some seconds \<Rightarrow> Some (seconds * 1000)
                | None \<Rightarrow>
                    positive_finite (scale_num (\<lambda>q. q - now) (date_parse T retryAfter)))))"

subsection \<open>classifyProviderError\<close>

definition fail_fast :: "failure_kind \<Rightarrow> jsnum option \<Rightarrow> classification" where
  "fail_fast k status =
     \<lparr>cl_kind = k, cl_disposition = FailFast, cl_retryAfterMs = None, cl_status = status\<rparr>"

definition retry_or_recover ::
  "bool \<Rightarrow> failure_kind \<Rightarrow> rat option \<Rightarrow> jsnum option \<Rightarrow> classification" where
  "retry_or_recover semanticDeltaSeen k retryAfterMs status =
     \<lparr>cl_kind = k, cl_disposition = (if semanticDeltaSeen then RecoverStream else RetryPrecommit),
      cl_retryAfterMs = retryAfterMs, cl_status = status\<rparr>"

definition status_is :: "jsnum option \<Rightarrow> int \<Rightarrow> bool" where
  "status_is s n \<longleftrightarrow> s = Some (Fin (of_int n))"

fun status_at_least_500 :: "jsnum option \<Rightarrow> bool" where
  "status_at_least_500 (Some (Fin q)) = (500 \<le> q)"
| "status_at_least_500 (Some PosInf) = True"
| "status_at_least_500 _ = False"

definition classifyProviderError :: "text_env \<Rightarrow> rat \<Rightarrow> thrown \<Rightarrow> bool \<Rightarrow> classification" where
  "classifyProviderError T now e semanticDeltaSeen =
     (let status = extractStatus e; retryAfterMs = extractRetryAfterMs T now e in
      if isProviderRequestPreflightError e then fail_fast KPreflightRejected None
      else if isAbortError e then fail_fast KAborted None
      else if status_is status 401 \<or> status_is status 403 then fail_fast KAuthFailed status
      else if status_is status 402 \<or> status_is status 429 \<and> isQuotaError T e
      then (fail_fast KQuotaOrCreditExhausted status)\<lparr>cl_retryAfterMs := retryAfterMs\<rparr>
      else if status_is status 404 then fail_fast KModelNotFound status
      else if status_is status 400
      then (if isUnsupportedEffort T e then fail_fast KUnsupportedEffort status
            else if isContextOverflow T e then fail_fast KContextOverflow status
            else fail_fast KInvalidRequest status)
      else if status_is status 413 then fail_fast KRequestTooLarge status
      else if isContentPolicy T e then fail_fast KContentPolicy status
      else if status_is status 408
      then retry_or_recover semanticDeltaSeen KConflict retryAfterMs status
      else if status_is status 409
      then \<lparr>cl_kind = KConflict, cl_disposition = RetryPrecommit,
            cl_retryAfterMs = retryAfterMs, cl_status = status\<rparr>
      else if status_is status 429
      then retry_or_recover semanticDeltaSeen KRateLimit retryAfterMs status
      else if status_is status 529
      then retry_or_recover semanticDeltaSeen KProviderOverloaded retryAfterMs status
      else if status_at_least_500 status
      then retry_or_recover semanticDeltaSeen KServerError retryAfterMs status
      else if isConnectionReset T e
      then retry_or_recover semanticDeltaSeen KConnectionReset None None
      else if isTimeout T e
      then retry_or_recover semanticDeltaSeen
             (if isConnectTimeout T e then KConnectTimeout else KReadTimeout) None None
      else if isNetworkError T e
      then retry_or_recover semanticDeltaSeen KNetworkError None None
      else if isMalformedResponse T e
      then retry_or_recover semanticDeltaSeen KMalformedResponse None None
      else if semanticDeltaSeen
      then \<lparr>cl_kind = KStreamInterrupted, cl_disposition = RecoverStream,
            cl_retryAfterMs = None, cl_status = None\<rparr>
      else \<lparr>cl_kind = KUnknown, cl_disposition = RetryPrecommit,
            cl_retryAfterMs = None, cl_status = None\<rparr>)"

subsection \<open>Properties\<close>

lemma positive_finite_pos: "positive_finite n = Some q \<Longrightarrow> 0 < q"
  by (cases n) (auto split: if_splits)

lemma retry_after_positive: "extractRetryAfterMs T now e = Some ms \<Longrightarrow> 0 < ms"
  by (auto simp: extractRetryAfterMs_def bind_eq_Some_conv split: if_splits option.splits
      dest!: positive_finite_pos)

lemmas classify_simps = classifyProviderError_def fail_fast_def retry_or_recover_def Let_def

text \<open>Once the stream has shown output, a failed attempt is never replayed
  from the start, except on status 409; and a stream is only continued when it has shown
  output.\<close>

lemma replay_after_output_only_on_conflict:
  "(cl_disposition (classifyProviderError T now e seen) = RecoverStream \<longrightarrow> seen)
   \<and> (seen \<and> cl_disposition (classifyProviderError T now e seen) = RetryPrecommit
        \<longrightarrow> cl_status (classifyProviderError T now e seen) = Some (Fin 409))"
  by (auto simp: classify_simps status_is_def)

text \<open>Aborts, preflight rejections and the client errors 400 to 404 and
  413 are never retried, whatever the message says; a delay taken from a header is positive.\<close>

lemma client_errors_fail_fast:
  "(isAbortError e \<or> isProviderRequestPreflightError e
      \<or> (\<exists>s \<in> set [400, 401, 402, 403, 404, 413]. extractStatus e = Some (Fin (of_int s)))
    \<longrightarrow> cl_disposition (classifyProviderError T now e seen) = FailFast)
   \<and> (\<forall>ms. cl_retryAfterMs (classifyProviderError T now e seen) = Some ms \<longrightarrow> 0 < ms)"
  using retry_after_positive [of T now e]
  by (auto simp: classify_simps status_is_def)

definition plain_text_env :: text_env where
  "plain_text_env = \<lparr>lower_case = id, number_of = (\<lambda>s. NaN), date_parse = (\<lambda>s. NaN),
     text_of = (\<lambda>v. [])\<rparr>"

definition status_error :: "int \<Rightarrow> thrown" where
  "status_error n = \<lparr>th_isError = True, th_value = JObj [(js ''status'', jint n)],
     th_headers = HeaderValue JUndefined\<rparr>"

lemma replay_after_output_only_on_conflict_example:
  "cl_disposition (classifyProviderError plain_text_env 0 (status_error 409) True) = RetryPrecommit
   \<and> cl_status (classifyProviderError plain_text_env 0 (status_error 409) True) = Some (Fin 409)"
proof -
  have "cl_disposition (classifyProviderError plain_text_env 0 (status_error 409) True)
      = RetryPrecommit" by code_simp
  with replay_after_output_only_on_conflict [of plain_text_env 0 "status_error 409" True]
  show ?thesis by simp
qed

end
