(* ===== verification/ProviderCoordinator.thy ===== *)
theory ProviderCoordinator
  imports ErrorClassifier
begin

section \<open>The provider resilience coordinator\<close>

text \<open>
  Models \<open>src/src/services/provider-resilience/coordinator.ts\<close> and the configuration of
  \<open>types.ts\<close>. Everything the coordinator awaits or reads is an entry of the environment of the
  attempt: the clock, the abort flag, the random number, the gate's answer, the calls of the
  attempt's reporter, the transport's result. The calls it makes to the transport and the timer,
  the leases it gets and releases and the cooldowns it reports are collected in a trace. The diagnostic metrics counters are left out, and so is the
  text of the errors. Counts are integers, delays rationals.
\<close>

subsection \<open>Configuration and records\<close>

record resilience_config =
  rc_enabled :: bool
  rc_maxTotalAttempts :: int
  rc_baseDelayMs :: rat
  rc_maxDelayMs :: rat
  rc_minRateLimitDelayMs :: rat
  rc_maxRetryAfterMs :: rat
  rc_maxElapsedMs :: rat
  rc_maxStreamRecoveries :: int
  rc_circuitFailureThreshold :: int
  rc_circuitWindowMs :: int
  rc_circuitCooldownMs :: int

definition DEFAULT_PROVIDER_RESILIENCE_CONFIG :: resilience_config where
  "DEFAULT_PROVIDER_RESILIENCE_CONFIG =
     \<lparr>rc_enabled = True, rc_maxTotalAttempts = 3, rc_baseDelayMs = 500, rc_maxDelayMs = 8000,
      rc_minRateLimitDelayMs = 2000, rc_maxRetryAfterMs = 60000, rc_maxElapsedMs = 90000,
      rc_maxStreamRecoveries = 1, rc_circuitFailureThreshold = 5, rc_circuitWindowMs = 60000,
      rc_circuitCooldownMs = 30000\<rparr>"

record request_context =
  rx_logicalRequestId :: jsstr
  rx_providerKey :: jsstr
  rx_requestedModel :: jsstr
  rx_fallbackModel :: "jsstr option"

datatype attempt_outcome = AtSucceeded | AtFailed | AtAborted

datatype attempt_report = TextDelta jsstr | ToolCallDelta | FinishReason jsstr

record token_usage =
  tu_prompt :: int
  tu_completion :: int
  tu_total :: int

record attempt_record =
  at_attemptId :: jsstr
  at_logicalRequestId :: jsstr
  at_attemptNumber :: int
  at_model :: jsstr
  at_startedAt :: rat
  at_endedAt :: rat
  at_providerRequestId :: "jsstr option"
  at_status :: "jsnum option"
  at_failureKind :: "failure_kind option"
  at_disposition :: "disposition option"
  at_retryAfterMs :: "rat option"
  at_backoffMs :: "rat option"
  at_semanticDeltaSeen :: bool
  at_visibleTextBytes :: nat
  at_toolCallDeltaSeen :: bool
  at_terminalFinishReasonSeen :: bool
  at_finishReason :: "jsstr option"
  at_outcome :: attempt_outcome
  at_usage :: "token_usage option"

datatype final_state = FSucceeded | FRecovered | FRetryExhausted | FFailedFast | FAborted

datatype usage_confidence = Exact | Partial | UnknownUsage

record request_diagnostics =
  dg_finalModel :: "jsstr option"
  dg_finalState :: final_state
  dg_attempts :: "attempt_record list"
  dg_retryCount :: nat
  dg_recoveryCount :: nat
  dg_fallbackCount :: nat
  dg_totalBackoffMs :: rat
  dg_usageConfidence :: usage_confidence
  dg_unknownBilled :: nat

datatype exhausted_reason =
    MaxElapsed | AbortedBySignal | FailFastOf failure_kind | MaxAttempts | MaxRecoveries
  | CooldownActive | AttemptsExhausted

datatype coordinator_call =
  GateAcquire | TransportCall int jsstr | GateCooldown rat | SleepFor rat | GateRelease

record transport_result =
  tr_response :: jsval
  tr_usage :: "token_usage option"
  tr_providerRequestId :: "jsstr option"

text \<open>What the outside world does during one attempt.\<close>

record attempt_env =
  ae_elapsed :: rat
  ae_aborted :: bool
  ae_attemptId :: jsstr
  ae_startedAt :: rat
  ae_gateError :: "thrown option"
  ae_reports :: "attempt_report list"
  ae_result :: "thrown + transport_result"
  ae_endedAt :: rat
  ae_now :: rat
  ae_cooldownNow :: rat
  ae_random :: rat

record coordinator_state =
  co_diag :: request_diagnostics
  co_lastError :: "thrown option"
  co_model :: jsstr
  co_fallbackUsed :: bool
  co_recovered :: bool
  co_trace :: "coordinator_call list"

subsection \<open>Backoff\<close>

definition computeProviderBackoff :: "resilience_config \<Rightarrow> int \<Rightarrow> rat option \<Rightarrow> rat \<Rightarrow> rat" where
  "computeProviderBackoff C attempt retryAfterMs random =
     (let jitter = (let cap = max 0 (min (rc_maxDelayMs C)
                                     (rc_baseDelayMs C * 2 ^ nat (max 0 (attempt - 1)))) in
                    cap / 2 + of_int \<lfloor>random * (cap / 2)\<rfloor>) in
      case retryAfterMs of
        Some ms \<Rightarrow>
          if ms > 0
          then min (rc_maxRetryAfterMs C)
                 (max (min ms (rc_maxRetryAfterMs C)) (rc_minRateLimitDelayMs C))
          else jitter
      | None \<Rightarrow> jitter)"

subsection \<open>Attempts\<close>

definition startAttempt :: "request_context \<Rightarrow> int \<Rightarrow> attempt_env \<Rightarrow> jsstr \<Rightarrow> attempt_record" where
  "startAttempt ctx attempt w model =
     \<lparr>at_attemptId = take 8 (ae_attemptId w), at_logicalRequestId = rx_logicalRequestId ctx,
      at_attemptNumber = attempt, at_model = model, at_startedAt = ae_startedAt w, at_endedAt = 0,
      at_providerRequestId = None, at_status = None, at_failureKind = None, at_disposition = None,
      at_retryAfterMs = None, at_backoffMs = None, at_semanticDeltaSeen = False,
      at_visibleTextBytes = 0, at_toolCallDeltaSeen = False, at_terminalFinishReasonSeen = False,
      at_finishReason = None, at_outcome = AtFailed, at_usage = None\<rparr>"

fun apply_report :: "attempt_report \<Rightarrow> attempt_record \<Rightarrow> attempt_record" where
  "apply_report (TextDelta text) r =
     (if text = [] then r
      else r\<lparr>at_semanticDeltaSeen := True,
             at_visibleTextBytes := at_visibleTextBytes r + utf8_bytes text\<rparr>)"
| "apply_report ToolCallDelta r = r\<lparr>at_semanticDeltaSeen := True, at_toolCallDeltaSeen := True\<rparr>"
| "apply_report (FinishReason f) r =
     (if js_trim f = [] then r
      else r\<lparr>at_terminalFinishReasonSeen := True, at_finishReason := Some (js_trim f)\<rparr>)"

text \<open>The diagnostics hold the current attempt's record as their last entry.\<close>

definition put_attempt :: "attempt_record \<Rightarrow> coordinator_state \<Rightarrow> coordinator_state" where
  "put_attempt r s = s\<lparr>co_diag := (co_diag s)
     \<lparr>dg_attempts := butlast (dg_attempts (co_diag s)) @ [r]\<rparr>\<rparr>"

definition final :: "final_state \<Rightarrow> coordinator_state \<Rightarrow> coordinator_state" where
  "final f s = s\<lparr>co_diag := (co_diag s)\<lparr>dg_finalState := f\<rparr>\<rparr>"

definition call :: "coordinator_call \<Rightarrow> coordinator_state \<Rightarrow> coordinator_state" where
  "call c s = s\<lparr>co_trace := co_trace s @ [c]\<rparr>"

definition fallback_kinds :: "failure_kind list" where
  "fallback_kinds = [KRateLimit, KProviderOverloaded, KServerError, KNetworkError, KConnectTimeout,
     KReadTimeout, KConnectionReset, KQuotaOrCreditExhausted, KModelNotFound]"

definition shouldFallback :: "request_context \<Rightarrow> coordinator_state \<Rightarrow> failure_kind \<Rightarrow> bool" where
  "shouldFallback ctx s k \<longleftrightarrow> \<not> co_fallbackUsed s \<and> truthy (rx_fallbackModel ctx)
     \<and> the (rx_fallbackModel ctx) \<noteq> co_model s \<and> k \<in> set fallback_kinds"

type_synonym attempt_result =
  "((exhausted_reason + jsval) \<times> coordinator_state) + coordinator_state"

subsection \<open>The try block: a result\<close>

definition on_success ::
  "attempt_env \<Rightarrow> transport_result \<Rightarrow> attempt_record \<Rightarrow> coordinator_state \<Rightarrow> attempt_result" where
  "on_success w res r s =
     (let r' = r\<lparr>at_outcome := AtSucceeded, at_endedAt := ae_endedAt w,
                 at_usage := (case tr_usage res of None \<Rightarrow> at_usage r | u \<Rightarrow> u),
                 at_providerRequestId := (if truthy (tr_providerRequestId res)
                    then tr_providerRequestId res else at_providerRequestId r)\<rparr>;
          d = co_diag (put_attempt r' s) in
      Inl (Inr (tr_response res),
           s\<lparr>co_diag := d\<lparr>dg_finalModel := Some (co_model s),
               dg_finalState := (if co_recovered s then FRecovered else FSucceeded),
               dg_usageConfidence := (case tr_usage res of None \<Rightarrow> dg_usageConfidence d
                 | Some _ \<Rightarrow> if dg_unknownBilled d > 0 then Partial else Exact)\<rparr>\<rparr>))"

subsection \<open>The catch block: retry, recovery, fallback\<close>

definition note_failure ::
  "text_env \<Rightarrow> request_context \<Rightarrow> bool \<Rightarrow> attempt_env \<Rightarrow> thrown \<Rightarrow> attempt_record \<Rightarrow>
   coordinator_state \<Rightarrow> classification \<Rightarrow> attempt_record \<times> coordinator_state" where
  "note_failure T ctx gate w e r s c =
     (let s1 = (if cl_kind c = KRateLimit \<and> cl_retryAfterMs c \<noteq> None \<and> gate
                then call (GateCooldown (ae_cooldownNow w + the (cl_retryAfterMs c))) s else s);
          r1 = r\<lparr>at_failureKind := Some (cl_kind c)\<rparr>;
          s2 = (if at_semanticDeltaSeen r1 \<and> at_usage r1 = None
                then s1\<lparr>co_diag := (co_diag s1)
                       \<lparr>dg_unknownBilled := dg_unknownBilled (co_diag s1) + 1,
                        dg_usageConfidence := Partial\<rparr>, co_recovered := True\<rparr>
                else s1) in
      (r1, s2))"

definition retry_or_stop ::
  "resilience_config \<Rightarrow> int \<Rightarrow> attempt_env \<Rightarrow> classification \<Rightarrow> disposition \<Rightarrow> attempt_record \<Rightarrow>
   coordinator_state \<Rightarrow> attempt_result" where
  "retry_or_stop C attempt w c d r s =
     (if attempt \<ge> rc_maxTotalAttempts C
      then Inl (Inl MaxAttempts, final FRetryExhausted (put_attempt r s))
      else if d = RecoverStream
        \<and> int (dg_recoveryCount (co_diag s)) \<ge> rc_maxStreamRecoveries C
      then Inl (Inl MaxRecoveries, final FRetryExhausted (put_attempt r s))
      else
        (let delay = computeProviderBackoff C attempt (cl_retryAfterMs c) (ae_random w);
             s1 = put_attempt (r\<lparr>at_backoffMs := Some delay\<rparr>) s in
         Inr (call (SleepFor delay)
           (s1\<lparr>co_diag := (co_diag s1)
             \<lparr>dg_totalBackoffMs := dg_totalBackoffMs (co_diag s1) + delay,
              dg_retryCount := dg_retryCount (co_diag s1) + 1,
              dg_recoveryCount := dg_recoveryCount (co_diag s1)
                + (if d = RecoverStream then 1 else 0)\<rparr>\<rparr>))))"

definition on_failure ::
  "resilience_config \<Rightarrow> text_env \<Rightarrow> request_context \<Rightarrow> bool \<Rightarrow> int \<Rightarrow> attempt_env \<Rightarrow> thrown \<Rightarrow>
   attempt_record \<Rightarrow> coordinator_state \<Rightarrow> attempt_result" where
  "on_failure C T ctx gate attempt w e r0 s0 =
     (let s = s0\<lparr>co_lastError := Some e\<rparr>;
          r = r0\<lparr>at_endedAt := ae_endedAt w, at_outcome := AtFailed\<rparr>;
          c = classifyProviderError T (ae_now w) e (at_semanticDeltaSeen r) in
      if cl_kind c = KAborted
      then Inl (Inl AbortedBySignal, final FAborted (put_attempt
             (r\<lparr>at_outcome := AtAborted, at_failureKind := Some KAborted,
                at_disposition := Some FailFast\<rparr>) s))
      else
        (let (r1, s1) = note_failure T ctx gate w e r s c;
             d = (if shouldFallback ctx s1 (cl_kind c) then FallbackOnce else cl_disposition c);
             r2 = r1\<lparr>at_disposition := Some d, at_retryAfterMs := cl_retryAfterMs c,
                     at_status := cl_status c\<rparr> in
         case d of
           FailFast \<Rightarrow> Inl (Inl (FailFastOf (cl_kind c)), final FFailedFast (put_attempt r2 s1))
         | FallbackOnce \<Rightarrow>
             (let s2 = put_attempt r2 s1 in
              Inr (s2\<lparr>co_fallbackUsed := True,
                      co_diag := (co_diag s2)
                        \<lparr>dg_fallbackCount := dg_fallbackCount (co_diag s2) + 1\<rparr>,
                      co_model := the (rx_fallbackModel ctx)\<rparr>))
         | DeferUntilCooldown \<Rightarrow> Inl (Inl CooldownActive, final FRetryExhausted (put_attempt r2 s1))
         | _ \<Rightarrow> retry_or_stop C attempt w c d r2 s1))"

subsection \<open>One attempt, with its lease, and the loop\<close>

text \<open>The \<open>finally\<close> block: the lease, when there is one, is released on every exit.\<close>

definition with_release :: "bool \<Rightarrow> attempt_result \<Rightarrow> attempt_result" where
  "with_release held res =
     (if held then map_sum (map_prod id (call GateRelease)) (call GateRelease) res else res)"

definition run_attempt ::
  "resilience_config \<Rightarrow> text_env \<Rightarrow> request_context \<Rightarrow> bool \<Rightarrow> int \<Rightarrow> attempt_env \<Rightarrow>
   coordinator_state \<Rightarrow> attempt_result" where
  "run_attempt C T ctx gate attempt w s =
     (if ae_elapsed w \<ge> rc_maxElapsedMs C then Inl (Inl MaxElapsed, final FRetryExhausted s)
      else if ae_aborted w then Inl (Inl AbortedBySignal, final FAborted s)
      else
        (let r0 = startAttempt ctx attempt w (co_model s);
             s1 = s\<lparr>co_diag := (co_diag s)\<lparr>dg_attempts := dg_attempts (co_diag s) @ [r0]\<rparr>\<rparr>;
             denied = (if gate then ae_gateError w else None) in
         case denied of
           Some e \<Rightarrow> on_failure C T ctx gate attempt w e r0 s1
         | None \<Rightarrow>
             (let s2 = (if gate then call GateAcquire s1 else s1);
                  s3 = call (TransportCall attempt (co_model s)) s2;
                  r = fold apply_report (ae_reports w) r0 in
              with_release gate
                (case ae_result w of
                   Inr res \<Rightarrow> on_success w res r s3
                 | Inl e \<Rightarrow> on_failure C T ctx gate attempt w e r s3))))"

definition new_coordinator_state :: "request_context \<Rightarrow> coordinator_state" where
  "new_coordinator_state ctx =
     \<lparr>co_diag = \<lparr>dg_finalModel = None, dg_finalState = FSucceeded, dg_attempts = [],
        dg_retryCount = 0, dg_recoveryCount = 0, dg_fallbackCount = 0, dg_totalBackoffMs = 0,
        dg_usageConfidence = UnknownUsage, dg_unknownBilled = 0\<rparr>,
      co_lastError = None, co_model = rx_requestedModel ctx, co_fallbackUsed = False,
      co_recovered = False, co_trace = []\<rparr>"

function attempt_loop ::
  "resilience_config \<Rightarrow> text_env \<Rightarrow> request_context \<Rightarrow> bool \<Rightarrow> (int \<Rightarrow> attempt_env) \<Rightarrow> int \<Rightarrow>
   coordinator_state \<Rightarrow> (exhausted_reason + jsval) \<times> coordinator_state" where
  "attempt_loop C T ctx gate world attempt s =
     (if attempt \<le> rc_maxTotalAttempts C
      then (case run_attempt C T ctx gate attempt (world attempt) s of
              Inl stop \<Rightarrow> stop
            | Inr s' \<Rightarrow> attempt_loop C T ctx gate world (attempt + 1) s')
      else (Inl AttemptsExhausted, final FRetryExhausted s))"
  by pat_completeness auto
termination
  by (relation "measure (\<lambda>(C, T, ctx, gate, world, attempt, s).
                  nat (rc_maxTotalAttempts C + 1 - attempt))") auto

lemmas [simp del] = attempt_loop.simps

definition execute ::
  "resilience_config \<Rightarrow> text_env \<Rightarrow> request_context \<Rightarrow> bool \<Rightarrow> (int \<Rightarrow> attempt_env) \<Rightarrow>
   (exhausted_reason + jsval) \<times> coordinator_state" where
  "execute C T ctx gate world = attempt_loop C T ctx gate world 1 (new_coordinator_state ctx)"

end
