(* ===== verification/CoordinatorProperties.thy ===== *)
theory CoordinatorProperties
  imports ProviderCoordinator
begin

section \<open>Properties of the resilience coordinator\<close>

text \<open>
  The invariant of the attempt loop and its consequences: budgets, the shape of a result, the
  discipline of the gate's leases, the bounds of the backoff.
\<close>

subsection \<open>Leases in a trace\<close>

text \<open>A trace, from a state that holds a lease or not: leases are taken one at a time and given
  back, the transport is called only under a lease, none is held at the end.\<close>

fun well_leased :: "bool \<Rightarrow> coordinator_call list \<Rightarrow> bool" where
  "well_leased held [] \<longleftrightarrow> \<not> held"
| "well_leased held (GateAcquire # cs) \<longleftrightarrow> \<not> held \<and> well_leased True cs"
| "well_leased held (GateRelease # cs) \<longleftrightarrow> held \<and> well_leased False cs"
| "well_leased held (TransportCall n m # cs) \<longleftrightarrow> held \<and> well_leased held cs"
| "well_leased held (GateCooldown t # cs) \<longleftrightarrow> well_leased held cs"
| "well_leased held (SleepFor t # cs) \<longleftrightarrow> well_leased held cs"

lemma well_leased_append:
  "well_leased h cs \<Longrightarrow> well_leased False ds \<Longrightarrow> well_leased h (cs @ ds)"
  by (induction h cs rule: well_leased.induct) auto

fun transport_calls :: "coordinator_call list \<Rightarrow> nat" where
  "transport_calls [] = 0"
| "transport_calls (TransportCall n m # cs) = transport_calls cs + 1"
| "transport_calls (c # cs) = transport_calls cs"

lemma transport_calls_append [simp]:
  "transport_calls (cs @ ds) = transport_calls cs + transport_calls ds"
  by (induction cs rule: transport_calls.induct) auto

subsection \<open>The invariant of the attempt loop\<close>

definition retried :: "attempt_record \<Rightarrow> bool" where
  "retried r \<longleftrightarrow> at_outcome r = AtFailed
     \<and> (case at_disposition r of
          Some RetryPrecommit \<Rightarrow> at_backoffMs r \<noteq> None
        | Some RecoverStream \<Rightarrow> at_backoffMs r \<noteq> None
        | Some FallbackOnce \<Rightarrow> at_backoffMs r = None
        | _ \<Rightarrow> False)"

definition backoff_of :: "attempt_record \<Rightarrow> rat" where
  "backoff_of r = (case at_backoffMs r of None \<Rightarrow> 0 | Some d \<Rightarrow> d)"

fun counts_ok ::
  "resilience_config \<Rightarrow> attempt_record list \<Rightarrow> nat \<Rightarrow> nat \<Rightarrow> nat \<Rightarrow> rat \<Rightarrow> bool" where
  "counts_ok C rs retries recoveries fallbacks backoff \<longleftrightarrow>
     retries = length (filter (\<lambda>r. at_backoffMs r \<noteq> None) rs)
   \<and> recoveries = length (filter (\<lambda>r. at_disposition r = Some RecoverStream
                                  \<and> at_backoffMs r \<noteq> None) rs)
   \<and> recoveries \<le> nat (rc_maxStreamRecoveries C)
   \<and> fallbacks = length (filter (\<lambda>r. at_disposition r = Some FallbackOnce) rs)
   \<and> fallbacks \<le> 1
   \<and> backoff = sum_list (map backoff_of rs)"

definition diag_ok :: "resilience_config \<Rightarrow> request_diagnostics \<Rightarrow> bool" where
  "diag_ok C d \<longleftrightarrow> counts_ok C (dg_attempts d) (dg_retryCount d) (dg_recoveryCount d)
                       (dg_fallbackCount d) (dg_totalBackoffMs d)"

fun models_ok :: "request_context \<Rightarrow> bool \<Rightarrow> jsstr \<Rightarrow> nat \<Rightarrow> jsstr list \<Rightarrow> bool" where
  "models_ok ctx fallbackUsed model fallbacks ms \<longleftrightarrow>
     (if fallbackUsed
      then model = the (rx_fallbackModel ctx) \<and> fallbacks = 1
      else model = rx_requestedModel ctx \<and> fallbacks = 0
        \<and> (\<forall>m \<in> set ms. m = rx_requestedModel ctx))
   \<and> (\<exists>i j. ms = replicate i (rx_requestedModel ctx) @ replicate j (the (rx_fallbackModel ctx)))"

definition state_models_ok :: "request_context \<Rightarrow> coordinator_state \<Rightarrow> bool" where
  "state_models_ok ctx s \<longleftrightarrow> models_ok ctx (co_fallbackUsed s) (co_model s)
     (dg_fallbackCount (co_diag s)) (map at_model (dg_attempts (co_diag s)))"

lemmas [simp del] = counts_ok.simps models_ok.simps

definition loop_inv ::
  "resilience_config \<Rightarrow> request_context \<Rightarrow> bool \<Rightarrow> int \<Rightarrow> coordinator_state \<Rightarrow> bool" where
  "loop_inv C ctx gate attempt s \<longleftrightarrow>
     int (length (dg_attempts (co_diag s))) = attempt - 1
   \<and> transport_calls (co_trace s) \<le> length (dg_attempts (co_diag s))
   \<and> list_all retried (dg_attempts (co_diag s))
   \<and> diag_ok C (co_diag s) \<and> state_models_ok ctx s
   \<and> (gate \<longrightarrow> well_leased False (co_trace s))"

subsection \<open>What a failure changes\<close>

definition res_state :: "attempt_result \<Rightarrow> coordinator_state" where
  "res_state res = case_sum snd id res"

lemma res_state_simps [simp]: "res_state (Inl (v, s)) = s" "res_state (Inr s) = s"
  by (simp_all add: res_state_def)

lemma put_attempt_fields [simp]:
  "co_model (put_attempt r s) = co_model s" "co_trace (put_attempt r s) = co_trace s"
  "co_fallbackUsed (put_attempt r s) = co_fallbackUsed s"
  "co_lastError (put_attempt r s) = co_lastError s" "co_recovered (put_attempt r s) = co_recovered s"
  "co_diag (put_attempt r s)
     = (co_diag s)\<lparr>dg_attempts := butlast (dg_attempts (co_diag s)) @ [r]\<rparr>"
  by (simp_all add: put_attempt_def)

lemma final_fields [simp]:
  "co_model (final f s) = co_model s" "co_trace (final f s) = co_trace s"
  "co_fallbackUsed (final f s) = co_fallbackUsed s" "co_lastError (final f s) = co_lastError s"
  "co_diag (final f s) = (co_diag s)\<lparr>dg_finalState := f\<rparr>"
  by (simp_all add: final_def)

lemma call_fields [simp]:
  "co_model (call c s) = co_model s" "co_trace (call c s) = co_trace s @ [c]"
  "co_fallbackUsed (call c s) = co_fallbackUsed s" "co_diag (call c s) = co_diag s"
  "co_lastError (call c s) = co_lastError s" "co_recovered (call c s) = co_recovered s"
  by (simp_all add: call_def)

lemma note_failure_fields:
  assumes "note_failure T ctx gate w e r s c = (r', s')"
  shows "r' = r\<lparr>at_failureKind := Some (cl_kind c)\<rparr> \<and> co_model s' = co_model s
    \<and> co_fallbackUsed s' = co_fallbackUsed s
    \<and> dg_attempts (co_diag s') = dg_attempts (co_diag s)
    \<and> dg_retryCount (co_diag s') = dg_retryCount (co_diag s)
    \<and> dg_recoveryCount (co_diag s') = dg_recoveryCount (co_diag s)
    \<and> dg_fallbackCount (co_diag s') = dg_fallbackCount (co_diag s)
    \<and> dg_totalBackoffMs (co_diag s') = dg_totalBackoffMs (co_diag s)
    \<and> dg_finalState (co_diag s') = dg_finalState (co_diag s)
    \<and> (\<exists>ds. co_trace s' = co_trace s @ ds \<and> transport_calls ds = 0
         \<and> (\<forall>h cs. well_leased h (ds @ cs) = well_leased h cs))"
  using assms by (auto simp: note_failure_def Let_def split: if_splits)

text \<open>The state before a failure is handled: the last record is the one of the attempt that
  failed, and it has not been decided yet.\<close>

definition undecided :: "attempt_record \<Rightarrow> bool" where
  "undecided r \<longleftrightarrow> at_backoffMs r = None \<and> at_disposition r = None"

lemma undecided_report: "undecided (apply_report p r) = undecided r"
  by (cases p) (auto simp: undecided_def)

lemma report_model [simp]: "at_model (apply_report p r) = at_model r"
  by (cases p) auto

lemma fold_report: "undecided (fold apply_report ps r) = undecided r
    \<and> at_model (fold apply_report ps r) = at_model r"
  by (induction ps arbitrary: r) (simp_all add: undecided_report)

lemma start_undecided: "undecided (startAttempt ctx n w m)" "at_model (startAttempt ctx n w m) = m"
  by (simp_all add: undecided_def startAttempt_def)

lemma counts_undecided:
  "at_backoffMs r = None \<Longrightarrow> at_disposition r \<noteq> Some FallbackOnce \<Longrightarrow>
   counts_ok C (rs @ [r]) a b c t = counts_ok C rs a b c t"
  by (simp add: counts_ok.simps backoff_of_def)

lemma counts_fallback:
  "counts_ok C rs a b 0 t \<Longrightarrow> at_backoffMs r = None \<Longrightarrow> at_disposition r = Some FallbackOnce \<Longrightarrow>
   counts_ok C (rs @ [r]) a b (Suc 0) t"
  by (simp add: counts_ok.simps backoff_of_def)

lemma counts_retry:
  "counts_ok C rs a b c t \<Longrightarrow> at_backoffMs r = Some d \<Longrightarrow> at_disposition r = Some RetryPrecommit \<Longrightarrow>
   counts_ok C (rs @ [r]) (Suc a) b c (t + d)"
  by (simp add: counts_ok.simps backoff_of_def)

lemma counts_recover:
  "counts_ok C rs a b c t \<Longrightarrow> int b < rc_maxStreamRecoveries C \<Longrightarrow> at_backoffMs r = Some d \<Longrightarrow>
   at_disposition r = Some RecoverStream \<Longrightarrow> counts_ok C (rs @ [r]) (Suc a) (Suc b) c (t + d)"
  by (simp add: counts_ok.simps backoff_of_def)

lemma models_next:
  assumes "models_ok ctx used m fb ms"
  shows "models_ok ctx used m fb (ms @ [m])"
proof -
  let ?a = "rx_requestedModel ctx" and ?b = "the (rx_fallbackModel ctx)"
  obtain i j where ms: "ms = replicate i ?a @ replicate j ?b"
    using assms by (auto simp: models_ok.simps)
  have "\<exists>i j. ms @ [m] = replicate i ?a @ replicate j ?b"
  proof (cases used)
    case True
    then have "ms @ [m] = replicate i ?a @ replicate (Suc j) ?b"
      using assms ms by (simp add: models_ok.simps replicate_append_same)
    then show ?thesis by blast
  next
    case False
    then have "\<forall>x \<in> set (ms @ [m]). x = ?a" using assms by (simp add: models_ok.simps)
    then have "ms @ [m] = replicate (length (ms @ [m])) ?a @ replicate 0 ?b"
      using replicate_length_same [of "ms @ [m]" ?a] by simp
    then show ?thesis by blast
  qed
  then show ?thesis using assms by (simp add: models_ok.simps split: if_splits)
qed

lemma models_fallback: "models_ok ctx False m fb ms \<Longrightarrow> models_ok ctx True (the (rx_fallbackModel ctx)) (Suc 0) ms"
  by (simp add: models_ok.simps)

lemma models_unused: "models_ok ctx False m fb ms \<Longrightarrow> fb = 0"
  by (simp add: models_ok.simps)

subsection \<open>The catch block\<close>

lemma classifier_dispositions:
  "cl_disposition (classifyProviderError T now e seen) \<in> {FailFast, RetryPrecommit, RecoverStream}"
  by (simp add: classify_simps)

lemma on_failure_kept:
  fixes C T ctx gate attempt w e r s
  assumes "diag_ok C (co_diag s)" "state_models_ok ctx s" "dg_attempts (co_diag s) = rs @ [r0]"
    and "undecided r0" "undecided r" "at_model r = at_model r0"
  shows "case on_failure C T ctx gate attempt w e r s of
      Inl (v, s') \<Rightarrow> diag_ok C (co_diag s') \<and> state_models_ok ctx s'
        \<and> (\<exists>x. v = Inl x) \<and> (\<exists>r'. dg_attempts (co_diag s') = rs @ [r'] \<and> at_outcome r' \<noteq> AtSucceeded)
        \<and> dg_finalState (co_diag s') \<notin> {FSucceeded, FRecovered}
    | Inr s' \<Rightarrow> diag_ok C (co_diag s') \<and> state_models_ok ctx s'
        \<and> (\<exists>r'. dg_attempts (co_diag s') = rs @ [r'] \<and> retried r')"
proof -
  let ?c = "classifyProviderError T (ae_now w) e (at_semanticDeltaSeen r)"
  let ?r = "r\<lparr>at_endedAt := ae_endedAt w, at_outcome := AtFailed\<rparr>"
  let ?s = "s\<lparr>co_lastError := Some e\<rparr>"
  have base: "counts_ok C rs (dg_retryCount (co_diag s)) (dg_recoveryCount (co_diag s))
      (dg_fallbackCount (co_diag s)) (dg_totalBackoffMs (co_diag s))"
    using assms(1,3,4) by (simp add: diag_ok_def undecided_def counts_undecided)
  have models: "models_ok ctx (co_fallbackUsed s) (co_model s) (dg_fallbackCount (co_diag s))
      (map at_model rs @ [at_model r])"
    using assms(2,3,6) by (simp add: state_models_ok_def)
  obtain r1 s1 where n: "note_failure T ctx gate w e ?r ?s ?c = (r1, s1)" by fastforce
  note nf = note_failure_fields [OF n]
  show ?thesis
  proof (cases "cl_kind ?c = KAborted")
    case True
    then show ?thesis
      using base models assms(3,5)
      by (simp add: on_failure_def Let_def diag_ok_def state_models_ok_def counts_undecided
          undecided_def)
  next
    case False
    show ?thesis
    proof (cases "shouldFallback ctx s1 (cl_kind ?c)")
      case True
      then have "\<not> co_fallbackUsed s" using nf by (simp add: shouldFallback_def)
      moreover from this have "dg_fallbackCount (co_diag s) = 0" using models models_unused by simp
      ultimately show ?thesis
        using False True base models nf assms(3,5) models_fallback
        by (simp add: on_failure_def n Let_def diag_ok_def state_models_ok_def counts_fallback
            undecided_def retried_def)
    next
      case no_fallback: False
      show ?thesis
        using False no_fallback base models nf assms(3,5)
          classifier_dispositions [of T "ae_now w" e "at_semanticDeltaSeen r"]
        by (cases "cl_disposition ?c")
           (simp_all add: on_failure_def n Let_def diag_ok_def state_models_ok_def counts_undecided
            counts_retry counts_recover undecided_def retried_def retry_or_stop_def)
    qed
  qed
qed

text \<open>What the catch block adds to the trace: a cooldown or a sleep, no transport call, and
  nothing that touches the lease.\<close>

definition quiet :: "coordinator_call list \<Rightarrow> bool" where
  "quiet ds \<longleftrightarrow> transport_calls ds = 0 \<and> (\<forall>h cs. well_leased h (ds @ cs) = well_leased h cs)"

lemma on_failure_trace:
  "\<exists>ds. co_trace (res_state (on_failure C T ctx gate attempt w e r s)) = co_trace s @ ds \<and> quiet ds"
proof -
  let ?c = "classifyProviderError T (ae_now w) e (at_semanticDeltaSeen r)"
  let ?r = "r\<lparr>at_endedAt := ae_endedAt w, at_outcome := AtFailed\<rparr>"
  let ?s = "s\<lparr>co_lastError := Some e\<rparr>"
  obtain r1 s1 where n: "note_failure T ctx gate w e ?r ?s ?c = (r1, s1)" by fastforce
  obtain ds where ds: "co_trace s1 = co_trace s @ ds" "quiet ds"
    using note_failure_fields [OF n] by (auto simp: quiet_def)
  then have "quiet (ds @ [SleepFor d])" for d by (simp add: quiet_def)
  moreover have "quiet []" by (simp add: quiet_def)
  ultimately show ?thesis
    using ds by (auto simp: on_failure_def n Let_def retry_or_stop_def split: disposition.splits)
qed

lemma release_state [simp]: "res_state (with_release False res) = res_state res"
  "co_diag (res_state (with_release h res)) = co_diag (res_state res)"
  "co_trace (res_state (with_release h res))
     = co_trace (res_state res) @ (if h then [GateRelease] else [])"
  by (auto simp: with_release_def res_state_def split: sum.split)

lemma run_attempt_trace:
  assumes "gate \<longrightarrow> well_leased False (co_trace s)"
  shows "(gate \<longrightarrow> well_leased False (co_trace (res_state (run_attempt C T ctx gate n w s))))
    \<and> transport_calls (co_trace (res_state (run_attempt C T ctx gate n w s)))
        \<le> transport_calls (co_trace s) + 1"
proof -
  let ?start = "startAttempt ctx n w (co_model s)"
  let ?s1 = "s\<lparr>co_diag := (co_diag s)\<lparr>dg_attempts := dg_attempts (co_diag s) @ [?start]\<rparr>\<rparr>"
  let ?s3 = "call (TransportCall n (co_model s)) (if gate then call GateAcquire ?s1 else ?s1)"
  let ?r = "fold apply_report (ae_reports w) ?start"
  have denied: "\<exists>ds. co_trace (res_state (on_failure C T ctx gate n w e ?start ?s1)) = co_trace s @ ds
      \<and> quiet ds" for e
    using on_failure_trace [of C T ctx gate n w e ?start ?s1] by simp
  have sent: "\<exists>ds. co_trace (res_state (case ae_result w of
        Inr res \<Rightarrow> on_success w res ?r ?s3 | Inl e \<Rightarrow> on_failure C T ctx gate n w e ?r ?s3))
      = co_trace ?s3 @ ds \<and> quiet ds"
    using on_failure_trace [of C T ctx gate n w _ ?r ?s3]
    by (cases "ae_result w") (auto simp: on_success_def Let_def quiet_def)
  have leased: "well_leased False (co_trace s @ ds)" if "quiet ds" "well_leased False (co_trace s)" for ds
    using that well_leased_append [of False "co_trace s" ds] by (simp add: quiet_def) (metis append_Nil2 well_leased.simps(1))
  have leased': "well_leased False (co_trace s @ GateAcquire # TransportCall n m # ds @ [GateRelease])"
    if "quiet ds" "well_leased False (co_trace s)" for ds m
    using that by (intro well_leased_append) (simp_all add: quiet_def)
  show ?thesis
  proof (cases "ae_elapsed w \<ge> rc_maxElapsedMs C \<or> ae_aborted w")
    case True
    then show ?thesis using assms by (auto simp: run_attempt_def)
  next
    case go: False
    show ?thesis
    proof (cases "if gate then ae_gateError w else None")
      case (Some e)
      then have "run_attempt C T ctx gate n w s = on_failure C T ctx gate n w e ?start ?s1"
        using go by (simp add: run_attempt_def Let_def split: if_splits)
      then show ?thesis using denied [of e] leased assms by (elim exE ssubst) (auto simp: quiet_def)
    next
      case None
      then have run: "run_attempt C T ctx gate n w s = with_release gate (case ae_result w of
          Inr res \<Rightarrow> on_success w res ?r ?s3 | Inl e \<Rightarrow> on_failure C T ctx gate n w e ?r ?s3)"
        using go by (simp add: run_attempt_def Let_def)
      obtain ds where "co_trace (res_state (run_attempt C T ctx gate n w s))
          = co_trace ?s3 @ ds @ (if gate then [GateRelease] else [])" "quiet ds"
        unfolding run release_state using sent by force
      then show ?thesis using leased' [of ds] assms by (cases gate) (auto simp: quiet_def)
    qed
  qed
qed

subsection \<open>The loop\<close>

definition loop_result ::
  "resilience_config \<Rightarrow> request_context \<Rightarrow> (int \<Rightarrow> attempt_env) \<Rightarrow>
   (exhausted_reason + jsval) \<times> coordinator_state \<Rightarrow> bool" where
  "loop_result C ctx world out \<longleftrightarrow>
     (let (res, s) = out; d = co_diag s in
      diag_ok C d \<and> state_models_ok ctx s
      \<and> list_all retried (butlast (dg_attempts d))
      \<and> int (length (dg_attempts d)) \<le> max 0 (rc_maxTotalAttempts C)
      \<and> (case res of
           Inr v \<Rightarrow> dg_attempts d \<noteq> [] \<and> at_outcome (last (dg_attempts d)) = AtSucceeded
             \<and> dg_finalState d \<in> {FSucceeded, FRecovered}
             \<and> dg_finalModel d = Some (at_model (last (dg_attempts d)))
             \<and> (\<exists>tr. ae_result (world (int (length (dg_attempts d)))) = Inr tr \<and> tr_response tr = v)
         | Inl _ \<Rightarrow> (\<forall>r \<in> set (dg_attempts d). at_outcome r \<noteq> AtSucceeded)
             \<and> dg_finalState d \<notin> {FSucceeded, FRecovered}))"

definition between :: "resilience_config \<Rightarrow> request_context \<Rightarrow> int \<Rightarrow> coordinator_state \<Rightarrow> bool" where
  "between C ctx attempt s \<longleftrightarrow>
     int (length (dg_attempts (co_diag s))) = attempt - 1
   \<and> list_all retried (dg_attempts (co_diag s))
   \<and> diag_ok C (co_diag s) \<and> state_models_ok ctx s"

lemma retried_failed: "list_all retried rs \<Longrightarrow> \<forall>r \<in> set rs. at_outcome r \<noteq> AtSucceeded"
  by (auto simp: list_all_iff retried_def)

lemma retried_butlast: "list_all retried rs \<Longrightarrow> list_all retried (butlast rs)"
  by (auto simp: list_all_iff dest: in_set_butlastD)

lemma release_cases:
  "(case with_release h res of Inl (v, s) \<Rightarrow> P v (co_diag s) (co_fallbackUsed s) (co_model s)
      | Inr s \<Rightarrow> Q (co_diag s) (co_fallbackUsed s) (co_model s))
   = (case res of Inl (v, s) \<Rightarrow> P v (co_diag s) (co_fallbackUsed s) (co_model s)
      | Inr s \<Rightarrow> Q (co_diag s) (co_fallbackUsed s) (co_model s))"
  by (auto simp: with_release_def split: sum.split)

lemma loop_result_cong:
  "loop_result C ctx world (v, call c s) = loop_result C ctx world (v, s)"
  "between C ctx n (call c s) = between C ctx n s"
  by (simp_all add: loop_result_def between_def state_models_ok_def)

lemma release_kept:
  "(case with_release h res of Inl out \<Rightarrow> loop_result C ctx world out | Inr s \<Rightarrow> between C ctx n s)
   = (case res of Inl out \<Rightarrow> loop_result C ctx world out | Inr s \<Rightarrow> between C ctx n s)"
  by (auto simp: with_release_def loop_result_cong split: sum.split prod.split)

lemma failure_step:
  assumes "int (length rs) = n - 1" "list_all retried rs" "n \<le> rc_maxTotalAttempts C" "1 \<le> n"
    and "diag_ok C (co_diag s)" "state_models_ok ctx s" "dg_attempts (co_diag s) = rs @ [r0]"
    and "undecided r0" "undecided r" "at_model r = at_model r0"
  shows "case on_failure C T ctx gate n w e r s of
      Inl out \<Rightarrow> loop_result C ctx world out | Inr s' \<Rightarrow> between C ctx (n + 1) s'"
proof (cases "on_failure C T ctx gate n w e r s")
  case (Inl out)
  then obtain v s' x r' where out: "out = (Inl x, s')" "diag_ok C (co_diag s')" "state_models_ok ctx s'"
    "dg_attempts (co_diag s') = rs @ [r']" "at_outcome r' \<noteq> AtSucceeded"
    "dg_finalState (co_diag s') \<notin> {FSucceeded, FRecovered}"
    using on_failure_kept [OF assms(5-10), of T gate n w e] by (cases out) auto
  then show ?thesis
    using Inl assms(1-4) retried_failed [of rs] by (auto simp: loop_result_def)
next
  case (Inr s')
  then show ?thesis
    using on_failure_kept [OF assms(5-10), of T gate n w e] assms(1,2)
    by (auto simp: between_def)
qed

lemma success_step:
  assumes "int (length rs) = n - 1" "list_all retried rs" "n \<le> rc_maxTotalAttempts C"
    and "diag_ok C (co_diag s)" "state_models_ok ctx s" "dg_attempts (co_diag s) = rs @ [r0]"
    and "undecided r0" "undecided r" "at_model r = at_model r0" "at_model r = co_model s"
    and "ae_result (world n) = Inr res"
  shows "case on_success (world n) res r s of
      Inl out \<Rightarrow> loop_result C ctx world out | Inr s' \<Rightarrow> between C ctx (n + 1) s'"
proof -
  obtain s' r' where out: "on_success (world n) res r s = Inl (Inr (tr_response res), s')"
      "dg_attempts (co_diag s') = rs @ [r']" "at_outcome r' = AtSucceeded" "at_model r' = at_model r"
      "undecided r'" "dg_finalState (co_diag s') \<in> {FSucceeded, FRecovered}"
      "dg_finalModel (co_diag s') = Some (co_model s)"
      "dg_retryCount (co_diag s') = dg_retryCount (co_diag s)"
      "dg_recoveryCount (co_diag s') = dg_recoveryCount (co_diag s)"
      "dg_fallbackCount (co_diag s') = dg_fallbackCount (co_diag s)"
      "dg_totalBackoffMs (co_diag s') = dg_totalBackoffMs (co_diag s)"
      "co_fallbackUsed s' = co_fallbackUsed s" "co_model s' = co_model s"
    using assms(6,8) by (simp add: on_success_def Let_def undecided_def)
  have "int (length (rs @ [r'])) = n" using assms(1) by simp
  moreover have "diag_ok C (co_diag s')"
    using assms(4,6,7) out by (simp add: diag_ok_def undecided_def counts_undecided)
  moreover have "state_models_ok ctx s'"
    using assms(5,6,9) out by (simp add: state_models_ok_def)
  ultimately show ?thesis
    using out assms(2,3,10,11) by (simp add: loop_result_def)
qed

lemma run_attempt_kept:
  assumes "between C ctx n s" "n \<le> rc_maxTotalAttempts C" "1 \<le> n"
  shows "case run_attempt C T ctx gate n (world n) s of
      Inl out \<Rightarrow> loop_result C ctx world out | Inr s' \<Rightarrow> between C ctx (n + 1) s'"
proof -
  let ?w = "world n"
  let ?start = "startAttempt ctx n ?w (co_model s)"
  let ?s1 = "s\<lparr>co_diag := (co_diag s)\<lparr>dg_attempts := dg_attempts (co_diag s) @ [?start]\<rparr>\<rparr>"
  let ?s3 = "call (TransportCall n (co_model s)) (if gate then call GateAcquire ?s1 else ?s1)"
  let ?r = "fold apply_report (ae_reports ?w) ?start"
  let ?rs = "dg_attempts (co_diag s)"
  have rs: "int (length ?rs) = n - 1" "list_all retried ?rs" "diag_ok C (co_diag s)"
      "state_models_ok ctx s"
    using assms(1) by (simp_all add: between_def)
  have und: "undecided ?start" "undecided ?r" "at_model ?r = at_model ?start"
    using start_undecided fold_report by simp_all
  have s1: "diag_ok C (co_diag ?s1)" "state_models_ok ctx ?s1"
    using rs(3,4) und(1) models_next start_undecided(2)
    by (simp_all add: diag_ok_def state_models_ok_def undecided_def counts_undecided)
  have s3: "diag_ok C (co_diag ?s3)" "state_models_ok ctx ?s3" "dg_attempts (co_diag ?s3) = ?rs @ [?start]"
    using s1 by (simp_all add: state_models_ok_def)
  show ?thesis
  proof (cases "ae_elapsed ?w \<ge> rc_maxElapsedMs C \<or> ae_aborted ?w")
    case True
    then show ?thesis
      using rs assms(2,3) retried_failed retried_butlast
      by (auto simp: run_attempt_def loop_result_def diag_ok_def state_models_ok_def)
  next
    case go: False
    show ?thesis
    proof (cases "if gate then ae_gateError ?w else None")
      case (Some e)
      then have run: "run_attempt C T ctx gate n ?w s = on_failure C T ctx gate n ?w e ?start ?s1"
        using go by (simp add: run_attempt_def Let_def split: if_splits)
      show ?thesis
        unfolding run by (rule failure_step [OF rs(1,2) assms(2,3) s1 _ und(1,1)]) simp_all
    next
      case None
      then have run: "run_attempt C T ctx gate n ?w s = with_release gate (case ae_result ?w of
          Inr res \<Rightarrow> on_success ?w res ?r ?s3 | Inl e \<Rightarrow> on_failure C T ctx gate n ?w e ?r ?s3)"
        using go by (simp add: run_attempt_def Let_def)
      show ?thesis
      proof (cases "ae_result ?w")
        case (Inl e)
        then show ?thesis
          unfolding run release_kept using failure_step [OF rs(1,2) assms(2,3) s3 und] by simp
      next
        case (Inr res)
        have "at_model ?r = co_model ?s3" using und(3) start_undecided(2) by simp
        then show ?thesis
          unfolding run release_kept
          using success_step [of ?rs n C ?s3 ctx ?start ?r world res] rs(1,2) assms(2) s3 und Inr
          by simp
      qed
    qed
  qed
qed

lemma attempt_loop_result:
  "between C ctx n s \<Longrightarrow> 1 \<le> n \<Longrightarrow> n \<le> max 0 (rc_maxTotalAttempts C) + 1 \<Longrightarrow>
   loop_result C ctx world (attempt_loop C T ctx gate world n s)"
proof (induction C T ctx gate world n s rule: attempt_loop.induct)
  case (1 C T ctx gate world n s)
  show ?case
  proof (cases "n \<le> rc_maxTotalAttempts C")
    case True
    then show ?thesis
      using 1 run_attempt_kept [OF "1.prems"(1) True "1.prems"(2), of world T gate]
      by (subst attempt_loop.simps) (auto split: sum.splits)
  next
    case False
    then show ?thesis
      using "1.prems" retried_failed retried_butlast
      by (subst attempt_loop.simps)
         (auto simp: between_def loop_result_def diag_ok_def state_models_ok_def)
  qed
qed

lemma execute_result: "loop_result C ctx world (execute C T ctx gate world)"
  unfolding execute_def
  by (rule attempt_loop_result)
     (auto simp: between_def new_coordinator_state_def diag_ok_def state_models_ok_def
       counts_ok.simps models_ok.simps)

lemma attempt_loop_trace:
  assumes "gate \<longrightarrow> well_leased False (co_trace s)" "1 \<le> n"
  shows "(gate \<longrightarrow> well_leased False (co_trace (snd (attempt_loop C T ctx gate world n s))))
    \<and> transport_calls (co_trace (snd (attempt_loop C T ctx gate world n s)))
        \<le> transport_calls (co_trace s) + nat (rc_maxTotalAttempts C + 1 - n)"
  using assms
proof (induction C T ctx gate world n s rule: attempt_loop.induct)
  case (1 C T ctx gate world n s)
  show ?case
  proof (cases "n \<le> rc_maxTotalAttempts C")
    case True
    then have "nat (rc_maxTotalAttempts C + 1 - n) = Suc (nat (rc_maxTotalAttempts C + 1 - (n + 1)))"
      by simp
    then show ?thesis
      using 1 True run_attempt_trace [OF "1.prems"(1), of C T ctx n "world n"]
      by (subst (1 2) attempt_loop.simps) (fastforce simp: res_state_def split: sum.splits)
  next
    case False
    then show ?thesis using "1.prems" by (subst (1 2) attempt_loop.simps) auto
  qed
qed

subsection \<open>Properties\<close>


text \<open>A request returns a response exactly when the transport returned it in the last
  attempt; then the final state says so and names the model that answered. All earlier attempts
  failed and were retried, recovered or sent to the fallback model; the models used are the
  requested one and then the fallback. Otherwise no attempt succeeded.\<close>

lemma coordinator_outcome:
  "let (res, s) = execute C T ctx gate world; d = co_diag s; rs = dg_attempts d in
   (\<exists>i j. map at_model rs = replicate i (rx_requestedModel ctx)
                          @ replicate j (the (rx_fallbackModel ctx)))
   \<and> list_all (\<lambda>r. at_outcome r = AtFailed \<and> at_disposition r
        \<in> {Some RetryPrecommit, Some RecoverStream, Some FallbackOnce}) (butlast rs)
   \<and> (case res of
        Inr v \<Rightarrow> rs \<noteq> [] \<and> at_outcome (last rs) = AtSucceeded
          \<and> dg_finalState d \<in> {FSucceeded, FRecovered}
          \<and> dg_finalModel d = Some (at_model (last rs))
          \<and> (\<exists>tr. ae_result (world (int (length rs))) = Inr tr \<and> tr_response tr = v)
      | Inl _ \<Rightarrow> list_all (\<lambda>r. at_outcome r \<noteq> AtSucceeded) rs
          \<and> dg_finalState d \<notin> {FSucceeded, FRecovered})"
proof -
  obtain res s where e: "execute C T ctx gate world = (res, s)" by fastforce
  have "loop_result C ctx world (res, s)" using execute_result [of C ctx world T gate] e by simp
  moreover have "retried r \<Longrightarrow> at_outcome r = AtFailed \<and> at_disposition r
        \<in> {Some RetryPrecommit, Some RecoverStream, Some FallbackOnce}" for r
    by (auto simp: retried_def split: option.splits disposition.splits)
  ultimately show ?thesis
    by (auto simp: e loop_result_def Let_def state_models_ok_def models_ok.simps list_all_iff
        split: sum.splits)
qed

text \<open>With a request gate, the trace of a request takes leases one at a time,
  calls the transport only under a lease and has given every lease back when the request ends,
  on each path out of an attempt.\<close>

lemma coordinator_leases:
  "well_leased False (co_trace (snd (execute C T ctx True world)))"
  using attempt_loop_trace [of True "new_coordinator_state ctx" 1 C T ctx world]
  by (simp add: execute_def new_coordinator_state_def)

text \<open>A delay taken from the provider lies between the rate limit minimum and
  the retry-after cap; a computed delay lies between one half of the exponential cap and the
  cap, which no configuration lets exceed the maximum delay.\<close>

lemma backoff_bounds:
  assumes "0 \<le> random" "random < 1" "0 \<le> rc_maxDelayMs C"
    "0 \<le> rc_minRateLimitDelayMs C" "rc_minRateLimitDelayMs C \<le> rc_maxRetryAfterMs C"
  shows "let d = computeProviderBackoff C attempt retryAfter random;
      cap = max 0 (min (rc_maxDelayMs C) (rc_baseDelayMs C * 2 ^ nat (attempt - 1))) in
    (case retryAfter of
       Some ms \<Rightarrow> 0 < ms \<longrightarrow> d = max (rc_minRateLimitDelayMs C) (min ms (rc_maxRetryAfterMs C))
         \<and> rc_minRateLimitDelayMs C \<le> d \<and> d \<le> rc_maxRetryAfterMs C
     | None \<Rightarrow> cap / 2 \<le> d \<and> d \<le> cap \<and> d \<le> rc_maxDelayMs C)"
proof (cases retryAfter)
  case (Some ms)
  then show ?thesis using assms(4,5) by (auto simp: computeProviderBackoff_def Let_def)
next
  case None
  define cap where "cap = max 0 (min (rc_maxDelayMs C) (rc_baseDelayMs C * 2 ^ nat (attempt - 1)))"
  have cap: "0 \<le> cap" "cap \<le> rc_maxDelayMs C" using assms(3) by (auto simp: cap_def)
  have n: "nat (max 0 (attempt - 1)) = nat (attempt - 1)" by simp
  have d: "computeProviderBackoff C attempt None random = cap / 2 + of_int \<lfloor>random * (cap / 2)\<rfloor>"
    by (simp add: computeProviderBackoff_def cap_def n Let_def)
  have "0 \<le> random * (cap / 2)" "random * (cap / 2) \<le> 1 * (cap / 2)"
    using assms(1,2) cap(1) mult_right_mono [of random 1 "cap / 2"] by simp_all
  then have "0 \<le> \<lfloor>random * (cap / 2)\<rfloor>" "of_int \<lfloor>random * (cap / 2)\<rfloor> \<le> cap / 2"
    using of_int_floor_le [of "random * (cap / 2)"] by (simp_all add: order_trans)
  then have "0 \<le> (of_int \<lfloor>random * (cap / 2)\<rfloor> :: rat)" "of_int \<lfloor>random * (cap / 2)\<rfloor> \<le> cap / 2"
    by simp_all
  then show ?thesis using None cap d by (simp add: Let_def flip: cap_def)
qed

text \<open>An error that asks for the fallback model on the last attempt is
  counted as a fallback and the model is switched, but the request ends as exhausted without
  the fallback model being called.\<close>

lemma last_attempt_fallback_untried:
  assumes "n = rc_maxTotalAttempts C" "ae_elapsed (world n) < rc_maxElapsedMs C"
    "\<not> ae_aborted (world n)" "ae_result (world n) = Inl e"
    "cl_kind (classifyProviderError T (ae_now (world n)) e (at_semanticDeltaSeen
        (fold apply_report (ae_reports (world n)) (startAttempt ctx n (world n) (co_model s)))))
      = KServerError"
    "rx_fallbackModel ctx = Some m" "m \<noteq> []" "m \<noteq> co_model s" "\<not> co_fallbackUsed s"
  shows "case attempt_loop C T ctx False world n s of (res, s') \<Rightarrow>
      res = Inl AttemptsExhausted \<and> co_model s' = m
      \<and> dg_fallbackCount (co_diag s') = dg_fallbackCount (co_diag s) + 1
      \<and> co_trace s' = co_trace s @ [TransportCall n (co_model s)]"
  using assms
  by (subst attempt_loop.simps)
     (simp add: run_attempt_def Let_def with_release_def on_failure_def note_failure_def
       shouldFallback_def fallback_kinds_def attempt_loop.simps [of C T ctx False world "_ + 1"])

subsection \<open>Witnesses\<close>

definition one_try :: resilience_config where
  "one_try = DEFAULT_PROVIDER_RESILIENCE_CONFIG\<lparr>rc_maxTotalAttempts := 1\<rparr>"

definition failing_world :: "int \<Rightarrow> attempt_env" where
  "failing_world n = \<lparr>ae_elapsed = 0, ae_aborted = False, ae_attemptId = [], ae_startedAt = 0,
     ae_gateError = None, ae_reports = [], ae_result = Inl (status_error 503), ae_endedAt = 0,
     ae_now = 0, ae_cooldownNow = 0, ae_random = 1 / 2\<rparr>"

definition with_fallback :: request_context where
  "with_fallback = \<lparr>rx_logicalRequestId = [], rx_providerKey = [], rx_requestedModel = js ''a'',
     rx_fallbackModel = Some (js ''b'')\<rparr>"

lemma last_attempt_fallback_untried_example:
  "case attempt_loop one_try plain_text_env with_fallback False failing_world 1
          (new_coordinator_state with_fallback) of (res, s) \<Rightarrow>
     res = Inl AttemptsExhausted \<and> co_model s = js ''b'' \<and> dg_fallbackCount (co_diag s) = 1"
proof -
  have "cl_kind (classifyProviderError plain_text_env (ae_now (failing_world 1)) (status_error 503)
      (at_semanticDeltaSeen (fold apply_report (ae_reports (failing_world 1))
        (startAttempt with_fallback 1 (failing_world 1) (co_model (new_coordinator_state with_fallback))))))
      = KServerError"
    "js ''b'' \<noteq> []" "js ''b'' \<noteq> co_model (new_coordinator_state with_fallback)"
    "dg_fallbackCount (co_diag (new_coordinator_state with_fallback)) = 0"
    "\<not> co_fallbackUsed (new_coordinator_state with_fallback)"
    by code_simp+
  then show ?thesis
    using last_attempt_fallback_untried [of 1 one_try failing_world "status_error 503" plain_text_env
      with_fallback "new_coordinator_state with_fallback" "js ''b''"]
    by (simp add: one_try_def failing_world_def with_fallback_def
        DEFAULT_PROVIDER_RESILIENCE_CONFIG_def split: prod.splits)
qed

lemma backoff_bounds_example:
  "computeProviderBackoff DEFAULT_PROVIDER_RESILIENCE_CONFIG 9 None (1 / 3) \<le> 8000
   \<and> computeProviderBackoff DEFAULT_PROVIDER_RESILIENCE_CONFIG 1 (Some 1) 0 = 2000"
  using backoff_bounds [of "1 / 3" DEFAULT_PROVIDER_RESILIENCE_CONFIG 9 None]
    backoff_bounds [of 0 DEFAULT_PROVIDER_RESILIENCE_CONFIG 1 "Some 1"]
  by (simp add: DEFAULT_PROVIDER_RESILIENCE_CONFIG_def Let_def)

end
