(* ===== verification/ToolGateway.thy ===== *)
theory ToolGateway
  imports RuntimeProtocol
begin

section \<open>The tool gateway\<close>

text \<open>
  Models \<open>src/src/runtime/tool-gateway.ts\<close> and, of \<open>src/src/runtime/step-snapshot.ts\<close>, the
  tool router and \<open>ExecutionService.run\<close>. An invocation is an asynchronous function with an
  \<open>await\<close> before each service; it is modelled by its phases, one per awaited call, and the
  gateway advances any of the invocations in flight by one phase at a time, in any order. What a
  service answers, the clock and the abort flag at that moment are the environment of the step.
  Policy, approval, sandbox and tool results are JavaScript values, since the gateway checks them
  at run time. The nested execution service calls back with further invocations, which are
  invocations like any other here.
\<close>

subsection \<open>Data\<close>

record tool_descriptor =
  de_name :: jsstr
  de_aliases :: "jsstr list"
  de_executorId :: jsstr

record step_snapshot =
  sn_threadId :: jsstr
  sn_turnId :: jsstr
  sn_stepId :: jsstr
  sn_digest :: jsstr
  sn_router :: "(jsstr \<times> tool_descriptor) list"
  sn_routerDigest :: jsstr
  sn_authorityDigest :: jsstr
  sn_executionPolicyDigest :: jsstr
  sn_sandboxRequired :: bool
  sn_direct :: "jsstr list"

record tool_invocation =
  iv_invocationId :: jsstr
  iv_parentInvocationId :: "jsstr option"
  iv_snapshot :: step_snapshot
  iv_toolName :: jsstr
  iv_args :: jsval

datatype tool_phase = PhaseCapability | PhasePolicy | PhaseApproval | PhaseSandbox | PhaseExecute

record invocation_intent =
  it_invocationId :: jsstr
  it_parentInvocationId :: "jsstr option"
  it_threadId :: jsstr
  it_turnId :: jsstr
  it_stepId :: jsstr
  it_toolName :: jsstr
  it_snapshotDigest :: jsstr
  it_argsDigest :: jsstr
  it_requestDigest :: jsstr
  it_startedAt :: int
  it_digest :: jsstr

record invocation_receipt =
  rc_invocationId :: jsstr
  rc_parentInvocationId :: "jsstr option"
  rc_threadId :: jsstr
  rc_turnId :: jsstr
  rc_stepId :: jsstr
  rc_toolName :: jsstr
  rc_snapshotDigest :: jsstr
  rc_routerDigest :: jsstr
  rc_authorityDigest :: jsstr
  rc_executionPolicyDigest :: jsstr
  rc_intentDigest :: jsstr
  rc_policy :: jsval
  rc_approval :: jsval
  rc_sandbox :: jsval
  rc_terminal :: tool_terminal
  rc_terminalPhase :: tool_phase
  rc_success :: bool
  rc_result :: jsval
  rc_outputDigest :: jsstr
  rc_startedAt :: int
  rc_finishedAt :: int
  rc_durationMs :: int
  rc_digest :: jsstr

type_synonym journal_entry = "invocation_intent \<times> invocation_receipt option"

datatype gateway_error =
    InvocationInvalid | InvocationConflict | OutcomeIndeterminate | ReceiptPersistence
  | JournalFailure

text \<open>The interface \<open>ToolInvocationJournalV1\<close> over a journal state.\<close>

record 'j journal_ops =
  jo_load :: "'j \<Rightarrow> jsstr \<Rightarrow> gateway_error + journal_entry option"
  jo_begin :: "invocation_intent \<Rightarrow> 'j \<Rightarrow> gateway_error + 'j"
  jo_complete :: "invocation_receipt \<Rightarrow> 'j \<Rightarrow> gateway_error + 'j"

subsection \<open>The tool router\<close>

text \<open>The names of a binding are checked against the earlier bindings, then added.\<close>

fun router_bindings ::
  "tool_descriptor list \<Rightarrow> (jsstr \<times> tool_descriptor) list \<Rightarrow> (jsstr \<times> tool_descriptor) list option"
where
  "router_bindings [] byName = Some byName"
| "router_bindings (d # ds) byName =
     (if \<exists>n \<in> set (de_name d # de_aliases d). map_of byName n \<noteq> None then None
      else router_bindings ds
        (fold (\<lambda>n m. AList.update n d m) (de_name d # de_aliases d) byName))"

definition resolveDescriptor :: "step_snapshot \<Rightarrow> jsstr \<Rightarrow> tool_descriptor option" where
  "resolveDescriptor sn n = map_of (sn_router sn) n"

subsection \<open>Digests, intent and receipt\<close>

definition opt_val :: "jsstr option \<Rightarrow> jsval" where
  "opt_val x = (case x of None \<Rightarrow> JUndefined | Some s \<Rightarrow> JStr s)"

definition computeRequestDigest :: "js_env \<Rightarrow> tool_invocation \<Rightarrow> jsstr" where
  "computeRequestDigest E iv = digestRuntimeValue E (JObj
     [(js ''invocationId'', JStr (iv_invocationId iv)),
      (js ''parentInvocationId'', opt_val (iv_parentInvocationId iv)),
      (js ''threadId'', JStr (sn_threadId (iv_snapshot iv))),
      (js ''turnId'', JStr (sn_turnId (iv_snapshot iv))),
      (js ''stepId'', JStr (sn_stepId (iv_snapshot iv))),
      (js ''toolName'', JStr (iv_toolName iv)),
      (js ''snapshotDigest'', JStr (sn_digest (iv_snapshot iv))),
      (js ''argsDigest'', JStr (digestRuntimeValue E (iv_args iv)))])"

definition intent_content :: "invocation_intent \<Rightarrow> jsval" where
  "intent_content i = JObj
     [(js ''version'', jint 1), (js ''invocationId'', JStr (it_invocationId i)),
      (js ''parentInvocationId'', opt_val (it_parentInvocationId i)),
      (js ''threadId'', JStr (it_threadId i)), (js ''turnId'', JStr (it_turnId i)),
      (js ''stepId'', JStr (it_stepId i)), (js ''toolName'', JStr (it_toolName i)),
      (js ''snapshotDigest'', JStr (it_snapshotDigest i)),
      (js ''argsDigest'', JStr (it_argsDigest i)),
      (js ''requestDigest'', JStr (it_requestDigest i)),
      (js ''startedAt'', jint (it_startedAt i))]"

definition createIntent :: "js_env \<Rightarrow> tool_invocation \<Rightarrow> int \<Rightarrow> invocation_intent" where
  "createIntent E iv startedAt =
     (let sn = iv_snapshot iv;
          i = \<lparr>it_invocationId = iv_invocationId iv,
               it_parentInvocationId = iv_parentInvocationId iv, it_threadId = sn_threadId sn,
               it_turnId = sn_turnId sn, it_stepId = sn_stepId sn, it_toolName = iv_toolName iv,
               it_snapshotDigest = sn_digest sn,
               it_argsDigest = digestRuntimeValue E (iv_args iv),
               it_requestDigest = computeRequestDigest E iv, it_startedAt = startedAt,
               it_digest = []\<rparr> in
      i\<lparr>it_digest := digestRuntimeValue E (intent_content i)\<rparr>)"

definition terminal_text :: "tool_terminal \<Rightarrow> jsstr" where
  "terminal_text t = (case t of ToolCompleted \<Rightarrow> js ''completed'' | ToolFailed \<Rightarrow> js ''failed''
     | ToolInterrupted \<Rightarrow> js ''interrupted'' | ToolIndeterminate \<Rightarrow> js ''indeterminate'')"

definition phase_text :: "tool_phase \<Rightarrow> jsstr" where
  "phase_text p = (case p of PhaseCapability \<Rightarrow> js ''capability'' | PhasePolicy \<Rightarrow> js ''policy''
     | PhaseApproval \<Rightarrow> js ''approval'' | PhaseSandbox \<Rightarrow> js ''sandbox''
     | PhaseExecute \<Rightarrow> js ''execute'')"

definition receipt_content :: "invocation_receipt \<Rightarrow> jsval" where
  "receipt_content r = JObj
     [(js ''version'', jint 1), (js ''invocationId'', JStr (rc_invocationId r)),
      (js ''parentInvocationId'', opt_val (rc_parentInvocationId r)),
      (js ''threadId'', JStr (rc_threadId r)), (js ''turnId'', JStr (rc_turnId r)),
      (js ''stepId'', JStr (rc_stepId r)), (js ''toolName'', JStr (rc_toolName r)),
      (js ''snapshotDigest'', JStr (rc_snapshotDigest r)),
      (js ''routerDigest'', JStr (rc_routerDigest r)),
      (js ''authorityDigest'', JStr (rc_authorityDigest r)),
      (js ''executionPolicyDigest'', JStr (rc_executionPolicyDigest r)),
      (js ''intentDigest'', JStr (rc_intentDigest r)),
      (js ''policy'', rc_policy r), (js ''approval'', rc_approval r),
      (js ''sandbox'', rc_sandbox r), (js ''terminal'', JStr (terminal_text (rc_terminal r))),
      (js ''terminalPhase'', JStr (phase_text (rc_terminalPhase r))),
      (js ''success'', JBool (rc_success r)), (js ''result'', rc_result r),
      (js ''outputDigest'', JStr (rc_outputDigest r)),
      (js ''startedAt'', jint (rc_startedAt r)), (js ''finishedAt'', jint (rc_finishedAt r)),
      (js ''durationMs'', jint (rc_durationMs r))]"

subsection \<open>The environment of a step and the effects of the gateway\<close>

text \<open>A service that throws is \<open>Inl\<close> of its error's message. \<open>sv_tool\<close> is the tool's result as
  \<open>ExecutionService\<close> presents it (large outputs go to an artifact).\<close>

record step_env =
  sv_clock :: int
  sv_aborted :: bool
  sv_policy :: "jsstr + jsval"
  sv_approval :: "jsstr + jsval"
  sv_sandbox :: "jsstr + jsval"
  sv_nested :: "(jsstr + tool_terminal \<times> jsval \<times> int) option"
  sv_integrityError :: "jsstr option"
  sv_tool :: "jsstr + jsval"
  sv_toolAborted :: bool
  sv_duration :: int

text \<open>\<open>Ran id policy approval sandbox\<close>: the tool of the invocation ran, under these decisions.\<close>

datatype gateway_effect =
    Begun jsstr
  | Ran jsstr jsval jsval jsval
  | Aggregated jsstr jsval jsval jsval
  | Settled jsstr "gateway_error + invocation_receipt"

datatype invocation_phase =
    PhLoad invocation_intent
  | PhBegin invocation_intent
  | PhPolicy invocation_intent
  | PhApproval invocation_intent jsval
  | PhSandbox invocation_intent jsval jsval
  | PhExecute invocation_intent jsval jsval jsval
  | PhComplete invocation_receipt

datatype segment = Continue invocation_phase | Settle "gateway_error + invocation_receipt"

subsection \<open>Checks of what the services answer\<close>

definition truthy_prop :: "jsval \<Rightarrow> string \<Rightarrow> bool" where
  "truthy_prop v k = (case get_prop v (js k) of
     JUndefined \<Rightarrow> False | JNull \<Rightarrow> False | JBool b \<Rightarrow> b | JStr s \<Rightarrow> s \<noteq> []
   | JNum NaN \<Rightarrow> False | JNum (Fin q) \<Rightarrow> q \<noteq> 0 | _ \<Rightarrow> True)"

definition text_in :: "jsval \<Rightarrow> string \<Rightarrow> string list \<Rightarrow> bool" where
  "text_in v k ts = (case get_prop v (js k) of JStr s \<Rightarrow> s \<in> set (map js ts) | _ \<Rightarrow> False)"

definition validatePolicyDecision :: "jsval \<Rightarrow> bool" where
  "validatePolicyDecision v \<longleftrightarrow> text_in v ''behavior'' [''allow'', ''ask'', ''deny'']
     \<and> truthy_prop v ''source'' \<and> truthy_prop v ''digest''"

definition validateApprovalDecision :: "jsval \<Rightarrow> bool" where
  "validateApprovalDecision v \<longleftrightarrow>
     (case get_prop v (js ''approved'') of JBool _ \<Rightarrow> True | _ \<Rightarrow> False)
     \<and> truthy_prop v ''source'' \<and> truthy_prop v ''digest''"

definition validateSandboxPreparation :: "jsval \<Rightarrow> bool" where
  "validateSandboxPreparation v \<longleftrightarrow> text_in v ''enforcement'' [''full'', ''partial'', ''none'']
     \<and> truthy_prop v ''backend'' \<and> truthy_prop v ''digest''"

definition checked :: "(jsval \<Rightarrow> bool) \<Rightarrow> string \<Rightarrow> jsstr + jsval \<Rightarrow> jsstr + jsval" where
  "checked ok what answer = (case answer of
     Inl e \<Rightarrow> Inl e | Inr v \<Rightarrow> if ok v then Inr v else Inl (js (''Malformed '' @ what)))"

definition failure_of :: "jsval \<Rightarrow> jsval" where
  "failure_of e = JObj [(js ''success'', JBool False), (js ''output'', JStr []), (js ''error'', e)]"

abbreviation failure :: "jsstr \<Rightarrow> jsval" where
  "failure e \<equiv> failure_of (JStr e)"

text \<open>\<open>v.reason ?? d\<close>.\<close>

definition reason_or :: "jsval \<Rightarrow> string \<Rightarrow> jsval" where
  "reason_or v d = (case get_prop v (js ''reason'') of
     JUndefined \<Rightarrow> JStr (js d) | JNull \<Rightarrow> JStr (js d) | r \<Rightarrow> r)"

definition isDirectCapability :: "step_snapshot \<Rightarrow> jsstr \<Rightarrow> bool" where
  "isDirectCapability sn n \<longleftrightarrow> n \<in> set (sn_direct sn)"

definition validateInvocation :: "tool_invocation \<Rightarrow> bool" where
  "validateInvocation iv \<longleftrightarrow> isRuntimeId (iv_invocationId iv)
     \<and> (truthy (iv_parentInvocationId iv) \<longrightarrow> isRuntimeId (the (iv_parentInvocationId iv)))
     \<and> js_trim (iv_toolName iv) \<noteq> []"

subsection \<open>The terminal receipt\<close>

record terminal_outcome =
  to_policy :: jsval
  to_approval :: jsval
  to_sandbox :: jsval
  to_terminal :: tool_terminal
  to_phase :: tool_phase
  to_result :: jsval
  to_duration :: "int option"

definition commitTerminal ::
  "js_env \<Rightarrow> int \<Rightarrow> tool_invocation \<Rightarrow> invocation_intent \<Rightarrow> terminal_outcome \<Rightarrow> segment" where
  "commitTerminal E finishedAt iv i out =
     (let sn = iv_snapshot iv;
          r = \<lparr>rc_invocationId = iv_invocationId iv,
               rc_parentInvocationId = iv_parentInvocationId iv,
               rc_threadId = sn_threadId sn, rc_turnId = sn_turnId sn, rc_stepId = sn_stepId sn,
               rc_toolName = iv_toolName iv, rc_snapshotDigest = sn_digest sn,
               rc_routerDigest = sn_routerDigest sn, rc_authorityDigest = sn_authorityDigest sn,
               rc_executionPolicyDigest = sn_executionPolicyDigest sn,
               rc_intentDigest = it_digest i, rc_policy = to_policy out,
               rc_approval = to_approval out, rc_sandbox = to_sandbox out,
               rc_terminal = to_terminal out, rc_terminalPhase = to_phase out,
               rc_success = (to_terminal out = ToolCompleted
                 \<and> get_prop (to_result out) (js ''success'') = JBool True),
               rc_result = to_result out,
               rc_outputDigest = digestRuntimeValue E (to_result out),
               rc_startedAt = it_startedAt i, rc_finishedAt = finishedAt,
               rc_durationMs = (case to_duration out of
                  Some d \<Rightarrow> d | None \<Rightarrow> max 0 (finishedAt - it_startedAt i)),
               rc_digest = []\<rparr> in
      Continue (PhComplete (r\<lparr>rc_digest := digestRuntimeValue E (receipt_content r)\<rparr>)))"

definition stopped ::
  "jsval \<Rightarrow> jsval \<Rightarrow> tool_terminal \<Rightarrow> tool_phase \<Rightarrow> jsval \<Rightarrow> terminal_outcome" where
  "stopped policy approval t p e =
     \<lparr>to_policy = policy, to_approval = approval, to_sandbox = JUndefined, to_terminal = t,
      to_phase = p, to_result = failure_of e, to_duration = None\<rparr>"

subsection \<open>ExecutionService.run\<close>

text \<open>The answer of the execution and whether the tool's executor was called. An error of the
  router's integrity check leaves the function; every other error is a failed result.\<close>

definition execution_run ::
  "step_env \<Rightarrow> step_snapshot \<Rightarrow> jsval \<Rightarrow> (jsstr + tool_terminal \<times> jsval \<times> int) \<times> bool" where
  "execution_run w sn sandbox =
     (case sv_integrityError w of
        Some e \<Rightarrow> (Inl e, False)
      | None \<Rightarrow>
          if sn_sandboxRequired sn \<and> get_prop sandbox (js ''enforcement'') \<noteq> JStr (js ''full'')
          then (Inr (ToolFailed, failure (js ''Required sandbox enforcement is unavailable''),
                     sv_duration w), False)
          else if sv_aborted w
          then (Inr (ToolInterrupted, failure (js ''Tool invocation aborted before execution''),
                     sv_duration w), False)
          else (Inr (case sv_tool w of
                  Inr result \<Rightarrow>
                    (if sv_toolAborted w then ToolInterrupted
                     else if get_prop result (js ''success'') = JBool True then ToolCompleted
                     else ToolFailed, result, sv_duration w)
                | Inl e \<Rightarrow>
                    (if sv_toolAborted w then ToolInterrupted else ToolFailed, failure e,
                     sv_duration w)), True))"

subsection \<open>The phases of invokeOnce\<close>

definition load_phase ::
  "invocation_intent \<Rightarrow> gateway_error + journal_entry option \<Rightarrow> segment" where
  "load_phase i loaded = (case loaded of
     Inl e \<Rightarrow> Settle (Inl e)
   | Inr None \<Rightarrow> Continue (PhBegin i)
   | Inr (Some (i', receipt)) \<Rightarrow>
       if it_requestDigest i' \<noteq> it_requestDigest i then Settle (Inl InvocationConflict)
       else (case receipt of
               Some r \<Rightarrow> Settle (Inr r)
             | None \<Rightarrow> Settle (Inl OutcomeIndeterminate)))"

definition begin_phase ::
  "js_env \<Rightarrow> step_env \<Rightarrow> tool_invocation \<Rightarrow> invocation_intent \<Rightarrow> segment" where
  "begin_phase E w iv i =
     (case resolveDescriptor (iv_snapshot iv) (iv_toolName iv) of
        Some d \<Rightarrow>
          if isDirectCapability (iv_snapshot iv) (de_name d) then Continue (PhPolicy i)
          else commitTerminal E (sv_clock w) iv i
            (stopped JUndefined JUndefined ToolFailed PhaseCapability
              (JStr (js ''Tool is not direct in this StepSnapshot: '' @ iv_toolName iv)))
      | None \<Rightarrow>
          commitTerminal E (sv_clock w) iv i
            (stopped JUndefined JUndefined ToolFailed PhaseCapability
              (JStr (js ''Tool is not direct in this StepSnapshot: '' @ iv_toolName iv))))"

definition policy_phase ::
  "js_env \<Rightarrow> step_env \<Rightarrow> tool_invocation \<Rightarrow> invocation_intent \<Rightarrow> segment" where
  "policy_phase E w iv i =
     (case checked validatePolicyDecision ''policy decision'' (sv_policy w) of
        Inl e \<Rightarrow> commitTerminal E (sv_clock w) iv i
          (stopped JUndefined JUndefined ToolFailed PhasePolicy
            (JStr (js ''Policy failed closed: '' @ e)))
      | Inr policy \<Rightarrow>
          if get_prop policy (js ''behavior'') = JStr (js ''deny'')
          then commitTerminal E (sv_clock w) iv i
            (stopped policy JUndefined ToolFailed PhasePolicy
              (reason_or policy ''Tool denied by policy''))
          else if get_prop policy (js ''behavior'') = JStr (js ''ask'')
          then Continue (PhApproval i policy)
          else Continue (PhSandbox i policy JUndefined))"

definition approval_phase ::
  "js_env \<Rightarrow> step_env \<Rightarrow> tool_invocation \<Rightarrow> invocation_intent \<Rightarrow> jsval \<Rightarrow> segment" where
  "approval_phase E w iv i policy =
     (case checked validateApprovalDecision ''approval decision'' (sv_approval w) of
        Inl e \<Rightarrow> commitTerminal E (sv_clock w) iv i
          (stopped policy JUndefined ToolFailed PhaseApproval
            (JStr (js ''Approval failed closed: '' @ e)))
      | Inr approval \<Rightarrow>
          if get_prop approval (js ''approved'') \<noteq> JBool True
          then commitTerminal E (sv_clock w) iv i
            (stopped policy approval (if sv_aborted w then ToolInterrupted else ToolFailed)
              PhaseApproval (reason_or approval ''Tool approval denied''))
          else Continue (PhSandbox i policy approval))"

definition sandbox_phase ::
  "js_env \<Rightarrow> step_env \<Rightarrow> tool_invocation \<Rightarrow> invocation_intent \<Rightarrow> jsval \<Rightarrow> jsval \<Rightarrow> segment" where
  "sandbox_phase E w iv i policy approval =
     (case checked validateSandboxPreparation ''sandbox preparation'' (sv_sandbox w) of
        Inl e \<Rightarrow> commitTerminal E (sv_clock w) iv i
          (stopped policy approval ToolFailed PhaseSandbox
            (JStr (js ''Sandbox preparation failed closed: '' @ e)))
      | Inr sandbox \<Rightarrow> Continue (PhExecute i policy approval sandbox))"

definition execute_phase ::
  "js_env \<Rightarrow> step_env \<Rightarrow> tool_invocation \<Rightarrow> invocation_intent \<Rightarrow> jsval \<Rightarrow> jsval \<Rightarrow> jsval
     \<Rightarrow> segment \<times> gateway_effect list" where
  "execute_phase E w iv i policy approval sandbox =
     (let (answer, effects) = (case sv_nested w of
            Some nested \<Rightarrow> (nested, [Aggregated (iv_invocationId iv) policy approval sandbox])
          | None \<Rightarrow>
              (let (result, ran) = execution_run w (iv_snapshot iv) sandbox in
               (result, if ran then [Ran (iv_invocationId iv) policy approval sandbox] else [])));
          (terminal, result, duration) = (case answer of
            Inr executed \<Rightarrow> executed
          | Inl e \<Rightarrow> (if sv_aborted w then ToolInterrupted else ToolFailed,
                      failure (js ''Nested execution failed closed: '' @ e),
                      max 0 (sv_clock w - it_startedAt i))) in
      (commitTerminal E (sv_clock w) iv i
         \<lparr>to_policy = policy, to_approval = approval, to_sandbox = sandbox,
          to_terminal = terminal, to_phase = PhaseExecute, to_result = result,
          to_duration = Some duration\<rparr>, effects))"

fun advance ::
  "js_env \<Rightarrow> 'j journal_ops \<Rightarrow> step_env \<Rightarrow> tool_invocation \<Rightarrow> invocation_phase \<Rightarrow> 'j
     \<Rightarrow> segment \<times> 'j \<times> gateway_effect list" where
  "advance E J w iv (PhLoad i) j = (load_phase i (jo_load J j (iv_invocationId iv)), j, [])"
| "advance E J w iv (PhBegin i) j =
     (case jo_begin J i j of
        Inl e \<Rightarrow> (Settle (Inl e), j, [])
      | Inr j' \<Rightarrow> (begin_phase E w iv i, j', [Begun (iv_invocationId iv)]))"
| "advance E J w iv (PhPolicy i) j = (policy_phase E w iv i, j, [])"
| "advance E J w iv (PhApproval i policy) j = (approval_phase E w iv i policy, j, [])"
| "advance E J w iv (PhSandbox i policy approval) j =
     (sandbox_phase E w iv i policy approval, j, [])"
| "advance E J w iv (PhExecute i policy approval sandbox) j =
     (let (seg, effects) = execute_phase E w iv i policy approval sandbox in (seg, j, effects))"
| "advance E J w iv (PhComplete r) j =
     (case jo_complete J r j of
        Inl e \<Rightarrow> (Settle (Inl ReceiptPersistence), j, [])
      | Inr j' \<Rightarrow> (Settle (Inr r), j', []))"

subsection \<open>The gateway\<close>

record flight =
  fl_requestDigest :: jsstr
  fl_invocation :: tool_invocation
  fl_phase :: invocation_phase

record 'j gateway =
  gw_journal :: 'j
  gw_inflight :: "(jsstr \<times> flight) list"
  gw_trace :: "gateway_effect list"

definition new_gateway :: "'j \<Rightarrow> 'j gateway" where
  "new_gateway j = \<lparr>gw_journal = j, gw_inflight = [], gw_trace = []\<rparr>"

text \<open>\<open>invoke\<close>: an equal request joins the running one, a different one under its id is refused.\<close>

definition gw_invoke :: "js_env \<Rightarrow> int \<Rightarrow> tool_invocation \<Rightarrow> 'j gateway \<Rightarrow> 'j gateway" where
  "gw_invoke E now iv g =
     (let n = iv_invocationId iv; requestDigest = computeRequestDigest E iv in
      case map_of (gw_inflight g) n of
        Some fl \<Rightarrow>
          if fl_requestDigest fl \<noteq> requestDigest
          then g\<lparr>gw_trace := gw_trace g @ [Settled n (Inl InvocationConflict)]\<rparr>
          else g
      | None \<Rightarrow>
          if \<not> validateInvocation iv
          then g\<lparr>gw_trace := gw_trace g @ [Settled n (Inl InvocationInvalid)]\<rparr>
          else g\<lparr>gw_inflight := AList.update n
                 \<lparr>fl_requestDigest = requestDigest, fl_invocation = iv,
                  fl_phase = PhLoad (createIntent E iv now)\<rparr> (gw_inflight g)\<rparr>)"

definition gw_advance ::
  "js_env \<Rightarrow> 'j journal_ops \<Rightarrow> step_env \<Rightarrow> jsstr \<Rightarrow> 'j gateway \<Rightarrow> 'j gateway" where
  "gw_advance E J w n g =
     (case map_of (gw_inflight g) n of
        None \<Rightarrow> g
      | Some fl \<Rightarrow>
          (let (seg, j', effects) = advance E J w (fl_invocation fl) (fl_phase fl) (gw_journal g) in
           case seg of
             Continue ph \<Rightarrow> g\<lparr>gw_journal := j', gw_trace := gw_trace g @ effects,
               gw_inflight := AList.update n (fl\<lparr>fl_phase := ph\<rparr>) (gw_inflight g)\<rparr>
           | Settle res \<Rightarrow> g\<lparr>gw_journal := j', gw_trace := gw_trace g @ effects @ [Settled n res],
               gw_inflight := AList.delete n (gw_inflight g)\<rparr>))"

text \<open>A restart of the process: a new gateway over the same journal.\<close>

definition gw_restart :: "'j gateway \<Rightarrow> 'j gateway" where
  "gw_restart g = g\<lparr>gw_inflight := []\<rparr>"

datatype gateway_action = Invoke int tool_invocation | Advance step_env jsstr | Restart

fun gw_do :: "js_env \<Rightarrow> 'j journal_ops \<Rightarrow> gateway_action \<Rightarrow> 'j gateway \<Rightarrow> 'j gateway" where
  "gw_do E J (Invoke now iv) g = gw_invoke E now iv g"
| "gw_do E J (Advance w n) g = gw_advance E J w n g"
| "gw_do E J Restart g = gw_restart g"

subsection \<open>The in-memory journal\<close>

type_synonym memory_journal = "(jsstr \<times> journal_entry) list"

definition memory_load :: "memory_journal \<Rightarrow> jsstr \<Rightarrow> gateway_error + journal_entry option" where
  "memory_load j n = Inr (map_of j n)"

definition memory_begin :: "invocation_intent \<Rightarrow> memory_journal \<Rightarrow> gateway_error + memory_journal" where
  "memory_begin i j =
     (if map_of j (it_invocationId i) \<noteq> None then Inl InvocationConflict
      else Inr (AList.update (it_invocationId i) (i, None) j))"

definition memory_complete ::
  "invocation_receipt \<Rightarrow> memory_journal \<Rightarrow> gateway_error + memory_journal" where
  "memory_complete r j =
     (case map_of j (rc_invocationId r) of
        Some (i, None) \<Rightarrow>
          if it_digest i \<noteq> rc_intentDigest r then Inl InvocationConflict
          else Inr (AList.update (rc_invocationId r) (i, Some r) j)
      | _ \<Rightarrow> Inl InvocationConflict)"

definition memory_ops :: "memory_journal journal_ops" where
  "memory_ops = \<lparr>jo_load = memory_load, jo_begin = memory_begin, jo_complete = memory_complete\<rparr>"

end
