(* ===== verification/GatewayProperties.thy ===== *)
theory GatewayProperties
  imports ToolGateway
begin

section \<open>The journal contract and the gateway over it\<close>

text \<open>
  What the gateway needs of a journal is a locale: an entry is begun once, gets one receipt, which
  must carry the digest of its intent, and nothing else changes. The gateway's invariant and its
  consequences are proved in the locale and hold for every journal that keeps the contract; the
  in-memory journal of the source is an instance.
\<close>

locale tool_journal =
  fixes J :: "'j journal_ops" and journal_ok :: "'j \<Rightarrow> bool"
  assumes begin_once:
      "journal_ok j \<Longrightarrow> jo_begin J i j = Inr j' \<Longrightarrow> journal_ok j'
         \<and> jo_load J j (it_invocationId i) = Inr None
         \<and> jo_load J j' (it_invocationId i) = Inr (Some (i, None))"
    and begin_other:
      "journal_ok j \<Longrightarrow> jo_begin J i j = Inr j' \<Longrightarrow> n \<noteq> it_invocationId i \<Longrightarrow>
         jo_load J j' n = jo_load J j n"
    and begin_fresh:
      "journal_ok j \<Longrightarrow> jo_load J j (it_invocationId i) = Inr None \<Longrightarrow> \<exists>j'. jo_begin J i j = Inr j'"
    and complete_once:
      "journal_ok j \<Longrightarrow> jo_complete J r j = Inr j' \<Longrightarrow> journal_ok j'
         \<and> (\<exists>i. jo_load J j (rc_invocationId r) = Inr (Some (i, None))
              \<and> it_digest i = rc_intentDigest r
              \<and> jo_load J j' (rc_invocationId r) = Inr (Some (i, Some r)))"
    and complete_other:
      "journal_ok j \<Longrightarrow> jo_complete J r j = Inr j' \<Longrightarrow> n \<noteq> rc_invocationId r \<Longrightarrow>
         jo_load J j' n = jo_load J j n"
    and complete_open:
      "journal_ok j \<Longrightarrow> jo_load J j (rc_invocationId r) = Inr (Some (i, None)) \<Longrightarrow>
         it_digest i = rc_intentDigest r \<Longrightarrow> \<exists>j'. jo_complete J r j = Inr j'"

subsection \<open>The gateway's invariant\<close>

text \<open>How often the tool of an invocation ran (directly or as an aggregate).\<close>

fun is_run :: "jsstr \<Rightarrow> gateway_effect \<Rightarrow> bool" where
  "is_run n (Ran m p a s) = (m = n)"
| "is_run n (Aggregated m p a s) = (m = n)"
| "is_run n _ = False"

definition run_count :: "jsstr \<Rightarrow> gateway_effect list \<Rightarrow> nat" where
  "run_count n tr = length (filter (is_run n) tr)"

text \<open>The decisions under which a tool may run.\<close>

definition authorised :: "jsval \<Rightarrow> jsval \<Rightarrow> jsval \<Rightarrow> bool" where
  "authorised policy approval sandbox \<longleftrightarrow> validatePolicyDecision policy
     \<and> validateSandboxPreparation sandbox
     \<and> (get_prop policy (js ''behavior'') = JStr (js ''allow'')
        \<or> get_prop policy (js ''behavior'') = JStr (js ''ask'')
          \<and> validateApprovalDecision approval \<and> get_prop approval (js ''approved'') = JBool True)"

definition may_continue :: "jsval \<Rightarrow> jsval \<Rightarrow> bool" where
  "may_continue policy approval \<longleftrightarrow> validatePolicyDecision policy
     \<and> (get_prop policy (js ''behavior'') = JStr (js ''allow'')
        \<or> get_prop policy (js ''behavior'') = JStr (js ''ask'')
          \<and> validateApprovalDecision approval \<and> get_prop approval (js ''approved'') = JBool True)"

text \<open>The phases between the durable start and the call of the tool, with their intent.\<close>

fun started_phase :: "invocation_phase \<Rightarrow> invocation_intent option" where
  "started_phase (PhPolicy i) = Some i"
| "started_phase (PhApproval i p) = Some i"
| "started_phase (PhSandbox i p a) = Some i"
| "started_phase (PhExecute i p a s) = Some i"
| "started_phase _ = None"

fun phase_ok :: "invocation_phase \<Rightarrow> bool" where
  "phase_ok (PhApproval i p) \<longleftrightarrow> validatePolicyDecision p
     \<and> get_prop p (js ''behavior'') = JStr (js ''ask'')"
| "phase_ok (PhSandbox i p a) \<longleftrightarrow> may_continue p a"
| "phase_ok (PhExecute i p a s) \<longleftrightarrow> authorised p a s"
| "phase_ok _ \<longleftrightarrow> True"

fun phase_intent :: "invocation_phase \<Rightarrow> invocation_intent option" where
  "phase_intent (PhLoad i) = Some i"
| "phase_intent (PhBegin i) = Some i"
| "phase_intent ph = started_phase ph"

text \<open>A receipt is sealed: its digests are those of its content and of its result, and it claims
  success only for a completed run.\<close>

definition receipt_sealed :: "js_env \<Rightarrow> invocation_receipt \<Rightarrow> bool" where
  "receipt_sealed E r \<longleftrightarrow> rc_digest r = digestRuntimeValue E (receipt_content r)
     \<and> rc_outputDigest r = digestRuntimeValue E (rc_result r)
     \<and> (rc_success r \<longrightarrow> rc_terminal r = ToolCompleted \<and> rc_terminalPhase r = PhaseExecute)"

text \<open>What a phase knows of the journal's entry and of the runs so far.\<close>

fun phase_knows ::
  "js_env \<Rightarrow> jsstr \<Rightarrow> gateway_error + journal_entry option \<Rightarrow> nat \<Rightarrow> invocation_phase \<Rightarrow> bool" where
  "phase_knows E n entry runs (PhComplete r) \<longleftrightarrow> rc_invocationId r = n \<and> receipt_sealed E r
     \<and> (rc_success r \<longrightarrow> runs = 1)
     \<and> (\<exists>i. entry = Inr (Some (i, None)) \<and> it_digest i = rc_intentDigest r)"
| "phase_knows E n entry runs ph \<longleftrightarrow>
     (case phase_intent ph of None \<Rightarrow> True | Some i \<Rightarrow> it_invocationId i = n)
     \<and> (case started_phase ph of None \<Rightarrow> True
        | Some i \<Rightarrow> entry = Inr (Some (i, None)) \<and> runs = 0)"

definition effect_ok :: "gateway_effect \<Rightarrow> bool" where
  "effect_ok e \<longleftrightarrow> (case e of
     Ran n p a s \<Rightarrow> authorised p a s | Aggregated n p a s \<Rightarrow> authorised p a s | _ \<Rightarrow> True)"

definition settled_receipts :: "jsstr \<Rightarrow> gateway_effect list \<Rightarrow> invocation_receipt set" where
  "settled_receipts n tr = {r. Settled n (Inr r) \<in> set tr}"

text \<open>What a stretch of effects says of one invocation.\<close>

lemma run_count_simps [simp]:
  "run_count n [] = 0" "run_count n (tr @ tr') = run_count n tr + run_count n tr'"
  "run_count n (Begun m # tr) = run_count n tr"
  "run_count n (Settled m res # tr) = run_count n tr"
  "run_count n (Ran m p a s # tr) = (if m = n then 1 else 0) + run_count n tr"
  "run_count n (Aggregated m p a s # tr) = (if m = n then 1 else 0) + run_count n tr"
  by (simp_all add: run_count_def)

lemma settled_receipts_simps [simp]:
  "settled_receipts n [] = {}"
  "settled_receipts n (tr @ tr') = settled_receipts n tr \<union> settled_receipts n tr'"
  "settled_receipts n (Begun m # tr) = settled_receipts n tr"
  "settled_receipts n (Ran m p a s # tr) = settled_receipts n tr"
  "settled_receipts n (Aggregated m p a s # tr) = settled_receipts n tr"
  "settled_receipts n (Settled m (Inl e) # tr) = settled_receipts n tr"
  "settled_receipts n (Settled m (Inr r) # tr)
     = (if m = n then insert r (settled_receipts n tr) else settled_receipts n tr)"
  by (auto simp: settled_receipts_def)

subsection \<open>One phase\<close>

text \<open>The receipt that ends an invocation without a run.\<close>

lemma commitTerminal_seals:
  "\<exists>r. commitTerminal E t iv i out = Continue (PhComplete r) \<and> rc_invocationId r = iv_invocationId iv
    \<and> rc_intentDigest r = it_digest i \<and> rc_digest r = digestRuntimeValue E (receipt_content r)
    \<and> rc_outputDigest r = digestRuntimeValue E (rc_result r)
    \<and> rc_terminal r = to_terminal out \<and> rc_terminalPhase r = to_phase out
    \<and> rc_success r = (to_terminal out = ToolCompleted
          \<and> get_prop (to_result out) (js ''success'') = JBool True)"
  by (simp add: commitTerminal_def Let_def receipt_content_def)

lemma commitTerminal_stopped:
  assumes "it_invocationId i = iv_invocationId iv" "entry = Inr (Some (i, None))"
  shows "\<exists>r. commitTerminal E t iv i (stopped p a tm ph e) = Continue (PhComplete r)
    \<and> phase_knows E (iv_invocationId iv) entry 0 (PhComplete r)"
proof -
  have "get_prop (failure_of e) (js ''success'') \<noteq> JBool True"
    by (simp add: failure_of_def)
  then show ?thesis
    using assms commitTerminal_seals [of E t iv i "stopped p a tm ph e"]
    by (auto simp: stopped_def receipt_sealed_def)
qed

lemma begin_phase_knows:
  assumes "it_invocationId i = iv_invocationId iv" "entry = Inr (Some (i, None))"
  shows "\<exists>ph. begin_phase E w iv i = Continue ph \<and> phase_ok ph
    \<and> phase_knows E (iv_invocationId iv) entry 0 ph"
  using commitTerminal_stopped [OF assms, of E "sv_clock w"] assms
  by (fastforce simp: begin_phase_def split: option.split)

lemma policy_behaviour:
  "validatePolicyDecision p \<Longrightarrow> get_prop p (js ''behavior'')
     \<in> {JStr (js ''allow''), JStr (js ''ask''), JStr (js ''deny'')}"
  by (auto simp: validatePolicyDecision_def text_in_def split: jsval.splits)

lemma checked_Inr: "checked ok what answer = Inr v \<Longrightarrow> ok v"
  by (auto simp: checked_def split: sum.splits if_splits)

lemma policy_phase_knows:
  assumes "it_invocationId i = iv_invocationId iv" "entry = Inr (Some (i, None))"
  shows "\<exists>ph. policy_phase E w iv i = Continue ph \<and> phase_ok ph
    \<and> phase_knows E (iv_invocationId iv) entry 0 ph"
proof (cases "checked validatePolicyDecision ''policy decision'' (sv_policy w)")
  case (Inl e)
  then show ?thesis
    using commitTerminal_stopped [OF assms, of E "sv_clock w"] by (fastforce simp: policy_phase_def)
next
  case (Inr p)
  then show ?thesis
    using commitTerminal_stopped [OF assms, of E "sv_clock w"] assms checked_Inr [OF Inr]
      policy_behaviour [OF checked_Inr [OF Inr]]
    by (fastforce simp: policy_phase_def may_continue_def)
qed

lemma approval_phase_knows:
  assumes "it_invocationId i = iv_invocationId iv" "entry = Inr (Some (i, None))"
    and "phase_ok (PhApproval i p)"
  shows "\<exists>ph. approval_phase E w iv i p = Continue ph \<and> phase_ok ph
    \<and> phase_knows E (iv_invocationId iv) entry 0 ph"
proof (cases "checked validateApprovalDecision ''approval decision'' (sv_approval w)")
  case (Inl e)
  then show ?thesis
    using commitTerminal_stopped [OF assms(1,2), of E "sv_clock w"]
    by (fastforce simp: approval_phase_def)
next
  case (Inr a)
  then show ?thesis
    using commitTerminal_stopped [OF assms(1,2), of E "sv_clock w"] assms checked_Inr [OF Inr]
    by (cases "get_prop a (js ''approved'') = JBool True")
       (fastforce simp: approval_phase_def may_continue_def)+
qed

lemma sandbox_phase_knows:
  assumes "it_invocationId i = iv_invocationId iv" "entry = Inr (Some (i, None))"
    and "phase_ok (PhSandbox i p a)"
  shows "\<exists>ph. sandbox_phase E w iv i p a = Continue ph \<and> phase_ok ph
    \<and> phase_knows E (iv_invocationId iv) entry 0 ph"
proof (cases "checked validateSandboxPreparation ''sandbox preparation'' (sv_sandbox w)")
  case (Inl e)
  then show ?thesis
    using commitTerminal_stopped [OF assms(1,2), of E "sv_clock w"]
    by (fastforce simp: sandbox_phase_def)
next
  case (Inr s)
  then show ?thesis
    using assms checked_Inr [OF Inr]
    by (simp add: sandbox_phase_def may_continue_def authorised_def)
qed

text \<open>The execution: at most one run, under the decisions the earlier phases checked; a receipt
  that claims success comes from a run.\<close>

lemma execute_phase_knows:
  assumes "it_invocationId i = iv_invocationId iv" "entry = Inr (Some (i, None))"
    and "phase_ok (PhExecute i p a s)"
  shows "\<exists>r effs. execute_phase E w iv i p a s = (Continue (PhComplete r), effs)
    \<and> phase_knows E (iv_invocationId iv) entry (run_count (iv_invocationId iv) effs) (PhComplete r)
    \<and> effs \<in> {[], [Ran (iv_invocationId iv) p a s], [Aggregated (iv_invocationId iv) p a s]}"
proof -
  obtain answer effs where e: "(case sv_nested w of
            Some nested \<Rightarrow> (nested, [Aggregated (iv_invocationId iv) p a s])
          | None \<Rightarrow>
              (let (result, ran) = execution_run w (iv_snapshot iv) s in
               (result, if ran then [Ran (iv_invocationId iv) p a s] else []))) = (answer, effs)"
    by fastforce
  obtain tm res d where o: "(case answer of Inr executed \<Rightarrow> executed
      | Inl e \<Rightarrow> (if sv_aborted w then ToolInterrupted else ToolFailed,
          failure (js ''Nested execution failed closed: '' @ e), max 0 (sv_clock w - it_startedAt i)))
      = (tm, res, d)"
    by (metis prod_cases3)
  have effs: "effs \<in> {[], [Ran (iv_invocationId iv) p a s], [Aggregated (iv_invocationId iv) p a s]}"
    using e by (auto split: option.splits prod.splits if_splits)
  have "tm \<noteq> ToolCompleted" if "effs = []"
    using e o that
    by (auto simp: execution_run_def split: option.splits prod.splits if_splits sum.splits)
  then have "tm = ToolCompleted \<Longrightarrow> run_count (iv_invocationId iv) effs = 1"
    using effs by auto
  then show ?thesis
    using assms effs commitTerminal_seals [of E "sv_clock w" iv i
      "\<lparr>to_policy = p, to_approval = a, to_sandbox = s, to_terminal = tm, to_phase = PhaseExecute,
        to_result = res, to_duration = Some d\<rparr>"]
    by (auto simp: execute_phase_def e o receipt_sealed_def)
qed

subsection \<open>The invariant of the gateway\<close>

fun entry_knows ::
  "js_env \<Rightarrow> gateway_error + journal_entry option \<Rightarrow> nat \<Rightarrow> invocation_receipt set \<Rightarrow> bool" where
  "entry_knows E (Inr (Some (i, Some r))) runs receipts \<longleftrightarrow> runs \<le> 1 \<and> receipts \<subseteq> {r}
     \<and> receipt_sealed E r \<and> it_digest i = rc_intentDigest r \<and> (rc_success r \<longrightarrow> runs = 1)"
| "entry_knows E (Inr (Some (i, None))) runs receipts \<longleftrightarrow> runs \<le> 1 \<and> receipts = {}"
| "entry_knows E _ runs receipts \<longleftrightarrow> runs = 0 \<and> receipts = {}"

definition receipts_of :: "gateway_error + invocation_receipt \<Rightarrow> invocation_receipt set" where
  "receipts_of res = (case res of Inr r \<Rightarrow> {r} | Inl _ \<Rightarrow> {})"

definition segment_ok ::
  "js_env \<Rightarrow> jsstr \<Rightarrow> gateway_error + journal_entry option \<Rightarrow> nat \<Rightarrow> invocation_receipt set
     \<Rightarrow> segment \<Rightarrow> bool" where
  "segment_ok E n entry runs receipts seg \<longleftrightarrow> (case seg of
     Continue ph \<Rightarrow> phase_ok ph \<and> phase_knows E n entry runs ph \<and> entry_knows E entry runs receipts
   | Settle res \<Rightarrow> entry_knows E entry runs (receipts \<union> receipts_of res))"

definition gw_inv ::
  "js_env \<Rightarrow> 'j journal_ops \<Rightarrow> ('j \<Rightarrow> bool) \<Rightarrow> 'j gateway \<Rightarrow> bool" where
  "gw_inv E J ok g \<longleftrightarrow> ok (gw_journal g)
     \<and> (\<forall>n fl. map_of (gw_inflight g) n = Some fl \<longrightarrow>
          iv_invocationId (fl_invocation fl) = n \<and> phase_ok (fl_phase fl)
          \<and> phase_knows E n (jo_load J (gw_journal g) n) (run_count n (gw_trace g)) (fl_phase fl))
     \<and> (\<forall>n. entry_knows E (jo_load J (gw_journal g) n) (run_count n (gw_trace g))
                (settled_receipts n (gw_trace g)))
     \<and> list_all effect_ok (gw_trace g)"

text \<open>The effects of one phase of invocation \<open>n\<close>.\<close>

definition effects_of :: "jsstr \<Rightarrow> gateway_effect list \<Rightarrow> bool" where
  "effects_of n effs \<longleftrightarrow> list_all effect_ok effs
     \<and> (\<forall>m. settled_receipts m effs = {} \<and> (m \<noteq> n \<longrightarrow> run_count m effs = 0))"

lemma effects_of_Nil [simp]: "effects_of n []"
  by (simp add: effects_of_def)

lemma effects_of_Begun [simp]: "effects_of n [Begun m]"
  by (simp add: effects_of_def effect_ok_def)

lemma phase_knows_entry:
  "phase_knows E n entry runs ph \<Longrightarrow> started_phase ph = Some i \<Longrightarrow>
   entry = Inr (Some (i, None)) \<and> runs = 0 \<and> it_invocationId i = n"
  by (cases ph) auto

context tool_journal
begin

lemma advance_ok:
  assumes ok: "journal_ok j" and n: "iv_invocationId iv = n" and ph: "phase_ok ph"
    and knows: "phase_knows E n (jo_load J j n) runs ph"
    and entry: "entry_knows E (jo_load J j n) runs receipts"
    and adv: "advance E J w iv ph j = (seg, j', effs)"
  shows "journal_ok j' \<and> (\<forall>m. m \<noteq> n \<longrightarrow> jo_load J j' m = jo_load J j m) \<and> effects_of n effs
    \<and> segment_ok E n (jo_load J j' n) (runs + run_count n effs) receipts seg"
proof (cases ph)
  case (PhLoad i)
  then have "seg = load_phase i (jo_load J j n)" "j' = j" "effs = []" using adv n by auto
  then show ?thesis
    using ok knows entry PhLoad
    by (auto simp: load_phase_def segment_ok_def receipts_of_def split: sum.splits option.splits)
next
  case (PhBegin i)
  show ?thesis
  proof (cases "jo_begin J i j")
    case (Inl e)
    then show ?thesis
      using adv PhBegin ok entry by (auto simp: segment_ok_def receipts_of_def)
  next
    case (Inr j1)
    have i: "it_invocationId i = n" using knows PhBegin by simp
    have seg: "seg = begin_phase E w iv i" "j' = j1" "effs = [Begun n]"
      using adv PhBegin Inr n by auto
    have begun: "journal_ok j1" "jo_load J j n = Inr None" "jo_load J j1 n = Inr (Some (i, None))"
      using begin_once [OF ok Inr] i by auto
    have "\<exists>ph'. seg = Continue ph' \<and> phase_ok ph' \<and> phase_knows E n (jo_load J j1 n) 0 ph'"
      using begin_phase_knows [of i iv "jo_load J j1 n" E w] begun(3) i n seg(1) by simp
    then show ?thesis
      using seg begun entry begin_other [OF ok Inr] i by (auto simp: segment_ok_def)
  qed
next
  case (PhPolicy i)
  then have seg: "seg = policy_phase E w iv i" "j' = j" "effs = []" using adv by auto
  have e: "jo_load J j n = Inr (Some (i, None))" "runs = 0" "it_invocationId i = n"
    using knows PhPolicy by auto
  then show ?thesis
    using policy_phase_knows [of i iv "jo_load J j n" E w] seg ok entry n by (auto simp: segment_ok_def)
next
  case (PhApproval i p)
  then have seg: "seg = approval_phase E w iv i p" "j' = j" "effs = []" using adv by auto
  have e: "jo_load J j n = Inr (Some (i, None))" "runs = 0" "it_invocationId i = n"
    using knows PhApproval by auto
  then show ?thesis
    using approval_phase_knows [of i iv "jo_load J j n" p E w] seg ok entry n ph PhApproval
    by (auto simp: segment_ok_def)
next
  case (PhSandbox i p a)
  then have seg: "seg = sandbox_phase E w iv i p a" "j' = j" "effs = []" using adv by auto
  have e: "jo_load J j n = Inr (Some (i, None))" "runs = 0" "it_invocationId i = n"
    using knows PhSandbox by auto
  then show ?thesis
    using sandbox_phase_knows [of i iv "jo_load J j n" p a E w] seg ok entry n ph PhSandbox
    by (auto simp: segment_ok_def)
next
  case (PhExecute i p a s)
  have e: "jo_load J j n = Inr (Some (i, None))" "runs = 0" "it_invocationId i = n"
    using knows PhExecute by auto
  obtain r where r: "execute_phase E w iv i p a s = (Continue (PhComplete r), effs)"
      "phase_knows E n (jo_load J j n) (run_count n effs) (PhComplete r)"
      "effs \<in> {[], [Ran n p a s], [Aggregated n p a s]}"
    using execute_phase_knows [of i iv "jo_load J j n" p a s E w] e n ph PhExecute adv by auto
  then have "seg = Continue (PhComplete r)" "j' = j" using adv PhExecute by auto
  moreover have "effects_of n effs"
    using r(3) ph PhExecute by (auto simp: effects_of_def effect_ok_def)
  moreover have "entry_knows E (jo_load J j n) (run_count n effs) receipts"
    using r(3) e entry by auto
  ultimately show ?thesis using r(2) e(2) ok by (simp add: segment_ok_def)
next
  case (PhComplete r)
  show ?thesis
  proof (cases "jo_complete J r j")
    case (Inl e)
    then show ?thesis
      using adv PhComplete ok entry by (auto simp: segment_ok_def receipts_of_def)
  next
    case (Inr j1)
    have r: "rc_invocationId r = n" "receipt_sealed E r" "rc_success r \<longrightarrow> runs = 1"
      using knows PhComplete by auto
    obtain i where i: "journal_ok j1" "jo_load J j n = Inr (Some (i, None))"
        "it_digest i = rc_intentDigest r" "jo_load J j1 n = Inr (Some (i, Some r))"
      using complete_once [OF ok Inr] r(1) by auto
    then show ?thesis
      using adv PhComplete Inr r entry complete_other [OF ok Inr]
      by (auto simp: segment_ok_def receipts_of_def)
  qed
qed


lemma gw_invoke_inv:
  assumes "gw_inv E J journal_ok g"
  shows "gw_inv E J journal_ok (gw_invoke E now iv g)"
  using assms
  by (auto simp: gw_inv_def gw_invoke_def Let_def update_conv' createIntent_def effect_ok_def
      split: option.split)

lemma gw_advance_inv:
  assumes inv: "gw_inv E J journal_ok g"
  shows "gw_inv E J journal_ok (gw_advance E J w n g)"
proof (cases "map_of (gw_inflight g) n")
  case None
  then show ?thesis using inv by (simp add: gw_advance_def)
next
  case (Some fl)
  obtain seg j' effs where adv:
      "advance E J w (fl_invocation fl) (fl_phase fl) (gw_journal g) = (seg, j', effs)"
    by (metis prod_cases3)
  let ?tr = "gw_trace g"
  have "gw_inv E J journal_ok g \<Longrightarrow> iv_invocationId (fl_invocation fl) = n \<and> phase_ok (fl_phase fl)
      \<and> phase_knows E n (jo_load J (gw_journal g) n) (run_count n ?tr) (fl_phase fl)
      \<and> entry_knows E (jo_load J (gw_journal g) n) (run_count n ?tr) (settled_receipts n ?tr)
      \<and> journal_ok (gw_journal g)"
    using Some by (simp add: gw_inv_def)
  then have ok: "journal_ok j' \<and> (\<forall>m. m \<noteq> n \<longrightarrow> jo_load J j' m = jo_load J (gw_journal g) m)
      \<and> effects_of n effs
      \<and> segment_ok E n (jo_load J j' n) (run_count n ?tr + run_count n effs) (settled_receipts n ?tr) seg"
    using inv advance_ok [OF _ _ _ _ _ adv] by blast
  show ?thesis
  proof (cases seg)
    case (Continue ph)
    have "entry_knows E (jo_load J j' m) (run_count m ?tr + run_count m effs) (settled_receipts m ?tr)"
      for m
      using inv ok Continue
      by (cases "m = n") (auto simp: gw_inv_def effects_of_def segment_ok_def)
    then show ?thesis
      using inv ok Some adv Continue
      by (auto simp: gw_inv_def gw_advance_def update_conv' effects_of_def segment_ok_def)
  next
    case (Settle res)
    then have "settled_receipts m (effs @ [Settled n res]) = (if m = n then receipts_of res else {})" for m
      using ok by (cases res) (auto simp: effects_of_def receipts_of_def)
    then show ?thesis
      using inv ok Some adv Settle
      by (auto simp: gw_inv_def gw_advance_def delete_conv' effects_of_def segment_ok_def effect_ok_def)
  qed
qed

lemma gw_do_inv: "gw_inv E J journal_ok g \<Longrightarrow> gw_inv E J journal_ok (gw_do E J a g)"
proof (cases a)
  case Restart
  then show "gw_inv E J journal_ok g \<Longrightarrow> ?thesis" by (simp add: gw_inv_def gw_restart_def)
qed (simp_all add: gw_invoke_inv gw_advance_inv)

lemma gateway_inv:
  assumes "journal_ok j" "\<And>n. jo_load J j n = Inr None"
  shows "gw_inv E J journal_ok (fold (gw_do E J) acts (new_gateway j))"
proof -
  have "gw_inv E J journal_ok g \<Longrightarrow> gw_inv E J journal_ok (fold (gw_do E J) acts g)" for g
    by (induction acts arbitrary: g) (auto intro: gw_do_inv)
  moreover have "gw_inv E J journal_ok (new_gateway j)"
    using assms by (simp add: gw_inv_def new_gateway_def)
  ultimately show ?thesis .
qed

text \<open>What the invariant says of the trace.\<close>

lemma inv_run_count: "gw_inv E J journal_ok g \<Longrightarrow> run_count n (gw_trace g) \<le> 1"
proof -
  assume "gw_inv E J journal_ok g"
  then have "entry_knows E (jo_load J (gw_journal g) n) (run_count n (gw_trace g))
      (settled_receipts n (gw_trace g))"
    by (simp add: gw_inv_def)
  then show ?thesis
    by (cases "(E, jo_load J (gw_journal g) n, run_count n (gw_trace g),
          settled_receipts n (gw_trace g))" rule: entry_knows.cases) auto
qed

lemma inv_settled_receipt:
  assumes "gw_inv E J journal_ok g" "Settled n (Inr r) \<in> set (gw_trace g)"
  shows "(\<exists>i. jo_load J (gw_journal g) n = Inr (Some (i, Some r)) \<and> it_digest i = rc_intentDigest r)
    \<and> receipt_sealed E r \<and> (rc_success r \<longrightarrow> run_count n (gw_trace g) = 1)"
proof -
  have "r \<in> settled_receipts n (gw_trace g)"
    using assms(2) by (simp add: settled_receipts_def)
  moreover have "entry_knows E (jo_load J (gw_journal g) n) (run_count n (gw_trace g))
      (settled_receipts n (gw_trace g))"
    using assms(1) by (simp add: gw_inv_def)
  ultimately show ?thesis
    by (cases "(E, jo_load J (gw_journal g) n, run_count n (gw_trace g),
          settled_receipts n (gw_trace g))" rule: entry_knows.cases) auto
qed

text \<open>An invocation the journal shows as begun, with no instance past its \<open>load\<close>, stays so.\<close>

definition orphaned :: "jsstr \<Rightarrow> 'j gateway \<Rightarrow> bool" where
  "orphaned n g \<longleftrightarrow> (\<exists>i. jo_load J (gw_journal g) n = Inr (Some (i, None)))
     \<and> (\<forall>fl. map_of (gw_inflight g) n = Some fl \<longrightarrow>
          (\<exists>i. fl_phase fl = PhLoad i \<or> fl_phase fl = PhBegin i))"

lemma advance_orphaned:
  assumes ok: "journal_ok j" and i: "phase_intent ph = Some i" "it_invocationId i = n"
    and ph: "ph = PhLoad i \<or> ph = PhBegin i" and begun: "jo_load J j n = Inr (Some (i', None))"
    and n: "iv_invocationId iv = n"
  shows "\<exists>e. advance E J w iv ph j = (Settle (Inl e), j, [])"
  using ph
proof
  assume "ph = PhLoad i"
  then show ?thesis using begun n by (simp add: load_phase_def)
next
  assume "ph = PhBegin i"
  moreover have "\<exists>e. jo_begin J i j = Inl e"
    using begin_once [OF ok, of i] begun i(2) by (cases "jo_begin J i j") auto
  ultimately show ?thesis by auto
qed

lemma orphaned_step:
  assumes inv: "gw_inv E J journal_ok g" and orphan: "orphaned n g"
  shows "orphaned n (gw_do E J a g)
    \<and> run_count n (gw_trace (gw_do E J a g)) = run_count n (gw_trace g)
    \<and> settled_receipts n (gw_trace (gw_do E J a g)) = settled_receipts n (gw_trace g)"
proof (cases a)
  case (Invoke now iv)
  then show ?thesis
    using orphan by (auto simp: orphaned_def gw_invoke_def Let_def update_conv' split: option.split)
next
  case Restart
  then show ?thesis using orphan by (simp add: orphaned_def gw_restart_def)
next
  case (Advance w m)
  show ?thesis
  proof (cases "map_of (gw_inflight g) m")
    case None
    then show ?thesis using orphan Advance by (simp add: gw_advance_def)
  next
    case (Some fl)
    obtain seg j' effs where adv:
        "advance E J w (fl_invocation fl) (fl_phase fl) (gw_journal g) = (seg, j', effs)"
      by (metis prod_cases3)
    have fl: "iv_invocationId (fl_invocation fl) = m" "phase_ok (fl_phase fl)"
        "phase_knows E m (jo_load J (gw_journal g) m) (run_count m (gw_trace g)) (fl_phase fl)"
        "entry_knows E (jo_load J (gw_journal g) m) (run_count m (gw_trace g))
           (settled_receipts m (gw_trace g))"
        "journal_ok (gw_journal g)"
      using inv Some by (simp_all add: gw_inv_def)
    show ?thesis
    proof (cases "m = n")
      case True
      obtain i i' where "fl_phase fl = PhLoad i \<or> fl_phase fl = PhBegin i"
          "jo_load J (gw_journal g) n = Inr (Some (i', None))"
        using orphan Some True by (auto simp: orphaned_def)
      then obtain e where "seg = Settle (Inl e)" "j' = gw_journal g" "effs = []"
        using advance_orphaned [of "gw_journal g" "fl_phase fl" i n i' "fl_invocation fl" E w] fl True adv
        by auto
      then show ?thesis
        using orphan Advance Some adv True by (auto simp: gw_advance_def orphaned_def delete_conv')
    next
      case False
      have "jo_load J j' n = jo_load J (gw_journal g) n \<and> run_count n effs = 0
          \<and> settled_receipts n effs = {}"
        using advance_ok [OF fl(5,1,2,3,4) adv] False by (simp add: effects_of_def)
      moreover have "settled_receipts n [Settled m res] = {}" for res
        using False by (cases res) auto
      ultimately show ?thesis
        using orphan Advance Some adv False
        by (cases seg) (auto simp: gw_advance_def orphaned_def update_conv' delete_conv')
    qed
  qed
qed

lemma orphaned_run:
  assumes "gw_inv E J journal_ok g" "orphaned n g"
  shows "run_count n (gw_trace (fold (gw_do E J) acts g)) = run_count n (gw_trace g)
    \<and> settled_receipts n (gw_trace (fold (gw_do E J) acts g)) = settled_receipts n (gw_trace g)"
  using assms
proof (induction acts arbitrary: g)
  case (Cons a acts)
  then show ?case using gw_do_inv [OF Cons.prems(1)] orphaned_step [OF Cons.prems] by simp
qed simp

end

subsection \<open>The phases of an invocation come to an end\<close>

fun phase_rank :: "invocation_phase \<Rightarrow> nat" where
  "phase_rank (PhLoad i) = 7"
| "phase_rank (PhBegin i) = 6"
| "phase_rank (PhPolicy i) = 5"
| "phase_rank (PhApproval i p) = 4"
| "phase_rank (PhSandbox i p a) = 3"
| "phase_rank (PhExecute i p a s) = 2"
| "phase_rank (PhComplete r) = 1"

lemma commitTerminal_rank: "commitTerminal E t iv i out = Continue ph \<Longrightarrow> phase_rank ph = 1"
  by (auto simp: commitTerminal_def Let_def)

lemma advance_rank:
  "advance E J w iv ph j = (Continue ph', j', effs) \<Longrightarrow> phase_rank ph' < phase_rank ph"
  by (cases ph) (auto simp: load_phase_def begin_phase_def policy_phase_def approval_phase_def
      sandbox_phase_def execute_phase_def Let_def dest!: commitTerminal_rank
      split: sum.splits option.splits if_splits prod.splits)

definition in_flight :: "jsstr \<Rightarrow> 'j gateway \<Rightarrow> bool" where
  "in_flight n g \<longleftrightarrow> map_of (gw_inflight g) n \<noteq> None"

fun advances :: "jsstr \<Rightarrow> gateway_action \<Rightarrow> bool" where
  "advances n (Advance w m) = (m = n)"
| "advances n _ = False"

lemma flight_rank_step:
  assumes "map_of (gw_inflight g) n = Some fl"
  shows "\<not> in_flight n (gw_do E J a g)
    \<or> (\<exists>fl'. map_of (gw_inflight (gw_do E J a g)) n = Some fl'
        \<and> phase_rank (fl_phase fl') + (if advances n a then 1 else 0) \<le> phase_rank (fl_phase fl))"
proof (cases a)
  case (Invoke now iv)
  then show ?thesis
    using assms by (auto simp: gw_invoke_def Let_def update_conv' split: option.split)
next
  case Restart
  then show ?thesis by (simp add: in_flight_def gw_restart_def)
next
  case (Advance w m)
  show ?thesis
  proof (cases "map_of (gw_inflight g) m")
    case None
    then show ?thesis using assms Advance by (auto simp: gw_advance_def)
  next
    case (Some fm)
    obtain seg j' effs where
        adv: "advance E J w (fl_invocation fm) (fl_phase fm) (gw_journal g) = (seg, j', effs)"
      by (metis prod_cases3)
    then show ?thesis
      using assms Some Advance advance_rank [of E J w "fl_invocation fm" "fl_phase fm" "gw_journal g"]
      by (cases seg) (auto simp: gw_advance_def in_flight_def update_conv' delete_conv' Suc_le_eq)
  qed
qed

lemma flight_settles:
  "map_of (gw_inflight g) n = Some fl \<Longrightarrow>
   phase_rank (fl_phase fl) \<le> length (filter (advances n) acts) \<Longrightarrow>
   \<exists>k \<le> length acts. \<not> in_flight n (fold (gw_do E J) (take k acts) g)"
proof (induction acts arbitrary: g fl)
  case Nil
  then show ?case by (cases "fl_phase fl") auto
next
  case (Cons a acts)
  consider "\<not> in_flight n (gw_do E J a g)"
    | fl' where "map_of (gw_inflight (gw_do E J a g)) n = Some fl'"
        "phase_rank (fl_phase fl') + (if advances n a then 1 else 0) \<le> phase_rank (fl_phase fl)"
    using flight_rank_step [OF Cons.prems(1), of E J a] by blast
  then show ?case
  proof cases
    case 1
    then show ?thesis by (intro exI [of _ "Suc 0"]) simp
  next
    case 2
    then have "phase_rank (fl_phase fl') \<le> length (filter (advances n) acts)"
      using Cons.prems(2) by (simp split: if_splits)
    then obtain k where "k \<le> length acts" "\<not> in_flight n (fold (gw_do E J) (take k acts) (gw_do E J a g))"
      using Cons.IH [OF 2(1)] by blast
    then show ?thesis by (intro exI [of _ "Suc k"]) simp
  qed
qed

subsection \<open>The in-memory journal keeps the contract\<close>

interpretation mem: tool_journal memory_ops "\<lambda>_. True"
  by unfold_locales
     (auto simp: memory_ops_def memory_load_def memory_begin_def memory_complete_def update_conv'
       simp del: not_None_eq split: if_splits option.splits)

definition gateway_run :: "js_env \<Rightarrow> gateway_action list \<Rightarrow> memory_journal gateway" where
  "gateway_run E acts = fold (gw_do E memory_ops) acts (new_gateway [])"

lemma gateway_run_inv: "gw_inv E memory_ops (\<lambda>_. True) (gateway_run E acts)"
  unfolding gateway_run_def
  by (rule mem.gateway_inv) (simp_all add: memory_ops_def memory_load_def)

subsection \<open>A concrete run\<close>

definition gate_env :: js_env where
  "gate_env = \<lparr>json_stringify = (\<lambda>v. js ''{}''), json_parse = (\<lambda>s. None), string_of = (\<lambda>v. []),
     sha256_hex = (\<lambda>s. s), locale_le = (\<lambda>a b. True)\<rparr>"

definition read_tool :: tool_descriptor where
  "read_tool = \<lparr>de_name = js ''read'', de_aliases = [], de_executorId = js ''x''\<rparr>"

definition read_invocation :: tool_invocation where
  "read_invocation =
     \<lparr>iv_invocationId = js ''00000000-0000-4000-8000-000000000001'', iv_parentInvocationId = None,
      iv_snapshot = \<lparr>sn_threadId = js ''t'', sn_turnId = js ''u'', sn_stepId = js ''s'',
        sn_digest = js ''d'', sn_router = [(js ''read'', read_tool)], sn_routerDigest = js ''r'',
        sn_authorityDigest = js ''a'', sn_executionPolicyDigest = js ''e'',
        sn_sandboxRequired = True, sn_direct = [js ''read'']\<rparr>,
      iv_toolName = js ''read'', iv_args = JObj []\<rparr>"

definition calm_services :: step_env where
  "calm_services = \<lparr>sv_clock = 5, sv_aborted = False,
     sv_policy = Inr (JObj [(js ''behavior'', JStr (js ''allow'')), (js ''source'', JStr (js ''c'')),
       (js ''digest'', JStr (js ''p''))]),
     sv_approval = Inl [],
     sv_sandbox = Inr (JObj [(js ''enforcement'', JStr (js ''full'')),
       (js ''backend'', JStr (js ''b'')), (js ''digest'', JStr (js ''s''))]),
     sv_nested = None, sv_integrityError = None,
     sv_tool = Inr (JObj [(js ''success'', JBool True)]), sv_toolAborted = False, sv_duration = 2\<rparr>"

definition read_steps :: "nat \<Rightarrow> gateway_action list" where
  "read_steps k = Invoke 3 read_invocation
     # replicate k (Advance calm_services (iv_invocationId read_invocation))"

lemma read_invocation_valid: "validateInvocation read_invocation"
  by code_simp

fun succeeds :: "jsstr \<Rightarrow> gateway_effect \<Rightarrow> bool" where
  "succeeds n (Settled m (Inr r)) \<longleftrightarrow> m = n \<and> rc_success r"
| "succeeds n _ \<longleftrightarrow> False"

lemma succeeds_iff: "succeeds n e \<longleftrightarrow> (\<exists>r. e = Settled n (Inr r) \<and> rc_success r)"
  by (cases "(n, e)" rule: succeeds.cases) auto

lemma read_run:
  "list_ex (succeeds (iv_invocationId read_invocation))
     (gw_trace (gateway_run gate_env (read_steps 6)))"
  by code_simp

lemma read_run_settled:
  "\<exists>r. Settled (iv_invocationId read_invocation) (Inr r)
     \<in> set (gw_trace (gateway_run gate_env (read_steps 6))) \<and> rc_success r"
  using read_run by (auto simp: list_ex_iff succeeds_iff)

lemma read_run_begun:
  "map_option snd (map_of (gw_journal (gateway_run gate_env (read_steps 2)))
     (iv_invocationId read_invocation)) = Some None"
  by code_simp

subsection \<open>Properties\<close>

text \<open>C17: Whatever invocations are requested, however their phases interleave and whenever the
  process restarts over the same journal, the tool of an invocation runs at most once, and only
  under a well-formed policy decision that allows it or asks and was approved, with a well-formed
  sandbox preparation.\<close>

theorem tool_runs_at_most_once:
  "run_count n (gw_trace (gateway_run E acts)) \<le> 1
   \<and> list_all effect_ok (gw_trace (gateway_run E acts))"
  using mem.inv_run_count [OF gateway_run_inv] gateway_run_inv [of E acts] by (simp add: gw_inv_def)

text \<open>C18: All callers of an invocation that get a receipt, before or after a restart, get the same
  one; its digests are those of its content and of the result, the journal holds it, and if it
  claims success the tool ran exactly once.\<close>

theorem one_sealed_receipt:
  assumes "Settled n (Inr r) \<in> set (gw_trace (gateway_run E acts))"
    and "Settled n (Inr r') \<in> set (gw_trace (gateway_run E acts))"
  shows "r' = r \<and> receipt_sealed E r \<and> map_option snd (map_of (gw_journal (gateway_run E acts)) n) = Some (Some r)
    \<and> (rc_success r \<longrightarrow> run_count n (gw_trace (gateway_run E acts)) = 1)"
  using mem.inv_settled_receipt [OF gateway_run_inv assms(1)]
    mem.inv_settled_receipt [OF gateway_run_inv assms(2)]
  by (auto simp: memory_ops_def memory_load_def)

theorem one_sealed_receipt_witness:
  "\<exists>r. Settled (iv_invocationId read_invocation) (Inr r)
       \<in> set (gw_trace (gateway_run gate_env (read_steps 6))) \<and> receipt_sealed gate_env r
     \<and> run_count (iv_invocationId read_invocation) (gw_trace (gateway_run gate_env (read_steps 6))) = 1"
  using read_run_settled one_sealed_receipt by blast

text \<open>C19: An invocation whose start is durable and whose receipt is not, when the process
  restarts, is never run afterwards and never settles with a receipt, whatever is requested.\<close>

theorem crashed_invocation_never_reruns:
  assumes "map_option snd (map_of (gw_journal (gateway_run E acts)) n) = Some None"
  shows "run_count n (gw_trace (gateway_run E (acts @ [Restart] @ later)))
      = run_count n (gw_trace (gateway_run E acts))
    \<and> settled_receipts n (gw_trace (gateway_run E (acts @ [Restart] @ later))) = {}"
proof -
  let ?g = "gw_restart (gateway_run E acts)"
  have run: "gateway_run E (acts @ [Restart] @ later) = fold (gw_do E memory_ops) later ?g"
    by (simp add: gateway_run_def)
  have inv: "gw_inv E memory_ops (\<lambda>_. True) ?g"
    using mem.gw_do_inv [OF gateway_run_inv, of E Restart acts] by simp
  have begun: "\<exists>i. jo_load memory_ops (gw_journal ?g) n = Inr (Some (i, None))"
    using assms by (auto simp: memory_ops_def memory_load_def gw_restart_def)
  then have "mem.orphaned n ?g"
    by (simp add: mem.orphaned_def gw_restart_def)
  moreover have "settled_receipts n (gw_trace ?g) = {}"
    using begun mem.inv_settled_receipt [OF inv, of n] by (fastforce simp: settled_receipts_def)
  ultimately show ?thesis
    unfolding run using mem.orphaned_run [OF inv] by (simp add: gw_restart_def)
qed

theorem crashed_invocation_never_reruns_witness:
  "settled_receipts (iv_invocationId read_invocation)
     (gw_trace (gateway_run gate_env (read_steps 2 @ [Restart] @ read_steps 6))) = {}"
  using crashed_invocation_never_reruns [OF read_run_begun] by simp

text \<open>C20: An invocation in flight settles: once its phases were advanced seven times, with the
  steps of others in between in any order and whatever the services answer, it has left the
  gateway.\<close>

theorem invocation_settles:
  assumes "in_flight n (gateway_run E acts)" and "7 \<le> length (filter (advances n) later)"
  shows "\<exists>k \<le> length later. \<not> in_flight n (gateway_run E (acts @ take k later))"
proof -
  obtain fl where fl: "map_of (gw_inflight (gateway_run E acts)) n = Some fl"
    using assms(1) by (auto simp: in_flight_def)
  have "phase_rank (fl_phase fl) \<le> 7" by (cases "fl_phase fl") auto
  then show ?thesis
    using flight_settles [OF fl, of later E memory_ops] assms(2) by (simp add: gateway_run_def)
qed

theorem invocation_settles_witness:
  "\<exists>k \<le> 7. \<not> in_flight (iv_invocationId read_invocation)
     (gateway_run gate_env ([Invoke 3 read_invocation]
        @ take k (replicate 7 (Advance calm_services (iv_invocationId read_invocation)))))"
  using invocation_settles [of "iv_invocationId read_invocation" gate_env "[Invoke 3 read_invocation]"
      "replicate 7 (Advance calm_services (iv_invocationId read_invocation))"] read_invocation_valid
  by (simp add: in_flight_def gateway_run_def gw_invoke_def new_gateway_def Let_def)

end
