(* ===== verification/GoalLifecycle.thy ===== *)
theory GoalLifecycle
  imports RuntimeProtocol
begin

section \<open>Stop decisions and the goal lifecycle\<close>

text \<open>
  Models \<open>src/src/framework/stop-decision.ts\<close> and \<open>GoalLifecycleServiceV2\<close> of
  \<open>src/src/runtime/goal-lifecycle-v2.ts\<close>. The clock's reading is an argument; freezing and
  cloning have no effect here. Counters are integers: beyond the safe integers JavaScript's sums
  round, which the model does not.
\<close>

subsection \<open>Stop decisions\<close>

datatype stop_scope = ScopeRequest | ScopeGoal | ScopeSubagent | ScopeRuntime

datatype stop_status = StopCompleted | StopStopped | StopBlocked | StopCancelled | StopFailed

datatype stop_disposition = FinishScope | PauseScope | ResumeAllowed

datatype evidence_kind =
  EvResourceLimit | EvToolBoundary | EvVerification | EvProvider | EvRuntime

datatype action_kind = ActContinue | ActInspect | ActRetry | ActResume | ActChangeInput | ActRaiseBudget

record stop_evidence =
  se_kind :: evidence_kind
  se_source :: jsstr
  se_detail :: jsstr

record stop_action =
  sa_kind :: action_kind
  sa_label :: jsstr
  sa_command :: "jsstr option"

record stop_counter =
  sc_used :: int
  sc_limit :: "int option"

record stop_decision =
  sd_scope :: stop_scope
  sd_status :: stop_status
  sd_disposition :: stop_disposition
  sd_code :: jsstr
  sd_message :: jsstr
  sd_evidence :: "stop_evidence list"
  sd_nextActions :: "stop_action list"
  sd_resources :: "(jsstr \<times> stop_counter) list"
  sd_criterionStates :: "(jsstr \<times> jsstr) list option"
  sd_evidenceRefs :: "jsstr list option"

text \<open>The assertion on the counters; \<open>None\<close> is the thrown error. The decision is a copy.\<close>

definition assertCounter :: "stop_counter \<Rightarrow> bool" where
  "assertCounter c \<longleftrightarrow> 0 \<le> sc_used c \<and> (case sc_limit c of None \<Rightarrow> True | Some l \<Rightarrow> 0 \<le> l)"

definition createStopDecision :: "stop_decision \<Rightarrow> stop_decision option" where
  "createStopDecision d = (if list_all (assertCounter \<circ> snd) (sd_resources d) then Some d else None)"

definition scope_text :: "stop_scope \<Rightarrow> jsstr" where
  "scope_text s = (case s of ScopeRequest \<Rightarrow> js ''request'' | ScopeGoal \<Rightarrow> js ''goal''
     | ScopeSubagent \<Rightarrow> js ''subagent'' | ScopeRuntime \<Rightarrow> js ''runtime'')"

definition stop_status_text :: "stop_status \<Rightarrow> jsstr" where
  "stop_status_text s = (case s of StopCompleted \<Rightarrow> js ''completed'' | StopStopped \<Rightarrow> js ''stopped''
     | StopBlocked \<Rightarrow> js ''blocked'' | StopCancelled \<Rightarrow> js ''cancelled''
     | StopFailed \<Rightarrow> js ''failed'')"

definition disposition_text :: "stop_disposition \<Rightarrow> jsstr" where
  "disposition_text d = (case d of FinishScope \<Rightarrow> js ''finish_scope''
     | PauseScope \<Rightarrow> js ''pause_scope'' | ResumeAllowed \<Rightarrow> js ''resume_allowed'')"

definition evidence_text :: "evidence_kind \<Rightarrow> jsstr" where
  "evidence_text k = (case k of EvResourceLimit \<Rightarrow> js ''resource_limit''
     | EvToolBoundary \<Rightarrow> js ''tool_boundary'' | EvVerification \<Rightarrow> js ''verification''
     | EvProvider \<Rightarrow> js ''provider'' | EvRuntime \<Rightarrow> js ''runtime'')"

definition action_text :: "action_kind \<Rightarrow> jsstr" where
  "action_text k = (case k of ActContinue \<Rightarrow> js ''continue'' | ActInspect \<Rightarrow> js ''inspect''
     | ActRetry \<Rightarrow> js ''retry'' | ActResume \<Rightarrow> js ''resume''
     | ActChangeInput \<Rightarrow> js ''change_input'' | ActRaiseBudget \<Rightarrow> js ''raise_budget'')"

definition counter_value :: "stop_counter \<Rightarrow> jsval" where
  "counter_value c = JObj ((js ''used'', jint (sc_used c))
     # (case sc_limit c of None \<Rightarrow> [] | Some l \<Rightarrow> [(js ''limit'', jint l)]))"

definition stop_value :: "stop_decision \<Rightarrow> jsval" where
  "stop_value d = JObj
     ([(js ''schemaVersion'', jint 1), (js ''scope'', JStr (scope_text (sd_scope d))),
       (js ''status'', JStr (stop_status_text (sd_status d))),
       (js ''disposition'', JStr (disposition_text (sd_disposition d))),
       (js ''reason'', JObj [(js ''code'', JStr (sd_code d)), (js ''message'', JStr (sd_message d))]),
       (js ''evidence'', JArr (map (\<lambda>e. JObj [(js ''kind'', JStr (evidence_text (se_kind e))),
          (js ''source'', JStr (se_source e)), (js ''detail'', JStr (se_detail e))]) (sd_evidence d)))]
      @ (case sd_evidenceRefs d of None \<Rightarrow> []
         | Some rs \<Rightarrow> [(js ''evidenceRefs'', JArr (map JStr rs))])
      @ (case sd_criterionStates d of None \<Rightarrow> []
         | Some cs \<Rightarrow> [(js ''criterionStates'', JArr (map (\<lambda>(i, s).
             JObj [(js ''id'', JStr i), (js ''status'', JStr s)]) cs))])
      @ [(js ''nextActions'', JArr (map (\<lambda>a. JObj
           ([(js ''kind'', JStr (action_text (sa_kind a))), (js ''label'', JStr (sa_label a))]
            @ (case sa_command a of None \<Rightarrow> [] | Some c \<Rightarrow> [(js ''command'', JStr c)])))
           (sd_nextActions d))),
         (js ''resources'', JObj (map (\<lambda>(k, c). (k, counter_value c)) (sd_resources d)))])"

subsection \<open>Goal state and observations\<close>

datatype goal_status = GoalActive | GoalPaused | GoalCompleted | GoalFailed

record goal_budget =
  gb_maxTokens :: int
  gb_maxElapsedMs :: int

record goal_state =
  gl_goalId :: jsstr
  gl_objective :: jsstr
  gl_status :: goal_status
  gl_generation :: int
  gl_continuationCount :: int
  gl_noProgressCount :: int
  gl_blockedCount :: int
  gl_tokensUsed :: int
  gl_elapsedMs :: int
  gl_budget :: goal_budget
  gl_lastStopDecision :: "stop_decision option"
  gl_createdAt :: int
  gl_updatedAt :: int
  gl_digest :: jsstr

record completion_decision =
  cd_canComplete :: bool
  cd_evidence :: "jsstr list"
  cd_criterionResults :: "(jsstr \<times> jsstr) list option"

record goal_observation =
  go_requestDecision :: "stop_decision option"
  go_taskContextCompletion :: "completion_decision option"
  go_madeProgress :: bool
  go_blocked :: "jsstr option"
  go_tokenDelta :: jsnum
  go_elapsedMs :: jsnum
  go_persistenceFailure :: "jsstr option"
  go_aborted :: bool

datatype goal_error =
  ObjectiveEmpty | BudgetInvalid | ObservationInvalid | IntegrityFailed | CountersInvalid
  | StopResourcesInvalid

definition goal_status_text :: "goal_status \<Rightarrow> jsstr" where
  "goal_status_text s = (case s of GoalActive \<Rightarrow> js ''active'' | GoalPaused \<Rightarrow> js ''paused''
     | GoalCompleted \<Rightarrow> js ''completed'' | GoalFailed \<Rightarrow> js ''failed'')"

text \<open>The state without its digest, as the value that is digested.\<close>

definition goal_content :: "goal_state \<Rightarrow> jsval" where
  "goal_content s = JObj
     ([(js ''version'', jint 2), (js ''goalId'', JStr (gl_goalId s)),
       (js ''objective'', JStr (gl_objective s)),
       (js ''status'', JStr (goal_status_text (gl_status s))),
       (js ''generation'', jint (gl_generation s)),
       (js ''continuationCount'', jint (gl_continuationCount s)),
       (js ''noProgressCount'', jint (gl_noProgressCount s)),
       (js ''blockedCount'', jint (gl_blockedCount s)),
       (js ''tokensUsed'', jint (gl_tokensUsed s)), (js ''elapsedMs'', jint (gl_elapsedMs s)),
       (js ''budget'', JObj [(js ''maxTokens'', jint (gb_maxTokens (gl_budget s))),
          (js ''maxElapsedMs'', jint (gb_maxElapsedMs (gl_budget s)))])]
      @ (case gl_lastStopDecision s of None \<Rightarrow> []
         | Some d \<Rightarrow> [(js ''lastStopDecision'', stop_value d)])
      @ [(js ''createdAt'', jint (gl_createdAt s)), (js ''updatedAt'', jint (gl_updatedAt s))])"

definition withDigest :: "js_env \<Rightarrow> goal_state \<Rightarrow> goal_state" where
  "withDigest E s = s\<lparr>gl_digest := digestRuntimeValue E (goal_content s)\<rparr>"

definition validateBudget :: "goal_budget \<Rightarrow> bool" where
  "validateBudget b \<longleftrightarrow> is_safe_integer (gb_maxTokens b) \<and> \<not> gb_maxTokens b \<le> 0
     \<and> is_safe_integer (gb_maxElapsedMs b) \<and> \<not> gb_maxElapsedMs b \<le> 0"

text \<open>A number that is a non-negative safe integer.\<close>

definition counter_of :: "jsnum \<Rightarrow> int option" where
  "counter_of n = (case int_of_val (JNum n) of
     Some k \<Rightarrow> if is_safe_integer k \<and> 0 \<le> k then Some k else None | None \<Rightarrow> None)"

definition validateObservation :: "goal_observation \<Rightarrow> (int \<times> int) option" where
  "validateObservation obs = (case counter_of (go_tokenDelta obs) of
     None \<Rightarrow> None
   | Some t \<Rightarrow> (case counter_of (go_elapsedMs obs) of None \<Rightarrow> None | Some e \<Rightarrow> Some (t, e)))"

definition goal_counters :: "goal_state \<Rightarrow> int list" where
  "goal_counters s = [gl_generation s, gl_continuationCount s, gl_noProgressCount s,
     gl_blockedCount s, gl_tokensUsed s, gl_elapsedMs s]"

definition assertGoalLifecycleStateV2 :: "js_env \<Rightarrow> goal_state \<Rightarrow> goal_error option" where
  "assertGoalLifecycleStateV2 E s =
     (if \<not> isRuntimeId (gl_goalId s) \<or> js_trim (gl_objective s) = []
         \<or> digestRuntimeValue E (goal_content s) \<noteq> gl_digest s
      then Some IntegrityFailed
      else if \<not> validateBudget (gl_budget s) then Some BudgetInvalid
      else if \<not> list_all (\<lambda>n. is_safe_integer n \<and> 0 \<le> n) (goal_counters s)
      then Some CountersInvalid else None)"

subsection \<open>Decisions of the goal\<close>

text \<open>\<open>/provider|network|auth|rate.?limit/iu\<close>. Under these flags the characters that fold to
  an ASCII letter of the pattern are its capital and, for k, the Kelvin sign. The dot is one code
  point that ends no line.\<close>

definition fold_unit :: "16 word \<Rightarrow> 16 word" where
  "fold_unit u = (if 0x41 \<le> u \<and> u \<le> 0x5A then u + 0x20 else if u = 0x212A then 0x6B else u)"

definition begins :: "jsstr \<Rightarrow> string \<Rightarrow> bool" where
  "begins s k \<longleftrightarrow> map fold_unit (take (length (js k)) s) = js k"

text \<open>What is left after one code point, when it ends no line.\<close>

fun skip_point :: "jsstr \<Rightarrow> jsstr option" where
  "skip_point [] = None"
| "skip_point (u # s) =
     (if u \<in> {0x0A, 0x0D, 0x2028, 0x2029} then None
      else if 0xD800 \<le> u \<and> u \<le> 0xDBFF \<and> s \<noteq> [] \<and> 0xDC00 \<le> hd s \<and> hd s \<le> 0xDFFF
      then Some (List.tl s)
      else Some s)"

definition provider_code_at :: "jsstr \<Rightarrow> bool" where
  "provider_code_at s \<longleftrightarrow> begins s ''provider'' \<or> begins s ''network'' \<or> begins s ''auth''
     \<or> begins s ''rate'' \<and> (begins (drop 4 s) ''limit''
        \<or> (case skip_point (drop 4 s) of None \<Rightarrow> False | Some s' \<Rightarrow> begins s' ''limit''))"

fun provider_code :: "jsstr \<Rightarrow> bool" where
  "provider_code [] = False"
| "provider_code (u # s) = (provider_code_at (u # s) \<or> provider_code s)"

definition isProviderFailure :: "stop_decision \<Rightarrow> bool" where
  "isProviderFailure d \<longleftrightarrow> list_ex (\<lambda>e. se_kind e = EvProvider) (sd_evidence d)
     \<or> provider_code (sd_code d)"

definition inspect_action :: "string \<Rightarrow> stop_action" where
  "inspect_action l = \<lparr>sa_kind = ActInspect, sa_label = js l, sa_command = None\<rparr>"

definition goalDecision ::
  "stop_status \<Rightarrow> stop_disposition \<Rightarrow> string \<Rightarrow> jsstr \<Rightarrow> (jsstr \<times> stop_counter) list
     \<Rightarrow> stop_decision option" where
  "goalDecision st disp code message resources = createStopDecision
     \<lparr>sd_scope = ScopeGoal, sd_status = st, sd_disposition = disp, sd_code = js code,
      sd_message = message,
      sd_evidence = [\<lparr>se_kind = EvRuntime, se_source = js ''goal-lifecycle-v2'',
                      se_detail = message\<rparr>],
      sd_nextActions = [inspect_action ''Inspect the durable Goal state.'',
        \<lparr>sa_kind = ActResume, sa_label = js ''Resume after resolving the stop condition.'',
         sa_command = Some (js ''/goal resume'')\<rparr>],
      sd_resources = resources, sd_criterionStates = None, sd_evidenceRefs = None\<rparr>"

definition resource_snapshot :: "int \<Rightarrow> int \<Rightarrow> int \<Rightarrow> goal_budget \<Rightarrow> (jsstr \<times> stop_counter) list" where
  "resource_snapshot turns tokens elapsed b =
     [(js ''turns'', \<lparr>sc_used = turns, sc_limit = None\<rparr>),
      (js ''tokens'', \<lparr>sc_used = tokens, sc_limit = Some (gb_maxTokens b)\<rparr>),
      (js ''elapsedMs'', \<lparr>sc_used = elapsed, sc_limit = Some (gb_maxElapsedMs b)\<rparr>)]"

definition completionDecision ::
  "completion_decision \<Rightarrow> (jsstr \<times> stop_counter) list \<Rightarrow> stop_decision option" where
  "completionDecision c resources = createStopDecision
     \<lparr>sd_scope = ScopeGoal, sd_status = StopCompleted, sd_disposition = FinishScope,
      sd_code = js ''verified_completion'',
      sd_message = js ''TaskContext verified every criterion.'',
      sd_evidence = map (\<lambda>ref. \<lparr>se_kind = EvVerification, se_source = js ''task-context'',
                                 se_detail = ref\<rparr>) (cd_evidence c),
      sd_nextActions = [inspect_action ''Inspect the durable completion receipt.''],
      sd_resources = resources, sd_criterionStates = cd_criterionResults c,
      sd_evidenceRefs = Some (cd_evidence c)\<rparr>"

subsection \<open>finalizeTurn\<close>

definition MAX_NO_PROGRESS_TURNS :: int where "MAX_NO_PROGRESS_TURNS = 3"
definition MAX_BLOCKED_CONTINUATIONS :: int where "MAX_BLOCKED_CONTINUATIONS = 2"

text \<open>The status a turn leads to and what its decision would be; no decision keeps it active.\<close>

definition turn_verdict ::
  "goal_observation \<Rightarrow> goal_budget \<Rightarrow> int \<Rightarrow> int \<Rightarrow> int \<Rightarrow> int \<Rightarrow> (jsstr \<times> stop_counter) list
     \<Rightarrow> goal_status \<times> stop_decision option option" where
  "turn_verdict obs b tokens elapsed noProgress blocked res =
     (if truthy (go_persistenceFailure obs)
      then (GoalFailed, Some (goalDecision StopFailed PauseScope ''persistence_error''
              (the (go_persistenceFailure obs)) res))
      else if go_aborted obs \<or> map_option sd_status (go_requestDecision obs) = Some StopCancelled
      then (GoalPaused, Some (goalDecision StopCancelled PauseScope ''user_abort''
              (js ''Goal paused after an interrupt.'') res))
      else if (case go_requestDecision obs of None \<Rightarrow> False
               | Some d \<Rightarrow> sd_status d = StopFailed \<and> isProviderFailure d)
      then (GoalPaused, Some (goalDecision StopFailed PauseScope ''provider_failure''
              (sd_message (the (go_requestDecision obs))) res))
      else if tokens \<ge> gb_maxTokens b \<or> elapsed \<ge> gb_maxElapsedMs b
      then (GoalPaused, Some (goalDecision StopStopped PauseScope ''goal_budget''
              (js ''Goal budget reached. Raise the explicit budget before resuming.'') res))
      else (case go_taskContextCompletion obs of
          Some c \<Rightarrow>
            if cd_canComplete c then (GoalCompleted, Some (completionDecision c res))
            else if blocked \<ge> MAX_BLOCKED_CONTINUATIONS
            then (GoalPaused, Some (goalDecision StopBlocked PauseScope ''blocked''
                    (case go_blocked obs of None \<Rightarrow> js ''Goal remained blocked.'' | Some m \<Rightarrow> m) res))
            else if noProgress \<ge> MAX_NO_PROGRESS_TURNS
            then (GoalPaused, Some (goalDecision StopStopped PauseScope ''no_progress''
                    (js ''Goal made no observable progress for 3 turns.'') res))
            else (GoalActive, None)
        | None \<Rightarrow>
            if blocked \<ge> MAX_BLOCKED_CONTINUATIONS
            then (GoalPaused, Some (goalDecision StopBlocked PauseScope ''blocked''
                    (case go_blocked obs of None \<Rightarrow> js ''Goal remained blocked.'' | Some m \<Rightarrow> m) res))
            else if noProgress \<ge> MAX_NO_PROGRESS_TURNS
            then (GoalPaused, Some (goalDecision StopStopped PauseScope ''no_progress''
                    (js ''Goal made no observable progress for 3 turns.'') res))
            else (GoalActive, None)))"

record goal_resolution =
  gr_state :: goal_state
  gr_scheduleContinuation :: bool
  gr_decision :: "stop_decision option"

definition finalizeTurn ::
  "js_env \<Rightarrow> int \<Rightarrow> goal_observation \<Rightarrow> goal_state \<Rightarrow> (goal_error + goal_resolution) \<times> goal_state" where
  "finalizeTurn E now obs s =
     (if gl_status s \<noteq> GoalActive
      then (Inr \<lparr>gr_state = s, gr_scheduleContinuation = False,
                 gr_decision = gl_lastStopDecision s\<rparr>, s)
      else case validateObservation obs of
        None \<Rightarrow> (Inl ObservationInvalid, s)
      | Some (tokenDelta, elapsedDelta) \<Rightarrow>
          (let tokensUsed = gl_tokensUsed s + tokenDelta;
               elapsedMs = gl_elapsedMs s + elapsedDelta;
               continuationCount = gl_continuationCount s + 1;
               noProgressCount = (if go_madeProgress obs then 0 else gl_noProgressCount s + 1);
               blockedCount = (if truthy (go_blocked obs) then gl_blockedCount s + 1 else 0);
               (st, verdict) = turn_verdict obs (gl_budget s) tokensUsed elapsedMs noProgressCount
                 blockedCount (resource_snapshot continuationCount tokensUsed elapsedMs (gl_budget s)) in
           if verdict = Some None then (Inl StopResourcesInvalid, s)
           else
             (let decision = (case verdict of None \<Rightarrow> None | Some d \<Rightarrow> d);
                  s' = withDigest E (s\<lparr>gl_status := st, gl_continuationCount := continuationCount,
                    gl_noProgressCount := noProgressCount, gl_blockedCount := blockedCount,
                    gl_tokensUsed := tokensUsed, gl_elapsedMs := elapsedMs,
                    gl_lastStopDecision := decision,
                    gl_updatedAt := max (gl_updatedAt s + 1) now\<rparr>) in
              (Inr \<lparr>gr_state = s', gr_scheduleContinuation = (st = GoalActive),
                    gr_decision = decision\<rparr>, s'))))"

subsection \<open>Construction, pause and resume\<close>

definition new_goal ::
  "js_env \<Rightarrow> int \<Rightarrow> jsstr \<Rightarrow> jsstr \<Rightarrow> goal_budget \<Rightarrow> goal_error + goal_state" where
  "new_goal E now goalId objective b =
     (if \<not> validateBudget b then Inl BudgetInvalid
      else if js_trim objective = [] then Inl ObjectiveEmpty
      else
        (let s = withDigest E \<lparr>gl_goalId = goalId, gl_objective = js_trim objective,
             gl_status = GoalActive, gl_generation = 1, gl_continuationCount = 0,
             gl_noProgressCount = 0, gl_blockedCount = 0, gl_tokensUsed = 0, gl_elapsedMs = 0,
             gl_budget = b, gl_lastStopDecision = None, gl_createdAt = now, gl_updatedAt = now,
             gl_digest = []\<rparr> in
         case assertGoalLifecycleStateV2 E s of Some e \<Rightarrow> Inl e | None \<Rightarrow> Inr s))"

definition restored_goal :: "js_env \<Rightarrow> goal_state \<Rightarrow> goal_error + goal_state" where
  "restored_goal E s = (case assertGoalLifecycleStateV2 E s of Some e \<Rightarrow> Inl e | None \<Rightarrow> Inr s)"

definition transition ::
  "js_env \<Rightarrow> int \<Rightarrow> goal_status \<Rightarrow> string \<Rightarrow> jsstr \<Rightarrow> goal_state \<Rightarrow> (goal_error + goal_state) \<times> goal_state"
where
  "transition E now st code message s =
     (case goalDecision (if st = GoalFailed then StopFailed else StopStopped) PauseScope code message
             (resource_snapshot (gl_continuationCount s) (gl_tokensUsed s) (gl_elapsedMs s)
               (gl_budget s)) of
        None \<Rightarrow> (Inl StopResourcesInvalid, s)
      | Some d \<Rightarrow>
          (let s' = withDigest E (s\<lparr>gl_status := st, gl_lastStopDecision := Some d,
                 gl_updatedAt := max (gl_updatedAt s + 1) now\<rparr>) in (Inr s', s')))"

definition pause_goal ::
  "js_env \<Rightarrow> int \<Rightarrow> jsstr \<Rightarrow> goal_state \<Rightarrow> (goal_error + goal_state) \<times> goal_state" where
  "pause_goal E now message s =
     (if gl_status s \<noteq> GoalActive then (Inr s, s)
      else transition E now GoalPaused ''user_pause'' message s)"

definition resume_goal :: "js_env \<Rightarrow> int \<Rightarrow> goal_state \<Rightarrow> goal_state" where
  "resume_goal E now s =
     (if gl_status s \<noteq> GoalPaused then s
      else withDigest E (s\<lparr>gl_status := GoalActive, gl_generation := gl_generation s + 1,
             gl_noProgressCount := 0, gl_blockedCount := 0,
             gl_updatedAt := max (gl_updatedAt s + 1) now, gl_lastStopDecision := None\<rparr>))"

datatype goal_op = GoFinalize int goal_observation | GoPause int jsstr | GoResume int

fun goal_step :: "js_env \<Rightarrow> goal_op \<Rightarrow> goal_state \<Rightarrow> goal_state" where
  "goal_step E (GoFinalize now obs) s = snd (finalizeTurn E now obs s)"
| "goal_step E (GoPause now m) s = snd (pause_goal E now m s)"
| "goal_step E (GoResume now) s = resume_goal E now s"

end
