(* ===== verification/GoalProperties.thy ===== *)
theory GoalProperties
  imports GoalLifecycle
begin

section \<open>Properties of the goal lifecycle\<close>

text \<open>
  The invariant of a goal under its three operations, the bound on the turns a goal can take
  without an operator, and what an exhausted goal can still become.
\<close>

subsection \<open>The invariant\<close>

definition counters_ok :: "goal_state \<Rightarrow> bool" where
  "counters_ok s \<longleftrightarrow> list_all (\<lambda>n. 0 \<le> n) (goal_counters s) \<and> 1 \<le> gl_generation s"

definition sealed_goal :: "js_env \<Rightarrow> goal_state \<Rightarrow> bool" where
  "sealed_goal E s \<longleftrightarrow> gl_digest s = digestRuntimeValue E (goal_content s)"

text \<open>The recorded decision fits the status; an active goal has none and is below the limits of
  turns without progress and of blocked turns.\<close>

definition status_ok :: "goal_state \<Rightarrow> bool" where
  "status_ok s \<longleftrightarrow> (case gl_status s of
     GoalActive \<Rightarrow> gl_lastStopDecision s = None
       \<and> gl_noProgressCount s < MAX_NO_PROGRESS_TURNS \<and> gl_blockedCount s < MAX_BLOCKED_CONTINUATIONS
   | GoalPaused \<Rightarrow> (\<exists>d. gl_lastStopDecision s = Some d \<and> sd_disposition d = PauseScope
       \<and> sd_status d \<noteq> StopCompleted)
   | GoalCompleted \<Rightarrow> (\<exists>d. gl_lastStopDecision s = Some d \<and> sd_disposition d = FinishScope
       \<and> sd_status d = StopCompleted \<and> gl_tokensUsed s < gb_maxTokens (gl_budget s)
       \<and> gl_elapsedMs s < gb_maxElapsedMs (gl_budget s))
   | GoalFailed \<Rightarrow> (\<exists>d. gl_lastStopDecision s = Some d \<and> sd_status d = StopFailed))"

definition goal_ok :: "js_env \<Rightarrow> goal_state \<Rightarrow> bool" where
  "goal_ok E s \<longleftrightarrow> counters_ok s \<and> validateBudget (gl_budget s) \<and> status_ok s \<and> sealed_goal E s
     \<and> gl_createdAt s \<le> gl_updatedAt s"

lemma goal_content_digest [simp]: "goal_content (s\<lparr>gl_digest := d\<rparr>) = goal_content s"
  by (simp add: goal_content_def)

lemma withDigest_simps [simp]:
  "gl_status (withDigest E s) = gl_status s" "gl_budget (withDigest E s) = gl_budget s"
  "gl_tokensUsed (withDigest E s) = gl_tokensUsed s" "gl_elapsedMs (withDigest E s) = gl_elapsedMs s"
  "gl_updatedAt (withDigest E s) = gl_updatedAt s" "gl_createdAt (withDigest E s) = gl_createdAt s"
  "gl_noProgressCount (withDigest E s) = gl_noProgressCount s"
  "gl_blockedCount (withDigest E s) = gl_blockedCount s"
  "gl_generation (withDigest E s) = gl_generation s"
  "gl_continuationCount (withDigest E s) = gl_continuationCount s"
  "gl_lastStopDecision (withDigest E s) = gl_lastStopDecision s"
  "counters_ok (withDigest E s) = counters_ok s" "status_ok (withDigest E s) = status_ok s"
  by (simp_all add: withDigest_def counters_ok_def status_ok_def goal_counters_def
      split: goal_status.split)

lemma sealed_withDigest [simp]: "sealed_goal E (withDigest E s)"
  by (simp add: sealed_goal_def withDigest_def)

lemma resource_snapshot_ok:
  "0 \<le> n \<Longrightarrow> 0 \<le> t \<Longrightarrow> 0 \<le> e \<Longrightarrow> validateBudget b \<Longrightarrow>
   list_all (assertCounter \<circ> snd) (resource_snapshot n t e b)"
  by (simp add: resource_snapshot_def assertCounter_def validateBudget_def)

lemma createStopDecision_ok:
  "list_all (assertCounter \<circ> snd) (sd_resources d) \<Longrightarrow> createStopDecision d = Some d"
  by (simp add: createStopDecision_def)

lemma goalDecision_ok:
  assumes "list_all (assertCounter \<circ> snd) res"
  shows "\<exists>d. goalDecision st disp c m res = Some d \<and> sd_status d = st \<and> sd_disposition d = disp"
  unfolding goalDecision_def
  by (rule exI, rule conjI, rule createStopDecision_ok)
     (simp_all only: stop_decision.select_convs assms)

lemma completionDecision_ok:
  assumes "list_all (assertCounter \<circ> snd) res"
  shows "\<exists>d. completionDecision c res = Some d \<and> sd_status d = StopCompleted
    \<and> sd_disposition d = FinishScope"
  unfolding completionDecision_def
  by (rule exI, rule conjI, rule createStopDecision_ok)
     (simp_all only: stop_decision.select_convs assms)

text \<open>What a verdict can be: never a decision that fails to build, and one that fits the status.\<close>

definition verdict_ok ::
  "goal_budget \<Rightarrow> int \<Rightarrow> int \<Rightarrow> int \<Rightarrow> int \<Rightarrow> goal_status \<times> stop_decision option option \<Rightarrow> bool" where
  "verdict_ok b tokens elapsed noProgress blocked v \<longleftrightarrow> (case v of
     (GoalActive, d) \<Rightarrow> d = None \<and> tokens < gb_maxTokens b \<and> elapsed < gb_maxElapsedMs b
       \<and> noProgress < MAX_NO_PROGRESS_TURNS \<and> blocked < MAX_BLOCKED_CONTINUATIONS
   | (GoalCompleted, d) \<Rightarrow> tokens < gb_maxTokens b \<and> elapsed < gb_maxElapsedMs b
       \<and> (\<exists>x. d = Some (Some x) \<and> sd_status x = StopCompleted \<and> sd_disposition x = FinishScope)
   | (GoalPaused, d) \<Rightarrow> (\<exists>x. d = Some (Some x) \<and> sd_disposition x = PauseScope
       \<and> sd_status x \<noteq> StopCompleted)
   | (GoalFailed, d) \<Rightarrow> (\<exists>x. d = Some (Some x) \<and> sd_status x = StopFailed))"

lemma if_verdict:
  "(P \<Longrightarrow> verdict_ok b t e n k x) \<Longrightarrow> (\<not> P \<Longrightarrow> verdict_ok b t e n k y) \<Longrightarrow>
   verdict_ok b t e n k (if P then x else y)"
  by simp

lemma turn_verdict_ok:
  assumes "list_all (assertCounter \<circ> snd) res"
  shows "verdict_ok b tokens elapsed noProgress blocked
    (turn_verdict obs b tokens elapsed noProgress blocked res)"
proof -
  have pause: "\<exists>d. goalDecision st PauseScope c m res = Some d \<and> sd_status d = st
      \<and> sd_disposition d = PauseScope" for st c m
    by (rule goalDecision_ok [OF assms])
  have fin: "\<exists>d. completionDecision c res = Some d \<and> sd_status d = StopCompleted
      \<and> sd_disposition d = FinishScope" for c
    by (rule completionDecision_ok [OF assms])
  have p: "verdict_ok b tokens elapsed noProgress blocked
      (GoalPaused, Some (goalDecision st PauseScope c m res))" if "st \<noteq> StopCompleted" for st c m
    using pause [of st c m] that by (auto simp: verdict_ok_def)
  have f: "verdict_ok b tokens elapsed noProgress blocked
      (GoalFailed, Some (goalDecision StopFailed PauseScope c m res))" for c m
    using pause [of StopFailed c m] by (auto simp: verdict_ok_def)
  have c: "verdict_ok b tokens elapsed noProgress blocked
      (GoalCompleted, Some (completionDecision c res))"
    if "tokens < gb_maxTokens b" "elapsed < gb_maxElapsedMs b" for c
    using fin [of c] that by (auto simp: verdict_ok_def)
  have a: "verdict_ok b tokens elapsed noProgress blocked (GoalActive, None)"
    if "tokens < gb_maxTokens b" "elapsed < gb_maxElapsedMs b"
      "noProgress < MAX_NO_PROGRESS_TURNS" "blocked < MAX_BLOCKED_CONTINUATIONS"
    using that by (simp add: verdict_ok_def)
  show ?thesis
  proof (cases "go_taskContextCompletion obs")
    case None
    show ?thesis
      unfolding turn_verdict_def None option.case by (intro if_verdict f p a) simp_all
  next
    case (Some d)
    show ?thesis
      unfolding turn_verdict_def Some option.case by (intro if_verdict f p c a) simp_all
  qed
qed

lemma counter_of_nonneg: "counter_of n = Some k \<Longrightarrow> 0 \<le> k"
  by (auto simp: counter_of_def split: option.splits if_splits)

text \<open>A turn of an active goal, with the counters it leaves.\<close>

lemma finalizeTurn_cases:
  assumes ok: "goal_ok E s" and active: "gl_status s = GoalActive"
  obtains (invalid) "validateObservation obs = None" "finalizeTurn E now obs s = (Inl ObservationInvalid, s)"
  | (turn) t e st v s' where
      "validateObservation obs = Some (t, e)" "0 \<le> t" "0 \<le> e"
      "s' = withDigest E (s\<lparr>gl_status := st, gl_continuationCount := gl_continuationCount s + 1,
         gl_noProgressCount := (if go_madeProgress obs then 0 else gl_noProgressCount s + 1),
         gl_blockedCount := (if truthy (go_blocked obs) then gl_blockedCount s + 1 else 0),
         gl_tokensUsed := gl_tokensUsed s + t, gl_elapsedMs := gl_elapsedMs s + e,
         gl_lastStopDecision := (case v of None \<Rightarrow> None | Some d \<Rightarrow> d),
         gl_updatedAt := max (gl_updatedAt s + 1) now\<rparr>)"
      "finalizeTurn E now obs s = (Inr \<lparr>gr_state = s', gr_scheduleContinuation = (st = GoalActive),
         gr_decision = (case v of None \<Rightarrow> None | Some d \<Rightarrow> d)\<rparr>, s')"
      "verdict_ok (gl_budget s) (gl_tokensUsed s + t) (gl_elapsedMs s + e)
         (if go_madeProgress obs then 0 else gl_noProgressCount s + 1)
         (if truthy (go_blocked obs) then gl_blockedCount s + 1 else 0) (st, v)"
proof (cases "validateObservation obs")
  case None
  then show ?thesis using that(1) active by (simp add: finalizeTurn_def)
next
  case (Some te)
  obtain t e where te: "te = (t, e)" by fastforce
  have nonneg: "0 \<le> t" "0 \<le> e"
    using Some te by (auto simp: validateObservation_def counter_of_nonneg split: option.splits)
  define np where "np = (if go_madeProgress obs then 0 else gl_noProgressCount s + 1)"
  define bl where "bl = (if truthy (go_blocked obs) then gl_blockedCount s + 1 else 0)"
  define res where "res = resource_snapshot (gl_continuationCount s + 1) (gl_tokensUsed s + t)
    (gl_elapsedMs s + e) (gl_budget s)"
  have "list_all (assertCounter \<circ> snd) res"
    unfolding res_def using ok nonneg
    by (intro resource_snapshot_ok) (auto simp: goal_ok_def counters_ok_def goal_counters_def)
  then have v: "verdict_ok (gl_budget s) (gl_tokensUsed s + t) (gl_elapsedMs s + e) np bl
      (turn_verdict obs (gl_budget s) (gl_tokensUsed s + t) (gl_elapsedMs s + e) np bl res)"
    by (rule turn_verdict_ok)
  obtain st w where tv: "turn_verdict obs (gl_budget s) (gl_tokensUsed s + t) (gl_elapsedMs s + e)
      np bl res = (st, w)" by fastforce
  then have "w \<noteq> Some None"
    using v by (auto simp: verdict_ok_def split: goal_status.splits)
  then show ?thesis
    using that(2) [OF _ nonneg refl, where st = st and v = w] Some te active tv v
    by (simp add: finalizeTurn_def np_def [symmetric] bl_def [symmetric] res_def [symmetric] Let_def)
qed

lemma finalizeTurn_ok:
  assumes "goal_ok E s"
  shows "goal_ok E (snd (finalizeTurn E now obs s))"
proof (cases "gl_status s = GoalActive")
  case False
  then show ?thesis using assms by (simp add: finalizeTurn_def)
next
  case True
  show ?thesis
    using assms True
  proof (cases rule: finalizeTurn_cases [of E s obs now])
    case invalid
    then show ?thesis using assms by simp
  next
    case (turn t e st v s')
    have "status_ok s'"
      using turn(6) by (cases st) (auto simp: turn(4) status_ok_def verdict_ok_def)
    then show ?thesis
      using assms turn(2,3) by (simp add: turn(4,5) goal_ok_def counters_ok_def goal_counters_def
          le_max_iff_disj)
  qed
qed

lemma transition_paused_ok:
  assumes "goal_ok E s"
  shows "goal_ok E (snd (transition E now GoalPaused c m s))"
proof -
  have "list_all (assertCounter \<circ> snd) (resource_snapshot (gl_continuationCount s) (gl_tokensUsed s)
      (gl_elapsedMs s) (gl_budget s))"
    using assms by (intro resource_snapshot_ok) (auto simp: goal_ok_def counters_ok_def goal_counters_def)
  then obtain d where "goalDecision StopStopped PauseScope c m (resource_snapshot (gl_continuationCount s)
      (gl_tokensUsed s) (gl_elapsedMs s) (gl_budget s)) = Some d" "sd_status d = StopStopped"
      "sd_disposition d = PauseScope"
    using goalDecision_ok by blast
  then show ?thesis
    using assms
    by (auto simp: transition_def Let_def goal_ok_def counters_ok_def goal_counters_def status_ok_def
        le_max_iff_disj)
qed

lemma goal_step_ok: "goal_ok E s \<Longrightarrow> goal_ok E (goal_step E a s)"
proof (cases a)
  case (GoPause now m)
  then show "goal_ok E s \<Longrightarrow> ?thesis" by (simp add: pause_goal_def transition_paused_ok)
next
  case (GoResume now)
  then show "goal_ok E s \<Longrightarrow> ?thesis"
    by (simp add: resume_goal_def goal_ok_def counters_ok_def goal_counters_def status_ok_def
        MAX_NO_PROGRESS_TURNS_def MAX_BLOCKED_CONTINUATIONS_def le_max_iff_disj)
qed (simp add: finalizeTurn_ok)

lemma goal_steps_ok: "goal_ok E s \<Longrightarrow> goal_ok E (fold (goal_step E) ops s)"
  by (induction ops arbitrary: s) (simp_all add: goal_step_ok)

lemma new_goal_ok: "new_goal E now i obj b = Inr s \<Longrightarrow>
    goal_ok E s \<and> gl_status s = GoalActive \<and> gl_tokensUsed s = 0 \<and> gl_elapsedMs s = 0
    \<and> gl_noProgressCount s = 0 \<and> gl_budget s = b"
  by (auto simp: new_goal_def Let_def goal_ok_def counters_ok_def goal_counters_def status_ok_def
      MAX_NO_PROGRESS_TURNS_def MAX_BLOCKED_CONTINUATIONS_def split: if_splits option.splits)

subsection \<open>Spending and the budget\<close>

lemma step_keeps_budget:
  assumes "goal_ok E s"
  shows "gl_budget (goal_step E a s) = gl_budget s \<and> gl_tokensUsed s \<le> gl_tokensUsed (goal_step E a s)
    \<and> gl_elapsedMs s \<le> gl_elapsedMs (goal_step E a s)"
proof (cases a)
  case (GoFinalize now obs)
  show ?thesis
  proof (cases "gl_status s = GoalActive")
    case True
    show ?thesis
      using assms True
      by (cases rule: finalizeTurn_cases [of E s obs now]) (simp_all add: GoFinalize)
  qed (simp add: GoFinalize finalizeTurn_def)
qed (simp_all add: pause_goal_def transition_def resume_goal_def Let_def split: option.split)

definition exhausted :: "goal_state \<Rightarrow> bool" where
  "exhausted s \<longleftrightarrow> gb_maxTokens (gl_budget s) \<le> gl_tokensUsed s
     \<or> gb_maxElapsedMs (gl_budget s) \<le> gl_elapsedMs s"

lemma exhausted_steps:
  "goal_ok E s \<Longrightarrow> exhausted s \<Longrightarrow> exhausted (fold (goal_step E) ops s)"
proof (induction ops arbitrary: s)
  case (Cons a ops)
  have "exhausted (goal_step E a s)"
    using Cons.prems step_keeps_budget [OF Cons.prems(1), of a] by (auto simp: exhausted_def)
  then show ?case
    using Cons.IH goal_step_ok [OF Cons.prems(1)] by simp
qed simp

lemma exhausted_not_completed: "goal_ok E s \<Longrightarrow> exhausted s \<Longrightarrow> gl_status s \<noteq> GoalCompleted"
  by (auto simp: goal_ok_def status_ok_def exhausted_def)

text \<open>An observation of a turn that took a token or a millisecond, and one without progress.\<close>

definition spends :: "goal_observation \<Rightarrow> bool" where
  "spends obs \<longleftrightarrow> (case validateObservation obs of None \<Rightarrow> False | Some (t, e) \<Rightarrow> 1 \<le> t + e)"

definition idle :: "goal_observation \<Rightarrow> bool" where
  "idle obs \<longleftrightarrow> validateObservation obs \<noteq> None \<and> \<not> go_madeProgress obs"

definition turns :: "js_env \<Rightarrow> (int \<times> goal_observation) list \<Rightarrow> goal_state \<Rightarrow> goal_state" where
  "turns E obss s = fold (goal_step E) (map (\<lambda>(now, obs). GoFinalize now obs) obss) s"

lemma turns_Nil [simp]: "turns E [] s = s"
  by (simp add: turns_def)

lemma turns_Cons [simp]:
  "turns E ((now, obs) # obss) s = turns E obss (snd (finalizeTurn E now obs s))"
  by (simp add: turns_def)

lemma turns_stopped: "gl_status s \<noteq> GoalActive \<Longrightarrow> turns E obss s = s"
proof (induction obss)
  case (Cons p obss)
  then show ?case by (cases p) (simp add: finalizeTurn_def)
qed simp

lemma active_before:
  assumes "gl_status (turns E ((now, obs) # obss) s) = GoalActive"
  shows "gl_status s = GoalActive \<and> gl_status (snd (finalizeTurn E now obs s)) = GoalActive"
  using assms turns_stopped [of s E "(now, obs) # obss"]
    turns_stopped [of "snd (finalizeTurn E now obs s)" E obss]
  by (metis turns_Cons)

text \<open>A measure of what an active goal may still spend, and of its idle turns left.\<close>

lemma turn_spends:
  assumes "goal_ok E s" "gl_status s = GoalActive" "spends obs"
    and "gl_status (snd (finalizeTurn E now obs s)) = GoalActive"
  shows "gl_tokensUsed s + gl_elapsedMs s + 1 \<le> gl_tokensUsed (snd (finalizeTurn E now obs s))
      + gl_elapsedMs (snd (finalizeTurn E now obs s))
    \<and> gl_tokensUsed (snd (finalizeTurn E now obs s)) < gb_maxTokens (gl_budget s)
    \<and> gl_elapsedMs (snd (finalizeTurn E now obs s)) < gb_maxElapsedMs (gl_budget s)
    \<and> gl_budget (snd (finalizeTurn E now obs s)) = gl_budget s"
  using assms(1,2)
proof (cases rule: finalizeTurn_cases [of E s obs now])
  case invalid
  then show ?thesis using assms(3) by (simp add: spends_def)
next
  case (turn t e st v s')
  then show ?thesis using assms(3,4) by (simp add: spends_def verdict_ok_def)
qed

lemma spending_turns:
  assumes "goal_ok E s" "list_all (spends \<circ> snd) obss" "gl_status (turns E obss s) = GoalActive"
    and "obss \<noteq> []"
  shows "gl_tokensUsed s + gl_elapsedMs s + int (length obss)
    \<le> gb_maxTokens (gl_budget s) + gb_maxElapsedMs (gl_budget s) - 2"
  using assms
proof (induction obss arbitrary: s)
  case (Cons p obss)
  obtain now obs where p: "p = (now, obs)" by fastforce
  let ?s = "snd (finalizeTurn E now obs s)"
  have active: "gl_status s = GoalActive" "gl_status ?s = GoalActive"
    using Cons.prems(3) active_before p by blast+
  note step = turn_spends [OF Cons.prems(1) active(1) _ active(2)]
  show ?case
  proof (cases "obss = []")
    case True
    then show ?thesis using step Cons.prems(2) p by simp
  next
    case False
    then show ?thesis
      using step Cons.IH [of ?s] finalizeTurn_ok [OF Cons.prems(1)] Cons.prems p by simp
  qed
qed simp

lemma idle_turns:
  assumes "goal_ok E s" "list_all (idle \<circ> snd) obss" "gl_status (turns E obss s) = GoalActive"
    and "gl_noProgressCount s < MAX_NO_PROGRESS_TURNS"
  shows "gl_noProgressCount s + int (length obss) < MAX_NO_PROGRESS_TURNS"
  using assms
proof (induction obss arbitrary: s)
  case (Cons p obss)
  obtain now obs where p: "p = (now, obs)" by fastforce
  let ?s = "snd (finalizeTurn E now obs s)"
  have active: "gl_status s = GoalActive" "gl_status ?s = GoalActive"
    using Cons.prems(3) active_before p by blast+
  have "gl_noProgressCount ?s = gl_noProgressCount s + 1"
    using Cons.prems(1) active(1)
  proof (cases rule: finalizeTurn_cases [of E s obs now])
    case invalid
    then show ?thesis using Cons.prems(2) p by (simp add: idle_def)
  next
    case (turn t e st v s')
    then show ?thesis using Cons.prems(2) p by (simp add: idle_def)
  qed
  moreover have "gl_noProgressCount ?s < MAX_NO_PROGRESS_TURNS"
    using finalizeTurn_ok [OF Cons.prems(1), of now obs] active(2) by (simp add: goal_ok_def status_ok_def)
  ultimately show ?case
    using Cons.IH [of ?s] finalizeTurn_ok [OF Cons.prems(1), of now obs] Cons.prems p by simp
qed simp

lemma terminal_step:
  "gl_status s \<in> {GoalCompleted, GoalFailed} \<Longrightarrow> goal_step E a s = s"
  by (cases a) (auto simp: finalizeTurn_def pause_goal_def resume_goal_def)

lemma terminal_steps:
  "gl_status s \<in> {GoalCompleted, GoalFailed} \<Longrightarrow> fold (goal_step E) ops s = s"
  by (induction ops) (simp_all add: terminal_step)

subsection \<open>A concrete goal\<close>

definition goal_env :: js_env where
  "goal_env = \<lparr>json_stringify = (\<lambda>v. js ''{}''), json_parse = (\<lambda>s. None), string_of = (\<lambda>v. []),
     sha256_hex = (\<lambda>s. s), locale_le = (\<lambda>a b. True)\<rparr>"

definition small_budget :: goal_budget where
  "small_budget = \<lparr>gb_maxTokens = 3, gb_maxElapsedMs = 9\<rparr>"

definition small_goal :: goal_state where
  "small_goal = (case new_goal goal_env 1 (js ''00000000-0000-4000-8000-000000000001'') (js ''go'') small_budget
     of Inr s \<Rightarrow> s)"

lemma small_goal:
  "new_goal goal_env 1 (js ''00000000-0000-4000-8000-000000000001'') (js ''go'') small_budget = Inr small_goal"
  by code_simp

definition observed :: "bool \<Rightarrow> int \<Rightarrow> goal_observation" where
  "observed progress tokens = \<lparr>go_requestDecision = None,
     go_taskContextCompletion = Some \<lparr>cd_canComplete = True, cd_evidence = [], cd_criterionResults = None\<rparr>,
     go_madeProgress = progress, go_blocked = None, go_tokenDelta = Fin (of_int tokens),
     go_elapsedMs = Fin 0, go_persistenceFailure = None, go_aborted = False\<rparr>"

lemma observed_valid: "validateObservation (observed False 4) = Some (4, 0)"
  by code_simp

subsection \<open>Properties\<close>

text \<open>C21: A goal keeps its invariant through every sequence of turns, pauses and resumes: the
  counters are non-negative, the state's digest is that of its content, the recorded stop decision
  fits the status, an active goal is below the limits of idle and blocked turns, and a completed
  one was below its budget.\<close>

theorem goal_invariant:
  assumes "new_goal E now i obj b = Inr s"
  shows "goal_ok E (fold (goal_step E) ops s)"
  using goal_steps_ok new_goal_ok [OF assms] by blast

theorem goal_invariant_witness:
  "goal_ok goal_env (fold (goal_step goal_env) [GoPause 2 (js ''p''), GoResume 3] small_goal)"
  using goal_invariant [OF small_goal] .

text \<open>C22: A goal cannot continue by itself for ever: after as many valid turns as it has tokens and
  milliseconds, each spending at least one of them, or after three turns without progress in a row
  from its start, it is no longer active.\<close>

theorem goal_turns_bounded:
  assumes "new_goal E now i obj b = Inr s"
    and "list_all (spends \<circ> snd) obss \<and> gb_maxTokens b + gb_maxElapsedMs b - 1 \<le> int (length obss)
      \<or> list_all (idle \<circ> snd) obss \<and> 3 \<le> length obss"
  shows "gl_status (turns E obss s) \<noteq> GoalActive"
proof
  assume active: "gl_status (turns E obss s) = GoalActive"
  note new = new_goal_ok [OF assms(1)]
  have "1 \<le> gb_maxTokens b" "1 \<le> gb_maxElapsedMs b"
    using assms(1) by (auto simp: new_goal_def validateBudget_def split: if_splits)
  then have nonempty: "obss \<noteq> []" using assms(2) by auto
  show False
    using assms(2)
  proof
    assume "list_all (spends \<circ> snd) obss \<and> gb_maxTokens b + gb_maxElapsedMs b - 1 \<le> int (length obss)"
    then show False using spending_turns [of E s obss] active nonempty new by simp
  next
    assume "list_all (idle \<circ> snd) obss \<and> 3 \<le> length obss"
    then show False
      using idle_turns [of E s obss] active new by (simp add: MAX_NO_PROGRESS_TURNS_def)
  qed
qed

theorem goal_turns_bounded_witness:
  "gl_status (turns goal_env (replicate 11 (5, observed False 4)) small_goal) \<noteq> GoalActive"
  by (rule goal_turns_bounded [OF small_goal]) (simp add: small_budget_def spends_def observed_valid list_all_iff)

text \<open>C23: Once a goal has used up its budget nothing completes it any more: not even a turn that
  verifies every criterion, however often it is resumed. The message of its stop asks the operator
  to raise the budget, for which there is no operation.\<close>

theorem exhausted_goal_never_completes:
  assumes "goal_ok E s" and "exhausted s"
  shows "gl_status (fold (goal_step E) ops s) \<noteq> GoalCompleted"
  using exhausted_not_completed goal_steps_ok exhausted_steps assms by blast

lemma spent_goal: "exhausted (turns goal_env [(5, observed False 4)] small_goal)"
  by code_simp

theorem exhausted_goal_never_completes_witness:
  "gl_status (fold (goal_step goal_env) [GoResume 6, GoFinalize 7 (observed True 0)]
     (turns goal_env [(5, observed False 4)] small_goal)) \<noteq> GoalCompleted"
proof (rule exhausted_goal_never_completes [OF _ spent_goal])
  show "goal_ok goal_env (turns goal_env [(5, observed False 4)] small_goal)"
    unfolding turns_def using goal_steps_ok new_goal_ok [OF small_goal] by blast
qed

end
