(* ===== verification/ThreadRuntime.thy ===== *)
theory ThreadRuntime
  imports ThreadAdmission StoreRecovery
begin

section \<open>The runtime of a Thread\<close>

text \<open>
  Models \<open>ThreadRuntimeV1\<close> of \<open>src/src/runtime/thread-runtime.ts\<close>: it joins the admission
  controller and the durable event store. A run of a turn is asynchronous; it is modelled by the
  points at which the runtime acts, \<open>run_ends\<close> (the runner's promise settles and
  \<open>finalizeTurn\<close> runs) and \<open>settle_run\<close> (the \<open>finally\<close> after \<open>onTurnSettled\<close>); what the
  runner and the services behind it append in between are \<open>runner_append\<close> steps. Readings of
  the admission's clock, results of the id factory and the store's ids and times are in the
  environment of a step, in the order of the calls; an append can fail for the file system
  before it writes. Consumers of events and the waiters for idle are not part of the state.
\<close>

subsection \<open>Data\<close>

datatype turn_outcome =
    OutCompleted "jsstr option" "jsstr option"
  | OutFailed jsstr
  | OutInterrupted "jsstr option"

text \<open>\<open>OutCompleted outcome source\<close>: the second argument is the source of a compact maintenance
  request, if there is one. A run ends with an outcome or throws.\<close>

datatype run_result = RunReturned turn_outcome | RunThrew jsstr

datatype turn_runner = GoalControlRunner | CompactRunner | TurnRunner

datatype runtime_error =
    StoreIo
  | StoreRejected append_error
  | AdmissionThrew admission_error
  | SecondActiveRun
  | ActiveTurnMissing jsstr
  | QueuedTurnGone jsstr
  | NoDurableCommit jsstr
  | OutcomeConflict jsstr
  | AdmissionLost jsstr
  | ContinuationNotStarted
  | MaintenanceRunnerMissing
  | NotATurnCommand

record runtime_config =
  cf_js :: js_env
  cf_digest :: "projection \<Rightarrow> jsstr"
  cf_limits :: admission_limits
  cf_requireTurnCommit :: bool
  cf_maintenanceRunner :: bool
  cf_projectPath :: "jsstr option"
  cf_recoverIncomplete :: bool

record runtime_env =
  re_now :: "nat \<Rightarrow> int"
  re_id :: "nat \<Rightarrow> jsstr"
  re_eventId :: "nat \<Rightarrow> int \<Rightarrow> jsstr"
  re_eventTime :: "nat \<Rightarrow> int \<Rightarrow> int"
  re_ioFails :: "nat \<Rightarrow> bool"

text \<open>\<open>rt_run\<close> is \<open>activeRun\<close>: the turn that runs and whether it was finalized already.\<close>

record thread_runtime =
  rt_store :: thread_store
  rt_admission :: admission
  rt_run :: "(active_turn_record \<times> bool) option"
  rt_abort :: "jsstr option"
  rt_compact :: "jsstr list"
  rt_goalControls :: "jsstr list"
  rt_queuedControls :: "jsstr list"
  rt_deferred :: "turn_request option"
  rt_closed :: bool
  rt_runs :: "(jsstr \<times> turn_runner) list"
  rt_rejections :: "(jsstr \<times> admission_reason) list"

type_synonym 'a runtime_result = "(runtime_error + 'a) \<times> thread_runtime"

definition durable :: "thread_runtime \<Rightarrow> projection" where
  "durable rt = fst (ts_head (rt_store rt))"

subsection \<open>The store and the admission behind the runtime\<close>

definition commitAndPublish ::
  "runtime_config \<Rightarrow> runtime_env \<Rightarrow> nat \<Rightarrow> append_input list \<Rightarrow> thread_runtime \<Rightarrow> unit runtime_result"
where
  "commitAndPublish C w k inputs rt =
     (if re_ioFails w k then (Inl StoreIo, rt)
      else case appendDurableBatch (cf_js C) (cf_digest C) (re_eventId w k) (re_eventTime w k)
                  (rt_store rt) inputs of
        (Inl e, s) \<Rightarrow> (Inl (StoreRejected e), rt\<lparr>rt_store := s\<rparr>)
      | (Inr _, s) \<Rightarrow> (Inr (), rt\<lparr>rt_store := s\<rparr>))"

definition recover_store ::
  "runtime_config \<Rightarrow> runtime_env \<Rightarrow> nat \<Rightarrow> jsstr \<Rightarrow> thread_runtime \<Rightarrow> unit runtime_result" where
  "recover_store C w k reason rt =
     (if re_ioFails w k then (Inl StoreIo, rt)
      else case recoverIncomplete (cf_js C) (cf_digest C) (re_eventId w k) (re_eventTime w k) reason
                  (rt_store rt) of
        (Inl e, s) \<Rightarrow> (Inl (StoreRejected e), rt\<lparr>rt_store := s\<rparr>)
      | (Inr _, s) \<Rightarrow> (Inr (), rt\<lparr>rt_store := s\<rparr>))"

definition thread_input :: "runtime_event \<Rightarrow> append_input" where
  "thread_input p = \<lparr>ai_turnId = None, ai_stepId = None, ai_itemId = None, ai_timestamp = None,
     ai_payload = p\<rparr>"

definition turn_input :: "jsstr \<Rightarrow> runtime_event \<Rightarrow> append_input" where
  "turn_input t p = (thread_input p)\<lparr>ai_turnId := Some t\<rparr>"

definition item_input :: "jsstr \<Rightarrow> jsstr \<Rightarrow> jsstr \<Rightarrow> runtime_event \<Rightarrow> append_input" where
  "item_input t stepId itemId p = (turn_input t p)\<lparr>ai_stepId := Some stepId, ai_itemId := Some itemId\<rparr>"

text \<open>The message item a user's input becomes.\<close>

definition user_message :: "jsstr \<Rightarrow> jsstr \<Rightarrow> jsstr \<Rightarrow> jsstr \<Rightarrow> append_input list" where
  "user_message t stepId itemId content =
     [item_input t stepId itemId (ItemStarted \<lparr>is_kind = IkMessage, is_parentItemId = None,
        is_role = Some RoleUser, is_name = None, is_inputDigest = None, is_intent = None\<rparr>),
      item_input t stepId itemId (ItemCompleted (Some content) None None None)]"

text \<open>\<open>getSnapshot\<close> drops expired entries of the controller itself.\<close>

definition look :: "int \<Rightarrow> thread_runtime \<Rightarrow> admission \<times> thread_runtime" where
  "look now rt =
     (let (snap, ad) = getSnapshot now (rt_admission rt) in (snap, rt\<lparr>rt_admission := ad\<rparr>))"

definition rollback ::
  "runtime_config \<Rightarrow> admission \<Rightarrow> runtime_error \<Rightarrow> thread_runtime \<Rightarrow> 'a runtime_result" where
  "rollback C before e rt =
     (case restore (cf_limits C) before (rt_admission rt) of
        (Inl x, ad) \<Rightarrow> (Inl (AdmissionThrew x), rt\<lparr>rt_admission := ad\<rparr>)
      | (Inr _, ad) \<Rightarrow> (Inl e, rt\<lparr>rt_admission := ad\<rparr>))"

subsection \<open>Starting a turn\<close>

definition requiredActiveTurn ::
  "int \<Rightarrow> jsstr \<Rightarrow> thread_runtime \<Rightarrow> active_turn_record runtime_result" where
  "requiredActiveTurn now turnId rt =
     (let (snap, rt') = look now rt in
      case ad_active snap of
        None \<Rightarrow> (Inl (ActiveTurnMissing turnId), rt')
      | Some a \<Rightarrow> if at_turnId a \<noteq> turnId then (Inl (ActiveTurnMissing turnId), rt') else (Inr a, rt'))"

definition turn_start_inputs ::
  "jsstr \<Rightarrow> jsstr \<Rightarrow> active_turn_record \<Rightarrow> jsstr option \<Rightarrow> append_input list" where
  "turn_start_inputs stepId itemId a queueId =
     turn_input (at_turnId a) (TurnStarted (at_input a) (at_mode a)
       (if truthy queueId then queueId else None))
     # (if at_kind a \<noteq> KindMaintenance then user_message (at_turnId a) stepId itemId (at_input a)
        else [])"

definition persistTurnStart ::
  "runtime_config \<Rightarrow> runtime_env \<Rightarrow> nat \<Rightarrow> nat \<Rightarrow> active_turn_record \<Rightarrow> jsstr option
     \<Rightarrow> thread_runtime \<Rightarrow> unit runtime_result" where
  "persistTurnStart C w k i a queueId rt =
     commitAndPublish C w k (turn_start_inputs (re_id w i) (re_id w (i + 1)) a queueId) rt"

text \<open>Which runner gets the turn is decided from the request tables when it is scheduled.\<close>

definition scheduleTurn :: "active_turn_record \<Rightarrow> thread_runtime \<Rightarrow> unit runtime_result" where
  "scheduleTurn a rt =
     (if rt_run rt \<noteq> None then (Inl SecondActiveRun, rt)
      else (Inr (), rt\<lparr>rt_run := Some (a, False), rt_abort := None,
              rt_runs := rt_runs rt @ [(at_turnId a,
                if at_turnId a \<in> set (rt_goalControls rt) then GoalControlRunner
                else if at_turnId a \<in> set (rt_compact rt) then CompactRunner else TurnRunner)]\<rparr>))"

text \<open>\<open>requiredActiveTurn\<close>, \<open>persistTurnStart\<close> and \<open>scheduleTurn\<close> of a turn just admitted or
  promoted.\<close>

definition start_run ::
  "runtime_config \<Rightarrow> runtime_env \<Rightarrow> int \<Rightarrow> nat \<Rightarrow> jsstr option \<Rightarrow> jsstr \<Rightarrow> thread_runtime
     \<Rightarrow> unit runtime_result" where
  "start_run C w now k queueId turnId rt =
     (case requiredActiveTurn now turnId rt of
        (Inl e, rt1) \<Rightarrow> (Inl e, rt1)
      | (Inr a, rt1) \<Rightarrow>
          (case persistTurnStart C w k 1 a queueId rt1 of
             (Inl e, rt2) \<Rightarrow> (Inl e, rt2)
           | (Inr _, rt2) \<Rightarrow> scheduleTurn a rt2))"

definition begin_run ::
  "runtime_config \<Rightarrow> runtime_env \<Rightarrow> jsstr \<Rightarrow> thread_runtime \<Rightarrow> unit runtime_result" where
  "begin_run C w turnId rt = start_run C w (re_now w 2) 0 None turnId rt"

definition persistQueuedTurn ::
  "runtime_config \<Rightarrow> runtime_env \<Rightarrow> jsstr \<Rightarrow> thread_runtime \<Rightarrow> unit runtime_result" where
  "persistQueuedTurn C w queueId rt =
     (let (snap, rt') = look (re_now w 2) rt in
      case find (\<lambda>q. qe_queueId q = queueId) (ad_queue snap) of
        None \<Rightarrow> (Inl (QueuedTurnGone queueId), rt')
      | Some q \<Rightarrow> commitAndPublish C w 0 [thread_input (TurnQueued
          \<lparr>qd_queueId = qe_queueId q, qd_input = qe_input q, qd_mode = qe_mode q,
           qd_kind = qe_kind q, qd_source = qe_source q, qd_enqueuedAt = qe_enqueuedAt q,
           qd_deadline = qe_deadline q\<rparr>)] rt')"

subsection \<open>Commands\<close>

text \<open>What follows an admitted command, before the result is returned.\<close>

definition after_turn_admission ::
  "runtime_config \<Rightarrow> runtime_env \<Rightarrow> jsstr \<Rightarrow> turn_admission \<Rightarrow> thread_runtime \<Rightarrow> unit runtime_result"
where
  "after_turn_admission C w input r rt = (case r of
     AdStarted turnId \<Rightarrow> begin_run C w turnId rt
   | AdQueued queueId position deadline \<Rightarrow> persistQueuedTurn C w queueId rt
   | AdSteered t itemId \<Rightarrow> commitAndPublish C w 0
       (turn_input t (TurnSteered itemId input) # user_message t (re_id w 1) itemId input) rt
   | AdRejected reason \<Rightarrow> (Inr (), rt))"

definition abort_run :: "jsstr \<Rightarrow> thread_runtime \<Rightarrow> thread_runtime" where
  "abort_run reason rt =
     (if rt_run rt = None then rt
      else rt\<lparr>rt_abort := (case rt_abort rt of None \<Rightarrow> Some reason | Some r \<Rightarrow> Some r)\<rparr>)"

definition after_interrupt ::
  "runtime_config \<Rightarrow> runtime_env \<Rightarrow> jsstr option \<Rightarrow> interrupt_admission \<Rightarrow> thread_runtime
     \<Rightarrow> unit runtime_result" where
  "after_interrupt C w reason r rt = (case r of
     InterruptRequested t intentId alreadyRequested \<Rightarrow>
       if alreadyRequested then (Inr (), rt)
       else (case commitAndPublish C w 0 [turn_input t (TurnInterruptRequested intentId
                    (if truthy reason then reason else None))] rt of
               (Inl e, rt') \<Rightarrow> (Inl e, rt')
             | (Inr _, rt') \<Rightarrow> (Inr (), abort_run
                 (case reason of None \<Rightarrow> js ''thread interrupted'' | Some x \<Rightarrow> x) rt'))
   | InterruptRejected reason' \<Rightarrow> (Inr (), rt))"

definition command_input :: "runtime_command \<Rightarrow> jsstr" where
  "command_input c = (case c of CmdTurnSteer input \<Rightarrow> input | _ \<Rightarrow> [])"

definition command_reason :: "runtime_command \<Rightarrow> jsstr option" where
  "command_reason c = (case c of CmdTurnInterrupt reason \<Rightarrow> reason | _ \<Rightarrow> None)"

definition dispatch ::
  "runtime_config \<Rightarrow> runtime_env \<Rightarrow> runtime_command \<Rightarrow> thread_runtime
     \<Rightarrow> command_admission runtime_result" where
  "dispatch C w c rt0 =
     (if rt_closed rt0 then (Inr (TurnAdmission (AdRejected ShutDown)), rt0)
      else let (before, rt) = look (re_now w 0) rt0 in
        case admit (cf_limits C) c (re_now w 1) (re_id w 0) (rt_admission rt) of
          None \<Rightarrow> (Inl NotATurnCommand, rt)
        | Some (Inl e, ad) \<Rightarrow> (Inl (AdmissionThrew e), rt\<lparr>rt_admission := ad\<rparr>)
        | Some (Inr r, ad) \<Rightarrow>
            (case (case r of
                TurnAdmission a \<Rightarrow>
                  after_turn_admission C w (command_input c) a (rt\<lparr>rt_admission := ad\<rparr>)
              | IntAdmission a \<Rightarrow>
                  after_interrupt C w (command_reason c) a (rt\<lparr>rt_admission := ad\<rparr>)) of
               (Inl e, rt') \<Rightarrow> rollback C before e rt'
             | (Inr _, rt') \<Rightarrow> (Inr r, rt')))"

text \<open>The internal entries: maintenance, goal continuation, goal control and compaction.\<close>

definition start_internal ::
  "runtime_config \<Rightarrow> runtime_env \<Rightarrow> turn_request \<Rightarrow> thread_runtime \<Rightarrow> turn_admission runtime_result"
where
  "start_internal C w r rt0 =
     (if rt_closed rt0 then (Inr (AdRejected ShutDown), rt0)
      else let (before, rt) = look (re_now w 0) rt0 in
        case start_turn (cf_limits C) r (re_now w 1) (re_id w 0) (rt_admission rt) of
          (Inl e, ad) \<Rightarrow> (Inl (AdmissionThrew e), rt\<lparr>rt_admission := ad\<rparr>)
        | (Inr a, ad) \<Rightarrow>
            (case after_turn_admission C w [] a (rt\<lparr>rt_admission := ad\<rparr>) of
               (Inl e, rt') \<Rightarrow> rollback C before e rt'
             | (Inr _, rt') \<Rightarrow> (Inr a, rt')))"

definition maintenance_request :: "jsstr \<Rightarrow> turn_request" where
  "maintenance_request input = \<lparr>req_input = input, req_mode = ModeMaintenance,
     req_kind = Some KindMaintenance, req_deadline = None\<rparr>"

definition startMaintenance ::
  "runtime_config \<Rightarrow> runtime_env \<Rightarrow> jsstr \<Rightarrow> thread_runtime \<Rightarrow> turn_admission runtime_result" where
  "startMaintenance C w input rt = start_internal C w (maintenance_request input) rt"

definition startGoalContinuation ::
  "runtime_config \<Rightarrow> runtime_env \<Rightarrow> turn_request \<Rightarrow> thread_runtime \<Rightarrow> turn_admission runtime_result"
where
  "startGoalContinuation C w r rt =
     (if rt_closed rt then (Inr (AdRejected ShutDown), rt)
      else if req_mode r \<noteq> ModeGoal \<or> req_kind r \<noteq> Some KindGoal
      then (Inr (AdRejected InvalidInput), rt)
      else start_internal C w r rt)"

definition startGoalControl ::
  "runtime_config \<Rightarrow> runtime_env \<Rightarrow> jsstr \<Rightarrow> thread_runtime \<Rightarrow> turn_admission runtime_result" where
  "startGoalControl C w input rt0 =
     (if rt_closed rt0 then (Inr (AdRejected ShutDown), rt0)
      else let (before, rt) = look (re_now w 0) rt0 in
        case start_turn (cf_limits C) (maintenance_request input) (re_now w 1) (re_id w 0)
               (rt_admission rt) of
          (Inl e, ad) \<Rightarrow> (Inl (AdmissionThrew e), rt\<lparr>rt_admission := ad\<rparr>)
        | (Inr a, ad) \<Rightarrow>
            (let rt1 = (case a of
                   AdStarted t \<Rightarrow> rt\<lparr>rt_admission := ad, rt_goalControls := t # rt_goalControls rt\<rparr>
                 | AdQueued q _ _ \<Rightarrow>
                     rt\<lparr>rt_admission := ad, rt_queuedControls := q # rt_queuedControls rt\<rparr>
                 | _ \<Rightarrow> rt\<lparr>rt_admission := ad\<rparr>) in
             case after_turn_admission C w [] a rt1 of
               (Inl e, rt') \<Rightarrow> rollback C before e (case a of
                   AdStarted t \<Rightarrow> rt'\<lparr>rt_goalControls := removeAll t (rt_goalControls rt')\<rparr>
                 | AdQueued q _ _ \<Rightarrow> rt'\<lparr>rt_queuedControls := removeAll q (rt_queuedControls rt')\<rparr>
                 | _ \<Rightarrow> rt')
             | (Inr _, rt') \<Rightarrow> (Inr a, rt')))"

definition startCompactMaintenance ::
  "runtime_config \<Rightarrow> runtime_env \<Rightarrow> jsstr \<Rightarrow> thread_runtime \<Rightarrow> turn_admission runtime_result" where
  "startCompactMaintenance C w input rt0 =
     (if rt_closed rt0 then (Inr (AdRejected ShutDown), rt0)
      else if \<not> cf_maintenanceRunner C then (Inl MaintenanceRunnerMissing, rt0)
      else let (before, rt) = look (re_now w 0) rt0 in
        if ad_active before \<noteq> None then (Inr (AdRejected NonSteerable), rt)
        else if ad_queue before \<noteq> [] then (Inr (AdRejected Overloaded), rt)
        else case start_turn (cf_limits C) (maintenance_request input) (re_now w 1) (re_id w 0)
                    (rt_admission rt) of
          (Inl e, ad) \<Rightarrow> (Inl (AdmissionThrew e), rt\<lparr>rt_admission := ad\<rparr>)
        | (Inr a, ad) \<Rightarrow>
            (case a of
               AdStarted t \<Rightarrow>
                 (case begin_run C w t (rt\<lparr>rt_admission := ad, rt_compact := t # rt_compact rt\<rparr>) of
                    (Inl e, rt') \<Rightarrow> rollback C before e
                      (rt'\<lparr>rt_compact := removeAll t (rt_compact rt')\<rparr>)
                  | (Inr _, rt') \<Rightarrow> (Inr a, rt'))
             | _ \<Rightarrow> (Inr a, rt\<lparr>rt_admission := ad\<rparr>)))"

subsection \<open>The end of a turn\<close>

definition terminal_of :: "turn_outcome \<Rightarrow> turn_terminal" where
  "terminal_of o1 = (case o1 of OutCompleted _ _ \<Rightarrow> TermCompleted | OutFailed _ \<Rightarrow> TermFailed
     | OutInterrupted _ \<Rightarrow> TermInterrupted)"

definition terminal_event :: "turn_outcome \<Rightarrow> runtime_event" where
  "terminal_event o1 = (case o1 of OutCompleted outcome _ \<Rightarrow> TurnCompleted outcome
     | OutFailed e \<Rightarrow> TurnFailed e | OutInterrupted reason \<Rightarrow> TurnInterrupted reason)"

definition normalizeOutcome :: "jsstr option \<Rightarrow> turn_outcome \<Rightarrow> turn_outcome" where
  "normalizeOutcome aborted o1 = (case aborted of
     None \<Rightarrow> o1
   | Some reason \<Rightarrow> if terminal_of o1 \<noteq> TermInterrupted then OutInterrupted (Some reason) else o1)"

text \<open>What a run that threw is finalized with.\<close>

definition thrown_outcome :: "jsstr option \<Rightarrow> jsstr \<Rightarrow> turn_outcome" where
  "thrown_outcome aborted message =
     (if aborted \<noteq> None then OutInterrupted (Some message) else OutFailed message)"

definition check_commit ::
  "runtime_config \<Rightarrow> active_turn_record \<Rightarrow> turn_outcome \<Rightarrow> thread_runtime \<Rightarrow> runtime_error option" where
  "check_commit C a o1 rt =
     (if cf_requireTurnCommit C
         \<and> (at_kind a \<noteq> KindMaintenance \<or> at_turnId a \<in> set (rt_goalControls rt))
      then (case Option.bind (turn_of (durable rt) (at_turnId a)) tp_commit of
              None \<Rightarrow> Some (NoDurableCommit (at_turnId a))
            | Some c \<Rightarrow> if cp_terminal c \<noteq> terminal_of o1 then Some (OutcomeConflict (at_turnId a)) else None)
      else None)"

text \<open>The terminal event, or the recovery of the store when it cannot be published; the result
  is \<open>terminalPublished\<close>.\<close>

definition publishTerminal ::
  "runtime_config \<Rightarrow> runtime_env \<Rightarrow> active_turn_record \<Rightarrow> turn_outcome \<Rightarrow> thread_runtime
     \<Rightarrow> bool runtime_result" where
  "publishTerminal C w a o1 rt =
     (case (case check_commit C a o1 rt of
              Some e \<Rightarrow> (Inl e, rt)
            | None \<Rightarrow> commitAndPublish C w 0 [turn_input (at_turnId a) (terminal_event o1)] rt) of
        (Inr _, rt') \<Rightarrow> (Inr True, rt')
      | (Inl _, rt') \<Rightarrow>
          (case recover_store C w 1 (js ''turn_finished_with_uncommitted_items'') rt' of
             (Inl e, rt'') \<Rightarrow> (Inl e, rt'')
           | (Inr _, rt'') \<Rightarrow> (Inr False, rt'')))"

text \<open>The goal continuation and the maintenance that follow the turn. \<open>callback\<close> is what
  \<open>onTurnDurablyTerminal\<close> returns, \<open>None\<close> also when it throws.\<close>

definition decide_followers ::
  "active_turn_record \<Rightarrow> turn_outcome \<Rightarrow> bool \<Rightarrow> turn_request option \<Rightarrow> thread_runtime
     \<Rightarrow> jsstr option \<times> turn_request option \<times> thread_runtime" where
  "decide_followers a o1 published callback rt =
     (let goalControl = (at_turnId a \<in> set (rt_goalControls rt));
          continuation = (if published \<and> \<not> rt_closed rt then callback else None);
          rt1 = (if at_kind a \<noteq> KindMaintenance then rt\<lparr>rt_deferred := None\<rparr> else rt);
          maintenance = (if published \<and> at_kind a \<noteq> KindMaintenance
            then (case o1 of OutCompleted _ m \<Rightarrow> m | _ \<Rightarrow> None) else None) in
      if maintenance \<noteq> None \<and> continuation \<noteq> None
      then (maintenance, None, rt1\<lparr>rt_deferred := continuation\<rparr>)
      else if at_kind a = KindMaintenance \<and> \<not> goalControl
      then (maintenance, if terminal_of o1 = TermCompleted then rt_deferred rt1 else None,
            rt1\<lparr>rt_deferred := None\<rparr>)
      else (maintenance, continuation, rt1))"

definition rejectQueuedGoalControl ::
  "jsstr \<Rightarrow> admission_reason \<Rightarrow> thread_runtime \<Rightarrow> thread_runtime" where
  "rejectQueuedGoalControl queueId reason rt =
     (if queueId \<in> set (rt_queuedControls rt)
      then rt\<lparr>rt_queuedControls := removeAll queueId (rt_queuedControls rt),
              rt_rejections := rt_rejections rt @ [(queueId, reason)]\<rparr>
      else rt)"

definition promoteQueuedGoalControl :: "jsstr \<Rightarrow> jsstr option \<Rightarrow> thread_runtime \<Rightarrow> thread_runtime" where
  "promoteQueuedGoalControl turnId queueId rt =
     (if truthy queueId \<and> the queueId \<in> set (rt_queuedControls rt)
      then rt\<lparr>rt_queuedControls := removeAll (the queueId) (rt_queuedControls rt),
              rt_goalControls := turnId # rt_goalControls rt\<rparr>
      else rt)"

text \<open>One durable event per expired entry; the first append has number \<open>k\<close>.\<close>

fun expire_queued ::
  "runtime_config \<Rightarrow> runtime_env \<Rightarrow> nat \<Rightarrow> jsstr list \<Rightarrow> thread_runtime \<Rightarrow> unit runtime_result" where
  "expire_queued C w k [] rt = (Inr (), rt)"
| "expire_queued C w k (q # qs) rt =
     (case commitAndPublish C w k [thread_input (TurnQueueExpired q)]
             (rejectQueuedGoalControl q DeadlineExpired rt) of
        (Inl e, rt') \<Rightarrow> (Inl e, rt')
      | (Inr _, rt') \<Rightarrow> expire_queued C w (Suc k) qs rt')"

text \<open>The part of \<open>finalizeTurn\<close> after the admission has finished the turn. The clock is read
  twice by \<open>finish\<close>, then by \<open>requiredActiveTurn\<close>.\<close>

definition start_follower ::
  "runtime_config \<Rightarrow> runtime_env \<Rightarrow> nat \<Rightarrow> jsstr option \<Rightarrow> turn_request option \<Rightarrow> turn_finish
     \<Rightarrow> thread_runtime \<Rightarrow> unit runtime_result" where
  "start_follower C w k maintenance continuation f rt = (case f of
     FinStarted turnId queueId _ \<Rightarrow>
       (let rt1 = promoteQueuedGoalControl turnId queueId
              (if maintenance \<noteq> None then rt\<lparr>rt_compact := turnId # rt_compact rt\<rparr> else rt) in
        case requiredActiveTurn (re_now w 2) turnId rt1 of
          (Inl e, rt2) \<Rightarrow> (Inl e, rt2)
        | (Inr next, rt2) \<Rightarrow> persistTurnStart C w k 1 next queueId rt2)
   | FinIdle _ \<Rightarrow>
       (if rt_closed rt then (Inr (), rt)
        else case continuation of
          None \<Rightarrow> (Inr (), rt)
        | Some r \<Rightarrow>
            (case start_turn (cf_limits C) r (re_now w 2) (re_id w 0) (rt_admission rt) of
               (Inl e, ad) \<Rightarrow> (Inl (AdmissionThrew e), rt\<lparr>rt_admission := ad\<rparr>)
             | (Inr (AdStarted turnId), ad) \<Rightarrow>
                 (case requiredActiveTurn (re_now w 3) turnId (rt\<lparr>rt_admission := ad\<rparr>) of
                    (Inl e, rt2) \<Rightarrow> (Inl e, rt2)
                  | (Inr next, rt2) \<Rightarrow> persistTurnStart C w k 1 next None rt2)
             | (Inr _, ad) \<Rightarrow> (Inl ContinuationNotStarted, rt\<lparr>rt_admission := ad\<rparr>)))
   | FinRejected _ \<Rightarrow> (Inr (), rt))"

definition expired_of :: "turn_finish \<Rightarrow> jsstr list" where
  "expired_of f = (case f of FinStarted _ _ xs \<Rightarrow> xs | FinIdle xs \<Rightarrow> xs | FinRejected _ \<Rightarrow> [])"

definition finish_admission ::
  "runtime_config \<Rightarrow> runtime_env \<Rightarrow> active_turn_record \<Rightarrow> jsstr option \<Rightarrow> admission \<Rightarrow> turn_finish outcome"
where
  "finish_admission C w a maintenance ad = (case maintenance of
     Some source \<Rightarrow> finishAndStartPriority (cf_limits C) (at_turnId a) (js ''compact:'' @ source) None
       (re_now w 0) (re_id w 0) ad
   | None \<Rightarrow> finish (at_turnId a) (re_now w 0) (re_now w 1) (re_id w 0) ad)"

definition finalize_run ::
  "runtime_config \<Rightarrow> runtime_env \<Rightarrow> turn_request option \<Rightarrow> active_turn_record \<Rightarrow> turn_outcome
     \<Rightarrow> thread_runtime \<Rightarrow> unit runtime_result" where
  "finalize_run C w callback a o1 rt =
     (case publishTerminal C w a o1 rt of
        (Inl e, rt1) \<Rightarrow> (Inl e, rt1)
      | (Inr published, rt1) \<Rightarrow>
          (let (maintenance, continuation, rt2) = decide_followers a o1 published callback rt1 in
           case finish_admission C w a maintenance (rt_admission rt2) of
             (Inl e, ad) \<Rightarrow> (Inl (AdmissionThrew e), rt2\<lparr>rt_admission := ad\<rparr>)
           | (Inr (FinRejected _), ad) \<Rightarrow>
               (Inl (AdmissionLost (at_turnId a)), rt2\<lparr>rt_admission := ad\<rparr>)
           | (Inr f, ad) \<Rightarrow>
               (case expire_queued C w 2 (expired_of f) (rt2\<lparr>rt_admission := ad\<rparr>) of
                  (Inl e, rt3) \<Rightarrow> (Inl e, rt3)
                | (Inr _, rt3) \<Rightarrow>
                    start_follower C w (2 + length (expired_of f)) maintenance continuation f rt3)))"

text \<open>The runner's promise settles. An error of \<open>finalizeTurn\<close> in the \<open>then\<close> runs it again, with
  the second environment and the error's message, in the \<open>catch\<close>.\<close>

definition run_ends ::
  "runtime_config \<Rightarrow> runtime_env \<Rightarrow> runtime_env \<Rightarrow> jsstr \<Rightarrow> turn_request option \<Rightarrow> run_result
     \<Rightarrow> thread_runtime \<Rightarrow> unit runtime_result" where
  "run_ends C w w' message callback result rt =
     (case rt_run rt of
        Some (a, False) \<Rightarrow>
          (let (r, rt') = (case result of
                 RunReturned o1 \<Rightarrow>
                   (case finalize_run C w callback a (normalizeOutcome (rt_abort rt) o1) rt of
                      (Inr _, rt1) \<Rightarrow> (Inr (), rt1)
                    | (Inl e, rt1) \<Rightarrow>
                        finalize_run C w' callback a (thrown_outcome (rt_abort rt1) message) rt1)
               | RunThrew m \<Rightarrow> finalize_run C w callback a (thrown_outcome (rt_abort rt) m) rt) in
           (r, rt'\<lparr>rt_run := Some (a, True)\<rparr>))
      | _ \<Rightarrow> (Inr (), rt))"

definition promoteQueuedTurn ::
  "runtime_config \<Rightarrow> runtime_env \<Rightarrow> thread_runtime \<Rightarrow> unit runtime_result" where
  "promoteQueuedTurn C w rt0 =
     (if rt_closed rt0 \<or> rt_run rt0 \<noteq> None then (Inr (), rt0)
      else let (snap, rt) = look (re_now w 1) rt0 in
        if ad_active snap \<noteq> None then (Inr (), rt)
        else case startNextQueued (re_now w 2) (re_now w 3) (re_id w 0) (rt_admission rt) of
          (Inl e, ad) \<Rightarrow> (Inl (AdmissionThrew e), rt\<lparr>rt_admission := ad\<rparr>)
        | (Inr (FinRejected _), ad) \<Rightarrow> (Inr (), rt\<lparr>rt_admission := ad\<rparr>)
        | (Inr f, ad) \<Rightarrow>
            (case expire_queued C w 0 (expired_of f) (rt\<lparr>rt_admission := ad\<rparr>) of
               (Inl e, rt1) \<Rightarrow> (Inl e, rt1)
             | (Inr _, rt1) \<Rightarrow>
                 (case f of
                    FinStarted turnId queueId _ \<Rightarrow>
                      start_run C w (re_now w 4) (length (expired_of f)) queueId turnId
                        (promoteQueuedGoalControl turnId queueId rt1)
                  | _ \<Rightarrow> (Inr (), rt1))))"

text \<open>The \<open>finally\<close> of the run, once \<open>onTurnSettled\<close> has settled.\<close>

definition next_run ::
  "runtime_config \<Rightarrow> runtime_env \<Rightarrow> thread_runtime \<Rightarrow> unit runtime_result" where
  "next_run C w rt0 =
     (case rt_run rt0 of
        Some (a, True) \<Rightarrow>
          (let (snap, rt) = look (re_now w 0) (rt0\<lparr>rt_run := None, rt_abort := None,
                 rt_compact := removeAll (at_turnId a) (rt_compact rt0),
                 rt_goalControls := removeAll (at_turnId a) (rt_goalControls rt0)\<rparr>) in
           case ad_active snap of
             Some next \<Rightarrow>
               if rt_closed rt
               then (case finish (at_turnId next) (re_now w 1) (re_now w 2) (re_id w 0)
                            (rt_admission rt) of
                       (Inl e, ad) \<Rightarrow> (Inl (AdmissionThrew e), rt\<lparr>rt_admission := ad\<rparr>)
                     | (Inr _, ad) \<Rightarrow> (Inr (), rt\<lparr>rt_admission := ad\<rparr>))
               else scheduleTurn next rt
           | None \<Rightarrow> promoteQueuedTurn C w rt)
      | _ \<Rightarrow> (Inr (), rt0))"

text \<open>The waiters are not part of the state, but looking at the admission drops expired entries.
  It is not reached when the start of the next turn throws.\<close>

definition resolveIdleIfNeeded :: "int \<Rightarrow> thread_runtime \<Rightarrow> thread_runtime" where
  "resolveIdleIfNeeded now rt = (if rt_run rt \<noteq> None then rt else snd (look now rt))"

definition settle_run ::
  "runtime_config \<Rightarrow> runtime_env \<Rightarrow> thread_runtime \<Rightarrow> unit runtime_result" where
  "settle_run C w rt =
     (case rt_run rt of
        Some (a, True) \<Rightarrow>
          (case next_run C w rt of
             (Inl e, rt') \<Rightarrow> (Inl e, rt')
           | (Inr _, rt') \<Rightarrow> (Inr (), resolveIdleIfNeeded (re_now w 5) rt'))
      | _ \<Rightarrow> (Inr (), rt))"

subsection \<open>Items of the runner, close and construction\<close>

text \<open>What a runner appends through its context, and the services behind it through the store:
  items, commits, receipts and reviews, but no lifecycle event of a turn or of the queue.\<close>

definition runner_event :: "runtime_event \<Rightarrow> bool" where
  "runner_event p \<longleftrightarrow> (case p of
     ItemStarted _ \<Rightarrow> True | ItemCompleted _ _ _ _ \<Rightarrow> True | ItemFailed _ _ \<Rightarrow> True
   | ItemInterrupted _ _ \<Rightarrow> True | ItemIndeterminate _ _ \<Rightarrow> True | TurnCommitted _ \<Rightarrow> True
   | PlanReviewRequested _ \<Rightarrow> True | PlanReviewResolved _ \<Rightarrow> True | StepSnapshotEvent _ _ _ \<Rightarrow> True
   | CapabilityReceiptEvent _ _ _ \<Rightarrow> True | ToolReceiptEvent _ \<Rightarrow> True | CompactStarted _ _ _ _ \<Rightarrow> True
   | CompactCompleted _ _ _ _ _ \<Rightarrow> True | CompactFailed _ _ _ _ _ \<Rightarrow> True
   | ApprovalRequested _ _ \<Rightarrow> True | _ \<Rightarrow> False)"

definition runner_append ::
  "runtime_config \<Rightarrow> runtime_env \<Rightarrow> append_input list \<Rightarrow> thread_runtime \<Rightarrow> unit runtime_result" where
  "runner_append C w inputs rt =
     (if list_all (runner_event \<circ> ai_payload) inputs then commitAndPublish C w 0 inputs rt
      else (Inr (), rt))"

definition start_run_item ::
  "runtime_config \<Rightarrow> runtime_env \<Rightarrow> active_turn_record \<Rightarrow> item_started_data \<Rightarrow> jsstr option
     \<Rightarrow> jsstr option \<Rightarrow> thread_runtime \<Rightarrow> (jsstr \<times> jsstr \<times> jsstr) runtime_result" where
  "start_run_item C w a d stepId itemId rt =
     (let h = (at_turnId a, case stepId of None \<Rightarrow> re_id w 0 | Some s \<Rightarrow> s,
               case itemId of None \<Rightarrow> re_id w 1 | Some i \<Rightarrow> i) in
      case runner_append C w [item_input (fst h) (fst (snd h)) (snd (snd h))
             (ItemStarted (d\<lparr>is_parentItemId := None, is_intent := None,
                is_name := (if truthy (is_name d) then is_name d else None),
                is_inputDigest := (if truthy (is_inputDigest d) then is_inputDigest d else None)\<rparr>))] rt of
        (Inl e, rt') \<Rightarrow> (Inl e, rt') | (Inr _, rt') \<Rightarrow> (Inr h, rt'))"

definition completeItem ::
  "runtime_config \<Rightarrow> runtime_env \<Rightarrow> jsstr \<times> jsstr \<times> jsstr \<Rightarrow> jsstr option \<Rightarrow> jsstr option
     \<Rightarrow> jsstr option \<Rightarrow> thread_runtime \<Rightarrow> unit runtime_result" where
  "completeItem C w h content summary outputDigest rt =
     runner_append C w [item_input (fst h) (fst (snd h)) (snd (snd h))
       (ItemCompleted content summary outputDigest None)] rt"

definition failItem ::
  "runtime_config \<Rightarrow> runtime_env \<Rightarrow> jsstr \<times> jsstr \<times> jsstr \<Rightarrow> jsstr \<Rightarrow> thread_runtime
     \<Rightarrow> unit runtime_result" where
  "failItem C w h e rt =
     runner_append C w [item_input (fst h) (fst (snd h)) (snd (snd h)) (ItemFailed e None)] rt"

definition close_runtime :: "jsstr \<Rightarrow> thread_runtime \<Rightarrow> thread_runtime" where
  "close_runtime reason rt =
     (if rt_closed rt then rt
      else abort_run reason (rt\<lparr>rt_closed := True, rt_deferred := None, rt_goalControls := [],
        rt_queuedControls := [],
        rt_rejections := rt_rejections rt @ map (\<lambda>q. (q, ShutDown)) (rt_queuedControls rt),
        rt_admission := snd (close_admission (rt_admission rt))\<rparr>))"

text \<open>The mode follow-ups continue in: that of the latest turn that is not maintenance.\<close>

definition latestContinuationMode :: "projection \<Rightarrow> turn_mode" where
  "latestContinuationMode st =
     (case sort_key tp_startedSeq (filter (\<lambda>tn. tp_mode tn \<noteq> ModeMaintenance) (map snd (turns st))) of
        [] \<Rightarrow> ModeBuild
      | ts \<Rightarrow> (if tp_mode (last ts) \<in> set [ModePlan, ModeAuto, ModeGoal] then tp_mode (last ts)
               else ModeBuild))"

definition queue_snapshot :: "projection \<Rightarrow> admission" where
  "queue_snapshot st =
     \<lparr>ad_active = None,
      ad_queue = map (\<lambda>q. \<lparr>qe_queueId = qt_queueId q, qe_input = qt_input q,
        qe_inputBytes = byte_length (qt_input q), qe_mode = qt_mode q, qe_kind = qt_kind q,
        qe_source = qt_source q, qe_enqueuedAt = qt_enqueuedAt q, qe_deadline = qt_deadline q\<rparr>)
        (queue st),
      ad_bytes = sum_list (map (byte_length \<circ> qt_input) (queue st)),
      ad_mode = latestContinuationMode st, ad_shutdown = False\<rparr>"

text \<open>The constructor: a new log is started, an interrupted turn recovered, the queue restored.
  \<open>promoteQueuedTurn\<close> follows as a microtask.\<close>

definition new_runtime ::
  "runtime_config \<Rightarrow> runtime_env \<Rightarrow> thread_store \<Rightarrow> runtime_error + thread_runtime" where
  "new_runtime C w s =
     (let rt = \<lparr>rt_store = s, rt_admission = new_admission, rt_run = None, rt_abort = None,
            rt_compact = [], rt_goalControls = [], rt_queuedControls = [], rt_deferred = None,
            rt_closed = False, rt_runs = [], rt_rejections = []\<rparr> in
      case (if cursor (durable rt) = 0
            then commitAndPublish C w 0 [thread_input (ThreadStarted
              (if truthy (cf_projectPath C) then cf_projectPath C else None))] rt
            else if truthy (activeTurnId (durable rt)) \<and> cf_recoverIncomplete C
            then recover_store C w 0 (js ''runtime_restarted_before_terminal_commit'') rt
            else (Inr (), rt)) of
        (Inl e, rt1) \<Rightarrow> Inl e
      | (Inr _, rt1) \<Rightarrow>
          (case restore (cf_limits C) (queue_snapshot (durable rt1)) (rt_admission rt1) of
             (Inl e, ad) \<Rightarrow> Inl (AdmissionThrew e)
           | (Inr _, ad) \<Rightarrow> Inr (rt1\<lparr>rt_admission := ad\<rparr>)))"

end
