(* ===== verification/RuntimeSync.thy ===== *)
theory RuntimeSync
  imports ThreadRuntime AdmissionProperties
begin

section \<open>The runtime keeps the controller and the log in step\<close>

text \<open>
  The admission controller decides in memory which turn is active, the event log says it durably.
  The invariant here says that they agree at every point where the runtime is reachable to its
  callers, that an idle runtime has no queued turn, and that each turn is given to a runner at
  most once and only after its start is durable. It is proved over the commands, failures of the
  store included, and the ends of runs that could do their writes.
\<close>

subsection \<open>What a batch does to the active turn\<close>

fun event_effect :: "jsstr option \<Rightarrow> runtime_event \<Rightarrow> jsstr option \<Rightarrow> jsstr option" where
  "event_effect t (TurnStarted _ _ _) cur = t"
| "event_effect t (TurnCompleted _) cur = None"
| "event_effect t (TurnFailed _) cur = None"
| "event_effect t (TurnInterrupted _) cur = None"
| "event_effect t _ cur = cur"

definition input_effect :: "append_input \<Rightarrow> jsstr option \<Rightarrow> jsstr option" where
  "input_effect x = event_effect (ai_turnId x) (ai_payload x)"

definition known_turns :: "projection \<Rightarrow> jsstr set" where
  "known_turns st = {t. turn_of st t \<noteq> None}"

lemma known_frame [simp]: "known_turns (st\<lparr>cursor := c\<rparr>) = known_turns st"
  by (simp add: known_turns_def)

lemma applyPayload_active:
  "applyPayload E st ev p = Inr st' \<Longrightarrow>
   activeTurnId st' = event_effect (en_turnId ev) p (activeTurnId st)"
  by (cases p) (auto simp: plain_handlers active_turn_Some split: if_splits option.splits sum.splits
      elim!: handler_elims)

lemma applyPayload_known:
  assumes "applyPayload E st ev p = Inr st'" "turn_of st u \<noteq> None"
  shows "turn_of st' u \<noteq> None"
  using assms
  by (cases p)
    (auto simp: plain_handlers active_turn_Some split: if_splits option.splits sum.splits
      elim!: handler_elims)

lemma applyThreadEvent_effect:
  assumes "applyThreadEvent E st ev = Inr s"
  shows "activeTurnId s = event_effect (en_turnId ev) (en_payload ev) (activeTurnId st)
    \<and> known_turns st \<subseteq> known_turns s"
proof -
  obtain st1 where st1: "applyPayload E st ev (en_payload ev) = Inr st1" "s = st1\<lparr>cursor := en_seq ev\<rparr>"
    using assms by (auto simp: applyThreadEvent_Inr)
  have "known_turns st \<subseteq> known_turns st1"
    using applyPayload_known [OF st1(1)] by (auto simp: known_turns_def)
  then show ?thesis using applyPayload_active [OF st1(1)] st1(2) by simp
qed

lemma started_fresh:
  "applyPayload E st ev (TurnStarted i m q) = Inr st' \<Longrightarrow> en_turnId ev = Some t \<Longrightarrow>
   t \<notin> known_turns st \<and> t \<in> known_turns st' \<and> \<not> truthy (activeTurnId st)"
  by (auto simp: known_turns_def elim!: startTurnE)

lemma replay_active:
  "replay (applyThreadEvent E) st evs = Inr st' \<Longrightarrow>
   activeTurnId st' = fold (\<lambda>ev. event_effect (en_turnId ev) (en_payload ev)) evs (activeTurnId st)
   \<and> known_turns st \<subseteq> known_turns st'"
proof (induction evs arbitrary: st)
  case (Cons ev evs)
  from Cons.prems obtain s where s: "applyThreadEvent E st ev = Inr s"
    "replay (applyThreadEvent E) s evs = Inr st'" by (auto split: sum.splits)
  show ?case using Cons.IH [OF s(2)] applyThreadEvent_effect [OF s(1)] by auto
qed simp

lemma seal_inputs_effects:
  "seal_inputs tid ids clk sq seen xs = Inr evs \<Longrightarrow>
   map (\<lambda>ev. (en_turnId ev, en_payload ev)) evs = map (\<lambda>x. (ai_turnId x, ai_payload x)) xs"
proof (induction xs arbitrary: sq seen evs)
  case (Cons x xs)
  then show ?case
    by (auto simp: Let_def input_event_def split: if_splits list.splits sum.splits)
qed simp

lemma fold_effects:
  "map (\<lambda>ev. (en_turnId ev, en_payload ev)) evs = map (\<lambda>x. (ai_turnId x, ai_payload x)) xs \<Longrightarrow>
   fold (\<lambda>ev. event_effect (en_turnId ev) (en_payload ev)) evs cur = fold input_effect xs cur"
proof (induction evs arbitrary: xs cur)
  case (Cons ev evs)
  then show ?case by (cases xs) (auto simp: input_effect_def)
qed simp

lemma append_accepted:
  assumes "appendDurableBatch E D ids clk s xs = (Inr evs, s')"
  shows "replay (applyThreadEvent E) (fst (ts_head s)) evs = Inr (fst (ts_head s'))
    \<and> map (\<lambda>ev. (en_turnId ev, en_payload ev)) evs = map (\<lambda>x. (ai_turnId x, ai_payload x)) xs"
  using assms
  by (auto simp: appendDurableBatch_def advanceThreadProjection_def freezeProjection_def
      dest: seal_inputs_effects split: if_splits sum.splits)

lemma append_effect:
  assumes "appendDurableBatch E D ids clk s xs = (r, s')"
  shows "(isl r \<longrightarrow> s' = s)
    \<and> (\<not> isl r \<longrightarrow> activeTurnId (fst (ts_head s')) = fold input_effect xs (activeTurnId (fst (ts_head s)))
         \<and> known_turns (fst (ts_head s)) \<subseteq> known_turns (fst (ts_head s')))"
proof (cases r)
  case (Inl e)
  then show ?thesis using assms by (auto simp: appendDurableBatch_def split: if_splits sum.splits)
next
  case (Inr evs)
  then show ?thesis
    using append_accepted [of E D ids clk s xs evs s'] assms replay_active fold_effects by fastforce
qed

lemma append_started:
  assumes "appendDurableBatch E D ids clk s (turn_input t (TurnStarted i m q) # xs) = (Inr evs, s')"
  shows "t \<notin> known_turns (fst (ts_head s)) \<and> t \<in> known_turns (fst (ts_head s'))
    \<and> \<not> truthy (activeTurnId (fst (ts_head s)))"
proof -
  obtain ev evs' where evs: "evs = ev # evs'" "en_turnId ev = Some t" "en_payload ev = TurnStarted i m q"
      "replay (applyThreadEvent E) (fst (ts_head s)) (ev # evs') = Inr (fst (ts_head s'))"
    using append_accepted [OF assms]
    by (cases evs) (auto simp: turn_input_def thread_input_def)
  then obtain st1 where "applyThreadEvent E (fst (ts_head s)) ev = Inr st1"
      "replay (applyThreadEvent E) st1 evs' = Inr (fst (ts_head s'))"
    by (auto split: sum.splits)
  then show ?thesis
    using started_fresh [of E "fst (ts_head s)" ev i m q] evs replay_active
    by (fastforce simp: applyThreadEvent_Inr)
qed

subsection \<open>The invariant\<close>

definition active_id :: "thread_runtime \<Rightarrow> jsstr option" where
  "active_id rt = map_option at_turnId (ad_active (rt_admission rt))"

definition base_ok :: "runtime_config \<Rightarrow> thread_runtime \<Rightarrow> bool" where
  "base_ok C rt \<longleftrightarrow> store_ok (cf_js C) (cf_digest C) (rt_store rt)
     \<and> adm_inv (cf_limits C) (rt_admission rt) \<and> limits_ok (cf_limits C)"

text \<open>Each turn was given to a runner at most once and only after its start was durable.\<close>

definition runs_ok :: "thread_runtime \<Rightarrow> bool" where
  "runs_ok rt \<longleftrightarrow> distinct (map fst (rt_runs rt))
     \<and> set (map fst (rt_runs rt)) \<subseteq> known_turns (durable rt)"

text \<open>Idle, running, and between the end of a run and its settlement, when the next turn may
  already be started but was not run yet.\<close>

definition stage_ok :: "thread_runtime \<Rightarrow> bool" where
  "stage_ok rt \<longleftrightarrow> (case rt_run rt of
     None \<Rightarrow> active_id rt = None \<and> ad_queue (rt_admission rt) = []
   | Some (a, False) \<Rightarrow> active_id rt = Some (at_turnId a)
   | Some (a, True) \<Rightarrow> (case active_id rt of None \<Rightarrow> ad_queue (rt_admission rt) = []
        | Some t \<Rightarrow> t \<notin> set (map fst (rt_runs rt))))"

definition in_sync :: "thread_runtime \<Rightarrow> bool" where
  "in_sync rt \<longleftrightarrow> activeTurnId (durable rt) = active_id rt \<and> stage_ok rt"

definition sync_inv :: "runtime_config \<Rightarrow> thread_runtime \<Rightarrow> bool" where
  "sync_inv C rt \<longleftrightarrow> base_ok C rt \<and> runs_ok rt \<and> (rt_closed rt \<or> in_sync rt)"

subsection \<open>The helpers\<close>

text \<open>Parts of the state a helper leaves alone: all but the store, and all but the admission.\<close>

definition same_control :: "thread_runtime \<Rightarrow> thread_runtime \<Rightarrow> bool" where
  "same_control rt rt' \<longleftrightarrow> rt_run rt' = rt_run rt \<and> rt_runs rt' = rt_runs rt \<and> rt_closed rt' = rt_closed rt"

lemma same_control_refl [simp]: "same_control rt rt"
  by (simp add: same_control_def)

lemma commit_store:
  assumes "commitAndPublish C w k xs rt = (r, rt')" "base_ok C rt"
  shows "base_ok C rt' \<and> same_control rt rt' \<and> rt_admission rt' = rt_admission rt
    \<and> known_turns (durable rt) \<subseteq> known_turns (durable rt')
    \<and> (isl r \<longrightarrow> rt_store rt' = rt_store rt)
    \<and> (\<not> isl r \<longrightarrow> activeTurnId (durable rt') = fold input_effect xs (activeTurnId (durable rt)))"
proof (cases "re_ioFails w k")
  case True
  then show ?thesis using assms by (auto simp: commitAndPublish_def)
next
  case False
  obtain r1 s where app: "appendDurableBatch (cf_js C) (cf_digest C) (re_eventId w k) (re_eventTime w k)
      (rt_store rt) xs = (r1, s)" by fastforce
  then have "isl r = isl r1" "rt' = rt\<lparr>rt_store := s\<rparr>"
    using assms False by (auto simp: commitAndPublish_def split: sum.splits)
  moreover have "store_ok (cf_js C) (cf_digest C) s"
    using appendDurableBatch_ok [of "cf_js C" "cf_digest C" "rt_store rt" "re_eventId w k"
        "re_eventTime w k" xs] assms(2) app by (simp add: base_ok_def)
  ultimately show ?thesis
    using append_effect [OF app] assms(2)
    by (cases "isl r1") (auto simp: base_ok_def same_control_def durable_def)
qed

lemma commit_started:
  assumes "commitAndPublish C w k (turn_input t (TurnStarted i m q) # xs) rt = (Inr u, rt')"
  shows "t \<notin> known_turns (durable rt) \<and> t \<in> known_turns (durable rt')
    \<and> \<not> truthy (activeTurnId (durable rt))"
  using assms append_started [of "cf_js C" "cf_digest C" "re_eventId w k" "re_eventTime w k"
      "rt_store rt" t i m q xs]
  by (auto simp: commitAndPublish_def durable_def split: if_splits sum.splits prod.splits)

lemma recovery_effect:
  "fold input_effect (recovery_inputs reason st) cur = (if truthy (activeTurnId st) then None else cur)"
proof -
  have items: "fold input_effect (map (indeterminate_input reason) its) cur = cur" for its
    by (induction its) (simp_all add: input_effect_def indeterminate_input_def)
  have "event_effect t (recovery_terminal reason c) x = None" for t c x
    by (simp add: recovery_terminal_def split: option.split turn_terminal.split)
  then show ?thesis
    by (simp add: recovery_inputs_def items input_effect_def)
qed

lemma head_truthy:
  assumes "store_ok E D s"
  shows "truthy (activeTurnId (fst (ts_head s))) \<longleftrightarrow> activeTurnId (fst (ts_head s)) \<noteq> None"
proof -
  obtain st d where head: "ts_head s = (st, d)" by fastforce
  have inv: "proj_inv st" by (rule store_head(1) [OF assms head])
  have "t \<noteq> []" if "activeTurnId st = Some t" for t
  proof -
    have "active_ok st" "keys_ok st" using inv by (simp_all add: proj_inv_def)
    then have "map_option tp_status (turn_of st t) = Some TsActive" using that unfolding active_ok_def by blast
    then show ?thesis using \<open>keys_ok st\<close> by (auto simp: keys_ok_def)
  qed
  then show ?thesis using head by (cases "activeTurnId st") auto
qed

lemma recover_idle:
  assumes "recover_store C w k reason rt = (r, rt')" "base_ok C rt"
  shows "base_ok C rt' \<and> same_control rt rt' \<and> rt_admission rt' = rt_admission rt
    \<and> known_turns (durable rt) \<subseteq> known_turns (durable rt')
    \<and> (\<not> isl r \<longrightarrow> activeTurnId (durable rt') = None)"
proof (cases "re_ioFails w k")
  case True
  then show ?thesis using assms by (auto simp: recover_store_def)
next
  case False
  let ?E = "cf_js C" let ?D = "cf_digest C" let ?ids = "re_eventId w k" let ?clk = "re_eventTime w k"
  let ?xs = "recovery_inputs reason (durable rt)"
  obtain r1 s where rec: "recoverIncomplete ?E ?D ?ids ?clk reason (rt_store rt) = (r1, s)" by fastforce
  obtain r2 where app: "appendDurableBatch ?E ?D ?ids ?clk (rt_store rt) ?xs = (r2, s)"
    using recoverIncomplete_state [of ?E ?D ?ids ?clk reason "rt_store rt"] rec
    by (cases "appendDurableBatch ?E ?D ?ids ?clk (rt_store rt) ?xs") (simp add: durable_def)
  have ok: "store_ok ?E ?D (rt_store rt)" using assms(2) by (simp add: base_ok_def)
  then have ok': "store_ok ?E ?D s"
    using appendDurableBatch_ok [of ?E ?D "rt_store rt" ?ids ?clk ?xs] app by simp
  have rt': "rt' = rt\<lparr>rt_store := s\<rparr>" "isl r = isl r1"
    using assms False rec by (auto simp: recover_store_def split: sum.splits)
  have "isl r2 \<longrightarrow> isl r1"
  proof (cases ?xs)
    case Nil
    then show ?thesis using app by (auto simp: appendDurableBatch_def)
  next
    case (Cons x xs)
    then show ?thesis
      using rec app by (cases r2) (auto simp: recoverIncomplete_def durable_def)
  qed
  then have "activeTurnId (durable rt') = None" if "\<not> isl r"
    using that append_effect [OF app] rt' head_truthy [OF ok]
    by (auto simp: durable_def recovery_effect split: if_splits)
  moreover have "known_turns (durable rt) \<subseteq> known_turns (durable rt')"
    using append_effect [OF app] rt' by (cases "isl r2") (auto simp: durable_def)
  ultimately show ?thesis
    using rt' ok' assms(2) by (simp add: base_ok_def same_control_def)
qed

lemma look_spec:
  "look now rt = (snap, rt') \<longleftrightarrow>
     snap = snd (dropExpired now (rt_admission rt)) \<and> rt' = rt\<lparr>rt_admission := snap\<rparr>"
  by (auto simp: look_def getSnapshot_def Let_def)

lemma required_spec:
  assumes "requiredActiveTurn now t rt = (r, rt')"
  shows "rt' = rt\<lparr>rt_admission := snd (dropExpired now (rt_admission rt))\<rparr>
    \<and> (\<forall>a. r = Inr a \<longrightarrow> ad_active (rt_admission rt) = Some a \<and> at_turnId a = t)"
  using assms
  by (auto simp: requiredActiveTurn_def look_def getSnapshot_def Let_def split: option.splits if_splits)

lemma rollback_restores:
  "adm_inv (cf_limits C) before \<Longrightarrow> rollback C before e rt = (Inl e, rt\<lparr>rt_admission := before\<rparr>)"
  by (simp add: rollback_def restore_self)

lemma active_id_frame [simp]:
  "active_id (rt\<lparr>rt_admission := ad\<rparr>) = map_option at_turnId (ad_active ad)"
  "active_id (rt\<lparr>rt_store := s\<rparr>) = active_id rt"
  by (simp_all add: active_id_def)

lemma persist_start:
  assumes "persistTurnStart C w k i a q rt = (r, rt')" "base_ok C rt"
  shows "base_ok C rt' \<and> same_control rt rt' \<and> rt_admission rt' = rt_admission rt
    \<and> known_turns (durable rt) \<subseteq> known_turns (durable rt')
    \<and> (isl r \<longrightarrow> rt_store rt' = rt_store rt)
    \<and> (\<not> isl r \<longrightarrow> activeTurnId (durable rt') = Some (at_turnId a)
         \<and> at_turnId a \<notin> known_turns (durable rt) \<and> at_turnId a \<in> known_turns (durable rt'))"
proof -
  have "fold input_effect (turn_start_inputs x y a q) cur = Some (at_turnId a)" for x y cur
    by (simp add: turn_start_inputs_def input_effect_def turn_input_def thread_input_def
        user_message_def item_input_def)
  then show ?thesis
    using commit_store [OF assms(1) [unfolded persistTurnStart_def] assms(2)]
      commit_started [of C w k "at_turnId a" "at_input a" "at_mode a" "if truthy q then q else None" _ rt _ rt']
      assms(1)
    by (cases r) (auto simp: persistTurnStart_def turn_start_inputs_def)
qed

subsection \<open>Admitting a turn\<close>

text \<open>What an answer of the controller says of its state before and after.\<close>

definition quiet :: "admission \<Rightarrow> admission \<Rightarrow> bool" where
  "quiet s s' \<longleftrightarrow> map_option at_turnId (ad_active s') = map_option at_turnId (ad_active s)
     \<and> (ad_queue s = [] \<longrightarrow> ad_queue s' = [])"

definition admitted :: "turn_admission \<Rightarrow> admission \<Rightarrow> admission \<Rightarrow> bool" where
  "admitted res s s' \<longleftrightarrow> (case res of
     AdStarted t \<Rightarrow> ad_active s = None \<and> (\<exists>a. ad_active s' = Some a \<and> at_turnId a = t)
   | AdQueued q p d \<Rightarrow> ad_active s \<noteq> None \<and> ad_active s' = ad_active s
   | AdSteered t i \<Rightarrow> ad_active s \<noteq> None \<and> quiet s s'
   | AdRejected reason \<Rightarrow> quiet s s')"

lemma quiet_refl [simp]: "quiet s s"
  by (simp add: quiet_def)

lemma dropExpired_quiet [simp]: "quiet s (snd (dropExpired now s))"
  by (simp add: quiet_def)

lemma quiet_trans: "quiet s s' \<Longrightarrow> quiet s' s'' \<Longrightarrow> quiet s s''"
  by (simp add: quiet_def)

lemma begin_turn_cases:
  obtains e where "begin_turn input mode kind now i s = (Inl e, s)"
  | s' a where "begin_turn input mode kind now i s = (Inr i, s')" "ad_active s' = Some a"
      "at_turnId a = i" "ad_queue s' = ad_queue s"
  by (cases "nextId i ''turn''") (auto simp: begin_turn_def nextId_def split: if_splits)

lemma admitTurn_admitted:
  assumes "admitTurn L r source now i s = (x, s')"
  shows "case x of Inl e \<Rightarrow> quiet s s' | Inr res \<Rightarrow> admitted res s s'"
proof -
  let ?s = "snd (dropExpired now s)"
  show ?thesis
    by (cases "req_input r" "req_mode r" "request_kind r" now i ?s rule: begin_turn_cases)
       (use assms in \<open>auto simp: admitTurn_def Let_def admitted_def quiet_def split: if_splits sum.splits\<close>)
qed

lemma steer_admitted:
  assumes "steer L input i s = (Inr res, s')"
  shows "admitted res s s' \<and> s' = s"
  using assms by (auto simp: steer_def admitted_def split: if_splits option.splits sum.splits)

lemma interrupt_quiet:
  "interrupt i s = (x, s') \<Longrightarrow> quiet s s'"
  by (auto simp: interrupt_def quiet_def split: if_splits option.splits sum.splits)

lemma sync_inv_cong:
  assumes "rt_store rt' = rt_store rt" "rt_admission rt' = rt_admission rt" "same_control rt rt'"
  shows "sync_inv C rt' = sync_inv C rt"
proof -
  have "active_id rt' = active_id rt" "durable rt' = durable rt"
    using assms(1,2) by (simp_all add: active_id_def durable_def)
  then have "stage_ok rt' = stage_ok rt"
    using assms(2,3) by (simp only: stage_ok_def same_control_def)
  then show ?thesis
    using assms \<open>active_id rt' = active_id rt\<close>
    by (simp add: sync_inv_def base_ok_def runs_ok_def in_sync_def durable_def same_control_def)
qed

text \<open>A quiet change of the controller keeps the invariant.\<close>

lemma stage_quiet:
  assumes "stage_ok rt" "quiet (rt_admission rt) ad"
  shows "stage_ok (rt\<lparr>rt_admission := ad\<rparr>)"
  using assms
  by (auto simp: stage_ok_def quiet_def active_id_def split: option.splits bool.splits)

lemma sync_quiet:
  assumes "sync_inv C rt" "quiet (rt_admission rt) ad" "adm_inv (cf_limits C) ad"
  shows "sync_inv C (rt\<lparr>rt_admission := ad\<rparr>)"
  using assms stage_quiet
  by (auto simp: sync_inv_def base_ok_def runs_ok_def in_sync_def durable_def active_id_def quiet_def)

lemma sync_drop: "sync_inv C rt \<Longrightarrow> sync_inv C (rt\<lparr>rt_admission := snd (dropExpired now (rt_admission rt))\<rparr>)"
  by (rule sync_quiet) (auto simp: sync_inv_def base_ok_def dropExpired_inv)

text \<open>A command must not come between the end of a run and its settlement when no turn follows.\<close>

definition settling :: "thread_runtime \<Rightarrow> bool" where
  "settling rt \<longleftrightarrow> (case rt_run rt of Some (a, True) \<Rightarrow> active_id rt = None | _ \<Rightarrow> False)"

lemma runs_grow:
  assumes "runs_ok rt" "same_control rt rt'" "known_turns (durable rt) \<subseteq> known_turns (durable rt')"
  shows "runs_ok rt'"
  using assms by (auto simp: runs_ok_def same_control_def)

lemma start_run_sync:
  assumes base: "base_ok C rt" and runs: "runs_ok rt" and idle: "rt_run rt = None"
    and active: "ad_active (rt_admission rt) = Some a0" "at_turnId a0 = t"
    and run: "start_run C w now k qid t rt = (r, rt')"
  shows "base_ok C rt' \<and> (isl r \<longrightarrow> rt_store rt' = rt_store rt \<and> same_control rt rt')
    \<and> (\<not> isl r \<longrightarrow> sync_inv C rt' \<and> rt_closed rt' = rt_closed rt)"
proof -
  obtain q rt1 where req: "requiredActiveTurn now t rt = (q, rt1)" by fastforce
  note rt1 = required_spec [OF req]
  have base1: "base_ok C rt1" using base rt1 dropExpired_inv by (auto simp: base_ok_def)
  have q: "q = Inr a0"
    using req active by (auto simp: requiredActiveTurn_def look_def getSnapshot_def Let_def)
  obtain p rt2 where per: "persistTurnStart C w k 1 a0 qid rt1 = (p, rt2)" by fastforce
  note rt2 = persist_start [OF per base1]
  show ?thesis
  proof (cases p)
    case (Inl e)
    then show ?thesis using run req q per rt1 rt2 by (auto simp: start_run_def same_control_def)
  next
    case (Inr u)
    have none: "rt_run rt2 = None" using idle rt1 rt2 by (simp add: same_control_def)
    then have rt': "r = Inr ()" "rt' = rt2\<lparr>rt_run := Some (a0, False), rt_abort := None,
        rt_runs := rt_runs rt2 @ [(at_turnId a0,
          if at_turnId a0 \<in> set (rt_goalControls rt2) then GoalControlRunner
          else if at_turnId a0 \<in> set (rt_compact rt2) then CompactRunner else TurnRunner)]\<rparr>"
      using run req q per Inr by (simp_all add: start_run_def scheduleTurn_def)
    have "durable rt1 = durable rt" "rt_runs rt1 = rt_runs rt" using rt1 by (simp_all add: durable_def)
    then have "runs_ok rt'"
      using runs rt2 Inr rt' by (auto simp: runs_ok_def same_control_def durable_def)
    moreover have "in_sync rt'"
      using rt' rt1 rt2 Inr active
      by (auto simp: in_sync_def stage_ok_def active_id_def durable_def)
    ultimately show ?thesis
      using rt' rt1 rt2 by (auto simp: sync_inv_def base_ok_def same_control_def)
  qed
qed

lemma after_turn_admission_sync:
  assumes sync: "sync_inv C (rt\<lparr>rt_admission := ad0\<rparr>)" and up: "\<not> rt_closed rt"
    and calm: "\<not> settling (rt\<lparr>rt_admission := ad0\<rparr>)"
    and adm: "admitted res ad0 (rt_admission rt)" "adm_inv (cf_limits C) (rt_admission rt)"
    and run: "after_turn_admission C w input res rt = (r, rt')"
  shows "base_ok C rt' \<and> (isl r \<longrightarrow> rt_store rt' = rt_store rt \<and> same_control rt rt')
    \<and> (\<not> isl r \<longrightarrow> sync_inv C rt' \<and> rt_closed rt' = rt_closed rt)"
proof -
  let ?rt0 = "rt\<lparr>rt_admission := ad0\<rparr>"
  have base: "base_ok C rt" using sync adm(2) by (simp add: sync_inv_def base_ok_def)
  have runs: "runs_ok rt" using sync by (simp add: sync_inv_def runs_ok_def durable_def)
  have stage: "stage_ok ?rt0" "activeTurnId (durable rt) = map_option at_turnId (ad_active ad0)"
    using sync up by (simp_all add: sync_inv_def in_sync_def durable_def active_id_def)
  show ?thesis
  proof (cases res)
    case (AdStarted t)
    then obtain a where a: "ad_active ad0 = None" "ad_active (rt_admission rt) = Some a" "at_turnId a = t"
      using adm(1) by (auto simp: admitted_def)
    then have "rt_run rt = None"
      using stage calm by (auto simp: stage_ok_def settling_def active_id_def split: option.splits bool.splits)
    then show ?thesis
      using start_run_sync [OF base runs _ a(2,3)] run AdStarted
      by (simp add: after_turn_admission_def begin_run_def)
  next
    case (AdQueued q p d)
    then have active: "ad_active (rt_admission rt) = ad_active ad0" "ad_active ad0 \<noteq> None"
      using adm(1) by (auto simp: admitted_def)
    define rt1 where "rt1 = rt\<lparr>rt_admission := snd (dropExpired (re_now w 2) (rt_admission rt))\<rparr>"
    have base1: "base_ok C rt1" using base dropExpired_inv by (auto simp: base_ok_def rt1_def)
    have sync1: "sync_inv C rt1"
      using base1 runs stage active
      by (auto simp: sync_inv_def runs_ok_def in_sync_def stage_ok_def active_id_def durable_def rt1_def
          split: option.splits bool.splits)
    show ?thesis
    proof (cases "find (\<lambda>x. qe_queueId x = q) (ad_queue (rt_admission rt1))")
      case None
      then have "r = Inl (QueuedTurnGone q)" "rt' = rt1"
        using run AdQueued
        by (auto simp: after_turn_admission_def persistQueuedTurn_def look_def getSnapshot_def Let_def rt1_def)
      then show ?thesis using base1 by (simp add: rt1_def same_control_def)
    next
      case (Some x)
      then obtain d' where "commitAndPublish C w 0 [thread_input (TurnQueued d')] rt1 = (r, rt')"
        using run AdQueued
        by (auto simp: after_turn_admission_def persistQueuedTurn_def look_def getSnapshot_def Let_def rt1_def)
      note c = commit_store [OF this base1]
      then have "sync_inv C rt'" if "\<not> isl r"
        using sync1 that runs_grow [of rt1 rt']
        by (auto simp: sync_inv_def in_sync_def stage_ok_def active_id_def same_control_def input_effect_def
            thread_input_def split: option.splits bool.splits)
      then show ?thesis using c by (auto simp: rt1_def same_control_def)
    qed
  next
    case (AdSteered t i)
    then have quiet: "quiet ad0 (rt_admission rt)" using adm(1) by (simp add: admitted_def)
    have sync1: "sync_inv C rt" using sync_quiet [OF sync, of "rt_admission rt"] quiet adm(2) by simp
    have "commitAndPublish C w 0 (turn_input t (TurnSteered i input) # user_message t (re_id w 1) i input) rt
        = (r, rt')"
      using run AdSteered by (simp add: after_turn_admission_def)
    note c = commit_store [OF this base]
    then have "sync_inv C rt'" if "\<not> isl r"
      using sync1 that runs_grow [of rt rt']
      by (auto simp: sync_inv_def in_sync_def stage_ok_def active_id_def same_control_def input_effect_def
          thread_input_def turn_input_def item_input_def user_message_def split: option.splits bool.splits)
    then show ?thesis using c by (auto simp: same_control_def)
  next
    case (AdRejected reason)
    then have "quiet ad0 (rt_admission rt)" "r = Inr ()" "rt' = rt"
      using adm(1) run by (auto simp: admitted_def after_turn_admission_def)
    then show ?thesis using sync_quiet [OF sync, of "rt_admission rt"] adm(2) base by simp
  qed
qed

subsection \<open>Commands\<close>

lemma rollback_sync:
  assumes "sync_inv C rt" "before = snd (dropExpired now (rt_admission rt))"
    and "rt_store rt' = rt_store rt" "same_control rt rt'"
  shows "sync_inv C (snd (rollback C before e rt'))"
proof -
  have drop: "sync_inv C (rt\<lparr>rt_admission := before\<rparr>)" using sync_drop [OF assms(1)] assms(2) by simp
  then have "adm_inv (cf_limits C) before" by (simp add: sync_inv_def base_ok_def)
  moreover have "sync_inv C (rt'\<lparr>rt_admission := before\<rparr>) = sync_inv C (rt\<lparr>rt_admission := before\<rparr>)"
    using assms(3,4) by (intro sync_inv_cong) (auto simp: same_control_def)
  ultimately show ?thesis using drop by (simp add: rollback_restores)
qed

lemma settling_drop [simp]:
  "settling (rt\<lparr>rt_admission := snd (dropExpired now (rt_admission rt))\<rparr>) = settling rt"
  by (auto simp: settling_def active_id_def split: option.splits)

lemma settling_cong:
  "rt_run rt' = rt_run rt \<Longrightarrow> rt_admission rt' = rt_admission rt \<Longrightarrow> settling rt' = settling rt"
  unfolding settling_def active_id_def by (simp only:)

lemma after_interrupt_sync:
  assumes sync: "sync_inv C rt"
    and run: "after_interrupt C w reason res rt = (r, rt')"
  shows "(isl r \<longrightarrow> rt_store rt' = rt_store rt \<and> same_control rt rt') \<and> (\<not> isl r \<longrightarrow> sync_inv C rt')"
proof (cases res)
  case (InterruptRejected x)
  then show ?thesis using sync run by (auto simp: after_interrupt_def)
next
  case (InterruptRequested t intent again)
  have base: "base_ok C rt" using sync by (simp add: sync_inv_def)
  obtain p rt1 where com: "commitAndPublish C w 0 [turn_input t (TurnInterruptRequested intent
      (if truthy reason then reason else None))] rt = (p, rt1)" by fastforce
  note c = commit_store [OF com base]
  have "sync_inv C rt1" if "\<not> isl p"
    using sync c that runs_grow [of rt rt1]
    by (auto simp: sync_inv_def in_sync_def stage_ok_def active_id_def same_control_def input_effect_def
        thread_input_def turn_input_def split: option.splits bool.splits)
  moreover have "sync_inv C (abort_run x rt1) = sync_inv C rt1" for x
    by (rule sync_inv_cong) (simp_all add: abort_run_def same_control_def)
  ultimately show ?thesis
    using run com c sync InterruptRequested
    by (cases p) (auto simp: after_interrupt_def split: if_splits)
qed

text \<open>The four turn commands of the controller.\<close>

lemma admit_admitted:
  assumes "admit L c now i s = Some (x, s')"
  shows "case x of Inl e \<Rightarrow> quiet s s' | Inr (TurnAdmission res) \<Rightarrow> admitted res s s'
    | Inr (IntAdmission res) \<Rightarrow> quiet s s'"
proof -
  have turn: "case fst (lift_turn p) of Inl e \<Rightarrow> quiet s (snd p) | Inr (TurnAdmission res) \<Rightarrow> admitted res s (snd p)
      | Inr (IntAdmission res) \<Rightarrow> quiet s (snd p)"
    if "case fst p of Inl e \<Rightarrow> quiet s (snd p) | Inr res \<Rightarrow> admitted res s (snd p)" for p
    using that by (auto simp: lift_turn_def split: sum.splits)
  have adm: "case fst (admitTurn L r src now i s) of Inl e \<Rightarrow> quiet s (snd (admitTurn L r src now i s))
      | Inr res \<Rightarrow> admitted res s (snd (admitTurn L r src now i s))" for r src
    using admitTurn_admitted [of L r src now i s] by (cases "admitTurn L r src now i s") (simp split: sum.splits)
  have ste: "case fst (steer L input i s) of Inl e \<Rightarrow> quiet s (snd (steer L input i s))
      | Inr res \<Rightarrow> admitted res s (snd (steer L input i s))" for input
    using steer_admitted [of L input i s] steer_state [of L input i s]
    by (cases "steer L input i s") (auto split: sum.split)
  show ?thesis
  proof (cases c)
    case (CmdTurnStart input mode p)
    then show ?thesis
      using assms turn [OF adm] by (auto simp: start_turn_def lift_turn_def)
  next
    case (CmdTurnSteer input)
    then show ?thesis using assms turn [OF ste, of input] by (auto simp: lift_turn_def split: sum.splits command_admission.splits)
  next
    case (CmdTurnFollowUp input)
    then show ?thesis using assms turn [OF adm] by (auto simp: followUp_def lift_turn_def)
  next
    case (CmdTurnInterrupt reason)
    then show ?thesis
      using assms interrupt_quiet [of i s]
      by (cases "interrupt i s"; cases "fst (interrupt i s)") (auto simp: lift_int_def)
  qed (use assms in simp_all)
qed

lemma admit_inv: "admit L c now i s = Some (x, s') \<Longrightarrow> adm_inv L s \<Longrightarrow> adm_inv L s'"
  by (cases c) (auto simp: lift_turn_def lift_int_def start_turn_def followUp_def
      admitTurn_inv interrupt_inv)

lemma dispatch_sync:
  assumes sync: "sync_inv C rt" and calm: "\<not> settling rt"
  shows "sync_inv C (snd (dispatch C w c rt))"
proof (cases "rt_closed rt")
  case True
  then show ?thesis using sync by (simp add: dispatch_def)
next
  case False
  define ad0 where "ad0 = snd (dropExpired (re_now w 0) (rt_admission rt))"
  let ?rt = "rt\<lparr>rt_admission := ad0\<rparr>"
  have sync0: "sync_inv C ?rt" using sync_drop [OF sync] by (simp add: ad0_def)
  have inv0: "adm_inv (cf_limits C) ad0" using sync0 by (simp add: sync_inv_def base_ok_def)
  have look: "look (re_now w 0) rt = (ad0, ?rt)" by (simp add: look_def getSnapshot_def Let_def ad0_def)
  show ?thesis
  proof (cases "admit (cf_limits C) c (re_now w 1) (re_id w 0) ad0")
    case None
    then show ?thesis using False look sync0 by (simp add: dispatch_def)
  next
    case (Some p)
    obtain x ad where p: "p = (x, ad)" by fastforce
    have ad: "adm_inv (cf_limits C) ad" using admit_inv Some p inv0 by blast
    note spec = admit_admitted [OF Some [unfolded p]]
    show ?thesis
    proof (cases x)
      case (Inl e)
      then have "sync_inv C (?rt\<lparr>rt_admission := ad\<rparr>)" using sync_quiet [OF sync0, of ad] spec ad by simp
      then show ?thesis using False look Some p Inl by (simp add: dispatch_def)
    next
      case (Inr res)
      let ?rt1 = "?rt\<lparr>rt_admission := ad\<rparr>"
      define q where "q = (case res of
          TurnAdmission a \<Rightarrow> after_turn_admission C w (command_input c) a ?rt1
        | IntAdmission a \<Rightarrow> after_interrupt C w (command_reason c) a ?rt1)"
      obtain r rt' where q: "q = (r, rt')" by fastforce
      have dispatch: "snd (dispatch C w c rt) = (case r of
          Inl e \<Rightarrow> snd (rollback C ad0 e rt' :: command_admission runtime_result) | Inr _ \<Rightarrow> rt')"
        using False look Some p Inr q unfolding q_def
        by (simp add: dispatch_def split: sum.split)
      have "(isl r \<longrightarrow> rt_store rt' = rt_store rt \<and> same_control rt rt') \<and> (\<not> isl r \<longrightarrow> sync_inv C rt')"
      proof (cases res)
        case (TurnAdmission a)
        have "after_turn_admission C w (command_input c) a ?rt1 = (r, rt')"
          using q TurnAdmission by (simp add: q_def)
        moreover have "admitted a ad0 ad" using spec Inr TurnAdmission by simp
        ultimately show ?thesis
          using after_turn_admission_sync [of C ad0 ?rt1 a] sync0 False calm ad
          by (auto simp: same_control_def ad0_def)
      next
        case (IntAdmission a)
        have "after_interrupt C w (command_reason c) a ?rt1 = (r, rt')"
          using q IntAdmission by (simp add: q_def)
        moreover have "sync_inv C ?rt1" using sync_quiet [OF sync0, of ad] spec Inr IntAdmission ad by simp
        ultimately show ?thesis
          using after_interrupt_sync [of C ?rt1] by (auto simp: same_control_def)
      qed
      then show ?thesis
        unfolding dispatch using rollback_sync [OF sync ad0_def] by (auto split: sum.split)
    qed
  qed
qed

text \<open>The internal entries; the request tables do not matter for the invariant.\<close>

lemma entry_sync:
  assumes sync: "sync_inv C rt" and up: "\<not> rt_closed rt" and calm: "\<not> settling rt"
    and ad0: "ad0 = snd (dropExpired now (rt_admission rt))"
    and start: "start_turn (cf_limits C) req now' i ad0 = (x, ad)"
    and rt1: "rt_store rt1 = rt_store rt" "same_control rt rt1" "rt_admission rt1 = ad"
  shows "case x of Inl e \<Rightarrow> sync_inv C rt1
    | Inr a \<Rightarrow> (\<forall>r rt'. after_turn_admission C w input a rt1 = (r, rt') \<longrightarrow>
        (isl r \<longrightarrow> rt_store rt' = rt_store rt \<and> same_control rt rt') \<and> (\<not> isl r \<longrightarrow> sync_inv C rt'))"
proof -
  have "sync_inv C (rt1\<lparr>rt_admission := ad0\<rparr>) = sync_inv C (rt\<lparr>rt_admission := ad0\<rparr>)"
    using rt1(1,2) by (intro sync_inv_cong) (simp_all add: same_control_def)
  then have sync0: "sync_inv C (rt1\<lparr>rt_admission := ad0\<rparr>)"
    unfolding ad0 using sync_drop [OF sync] by blast
  have ad: "adm_inv (cf_limits C) ad"
    using admitTurn_inv [of "cf_limits C" ad0 req SourceStart now' i] start sync0
    by (simp add: start_turn_def sync_inv_def base_ok_def)
  have spec: "case x of Inl e \<Rightarrow> quiet ad0 ad | Inr res \<Rightarrow> admitted res ad0 ad"
    using admitTurn_admitted [of "cf_limits C" req SourceStart now' i ad0 x ad] start
    by (simp add: start_turn_def)
  show ?thesis
  proof (cases x)
    case (Inl e)
    have "rt1\<lparr>rt_admission := ad0, rt_admission := ad\<rparr> = rt1" using rt1(3) by (cases rt1) simp
    moreover have "sync_inv C (rt1\<lparr>rt_admission := ad0, rt_admission := ad\<rparr>)"
      using spec ad Inl by (intro sync_quiet [OF sync0]) simp_all
    ultimately show ?thesis using Inl by simp
  next
    case (Inr a)
    have run0: "rt_run rt1 = rt_run rt" "rt_closed rt1 = rt_closed rt"
      using rt1(2) by (simp_all add: same_control_def)
    have "settling (rt1\<lparr>rt_admission := ad0\<rparr>) = settling (rt\<lparr>rt_admission := ad0\<rparr>)"
      by (rule settling_cong) (simp_all add: run0)
    also have "\<dots> = settling rt" unfolding ad0 by (rule settling_drop)
    finally have calm1: "\<not> settling (rt1\<lparr>rt_admission := ad0\<rparr>)" using calm by blast
    have up1: "\<not> rt_closed rt1" using up run0 by simp
    have adm1: "admitted a ad0 (rt_admission rt1)" "adm_inv (cf_limits C) (rt_admission rt1)"
      using spec ad Inr rt1(3) by simp_all
    have "(isl r \<longrightarrow> rt_store rt' = rt_store rt \<and> same_control rt rt') \<and> (\<not> isl r \<longrightarrow> sync_inv C rt')"
      if run: "after_turn_admission C w input a rt1 = (r, rt')" for r rt'
      using after_turn_admission_sync [OF sync0 up1 calm1 adm1 run] rt1(1,2)
      by (simp add: same_control_def)
    then show ?thesis unfolding Inr sum.case by blast
  qed
qed

text \<open>A transaction: what an admitted turn makes durable, or the controller rolled back; the tables
  may be cleared before the rollback.\<close>

lemma transaction_sync:
  assumes sync: "sync_inv C rt" and up: "\<not> rt_closed rt" and calm: "\<not> settling rt"
    and ad0: "ad0 = snd (dropExpired now (rt_admission rt))"
    and start: "start_turn (cf_limits C) req now' i ad0 = (Inr a, ad)"
    and rt1: "rt_store rt1 = rt_store rt" "same_control rt rt1" "rt_admission rt1 = ad"
    and body: "after_turn_admission C w input a rt1 = (r, rt')"
    and rt2: "rt_store rt2 = rt_store rt'" "same_control rt' rt2"
  shows "sync_inv C (case r of Inl e \<Rightarrow> snd (rollback C ad0 e rt2 :: 'a runtime_result) | Inr _ \<Rightarrow> rt')"
proof -
  have "(isl r \<longrightarrow> rt_store rt' = rt_store rt \<and> same_control rt rt') \<and> (\<not> isl r \<longrightarrow> sync_inv C rt')"
    using entry_sync [OF sync up calm ad0 start rt1, unfolded sum.case, rule_format, OF body] .
  then show ?thesis
    using rollback_sync [OF sync ad0, of rt2] rt2 by (auto simp: same_control_def split: sum.split)
qed

lemma refused_sync:
  assumes sync: "sync_inv C rt" and up: "\<not> rt_closed rt" and calm: "\<not> settling rt"
    and ad0: "ad0 = snd (dropExpired now (rt_admission rt))"
    and start: "start_turn (cf_limits C) req now' i ad0 = (Inl e, ad)"
  shows "sync_inv C (rt\<lparr>rt_admission := ad\<rparr>)"
  using entry_sync [OF sync up calm ad0 start, of "rt\<lparr>rt_admission := ad\<rparr>"] by (simp add: same_control_def)

lemma look_drop:
  "ad0 = snd (dropExpired now (rt_admission rt)) \<Longrightarrow> look now rt = (ad0, rt\<lparr>rt_admission := ad0\<rparr>)"
  by (simp add: look_def getSnapshot_def Let_def)

lemma start_internal_sync:
  assumes sync: "sync_inv C rt" and calm: "\<not> settling rt"
  shows "sync_inv C (snd (start_internal C w req rt))"
proof (cases "rt_closed rt")
  case False
  define ad0 where "ad0 = snd (dropExpired (re_now w 0) (rt_admission rt))"
  obtain x ad where st: "start_turn (cf_limits C) req (re_now w 1) (re_id w 0) ad0 = (x, ad)" by fastforce
  note look = look_drop [OF ad0_def]
  show ?thesis
  proof (cases x)
    case (Inl e)
    then show ?thesis
      using refused_sync [OF sync False calm ad0_def] look st False by (simp add: start_internal_def)
  next
    case (Inr a)
    obtain r rt' where body: "after_turn_admission C w [] a (rt\<lparr>rt_admission := ad\<rparr>) = (r, rt')"
      by fastforce
    have "snd (start_internal C w req rt) = (case r of
        Inl e \<Rightarrow> snd (rollback C ad0 e rt' :: turn_admission runtime_result) | Inr _ \<Rightarrow> rt')"
      using look st False Inr body by (simp add: start_internal_def split: sum.split)
    then show ?thesis
      by (simp only:) (rule transaction_sync [OF sync False calm ad0_def st [unfolded Inr] _ _ _ body],
        simp_all add: same_control_def)
  qed
qed (use sync in \<open>simp add: start_internal_def\<close>)

lemma startGoalContinuation_sync:
  "sync_inv C rt \<Longrightarrow> \<not> settling rt \<Longrightarrow> sync_inv C (snd (startGoalContinuation C w req rt))"
  by (simp add: startGoalContinuation_def start_internal_sync)

lemma startMaintenance_sync:
  "sync_inv C rt \<Longrightarrow> \<not> settling rt \<Longrightarrow> sync_inv C (snd (startMaintenance C w input rt))"
  by (simp add: startMaintenance_def start_internal_sync)

lemma startGoalControl_sync:
  assumes sync: "sync_inv C rt" and calm: "\<not> settling rt"
  shows "sync_inv C (snd (startGoalControl C w input rt))"
proof (cases "rt_closed rt")
  case False
  define ad0 where "ad0 = snd (dropExpired (re_now w 0) (rt_admission rt))"
  obtain x ad where st: "start_turn (cf_limits C) (maintenance_request input) (re_now w 1) (re_id w 0) ad0
      = (x, ad)" by fastforce
  note look = look_drop [OF ad0_def]
  show ?thesis
  proof (cases x)
    case (Inl e)
    then show ?thesis
      using refused_sync [OF sync False calm ad0_def] look st False by (simp add: startGoalControl_def)
  next
    case (Inr a)
    define rt1 where "rt1 = (case a of
        AdStarted t \<Rightarrow> rt\<lparr>rt_admission := ad, rt_goalControls := t # rt_goalControls rt\<rparr>
      | AdQueued q _ _ \<Rightarrow> rt\<lparr>rt_admission := ad, rt_queuedControls := q # rt_queuedControls rt\<rparr>
      | _ \<Rightarrow> rt\<lparr>rt_admission := ad\<rparr>)"
    have rt1: "rt_store rt1 = rt_store rt" "same_control rt rt1" "rt_admission rt1 = ad"
      by (simp_all add: rt1_def same_control_def split: turn_admission.split)
    obtain r rt' where body: "after_turn_admission C w [] a rt1 = (r, rt')" by fastforce
    define rt2 where "rt2 = (case a of
        AdStarted t \<Rightarrow> rt'\<lparr>rt_goalControls := removeAll t (rt_goalControls rt')\<rparr>
      | AdQueued q _ _ \<Rightarrow> rt'\<lparr>rt_queuedControls := removeAll q (rt_queuedControls rt')\<rparr>
      | _ \<Rightarrow> rt')"
    have rt2: "rt_store rt2 = rt_store rt'" "same_control rt' rt2"
      by (simp_all add: rt2_def same_control_def split: turn_admission.split)
    have "snd (startGoalControl C w input rt) = (case r of
        Inl e \<Rightarrow> snd (rollback C ad0 e rt2 :: turn_admission runtime_result) | Inr _ \<Rightarrow> rt')"
      using look st False Inr body
      by (cases a; cases r) (simp_all add: startGoalControl_def rt1_def rt2_def)
    then show ?thesis
      by (simp only:) (rule transaction_sync [OF sync False calm ad0_def st [unfolded Inr] rt1 body rt2])
  qed
qed (use sync in \<open>simp add: startGoalControl_def\<close>)

text \<open>An explicit compaction is admitted only when nothing is active or queued.\<close>

lemma compact_started_sync:
  assumes sync: "sync_inv C rt" and up: "\<not> rt_closed rt" and calm: "\<not> settling rt"
    and ad0: "ad0 = snd (dropExpired now (rt_admission rt))"
    and start: "start_turn (cf_limits C) req now' i ad0 = (Inr (AdStarted t), ad)"
    and body: "begin_run C w t (rt\<lparr>rt_admission := ad, rt_compact := t # rt_compact rt\<rparr>) = (r, rt')"
  shows "sync_inv C (case r of Inl e \<Rightarrow> snd (rollback C ad0 e
      (rt'\<lparr>rt_compact := removeAll t (rt_compact rt')\<rparr>) :: 'a runtime_result) | Inr _ \<Rightarrow> rt')"
proof -
  have "after_turn_admission C w [] (AdStarted t) (rt\<lparr>rt_admission := ad, rt_compact := t # rt_compact rt\<rparr>)
      = (r, rt')"
    using body by (simp add: after_turn_admission_def)
  then show ?thesis
    by (intro transaction_sync [OF sync up calm ad0 start]) (simp_all add: same_control_def)
qed

lemma startCompactMaintenance_sync:
  assumes sync: "sync_inv C rt" and calm: "\<not> settling rt"
  shows "sync_inv C (snd (startCompactMaintenance C w input rt))"
proof (cases "rt_closed rt \<or> \<not> cf_maintenanceRunner C")
  case True
  then show ?thesis using sync by (auto simp: startCompactMaintenance_def)
next
  case False
  then have up: "\<not> rt_closed rt" by simp
  define ad0 where "ad0 = snd (dropExpired (re_now w 0) (rt_admission rt))"
  note look = look_drop [OF ad0_def]
  have sync0: "sync_inv C (rt\<lparr>rt_admission := ad0\<rparr>)" using sync_drop [OF sync] by (simp add: ad0_def)
  obtain x ad where st: "start_turn (cf_limits C) (maintenance_request input) (re_now w 1) (re_id w 0) ad0
      = (x, ad)" by fastforce
  show ?thesis
  proof (cases "ad_active ad0 = None \<and> ad_queue ad0 = []")
    case busy: False
    then show ?thesis using False look sync0 by (auto simp: startCompactMaintenance_def)
  next
    case idle: True
    consider (refused) e where "x = Inl e" | (started) t where "x = Inr (AdStarted t)"
      | (other) a where "x = Inr a" "\<forall>t. a \<noteq> AdStarted t"
      by (cases x) blast+
    then show ?thesis
    proof cases
      case refused
      then show ?thesis
        using refused_sync [OF sync up calm ad0_def] look st False idle
        by (simp add: startCompactMaintenance_def)
    next
      case started
      obtain r rt' where body: "begin_run C w t (rt\<lparr>rt_admission := ad, rt_compact := t # rt_compact rt\<rparr>)
          = (r, rt')" by fastforce
      have "snd (startCompactMaintenance C w input rt) = (case r of
          Inl e \<Rightarrow> snd (rollback C ad0 e (rt'\<lparr>rt_compact := removeAll t (rt_compact rt')\<rparr>)
            :: turn_admission runtime_result) | Inr _ \<Rightarrow> rt')"
        using look st False idle started body by (cases r) (simp_all add: startCompactMaintenance_def)
      then show ?thesis
        by (simp only:) (rule compact_started_sync [OF sync up calm ad0_def st [unfolded started] body])
    next
      case other
      have "admitted a ad0 ad" "adm_inv (cf_limits C) ad"
        using admitTurn_admitted [of "cf_limits C" "maintenance_request input" SourceStart "re_now w 1"
            "re_id w 0" ad0 x ad] admitTurn_inv [of "cf_limits C" ad0 "maintenance_request input"
            SourceStart "re_now w 1" "re_id w 0"] st other sync0
        by (simp_all add: start_turn_def sync_inv_def base_ok_def)
      then have "sync_inv C (rt\<lparr>rt_admission := ad\<rparr>)"
        using sync_quiet [OF sync0, of ad] idle other(2)
        by (auto simp: admitted_def split: turn_admission.splits)
      then show ?thesis
        using look st False idle other
        by (auto simp: startCompactMaintenance_def split: turn_admission.splits)
    qed
  qed
qed

subsection \<open>The end of a turn\<close>

text \<open>A step that leaves the controller alone and loses no turn of the log.\<close>

definition store_step_ok :: "runtime_config \<Rightarrow> thread_runtime \<Rightarrow> thread_runtime \<Rightarrow> bool" where
  "store_step_ok C rt rt' \<longleftrightarrow> base_ok C rt' \<and> same_control rt rt' \<and> rt_admission rt' = rt_admission rt
     \<and> known_turns (durable rt) \<subseteq> known_turns (durable rt')"

lemma store_step_refl: "base_ok C rt \<Longrightarrow> store_step_ok C rt rt"
  by (simp add: store_step_ok_def)

lemma store_step_trans:
  "store_step_ok C rt rt' \<Longrightarrow> store_step_ok C rt' rt'' \<Longrightarrow> store_step_ok C rt rt''"
  by (auto simp: store_step_ok_def same_control_def)

lemma publishTerminal_idle:
  assumes "publishTerminal C w a o1 rt = (r, rt')" "base_ok C rt"
  shows "store_step_ok C rt rt' \<and> (\<not> isl r \<longrightarrow> activeTurnId (durable rt') = None)"
proof -
  have terminal: "input_effect (turn_input t (terminal_event o1)) cur = None" for t cur
    by (cases o1) (simp_all add: input_effect_def turn_input_def thread_input_def terminal_event_def)
  obtain p rt1 where p: "(case check_commit C a o1 rt of Some e \<Rightarrow> (Inl e, rt)
      | None \<Rightarrow> commitAndPublish C w 0 [turn_input (at_turnId a) (terminal_event o1)] rt) = (p, rt1)"
    by fastforce
  have rt1: "store_step_ok C rt rt1 \<and> (\<not> isl p \<longrightarrow> activeTurnId (durable rt1) = None)"
    using p assms(2) commit_store [of C w 0 "[turn_input (at_turnId a) (terminal_event o1)]" rt p rt1]
    by (auto simp: store_step_ok_def terminal split: option.splits)
  obtain q rt2 where q: "recover_store C w 1 (js ''turn_finished_with_uncommitted_items'') rt1 = (q, rt2)"
    by fastforce
  have "store_step_ok C rt1 rt2 \<and> (\<not> isl q \<longrightarrow> activeTurnId (durable rt2) = None)"
    using recover_idle [OF q] rt1 by (simp add: store_step_ok_def)
  then show ?thesis
    using assms(1) p q rt1 store_step_trans
    by (cases p; cases q) (auto simp: publishTerminal_def)
qed

lemma decide_followers_frame:
  assumes "decide_followers a o1 pub cb rt = (m, c, rt')"
  shows "rt_store rt' = rt_store rt \<and> rt_admission rt' = rt_admission rt \<and> same_control rt rt'"
  using assms by (auto simp: decide_followers_def Let_def same_control_def split: if_splits)

lemma expire_queued_kept:
  "expire_queued C w k qs rt = (r, rt') \<Longrightarrow> base_ok C rt \<Longrightarrow>
   store_step_ok C rt rt' \<and> (\<not> isl r \<longrightarrow> activeTurnId (durable rt') = activeTurnId (durable rt))"
proof (induction qs arbitrary: k rt)
  case Nil
  then show ?case by (simp add: store_step_refl)
next
  case (Cons q qs)
  let ?rt = "rejectQueuedGoalControl q DeadlineExpired rt"
  have frame: "store_step_ok C rt ?rt \<and> durable ?rt = durable rt"
    using Cons.prems(2)
    by (simp add: rejectQueuedGoalControl_def store_step_ok_def base_ok_def same_control_def durable_def)
  obtain p rt1 where p: "commitAndPublish C w k [thread_input (TurnQueueExpired q)] ?rt = (p, rt1)"
    by fastforce
  have rt1: "store_step_ok C ?rt rt1 \<and> (\<not> isl p \<longrightarrow> activeTurnId (durable rt1) = activeTurnId (durable ?rt))"
    using commit_store [OF p] frame
    by (auto simp: store_step_ok_def input_effect_def thread_input_def)
  have step: "store_step_ok C rt rt1" using store_step_trans frame rt1 by blast
  show ?case
  proof (cases p)
    case (Inl e)
    then show ?thesis using Cons.prems(1) p step by auto
  next
    case (Inr u)
    then have "expire_queued C w (Suc k) qs rt1 = (r, rt')" using Cons.prems(1) p by simp
    moreover have "base_ok C rt1" using step by (simp add: store_step_ok_def)
    ultimately have "store_step_ok C rt1 rt'
        \<and> (\<not> isl r \<longrightarrow> activeTurnId (durable rt') = activeTurnId (durable rt1))"
      by (rule Cons.IH)
    then show ?thesis using store_step_trans [OF step] rt1 frame Inr by simp
  qed
qed

lemma startNextQueued_spec:
  assumes "startNextQueued now now' i s = (x, s')"
  shows "case x of Inr (FinStarted t q xs) \<Rightarrow> \<exists>a. ad_active s' = Some a \<and> at_turnId a = t
    | Inr (FinIdle xs) \<Rightarrow> ad_active s' = None \<and> ad_queue s' = []
    | _ \<Rightarrow> True"
proof (cases "ad_active s")
  case (Some a)
  then show ?thesis using assms by (auto simp: startNextQueued_def)
next
  case None
  let ?s = "snd (dropExpired now s)"
  show ?thesis
  proof (cases "ad_queue ?s")
    case Nil
    then show ?thesis using assms None by (auto simp: startNextQueued_def Let_def case_prod_unfold)
  next
    case (Cons e es)
    show ?thesis
      by (cases "qe_input e" "qe_mode e" "qe_kind e" now' i
            "?s\<lparr>ad_queue := es, ad_bytes := ad_bytes ?s - qe_inputBytes e\<rparr>" rule: begin_turn_cases)
         (use assms None Cons in \<open>auto simp: startNextQueued_def Let_def case_prod_unfold\<close>)
  qed
qed

lemma finishAndStartPriority_spec:
  assumes "finishAndStartPriority L t input d now i s = (x, s')"
  shows "case x of Inr (FinStarted u q xs) \<Rightarrow> \<exists>a. ad_active s' = Some a \<and> at_turnId a = u
    | Inr (FinIdle xs) \<Rightarrow> False | _ \<Rightarrow> True"
proof -
  define s1 where "s1 = snd (dropExpired now (s\<lparr>ad_active := None\<rparr>))"
  consider e where "x = Inl e" | reason where "x = Inr (FinRejected reason)"
    | "(case begin_turn input ModeMaintenance KindMaintenance now i s1 of
         (Inl e, s') \<Rightarrow> (Inl e, s')
       | (Inr t', s') \<Rightarrow> (Inr (FinStarted t' None (fst (dropExpired now (s\<lparr>ad_active := None\<rparr>)))), s'))
       = (x, s')"
    using assms unfolding finishAndStartPriority_def s1_def Let_def case_prod_unfold
    by (metis (no_types, lifting) prod.inject)
  then show ?thesis
  proof cases
    case 3
    then show ?thesis
      by (cases input ModeMaintenance KindMaintenance now i s1 rule: begin_turn_cases) auto
  qed simp_all
qed

lemma finish_admission_spec:
  assumes "finish_admission C w a m s = (x, s')" "adm_inv (cf_limits C) s"
  shows "adm_inv (cf_limits C) s' \<and> (case x of
      Inr (FinStarted t q xs) \<Rightarrow> \<exists>a. ad_active s' = Some a \<and> at_turnId a = t
    | Inr (FinIdle xs) \<Rightarrow> ad_active s' = None \<and> ad_queue s' = []
    | _ \<Rightarrow> True)"
proof (cases m)
  case None
  then have fin: "finish (at_turnId a) (re_now w 0) (re_now w 1) (re_id w 0) s = (x, s')"
    using assms(1) by (simp add: finish_admission_def)
  have inv: "adm_inv (cf_limits C) s'"
    using finish_inv [OF assms(2), of "at_turnId a" "re_now w 0" "re_now w 1" "re_id w 0"] fin by simp
  show ?thesis
  proof (cases "active_is s (at_turnId a)")
    case True
    then have "startNextQueued (re_now w 0) (re_now w 1) (re_id w 0) (s\<lparr>ad_active := None\<rparr>) = (x, s')"
      using fin by (simp add: finish_def)
    from startNextQueued_spec [OF this] inv show ?thesis by simp
  next
    case False
    then show ?thesis using fin inv by (auto simp: finish_def)
  qed
next
  case (Some source)
  let ?in = "js ''compact:'' @ source"
  have fin: "finishAndStartPriority (cf_limits C) (at_turnId a) ?in None (re_now w 0) (re_id w 0) s = (x, s')"
    using assms(1) Some by (simp add: finish_admission_def)
  have "adm_inv (cf_limits C) s'"
    using finishAndStartPriority_inv [OF assms(2), of "at_turnId a" ?in None "re_now w 0" "re_id w 0"] fin
    by simp
  then show ?thesis
    using finishAndStartPriority_spec [OF fin] by (cases x) (auto split: turn_finish.splits)
qed

text \<open>After a turn has ended the next one, if any, is durable and was not run yet; with none, nothing
  is queued.\<close>

definition handed_over :: "thread_runtime \<Rightarrow> bool" where
  "handed_over rt \<longleftrightarrow> activeTurnId (durable rt) = active_id rt
     \<and> (case active_id rt of None \<Rightarrow> ad_queue (rt_admission rt) = []
        | Some t \<Rightarrow> t \<notin> set (map fst (rt_runs rt)))"

lemma start_persisted:
  assumes base: "base_ok C rt" and runs: "runs_ok rt"
    and active: "ad_active (rt_admission rt) = Some a0" "at_turnId a0 = t"
    and run: "(case requiredActiveTurn now t rt of (Inl e, rt1) \<Rightarrow> (Inl e, rt1)
      | (Inr a, rt1) \<Rightarrow> persistTurnStart C w k i a q rt1) = (r, rt')"
  shows "base_ok C rt' \<and> same_control rt rt' \<and> runs_ok rt' \<and> (\<not> isl r \<longrightarrow> handed_over rt'
    \<and> (\<exists>a. ad_active (rt_admission rt') = Some a \<and> at_turnId a = t))"
proof -
  obtain x rt1 where req: "requiredActiveTurn now t rt = (x, rt1)" by fastforce
  have x: "x = Inr a0"
    using req active by (auto simp: requiredActiveTurn_def look_def getSnapshot_def Let_def)
  have rt1: "rt1 = rt\<lparr>rt_admission := snd (dropExpired now (rt_admission rt))\<rparr>"
    using required_spec [OF req] by blast
  have base1: "base_ok C rt1" using base dropExpired_inv by (auto simp: base_ok_def rt1)
  have runs1: "runs_ok rt1" using runs by (simp add: runs_ok_def durable_def rt1)
  have per: "persistTurnStart C w k i a0 q rt1 = (r, rt')" using run req x by simp
  note p = persist_start [OF per base1]
  have runs': "runs_ok rt'" by (rule runs_grow [OF runs1]) (use p in auto)
  have "handed_over rt'" if "\<not> isl r"
    using p that active runs1 by (auto simp: handed_over_def active_id_def rt1 runs_ok_def same_control_def)
  then show ?thesis using p runs' active by (auto simp: rt1 same_control_def)
qed

lemma start_follower_handed:
  assumes base: "base_ok C rt" and runs: "runs_ok rt" and idle: "activeTurnId (durable rt) = None"
    and f: "case f of FinStarted t q xs \<Rightarrow> \<exists>a. ad_active (rt_admission rt) = Some a \<and> at_turnId a = t
      | FinIdle xs \<Rightarrow> ad_active (rt_admission rt) = None \<and> ad_queue (rt_admission rt) = []
      | FinRejected reason \<Rightarrow> False"
    and run: "start_follower C w k m c f rt = (r, rt')"
  shows "base_ok C rt' \<and> same_control rt rt' \<and> runs_ok rt' \<and> (\<not> isl r \<longrightarrow> handed_over rt')"
proof (cases f)
  case (FinStarted t q xs)
  define rt1 where "rt1 = promoteQueuedGoalControl t q
    (if m \<noteq> None then rt\<lparr>rt_compact := t # rt_compact rt\<rparr> else rt)"
  have rt1: "base_ok C rt1" "runs_ok rt1" "same_control rt rt1" "rt_admission rt1 = rt_admission rt"
    using base runs
    by (simp_all add: rt1_def promoteQueuedGoalControl_def base_ok_def runs_ok_def same_control_def durable_def)
  obtain a0 where a0: "ad_active (rt_admission rt1) = Some a0" "at_turnId a0 = t"
    using f FinStarted rt1(4) by auto
  have "(case requiredActiveTurn (re_now w 2) t rt1 of (Inl e, rt2) \<Rightarrow> (Inl e, rt2)
      | (Inr next, rt2) \<Rightarrow> persistTurnStart C w k 1 next q rt2) = (r, rt')"
    using run FinStarted by (simp add: start_follower_def rt1_def Let_def)
  from start_persisted [OF rt1(1,2) a0 this] rt1(3) show ?thesis by (auto simp: same_control_def)
next
  case (FinIdle xs)
  have none: "handed_over rt" using idle f FinIdle by (simp add: handed_over_def active_id_def)
  show ?thesis
  proof (cases "rt_closed rt \<or> c = None")
    case True
    then have "r = Inr () \<and> rt' = rt"
      using run FinIdle by (cases "rt_closed rt") (auto simp: start_follower_def)
    then show ?thesis using base runs none by simp
  next
    case False
    then obtain req where req: "c = Some req" "\<not> rt_closed rt" by blast
    obtain x ad where st: "start_turn (cf_limits C) req (re_now w 2) (re_id w 0) (rt_admission rt) = (x, ad)"
      by fastforce
    have ad: "adm_inv (cf_limits C) ad"
      using admitTurn_inv [of "cf_limits C" "rt_admission rt" req SourceStart "re_now w 2" "re_id w 0"] st base
      by (simp add: start_turn_def base_ok_def)
    let ?rt1 = "rt\<lparr>rt_admission := ad\<rparr>"
    have rt1: "base_ok C ?rt1" "runs_ok ?rt1" "same_control rt ?rt1"
      using base runs ad by (simp_all add: base_ok_def runs_ok_def durable_def same_control_def)
    consider (started) t where "x = Inr (AdStarted t)" | (other) "\<forall>t. x \<noteq> Inr (AdStarted t)" by blast
    then show ?thesis
    proof cases
      case started
      then obtain a0 where a0: "ad_active ad = Some a0" "at_turnId a0 = t"
        using admitTurn_admitted [of "cf_limits C" req SourceStart "re_now w 2" "re_id w 0" "rt_admission rt"] st
        by (auto simp: start_turn_def admitted_def)
      then have a1: "ad_active (rt_admission ?rt1) = Some a0" by simp
      have "(case requiredActiveTurn (re_now w 3) t ?rt1 of (Inl e, rt2) \<Rightarrow> (Inl e, rt2)
          | (Inr next, rt2) \<Rightarrow> persistTurnStart C w k 1 next None rt2) = (r, rt')"
        using run FinIdle req st started by (simp add: start_follower_def)
      from start_persisted [OF rt1(1,2) a1 a0(2) this] rt1(3) show ?thesis by (auto simp: same_control_def)
    next
      case other
      then have "isl r \<and> rt' = ?rt1"
        using run FinIdle req st
        by (auto simp: start_follower_def split: sum.splits turn_admission.splits)
      then show ?thesis using rt1 by simp
    qed
  qed
next
  case (FinRejected reason)
  then show ?thesis using f by simp
qed

lemma finalizeTurn_handed:
  assumes base: "base_ok C rt" and runs: "runs_ok rt"
    and run: "finalize_run C w cb a o1 rt = (r, rt')"
  shows "base_ok C rt' \<and> same_control rt rt' \<and> runs_ok rt' \<and> (\<not> isl r \<longrightarrow> handed_over rt')"
proof -
  obtain p rt1 where p: "publishTerminal C w a o1 rt = (p, rt1)" by fastforce
  note pub = publishTerminal_idle [OF p base]
  have rt1: "base_ok C rt1" "same_control rt rt1" "runs_ok rt1"
    using pub runs_grow [OF runs, of rt1] by (auto simp: store_step_ok_def)
  show ?thesis
  proof (cases p)
    case (Inl e)
    then show ?thesis using run p rt1 by (auto simp: finalize_run_def)
  next
    case (Inr published)
    obtain m c rt2 where d: "decide_followers a o1 published cb rt1 = (m, c, rt2)" by (metis prod_cases3)
    note fr = decide_followers_frame [OF d]
    obtain x ad where fin: "finish_admission C w a m (rt_admission rt2) = (x, ad)" by fastforce
    have inv2: "adm_inv (cf_limits C) (rt_admission rt2)" using rt1(1) fr by (simp add: base_ok_def)
    note spec = finish_admission_spec [OF fin inv2]
    define rt3 where "rt3 = rt2\<lparr>rt_admission := ad\<rparr>"
    have rt3: "base_ok C rt3" "same_control rt rt3" "runs_ok rt3" "rt_admission rt3 = ad"
        "activeTurnId (durable rt3) = None"
      using rt1 fr spec pub Inr
      by (auto simp: rt3_def base_ok_def same_control_def runs_ok_def durable_def)
    show ?thesis
    proof (cases "\<exists>f. x = Inr f \<and> (\<forall>reason. f \<noteq> FinRejected reason)")
      case False
      then have "isl r \<and> rt' = rt3"
        using run p Inr d fin by (auto simp: finalize_run_def rt3_def split: sum.splits turn_finish.splits)
      then show ?thesis using rt3 by simp
    next
      case True
      then obtain f where f: "x = Inr f" "\<forall>reason. f \<noteq> FinRejected reason" by blast
      obtain y rt4 where ex: "expire_queued C w 2 (expired_of f) rt3 = (y, rt4)" by fastforce
      note e = expire_queued_kept [OF ex rt3(1)]
      have rt4: "base_ok C rt4" "same_control rt rt4" "runs_ok rt4" "rt_admission rt4 = ad"
        using e rt3 runs_grow [OF rt3(3), of rt4] by (auto simp: store_step_ok_def same_control_def)
      have run': "(r, rt') = (case y of Inl e \<Rightarrow> (Inl e, rt4)
          | Inr _ \<Rightarrow> start_follower C w (2 + length (expired_of f)) m c f rt4)"
        using run p Inr d fin f ex
        by (cases f) (auto simp: finalize_run_def rt3_def split: sum.splits)
      show ?thesis
      proof (cases y)
        case (Inl e)
        then show ?thesis using run' rt4 by simp
      next
        case (Inr u)
        have "case f of FinStarted t q xs \<Rightarrow> \<exists>a. ad_active (rt_admission rt4) = Some a \<and> at_turnId a = t
          | FinIdle xs \<Rightarrow> ad_active (rt_admission rt4) = None \<and> ad_queue (rt_admission rt4) = []
          | FinRejected reason \<Rightarrow> False"
          using spec f rt4(4) by (cases f) auto
        moreover have "activeTurnId (durable rt4) = None" using e rt3(5) Inr by simp
        moreover have "start_follower C w (2 + length (expired_of f)) m c f rt4 = (r, rt')"
          using run' Inr by simp
        ultimately show ?thesis
          using start_follower_handed [OF rt4(1,3)] rt4(2) by (fastforce simp: same_control_def)
      qed
    qed
  qed
qed

lemma active_known:
  assumes "base_ok C rt" "activeTurnId (durable rt) = Some t"
  shows "t \<in> known_turns (durable rt)"
proof -
  obtain st d where head: "ts_head (rt_store rt) = (st, d)" by fastforce
  have "proj_inv st"
    using store_head(1) [OF _ head, of "cf_js C" "cf_digest C"] assms(1) by (simp add: base_ok_def)
  then have "active_ok st" by (simp add: proj_inv_def)
  moreover have "activeTurnId st = Some t" using assms(2) head by (simp add: durable_def)
  ultimately have "map_option tp_status (turn_of st t) = Some TsActive" unfolding active_ok_def by blast
  then show ?thesis using head by (auto simp: durable_def known_turns_def)
qed

lemma run_ends_sync:
  assumes sync: "sync_inv C rt" and run: "run_ends C w w' message cb result rt = (Inr u, rt')"
  shows "sync_inv C rt'"
proof (cases "\<exists>a. rt_run rt = Some (a, False)")
  case False
  then show ?thesis using assms by (auto simp: run_ends_def split: option.splits bool.splits)
next
  case True
  then obtain a where a: "rt_run rt = Some (a, False)" by blast
  have base: "base_ok C rt" "runs_ok rt" using sync by (simp_all add: sync_inv_def)
  have done': "sync_inv C (rt1\<lparr>rt_run := Some (a, True)\<rparr>)"
    if "base_ok C rt1" "runs_ok rt1" "handed_over rt1" for rt1
    using that by (auto simp: sync_inv_def base_ok_def runs_ok_def in_sync_def stage_ok_def handed_over_def
        active_id_def durable_def split: option.splits)
  show ?thesis
  proof (cases result)
    case (RunThrew m)
    then obtain rt1 where "finalize_run C w cb a (thrown_outcome (rt_abort rt) m) rt = (Inr (), rt1)"
        "rt' = rt1\<lparr>rt_run := Some (a, True)\<rparr>"
      using run a by (auto simp: run_ends_def Let_def split: prod.splits)
    then show ?thesis using finalizeTurn_handed [OF base] done' by fastforce
  next
    case (RunReturned o1)
    obtain p rt1 where p: "finalize_run C w cb a (normalizeOutcome (rt_abort rt) o1) rt = (p, rt1)"
      by fastforce
    note first = finalizeTurn_handed [OF base p]
    show ?thesis
    proof (cases p)
      case (Inr v)
      then have "rt' = rt1\<lparr>rt_run := Some (a, True)\<rparr>"
        using run a RunReturned p by (auto simp: run_ends_def Let_def)
      then show ?thesis using first Inr done' by simp
    next
      case (Inl e)
      then obtain rt2 where r2: "finalize_run C w' cb a (thrown_outcome (rt_abort rt1) message) rt1
          = (Inr (), rt2)" "rt' = rt2\<lparr>rt_run := Some (a, True)\<rparr>"
        using run a RunReturned p by (auto simp: run_ends_def Let_def split: prod.splits)
      then show ?thesis using finalizeTurn_handed [OF _ _ r2(1)] first done' by fastforce
    qed
  qed
qed

lemma startNextQueued_idle:
  "ad_active s = None \<Longrightarrow> startNextQueued now now' i s \<noteq> (Inr (FinRejected reason), s')"
  by (auto simp: startNextQueued_def Let_def case_prod_unfold split: list.splits sum.splits)

lemma promoteQueuedTurn_sync:
  assumes base: "base_ok C rt" and runs: "runs_ok rt" and up: "\<not> rt_closed rt"
    and idle: "rt_run rt = None" "ad_active (rt_admission rt) = None" "activeTurnId (durable rt) = None"
    and run: "promoteQueuedTurn C w rt = (Inr u, rt')"
  shows "sync_inv C rt'"
proof -
  define ad0 where "ad0 = snd (dropExpired (re_now w 1) (rt_admission rt))"
  have ad0: "adm_inv (cf_limits C) ad0" "ad_active ad0 = None"
    using base idle(2) dropExpired_inv by (auto simp: ad0_def base_ok_def)
  obtain x ad where next': "startNextQueued (re_now w 2) (re_now w 3) (re_id w 0) ad0 = (x, ad)" by fastforce
  note spec = startNextQueued_spec [OF next']
  have ad: "adm_inv (cf_limits C) ad"
    using startNextQueued_inv [OF ad0(1), of "re_now w 2" "re_now w 3" "re_id w 0"] next' by simp
  define rt1 where "rt1 = rt\<lparr>rt_admission := ad\<rparr>"
  have rt1: "base_ok C rt1" "same_control rt rt1" "runs_ok rt1" "durable rt1 = durable rt"
    using base runs ad by (simp_all add: rt1_def base_ok_def runs_ok_def same_control_def durable_def)
  have unfold: "promoteQueuedTurn C w rt = (case x of Inl e \<Rightarrow> (Inl (AdmissionThrew e), rt1)
      | Inr f \<Rightarrow> (case expire_queued C w 0 (expired_of f) rt1 of
          (Inl e, rt2) \<Rightarrow> (Inl e, rt2)
        | (Inr _, rt2) \<Rightarrow> (case f of FinStarted t q _ \<Rightarrow>
              start_run C w (re_now w 4) (length (expired_of f)) q t (promoteQueuedGoalControl t q rt2)
            | _ \<Rightarrow> (Inr (), rt2))))"
    using up idle ad0(2) look_drop [OF ad0_def] next' startNextQueued_idle [OF ad0(2)]
    by (auto simp: promoteQueuedTurn_def rt1_def split: sum.splits turn_finish.splits)
  then obtain f where f: "x = Inr f" using run by (cases x) auto
  obtain y rt2 where ex: "expire_queued C w 0 (expired_of f) rt1 = (y, rt2)" by fastforce
  then obtain v where y: "y = Inr v" using run unfold f by (cases y) auto
  note e = expire_queued_kept [OF ex rt1(1)]
  have rt2: "base_ok C rt2" "same_control rt rt2" "runs_ok rt2" "rt_admission rt2 = ad"
      "activeTurnId (durable rt2) = None"
    using e y rt1 idle(3) runs_grow [OF rt1(3), of rt2]
    by (auto simp: store_step_ok_def same_control_def rt1_def)
  show ?thesis
  proof (cases f)
    case (FinStarted t q xs)
    let ?rt = "promoteQueuedGoalControl t q rt2"
    have rt3: "base_ok C ?rt" "runs_ok ?rt" "rt_run ?rt = None" "rt_admission ?rt = ad"
      using rt2 idle(1)
      by (simp_all add: promoteQueuedGoalControl_def base_ok_def runs_ok_def same_control_def durable_def)
    obtain a0 where a0: "ad_active (rt_admission ?rt) = Some a0" "at_turnId a0 = t"
      using spec f FinStarted rt3(4) by auto
    have "start_run C w (re_now w 4) (length (expired_of f)) q t ?rt = (Inr u, rt')"
      using run unfold f ex y FinStarted by simp
    from start_run_sync [OF rt3(1-3) a0 this] show ?thesis by simp
  next
    case (FinIdle xs)
    then have "rt' = rt2" using run unfold f ex y by simp
    then show ?thesis
      using spec f FinIdle rt2 idle(1)
      by (simp add: sync_inv_def in_sync_def stage_ok_def active_id_def same_control_def)
  next
    case (FinRejected reason)
    then show ?thesis using next' f startNextQueued_idle [OF ad0(2)] by blast
  qed
qed

lemma next_run_sync:
  assumes sync: "sync_inv C rt" and run: "next_run C w rt = (Inr u, rt')"
  shows "sync_inv C rt'"
proof (cases "\<exists>a. rt_run rt = Some (a, True)")
  case False
  then show ?thesis using assms by (auto simp: next_run_def split: option.splits bool.splits)
next
  case True
  then obtain a where a: "rt_run rt = Some (a, True)" by blast
  define ad0 where "ad0 = snd (dropExpired (re_now w 0) (rt_admission rt))"
  define rt1 where "rt1 = rt\<lparr>rt_run := None, rt_abort := None,
    rt_compact := removeAll (at_turnId a) (rt_compact rt),
    rt_goalControls := removeAll (at_turnId a) (rt_goalControls rt), rt_admission := ad0\<rparr>"
  have inv: "adm_inv (cf_limits C) ad0"
    using sync dropExpired_inv by (auto simp: ad0_def sync_inv_def base_ok_def)
  have rt1: "base_ok C rt1" "runs_ok rt1" "durable rt1 = durable rt" "rt_run rt1 = None"
      "rt_closed rt1 = rt_closed rt" "rt_runs rt1 = rt_runs rt" "rt_admission rt1 = ad0"
    using sync inv by (simp_all add: rt1_def sync_inv_def base_ok_def runs_ok_def durable_def)
  have unfold: "next_run C w rt = (case ad_active ad0 of
      Some nx \<Rightarrow> if rt_closed rt then
          (case finish (at_turnId nx) (re_now w 1) (re_now w 2) (re_id w 0) ad0 of
             (Inl e, ad) \<Rightarrow> (Inl (AdmissionThrew e), rt1\<lparr>rt_admission := ad\<rparr>)
           | (Inr _, ad) \<Rightarrow> (Inr (), rt1\<lparr>rt_admission := ad\<rparr>))
        else scheduleTurn nx rt1
    | None \<Rightarrow> promoteQueuedTurn C w rt1)"
    using a unfolding rt1_def ad0_def
    by (cases "ad_active (rt_admission rt)"; cases "rt_closed rt")
      (simp_all add: next_run_def look_def getSnapshot_def Let_def)
  show ?thesis
  proof (cases "rt_closed rt")
    case closed: True
    show ?thesis
    proof (cases "ad_active ad0")
      case None
      then show ?thesis
        using run unfold closed rt1 by (simp add: promoteQueuedTurn_def sync_inv_def)
    next
      case (Some nx)
      obtain x ad where fin: "finish (at_turnId nx) (re_now w 1) (re_now w 2) (re_id w 0) ad0 = (x, ad)"
        by fastforce
      then have "adm_inv (cf_limits C) ad"
        using finish_inv [OF inv, of "at_turnId nx" "re_now w 1" "re_now w 2" "re_id w 0"] by simp
      moreover have "rt' = rt1\<lparr>rt_admission := ad\<rparr>"
        using run unfold closed Some fin by (cases x) auto
      ultimately show ?thesis
        using rt1 closed by (simp add: sync_inv_def base_ok_def runs_ok_def durable_def)
    qed
  next
    case up: False
    then have "in_sync rt" using sync by (simp add: sync_inv_def)
    then have hand: "activeTurnId (durable rt) = active_id rt"
        "case active_id rt of None \<Rightarrow> True | Some t \<Rightarrow> t \<notin> set (map fst (rt_runs rt))"
      using a by (auto simp: in_sync_def stage_ok_def split: option.splits)
    have same: "ad_active ad0 = ad_active (rt_admission rt)" by (simp add: ad0_def)
    show ?thesis
    proof (cases "ad_active ad0")
      case None
      then show ?thesis
        using promoteQueuedTurn_sync [OF rt1(1,2)] rt1 up hand same run unfold
        by (simp add: active_id_def)
    next
      case (Some nx)
      then have "rt' = rt1\<lparr>rt_run := Some (nx, False), rt_abort := None, rt_runs := rt_runs rt1
          @ [(at_turnId nx, if at_turnId nx \<in> set (rt_goalControls rt1) then GoalControlRunner
              else if at_turnId nx \<in> set (rt_compact rt1) then CompactRunner else TurnRunner)]\<rparr>"
        using run unfold up rt1(4) by (simp add: scheduleTurn_def)
      moreover have nx: "ad_active (rt_admission rt) = Some nx" using same Some by simp
      moreover have "at_turnId nx \<in> known_turns (durable rt1)"
        by (rule active_known [OF rt1(1)]) (simp add: rt1(3) hand(1) active_id_def nx)
      moreover have "at_turnId nx \<notin> fst ` set (rt_runs rt1)"
        using hand(2) nx rt1(6) by (simp add: active_id_def)
      moreover have "ad_active ad0 = Some nx" using nx by (simp add: ad0_def)
      ultimately show ?thesis
        using rt1 hand(1)
        by (auto simp: sync_inv_def base_ok_def runs_ok_def in_sync_def stage_ok_def active_id_def durable_def)
    qed
  qed
qed

lemma resolveIdleIfNeeded_sync:
  assumes "sync_inv C rt"
  shows "sync_inv C (resolveIdleIfNeeded now rt)"
proof (cases "rt_run rt = None")
  case False
  then show ?thesis using assms by (simp add: resolveIdleIfNeeded_def)
next
  case True
  define ad0 where "ad0 = snd (dropExpired now (rt_admission rt))"
  have ad0: "adm_inv (cf_limits C) ad0" "quiet (rt_admission rt) ad0"
    using assms dropExpired_inv by (auto simp: ad0_def sync_inv_def base_ok_def)
  have "resolveIdleIfNeeded now rt = rt\<lparr>rt_admission := ad0\<rparr>"
    using True look_drop [OF ad0_def] by (simp add: resolveIdleIfNeeded_def)
  then show ?thesis
    using assms ad0 True
    by (auto simp: sync_inv_def base_ok_def runs_ok_def durable_def in_sync_def stage_ok_def active_id_def
        quiet_def)
qed

lemma settle_run_sync:
  assumes "sync_inv C rt" "settle_run C w rt = (Inr u, rt')"
  shows "sync_inv C rt'"
  using assms next_run_sync [OF assms(1)] resolveIdleIfNeeded_sync
  by (auto simp: settle_run_def split: option.splits bool.splits sum.splits prod.splits)

lemma runner_append_sync:
  assumes sync: "sync_inv C rt"
  shows "sync_inv C (snd (runner_append C w xs rt))"
proof (cases "list_all (runner_event \<circ> ai_payload) xs")
  case False
  then show ?thesis using sync by (auto simp: runner_append_def)
next
  case True
  have "event_effect t p cur = cur" if "runner_event p" for t p cur
    using that by (cases p) (simp_all add: runner_event_def)
  then have kept: "fold input_effect xs cur = cur" for cur
    using True by (induction xs) (auto simp: input_effect_def)
  obtain r rt' where com: "commitAndPublish C w 0 xs rt = (r, rt')" by fastforce
  note c = commit_store [OF com] sync
  have "durable rt' = durable rt" if "isl r" using c that by (simp add: sync_inv_def durable_def)
  then have "activeTurnId (durable rt') = activeTurnId (durable rt)"
    using c kept by (cases "isl r") (auto simp: sync_inv_def)
  moreover have "stage_ok rt' = stage_ok rt" "active_id rt' = active_id rt"
    using c by (auto simp: sync_inv_def stage_ok_def active_id_def same_control_def
        split: option.splits bool.splits)
  moreover have "runs_ok rt'"
    by (rule runs_grow [of rt]) (use c in \<open>auto simp: sync_inv_def\<close>)
  ultimately show ?thesis
    using True com c by (auto simp: runner_append_def sync_inv_def in_sync_def same_control_def)
qed

lemma close_runtime_sync:
  "sync_inv C rt \<Longrightarrow> sync_inv C (close_runtime reason rt)"
  by (auto simp: close_runtime_def abort_run_def sync_inv_def base_ok_def runs_ok_def durable_def
      close_admission_inv)

subsection \<open>Runs of the runtime\<close>

datatype runtime_action =
    RtDispatch runtime_env runtime_command
  | RtMaintenance runtime_env jsstr
  | RtGoalContinuation runtime_env turn_request
  | RtGoalControl runtime_env jsstr
  | RtCompact runtime_env jsstr
  | RtAppend runtime_env "append_input list"
  | RtRunEnds runtime_env runtime_env jsstr "turn_request option" run_result
  | RtSettle runtime_env
  | RtClose jsstr

fun rt_do :: "runtime_config \<Rightarrow> runtime_action \<Rightarrow> thread_runtime \<Rightarrow> unit runtime_result" where
  "rt_do C (RtDispatch w c) rt = (let (r, rt') = dispatch C w c rt in (map_sum id (\<lambda>_. ()) r, rt'))"
| "rt_do C (RtMaintenance w i) rt = (let (r, rt') = startMaintenance C w i rt in (map_sum id (\<lambda>_. ()) r, rt'))"
| "rt_do C (RtGoalContinuation w q) rt =
     (let (r, rt') = startGoalContinuation C w q rt in (map_sum id (\<lambda>_. ()) r, rt'))"
| "rt_do C (RtGoalControl w i) rt = (let (r, rt') = startGoalControl C w i rt in (map_sum id (\<lambda>_. ()) r, rt'))"
| "rt_do C (RtCompact w i) rt =
     (let (r, rt') = startCompactMaintenance C w i rt in (map_sum id (\<lambda>_. ()) r, rt'))"
| "rt_do C (RtAppend w xs) rt = runner_append C w xs rt"
| "rt_do C (RtRunEnds w w' m cb res) rt = run_ends C w w' m cb res rt"
| "rt_do C (RtSettle w) rt = settle_run C w rt"
| "rt_do C (RtClose reason) rt = (Inr (), close_runtime reason rt)"

text \<open>A command of a caller, and a step of the run that ends a turn.\<close>

fun is_command :: "runtime_action \<Rightarrow> bool" where
  "is_command (RtDispatch _ _) = True"
| "is_command (RtMaintenance _ _) = True"
| "is_command (RtGoalContinuation _ _) = True"
| "is_command (RtGoalControl _ _) = True"
| "is_command (RtCompact _ _) = True"
| "is_command _ = False"

fun is_run_step :: "runtime_action \<Rightarrow> bool" where
  "is_run_step (RtRunEnds _ _ _ _ _) = True"
| "is_run_step (RtSettle _) = True"
| "is_run_step _ = False"

text \<open>The states a runtime reaches, from its construction and the promotion that follows it, when
  no command comes between the end of the last turn and its settlement and the runtime can write
  what ends a turn. Commands may fail in any way.\<close>

inductive rt_reach :: "runtime_config \<Rightarrow> thread_runtime \<Rightarrow> bool" for C where
  rt_open: "\<lbrakk>store_ok (cf_js C) (cf_digest C) s; limits_ok (cf_limits C); cf_recoverIncomplete C;
     new_runtime C w s = Inr rt; promoteQueuedTurn C w' rt = (Inr (), rt')\<rbrakk> \<Longrightarrow> rt_reach C rt'"
| rt_step: "\<lbrakk>rt_reach C rt; rt_do C a rt = (r, rt'); is_command a \<Longrightarrow> \<not> settling rt;
     is_run_step a \<Longrightarrow> \<not> isl r\<rbrakk> \<Longrightarrow> rt_reach C rt'"

inductive_cases rt_reachE: "rt_reach C rt"

lemma restored_queue_inv:
  assumes "restore L (queue_snapshot st) ad = (Inr u, ad')"
  shows "adm_inv L ad' \<and> ad_active ad' = None"
proof -
  have ad': "ad' = queue_snapshot st"
    using assms by (auto simp: restore_def queue_snapshot_def Let_def o_def split: if_splits)
  have "list_all (entry_ok L) (ad_queue (queue_snapshot st))"
    using assms by (auto simp: restore_def queue_snapshot_def entry_ok_def list_all_iff Let_def split: if_splits)
  moreover have "ad_mode (queue_snapshot st) \<noteq> ModeMaintenance"
    by (auto simp: queue_snapshot_def latestContinuationMode_def split: list.split)
  ultimately show ?thesis
    using assms ad' by (auto simp: adm_inv_def restore_def queue_snapshot_def Let_def o_def split: if_splits)
qed

lemma empty_log_idle:
  assumes "store_ok E D s" "cursor (fst (ts_head s)) = 0"
  shows "activeTurnId (fst (ts_head s)) = None"
proof -
  have "ts_events s = []" using store_seqs(2) [OF assms(1)] assms(2) by simp
  then show ?thesis
    using assms(1) by (cases "ts_head s")
      (auto simp: store_ok_def projectThreadEvents_def freezeProjection_def new_projection_def)
qed

lemma new_runtime_base:
  assumes "store_ok (cf_js C) (cf_digest C) s" "limits_ok (cf_limits C)" "cf_recoverIncomplete C"
    and "new_runtime C w s = Inr rt"
  shows "base_ok C rt \<and> runs_ok rt \<and> \<not> rt_closed rt \<and> rt_run rt = None
    \<and> ad_active (rt_admission rt) = None \<and> activeTurnId (durable rt) = None"
proof -
  define rt0 where "rt0 = \<lparr>rt_store = s, rt_admission = new_admission, rt_run = None, rt_abort = None,
    rt_compact = [], rt_goalControls = [], rt_queuedControls = [], rt_deferred = None,
    rt_closed = False, rt_runs = [], rt_rejections = []\<rparr>"
  have base0: "base_ok C rt0" using assms(1,2) adm_inv_new by (simp add: base_ok_def rt0_def)
  have d0: "durable rt0 = fst (ts_head s)" by (simp add: rt0_def durable_def)
  obtain p rt1 where p: "(if cursor (durable rt0) = 0
      then commitAndPublish C w 0 [thread_input (ThreadStarted
        (if truthy (cf_projectPath C) then cf_projectPath C else None))] rt0
      else if truthy (activeTurnId (durable rt0)) \<and> cf_recoverIncomplete C
      then recover_store C w 0 (js ''runtime_restarted_before_terminal_commit'') rt0
      else (Inr (), rt0)) = (p, rt1)" by fastforce
  have new: "new_runtime C w s = (case p of Inl e \<Rightarrow> Inl e | Inr _ \<Rightarrow>
      (case restore (cf_limits C) (queue_snapshot (durable rt1)) (rt_admission rt1) of
         (Inl e, ad) \<Rightarrow> Inl (AdmissionThrew e) | (Inr _, ad) \<Rightarrow> Inr (rt1\<lparr>rt_admission := ad\<rparr>)))"
    using p unfolding new_runtime_def rt0_def by (simp add: Let_def)
  then obtain v ad where v: "p = Inr v"
      "restore (cf_limits C) (queue_snapshot (durable rt1)) (rt_admission rt1) = (Inr (), ad)"
      "rt = rt1\<lparr>rt_admission := ad\<rparr>"
    using assms(4) by (auto split: sum.splits prod.splits)
  have "base_ok C rt1 \<and> same_control rt0 rt1 \<and> activeTurnId (durable rt1) = None"
  proof (cases "cursor (durable rt0) = 0")
    case True
    then show ?thesis
      using commit_store [OF _ base0, of w 0 _ p rt1] p v(1) empty_log_idle [OF assms(1)] d0
      by (simp add: input_effect_def thread_input_def)
  next
    case False
    show ?thesis
    proof (cases "truthy (activeTurnId (durable rt0))")
      case True
      then show ?thesis using recover_idle [OF _ base0, of w 0 _ p rt1] p v(1) False assms(3) by simp
    next
      case idle: False
      then have "rt1 = rt0" using p False by simp
      then show ?thesis using base0 head_truthy [OF assms(1)] idle d0 by simp
    qed
  qed
  then show ?thesis
    using restored_queue_inv [OF v(2)] v(3)
    by (simp add: base_ok_def runs_ok_def same_control_def rt0_def durable_def)
qed

lemma rt_do_sync:
  assumes "sync_inv C rt" "rt_do C a rt = (r, rt')" "is_command a \<Longrightarrow> \<not> settling rt"
    "is_run_step a \<Longrightarrow> \<not> isl r"
  shows "sync_inv C rt'"
proof (cases a)
  case (RtRunEnds w w' m cb res)
  then show ?thesis using assms run_ends_sync by (cases r) fastforce+
next
  case (RtSettle w)
  then show ?thesis using assms settle_run_sync by (cases r) fastforce+
next
  case (RtDispatch w c)
  then show ?thesis using assms dispatch_sync [of C rt w c] by (auto simp: case_prod_unfold Let_def)
next
  case (RtMaintenance w c)
  then show ?thesis using assms startMaintenance_sync [of C rt w c] by (auto simp: case_prod_unfold Let_def)
next
  case (RtGoalContinuation w c)
  then show ?thesis
    using assms startGoalContinuation_sync [of C rt w c] by (auto simp: case_prod_unfold Let_def)
next
  case (RtGoalControl w c)
  then show ?thesis using assms startGoalControl_sync [of C rt w c] by (auto simp: case_prod_unfold Let_def)
next
  case (RtCompact w c)
  then show ?thesis
    using assms startCompactMaintenance_sync [of C rt w c] by (auto simp: case_prod_unfold Let_def)
next
  case (RtAppend w xs)
  then show ?thesis using assms(2) runner_append_sync [OF assms(1), of w xs] by simp
next
  case (RtClose reason)
  then show ?thesis using assms(2) close_runtime_sync [OF assms(1)] by auto
qed

lemma rt_reach_sync: "rt_reach C rt \<Longrightarrow> sync_inv C rt"
proof (induction rule: rt_reach.induct)
  case (rt_open s w rt w' rt')
  note new = new_runtime_base [OF rt_open(1-4)]
  show ?case by (rule promoteQueuedTurn_sync [OF _ _ _ _ _ _ rt_open(5)]) (use new in blast)+
next
  case (rt_step rt a r rt')
  then show ?case using rt_do_sync by blast
qed

end
