(* ===== verification/RuntimeProperties.thy ===== *)
theory RuntimeProperties
  imports RuntimeSync
begin

section \<open>Properties of the runtime of a Thread\<close>

text \<open>
  The controller and the log stay in step; and what happens to a turn that is started in the one
  window where they do not.
\<close>

subsection \<open>A start between the end of a run and its settlement\<close>

lemma persist_needs_idle:
  assumes "persistTurnStart C w k i a q rt = (Inr u, rt')" "base_ok C rt"
  shows "activeTurnId (durable rt) = None"
proof -
  have "\<not> truthy (activeTurnId (durable rt))"
    using commit_started [of C w k "at_turnId a" "at_input a" "at_mode a" "if truthy q then q else None"
        _ rt u rt'] assms(1)
    by (simp add: persistTurnStart_def turn_start_inputs_def)
  then show ?thesis
    using head_truthy assms(2) by (auto simp: durable_def base_ok_def)
qed

text \<open>What a start command does when the controller is idle.\<close>

lemma idle_start_cases:
  assumes base: "base_ok C rt" and up: "\<not> rt_closed rt" and idle: "ad_active (rt_admission rt) = None"
    and run: "dispatch C w (CmdTurnStart input mode p) rt = (r, rt')"
  shows "(base_ok C rt' \<and> rt_store rt' = rt_store rt \<and> same_control rt rt'
      \<and> quiet (rt_admission rt) (rt_admission rt') \<and> (\<forall>t. r \<noteq> Inr (TurnAdmission (AdStarted t))))
    \<or> (\<exists>a rt1 rt2 t. base_ok C rt1 \<and> durable rt1 = durable rt \<and> same_control rt rt1
        \<and> persistTurnStart C w 0 1 a None rt1 = (Inr (), rt2)
        \<and> (if rt_run rt = None then r = Inr (TurnAdmission (AdStarted t))
           else base_ok C rt' \<and> r = Inl SecondActiveRun \<and> rt_store rt' = rt_store rt2 \<and> same_control rt rt'
             \<and> quiet (rt_admission rt) (rt_admission rt')))"
proof -
  define ad0 where "ad0 = snd (dropExpired (re_now w 0) (rt_admission rt))"
  have ad0: "ad_active ad0 = None" "adm_inv (cf_limits C) ad0" "quiet (rt_admission rt) ad0"
    using idle base dropExpired_inv by (auto simp: ad0_def base_ok_def)
  define req where "req = \<lparr>req_input = input, req_mode = mode,
    req_kind = Some (if mode = ModeGoal then KindGoal else KindRegular), req_deadline = None\<rparr>"
  obtain x ad where st: "start_turn (cf_limits C) req (re_now w 1) (re_id w 0) ad0 = (x, ad)" by fastforce
  have adm: "case x of Inl e \<Rightarrow> quiet ad0 ad | Inr res \<Rightarrow> admitted res ad0 ad"
    using admitTurn_admitted [of "cf_limits C" req SourceStart "re_now w 1" "re_id w 0" ad0] st
    by (simp add: start_turn_def)
  have ad: "adm_inv (cf_limits C) ad"
    using admitTurn_inv [OF ad0(2), of req SourceStart "re_now w 1" "re_id w 0"] st by (simp add: start_turn_def)
  have admit: "admit (cf_limits C) (CmdTurnStart input mode p) (re_now w 1) (re_id w 0) ad0
      = Some (map_sum id TurnAdmission x, ad)"
    unfolding admit.simps req_def [symmetric] st lift_turn_def by simp
  have unfold: "dispatch C w (CmdTurnStart input mode p) rt = (case x of
      Inl e \<Rightarrow> (Inl (AdmissionThrew e), rt\<lparr>rt_admission := ad\<rparr>)
    | Inr res \<Rightarrow> (case after_turn_admission C w [] res (rt\<lparr>rt_admission := ad\<rparr>) of
        (Inl e, rt') \<Rightarrow> rollback C ad0 e rt' | (Inr _, rt') \<Rightarrow> (Inr (TurnAdmission res), rt')))"
    using up look_drop [OF ad0_def] admit
    by (cases x) (simp_all add: dispatch_def command_input_def del: admit.simps One_nat_def)
  consider (quiet) "quiet ad0 ad" "\<forall>t. x \<noteq> Inr (AdStarted t)" "\<forall>q a b. x \<noteq> Inr (AdQueued q a b)"
      "\<forall>a b. x \<noteq> Inr (AdSteered a b)"
    | (started) t a0 where "x = Inr (AdStarted t)" "ad_active ad = Some a0" "at_turnId a0 = t"
    using adm ad0(1) by (cases x) (auto simp: admitted_def split: turn_admission.splits)
  then show ?thesis
  proof cases
    case quiet
    then have "rt' = rt\<lparr>rt_admission := ad\<rparr> \<and> (\<forall>t. r \<noteq> Inr (TurnAdmission (AdStarted t)))"
      using run unfold
      by (auto simp: after_turn_admission_def split: sum.splits turn_admission.splits)
    then show ?thesis
      using quiet_trans [OF ad0(3) quiet(1)] base ad by (simp add: same_control_def base_ok_def)
  next
    case started
    define rt1 where "rt1 = rt\<lparr>rt_admission := snd (dropExpired (re_now w 2) ad)\<rparr>"
    have rt1: "base_ok C rt1" "durable rt1 = durable rt" "same_control rt rt1" "rt_store rt1 = rt_store rt"
      using base ad dropExpired_inv by (auto simp: rt1_def base_ok_def durable_def same_control_def)
    have req: "requiredActiveTurn (re_now w 2) t (rt\<lparr>rt_admission := ad\<rparr>) = (Inr a0, rt1)"
      using started by (simp add: requiredActiveTurn_def look_def getSnapshot_def Let_def rt1_def)
    obtain y rt2 where per: "persistTurnStart C w 0 1 a0 None rt1 = (y, rt2)" by fastforce
    note ps = persist_start [OF per rt1(1)]
    show ?thesis
    proof (cases y)
      case (Inl e)
      then have "r = Inl e \<and> rt' = rt2\<lparr>rt_admission := ad0\<rparr>"
        using run unfold started req per
        by (auto simp: after_turn_admission_def begin_run_def start_run_def rollback_restores [OF ad0(2)])
      then show ?thesis using ps Inl rt1 ad0 by (auto simp: same_control_def base_ok_def)
    next
      case (Inr v)
      have "if rt_run rt = None then r = Inr (TurnAdmission (AdStarted t))
          else r = Inl SecondActiveRun \<and> rt' = rt2\<lparr>rt_admission := ad0\<rparr>"
        using run unfold started req per Inr ps rt1(3)
        by (auto simp: after_turn_admission_def begin_run_def start_run_def scheduleTurn_def same_control_def
            rollback_restores [OF ad0(2)] split: if_splits)
      moreover have "base_ok C (rt2\<lparr>rt_admission := ad0\<rparr>)" "same_control rt (rt2\<lparr>rt_admission := ad0\<rparr>)"
        using ps ad0 rt1(3) by (auto simp: same_control_def base_ok_def)
      moreover have "persistTurnStart C w 0 1 a0 None rt1 = (Inr (), rt2)" using per Inr by simp
      ultimately show ?thesis
        using rt1(1-3) ad0(3)
        by (intro disjI2 exI [of _ a0] exI [of _ rt1] exI [of _ rt2] exI [of _ t]) (simp split: if_splits)
    qed
  qed
qed

text \<open>Starting again and again, with any input and any readings.\<close>

definition starts ::
  "runtime_config \<Rightarrow> (runtime_env \<times> jsstr \<times> turn_mode \<times> jsstr option) list \<Rightarrow> thread_runtime
     \<Rightarrow> thread_runtime" where
  "starts C cs rt = fold (\<lambda>(w, input, mode, p) rt. snd (dispatch C w (CmdTurnStart input mode p) rt)) cs rt"

definition stranded :: "runtime_config \<Rightarrow> jsstr \<Rightarrow> thread_runtime \<Rightarrow> bool" where
  "stranded C t rt \<longleftrightarrow> base_ok C rt \<and> \<not> rt_closed rt \<and> active_id rt = None
     \<and> ad_queue (rt_admission rt) = [] \<and> activeTurnId (durable rt) = Some t"

lemma stranded_start:
  assumes "stranded C t rt" "dispatch C w (CmdTurnStart input mode p) rt = (r, rt')"
  shows "stranded C t rt' \<and> rt_runs rt' = rt_runs rt \<and> (\<forall>t'. r \<noteq> Inr (TurnAdmission (AdStarted t')))"
proof -
  have "activeTurnId (durable rt) \<noteq> None" using assms(1) by (simp add: stranded_def)
  then have "base_ok C rt' \<and> rt_store rt' = rt_store rt \<and> same_control rt rt'
      \<and> quiet (rt_admission rt) (rt_admission rt') \<and> (\<forall>t. r \<noteq> Inr (TurnAdmission (AdStarted t)))"
    using idle_start_cases [OF _ _ _ assms(2)] assms(1) persist_needs_idle
    by (fastforce simp: stranded_def active_id_def)
  then show ?thesis
    using assms(1) by (simp add: stranded_def same_control_def durable_def active_id_def quiet_def)
qed

lemma stranded_next:
  assumes "stranded C t rt" "next_run C w rt = (r, rt')"
  shows "stranded C t rt' \<and> rt_runs rt' = rt_runs rt"
proof (cases "\<exists>a. rt_run rt = Some (a, True)")
  case False
  then show ?thesis using assms by (auto simp: next_run_def split: option.splits prod.splits bool.splits)
next
  case True
  then obtain a where a: "rt_run rt = Some (a, True)" by blast
  have st: "ad_active (rt_admission rt) = None" "ad_queue (rt_admission rt) = []"
    using assms(1) by (auto simp: stranded_def active_id_def)
  have "adm_inv (cf_limits C) (rt_admission rt)" using assms(1) by (simp add: stranded_def base_ok_def)
  then have drop: "dropExpired now (rt_admission rt) = ([], rt_admission rt)" for now
    using st(2) by (cases "rt_admission rt") (simp add: dropExpired_def adm_inv_def)
  show ?thesis
    using assms a st
    by (auto simp: next_run_def look_def getSnapshot_def Let_def drop promoteQueuedTurn_def
        startNextQueued_def expired_of_def stranded_def base_ok_def durable_def active_id_def)
qed

lemma stranded_settle:
  assumes "stranded C t rt" "settle_run C w rt = (r, rt')"
  shows "stranded C t rt' \<and> rt_runs rt' = rt_runs rt"
proof (cases "\<exists>a. rt_run rt = Some (a, True)")
  case False
  then show ?thesis using assms by (auto simp: settle_run_def split: option.splits prod.splits bool.splits)
next
  case True
  obtain q rt1 where n: "next_run C w rt = (q, rt1)" by fastforce
  note st = stranded_next [OF assms(1) n]
  have "rt' = rt1 \<or> rt' = rt1\<lparr>rt_admission := snd (dropExpired (re_now w 5) (rt_admission rt1))\<rparr>"
    using assms(2) n True
    by (cases q) (auto simp: settle_run_def resolveIdleIfNeeded_def look_def getSnapshot_def Let_def)
  then show ?thesis
    using st dropExpired_inv dropExpired_quiet [of "rt_admission rt1" "re_now w 5"]
    by (auto simp: stranded_def base_ok_def durable_def active_id_def quiet_def)
qed

text \<open>Whatever is started, before and after the settlement of the run that ended, no turn runs.\<close>

lemma starts_stranded:
  "stranded C t rt \<Longrightarrow> stranded C t (starts C cs rt) \<and> rt_runs (starts C cs rt) = rt_runs rt"
proof (induction cs arbitrary: rt)
  case Nil
  then show ?case by (simp add: starts_def)
next
  case (Cons c cs)
  obtain w input mode p where c: "c = (w, input, mode, p)" by (metis prod_cases4)
  obtain r rt1 where d: "dispatch C w (CmdTurnStart input mode p) rt = (r, rt1)" by fastforce
  note step = stranded_start [OF Cons.prems d]
  have "starts C (c # cs) rt = starts C cs rt1" by (simp add: starts_def c d)
  then show ?case using Cons.IH [of rt1] step by simp
qed

subsection \<open>A concrete runtime\<close>

definition idle_log :: "envelope list" where
  "idle_log = number_inputs (test_id 0) test_id id 0 [test_input None (ThreadStarted None)]"

definition idle_projection :: projection where
  "idle_projection = (new_projection (test_id 0))\<lparr>status := ThIdle, cursor := 1\<rparr>"

definition idle_store :: thread_store where
  "idle_store = \<lparr>ts_threadId = test_id 0, ts_events = idle_log, ts_head = (idle_projection, [])\<rparr>"

definition small_config :: runtime_config where
  "small_config = \<lparr>cf_js = log_env, cf_digest = (\<lambda>st. []), cf_limits = adm_limits,
     cf_requireTurnCommit = False, cf_maintenanceRunner = False, cf_projectPath = None,
     cf_recoverIncomplete = True\<rparr>"

text \<open>The first id is the turn's, the next two are the step and the item of its message.\<close>

definition small_env :: runtime_env where
  "small_env = \<lparr>re_now = (\<lambda>_. 0), re_id = (\<lambda>i. test_id (int i + 1)), re_eventId = (\<lambda>k. test_id),
     re_eventTime = (\<lambda>k. id), re_ioFails = (\<lambda>k. False)\<rparr>"

definition small_runtime :: thread_runtime where
  "small_runtime = \<lparr>rt_store = idle_store, rt_admission = new_admission, rt_run = None, rt_abort = None,
     rt_compact = [], rt_goalControls = [], rt_queuedControls = [], rt_deferred = None,
     rt_closed = False, rt_runs = [], rt_rejections = []\<rparr>"

lemma idle_replay: "replay (applyThreadEvent log_env) (new_projection (test_id 0)) idle_log = Inr idle_projection"
  by code_simp

lemma idle_store_ok: "store_ok log_env (\<lambda>st. []) idle_store"
proof -
  have "list_all envelope_ok idle_log"
    using test_ids by (simp add: idle_log_def test_input_def input_event_def envelope_ok_def
      opt_id_ok_def non_negative_safe_def is_safe_integer_def opt_nonempty_def)
  then show ?thesis
    using idle_replay by (simp add: store_ok_def idle_store_def projectThreadEvents_Inr idle_log_def)
qed

lemma small_limits: "limits_ok adm_limits"
  by (simp add: limits_ok_def adm_limits_def)

lemma small_runtime_opens: "new_runtime small_config small_env idle_store = Inr small_runtime"
  by code_simp

lemma small_runtime_promotes: "promoteQueuedTurn small_config small_env small_runtime = (Inr (), small_runtime)"
  by code_simp

lemma small_runtime_reached: "rt_reach small_config small_runtime"
proof (rule rt_open [OF _ _ _ small_runtime_opens small_runtime_promotes])
qed (simp_all add: small_config_def idle_store_ok small_limits)

text \<open>A turn started there.\<close>

definition hi :: jsstr where
  "hi = js ''hi''"

definition hi_turn :: active_turn_record where
  "hi_turn = (case ad_active (snd (the (admit adm_limits (CmdTurnStart hi ModeBuild None) 0 (test_id 1)
     new_admission))) of Some a \<Rightarrow> a)"

definition hi_admission :: admission where
  "hi_admission = new_admission\<lparr>ad_active := Some hi_turn\<rparr>"

definition hi_inputs :: "append_input list" where
  "hi_inputs = turn_start_inputs (test_id 2) (test_id 3) hi_turn None"

definition hi_events :: "envelope list" where
  "hi_events = number_inputs (test_id 0) test_id id 1 hi_inputs"

lemma hi_admit: "admit adm_limits (CmdTurnStart hi ModeBuild None) 0 (test_id 1) new_admission
  = Some (Inr (TurnAdmission (AdStarted (test_id 1))), hi_admission)"
  by code_simp

lemma hi_turn_simps: "at_turnId hi_turn = test_id 1" "at_kind hi_turn = KindRegular"
  "at_input hi_turn = hi" "at_mode hi_turn = ModeBuild"
  by code_simp+

lemma hi_replay:
  obtains st where "replay (applyThreadEvent log_env) idle_projection hi_events = Inr st"
proof -
  have "\<not> isl (replay (applyThreadEvent log_env) idle_projection hi_events)" by code_simp
  then show ?thesis using that by (cases "replay (applyThreadEvent log_env) idle_projection hi_events") auto
qed

lemma hi_append:
  obtains st where "appendDurableBatch log_env (\<lambda>st. []) test_id id idle_store hi_inputs
    = (Inr hi_events, idle_store\<lparr>ts_events := idle_log @ hi_events, ts_head := (st, [])\<rparr>)"
proof -
  obtain st where st: "replay (applyThreadEvent log_env) idle_projection hi_events = Inr st" by (rule hi_replay)
  have ids: "\<forall>k \<in> set [2, 3, 4]. isRuntimeId (test_id k) \<and> test_id k \<notin> set [test_id 1]"
    "distinct (map test_id [2, 3, 4])" "hi \<noteq> []" "map en_eventId idle_log = [test_id 1]" "length hi_inputs = 3"
    by code_simp+
  have span: "{(1::int) + 1 .. 1 + 3} = {2, 3, 4}" by auto
  have "list_all envelope_ok hi_events"
    using test_ids ids(3) by (simp add: hi_events_def hi_inputs_def turn_start_inputs_def user_message_def
      item_input_def turn_input_def thread_input_def hi_turn_simps input_event_def envelope_ok_def
      opt_id_ok_def non_negative_safe_def is_safe_integer_def opt_nonempty_def)
  then have "seal_inputs (test_id 0) test_id id 1 [test_id 1] hi_inputs = Inr hi_events"
    unfolding hi_events_def
  proof (intro seal_inputs_number)
    fix k :: int
    assume "1 < k" "k \<le> 1 + int (length hi_inputs)"
    then have "k \<in> {1 + 1 .. 1 + 3}" using ids(5) by simp
    then show "isRuntimeId (test_id k) \<and> test_id k \<notin> set [test_id 1]"
      using ids(1) unfolding span by auto
  next
    have "inj_on test_id {2, 3, 4}" using ids(2) by (auto simp: inj_on_def)
    then show "inj_on test_id {1 + 1 .. 1 + int (length hi_inputs)}" using ids(5) span by simp
  qed
  then show thesis
    using st ids(4,5) by (intro that [of st]) (auto simp: appendDurableBatch_def idle_store_def
      idle_projection_def advanceThreadProjection_def verifyThreadProjectionDigest_def
      freezeProjection_def hi_events_def)
qed

lemma hi_persist:
  assumes "rt_store rt = idle_store"
  obtains st where "persistTurnStart small_config small_env 0 1 hi_turn None rt
    = (Inr (), rt\<lparr>rt_store := idle_store\<lparr>ts_events := idle_log @ hi_events, ts_head := (st, [])\<rparr>\<rparr>)"
proof -
  obtain st where "appendDurableBatch log_env (\<lambda>st. []) test_id id idle_store hi_inputs
      = (Inr hi_events, idle_store\<lparr>ts_events := idle_log @ hi_events, ts_head := (st, [])\<rparr>)"
    by (rule hi_append)
  then show thesis
    using assms by (intro that [of st]) (simp add: persistTurnStart_def commitAndPublish_def small_config_def
      small_env_def hi_inputs_def numeral_2_eq_2 numeral_3_eq_3)
qed

text \<open>The same start when the run that ended has not been settled.\<close>

definition ended_runtime :: thread_runtime where
  "ended_runtime = small_runtime\<lparr>rt_run := Some (hi_turn, True)\<rparr>"

subsection \<open>The properties\<close>


lemma small_start:
  obtains rt where "dispatch small_config small_env (CmdTurnStart hi ModeBuild None) small_runtime
      = (Inr (TurnAdmission (AdStarted (test_id 1))), rt)"
    "rt_run rt = Some (hi_turn, False)" "rt_runs rt = [(test_id 1, TurnRunner)]"
proof -
  let ?rt = "small_runtime\<lparr>rt_admission := hi_admission\<rparr>"
  have look: "look 0 small_runtime = (new_admission, small_runtime)" "look 0 ?rt = (hi_admission, ?rt)"
    by code_simp+
  have store: "rt_store ?rt = idle_store" by (simp add: small_runtime_def)
  obtain st where per: "persistTurnStart small_config small_env 0 1 hi_turn None ?rt
    = (Inr (), ?rt\<lparr>rt_store := idle_store\<lparr>ts_events := idle_log @ hi_events, ts_head := (st, [])\<rparr>\<rparr>)"
    by (rule hi_persist [OF store])
  have env: "re_now small_env k = 0" "re_id small_env 0 = test_id 1" "cf_limits small_config = adm_limits" for k
    by (simp_all add: small_env_def small_config_def)
  have fields: "\<not> rt_closed small_runtime" "rt_admission small_runtime = new_admission"
    "rt_run small_runtime = None" "rt_runs small_runtime = []"
    "rt_goalControls small_runtime = []" "rt_compact small_runtime = []"
    by (simp_all add: small_runtime_def)
  have active: "ad_active hi_admission = Some hi_turn" by (simp add: hi_admission_def)
  have req: "requiredActiveTurn 0 (test_id 1) ?rt = (Inr hi_turn, ?rt)"
    using look(2) active by (simp add: requiredActiveTurn_def hi_turn_simps)
  have "dispatch small_config small_env (CmdTurnStart hi ModeBuild None) small_runtime
      = (Inr (TurnAdmission (AdStarted (test_id 1))), ?rt\<lparr>rt_store := idle_store\<lparr>ts_events := idle_log @ hi_events,
          ts_head := (st, [])\<rparr>, rt_run := Some (hi_turn, False), rt_abort := None,
          rt_runs := [(test_id 1, TurnRunner)]\<rparr>)"
    by (simp add: dispatch_def fields env look hi_admit after_turn_admission_def begin_run_def
      start_run_def req per scheduleTurn_def hi_turn_simps del: admit.simps One_nat_def)
  then show thesis by (rule that) simp_all
qed


text \<open>C7: a defect. Between the end of a run and its settlement the controller is idle, but
  \<open>activeRun\<close> is still set. A start accepted by the store in that window throws, and it leaves the log
  with an active turn that no runner was given; no start after that, with any input, before the
  settlement or after it, is given to a runner or changes the active turn of the log: the Thread
  is stuck until the runtime is constructed anew.\<close>

theorem start_before_settlement_strands:
  assumes "settling rt" "sync_inv C rt" "\<not> rt_closed rt"
    and "dispatch C w (CmdTurnStart input mode p) rt = (r, rt')" "rt_store rt' \<noteq> rt_store rt"
  shows "r = Inl SecondActiveRun \<and> (\<exists>t. activeTurnId (durable rt') = Some t
    \<and> (\<forall>cs w' ds. let rt'' = starts C ds (snd (settle_run C w' (starts C cs rt'))) in
         activeTurnId (durable rt'') = Some t \<and> rt_runs rt'' = rt_runs rt))"
proof -
  have idle: "ad_active (rt_admission rt) = None" "ad_queue (rt_admission rt) = []" "rt_run rt \<noteq> None"
    using assms(1-3) by (auto simp: settling_def sync_inv_def in_sync_def stage_ok_def active_id_def
      split: option.splits bool.splits)
  have base: "base_ok C rt" using assms(2) by (simp add: sync_inv_def)
  obtain a rt1 rt2 where started: "base_ok C rt1" "persistTurnStart C w 0 1 a None rt1 = (Inr (), rt2)"
    and c: "base_ok C rt'" "r = Inl SecondActiveRun" "rt_store rt' = rt_store rt2" "same_control rt rt'"
      "quiet (rt_admission rt) (rt_admission rt')"
    using idle_start_cases [OF base assms(3) idle(1) assms(4)] assms(5)
    unfolding if_not_P [OF idle(3)] by blast
  have "activeTurnId (durable rt') = Some (at_turnId a)"
    using persist_start [OF started(2,1)] c(3) by (simp add: durable_def)
  then have st: "stranded C (at_turnId a) rt'"
    using c(1,4,5) idle assms(3) by (simp add: stranded_def same_control_def quiet_def active_id_def)
  have "stranded C (at_turnId a) rt'' \<and> rt_runs rt'' = rt_runs rt"
    if "rt'' = starts C ds (snd (settle_run C w' (starts C cs rt')))" for rt'' cs w' ds
  proof -
    obtain q rt2 where q: "settle_run C w' (starts C cs rt') = (q, rt2)" by fastforce
    note first = starts_stranded [OF st, of cs]
    note settled = stranded_settle [OF conjunct1 [OF first] q]
    note second = starts_stranded [OF conjunct1 [OF settled], of ds]
    have "rt'' = starts C ds rt2" using that q by simp
    then show ?thesis using first settled second c(4) by (simp add: same_control_def)
  qed
  then have "\<forall>cs w' ds. let rt'' = starts C ds (snd (settle_run C w' (starts C cs rt'))) in
      activeTurnId (durable rt'') = Some (at_turnId a) \<and> rt_runs rt'' = rt_runs rt"
    unfolding Let_def stranded_def by blast
  moreover have "activeTurnId (durable rt') = Some (at_turnId a)" using st unfolding stranded_def by blast
  ultimately show ?thesis using c(2) by blast
qed

theorem start_before_settlement_strands_witness:
  "\<exists>rt'. dispatch small_config small_env (CmdTurnStart hi ModeBuild None) ended_runtime
       = (Inl SecondActiveRun, rt')
     \<and> (\<exists>t. activeTurnId (durable rt') = Some t) \<and> rt_runs (starts small_config [] rt') = []"
proof -
  let ?rt = "ended_runtime\<lparr>rt_admission := hi_admission\<rparr>"
  have look: "look 0 ended_runtime = (new_admission, ended_runtime)" "look 0 ?rt = (hi_admission, ?rt)"
    by code_simp+
  have store: "rt_store ?rt = idle_store" by (simp add: ended_runtime_def small_runtime_def)
  obtain st where per: "persistTurnStart small_config small_env 0 1 hi_turn None ?rt
    = (Inr (), ?rt\<lparr>rt_store := idle_store\<lparr>ts_events := idle_log @ hi_events, ts_head := (st, [])\<rparr>\<rparr>)"
    by (rule hi_persist [OF store])
  have env: "re_now small_env k = 0" "re_id small_env 0 = test_id 1" "cf_limits small_config = adm_limits" for k
    by (simp_all add: small_env_def small_config_def)
  have fields: "\<not> rt_closed ended_runtime" "rt_admission ended_runtime = new_admission"
    "rt_run ended_runtime = Some (hi_turn, True)" "rt_store ended_runtime = idle_store"
    by (simp_all add: ended_runtime_def small_runtime_def)
  have active: "ad_active hi_admission = Some hi_turn" by (simp add: hi_admission_def)
  have req: "requiredActiveTurn 0 (test_id 1) ?rt = (Inr hi_turn, ?rt)"
    using look(2) active by (simp add: requiredActiveTurn_def hi_turn_simps)
  have restored: "restore adm_limits new_admission hi_admission = (Inr (), new_admission)" by code_simp
  let ?s = "idle_store\<lparr>ts_events := idle_log @ hi_events, ts_head := (st, [])\<rparr>"
  let ?rt' = "ended_runtime\<lparr>rt_store := ?s, rt_admission := new_admission\<rparr>"
  have sched: "scheduleTurn hi_turn (?rt\<lparr>rt_store := ?s\<rparr>) = (Inl SecondActiveRun, ?rt\<lparr>rt_store := ?s\<rparr>)"
    using fields(3) by (simp add: scheduleTurn_def del: not_None_eq)
  have "dispatch small_config small_env (CmdTurnStart hi ModeBuild None) ended_runtime
      = rollback small_config new_admission SecondActiveRun (?rt\<lparr>rt_store := ?s\<rparr>)"
    by (simp add: dispatch_def fields env look hi_admit after_turn_admission_def begin_run_def
      start_run_def req per sched del: admit.simps One_nat_def)
  also have "\<dots> = (Inl SecondActiveRun, ?rt')"
    using restored by (simp add: rollback_def env)
  finally have d: "dispatch small_config small_env (CmdTurnStart hi ModeBuild None) ended_runtime
      = (Inl SecondActiveRun, ?rt')" .
  have sync: "sync_inv small_config ended_runtime"
    using rt_reach_sync [OF small_runtime_reached]
    by (simp add: ended_runtime_def small_runtime_def sync_inv_def base_ok_def runs_ok_def durable_def
      in_sync_def stage_ok_def active_id_def new_admission_def)
  have "settling ended_runtime"
    by (simp add: settling_def ended_runtime_def small_runtime_def active_id_def new_admission_def)
  moreover have "rt_store ?rt' \<noteq> rt_store ended_runtime"
  proof -
    have "length hi_events = 3" by code_simp
    then show ?thesis by (auto simp: ended_runtime_def small_runtime_def idle_store_def)
  qed
  ultimately obtain t where "activeTurnId (durable ?rt') = Some t"
    using start_before_settlement_strands [OF _ sync _ d] fields(1) by blast
  then show ?thesis using d by (auto simp: starts_def ended_runtime_def small_runtime_def)
qed

end
