(* ===== verification/ToolCallGroups.thy ===== *)
theory ToolCallGroups
  imports JsonValue
begin

section \<open>Tool call groups of a model history\<close>

text \<open>
  Models \<open>src/src/services/compact/tool-call-groups.ts\<close> and
  \<open>src/src/runtime/session-history-recovery.ts\<close>. A provider accepts a history only if each
  assistant message that declares tool calls is followed at once by one result per call. The
  \<open>Set\<close>s and \<open>Map\<close>s of call ids are lists in insertion order.
\<close>

subsection \<open>Messages\<close>

datatype message_role = MsgSystem | MsgUser | MsgAssistant | MsgTool

record tool_call =
  tc_id :: jsstr
  tc_name :: jsstr
  tc_arguments :: jsstr

record message =
  ms_role :: message_role
  ms_content :: jsstr
  ms_toolCalls :: "tool_call list option"
  ms_toolCallId :: "jsstr option"
  ms_cacheControl :: "jsval option"

definition is_result :: "message \<Rightarrow> bool" where
  "is_result m \<longleftrightarrow> ms_role m = MsgTool"

text \<open>\<open>m.tool_calls ?? []\<close> and \<open>m.tool_call_id ?? ''\<close>.\<close>

definition calls_of :: "message \<Rightarrow> tool_call list" where
  "calls_of m = (case ms_toolCalls m of None \<Rightarrow> [] | Some cs \<Rightarrow> cs)"

definition answered_id :: "message \<Rightarrow> jsstr" where
  "answered_id m = (case ms_toolCallId m of None \<Rightarrow> [] | Some i \<Rightarrow> i)"

definition declared_ids :: "message \<Rightarrow> jsstr list" where
  "declared_ids m = map tc_id (calls_of m)"

subsection \<open>assertToolCallGroups\<close>

datatype group_error =
    IncompleteBefore nat "jsstr list"
  | OrphanResult nat jsstr
  | InvalidCallIds nat
  | IncompleteAtEnd "jsstr list"

text \<open>The loop from message \<open>i\<close> on, with the ids that wait for a result, \<open>None\<close> outside a group.\<close>

fun assert_from :: "nat \<Rightarrow> jsstr list option \<Rightarrow> message list \<Rightarrow> group_error option" where
  "assert_from i None [] = None"
| "assert_from i (Some pending) [] = Some (IncompleteAtEnd pending)"
| "assert_from i (Some pending) (m # ms) =
     (if \<not> is_result m then Some (IncompleteBefore i pending)
      else if answered_id m \<notin> set pending then Some (OrphanResult i (answered_id m))
      else let left = removeAll (answered_id m) pending in
        assert_from (Suc i) (if left = [] then None else Some left) ms)"
| "assert_from i None (m # ms) =
     (if is_result m then Some (OrphanResult i (answered_id m))
      else if calls_of m = [] then assert_from (Suc i) None ms
      else if [] \<in> set (declared_ids m) \<or> \<not> distinct (declared_ids m) then Some (InvalidCallIds i)
      else assert_from (Suc i) (Some (declared_ids m)) ms)"

definition assertToolCallGroups :: "message list \<Rightarrow> group_error option" where
  "assertToolCallGroups ms = assert_from 0 None ms"

subsection \<open>sealToolCallGroups\<close>

fun unique_calls :: "jsstr list \<Rightarrow> tool_call list \<Rightarrow> tool_call list" where
  "unique_calls seen [] = []"
| "unique_calls seen (c # cs) =
     (if tc_id c = [] \<or> tc_id c \<in> set seen then unique_calls seen cs
      else c # unique_calls (tc_id c # seen) cs)"

text \<open>The inner loop: the results kept, the calls still unanswered, and the rest of the history.\<close>

fun take_results ::
  "tool_call list \<Rightarrow> message list \<Rightarrow> message list \<times> tool_call list \<times> message list" where
  "take_results pending [] = ([], pending, [])"
| "take_results pending (m # ms) =
     (if \<not> is_result m then ([], pending, m # ms)
      else if answered_id m \<in> set (map tc_id pending)
      then let (kept, left, rest) =
             take_results (filter (\<lambda>c. tc_id c \<noteq> answered_id m) pending) ms in (m # kept, left, rest)
      else take_results pending ms)"

definition json_quoted :: "string \<Rightarrow> jsstr" where
  "json_quoted s = [0x22] @ js s @ [0x22]"

definition RECOVERED_TOOL_RESULT :: jsstr where
  "RECOVERED_TOOL_RESULT = js ''{'' @ json_quoted ''success'' @ js '':false,'' @ json_quoted ''status''
     @ js '':'' @ json_quoted ''cancelled'' @ js '','' @ json_quoted ''error'' @ js '':''
     @ json_quoted ''Missing tool result was sealed during session recovery.'' @ js ''}''"

definition recovered_result :: "tool_call \<Rightarrow> message" where
  "recovered_result c = \<lparr>ms_role = MsgTool, ms_content = RECOVERED_TOOL_RESULT, ms_toolCalls = None,
     ms_toolCallId = Some (tc_id c), ms_cacheControl = None\<rparr>"

definition sealed_head :: "message \<Rightarrow> message" where
  "sealed_head m = (let calls = unique_calls [] (calls_of m) in
     if length calls = length (calls_of m) then m else m\<lparr>ms_toolCalls := Some calls\<rparr>)"

lemma take_results_length: "length (snd (snd (take_results pending ms))) \<le> length ms"
  by (induction pending ms rule: take_results.induct) (auto simp: case_prod_unfold Let_def)

lemma take_results_shorter:
  "(kept, left, rest) = take_results pending ms \<Longrightarrow> length rest < Suc (length ms)"
  using take_results_length [of pending ms] by (metis less_Suc_eq_le snd_conv)

function sealToolCallGroups :: "message list \<Rightarrow> message list" where
  "sealToolCallGroups [] = []"
| "sealToolCallGroups (m # ms) =
     (if is_result m then sealToolCallGroups ms
      else if calls_of m = [] then m # sealToolCallGroups ms
      else let (kept, left, rest) = take_results (unique_calls [] (calls_of m)) ms in
        sealed_head m # kept @ map recovered_result left @ sealToolCallGroups rest)"
  by pat_completeness auto
termination
  by (relation "measure length") (auto dest: take_results_shorter)

definition pendingToolCalls :: "tool_call list \<Rightarrow> jsstr set \<Rightarrow> tool_call list" where
  "pendingToolCalls calls answered = filter (\<lambda>c. tc_id c \<notin> answered) calls"

subsection \<open>snapToToolCallGroupStart\<close>

text \<open>The last message before \<open>k\<close> that is no tool result.\<close>

fun head_before :: "message list \<Rightarrow> nat \<Rightarrow> nat option" where
  "head_before ms 0 = None"
| "head_before ms (Suc k) = (if is_result (ms ! k) then head_before ms k else Some k)"

definition snapToToolCallGroupStart :: "message list \<Rightarrow> int \<Rightarrow> nat" where
  "snapToToolCallGroupStart ms requested =
     (let start = nat (max 0 (min (int (length ms)) requested)) in
      if start = 0 \<or> start = length ms \<or> \<not> is_result (ms ! start) then start
      else case head_before ms start of
        None \<Rightarrow> start
      | Some k \<Rightarrow> if calls_of (ms ! k) = [] then start
          else if answered_id (ms ! start) \<in> set (declared_ids (ms ! k)) then k else start)"

subsection \<open>normalizeSessionModelHistoryV1\<close>

datatype history_source = SrcTurnCommit | SrcTranscript | SrcLegacy

text \<open>\<open>hr_repaired\<close> stands for the suffix \<open>_repaired\<close> of the source and the diagnostic that
  comes with it. A message is cloned and frozen, which has no effect here.\<close>

record history_recovery =
  hr_messages :: "message list"
  hr_source :: history_source
  hr_repaired :: bool

definition normalizeSessionModelHistoryV1 ::
  "message list \<Rightarrow> history_source \<Rightarrow> group_error + history_recovery" where
  "normalizeSessionModelHistoryV1 ms source =
     (case assertToolCallGroups ms of
        None \<Rightarrow> Inr \<lparr>hr_messages = ms, hr_source = source, hr_repaired = False\<rparr>
      | Some _ \<Rightarrow>
          (let repaired = sealToolCallGroups ms in
           case assertToolCallGroups repaired of
             Some e \<Rightarrow> Inl e
           | None \<Rightarrow> Inr \<lparr>hr_messages = repaired, hr_source = source, hr_repaired = True\<rparr>))"

subsection \<open>The check as a state machine\<close>

text \<open>The state after a stretch of messages, \<open>None\<close> when it is rejected.\<close>

fun group_step :: "jsstr list option \<Rightarrow> message \<Rightarrow> jsstr list option option" where
  "group_step (Some pending) m =
     (if is_result m \<and> answered_id m \<in> set pending
      then let left = removeAll (answered_id m) pending in Some (if left = [] then None else Some left)
      else None)"
| "group_step None m =
     (if is_result m then None
      else if calls_of m = [] then Some None
      else if [] \<notin> set (declared_ids m) \<and> distinct (declared_ids m) then Some (Some (declared_ids m))
      else None)"

fun group_run :: "jsstr list option \<Rightarrow> message list \<Rightarrow> jsstr list option option" where
  "group_run q [] = Some q"
| "group_run q (m # ms) = (case group_step q m of None \<Rightarrow> None | Some q' \<Rightarrow> group_run q' ms)"

lemma group_run_append:
  "group_run q (xs @ ys) = (case group_run q xs of None \<Rightarrow> None | Some q' \<Rightarrow> group_run q' ys)"
  by (induction q xs rule: group_run.induct) (auto split: option.splits)

lemma assert_from_iff: "assert_from i q ms = None \<longleftrightarrow> group_run q ms = Some None"
  by (induction i q ms rule: assert_from.induct) (auto simp: Let_def)

definition well_grouped :: "message list \<Rightarrow> bool" where
  "well_grouped ms \<longleftrightarrow> group_run None ms = Some None"

lemma assert_iff: "assertToolCallGroups ms = None \<longleftrightarrow> well_grouped ms"
  by (simp add: assertToolCallGroups_def assert_from_iff well_grouped_def)

lemma well_grouped_Nil [simp]: "well_grouped []"
  by (simp add: well_grouped_def)

lemma well_grouped_append: "well_grouped xs \<Longrightarrow> well_grouped (xs @ ys) = well_grouped ys"
  by (simp add: well_grouped_def group_run_append)

lemma well_grouped_plain:
  "\<not> is_result m \<Longrightarrow> calls_of m = [] \<Longrightarrow> well_grouped (m # ms) = well_grouped ms"
  by (simp add: well_grouped_def)

subsection \<open>Sealing\<close>

lemma unique_calls_ids:
  "distinct (map tc_id (unique_calls seen cs)) \<and> [] \<notin> set (map tc_id (unique_calls seen cs))
   \<and> set (map tc_id (unique_calls seen cs)) \<inter> set seen = {}"
  by (induction seen cs rule: unique_calls.induct) auto

lemma unique_calls_length: "length (unique_calls seen cs) \<le> length cs"
  by (induction seen cs rule: unique_calls.induct) auto

lemma unique_calls_same:
  "length (unique_calls seen cs) = length cs \<Longrightarrow> unique_calls seen cs = cs"
proof (induction seen cs rule: unique_calls.induct)
  case (2 seen c cs)
  then show ?case using unique_calls_length [of seen cs] by (auto split: if_splits)
qed simp

lemma unique_calls_id:
  "distinct (map tc_id cs) \<Longrightarrow> [] \<notin> set (map tc_id cs) \<Longrightarrow> set (map tc_id cs) \<inter> set seen = {} \<Longrightarrow>
     unique_calls seen cs = cs"
  by (induction seen cs rule: unique_calls.induct) auto

lemma sealed_head_calls:
  "calls_of (sealed_head m) = unique_calls [] (calls_of m)" "is_result (sealed_head m) = is_result m"
  "ms_content (sealed_head m) = ms_content m" "ms_role (sealed_head m) = ms_role m"
  using unique_calls_same [of "[]" "calls_of m"]
  by (auto simp: sealed_head_def Let_def is_result_def) (auto simp: calls_of_def)

text \<open>The state that waits for the results of some calls.\<close>

definition waiting :: "tool_call list \<Rightarrow> jsstr list option" where
  "waiting cs = (if cs = [] then None else Some (map tc_id cs))"

lemma map_filter_ids:
  "map tc_id (filter (\<lambda>c. tc_id c \<noteq> i) cs) = removeAll i (map tc_id cs)"
  by (induction cs) auto

lemma group_step_waiting:
  assumes "is_result m" "answered_id m \<in> set (map tc_id pending)"
  shows "group_step (waiting pending) m
    = Some (waiting (filter (\<lambda>c. tc_id c \<noteq> answered_id m) pending))"
proof -
  have "pending \<noteq> []" using assms(2) by auto
  then show ?thesis
    using assms by (simp add: waiting_def Let_def map_filter_ids [symmetric])
qed

lemma take_results_run:
  assumes "take_results pending ms = (kept, left, rest)" "distinct (map tc_id pending)"
  shows "(pending = [] \<longrightarrow> kept = []) \<and> group_run (waiting pending) kept = Some (waiting left)
    \<and> distinct (map tc_id left)"
  using assms
proof (induction pending ms arbitrary: kept left rest rule: take_results.induct)
  case (1 pending)
  then show ?case by simp
next
  case (2 pending m ms)
  show ?case
  proof (cases "is_result m \<and> answered_id m \<in> set (map tc_id pending)")
    case True
    let ?p = "filter (\<lambda>c. tc_id c \<noteq> answered_id m) pending"
    obtain kept' where sub: "take_results ?p ms = (kept', left, rest)" "kept = m # kept'"
      using 2(3) True by (cases "take_results ?p ms") auto
    have "distinct (map tc_id ?p)" using 2(4) by (simp add: map_filter_ids distinct_removeAll)
    then have "group_run (waiting ?p) kept' = Some (waiting left) \<and> distinct (map tc_id left)"
      using 2(1) [OF _ _ sub(1)] True by simp
    moreover have "group_step (waiting pending) m = Some (waiting ?p)"
      using True by (intro group_step_waiting) simp_all
    ultimately show ?thesis using sub(2) True by auto
  next
    case False
    then show ?thesis using 2 by (auto split: if_splits)
  qed
qed

lemma recovered_run:
  "distinct (map tc_id cs) \<Longrightarrow> group_run (waiting cs) (map recovered_result cs) = Some None"
proof (induction cs)
  case Nil
  then show ?case by (simp add: waiting_def)
next
  case (Cons c cs)
  have "is_result (recovered_result c)" "answered_id (recovered_result c) = tc_id c"
    by (simp_all add: recovered_result_def is_result_def answered_id_def)
  then have "group_step (waiting (c # cs)) (recovered_result c) = Some (waiting cs)"
    using Cons.prems by (auto simp: waiting_def Let_def)
  then show ?case using Cons by simp
qed

lemma seal_well_grouped: "well_grouped (sealToolCallGroups ms)"
proof (induction ms rule: sealToolCallGroups.induct)
  case 1
  then show ?case by simp
next
  case (2 m ms)
  show ?case
  proof (cases "is_result m \<or> calls_of m = []")
    case True
    then show ?thesis using 2 by (auto simp: well_grouped_plain)
  next
    case False
    let ?calls = "unique_calls [] (calls_of m)"
    obtain kept left rest where t: "take_results ?calls ms = (kept, left, rest)"
      by (cases "take_results ?calls ms") auto
    have ids: "distinct (map tc_id ?calls)" "[] \<notin> set (map tc_id ?calls)"
      using unique_calls_ids by blast+
    note run = take_results_run [OF t ids(1)]
    have "group_run None (sealed_head m # kept @ map recovered_result left) = Some None"
      using False ids run recovered_run [of left]
      by (cases ?calls) (auto simp: sealed_head_calls declared_ids_def waiting_def group_run_append split: if_splits)
    then have "well_grouped (sealed_head m # kept @ map recovered_result left)"
      by (simp add: well_grouped_def)
    from well_grouped_append [OF this, of "sealToolCallGroups rest"] show ?thesis
      using False t 2(3) [OF _ _ t [symmetric]] by simp
  qed
qed

text \<open>On a well-grouped history the inner loop takes the whole group.\<close>

lemma take_results_whole:
  assumes "group_run (waiting pending) ms = Some None" "distinct (map tc_id pending)" "pending \<noteq> []"
  shows "\<exists>kept rest. take_results pending ms = (kept, [], rest) \<and> ms = kept @ rest \<and> well_grouped rest
    \<and> list_all is_result kept"
  using assms
proof (induction pending ms rule: take_results.induct)
  case (1 pending)
  then show ?case by (simp add: waiting_def)
next
  case (2 pending m ms)
  let ?p = "filter (\<lambda>c. tc_id c \<noteq> answered_id m) pending"
  have m: "is_result m" "answered_id m \<in> set (map tc_id pending)"
    using 2(3,5) by (auto simp: waiting_def split: if_splits)
  have step: "group_step (waiting pending) m = Some (waiting ?p)"
    using m by (rule group_step_waiting)
  have dist: "distinct (map tc_id ?p)" using 2(4) by (simp add: map_filter_ids distinct_removeAll)
  have run: "group_run (waiting ?p) ms = Some None" using 2(3) step by simp
  show ?case
  proof (cases "?p = []")
    case False
    then obtain kept rest where "take_results ?p ms = (kept, [], rest)" "ms = kept @ rest" "well_grouped rest"
        "list_all is_result kept"
      using 2(1) [OF _ _ run dist] m by auto
    then show ?thesis using m by auto
  next
    case True
    have "take_results [] ms = ([], [], ms)"
      using run True by (cases ms) (auto simp: waiting_def split: if_splits)
    then show ?thesis using m True run by (auto simp: well_grouped_def waiting_def)
  qed
qed

lemma well_grouped_seal: "well_grouped ms \<Longrightarrow> sealToolCallGroups ms = ms"
proof (induction ms rule: sealToolCallGroups.induct)
  case 1
  then show ?case by simp
next
  case (2 m ms)
  have m: "\<not> is_result m" using 2(4) by (auto simp: well_grouped_def)
  show ?case
  proof (cases "calls_of m = []")
    case True
    then show ?thesis using 2 m by (simp add: well_grouped_plain)
  next
    case False
    have ids: "distinct (map tc_id (calls_of m))" "[] \<notin> set (map tc_id (calls_of m))"
      and run: "group_run (waiting (calls_of m)) ms = Some None"
      using 2(4) m False by (auto simp: well_grouped_def declared_ids_def waiting_def split: if_splits)
    have same: "unique_calls [] (calls_of m) = calls_of m"
      using unique_calls_id [OF ids] by simp
    obtain kept rest where t: "take_results (calls_of m) ms = (kept, [], rest)" "ms = kept @ rest"
        "well_grouped rest"
      using take_results_whole [OF run ids(1) False] by blast
    then show ?thesis
      using 2(3) [of "(kept, [], rest)" kept "([], rest)" "[]" rest] m False same
      by (simp add: sealed_head_def)
  qed
qed

end
