(* ===== verification/CompactPlanner.thy ===== *)
theory CompactPlanner
  imports ToolCallGroups
begin

section \<open>Token estimates and the compaction plan\<close>

text \<open>
  Models \<open>src/src/utils/token-estimate.ts\<close> and \<open>src/src/services/compact/planner.ts\<close>. Estimates
  are sums of halves, exact in JavaScript, and are counted in halves here. The options of a plan
  are finite numbers, except for the two the code checks with \<open>Number.isFinite\<close>; the product of two
  numbers with its rounding and the fingerprint of a group are parameters.
\<close>

subsection \<open>estimateTokens\<close>

text \<open>A string iterated by code points.\<close>

fun code_points :: "jsstr \<Rightarrow> nat list" where
  "code_points [] = []"
| "code_points [u] = [unat u]"
| "code_points (u # v # us) =
     (if 0xD800 \<le> u \<and> u \<le> 0xDBFF \<and> 0xDC00 \<le> v \<and> v \<le> 0xDFFF
      then (0x10000 + (unat u - 0xD800) * 0x400 + (unat v - 0xDC00)) # code_points us
      else unat u # code_points (v # us))"

definition isCJK :: "nat \<Rightarrow> bool" where
  "isCJK cp \<longleftrightarrow> list_ex (\<lambda>(lo, hi). lo \<le> cp \<and> cp \<le> hi)
     [(0x4e00, 0x9fff), (0x3400, 0x4dbf), (0x20000, 0x2a6df), (0x2a700, 0x2b73f), (0x2b740, 0x2b81f),
      (0xf900, 0xfaff), (0x2f800, 0x2fa1f), (0x3040, 0x309f), (0x30a0, 0x30ff), (0x31f0, 0x31ff),
      (0xac00, 0xd7af), (0x1100, 0x11ff), (0x3130, 0x318f), (0xff00, 0xffef)]"

definition isWhitespace :: "nat \<Rightarrow> bool" where
  "isWhitespace cp \<longleftrightarrow> cp \<in> set [0x20, 0x09, 0x0A, 0x0D]"

text \<open>Twice \<open>Math.ceil(asciiRun / 4)\<close>.\<close>

definition flush_run :: "nat \<Rightarrow> nat" where
  "flush_run asciiRun = 2 * ((asciiRun + 3) div 4)"

text \<open>The sum in half tokens and the pending run of ASCII characters.\<close>

fun token_step :: "nat \<times> nat \<Rightarrow> nat \<Rightarrow> nat \<times> nat" where
  "token_step (tokens, asciiRun) cp =
     (if isCJK cp then (tokens + flush_run asciiRun + 3, 0)
      else if isWhitespace cp then (tokens + flush_run asciiRun + (if cp = 0x0A then 2 else 1), 0)
      else if cp < 128 then (tokens, asciiRun + 1)
      else (tokens + flush_run asciiRun + 2, 0))"

definition estimateTokens :: "jsstr \<Rightarrow> nat" where
  "estimateTokens text =
     (let (tokens, asciiRun) = foldl token_step (0, 0) (code_points text) in
      (tokens + flush_run asciiRun + 1) div 2)"

definition estimate_message :: "message \<Rightarrow> nat" where
  "estimate_message m = 4 + estimateTokens (ms_content m) + estimateTokens (answered_id m)
     + sum_list (map (\<lambda>c. 4 + estimateTokens (tc_id c) + estimateTokens (tc_name c)
         + estimateTokens (tc_arguments c)) (calls_of m))"

definition estimateMessagesTokens :: "message list \<Rightarrow> nat" where
  "estimateMessagesTokens ms = sum_list (map estimate_message ms)"

definition quickTokenEstimate :: "nat \<Rightarrow> bool \<Rightarrow> nat" where
  "quickTokenEstimate textLength hasCJK =
     (if hasCJK then (3 * textLength + 1) div 2 else (textLength + 3) div 4)"

subsection \<open>groupMessagesForCompact\<close>

record message_group =
  gr_id :: jsstr
  gr_startIndex :: nat
  gr_endIndex :: nat
  gr_messages :: "message list"
  gr_estimatedTokens :: nat

definition createGroup :: "(message list \<Rightarrow> jsstr) \<Rightarrow> nat \<Rightarrow> message list \<Rightarrow> message_group" where
  "createGroup F startIndex grouped =
     \<lparr>gr_id = F grouped, gr_startIndex = startIndex, gr_endIndex = startIndex + length grouped,
      gr_messages = grouped, gr_estimatedTokens = estimateMessagesTokens grouped\<rparr>"

definition result_of :: "message \<Rightarrow> message \<Rightarrow> bool" where
  "result_of m r \<longleftrightarrow> is_result r \<and> answered_id r \<in> set (declared_ids m)"

function groups_from :: "(message list \<Rightarrow> jsstr) \<Rightarrow> nat \<Rightarrow> message list \<Rightarrow> message_group list" where
  "groups_from F i [] = []"
| "groups_from F i (m # ms) =
     (let grouped = (if calls_of m = [] then [m] else m # takeWhile (result_of m) ms) in
      createGroup F i grouped
        # groups_from F (i + length grouped) (drop (length grouped - 1) ms))"
  by pat_completeness auto
termination
  by (relation "measure (\<lambda>(F, i, ms). length ms)") auto

definition groupMessagesForCompact :: "(message list \<Rightarrow> jsstr) \<Rightarrow> message list \<Rightarrow> message_group list" where
  "groupMessagesForCompact F ms = groups_from F 0 ms"

definition flattenCompactGroups :: "message_group list \<Rightarrow> message list" where
  "flattenCompactGroups gs = concat (map gr_messages gs)"

subsection \<open>planCompactMessages\<close>

record plan_options =
  po_maxMessages :: "rat option"
  po_safeInputBudget :: "jsnum option"
  po_targetRatio :: "jsnum option"
  po_fixedTokens :: "rat option"
  po_summaryReserve :: "rat option"

record compact_plan =
  cp_groups :: "message_group list"
  cp_evictedGroups :: "message_group list"
  cp_recentGroups :: "message_group list"
  cp_recentStartIndex :: nat
  cp_targetRatio :: rat
  cp_targetTokens :: "int option"
  cp_tailTokenBudget :: "int option"
  cp_fixedTokens :: int
  cp_summaryReserveTokens :: int

definition DEFAULT_COMPACT_TARGET_RATIO :: rat where
  "DEFAULT_COMPACT_TARGET_RATIO = 65 / 100"

definition normalizeRatio :: "jsnum option \<Rightarrow> rat" where
  "normalizeRatio v = (case v of
     Some (Fin q) \<Rightarrow> max (1 / 10) (min DEFAULT_COMPACT_TARGET_RATIO q)
   | _ \<Rightarrow> DEFAULT_COMPACT_TARGET_RATIO)"

definition floor_or :: "rat option \<Rightarrow> int \<Rightarrow> int" where
  "floor_or v d = max 0 (case v of None \<Rightarrow> d | Some q \<Rightarrow> \<lfloor>q\<rfloor>)"

definition target_tokens :: "(rat \<Rightarrow> rat \<Rightarrow> rat) \<Rightarrow> plan_options \<Rightarrow> int option" where
  "target_tokens mul opt = (case po_safeInputBudget opt of
     Some (Fin q) \<Rightarrow> Some (max 1 \<lfloor>mul q (normalizeRatio (po_targetRatio opt))\<rfloor>)
   | _ \<Rightarrow> None)"

definition summary_reserve :: "(rat \<Rightarrow> rat \<Rightarrow> rat) \<Rightarrow> plan_options \<Rightarrow> int" where
  "summary_reserve mul opt = floor_or (po_summaryReserve opt)
     (case target_tokens mul opt of
        None \<Rightarrow> 0
      | Some t \<Rightarrow> min 1024 (max 128 \<lfloor>mul (of_int t) (18 / 100)\<rfloor>))"

definition tail_budget :: "(rat \<Rightarrow> rat \<Rightarrow> rat) \<Rightarrow> plan_options \<Rightarrow> int option" where
  "tail_budget mul opt = map_option
     (\<lambda>t. max 0 (t - floor_or (po_fixedTokens opt) 0 - summary_reserve mul opt)) (target_tokens mul opt)"

text \<open>The loop from the newest group on, over the groups in reverse: the groups retained, newest
  first. \<open>legacy\<close> is the start of the requested tail when there is no token target.\<close>

fun select_tail ::
  "int \<Rightarrow> int option \<Rightarrow> int option \<Rightarrow> message_group list \<Rightarrow> int \<Rightarrow> int \<Rightarrow> bool \<Rightarrow> message_group list" where
  "select_tail maxMessages budget legacy [] messages tokens latest = []"
| "select_tail maxMessages budget legacy (g # gs) messages tokens latest =
     (let nextMessageCount = messages + int (length (gr_messages g));
          nextTokens = tokens + int (gr_estimatedTokens g);
          crosses = (case legacy of None \<Rightarrow> False | Some start \<Rightarrow> int (gr_endIndex g) > start);
          withinMessages = (nextMessageCount \<le> maxMessages \<or> crosses);
          withinTokens = (case budget of None \<Rightarrow> True | Some b \<Rightarrow> nextTokens \<le> b) in
      if \<not> latest \<and> (\<not> withinMessages \<or> \<not> withinTokens) then []
      else g # select_tail maxMessages budget legacy gs nextMessageCount nextTokens False)"

definition planCompactMessages ::
  "(message list \<Rightarrow> jsstr) \<Rightarrow> (rat \<Rightarrow> rat \<Rightarrow> rat) \<Rightarrow> message list \<Rightarrow> plan_options \<Rightarrow> compact_plan" where
  "planCompactMessages F mul ms opt =
     (let groups = groupMessagesForCompact F ms;
          maxMessages = floor_or (po_maxMessages opt) 20;
          target = target_tokens mul opt;
          requestedTailStart = max 0 (int (length ms) - maxMessages);
          recent = rev (select_tail maxMessages (tail_budget mul opt)
            (if target = None then Some requestedTailStart else None) (rev groups) 0 0 True) in
      \<lparr>cp_groups = groups,
       cp_evictedGroups = take (length groups - length recent) groups,
       cp_recentGroups = recent,
       cp_recentStartIndex = (case recent of [] \<Rightarrow> length ms | g # _ \<Rightarrow> gr_startIndex g),
       cp_targetRatio = normalizeRatio (po_targetRatio opt),
       cp_targetTokens = target,
       cp_tailTokenBudget = tail_budget mul opt,
       cp_fixedTokens = floor_or (po_fixedTokens opt) 0,
       cp_summaryReserveTokens = summary_reserve mul opt\<rparr>)"

end
