(* ===== verification/HistoryProperties.thy ===== *)
theory HistoryProperties
  imports CompactPlanner
begin

section \<open>Properties of model histories\<close>

text \<open>
  Sealing is a normal form for the provider's check; recovery never fails and keeps the
  conversation; compaction cuts only between groups, within its budget; token estimates are
  bounded by the length of the text.
\<close>

subsection \<open>Recovery keeps the conversation\<close>

definition conversation :: "message list \<Rightarrow> (message_role \<times> jsstr) list" where
  "conversation ms = map (\<lambda>m. (ms_role m, ms_content m)) (filter (\<lambda>m. \<not> is_result m) ms)"

lemma conversation_simps [simp]:
  "conversation [] = []"
  "conversation (m # ms) = (if is_result m then conversation ms else (ms_role m, ms_content m) # conversation ms)"
  "conversation (xs @ ys) = conversation xs @ conversation ys"
  by (simp_all add: conversation_def)

lemma take_results_parts:
  "take_results pending ms = (kept, left, rest) \<Longrightarrow>
     set left \<subseteq> set pending \<and> set kept \<subseteq> set ms \<and> list_all is_result kept
     \<and> set rest \<subseteq> set ms \<and> conversation rest = conversation ms"
proof (induction pending ms arbitrary: kept left rest rule: take_results.induct)
  case (1 pending)
  then show ?case by simp
next
  case (2 pending m ms)
  let ?p = "filter (\<lambda>c. tc_id c \<noteq> answered_id m) pending"
  consider "\<not> is_result m" | "is_result m" "answered_id m \<in> set (map tc_id pending)"
    | "is_result m" "answered_id m \<notin> set (map tc_id pending)" by blast
  then show ?case
  proof cases
    case 1
    then show ?thesis using 2(3) by simp
  next
    case 2
    obtain kept' left' rest' where t: "take_results ?p ms = (kept', left', rest')"
      by (cases "take_results ?p ms") auto
    then show ?thesis
      using 2 "2.IH"(1) [of kept' left' rest'] "2.prems" by (auto simp: conversation_def)
  next
    case 3
    then show ?thesis using "2.IH"(2) [of kept left rest] "2.prems" by (auto simp: conversation_def)
  qed
qed

lemma conversation_results [simp]: "list_all is_result ms \<Longrightarrow> conversation ms = []"
  by (auto simp: conversation_def list_all_iff)

lemma recovered_results [simp]: "list_all is_result (map recovered_result cs)"
  by (simp add: list_all_iff recovered_result_def is_result_def)

text \<open>Sealing keeps what was said, and each result of it is one of the history or says that the
  result was lost.\<close>

lemma seal_parts:
  "conversation (sealToolCallGroups ms) = conversation ms
   \<and> (\<forall>m \<in> set (sealToolCallGroups ms). is_result m \<longrightarrow> m \<in> set ms \<or> ms_content m = RECOVERED_TOOL_RESULT)"
proof (induction ms rule: sealToolCallGroups.induct)
  case 1
  then show ?case by simp
next
  case (2 m ms)
  show ?case
  proof (cases "is_result m \<or> calls_of m = []")
    case True
    then show ?thesis using 2 by (auto simp: conversation_def)
  next
    case False
    let ?calls = "unique_calls [] (calls_of m)"
    obtain kept left rest where t: "take_results ?calls ms = (kept, left, rest)"
      by (cases "take_results ?calls ms") auto
    note parts = take_results_parts [OF t]
    have rest: "conversation (sealToolCallGroups rest) = conversation rest"
      "\<forall>m \<in> set (sealToolCallGroups rest). is_result m \<longrightarrow> m \<in> set rest \<or> ms_content m = RECOVERED_TOOL_RESULT"
      using 2(3) [OF _ _ t [symmetric]] False by simp_all
    have unfold: "sealToolCallGroups (m # ms)
        = sealed_head m # kept @ map recovered_result left @ sealToolCallGroups rest"
      using False t by simp
    have "conversation (sealToolCallGroups (m # ms)) = conversation (m # ms)"
      unfolding unfold using False parts rest(1) by (simp add: sealed_head_calls)
    moreover have "ms_content (recovered_result c) = RECOVERED_TOOL_RESULT" for c
      by (simp add: recovered_result_def)
    ultimately show ?thesis
      using False parts rest(2) unfolding unfold by (auto simp: sealed_head_calls)
  qed
qed

subsection \<open>Where a history can be cut\<close>

text \<open>A group: a message that is no result, and the results that follow it.\<close>

definition starts_group :: "message list \<Rightarrow> nat \<Rightarrow> bool" where
  "starts_group ms k \<longleftrightarrow> k = length ms \<or> k < length ms \<and> \<not> is_result (ms ! k)"

lemma well_grouped_cut:
  assumes "well_grouped ms" "starts_group ms k"
  shows "well_grouped (take k ms) \<and> well_grouped (drop k ms)"
proof (cases "k = length ms")
  case True
  then show ?thesis using assms(1) by simp
next
  case False
  then have k: "k < length ms" "\<not> is_result (ms ! k)" using assms(2) by (auto simp: starts_group_def)
  have "group_run None (take k ms @ drop k ms) = Some None" using assms(1) by (simp add: well_grouped_def)
  then obtain q where q: "group_run None (take k ms) = Some q" "group_run q (drop k ms) = Some None"
    by (auto simp only: group_run_append split: option.splits)
  have "drop k ms = ms ! k # drop (Suc k) ms" using k(1) by (simp add: Cons_nth_drop_Suc)
  then have "q = None" using q(2) k(2) by (cases q) auto
  then show ?thesis using q by (simp add: well_grouped_def)
qed

lemma head_before_props:
  "head_before ms k = Some c \<Longrightarrow> c < k \<and> \<not> is_result (ms ! c) \<and> (\<forall>j. c < j \<and> j < k \<longrightarrow> is_result (ms ! j))"
  by (induction k) (auto simp: less_Suc_eq split: if_splits)

lemma head_before_None: "head_before ms k = None \<Longrightarrow> j < k \<Longrightarrow> is_result (ms ! j)"
  by (induction k) (auto simp: less_Suc_eq split: if_splits)

text \<open>While results follow, the ids that wait are among those of the head.\<close>

lemma results_waiting:
  "group_run q rs = Some q' \<Longrightarrow> list_all is_result rs \<Longrightarrow>
     (case q' of None \<Rightarrow> True | Some p' \<Rightarrow> \<exists>p. q = Some p \<and> set p' \<subseteq> set p)"
proof (induction q rs rule: group_run.induct)
  case (1 q)
  then show ?case by (simp split: option.splits)
next
  case (2 q m ms)
  then obtain q1 where q1: "group_step q m = Some q1" "group_run q1 ms = Some q'"
    by (auto split: option.splits)
  have "case q' of None \<Rightarrow> True | Some p' \<Rightarrow> \<exists>p. q1 = Some p \<and> set p' \<subseteq> set p"
    using 2(1) [OF q1] 2(3) by simp
  moreover have "\<exists>p. q = Some p \<and> (\<forall>p1. q1 = Some p1 \<longrightarrow> set p1 \<subseteq> set p)"
    using q1(1) 2(3) by (cases q) (auto simp: Let_def split: if_splits)
  ultimately show ?case by (cases q') auto
qed

text \<open>In a well-grouped history the cut moves to the start of the group it falls into.\<close>

lemma snap_group:
  assumes "well_grouped ms"
  defines "start \<equiv> \<lambda>requested. nat (max 0 (min (int (length ms)) requested))"
  shows "starts_group ms (snapToToolCallGroupStart ms requested)
    \<and> snapToToolCallGroupStart ms requested \<le> start requested
    \<and> (\<forall>j. snapToToolCallGroupStart ms requested < j \<and> j \<le> start requested \<longrightarrow> is_result (ms ! j))"
proof -
  let ?s = "start requested"
  have s: "?s \<le> length ms" by (simp add: start_def)
  have first: "\<not> is_result (ms ! 0)" if "ms \<noteq> []"
    using that assms(1) by (cases ms) (auto simp: well_grouped_def)
  show ?thesis
  proof (cases "?s = 0 \<or> ?s = length ms \<or> \<not> is_result (ms ! ?s)")
    case True
    then have "snapToToolCallGroupStart ms requested = ?s"
      by (auto simp: snapToToolCallGroupStart_def start_def Let_def)
    then show ?thesis using True s first by (auto simp: starts_group_def)
  next
    case False
    then have k: "?s < length ms" "is_result (ms ! ?s)" "0 < ?s" using s by auto
    obtain c where c: "head_before ms ?s = Some c"
      using head_before_None [of ms ?s 0] first k by (cases "head_before ms ?s"; cases ms) auto
    note hc = head_before_props [OF c]
    have cut: "well_grouped (drop c ms)"
      using well_grouped_cut [OF assms(1), of c] hc k by (simp add: starts_group_def)
    define rs where "rs = take (?s - Suc c) (drop (Suc c) ms)"
    have split: "drop c ms = ms ! c # rs @ ms ! ?s # drop (Suc ?s) ms"
    proof -
      have "drop c ms = ms ! c # drop (Suc c) ms" using hc k by (simp add: Cons_nth_drop_Suc)
      moreover have "drop (Suc c) ms = rs @ drop ?s ms"
        using hc by (simp add: rs_def) (metis append_take_drop_id drop_drop le_add_diff_inverse2 Suc_leI)
      moreover have "drop ?s ms = ms ! ?s # drop (Suc ?s) ms" using k by (simp add: Cons_nth_drop_Suc)
      ultimately show ?thesis by simp
    qed
    have rs: "list_all is_result rs"
      using hc k by (auto simp: rs_def list_all_length)
    obtain q1 q2 where q: "group_step None (ms ! c) = Some q1" "group_run q1 rs = Some q2"
        "group_run q2 (ms ! ?s # drop (Suc ?s) ms) = Some None"
      using cut by (auto simp: well_grouped_def split group_run_append split: option.splits)
    obtain p2 where p2: "q2 = Some p2" "answered_id (ms ! ?s) \<in> set p2"
      using q(3) k(2) by (cases q2) (auto split: if_splits option.splits)
    obtain p1 where p1: "q1 = Some p1" "set p2 \<subseteq> set p1"
      using results_waiting [OF q(2) rs] p2 by auto
    have "calls_of (ms ! c) \<noteq> []" "p1 = declared_ids (ms ! c)"
      using q(1) p1(1) by (auto split: if_splits)
    then have "snapToToolCallGroupStart ms requested = c"
      using False c p1 p2 by (auto simp: snapToToolCallGroupStart_def start_def Let_def)
    then show ?thesis using hc k by (auto simp: starts_group_def le_less)
  qed
qed

subsection \<open>Groups\<close>

text \<open>The results of a well-grouped history right after a head are its group.\<close>

lemma group_results:
  assumes "group_run (Some p) ms = Some None" "set p \<subseteq> set (declared_ids m)"
  shows "group_run (Some p) (takeWhile (result_of m) ms) = Some None
    \<and> well_grouped (dropWhile (result_of m) ms)"
  using assms
proof (induction ms arbitrary: p)
  case Nil
  then show ?case by simp
next
  case (Cons r ms)
  let ?left = "removeAll (answered_id r) p"
  have r: "is_result r" "answered_id r \<in> set p"
    and run: "group_run (if ?left = [] then None else Some ?left) ms = Some None"
    using Cons.prems(1) by (auto simp: Let_def split: if_splits)
  have here: "result_of m r" using r Cons.prems(2) by (auto simp: result_of_def)
  show ?case
  proof (cases "?left = []")
    case False
    then have "group_run (Some ?left) (takeWhile (result_of m) ms) = Some None
      \<and> well_grouped (dropWhile (result_of m) ms)"
      using run Cons.prems(2) by (intro Cons.IH) auto
    then show ?thesis using False here r by (simp add: Let_def)
  next
    case True
    have "takeWhile (result_of m) ms = [] \<and> dropWhile (result_of m) ms = ms"
      using run True by (cases ms) (auto simp: result_of_def)
    then show ?thesis using True here r run by (simp add: Let_def well_grouped_def)
  qed
qed

lemma drop_grouped: "drop (length (takeWhile P xs)) xs = dropWhile P xs"
  by (metis dropWhile_eq_drop)

lemma groups_flatten: "flattenCompactGroups (groups_from F i ms) = ms"
  by (induction F i ms rule: groups_from.induct)
    (auto simp: flattenCompactGroups_def createGroup_def Let_def drop_grouped)

lemma flatten_append [simp]:
  "flattenCompactGroups (xs @ ys) = flattenCompactGroups xs @ flattenCompactGroups ys"
  by (simp add: flattenCompactGroups_def)

definition group_ok :: "message list \<Rightarrow> message_group \<Rightarrow> bool" where
  "group_ok ms g \<longleftrightarrow> gr_messages g \<noteq> [] \<and> gr_endIndex g = gr_startIndex g + length (gr_messages g)
     \<and> gr_estimatedTokens g = estimateMessagesTokens (gr_messages g)"

lemma groups_ok: "list_all (group_ok ms) (groups_from F i ms')"
  by (induction F i ms' rule: groups_from.induct) (auto simp: group_ok_def createGroup_def Let_def)

text \<open>A group starts where the groups before it end.\<close>

lemma groups_start:
  "groups_from F i ms = xs @ g # ys \<Longrightarrow> gr_startIndex g = i + length (flattenCompactGroups xs)"
proof (induction F i ms arbitrary: xs rule: groups_from.induct)
  case (1 F i)
  then show ?case by simp
next
  case (2 F i m ms)
  define grouped where "grouped = (if calls_of m = [] then [m] else m # takeWhile (result_of m) ms)"
  have unfold: "groups_from F i (m # ms) = createGroup F i grouped
      # groups_from F (i + length grouped) (drop (length grouped - 1) ms)"
    by (simp add: grouped_def Let_def)
  show ?case
  proof (cases xs)
    case Nil
    then show ?thesis using 2(2) unfold by (auto simp: createGroup_def flattenCompactGroups_def)
  next
    case (Cons x xs')
    then have "x = createGroup F i grouped"
      and rest: "groups_from F (i + length grouped) (drop (length grouped - 1) ms) = xs' @ g # ys"
      using 2(2) unfold by auto
    then show ?thesis
      using 2(1) [OF grouped_def rest] Cons by (simp add: flattenCompactGroups_def createGroup_def)
  qed
qed

lemma groups_well_grouped:
  "well_grouped ms \<Longrightarrow> list_all (\<lambda>g. well_grouped (gr_messages g)) (groups_from F i ms)"
proof (induction F i ms rule: groups_from.induct)
  case (1 F i)
  then show ?case by simp
next
  case (2 F i m ms)
  have m: "\<not> is_result m" using 2(2) by (auto simp: well_grouped_def)
  show ?case
  proof (cases "calls_of m = []")
    case True
    then show ?thesis using 2 m by (simp add: createGroup_def Let_def well_grouped_plain)
  next
    case False
    have ids: "[] \<notin> set (declared_ids m) \<and> distinct (declared_ids m)"
      and run: "group_run (Some (declared_ids m)) ms = Some None"
      using 2(2) m False by (auto simp: well_grouped_def split: if_splits)
    note gr = group_results [OF run subset_refl]
    have "well_grouped (m # takeWhile (result_of m) ms)"
      using gr ids m False by (simp add: well_grouped_def)
    then show ?thesis
      using 2(1) [OF refl] gr False by (simp add: createGroup_def Let_def drop_grouped)
  qed
qed

lemma flatten_well_grouped:
  "list_all (\<lambda>g. well_grouped (gr_messages g)) gs \<Longrightarrow> well_grouped (flattenCompactGroups gs)"
  by (induction gs) (auto simp: flattenCompactGroups_def well_grouped_append)

subsection \<open>The plan\<close>

lemma select_tail_prefix: "\<exists>n \<le> length gs. select_tail mx b legacy gs c t first = take n gs"
proof (induction gs arbitrary: c t first)
  case Nil
  then show ?case by simp
next
  case (Cons g gs)
  show ?case
  proof (cases "select_tail mx b legacy (g # gs) c t first = []")
    case True
    then show ?thesis by (intro exI [of _ 0]) simp
  next
    case False
    then obtain c' t' where s: "select_tail mx b legacy (g # gs) c t first
        = g # select_tail mx b legacy gs c' t' False"
      by (auto simp: Let_def split: if_splits)
    obtain n where "n \<le> length gs" "select_tail mx b legacy gs c' t' False = take n gs"
      using Cons by blast
    then show ?thesis using s by (intro exI [of _ "Suc n"]) simp
  qed
qed

abbreviation tokens_in :: "message_group list \<Rightarrow> int" where
  "tokens_in gs \<equiv> sum_list (map (int \<circ> gr_estimatedTokens) gs)"

abbreviation messages_in :: "message_group list \<Rightarrow> int" where
  "messages_in gs \<equiv> sum_list (map (int \<circ> length \<circ> gr_messages) gs)"

lemma select_tail_tokens:
  "t \<le> b \<Longrightarrow> t + tokens_in (select_tail mx (Some b) legacy gs c t False) \<le> b"
proof (induction gs arbitrary: c t)
  case (Cons g gs)
  then show ?case
    using Cons.IH [of "t + int (gr_estimatedTokens g)" "c + int (length (gr_messages g))"]
    by (auto simp: Let_def add.assoc)
qed simp

lemma select_tail_messages:
  "c \<le> mx \<Longrightarrow> c + messages_in (select_tail mx b None gs c t False) \<le> mx"
proof (induction gs arbitrary: c t)
  case (Cons g gs)
  then show ?case
    using Cons.IH [of "c + int (length (gr_messages g))" "t + int (gr_estimatedTokens g)"]
    by (auto simp: Let_def add.assoc)
qed simp

lemma select_tail_over:
  "b < t \<Longrightarrow> select_tail mx (Some b) legacy gs c t False = []"
  by (cases gs) (auto simp: Let_def)

lemma select_tail_full:
  "mx < c \<Longrightarrow> select_tail mx b None gs c t False = []"
  by (cases gs) (auto simp: Let_def)

lemma select_tail_first:
  "select_tail mx b legacy (g # gs) 0 0 True
     = g # select_tail mx b legacy gs (int (length (gr_messages g))) (int (gr_estimatedTokens g)) False"
  by (simp add: Let_def)

lemma select_first_tokens:
  "tokens_in (select_tail mx (Some b) legacy gs 0 0 True) \<le> b
   \<or> length (select_tail mx (Some b) legacy gs 0 0 True) \<le> 1"
proof (cases gs)
  case (Cons g gs')
  show ?thesis
  proof (cases "int (gr_estimatedTokens g) \<le> b")
    case True
    then show ?thesis
      unfolding Cons select_tail_first using select_tail_tokens [OF True] by simp
  next
    case False
    then show ?thesis unfolding Cons select_tail_first by (simp add: select_tail_over)
  qed
qed simp

lemma select_first_messages:
  "messages_in (select_tail mx b None gs 0 0 True) \<le> mx
   \<or> length (select_tail mx b None gs 0 0 True) \<le> 1"
proof (cases gs)
  case (Cons g gs')
  show ?thesis
  proof (cases "int (length (gr_messages g)) \<le> mx")
    case True
    then show ?thesis
      unfolding Cons select_tail_first using select_tail_messages [OF True] by simp
  next
    case False
    then show ?thesis unfolding Cons select_tail_first by (simp add: select_tail_full)
  qed
qed simp

text \<open>The groups retained are a tail of the groups.\<close>

lemma plan_recent:
  "cp_recentGroups (planCompactMessages F mul ms opt)
     = rev (select_tail (floor_or (po_maxMessages opt) 20) (tail_budget mul opt)
         (if target_tokens mul opt = None
          then Some (max 0 (int (length ms) - floor_or (po_maxMessages opt) 20)) else None)
         (rev (groups_from F 0 ms)) 0 0 True)"
  by (simp add: planCompactMessages_def groupMessagesForCompact_def Let_def)

lemma plan_split:
  "groups_from F 0 ms = cp_evictedGroups (planCompactMessages F mul ms opt)
     @ cp_recentGroups (planCompactMessages F mul ms opt)"
proof -
  let ?gs = "groups_from F 0 ms" and ?P = "planCompactMessages F mul ms opt"
  obtain n where n: "n \<le> length ?gs" "cp_recentGroups ?P = rev (take n (rev ?gs))"
    unfolding plan_recent using select_tail_prefix [of "rev ?gs"] by (metis length_rev)
  have "cp_evictedGroups ?P = take (length ?gs - length (cp_recentGroups ?P)) ?gs"
    by (simp add: planCompactMessages_def groupMessagesForCompact_def Let_def)
  then show ?thesis using n by (simp add: take_rev)
qed

lemma plan_start:
  "cp_recentStartIndex (planCompactMessages F mul ms opt)
     = length (flattenCompactGroups (cp_evictedGroups (planCompactMessages F mul ms opt)))"
proof -
  let ?P = "planCompactMessages F mul ms opt"
  note split = plan_split [of F ms mul opt]
  have start: "cp_recentStartIndex ?P = (case cp_recentGroups ?P of [] \<Rightarrow> length ms | g # _ \<Rightarrow> gr_startIndex g)"
    by (simp add: planCompactMessages_def Let_def)
  show ?thesis
  proof (cases "cp_recentGroups ?P")
    case Nil
    then show ?thesis
      using start split groups_flatten [of F 0 ms] by simp
  next
    case (Cons g gs)
    then show ?thesis
      using start split groups_start [of F 0 ms "cp_evictedGroups ?P" g gs] by simp
  qed
qed

lemma plan_bounds:
  fixes F mul ms opt
  shows "length (cp_recentGroups (planCompactMessages F mul ms opt)) \<le> 1
   \<or> (case cp_tailTokenBudget (planCompactMessages F mul ms opt) of None \<Rightarrow> True
      | Some b \<Rightarrow> tokens_in (cp_recentGroups (planCompactMessages F mul ms opt)) \<le> b
          \<and> messages_in (cp_recentGroups (planCompactMessages F mul ms opt)) \<le> floor_or (po_maxMessages opt) 20)"
proof (cases "target_tokens mul opt")
  case None
  then show ?thesis by (simp add: planCompactMessages_def tail_budget_def Let_def)
next
  case (Some t)
  then obtain b where b: "tail_budget mul opt = Some b" by (simp add: tail_budget_def)
  have budget: "cp_tailTokenBudget (planCompactMessages F mul ms opt) = Some b"
    using b by (simp add: planCompactMessages_def Let_def)
  have sums: "tokens_in (rev gs) = tokens_in gs" "messages_in (rev gs) = messages_in gs" for gs
    by (simp_all add: rev_map [symmetric] sum_list_rev)
  show ?thesis
    using select_first_tokens [of "floor_or (po_maxMessages opt) 20" b None "rev (groups_from F 0 ms)"]
      select_first_messages [of "floor_or (po_maxMessages opt) 20" "Some b" "rev (groups_from F 0 ms)"]
    by (auto simp: plan_recent budget b Some sums)
qed

text \<open>Without a token target the tail is the groups that end after the requested start.\<close>

lemma legacy_select:
  assumes "groups_from F 0 ms = xs @ ys" and s: "s = max 0 (int (length ms) - mx)"
  shows "select_tail mx None (Some s) (rev xs) (int (length (flattenCompactGroups ys))) t False
    = takeWhile (\<lambda>g. s < int (gr_endIndex g)) (rev xs)"
  using assms(1)
proof (induction xs arbitrary: ys t rule: rev_induct)
  case Nil
  then show ?case by simp
next
  case (snoc g xs)
  have split: "groups_from F 0 ms = xs @ (g # ys)" using snoc.prems by simp
  have total: "length ms = length (flattenCompactGroups xs) + length (gr_messages g)
      + length (flattenCompactGroups ys)"
    using arg_cong [where f = length, OF groups_flatten [of F 0 ms]] split
    by (simp add: flattenCompactGroups_def)
  have g: "group_ok ms g" using groups_ok [of ms F 0 ms] split by simp
  have start: "gr_startIndex g = length (flattenCompactGroups xs)"
    using groups_start [OF split] by simp
  have fits: "int (length (flattenCompactGroups ys)) + int (length (gr_messages g)) \<le> mx
      \<Longrightarrow> s < int (gr_endIndex g)"
    using total start g s by (cases "gr_messages g") (auto simp: group_ok_def)
  have count: "int (length (flattenCompactGroups ys)) + int (length (gr_messages g))
      = int (length (flattenCompactGroups (g # ys)))"
    by (simp add: flattenCompactGroups_def)
  show ?case
    using snoc.IH [OF split] fits unfolding count
    by (auto simp: Let_def count)
qed

text \<open>A tail of a list given by a condition on its elements from the end.\<close>

lemma tail_split:
  assumes "gs = ev @ h # hs" "h # hs = rev (takeWhile P (rev gs))"
  shows "P h" and "ev = es @ [e] \<Longrightarrow> \<not> P e"
proof -
  have "h \<in> set (takeWhile P (rev gs))" using assms(2) by (metis list.set_intros(1) set_rev)
  then show "P h" by (rule set_takeWhileD [THEN conjunct2])
  have tail: "takeWhile P (rev gs) = rev (h # hs)" using assms(2) by (metis rev_rev_ident)
  have "rev gs = takeWhile P (rev gs) @ rev ev" unfolding tail using assms(1) by simp
  then have drop: "dropWhile P (rev gs) = rev ev"
    by (metis same_append_eq takeWhile_dropWhile_id)
  show "\<not> P e" if "ev = es @ [e]"
    using drop that hd_dropWhile [of P "rev gs"] by simp
qed

lemma groups_shape: "list_all (\<lambda>g. list_all is_result (tl (gr_messages g))) (groups_from F i ms)"
  by (induction F i ms rule: groups_from.induct)
    (auto simp: createGroup_def Let_def list_all_iff result_of_def dest: set_takeWhileD)

text \<open>The message at an index of a group.\<close>

lemma group_nth:
  assumes "groups_from F 0 ms = xs @ g # ys" "j < length (gr_messages g)"
  shows "gr_startIndex g + j < length ms \<and> ms ! (gr_startIndex g + j) = gr_messages g ! j"
proof -
  have "ms = flattenCompactGroups xs @ gr_messages g @ flattenCompactGroups ys"
    using groups_flatten [of F 0 ms] assms(1) by (simp add: flattenCompactGroups_def)
  then show ?thesis
    using groups_start [OF assms(1)] assms(2) by (metis add.left_neutral add_less_cancel_left append_assoc
        length_append nth_append nth_append_length_plus trans_less_add1)
qed

lemma group_index:
  assumes "well_grouped ms" "groups_from F 0 ms = xs @ g # ys"
    and "gr_startIndex g \<le> s" "s < gr_endIndex g"
  shows "snapToToolCallGroupStart ms (int s) = gr_startIndex g"
proof -
  let ?k = "snapToToolCallGroupStart ms (int s)"
  have g: "group_ok ms g" "well_grouped (gr_messages g)" "list_all is_result (tl (gr_messages g))"
    using groups_ok [of ms F 0 ms] groups_well_grouped [OF assms(1), of F 0] groups_shape [of F 0 ms] assms(2)
    by simp_all
  then obtain m rs where m: "gr_messages g = m # rs" "\<not> is_result m" "list_all is_result rs"
    by (cases "gr_messages g") (auto simp: group_ok_def well_grouped_def split: if_splits)
  have nth: "ms ! (gr_startIndex g + j) = (m # rs) ! j \<and> gr_startIndex g + j < length ms"
    if "j < length (m # rs)" for j
    using group_nth [OF assms(2), of j] that m(1) by simp
  have head: "\<not> is_result (ms ! gr_startIndex g)" using nth [of 0] m(2) by simp
  have results: "is_result (ms ! j)" if "gr_startIndex g < j" "j \<le> s" for j
    using nth [of "j - gr_startIndex g"] that m g(1) assms(4)
    by (auto simp: group_ok_def nth_Cons' list_all_length)
  have "s < length ms" using nth [of "s - gr_startIndex g"] assms(3,4) g(1) m(1) by (simp add: group_ok_def)
  then have "nat (max 0 (min (int (length ms)) (int s))) = s" by simp
  then have k: "starts_group ms ?k" "?k \<le> s" "\<forall>j. ?k < j \<and> j \<le> s \<longrightarrow> is_result (ms ! j)"
    using snap_group [OF assms(1), of "int s"] by simp_all
  have "\<not> is_result (ms ! ?k)" using k(1,2) \<open>s < length ms\<close> by (auto simp: starts_group_def)
  then show ?thesis
    using k(2,3) head results assms(3) by (metis linorder_neqE_nat order.strict_implies_order order.trans)
qed

lemma legacy_start:
  assumes wf: "well_grouped ms" and free: "target_tokens mul opt = None"
    and mx: "mx = floor_or (po_maxMessages opt) 20" "0 < mx"
  shows "cp_recentStartIndex (planCompactMessages F mul ms opt)
    = snapToToolCallGroupStart ms (int (length ms) - mx)"
proof (cases "ms = []")
  case True
  then show ?thesis
    by (simp add: planCompactMessages_def groupMessagesForCompact_def Let_def snapToToolCallGroupStart_def)
next
  case False
  let ?gs = "groups_from F 0 ms" and ?P = "planCompactMessages F mul ms opt"
  define s where "s = max 0 (int (length ms) - mx)"
  let ?late = "\<lambda>g. s < int (gr_endIndex g)"
  define recent where "recent = cp_recentGroups ?P"
  have split: "?gs = cp_evictedGroups ?P @ recent" unfolding recent_def by (rule plan_split)
  have sel: "recent = rev (select_tail mx None (Some s) (rev ?gs) 0 0 True)"
    using free mx by (simp add: recent_def plan_recent tail_budget_def s_def)
  have "?gs \<noteq> []" using False by (cases ms) (simp_all add: Let_def)
  then obtain xs g where xs: "?gs = xs @ [g]" by (metis rev_exhaust)
  have "gr_endIndex g = length ms"
    using groups_start [of F 0 ms xs g "[]"] groups_ok [of ms F 0 ms] groups_flatten [of F 0 ms] xs
    by (auto simp: group_ok_def flattenCompactGroups_def)
  then have late: "?late g" using mx(2) False by (simp add: s_def)
  have "select_tail mx None (Some s) (rev ?gs) 0 0 True
      = g # select_tail mx None (Some s) (rev xs) (int (length (gr_messages g))) (int (gr_estimatedTokens g)) False"
    by (simp only: xs rev_append rev.simps append_Nil append_Cons select_tail_first)
  also have "\<dots> = g # takeWhile ?late (rev xs)"
    using legacy_select [OF xs s_def, of "int (gr_estimatedTokens g)"]
    by (simp add: flattenCompactGroups_def)
  also have "\<dots> = takeWhile ?late (rev ?gs)" using late by (simp add: xs)
  finally have "select_tail mx None (Some s) (rev ?gs) 0 0 True = takeWhile ?late (rev ?gs)" .
  then have recent: "recent = rev (takeWhile ?late (rev ?gs))" by (simp only: sel)
  have "recent \<noteq> []" unfolding recent using late xs by simp
  then obtain h hs where h: "recent = h # hs" by (cases recent) auto
  note cut = tail_split [OF split [unfolded h] recent [unfolded h]]
  have start: "gr_startIndex h = length (flattenCompactGroups (cp_evictedGroups ?P))"
    using groups_start [OF split [unfolded h]] by simp
  have "int (gr_startIndex h) \<le> s"
  proof (cases "cp_evictedGroups ?P" rule: rev_cases)
    case Nil
    then show ?thesis using start by (simp add: flattenCompactGroups_def s_def)
  next
    case (snoc es e)
    have "gr_endIndex e = gr_startIndex h"
      using groups_start [of F 0 ms es e recent] groups_ok [of ms F 0 ms] split snoc start
      by (simp add: group_ok_def flattenCompactGroups_def)
    then show ?thesis using cut(2) [OF snoc] by simp
  qed
  then have "snapToToolCallGroupStart ms (int (nat s)) = gr_startIndex h"
    using cut(1) by (intro group_index [OF wf split [unfolded h]]) simp_all
  moreover have "nat (max 0 (min (int (length ms)) (int (nat s))))
      = nat (max 0 (min (int (length ms)) (int (length ms) - mx)))"
    by (simp add: s_def max_def min_def)
  then have "snapToToolCallGroupStart ms (int (nat s)) = snapToToolCallGroupStart ms (int (length ms) - mx)"
    unfolding snapToToolCallGroupStart_def by (simp only:)
  ultimately show ?thesis using plan_start [of F mul ms opt] start by simp
qed

subsection \<open>Bounds of the token estimate\<close>

lemma flush_run_bounds: "flush_run r \<le> 3 * r" "r \<le> 2 * flush_run r"
  unfolding flush_run_def by presburger+

text \<open>An upper bound of half tokens, and code points counted by the tokens they cost.\<close>

lemma token_fold_upper:
  "foldl token_step (t, r) cps = (t', r') \<Longrightarrow> t' + 3 * r' \<le> t + 3 * r + 3 * length cps"
proof (induction cps arbitrary: t r)
  case (Cons cp cps)
  obtain t1 r1 where step: "token_step (t, r) cp = (t1, r1)" by fastforce
  then have "t1 + 3 * r1 \<le> t + 3 * r + 3" using flush_run_bounds [of r] by (auto split: if_splits)
  then show ?case using Cons step by fastforce
qed simp

lemma token_fold_lower:
  "foldl token_step (t, r) cps = (t', r') \<Longrightarrow> 2 * t + r + length cps \<le> 2 * t' + r'"
proof (induction cps arbitrary: t r)
  case (Cons cp cps)
  obtain t1 r1 where step: "token_step (t, r) cp = (t1, r1)" by fastforce
  then have "2 * t + r + 1 \<le> 2 * t1 + r1" using flush_run_bounds [of r] by (auto split: if_splits)
  then show ?case using Cons step by fastforce
qed simp

lemma token_bounds:
  "length (code_points s) \<le> 4 * estimateTokens s
   \<and> 2 * estimateTokens s \<le> 3 * length (code_points s) + 1"
proof -
  obtain t r where f: "foldl token_step (0, 0) (code_points s) = (t, r)" by fastforce
  have "length (code_points s) \<le> 2 * (t + flush_run r)" "t + flush_run r \<le> 3 * length (code_points s)"
    using token_fold_lower [OF f] token_fold_upper [OF f] flush_run_bounds [of r] by simp_all
  moreover have "estimateTokens s = (t + flush_run r + 1) div 2" by (simp add: estimateTokens_def f)
  ultimately show ?thesis by (simp, linarith)
qed

subsection \<open>A concrete history\<close>

definition say :: "message_role \<Rightarrow> string \<Rightarrow> message" where
  "say r t = \<lparr>ms_role = r, ms_content = js t, ms_toolCalls = None, ms_toolCallId = None,
     ms_cacheControl = None\<rparr>"

definition call_named :: "string \<Rightarrow> tool_call" where
  "call_named i = \<lparr>tc_id = js i, tc_name = js ''read'', tc_arguments = js ''x''\<rparr>"

definition read_history :: "message list" where
  "read_history = [say MsgUser ''look'',
     (say MsgAssistant ''reading'')\<lparr>ms_toolCalls := Some [call_named ''a'', call_named ''b'']\<rparr>,
     (say MsgTool ''one'')\<lparr>ms_toolCallId := Some (js ''b'')\<rparr>,
     (say MsgTool ''two'')\<lparr>ms_toolCallId := Some (js ''a'')\<rparr>,
     say MsgAssistant ''done'']"

text \<open>The same, cut off by a crash before the second result.\<close>

definition cut_history :: "message list" where
  "cut_history = take 3 read_history @ [say MsgUser ''again'']"

definition legacy_options :: plan_options where
  "legacy_options = \<lparr>po_maxMessages = Some 2, po_safeInputBudget = None, po_targetRatio = None,
     po_fixedTokens = None, po_summaryReserve = None\<rparr>"

lemma read_history_ok: "assertToolCallGroups read_history = None"
  by code_simp

lemma cut_history_bad: "assertToolCallGroups cut_history \<noteq> None"
  by code_simp

subsection \<open>The properties\<close>

text \<open>C14: Sealing produces the normal form of the provider's check: the check accepts exactly the
  histories that sealing leaves unchanged, and it accepts every sealed history.\<close>

theorem accepted_iff_sealed:
  "(assertToolCallGroups ms = None) = (sealToolCallGroups ms = ms)
   \<and> assertToolCallGroups (sealToolCallGroups ms) = None
   \<and> sealToolCallGroups (sealToolCallGroups ms) = sealToolCallGroups ms"
  using seal_well_grouped [of ms] well_grouped_seal [of ms] well_grouped_seal [OF seal_well_grouped]
  by (metis assert_iff)

text \<open>C15: Recovery of a persisted history never throws; what it returns is accepted by the
  provider's check, says the same with the same roles in the same order apart from tool results,
  invents no result other than the one that reports its loss, and is the history itself, not marked
  as repaired, exactly if that was acceptable.\<close>

theorem recovered_history_accepted:
  "\<exists>r. normalizeSessionModelHistoryV1 ms src = Inr r \<and> assertToolCallGroups (hr_messages r) = None
     \<and> conversation (hr_messages r) = conversation ms
     \<and> (\<forall>m. m \<in> set (hr_messages r) \<and> is_result m \<longrightarrow> m \<in> set ms \<or> ms_content m = RECOVERED_TOOL_RESULT)
     \<and> hr_repaired r = (assertToolCallGroups ms \<noteq> None) \<and> hr_source r = src
     \<and> (\<not> hr_repaired r \<longrightarrow> hr_messages r = ms)"
proof (cases "assertToolCallGroups ms")
  case None
  then show ?thesis by (simp add: normalizeSessionModelHistoryV1_def)
next
  case (Some e)
  have "assertToolCallGroups (sealToolCallGroups ms) = None"
    using seal_well_grouped assert_iff by blast
  then show ?thesis using Some seal_parts [of ms] by (simp add: normalizeSessionModelHistoryV1_def)
qed

theorem recovered_history_accepted_witness:
  "\<exists>r. normalizeSessionModelHistoryV1 cut_history SrcTranscript = Inr r \<and> hr_repaired r
     \<and> conversation (hr_messages r) = conversation cut_history"
  using recovered_history_accepted [of cut_history SrcTranscript] cut_history_bad by blast

text \<open>C16: A compaction plan evicts a prefix of the history and keeps the rest, cut between two
  groups: of an acceptable history both parts are acceptable to the provider. The latest group is always kept; unless it is
  alone, what is kept fits the token budget, and under a token target it has at most the requested number
  of messages.\<close>

theorem compact_plan_cuts:
  assumes "P = planCompactMessages F mul ms opt" "assertToolCallGroups ms = None" "ms \<noteq> []"
  shows "flattenCompactGroups (cp_evictedGroups P) @ flattenCompactGroups (cp_recentGroups P) = ms
    \<and> flattenCompactGroups (cp_evictedGroups P) = take (cp_recentStartIndex P) ms
    \<and> assertToolCallGroups (flattenCompactGroups (cp_evictedGroups P)) = None
    \<and> assertToolCallGroups (flattenCompactGroups (cp_recentGroups P)) = None
    \<and> cp_recentGroups P \<noteq> []
    \<and> (length (cp_recentGroups P) = 1 \<or> (case cp_tailTokenBudget P of None \<Rightarrow> True
        | Some b \<Rightarrow> tokens_in (cp_recentGroups P) \<le> b
            \<and> messages_in (cp_recentGroups P) \<le> floor_or (po_maxMessages opt) 20))"
proof -
  have split: "flattenCompactGroups (cp_evictedGroups P) @ flattenCompactGroups (cp_recentGroups P) = ms"
    using plan_split [of F ms mul opt] groups_flatten [of F 0 ms] assms(1) by (metis flatten_append)
  have "list_all (\<lambda>g. well_grouped (gr_messages g)) (cp_evictedGroups P @ cp_recentGroups P)"
    using groups_well_grouped [of ms F 0] plan_split [of F ms mul opt] assms(1,2) assert_iff by metis
  then have parts: "assertToolCallGroups (flattenCompactGroups (cp_evictedGroups P)) = None"
    "assertToolCallGroups (flattenCompactGroups (cp_recentGroups P)) = None"
    by (simp_all add: assert_iff flatten_well_grouped)
  have "rev (groups_from F 0 ms) \<noteq> []" using assms(3) by (cases ms) (simp_all add: Let_def)
  then have latest: "cp_recentGroups P \<noteq> []"
    unfolding assms(1) plan_recent by (cases "rev (groups_from F 0 ms)") (simp_all add: Let_def)
  have "flattenCompactGroups (cp_evictedGroups P) = take (cp_recentStartIndex P) ms"
    using split plan_start [of F mul ms opt] assms(1) by (metis append_eq_conv_conj)
  moreover have "length (cp_recentGroups P) \<le> 1 \<longleftrightarrow> length (cp_recentGroups P) = 1"
    using latest by (cases "cp_recentGroups P") auto
  ultimately show ?thesis
    using split parts latest plan_bounds [of F mul ms opt] unfolding assms(1) by simp
qed

theorem compact_plan_cuts_witness:
  "assertToolCallGroups (flattenCompactGroups (cp_recentGroups
     (planCompactMessages (\<lambda>ms. []) (*) read_history legacy_options))) = None"
  using compact_plan_cuts [OF refl read_history_ok, of "\<lambda>ms. []" "(*)" legacy_options]
  by (simp add: read_history_def)

text \<open>Without a token target the kept tail starts where the requested last messages start, moved
  back to the start of the tool call group it falls into: the planner and the positional cut agree.\<close>

lemma legacy_plan_snaps:
  assumes "assertToolCallGroups ms = None" "target_tokens mul opt = None"
    and "0 < floor_or (po_maxMessages opt) 20"
  shows "cp_recentStartIndex (planCompactMessages F mul ms opt)
    = snapToToolCallGroupStart ms (int (length ms) - floor_or (po_maxMessages opt) 20)"
  using legacy_start [OF _ assms(2) refl assms(3)] assms(1) assert_iff by blast

lemma legacy_plan_snaps_example:
  "cp_recentStartIndex (planCompactMessages (\<lambda>ms. []) (*) read_history legacy_options) = 1"
proof -
  have "target_tokens (*) legacy_options = None" "0 < floor_or (po_maxMessages legacy_options) 20"
    "snapToToolCallGroupStart read_history
       (int (length read_history) - floor_or (po_maxMessages legacy_options) 20) = 1"
    by code_simp+
  then show ?thesis using legacy_plan_snaps [OF read_history_ok, of "(*)" legacy_options "\<lambda>ms. []"] by simp
qed

end
