(* ===== verification/MessageFingerprint.thy ===== *)
theory MessageFingerprint
  imports CompactPlanner CanonicalDigest
begin

section \<open>Fingerprints of message groups\<close>

text \<open>
  Models \<open>src/src/services/compact/fingerprint.ts\<close>: the digest that identifies a group of messages,
  and the one that binds a compaction candidate to its source. Keys are sorted by code unit here, not
  by \<open>localeCompare\<close>, so no assumption on a collation is needed.
\<close>

text \<open>The default order of \<open>Array.prototype.sort\<close> on strings.\<close>

fun unit_le :: "jsstr \<Rightarrow> jsstr \<Rightarrow> bool" where
  "unit_le [] ys \<longleftrightarrow> True"
| "unit_le (x # xs) [] \<longleftrightarrow> False"
| "unit_le (x # xs) (y # ys) \<longleftrightarrow> x < y \<or> x = y \<and> unit_le xs ys"

fun canonicalize :: "jsval \<Rightarrow> jsval" where
  "canonicalize (JArr xs) = JArr (map canonicalize xs)"
| "canonicalize (JObj kvs) = JObj (own_order (map (\<lambda>(k, v). (k, canonicalize v))
     (filter (\<lambda>kv. snd kv \<noteq> JUndefined) (sort_by (\<lambda>a b. unit_le (fst a) (fst b)) kvs))))"
| "canonicalize v = v"

definition canonicalToolArguments :: "js_env \<Rightarrow> jsstr \<Rightarrow> jsval" where
  "canonicalToolArguments E s = (case json_parse E s of Some v \<Rightarrow> canonicalize v | None \<Rightarrow> JStr s)"

definition role_text :: "message_role \<Rightarrow> jsstr" where
  "role_text r = (case r of MsgSystem \<Rightarrow> js ''system'' | MsgUser \<Rightarrow> js ''user''
     | MsgAssistant \<Rightarrow> js ''assistant'' | MsgTool \<Rightarrow> js ''tool'')"

definition optional :: "jsval option \<Rightarrow> jsval" where
  "optional v = (case v of None \<Rightarrow> JUndefined | Some x \<Rightarrow> x)"

definition call_view :: "js_env \<Rightarrow> tool_call \<Rightarrow> jsval" where
  "call_view E c = JObj [(js ''id'', JStr (tc_id c)), (js ''type'', JStr (js ''function'')),
     (js ''name'', JStr (tc_name c)), (js ''arguments'', canonicalToolArguments E (tc_arguments c))]"

definition message_view :: "js_env \<Rightarrow> message \<Rightarrow> jsval" where
  "message_view E m = JObj
     [(js ''role'', JStr (role_text (ms_role m))), (js ''content'', JStr (ms_content m)),
      (js ''toolCallId'', optional (map_option JStr (ms_toolCallId m))),
      (js ''cacheControl'', canonicalize (optional (ms_cacheControl m))),
      (js ''toolCalls'', optional (map_option (\<lambda>cs. JArr (map (call_view E) cs)) (ms_toolCalls m)))]"

definition canonicalMessagesFingerprint :: "js_env \<Rightarrow> message list \<Rightarrow> jsstr" where
  "canonicalMessagesFingerprint E ms =
     sha256_hex E (json_stringify E (JArr (map (message_view E) ms)))"

record candidate_boundary =
  cb_firstGroupId :: "jsstr option"
  cb_lastGroupId :: "jsstr option"
  cb_groupCount :: int
  cb_messageCount :: int
  cb_groupIds :: "jsstr list"

definition canonicalCompactCandidateFingerprint ::
  "js_env \<Rightarrow> message list \<Rightarrow> candidate_boundary \<Rightarrow> jsstr option \<Rightarrow> jsstr" where
  "canonicalCompactCandidateFingerprint E ms b strategyVersion =
     sha256_hex E (json_stringify E (canonicalize (JObj
       [(js ''contentHash'', JStr (canonicalMessagesFingerprint E ms)),
        (js ''sourceBoundary'', JObj
          [(js ''firstGroupId'', optional (map_option JStr (cb_firstGroupId b))),
           (js ''lastGroupId'', optional (map_option JStr (cb_lastGroupId b))),
           (js ''groupCount'', jint (cb_groupCount b)), (js ''messageCount'', jint (cb_messageCount b)),
           (js ''groupIds'', JArr (map JStr (cb_groupIds b)))]),
        (js ''strategyVersion'', JStr (case strategyVersion of
           None \<Rightarrow> js ''semantic-compact-v2'' | Some v \<Rightarrow> v))])))"

subsection \<open>The order of properties does not matter\<close>

lemma unit_le_total: "unit_le xs ys \<or> unit_le ys xs"
  by (induction xs ys rule: unit_le.induct) auto

lemma unit_le_antisym: "unit_le xs ys \<Longrightarrow> unit_le ys xs \<Longrightarrow> xs = ys"
proof (induction xs ys rule: unit_le.induct)
  case (1 ys)
  then show ?case by (cases ys) auto
qed auto

lemma unit_le_trans: "unit_le xs ys \<Longrightarrow> unit_le ys zs \<Longrightarrow> unit_le xs zs"
proof (induction xs ys arbitrary: zs rule: unit_le.induct)
  case (3 x xs y ys)
  then show ?case by (cases zs) auto
qed auto

lemma unit_le_linear: "linear_on unit_le A"
  unfolding linear_on_def using unit_le_total unit_le_antisym unit_le_trans by blast

definition canonical_entry :: "jsstr \<times> jsval \<Rightarrow> jsstr \<times> jsval" where
  "canonical_entry kv = (fst kv, canonicalize (snd kv))"

lemma canonicalize_undefined [simp]: "canonicalize v = JUndefined \<longleftrightarrow> v = JUndefined"
  by (cases v) simp_all

lemma canonicalize_obj:
  "canonicalize (JObj kvs) = JObj (own_order (filter (\<lambda>kv. snd kv \<noteq> JUndefined)
     (sort_by (\<lambda>a b. unit_le (fst a) (fst b)) (map canonical_entry kvs))))"
proof -
  have "sort_by (\<lambda>a b. unit_le (fst a) (fst b)) (map canonical_entry kvs)
      = map canonical_entry (sort_by (\<lambda>a b. unit_le (fst a) (fst b)) kvs)"
    by (rule map_sort_by [symmetric]) (simp add: canonical_entry_def)
  then show ?thesis by (simp add: filter_map canonical_entry_def [abs_def] case_prod_unfold comp_def)
qed

lemma canonicalize_same: "same_up_to_order v w \<Longrightarrow> canonicalize v = canonicalize w"
proof (induction rule: same_up_to_order.induct)
  case (same_refl v)
  show ?case by simp
next
  case (same_arr xs ys)
  then have "map canonicalize xs = map canonicalize ys"
    by (simp add: list_all2_conv_all_nth list_eq_iff_nth_eq)
  then show ?case by simp
next
  case (same_obj kvs zs lvs)
  let ?le = "\<lambda>a b :: jsstr \<times> jsval. unit_le (fst a) (fst b)"
  have entries: "map canonical_entry kvs = map canonical_entry zs"
    using same_obj.IH by (auto simp: list_all2_conv_all_nth list_eq_iff_nth_eq canonical_entry_def)
  have "linear_on ?le (set (map canonical_entry kvs))"
    using same_obj.hyps by (intro linear_on_entries unit_le_linear) (simp add: canonical_entry_def comp_def)
  moreover have "mset (map canonical_entry kvs) = mset (map canonical_entry lvs)"
    using entries same_obj.hyps by simp
  ultimately show ?case
    unfolding canonicalize_obj by (simp only: sort_by_mset_cong [of ?le])
qed

text \<open>Calls that differ in the order of properties of their JSON arguments only.\<close>

definition same_call :: "js_env \<Rightarrow> tool_call \<Rightarrow> tool_call \<Rightarrow> bool" where
  "same_call E c d \<longleftrightarrow> tc_id c = tc_id d \<and> tc_name c = tc_name d
     \<and> (tc_arguments c = tc_arguments d
        \<or> (\<exists>v w. json_parse E (tc_arguments c) = Some v \<and> json_parse E (tc_arguments d) = Some w
             \<and> same_up_to_order v w))"

lemma call_view_same: "same_call E c d \<Longrightarrow> call_view E c = call_view E d"
  using canonicalize_same
  by (auto simp: same_call_def call_view_def canonicalToolArguments_def split: option.splits)

definition same_message :: "js_env \<Rightarrow> message \<Rightarrow> message \<Rightarrow> bool" where
  "same_message E m n \<longleftrightarrow> ms_role m = ms_role n \<and> ms_content m = ms_content n
     \<and> ms_toolCallId m = ms_toolCallId n \<and> ms_cacheControl m = ms_cacheControl n
     \<and> rel_option (list_all2 (same_call E)) (ms_toolCalls m) (ms_toolCalls n)"

lemma message_view_same: "same_message E m n \<Longrightarrow> message_view E m = message_view E n"
proof -
  have "map (call_view E) cs = map (call_view E) ds" if "list_all2 (same_call E) cs ds" for cs ds
    using that call_view_same by (auto simp: list_all2_conv_all_nth list_eq_iff_nth_eq)
  then show "same_message E m n \<Longrightarrow> message_view E m = message_view E n"
    by (auto simp: same_message_def message_view_def rel_option_iff split: option.splits)
qed

text \<open>The fingerprint of a group does not depend on the order in which a tool's JSON arguments
  list their properties, at any depth, whatever the platform's JSON functions and hash are.\<close>

lemma fingerprint_ignores_argument_order:
  assumes "list_all2 (same_message E) ms ns"
  shows "canonicalMessagesFingerprint E ms = canonicalMessagesFingerprint E ns"
proof -
  have "map (message_view E) ms = map (message_view E) ns"
    using assms message_view_same by (auto simp: list_all2_conv_all_nth list_eq_iff_nth_eq)
  then show ?thesis by (simp add: canonicalMessagesFingerprint_def)
qed

definition echo_env :: js_env where
  "echo_env = \<lparr>json_stringify = (\<lambda>v. js ''text''),
     json_parse = (\<lambda>s. Some (JObj (map (\<lambda>u. ([u], JNull)) s))), string_of = (\<lambda>v. []),
     sha256_hex = (\<lambda>s. s), locale_le = (\<lambda>a b. True)\<rparr>"

definition one_call :: "string \<Rightarrow> message" where
  "one_call arguments = \<lparr>ms_role = MsgAssistant, ms_content = [],
     ms_toolCalls = Some [\<lparr>tc_id = js ''c'', tc_name = js ''read'', tc_arguments = js arguments\<rparr>],
     ms_toolCallId = None, ms_cacheControl = None\<rparr>"

lemma fingerprint_example:
  "canonicalMessagesFingerprint echo_env [one_call ''ab''] = canonicalMessagesFingerprint echo_env [one_call ''ba'']"
proof (rule fingerprint_ignores_argument_order)
  have "same_up_to_order (JObj [(js ''a'', JNull), (js ''b'', JNull)]) (JObj [(js ''b'', JNull), (js ''a'', JNull)])"
    by (rule same_obj [of _ "[(js ''a'', JNull), (js ''b'', JNull)]"]) (auto simp: js_def intro: same_refl)
  then show "list_all2 (same_message echo_env) [one_call ''ab''] [one_call ''ba'']"
    by (auto simp: one_call_def same_message_def same_call_def echo_env_def js_def)
qed

end
