(* ===== verification/WebSanitize.thy ===== *)
theory WebSanitize
  imports RuntimeProtocol "HOL-Library.Sublist"
begin

section \<open>What may leave the host for the browser\<close>

text \<open>
  Models \<open>isSensitiveFieldName\<close> of \<open>src/src/services/redaction.ts\<close> and the sanitisation of
  event payloads in \<open>src/src/web/event-hub.ts\<close>. \<open>redactTraceText\<close> is a table of regular
  expressions over text and stays a function \<open>redact\<close> of the definitions; what the hub does
  with the fields of a payload does not depend on it.
\<close>

subsection \<open>JavaScript object helpers\<close>

text \<open>\<open>o[k] = v\<close> on a plain object, and the spread \<open>{...o, ...p}\<close>.\<close>

fun set_prop :: "jsstr \<Rightarrow> jsval \<Rightarrow> jsval \<Rightarrow> jsval" where
  "set_prop k v (JObj kvs) = JObj (AList.update k v kvs)"
| "set_prop k v w = w"

fun spread_into :: "jsval \<Rightarrow> jsval \<Rightarrow> jsval" where
  "spread_into (JObj kvs) (JObj ps) = JObj (fold (\<lambda>(k, v). AList.update k v) ps kvs)"
| "spread_into o1 o2 = o1"

fun delete_prop :: "jsstr \<Rightarrow> jsval \<Rightarrow> jsval" where
  "delete_prop k (JObj kvs) = JObj (AList.delete k kvs)"
| "delete_prop k w = w"

lemma get_set_prop [simp]:
  "is_record v \<Longrightarrow> get_prop (set_prop k x v) k' = (if k' = k then x else get_prop v k')"
  by (cases v) (auto simp: update_conv')

lemma get_delete_prop [simp]:
  "get_prop (delete_prop k v) k' = (if k' = k then JUndefined else get_prop v k')"
  by (cases v) (auto simp: delete_conv')

lemma is_record_props [simp]:
  "is_record (set_prop k x v) = is_record v" "is_record (delete_prop k v) = is_record v"
  "is_record (spread_into v p) = is_record v"
  by (cases v; simp; cases p; simp)+

lemma is_record_ex: "is_record v \<longleftrightarrow> (\<exists>kvs. v = JObj kvs)"
  by (cases v) auto

subsection \<open>Sensitive field names\<close>

text \<open>
  \<open>field.replace(/[^a-z0-9]/giu, '').toLowerCase()\<close>. Under the flags \<open>i\<close> and \<open>u\<close> the class
  keeps ASCII letters and digits and the two code points that fold to one of them, the long s
  and the Kelvin sign; \<open>toLowerCase\<close> maps the Kelvin sign to \<open>k\<close> and leaves the long s alone.
\<close>

definition kept_unit :: "16 word \<Rightarrow> bool" where
  "kept_unit u \<longleftrightarrow> 0x30 \<le> u \<and> u \<le> 0x39 \<or> 0x41 \<le> u \<and> u \<le> 0x5A \<or> 0x61 \<le> u \<and> u \<le> 0x7A
     \<or> u = 0x17F \<or> u = 0x212A"

definition lower_unit :: "16 word \<Rightarrow> 16 word" where
  "lower_unit u =
     (if 0x41 \<le> u \<and> u \<le> 0x5A then u + 0x20 else if u = 0x212A then 0x6B else u)"

definition normalized_field :: "jsstr \<Rightarrow> jsstr" where
  "normalized_field field = map lower_unit (filter kept_unit field)"

definition ends_with :: "jsstr \<Rightarrow> jsstr \<Rightarrow> bool" where
  "ends_with s t \<longleftrightarrow> length t \<le> length s \<and> drop (length s - length t) s = t"

fun includes_text :: "jsstr \<Rightarrow> jsstr \<Rightarrow> bool" where
  "includes_text [] t \<longleftrightarrow> t = []"
| "includes_text (u # s) t \<longleftrightarrow> starts_with (u # s) t \<or> includes_text s t"

definition isSensitiveFieldName :: "jsstr \<Rightarrow> bool" where
  "isSensitiveFieldName field = (let normalized = normalized_field field in
     normalized \<noteq> [] \<and>
     (normalized \<in> set [js ''env'', js ''environment'', js ''header'', js ''headers'']
      \<or> list_ex (ends_with normalized)
          [js ''authorization'', js ''cookie'', js ''password'', js ''passphrase'', js ''token'',
           js ''apikey'', js ''privatekey'', js ''signingkey'', js ''encryptionkey'',
           js ''sessionkey'', js ''accountkey'', js ''connectionstring'', js ''databaseurl'']
      \<or> normalized \<in> set [js ''dsn'', js ''pwd'', js ''auth'']
      \<or> list_ex (ends_with normalized) [js ''auth'', js ''secret'', js ''secretkey'']
      \<or> includes_text normalized (js ''secretaccesskey'')
      \<or> includes_text normalized (js ''credential'')))"

subsection \<open>Payloads\<close>

definition isSecretKey :: "jsstr \<Rightarrow> bool" where
  "isSecretKey key = isSensitiveFieldName key"

text \<open>
  \<open>sanitizeValue\<close>. A property named \<open>__proto__\<close> never becomes an own property of the result:
  the assignment goes to the setter of \<open>Object.prototype\<close>.
\<close>

definition forwarded_key :: "jsstr \<Rightarrow> bool" where
  "forwarded_key k \<longleftrightarrow> \<not> isSecretKey k \<and> k \<noteq> js ''abortSignal'' \<and> k \<noteq> js ''__proto__''"

fun sanitizeValue :: "(jsstr \<Rightarrow> jsstr) \<Rightarrow> jsval \<Rightarrow> jsval" where
  "sanitizeValue redact (JStr s) = JStr (redact s)"
| "sanitizeValue redact (JArr xs) = JArr (map (sanitizeValue redact) xs)"
| "sanitizeValue redact (JObj kvs) =
     JObj (filter (\<lambda>(k, v). forwarded_key k) (map (\<lambda>(k, v). (k, sanitizeValue redact v)) kvs))"
| "sanitizeValue redact v = v"

definition authorization_sources :: "jsstr list" where
  "authorization_sources = [js ''tool_policy'', js ''config_allow'', js ''config_deny'', js ''user'',
     js ''missing_confirmation'', js ''drift_guard'', js ''mode_auto'', js ''mode_accept_edits'',
     js ''allowlist_allow'', js ''allowlist_deny'', js ''allowlist_ask'',
     js ''missing_risk_metadata'', js ''risk_guard'', js ''config_allow_blocked'']"

fun str_in :: "jsval \<Rightarrow> jsstr list \<Rightarrow> bool" where
  "str_in (JStr s) xs = List.member xs s"
| "str_in _ xs = False"

fun is_bool :: "jsval \<Rightarrow> bool" where
  "is_bool (JBool _) = True"
| "is_bool _ = False"

fun js_str_of :: "jsval \<Rightarrow> jsstr option" where
  "js_str_of (JStr s) = Some s"
| "js_str_of _ = None"

definition sanitizeToolAuthorization :: "(jsstr \<Rightarrow> jsstr) \<Rightarrow> jsval \<Rightarrow> jsval option" where
  "sanitizeToolAuthorization redact a =
     (if \<not> is_record a \<or> \<not> is_bool (get_prop a (js ''approved''))
         \<or> \<not> str_in (get_prop a (js ''source'')) authorization_sources
      then None
      else Some (JObj
        ([(js ''approved'', get_prop a (js ''approved'')), (js ''source'', get_prop a (js ''source''))]
         @ (if str_in (get_prop a (js ''behavior'')) [js ''allow'', js ''ask'', js ''deny'']
            then [(js ''behavior'', get_prop a (js ''behavior''))] else [])
         @ (case js_str_of (get_prop a (js ''reason'')) of
              Some r \<Rightarrow> [(js ''reason'', JStr (redact r))] | None \<Rightarrow> []))))"

definition sanitizeRuntimeEvent :: "(jsstr \<Rightarrow> jsstr) \<Rightarrow> jsval \<Rightarrow> jsval" where
  "sanitizeRuntimeEvent redact event = (let sanitized = sanitizeValue redact event in
     if get_prop event (js ''type'') \<noteq> JStr (js ''tool_finished'')
        \<or> get_prop sanitized (js ''type'') \<noteq> JStr (js ''tool_finished'')
     then sanitized
     else case sanitizeToolAuthorization redact
                 (get_prop (get_prop event (js ''event'')) (js ''authorization'')) of
            None \<Rightarrow> sanitized
          | Some a \<Rightarrow> set_prop (js ''event'')
              (set_prop (js ''authorization'') a (get_prop sanitized (js ''event''))) sanitized)"

definition sanitizeThreadEvent :: "(jsstr \<Rightarrow> jsstr) \<Rightarrow> jsval \<Rightarrow> jsval" where
  "sanitizeThreadEvent redact event = sanitizeValue redact event"

subsection \<open>Nothing sensitive is left\<close>

text \<open>
  Every property of the value, at any depth, satisfies \<open>P\<close>, and every string in it \<open>Q\<close>.
\<close>

fun all_fields :: "(jsstr \<Rightarrow> bool) \<Rightarrow> (jsstr \<Rightarrow> bool) \<Rightarrow> jsval \<Rightarrow> bool" where
  "all_fields P Q (JStr s) = Q s"
| "all_fields P Q (JArr xs) = list_all (all_fields P Q) xs"
| "all_fields P Q (JObj kvs) = list_all (\<lambda>(k, v). P k \<and> all_fields P Q v) kvs"
| "all_fields P Q v = True"

lemma sanitizeValue_clean:
  "all_fields forwarded_key (\<lambda>s. \<exists>t. s = redact t) (sanitizeValue redact v)"
proof (induction v)
  case (JObj kvs)
  then show ?case by (fastforce simp: list_all_iff)
qed (auto simp: list_all_iff)

lemma all_fields_mono:
  "all_fields P Q v \<Longrightarrow> (\<And>k. P k \<Longrightarrow> P' k) \<Longrightarrow> all_fields P' Q v"
proof (induction v)
  case (JObj kvs)
  then show ?case by (fastforce simp: list_all_iff)
qed (auto simp: list_all_iff)

lemma all_fields_get_prop: "all_fields P Q v \<Longrightarrow> all_fields P Q (get_prop v k)"
  by (cases v) (auto simp: list_all_iff split: option.split dest!: map_of_SomeD)

lemma set_AList_update: "set (AList.update k x kvs) \<subseteq> insert (k, x) (set kvs)"
  by (induction kvs) auto

lemma all_fields_set_prop:
  "all_fields P Q v \<Longrightarrow> P k \<Longrightarrow> all_fields P Q x \<Longrightarrow> all_fields P Q (set_prop k x v)"
proof (cases v)
  case (JObj kvs)
  assume "all_fields P Q v" "P k" "all_fields P Q x"
  with JObj show ?thesis
    using set_AList_update [of k x kvs] by (fastforce simp: list_all_iff)
qed auto

lemma is_record_sanitizeValue [simp]: "is_record (sanitizeValue redact v) = is_record v"
  by (cases v) auto

lemma get_prop_sanitizeValue:
  "get_prop (sanitizeValue redact v) k
     = (if forwarded_key k then sanitizeValue redact (get_prop v k) else JUndefined)"
proof (cases v)
  case (JObj kvs)
  have "map_of (filter (\<lambda>(k, v). forwarded_key k) (map (\<lambda>(k, v). (k, sanitizeValue redact v)) kvs)) k
      = (if forwarded_key k then map_option (sanitizeValue redact) (map_of kvs k) else None)"
    by (induction kvs) auto
  then show ?thesis using JObj by (auto split: option.split)
qed auto

text \<open>A trivial environment, for examples in which the text of JSON does not matter.\<close>

definition quiet_env :: js_env where
  "quiet_env = \<lparr>json_stringify = (\<lambda>v. []), json_parse = (\<lambda>s. None), string_of = (\<lambda>v. []),
     sha256_hex = (\<lambda>s. s), locale_le = (\<lambda>a b. True)\<rparr>"

end
