(* ===== verification/EventHub.thy ===== *)
theory EventHub
  imports WebSanitize
begin

section \<open>The event hub of the web workbench\<close>

text \<open>
  Models \<open>WebEventHub\<close> of \<open>src/src/web/event-hub.ts\<close>: envelopes with consecutive cursors,
  the retained window, the fan-out to connected responses, replay on reconnect and the
  compaction of streamed transcript text. Responses are numbered sockets; what became of the
  \<open>n\<close>-th write on a socket is given by the environment \<open>net\<close>. Event identities and
  timestamps (\<open>randomUUID\<close>, the clock) are arguments.
\<close>

subsection \<open>Data\<close>

datatype web_event =
    WbRuntimeEvent jsval
  | WbThreadEvent jsval
  | WbWorkbenchState jsval jsval jsval jsval
  | WbSettingsInvalidated jsval jsval jsval
  | WbResourceInvalidated jsval jsval jsval
  | WbComposerState jsval
  | WbSessionRuntime jsval
  | WbMutationChanged jsval
  | WbReplayReset jsval

record web_envelope =
  we_eventId :: jsstr
  we_cursor :: int
  we_sessionId :: "jsstr option"
  we_threadId :: "jsstr option"
  we_durable :: bool
  we_timestamp :: jsstr
  we_type :: jsstr
  we_payload :: jsval

record retained_event =
  rt_envelope :: web_envelope
  rt_encoded :: jsstr
  rt_bytes :: nat

record hub_config =
  hc_maxEvents :: nat
  hc_maxBytes :: nat

record event_hub =
  hb_retained :: "retained_event list"
  hb_clients :: "nat list"
  hb_contents :: "(jsstr \<times> jsstr) list"
  hb_nextCursor :: int
  hb_bytes :: nat
  hb_discarded :: int
  hb_resets :: nat

datatype hub_error =
    OptionNotPositive string
  | ThreadEventNeedsIdentity
  | EventNeedsSession string

type_synonym hub_context = "jsstr option \<times> jsstr option"

text \<open>\<open>positiveInteger\<close> and the constructor.\<close>

definition hub_positive :: "int \<Rightarrow> string \<Rightarrow> hub_error + nat" where
  "hub_positive value name =
     (if \<not> is_safe_integer value \<or> value < 1 then Inl (OptionNotPositive name)
      else Inr (nat value))"

definition new_hub :: "int option \<Rightarrow> int option \<Rightarrow> hub_error + hub_config \<times> event_hub" where
  "new_hub maxEvents maxBytes =
     (case hub_positive (case maxEvents of None \<Rightarrow> 10000 | Some n \<Rightarrow> n) ''maxEvents'' of
        Inl e \<Rightarrow> Inl e
      | Inr ne \<Rightarrow>
     (case hub_positive (case maxBytes of None \<Rightarrow> 10 * 1024 * 1024 | Some n \<Rightarrow> n) ''maxBytes'' of
        Inl e \<Rightarrow> Inl e
      | Inr nb \<Rightarrow> Inr (\<lparr>hc_maxEvents = ne, hc_maxBytes = nb\<rparr>,
          \<lparr>hb_retained = [], hb_clients = [], hb_contents = [], hb_nextCursor = 1, hb_bytes = 0,
           hb_discarded = 0, hb_resets = 0\<rparr>)))"

subsection \<open>Sockets\<close>

text \<open>
  A response that is neither destroyed nor ended, and the frames it has accepted. A write is
  accepted, accepted with back pressure (\<open>write\<close> returns false), or throws.
\<close>

datatype sse_frame = EventFrame web_envelope | HeartbeatFrame

datatype write_outcome = WriteAccepted | WriteBackpressure | WriteThrows

record sse_socket =
  so_open :: bool
  so_frames :: "sse_frame list"

type_synonym sockets = "nat \<Rightarrow> sse_socket"
type_synonym network = "nat \<Rightarrow> nat \<Rightarrow> write_outcome"

definition writeClient :: "network \<Rightarrow> nat \<Rightarrow> sse_frame \<Rightarrow> sockets \<Rightarrow> bool \<times> sockets" where
  "writeClient net n data S =
     (if \<not> so_open (S n) then (False, S)
      else case net n (length (so_frames (S n))) of
        WriteAccepted \<Rightarrow> (True, S(n := (S n)\<lparr>so_frames := so_frames (S n) @ [data]\<rparr>))
      | WriteBackpressure \<Rightarrow>
          (False, S(n := (S n)\<lparr>so_frames := so_frames (S n) @ [data], so_open := False\<rparr>))
      | WriteThrows \<Rightarrow> (False, S(n := (S n)\<lparr>so_open := False\<rparr>)))"

text \<open>\<open>for (const client of clients) if (!writeClient(...)) clients.delete(client)\<close>.\<close>

fun broadcast :: "network \<Rightarrow> sse_frame \<Rightarrow> nat list \<Rightarrow> sockets \<Rightarrow> nat list \<times> sockets" where
  "broadcast net data [] S = ([], S)"
| "broadcast net data (c # cs) S =
     (let (ok, S1) = writeClient net c data S; (cs', S2) = broadcast net data cs S1 in
      (if ok then c # cs' else cs', S2))"

subsection \<open>Envelopes\<close>

fun web_event_type :: "web_event \<Rightarrow> jsstr" where
  "web_event_type (WbRuntimeEvent _) = js ''runtime_event''"
| "web_event_type (WbThreadEvent _) = js ''thread_event''"
| "web_event_type (WbWorkbenchState _ _ _ _) = js ''workbench_state''"
| "web_event_type (WbSettingsInvalidated _ _ _) = js ''settings_invalidated''"
| "web_event_type (WbResourceInvalidated _ _ _) = js ''workspace_resource_invalidated''"
| "web_event_type (WbComposerState _) = js ''composer_state_changed''"
| "web_event_type (WbSessionRuntime _) = js ''session_runtime_changed''"
| "web_event_type (WbMutationChanged _) = js ''workspace_mutation_changed''"
| "web_event_type (WbReplayReset _) = js ''replay_reset''"

fun web_payload :: "web_event \<Rightarrow> jsval" where
  "web_payload (WbRuntimeEvent v) =
     JObj [(js ''eventType'', get_prop v (js ''type'')), (js ''value'', v)]"
| "web_payload (WbThreadEvent v) =
     JObj [(js ''sequence'', get_prop v (js ''seq'')),
           (js ''eventType'', get_prop (get_prop v (js ''payload'')) (js ''type'')),
           (js ''value'', v)]"
| "web_payload (WbWorkbenchState rv wid w sid) =
     JObj [(js ''contextRevision'', rv), (js ''workspaceId'', wid), (js ''workspace'', w),
           (js ''activeSessionId'', sid)]"
| "web_payload (WbSettingsInvalidated rv reason st) =
     JObj [(js ''revision'', rv), (js ''reason'', reason), (js ''state'', st)]"
| "web_payload (WbResourceInvalidated wid resources reason) =
     JObj [(js ''workspaceId'', wid), (js ''resources'', resources), (js ''reason'', reason)]"
| "web_payload (WbComposerState st) = JObj [(js ''state'', st)]"
| "web_payload (WbSessionRuntime rt) = JObj [(js ''runtime'', rt)]"
| "web_payload (WbMutationChanged st) = JObj [(js ''state'', st)]"
| "web_payload (WbReplayReset reason) =
     JObj [(js ''reason'', reason), (js ''snapshotRequired'', JBool True)]"

fun identity_error :: "web_event \<Rightarrow> hub_context \<Rightarrow> hub_error option" where
  "identity_error (WbThreadEvent _) (sid, tid) =
     (if \<not> truthy sid \<or> \<not> truthy tid then Some ThreadEventNeedsIdentity else None)"
| "identity_error (WbComposerState _) (sid, tid) =
     (if \<not> truthy sid then Some (EventNeedsSession ''Composer state'') else None)"
| "identity_error (WbSessionRuntime _) (sid, tid) =
     (if \<not> truthy sid then Some (EventNeedsSession ''Session Runtime'') else None)"
| "identity_error (WbMutationChanged _) (sid, tid) =
     (if \<not> truthy sid then Some (EventNeedsSession ''Workspace mutation'') else None)"
| "identity_error _ ctx = None"

text \<open>The durability the envelope carries, which a few types fix.\<close>

fun envelope_durable :: "web_event \<Rightarrow> bool \<Rightarrow> bool" where
  "envelope_durable (WbThreadEvent _) d = True"
| "envelope_durable (WbSettingsInvalidated _ _ _) d = False"
| "envelope_durable (WbResourceInvalidated _ _ _) d = False"
| "envelope_durable (WbComposerState _) d = True"
| "envelope_durable (WbSessionRuntime _) d = True"
| "envelope_durable (WbMutationChanged _) d = False"
| "envelope_durable (WbReplayReset _) d = True"
| "envelope_durable _ d = d"

definition toEnvelope ::
  "jsstr \<Rightarrow> jsstr \<Rightarrow> int \<Rightarrow> hub_context \<Rightarrow> bool \<Rightarrow> web_event \<Rightarrow> hub_error + web_envelope" where
  "toEnvelope uid ts c ctx durable ev =
     (case identity_error ev ctx of
        Some e \<Rightarrow> Inl e
      | None \<Rightarrow> Inr \<lparr>we_eventId = uid, we_cursor = c, we_sessionId = fst ctx,
          we_threadId = snd ctx, we_durable = envelope_durable ev durable, we_timestamp = ts,
          we_type = web_event_type ev, we_payload = web_payload ev\<rparr>)"

fun str_or_null :: "jsstr option \<Rightarrow> jsval" where
  "str_or_null None = JNull"
| "str_or_null (Some s) = JStr s"

definition web_envelope_value :: "web_envelope \<Rightarrow> jsval" where
  "web_envelope_value e = JObj [(js ''apiVersion'', jint 1), (js ''eventId'', JStr (we_eventId e)),
     (js ''cursor'', jint (we_cursor e)), (js ''sessionId'', str_or_null (we_sessionId e)),
     (js ''threadId'', str_or_null (we_threadId e)), (js ''durable'', JBool (we_durable e)),
     (js ''timestamp'', JStr (we_timestamp e)), (js ''type'', JStr (we_type e)),
     (js ''payload'', we_payload e)]"

definition encodeSse :: "js_env \<Rightarrow> web_envelope \<Rightarrow> jsstr" where
  "encodeSse E e = js ''id: '' @ string_of E (jint (we_cursor e)) @ [0x0A] @ js ''event: orion''
     @ [0x0A] @ js ''data: '' @ json_stringify E (web_envelope_value e) @ [0x0A, 0x0A]"

subsection \<open>The retained window\<close>

function hub_trim :: "hub_config \<Rightarrow> event_hub \<Rightarrow> event_hub" where
  "hub_trim C h =
     (if length (hb_retained h) > hc_maxEvents C \<or> hb_bytes h > hc_maxBytes C
      then case hb_retained h of
        [] \<Rightarrow> h
      | removed # rest \<Rightarrow> hub_trim C (h\<lparr>hb_retained := rest,
          hb_bytes := hb_bytes h - rt_bytes removed,
          hb_discarded := max (hb_discarded h) (we_cursor (rt_envelope removed))\<rparr>)
      else h)"
  by pat_completeness auto
termination by (relation "measure (\<lambda>(C, h). length (hb_retained h))") auto

declare hub_trim.simps [simp del]

fun always_retained :: "web_event \<Rightarrow> bool" where
  "always_retained (WbSettingsInvalidated _ _ _) = True"
| "always_retained (WbResourceInvalidated _ _ _) = True"
| "always_retained _ = False"

definition retain :: "js_env \<Rightarrow> hub_config \<Rightarrow> web_envelope \<Rightarrow> event_hub \<Rightarrow> event_hub" where
  "retain E C e h = (let encoded = encodeSse E e in
     hub_trim C (h\<lparr>hb_retained := hb_retained h @
         [\<lparr>rt_envelope = e, rt_encoded = encoded, rt_bytes = utf8_bytes encoded\<rparr>],
       hb_bytes := hb_bytes h + utf8_bytes encoded\<rparr>))"

text \<open>\<open>emit\<close>. The cursor is taken before \<open>toEnvelope\<close> may throw.\<close>

definition hub_emit ::
  "js_env \<Rightarrow> hub_config \<Rightarrow> network \<Rightarrow> jsstr \<Rightarrow> jsstr \<Rightarrow> web_event \<Rightarrow> bool \<Rightarrow> hub_context
     \<Rightarrow> event_hub \<times> sockets \<Rightarrow> (hub_error + web_envelope) \<times> event_hub \<times> sockets" where
  "hub_emit E C net uid ts ev durable ctx hS = (case hS of (h, S) \<Rightarrow>
     (let h1 = h\<lparr>hb_nextCursor := hb_nextCursor h + 1\<rparr> in
      case toEnvelope uid ts (hb_nextCursor h) ctx durable ev of
        Inl err \<Rightarrow> (Inl err, h1, S)
      | Inr e \<Rightarrow>
          (let h2 = (if durable \<or> always_retained ev then retain E C e h1 else h1);
               (cs, S') = broadcast net (EventFrame e) (hb_clients h2) S in
           (Inr e, h2\<lparr>hb_clients := cs\<rparr>, S'))))"

subsection \<open>Runtime and thread events\<close>

definition isDurableRuntimeEvent :: "jsval \<Rightarrow> bool" where
  "isDurableRuntimeEvent event \<longleftrightarrow> \<not> str_in (get_prop event (js ''type''))
     [js ''status_changed'', js ''processing_changed'', js ''transcript_update'',
      js ''loop_stats_updated'']"

definition transcriptSessionPrefix :: "jsstr option \<Rightarrow> jsstr" where
  "transcriptSessionPrefix sid =
     (case sid of None \<Rightarrow> js ''<surface>'' | Some s \<Rightarrow> s) @ [0]"

definition transcriptContentKey :: "jsstr option \<Rightarrow> jsstr \<Rightarrow> jsstr" where
  "transcriptContentKey sid ident = transcriptSessionPrefix sid @ ident"

text \<open>
  \<open>rememberTranscriptContent\<close>: the entry moves to the end, and the oldest entries go
  while there are more than 128 (one addition at a time, so one step is enough; an empty
  key would end the loop, but no key is empty).
\<close>

definition contents_limit :: nat where
  "contents_limit = 128"

function drop_oldest :: "(jsstr \<times> jsstr) list \<Rightarrow> (jsstr \<times> jsstr) list" where
  "drop_oldest m = (if length m > contents_limit
     then case m of [] \<Rightarrow> m
       | (k, v) # rest \<Rightarrow> if k = [] then m else drop_oldest rest
     else m)"
  by pat_completeness auto
termination by (relation "measure length") auto

declare drop_oldest.simps [simp del]

definition rememberTranscriptContent :: "jsstr \<Rightarrow> jsstr \<Rightarrow> event_hub \<Rightarrow> event_hub" where
  "rememberTranscriptContent key content h =
     h\<lparr>hb_contents := drop_oldest (AList.delete key (hb_contents h) @ [(key, content)])\<rparr>"

text \<open>The string an identity of the event interpolates to: events carry string identities.\<close>

definition ident_text :: "js_env \<Rightarrow> jsval \<Rightarrow> jsstr" where
  "ident_text E v = (case js_str_of v of Some s \<Rightarrow> s | None \<Rightarrow> string_of E v)"

definition type_is :: "string \<Rightarrow> jsval \<Rightarrow> bool" where
  "type_is t event \<longleftrightarrow> get_prop event (js ''type'') = JStr (js t)"

definition compactRuntimeEvent ::
  "js_env \<Rightarrow> jsval \<Rightarrow> jsstr option \<Rightarrow> event_hub \<Rightarrow> jsval \<times> event_hub" where
  "compactRuntimeEvent E event sid h =
     (let key = transcriptContentKey sid (ident_text E (get_prop event (js ''id'')));
          patch = get_prop event (js ''patch'') in
      case (type_is ''transcript_update'' event, js_str_of (get_prop patch (js ''content''))) of
        (True, Some content) \<Rightarrow>
          (let h' = rememberTranscriptContent key content h in
           case map_of (hb_contents h) key of
             Some previous \<Rightarrow>
               (if starts_with content previous
                then (set_prop (js ''contentStart'') (jint (int (length previous)))
                       (set_prop (js ''contentDelta'') (JStr (drop (length previous) content))
                         (set_prop (js ''patch'') (delete_prop (js ''content'') patch) event)), h')
                else (event, h'))
           | None \<Rightarrow> (event, h'))
      | _ \<Rightarrow>
          (event,
           if type_is ''transcript_finalize'' event \<or> type_is ''transcript_remove'' event
           then h\<lparr>hb_contents := AList.delete key (hb_contents h)\<rparr>
           else if type_is ''transcript_clear'' event \<or> type_is ''transcript_replace'' event
           then h\<lparr>hb_contents :=
             filter (\<lambda>(k, v). \<not> starts_with k (transcriptSessionPrefix sid)) (hb_contents h)\<rparr>
           else h))"

definition emitRuntime ::
  "js_env \<Rightarrow> hub_config \<Rightarrow> network \<Rightarrow> (jsstr \<Rightarrow> jsstr) \<Rightarrow> jsstr \<Rightarrow> jsstr \<Rightarrow> jsval \<Rightarrow> hub_context
     \<Rightarrow> event_hub \<times> sockets \<Rightarrow> (hub_error + web_envelope) \<times> event_hub \<times> sockets" where
  "emitRuntime E C net redact uid ts event ctx hS =
     (let (v, h) = compactRuntimeEvent E (sanitizeRuntimeEvent redact event) (fst ctx) (fst hS) in
      hub_emit E C net uid ts (WbRuntimeEvent v) (isDurableRuntimeEvent event) ctx (h, snd hS))"

definition emitThread ::
  "js_env \<Rightarrow> hub_config \<Rightarrow> network \<Rightarrow> (jsstr \<Rightarrow> jsstr) \<Rightarrow> jsstr \<Rightarrow> jsstr \<Rightarrow> jsval \<Rightarrow> jsstr
     \<Rightarrow> event_hub \<times> sockets \<Rightarrow> (hub_error + web_envelope) \<times> event_hub \<times> sockets" where
  "emitThread E C net redact uid ts event sid hS =
     hub_emit E C net uid ts (WbThreadEvent (sanitizeThreadEvent redact event)) True
       (Some sid, js_str_of (get_prop event (js ''threadId''))) hS"

subsection \<open>Clients\<close>

fun replay_to ::
  "network \<Rightarrow> nat \<Rightarrow> int \<Rightarrow> retained_event list \<Rightarrow> sockets \<Rightarrow> bool \<times> sockets" where
  "replay_to net n cursor [] S = (True, S)"
| "replay_to net n cursor (item # rest) S =
     (if we_cursor (rt_envelope item) > cursor
      then let (ok, S1) = writeClient net n (EventFrame (rt_envelope item)) S in
        if ok then replay_to net n cursor rest S1 else (False, S1)
      else replay_to net n cursor rest S)"

definition reset_envelope :: "jsstr \<Rightarrow> jsstr \<Rightarrow> int \<Rightarrow> web_envelope" where
  "reset_envelope uid ts latest = \<lparr>we_eventId = uid, we_cursor = latest, we_sessionId = None,
     we_threadId = None, we_durable = True, we_timestamp = ts, we_type = js ''replay_reset'',
     we_payload = JObj [(js ''reason'', JStr (js ''Requested cursor is outside retained history.'')),
       (js ''snapshotRequired'', JBool True)]\<rparr>"

text \<open>\<open>attach\<close>; a response of which replay failed is never registered.\<close>

definition hub_attach ::
  "network \<Rightarrow> jsstr \<Rightarrow> jsstr \<Rightarrow> nat \<Rightarrow> int \<Rightarrow> event_hub \<times> sockets \<Rightarrow> event_hub \<times> sockets" where
  "hub_attach net uid ts n cursor hS = (case hS of (h, S) \<Rightarrow>
     (let latest = hb_nextCursor h - 1 in
      if cursor > latest \<or> cursor < hb_discarded h
      then let (ok, S1) = writeClient net n (EventFrame (reset_envelope uid ts latest)) S in
        (h\<lparr>hb_resets := hb_resets h + 1\<rparr>,
         if ok then S1(n := (S1 n)\<lparr>so_open := False\<rparr>) else S1)
      else let (ok, S1) = replay_to net n cursor (hb_retained h) S in
        (if ok then (h\<lparr>hb_clients := (if n \<in> set (hb_clients h) then hb_clients h else hb_clients h @ [n])\<rparr>, S1) else (h, S1))))"

definition hub_detach :: "nat \<Rightarrow> event_hub \<Rightarrow> event_hub" where
  "hub_detach n h = h\<lparr>hb_clients := filter (\<lambda>c. c \<noteq> n) (hb_clients h)\<rparr>"

definition heartbeat :: "network \<Rightarrow> event_hub \<times> sockets \<Rightarrow> event_hub \<times> sockets" where
  "heartbeat net hS = (case hS of (h, S) \<Rightarrow>
     (let (cs, S') = broadcast net HeartbeatFrame (hb_clients h) S in
      (h\<lparr>hb_clients := cs\<rparr>, S')))"

definition close_hub :: "event_hub \<times> sockets \<Rightarrow> event_hub \<times> sockets" where
  "close_hub hS = (case hS of (h, S) \<Rightarrow>
     (h\<lparr>hb_clients := []\<rparr>,
      fold (\<lambda>n S. S(n := (S n)\<lparr>so_open := False\<rparr>)) (hb_clients h) S))"

definition hub_snapshot :: "event_hub \<Rightarrow> int \<times> int \<times> nat \<times> nat" where
  "hub_snapshot h =
     (case hb_retained h of [] \<Rightarrow> hb_nextCursor h | r # _ \<Rightarrow> we_cursor (rt_envelope r),
      hb_nextCursor h - 1, length (hb_retained h), hb_resets h)"

end
