(* ===== verification/WebClient.thy ===== *)
theory WebClient
  imports EventHub
begin

section \<open>The browser's end of the event stream\<close>

text \<open>
  Models \<open>parseEnvelope\<close> and \<open>connectEvents\<close> of \<open>src/web/src/api.ts\<close> (with
  \<open>parseSettingsInvalidatedEvent\<close> of \<open>settings/contract.ts\<close>), and the system of one such client,
  the hub and any number of other clients. A frame is the envelope it encodes: the SSE text
  and its JSON are read back as they were written.
\<close>

subsection \<open>parseEnvelope\<close>

definition is_uuid :: "jsval \<Rightarrow> bool" where
  "is_uuid v = (case js_str_of v of Some s \<Rightarrow> isRuntimeId s | None \<Rightarrow> False)"

definition is_str :: "jsval \<Rightarrow> bool" where
  "is_str v \<longleftrightarrow> js_str_of v \<noteq> None"

definition safe_at_least :: "int \<Rightarrow> jsval \<Rightarrow> bool" where
  "safe_at_least n v =
     (case int_of_val v of Some i \<Rightarrow> is_safe_integer i \<and> n \<le> i | None \<Rightarrow> False)"

definition lower_hex :: "16 word \<Rightarrow> bool" where
  "lower_hex u \<longleftrightarrow> 0x30 \<le> u \<and> u \<le> 0x39 \<or> 0x61 \<le> u \<and> u \<le> 0x66"

definition is_revision :: "jsstr \<Rightarrow> bool" where
  "is_revision s \<longleftrightarrow> starts_with s (js ''hmac-sha256:'') \<and> length s = 76 \<and> list_all lower_hex (drop 12 s)"

definition obj_keys :: "jsval \<Rightarrow> jsstr list" where
  "obj_keys v = (case v of JObj kvs \<Rightarrow> map fst kvs | _ \<Rightarrow> [])"

definition envelope_types :: "jsstr list" where
  "envelope_types = [js ''runtime_event'', js ''thread_event'', js ''workbench_state'',
     js ''replay_reset'', js ''settings_invalidated'', js ''workspace_resource_invalidated'',
     js ''composer_state_changed'', js ''session_runtime_changed'',
     js ''workspace_mutation_changed'']"

definition parseSettingsInvalidatedEvent :: "web_envelope \<Rightarrow> bool" where
  "parseSettingsInvalidatedEvent e = (let p = we_payload e in
     is_record p
     \<and> list_all (\<lambda>k. k \<in> set [js ''revision'', js ''reason'', js ''state'']) (obj_keys p)
     \<and> (case js_str_of (get_prop p (js ''revision'')) of
          Some r \<Rightarrow> js_trim r \<noteq> [] \<and> is_revision r | None \<Rightarrow> False)
     \<and> js_trim (we_eventId e) \<noteq> [] \<and> is_safe_integer (we_cursor e) \<and> 0 \<le> we_cursor e
     \<and> js_trim (we_timestamp e) \<noteq> []
     \<and> str_in (get_prop p (js ''reason''))
         [js ''local-write'', js ''external-edit'', js ''workspace-change'']
     \<and> str_in (get_prop p (js ''state'')) [js ''ready'', js ''invalid''])"

definition isSessionRuntimeSummary :: "js_env \<Rightarrow> jsval \<Rightarrow> bool" where
  "isSessionRuntimeSummary E v \<longleftrightarrow>
     is_uuid (get_prop v (js ''workspaceId'')) \<and> is_uuid (get_prop v (js ''sessionId''))
     \<and> is_uuid (get_prop v (js ''runtimeRevision''))
     \<and> ident_text E (get_prop v (js ''phase'')) \<in> set [js ''cold'', js ''starting'', js ''idle'',
         js ''queued'', js ''running'', js ''waiting_approval'', js ''stopping'',
         js ''interrupted'', js ''failed'']
     \<and> safe_at_least 0 (get_prop v (js ''pendingApprovalCount''))
     \<and> is_bool (get_prop v (js ''resident''))
     \<and> safe_at_least 0 (get_prop v (js ''estimatedBytes''))
     \<and> is_str (get_prop v (js ''updatedAt''))
     \<and> (if get_prop v (js ''phase'') = JStr (js ''queued'')
        then is_uuid (get_prop v (js ''queueId'')) \<and> safe_at_least 1 (get_prop v (js ''queuePosition''))
        else get_prop v (js ''queueId'') = JUndefined \<and> get_prop v (js ''queuePosition'') = JUndefined)"

definition mutation_state_ok :: "js_env \<Rightarrow> jsval \<Rightarrow> bool" where
  "mutation_state_ok E st \<longleftrightarrow> is_record st
     \<and> (case js_str_of (get_prop st (js ''callId'')) of Some c \<Rightarrow> c \<noteq> [] | None \<Rightarrow> False)
     \<and> ident_text E (get_prop st (js ''phase'')) \<in> set [js ''queued'', js ''running'',
         js ''completed'', js ''failed'', js ''cancelled'']
     \<and> (if get_prop st (js ''phase'') = JStr (js ''queued'')
        then safe_at_least 1 (get_prop st (js ''queuePosition''))
        else get_prop st (js ''queuePosition'') = JUndefined)"

fun js_elems :: "jsval \<Rightarrow> jsval list option" where
  "js_elems (JArr xs) = Some xs"
| "js_elems _ = None"

text \<open>Whether \<open>parseEnvelope\<close> returns, and if so with the envelope unchanged.\<close>

definition payload_ok :: "js_env \<Rightarrow> web_envelope \<Rightarrow> bool" where
  "payload_ok E e = (let p = we_payload e; t = we_type e in
     if t = js ''runtime_event'' then
       is_record (get_prop p (js ''value'')) \<and> is_str (get_prop p (js ''eventType''))
       \<and> get_prop (get_prop p (js ''value'')) (js ''type'') = get_prop p (js ''eventType'')
     else if t = js ''thread_event'' then
       is_record (get_prop p (js ''value'')) \<and> is_str (get_prop p (js ''eventType''))
       \<and> val_is_safe_integer (get_prop p (js ''sequence''))
       \<and> we_sessionId e \<noteq> None \<and> we_threadId e \<noteq> None
     else if t = js ''workbench_state'' then
       is_uuid (get_prop p (js ''contextRevision'')) \<and> is_uuid (get_prop p (js ''workspaceId''))
       \<and> is_str (get_prop p (js ''workspace''))
       \<and> (get_prop p (js ''activeSessionId'') = JNull \<or> is_str (get_prop p (js ''activeSessionId'')))
     else if t = js ''settings_invalidated'' then
       we_sessionId e = None \<and> we_threadId e = None \<and> \<not> we_durable e
       \<and> parseSettingsInvalidatedEvent e
     else if t = js ''session_runtime_changed'' then
       is_record (get_prop p (js ''runtime''))
       \<and> str_or_null (we_sessionId e) = get_prop (get_prop p (js ''runtime'')) (js ''sessionId'')
       \<and> isSessionRuntimeSummary E (get_prop p (js ''runtime''))
     else if t = js ''workspace_mutation_changed'' then
       we_sessionId e \<noteq> None \<and> \<not> we_durable e \<and> mutation_state_ok E (get_prop p (js ''state''))
     else if t = js ''workspace_resource_invalidated'' then
       we_sessionId e = None \<and> we_threadId e = None \<and> \<not> we_durable e
       \<and> is_uuid (get_prop p (js ''workspaceId''))
       \<and> (case js_elems (get_prop p (js ''resources'')) of
            Some rs \<Rightarrow> rs \<noteq> [] \<and> list_all (\<lambda>r. ident_text E r \<in> set [js ''files'', js ''git'', js ''review'']) rs
          | None \<Rightarrow> False)
       \<and> ident_text E (get_prop p (js ''reason'')) \<in> set [js ''context-change'',
           js ''filesystem-change'', js ''terminal-command'', js ''tool-finished'']
     else if t = js ''composer_state_changed'' then
       we_sessionId e \<noteq> None \<and> we_durable e \<and> is_record (get_prop p (js ''state''))
       \<and> get_prop (get_prop p (js ''state'')) (js ''apiVersion'') = jint 1
       \<and> get_prop (get_prop p (js ''state'')) (js ''sessionId'') = str_or_null (we_sessionId e)
       \<and> is_uuid (get_prop (get_prop p (js ''state'')) (js ''controlRevision''))
       \<and> is_uuid (get_prop (get_prop p (js ''state'')) (js ''contextRevision''))
     else is_str (get_prop p (js ''reason'')) \<and> get_prop p (js ''snapshotRequired'') = JBool True)"

definition parseEnvelope :: "js_env \<Rightarrow> web_envelope \<Rightarrow> bool" where
  "parseEnvelope E e \<longleftrightarrow> isRuntimeId (we_eventId e)
     \<and> is_safe_integer (we_cursor e) \<and> 0 \<le> we_cursor e
     \<and> we_type e \<in> set envelope_types \<and> is_record (we_payload e) \<and> payload_ok E e"

subsection \<open>connectEvents\<close>

text \<open>
  The open \<open>EventSource\<close> is the socket it reads and the number of frames read; a pending
  retry is its delay. \<open>cl_received\<close> lists the calls of \<open>onEvent\<close>, \<open>cl_errors\<close> counts those of
  \<open>onProtocolError\<close>.
\<close>

record stream_client =
  cl_cursor :: int
  cl_source :: "(nat \<times> nat) option"
  cl_timer :: "int option"
  cl_attempt :: nat
  cl_closed :: bool
  cl_suspended :: bool
  cl_received :: "web_envelope list"
  cl_errors :: nat

record stream_system =
  ss_hub :: event_hub
  ss_sockets :: sockets
  ss_next :: nat
  ss_online :: bool
  ss_client :: stream_client
  ss_log :: "web_envelope list"

definition retry_delay :: "nat \<Rightarrow> int" where
  "retry_delay attempt = min 10000 (500 * 2 ^ min attempt 5)"

text \<open>\<open>connect\<close>: a new request reaches the hub on a new socket.\<close>

definition client_connect ::
  "network \<Rightarrow> jsstr \<Rightarrow> jsstr \<Rightarrow> stream_system \<Rightarrow> stream_system" where
  "client_connect net uid ts s = (let c = ss_client s in
     if cl_closed c \<or> cl_suspended c then s
     else if \<not> ss_online s then s
     else let n = ss_next s;
              (h, S) = hub_attach net uid ts n (cl_cursor c) (ss_hub s, ss_sockets s) in
       s\<lparr>ss_hub := h, ss_sockets := S, ss_next := Suc n,
         ss_client := c\<lparr>cl_source := Some (n, 0)\<rparr>\<rparr>)"

definition client_timer :: "network \<Rightarrow> jsstr \<Rightarrow> jsstr \<Rightarrow> stream_system \<Rightarrow> stream_system" where
  "client_timer net uid ts s =
     (if cl_timer (ss_client s) = None then s
      else client_connect net uid ts (s\<lparr>ss_client := (ss_client s)\<lparr>cl_timer := None\<rparr>\<rparr>))"

text \<open>The \<open>online\<close> and \<open>offline\<close> events of the window; \<open>close\<close> removes the listeners.\<close>

definition client_online :: "network \<Rightarrow> jsstr \<Rightarrow> jsstr \<Rightarrow> stream_system \<Rightarrow> stream_system" where
  "client_online net uid ts s = (let s1 = s\<lparr>ss_online := True\<rparr>; c = ss_client s in
     if cl_closed c \<or> cl_suspended c \<or> cl_source c \<noteq> None then s1
     else client_connect net uid ts (s1\<lparr>ss_client := c\<lparr>cl_timer := None\<rparr>\<rparr>))"

definition client_offline :: "stream_system \<Rightarrow> stream_system" where
  "client_offline s = (let c = ss_client s in
     if cl_closed c then s\<lparr>ss_online := False\<rparr>
     else s\<lparr>ss_online := False, ss_client := c\<lparr>cl_timer := None, cl_source := None\<rparr>\<rparr>)"

definition client_opened :: "stream_system \<Rightarrow> stream_system" where
  "client_opened s = (if cl_source (ss_client s) = None then s
     else s\<lparr>ss_client := (ss_client s)\<lparr>cl_attempt := 0\<rparr>\<rparr>)"

text \<open>The listener for \<open>orion\<close> messages, for one envelope.\<close>

definition client_message :: "js_env \<Rightarrow> web_envelope \<Rightarrow> stream_client \<Rightarrow> stream_client" where
  "client_message E e c =
     (if cl_closed c \<or> cl_suspended c then c
      else if \<not> parseEnvelope E e then c\<lparr>cl_errors := Suc (cl_errors c)\<rparr>
      else if we_type e = js ''replay_reset''
      then c\<lparr>cl_cursor := we_cursor e, cl_received := cl_received c @ [e], cl_suspended := True,
             cl_source := None, cl_timer := None\<rparr>
      else if we_cursor e \<le> cl_cursor c then c
      else c\<lparr>cl_cursor := we_cursor e, cl_received := cl_received c @ [e]\<rparr>)"

text \<open>The next frame of the open socket arrives; a heartbeat is a comment.\<close>

definition client_receive :: "js_env \<Rightarrow> stream_system \<Rightarrow> stream_system" where
  "client_receive E s = (let c = ss_client s in
     case cl_source c of
       None \<Rightarrow> s
     | Some (n, k) \<Rightarrow>
         (if k < length (so_frames (ss_sockets s n))
          then let c1 = c\<lparr>cl_source := Some (n, Suc k)\<rparr> in
            (case so_frames (ss_sockets s n) ! k of
               EventFrame e \<Rightarrow> s\<lparr>ss_client := client_message E e c1\<rparr>
             | HeartbeatFrame \<Rightarrow> s\<lparr>ss_client := c1\<rparr>)
          else s))"

definition client_error :: "stream_system \<Rightarrow> stream_system" where
  "client_error s = (let c = ss_client s in
     case cl_source c of
       None \<Rightarrow> s
     | Some _ \<Rightarrow>
         (if cl_closed c \<or> cl_suspended c then s\<lparr>ss_client := c\<lparr>cl_source := None\<rparr>\<rparr>
          else s\<lparr>ss_client := c\<lparr>cl_source := None, cl_attempt := Suc (cl_attempt c),
                 cl_timer := Some (retry_delay (Suc (cl_attempt c)))\<rparr>\<rparr>))"

definition client_close :: "stream_system \<Rightarrow> stream_system" where
  "client_close s = s\<lparr>ss_client := (ss_client s)\<lparr>cl_closed := True, cl_timer := None, cl_source := None\<rparr>\<rparr>"

subsection \<open>The system\<close>

datatype stream_op =
    OpEmit jsstr jsstr web_event bool hub_context
  | OpEmitRuntime jsstr jsstr jsval hub_context
  | OpEmitThread jsstr jsstr jsval jsstr
  | OpHeartbeat
  | OpHubClose
  | OpOtherAttach jsstr jsstr int
  | OpSocketDestroyed nat
  | OpSocketClosed nat
  | OpConnect jsstr jsstr
  | OpTimer jsstr jsstr
  | OpOnline jsstr jsstr
  | OpOffline
  | OpOpened
  | OpReceive
  | OpError
  | OpClose

text \<open>
  \<open>ss_log\<close> records, for the statements only, the envelopes the hub was asked to keep for replay.
\<close>

definition logged ::
  "bool \<Rightarrow> (hub_error + web_envelope) \<times> event_hub \<times> sockets \<Rightarrow> stream_system \<Rightarrow> stream_system" where
  "logged kept r s = (case r of (res, h, S) \<Rightarrow>
     s\<lparr>ss_hub := h, ss_sockets := S,
       ss_log := (case res of Inr e \<Rightarrow> if kept then ss_log s @ [e] else ss_log s | Inl _ \<Rightarrow> ss_log s)\<rparr>)"

text \<open>The call of \<open>connect\<close> that \<open>connectEvents\<close> makes itself.\<close>

definition first_connect :: "network \<Rightarrow> jsstr \<Rightarrow> jsstr \<Rightarrow> stream_system \<Rightarrow> stream_system" where
  "first_connect net uid ts s =
     (if cl_source (ss_client s) \<noteq> None \<or> cl_timer (ss_client s) \<noteq> None then s
      else client_connect net uid ts s)"

fun stream_step ::
  "js_env \<Rightarrow> hub_config \<Rightarrow> network \<Rightarrow> (jsstr \<Rightarrow> jsstr) \<Rightarrow> stream_op \<Rightarrow> stream_system \<Rightarrow> stream_system" where
  "stream_step E C net redact (OpEmit uid ts ev durable ctx) s =
     logged (durable \<or> always_retained ev)
       (hub_emit E C net uid ts ev durable ctx (ss_hub s, ss_sockets s)) s"
| "stream_step E C net redact (OpEmitRuntime uid ts ev ctx) s =
     logged (isDurableRuntimeEvent ev)
       (emitRuntime E C net redact uid ts ev ctx (ss_hub s, ss_sockets s)) s"
| "stream_step E C net redact (OpEmitThread uid ts ev sid) s =
     logged True (emitThread E C net redact uid ts ev sid (ss_hub s, ss_sockets s)) s"
| "stream_step E C net redact OpHeartbeat s =
     (let (h, S) = heartbeat net (ss_hub s, ss_sockets s) in s\<lparr>ss_hub := h, ss_sockets := S\<rparr>)"
| "stream_step E C net redact OpHubClose s =
     (let (h, S) = close_hub (ss_hub s, ss_sockets s) in s\<lparr>ss_hub := h, ss_sockets := S\<rparr>)"
| "stream_step E C net redact (OpOtherAttach uid ts cursor) s =
     (let (h, S) = hub_attach net uid ts (ss_next s) cursor (ss_hub s, ss_sockets s) in
      s\<lparr>ss_hub := h, ss_sockets := S, ss_next := Suc (ss_next s)\<rparr>)"
| "stream_step E C net redact (OpSocketDestroyed n) s =
     (if n < ss_next s
      then s\<lparr>ss_sockets := (ss_sockets s)(n := (ss_sockets s n)\<lparr>so_open := False\<rparr>)\<rparr> else s)"
| "stream_step E C net redact (OpSocketClosed n) s = s\<lparr>ss_hub := hub_detach n (ss_hub s)\<rparr>"
| "stream_step E C net redact (OpConnect uid ts) s = first_connect net uid ts s"
| "stream_step E C net redact (OpTimer uid ts) s = client_timer net uid ts s"
| "stream_step E C net redact (OpOnline uid ts) s = client_online net uid ts s"
| "stream_step E C net redact OpOffline s = client_offline s"
| "stream_step E C net redact OpOpened s = client_opened s"
| "stream_step E C net redact OpReceive s = client_receive E s"
| "stream_step E C net redact OpError s = client_error s"
| "stream_step E C net redact OpClose s = client_close s"

definition stream_start :: "event_hub \<Rightarrow> int \<Rightarrow> stream_system" where
  "stream_start h c0 = \<lparr>ss_hub = h, ss_sockets = (\<lambda>n. \<lparr>so_open = True, so_frames = []\<rparr>),
     ss_next = 0, ss_online = True,
     ss_client = \<lparr>cl_cursor = max 0 c0, cl_source = None, cl_timer = None, cl_attempt = 0,
       cl_closed = False, cl_suspended = False, cl_received = [], cl_errors = 0\<rparr>,
     ss_log = []\<rparr>"

end
