(* ===== verification/WebStream.thy ===== *)
theory WebStream
  imports WebClient
begin

section \<open>Delivery to the browser across reconnects\<close>

text \<open>
  The retained window of the hub is a suffix of the lg of events to be kept, and what is in
  flight on the client's socket is the next part of that lg. From both: a client that has not
  been told to reload has received every kept event past its starting cursor once, in order,
  whatever connections broke in between.
\<close>

subsection \<open>Slices of a lg\<close>

definition slice :: "web_envelope list \<Rightarrow> int \<Rightarrow> int \<Rightarrow> web_envelope list" where
  "slice L a b = filter (\<lambda>e. a < we_cursor e \<and> we_cursor e \<le> b) L"

definition in_order :: "web_envelope list \<Rightarrow> bool" where
  "in_order L \<longleftrightarrow> sorted_wrt (\<lambda>x y. we_cursor x < we_cursor y) L"

fun evs :: "sse_frame list \<Rightarrow> web_envelope list" where
  "evs [] = []"
| "evs (EventFrame e # F) = e # evs F"
| "evs (HeartbeatFrame # F) = evs F"

lemma evs_append [simp]: "evs (F @ G) = evs F @ evs G"
  by (induction F rule: evs.induct) auto

lemma evs_map_EventFrame [simp]: "evs (map EventFrame es) = es"
  by (induction es) auto

lemma slice_empty [simp]: "b \<le> a \<Longrightarrow> slice L a b = []"
  by (auto simp: slice_def filter_empty_conv)

lemma slice_append [simp]: "slice (L @ M) a b = slice L a b @ slice M a b"
  by (simp add: slice_def)

lemma slice_filter: "slice (filter P L) a b = filter P (slice L a b)"
  by (simp add: slice_def conj_commute)

lemma in_order_filter: "in_order L \<Longrightarrow> in_order (filter P L)"
  by (simp add: in_order_def sorted_wrt_filter)

lemma in_order_snoc [simp]:
  "in_order (L @ [e]) \<longleftrightarrow> in_order L \<and> (\<forall>x \<in> set L. we_cursor x < we_cursor e)"
  by (auto simp: in_order_def sorted_wrt_append)

lemma in_order_Cons [simp]:
  "in_order (e # L) \<longleftrightarrow> in_order L \<and> (\<forall>x \<in> set L. we_cursor e < we_cursor x)"
  by (auto simp: in_order_def)

lemma in_order_Nil [simp]: "in_order []"
  by (simp add: in_order_def)

lemma slice_split:
  assumes "in_order L" "a \<le> b" "b \<le> c"
  shows "slice L a c = slice L a b @ slice L b c"
  using assms(1)
proof (induction L)
  case Nil
  then show ?case by (simp add: slice_def)
next
  case (Cons e L)
  then have IH: "slice L a c = slice L a b @ slice L b c" by simp
  have late: "slice L a b = []" if "b < we_cursor e"
    using Cons.prems that by (fastforce simp: slice_def filter_empty_conv)
  show ?case using IH late assms(2,3) by (cases "b < we_cursor e") (auto simp: slice_def)
qed

lemma in_order_same: "in_order L \<Longrightarrow> x \<in> set L \<Longrightarrow> y \<in> set L \<Longrightarrow> we_cursor x = we_cursor y \<Longrightarrow> x = y"
  by (induction L) (auto dest: bspec)

lemma take_slice:
  assumes "in_order X" "\<And>e. e \<in> set X \<Longrightarrow> a < we_cursor e" "0 < j" "j \<le> length X"
  shows "slice X a (we_cursor (X ! (j - 1))) = take j X"
proof -
  let ?b = "we_cursor (X ! (j - 1))"
  have le: "we_cursor e \<le> ?b" if e: "e \<in> set (take j X)" for e
  proof -
    from e obtain i where i: "i < j" "i < length X" "e = X ! i"
      by (auto simp: in_set_conv_nth)
    show ?thesis
    proof (cases "i = j - 1")
      case False
      with i have "i < j - 1" by simp
      then show ?thesis
        using assms(1,3,4) i sorted_wrt_nth_less [of "\<lambda>x y. we_cursor x < we_cursor y" X i "j - 1"]
        by (simp add: in_order_def less_imp_le)
    qed (use i in simp)
  qed
  have gt: "?b < we_cursor e" if e: "e \<in> set (drop j X)" for e
  proof -
    from e obtain i where "i < length X - j" "e = X ! (j + i)"
      by (auto simp: in_set_conv_nth)
    then have i: "j + i < length X" "e = X ! (j + i)" by simp_all
    then show ?thesis
      using assms(1,3,4) sorted_wrt_nth_less [of "\<lambda>x y. we_cursor x < we_cursor y" X "j - 1" "j + i"]
      by (simp add: in_order_def)
  qed
  have "slice X a ?b = slice (take j X) a ?b @ slice (drop j X) a ?b"
    by (metis append_take_drop_id slice_append)
  also have "slice (take j X) a ?b = take j X"
    using le assms(2) by (auto simp: slice_def filter_id_conv dest: in_set_takeD)
  also have "slice (drop j X) a ?b = []"
    using gt by (fastforce simp: slice_def filter_empty_conv)
  finally show ?thesis by simp
qed

subsection \<open>What is in flight\<close>

text \<open>
  \<open>feed L c b F\<close>: the frames \<open>F\<close> carry, in cursor order, exactly the events of \<open>L\<close> after
  cursor \<open>c\<close> up to \<open>b\<close>, among others.
\<close>

definition feed :: "web_envelope list \<Rightarrow> int \<Rightarrow> int \<Rightarrow> sse_frame list \<Rightarrow> bool" where
  "feed L c b F \<longleftrightarrow> in_order (evs F) \<and> (\<forall>e \<in> set (evs F). c < we_cursor e \<and> we_cursor e \<le> b)
     \<and> filter (\<lambda>e. e \<in> set L) (evs F) = slice L c b"

lemma feed_heartbeat: "feed L c b (HeartbeatFrame # F) \<Longrightarrow> feed L c b F"
  by (simp add: feed_def)

lemma feed_append_heartbeat: "feed L c b F \<Longrightarrow> feed L c b (F @ [HeartbeatFrame])"
  by (simp add: feed_def)

lemma feed_skip: "feed L c b (EventFrame e # F) \<Longrightarrow> e \<notin> set L \<Longrightarrow> feed L c b F"
  by (simp add: feed_def)

lemma feed_read:
  assumes "feed L c b (EventFrame e # F)" "in_order L"
  shows "feed L (we_cursor e) b F"
    and "slice L c (we_cursor e) = (if e \<in> set L then [e] else [])"
    and "c < we_cursor e" "we_cursor e \<le> b"
proof -
  from assms(1) have e: "c < we_cursor e" "we_cursor e \<le> b"
    and F: "in_order (evs F)" "\<forall>x \<in> set (evs F). we_cursor e < we_cursor x \<and> we_cursor x \<le> b"
    and eq: "filter (\<lambda>x. x \<in> set L) (e # evs F) = slice L c b"
    by (auto simp: feed_def)
  show "c < we_cursor e" "we_cursor e \<le> b" by (fact e)+
  have split: "slice L c b = slice L c (we_cursor e) @ slice L (we_cursor e) b"
    by (rule slice_split [OF assms(2)]) (use e in simp_all)
  have upto: "filter (\<lambda>x. we_cursor x \<le> we_cursor e) (slice L c b) = slice L c (we_cursor e)"
    unfolding split by (auto simp: slice_def)
  have over: "filter (\<lambda>x. we_cursor e < we_cursor x) (slice L c b) = slice L (we_cursor e) b"
    unfolding split by (auto simp: slice_def filter_empty_conv intro: filter_cong)
  have tail: "filter (\<lambda>x. we_cursor x \<le> we_cursor e) (filter (\<lambda>x. x \<in> set L) (evs F)) = []"
    using F(2) by (fastforce simp: filter_empty_conv)
  have tail': "filter (\<lambda>x. we_cursor e < we_cursor x) (filter (\<lambda>x. x \<in> set L) (evs F))
      = filter (\<lambda>x. x \<in> set L) (evs F)"
    using F(2) by (auto intro: filter_cong)
  have "slice L c (we_cursor e)
      = filter (\<lambda>x. we_cursor x \<le> we_cursor e) (filter (\<lambda>x. x \<in> set L) (e # evs F))"
    by (simp only: eq upto)
  then show "slice L c (we_cursor e) = (if e \<in> set L then [e] else [])"
    using tail by (cases "e \<in> set L") simp_all
  have "slice L (we_cursor e) b
      = filter (\<lambda>x. we_cursor e < we_cursor x) (filter (\<lambda>x. x \<in> set L) (e # evs F))"
    by (simp only: eq over)
  then have "filter (\<lambda>x. x \<in> set L) (evs F) = slice L (we_cursor e) b"
    using tail' by (cases "e \<in> set L") simp_all
  with F show "feed L (we_cursor e) b F" by (auto simp: feed_def)
qed

text \<open>The lg grows by an event past \<open>b\<close>: on a socket that gets the event, and on one that does not.\<close>

lemma feed_log:
  assumes "feed L c b F" "b < we_cursor e"
  shows "feed (L @ [e]) c b F"
proof -
  have "filter (\<lambda>x. x \<in> set (L @ [e])) (evs F) = filter (\<lambda>x. x \<in> set L) (evs F)"
    using assms by (intro filter_cong) (auto simp: feed_def)
  moreover have "slice [e] c b = []" using assms(2) by (simp add: slice_def)
  ultimately show ?thesis using assms(1) by (simp add: feed_def)
qed

lemma feed_deliver:
  assumes "feed L c b F" "b < we_cursor e" "c < we_cursor e"
    and "\<And>x. x \<in> set L \<Longrightarrow> we_cursor x \<le> b"
  shows "feed (if k then L @ [e] else L) c (we_cursor e) (F @ [EventFrame e])"
proof -
  have new: "e \<notin> set L" using assms(2,4) by force
  have grow: "slice L c (we_cursor e) = slice L c b"
    using assms(2,4) by (force simp: slice_def intro: filter_cong)
  have F: "filter (\<lambda>x. x \<in> set (L @ [e])) (evs F) = filter (\<lambda>x. x \<in> set L) (evs F)"
    using assms by (intro filter_cong) (auto simp: feed_def)
  show ?thesis
  proof (cases k)
    case True
    have "slice [e] c (we_cursor e) = [e]" using assms(3) by (simp add: slice_def)
    with True F grow assms(1,2,3) show ?thesis by (fastforce simp: feed_def)
  next
    case False
    with new grow assms(1,2,3) show ?thesis by (fastforce simp: feed_def)
  qed
qed

lemma feed_upto:
  assumes "feed L c b F" "b \<le> b'" "\<And>x. x \<in> set L \<Longrightarrow> we_cursor x \<le> b"
  shows "feed L c b' F"
proof -
  have "slice L c b' = slice L c b"
    using assms(2,3) by (force simp: slice_def intro: filter_cong)
  then show ?thesis using assms(1,2) by (fastforce simp: feed_def)
qed

text \<open>A replay that got \<open>j\<close> events through.\<close>

lemma feed_replay:
  assumes "in_order M" "X = filter (\<lambda>e. c < we_cursor e) M" "j \<le> length X" "c \<le> hi"
    and "\<And>e. e \<in> set M \<Longrightarrow> we_cursor e \<le> hi"
  shows "\<exists>b. c \<le> b \<and> b \<le> hi \<and> (j = length X \<longrightarrow> b = hi)
    \<and> feed (filter P M) c b (map EventFrame (take j X))"
proof -
  have X: "in_order X" "\<And>e. e \<in> set X \<Longrightarrow> c < we_cursor e \<and> we_cursor e \<le> hi"
    using assms(1,2,5) by (auto simp: in_order_filter)
  have sl: "slice M c b = slice X c b" for b
    unfolding assms(2) slice_def by (auto intro: filter_cong)
  have part: "feed (filter P M) c b (map EventFrame (take j X))"
    if b: "slice X c b = take j X" "\<And>e. e \<in> set (take j X) \<Longrightarrow> we_cursor e \<le> b" for b
  proof -
    have "filter (\<lambda>e. e \<in> set (filter P M)) (take j X) = filter P (take j X)"
      using assms(2) by (intro filter_cong) (auto dest: in_set_takeD)
    moreover have "in_order (take j X)" using X(1) by (simp add: in_order_def sorted_wrt_take)
    ultimately show ?thesis
      using X(2) b by (auto simp: feed_def slice_filter sl dest: in_set_takeD)
  qed
  consider "j = length X" | "j = 0" "0 < length X" | "0 < j" "j < length X"
    using assms(3) by linarith
  then show ?thesis
  proof cases
    case 1
    have "slice X c hi = X" using X(2) by (auto simp: slice_def filter_id_conv)
    with 1 X(2) part [of hi] assms(4) show ?thesis by auto
  next
    case 2
    with part [of c] assms(4) show ?thesis by auto
  next
    case 3
    let ?b = "we_cursor (X ! (j - 1))"
    have "X ! (j - 1) \<in> set X" using 3 by simp
    with X(2) have b: "c \<le> ?b" "?b \<le> hi" by (auto intro: less_imp_le)
    have "slice X c ?b = take j X" using take_slice [OF X(1)] X(2) 3 by simp
    moreover from this have "we_cursor e \<le> ?b" if "e \<in> set (take j X)" for e
      using that by (metis (no_types, lifting) mem_Collect_eq set_filter slice_def)
    ultimately have "feed (filter P M) c ?b (map EventFrame (take j X))" by (rule part)
    with b 3 show ?thesis by auto
  qed
qed

subsection \<open>The hub\<close>

definition hub_inv :: "web_envelope list \<Rightarrow> event_hub \<Rightarrow> bool" where
  "hub_inv lg h \<longleftrightarrow> in_order lg
     \<and> (\<forall>e \<in> set lg. 0 < we_cursor e \<and> we_cursor e < hb_nextCursor h)
     \<and> 0 \<le> hb_discarded h \<and> hb_discarded h < hb_nextCursor h
     \<and> map rt_envelope (hb_retained h) = filter (\<lambda>e. hb_discarded h < we_cursor e) lg
     \<and> hb_bytes h = sum_list (map rt_bytes (hb_retained h))"

lemma hub_trim_keeps [simp]:
  "hb_nextCursor (hub_trim C h) = hb_nextCursor h" "hb_clients (hub_trim C h) = hb_clients h"
  "hb_contents (hub_trim C h) = hb_contents h" "hb_resets (hub_trim C h) = hb_resets h"
  by (induction C h rule: hub_trim.induct;
      subst hub_trim.simps; simp split: list.split)+

lemma filter_first_dropped:
  assumes "in_order lg" "filter (\<lambda>e. d < we_cursor e) lg = e # es"
  shows "filter (\<lambda>x. max d (we_cursor e) < we_cursor x) lg = es"
proof -
  have ord: "in_order (e # es)" using in_order_filter [OF assms(1)] assms(2) by metis
  have "e \<in> set (filter (\<lambda>e. d < we_cursor e) lg)" by (simp add: assms(2))
  then have d: "d < we_cursor e" by simp
  have "filter (\<lambda>x. max d (we_cursor e) < we_cursor x) lg
      = filter (\<lambda>x. we_cursor e < we_cursor x) (filter (\<lambda>x. d < we_cursor x) lg)"
    using d by (auto intro: filter_cong)
  also have "\<dots> = filter (\<lambda>x. we_cursor e < we_cursor x) (e # es)" by (simp only: assms(2))
  also have "\<dots> = es" using ord by (auto simp: filter_id_conv)
  finally show ?thesis .
qed

lemma hub_drop_inv:
  assumes "hub_inv lg h" "hb_retained h = r # rest"
  shows "hub_inv lg (h\<lparr>hb_retained := rest, hb_bytes := hb_bytes h - rt_bytes r,
    hb_discarded := max (hb_discarded h) (we_cursor (rt_envelope r))\<rparr>)"
proof -
  have kept: "filter (\<lambda>e. hb_discarded h < we_cursor e) lg = rt_envelope r # map rt_envelope rest"
    using assms by (simp add: hub_inv_def)
  then have "rt_envelope r \<in> set (filter (\<lambda>e. hb_discarded h < we_cursor e) lg)" by simp
  then have "rt_envelope r \<in> set lg" by simp
  then show ?thesis
    using assms filter_first_dropped [OF _ kept] by (simp add: hub_inv_def le_max_iff_disj)
qed

lemma hub_trim_inv: "hub_inv lg h \<Longrightarrow> hub_inv lg (hub_trim C h)"
proof (induction C h rule: hub_trim.induct)
  case (1 C h)
  show ?case
  proof (cases "length (hb_retained h) > hc_maxEvents C \<or> hb_bytes h > hc_maxBytes C")
    case False
    with 1 show ?thesis by (subst hub_trim.simps) simp
  next
    case over: True
    show ?thesis
    proof (cases "hb_retained h")
      case Nil
      with over 1 show ?thesis by (subst hub_trim.simps) simp
    next
      case (Cons r rest)
      from 1(1) [OF over Cons hub_drop_inv [OF 1(2) Cons]] show ?thesis
        using over Cons by (subst hub_trim.simps) simp
    qed
  qed
qed

lemma hub_trim_bounds:
  assumes "hub_inv lg h"
  shows "length (hb_retained (hub_trim C h)) \<le> hc_maxEvents C \<and> hb_bytes (hub_trim C h) \<le> hc_maxBytes C"
  using assms
proof (induction C h rule: hub_trim.induct)
  case (1 C h)
  show ?case
  proof (cases "length (hb_retained h) > hc_maxEvents C \<or> hb_bytes h > hc_maxBytes C")
    case False
    then have "hub_trim C h = h" by (subst hub_trim.simps) simp
    with False show ?thesis by simp
  next
    case over: True
    then obtain r rest where Cons: "hb_retained h = r # rest"
      using 1(2) by (cases "hb_retained h") (auto simp: hub_inv_def)
    have "hub_trim C h = hub_trim C (h\<lparr>hb_retained := rest, hb_bytes := hb_bytes h - rt_bytes r,
        hb_discarded := max (hb_discarded h) (we_cursor (rt_envelope r))\<rparr>)"
      using over Cons by (subst hub_trim.simps) simp
    with 1(1) [OF over Cons hub_drop_inv [OF 1(2) Cons]] show ?thesis by simp
  qed
qed

text \<open>One emission: the cursor advances by one and the lg grows when the event is kept.\<close>

definition grown :: "bool \<Rightarrow> (hub_error + web_envelope) \<Rightarrow> web_envelope list \<Rightarrow> web_envelope list" where
  "grown kept r lg = (case r of Inr e \<Rightarrow> if kept then lg @ [e] else lg | Inl _ \<Rightarrow> lg)"

lemma toEnvelope_cursor: "toEnvelope uid ts c ctx d ev = Inr e \<Longrightarrow> we_cursor e = c"
  by (auto simp: toEnvelope_def split: option.splits)

lemma retain_inv:
  assumes "hub_inv lg h" "we_cursor e = hb_nextCursor h"
  shows "hub_inv (lg @ [e]) (retain E C e (h\<lparr>hb_nextCursor := hb_nextCursor h + 1\<rparr>))"
proof -
  have "hub_inv (lg @ [e]) (h\<lparr>hb_nextCursor := hb_nextCursor h + 1,
      hb_retained := hb_retained h @
        [\<lparr>rt_envelope = e, rt_encoded = encodeSse E e, rt_bytes = utf8_bytes (encodeSse E e)\<rparr>],
      hb_bytes := hb_bytes h + utf8_bytes (encodeSse E e)\<rparr>)"
    using assms by (fastforce simp: hub_inv_def)
  from hub_trim_inv [OF this] show ?thesis by (simp add: retain_def Let_def)
qed

lemma hub_inv_next: "hub_inv lg h \<Longrightarrow> hub_inv lg (h\<lparr>hb_nextCursor := hb_nextCursor h + 1\<rparr>)"
  by (fastforce simp: hub_inv_def)

lemma hub_inv_clients [simp]:
  "hub_inv lg (h\<lparr>hb_clients := cs\<rparr>) = hub_inv lg h"
  "hub_inv lg (h\<lparr>hb_contents := m\<rparr>) = hub_inv lg h"
  "hub_inv lg (h\<lparr>hb_resets := k\<rparr>) = hub_inv lg h"
  by (simp_all add: hub_inv_def)

subsection \<open>Sockets\<close>

lemma writeClient_frames:
  assumes "writeClient net n d S = (ok, S')"
  shows "m \<noteq> n \<Longrightarrow> S' m = S m"
    and "so_frames (S' n) = so_frames (S n) \<or> so_frames (S' n) = so_frames (S n) @ [d]"
    and "ok \<Longrightarrow> so_frames (S' n) = so_frames (S n) @ [d]"
  using assms by (auto simp: writeClient_def split: if_splits write_outcome.splits)

lemma broadcast_frames:
  assumes "broadcast net d cs S = (cs', S')" "distinct cs"
  shows "set cs' \<subseteq> set cs \<and> distinct cs'
    \<and> (\<forall>m. m \<notin> set cs \<longrightarrow> S' m = S m)
    \<and> (\<forall>m. so_frames (S' m) = so_frames (S m) \<or> so_frames (S' m) = so_frames (S m) @ [d])
    \<and> (\<forall>m \<in> set cs'. so_frames (S' m) = so_frames (S m) @ [d])"
  using assms
proof (induction cs arbitrary: S cs' S')
  case Nil
  then show ?case by simp
next
  case (Cons c cs)
  obtain ok S1 where w: "writeClient net c d S = (ok, S1)" by (cases "writeClient net c d S")
  obtain cs2 S2 where b: "broadcast net d cs S1 = (cs2, S2)" by (cases "broadcast net d cs S1")
  from Cons.prems w b have res: "S' = S2" "cs' = (if ok then c # cs2 else cs2)" by auto
  note IH = Cons.IH [OF b] and W = writeClient_frames [OF w]
  from Cons.prems(2) have c: "c \<notin> set cs" "distinct cs" by auto
  have S2: "S2 m = S1 m" if "m \<notin> set cs" for m using IH c that by blast
  have frames: "so_frames (S2 m) = so_frames (S m) \<or> so_frames (S2 m) = so_frames (S m) @ [d]" for m
  proof (cases "m = c")
    case True
    then show ?thesis using S2 [of c] c W(2) by simp
  next
    case False
    then show ?thesis using IH c W(1) [OF False] by metis
  qed
  moreover have "so_frames (S2 m) = so_frames (S m) @ [d]" if "m \<in> set cs'" for m
  proof (cases "m = c")
    case True
    have "c \<notin> set cs2" using IH c by blast
    with True that res have ok by (auto split: if_splits)
    then show ?thesis using True S2 [of c] c W(3) by simp
  next
    case False
    with that res have "m \<in> set cs2" by (auto split: if_splits)
    then show ?thesis using IH c W(1) [OF False] by metis
  qed
  moreover have "S2 m = S m" if "m \<notin> set (c # cs)" for m
    using that S2 [of m] W(1) [of m] by simp
  moreover have "set cs' \<subseteq> set (c # cs) \<and> distinct cs'"
    using IH c res by auto
  ultimately show ?case using res by blast
qed

lemma replay_to_frames:
  assumes "replay_to net n c items S = (ok, S')"
    and "X = map rt_envelope (filter (\<lambda>i. c < we_cursor (rt_envelope i)) items)"
  shows "(\<forall>m. m \<noteq> n \<longrightarrow> S' m = S m)
    \<and> (\<exists>j. j \<le> length X \<and> so_frames (S' n) = so_frames (S n) @ map EventFrame (take j X)
          \<and> (ok \<longrightarrow> j = length X))"
  using assms
proof (induction items arbitrary: S X)
  case Nil
  then show ?case by simp
next
  case (Cons i items)
  show ?case
  proof (cases "c < we_cursor (rt_envelope i)")
    case False
    with Cons show ?thesis by simp
  next
    case True
    let ?X = "map rt_envelope (filter (\<lambda>i. c < we_cursor (rt_envelope i)) items)"
    have X: "X = rt_envelope i # ?X" using Cons.prems(2) True by simp
    obtain ok1 S1 where w: "writeClient net n (EventFrame (rt_envelope i)) S = (ok1, S1)"
      by (cases "writeClient net n (EventFrame (rt_envelope i)) S")
    note W = writeClient_frames [OF w]
    show ?thesis
    proof (cases ok1)
      case False
      with Cons.prems True w have S': "S' = S1" "\<not> ok" by auto
      have "\<exists>j\<le>length X. so_frames (S1 n) = so_frames (S n) @ map EventFrame (take j X)"
        using W(2) X by (auto intro: exI [of _ 0] exI [of _ 1])
      then show ?thesis using S' W(1) by auto
    next
      case True
      with Cons.prems \<open>c < we_cursor (rt_envelope i)\<close> w
      have r: "replay_to net n c items S1 = (ok, S')" by auto
      from Cons.IH [OF r refl] obtain j where j: "j \<le> length ?X" "ok \<longrightarrow> j = length ?X"
        "so_frames (S' n) = so_frames (S1 n) @ map EventFrame (take j ?X)"
        "\<forall>m. m \<noteq> n \<longrightarrow> S' m = S1 m" by auto
      have "so_frames (S' n) = so_frames (S n) @ map EventFrame (take (Suc j) X)"
        using j(3) W(3) [OF True] X by simp
      then show ?thesis using j X W(1) by (auto intro!: exI [of _ "Suc j"])
    qed
  qed
qed

end
