(* ===== verification/WebDelivery.thy ===== *)
theory WebDelivery
  imports WebStream
begin

section \<open>Every kept event reaches the browser once, or the browser is told to reload\<close>

subsection \<open>The invariant of the system\<close>

definition link_ok ::
  "web_envelope list \<Rightarrow> int \<Rightarrow> event_hub \<Rightarrow> sockets \<Rightarrow> nat \<Rightarrow> nat \<Rightarrow> bool" where
  "link_ok L c h S n k \<longleftrightarrow> k \<le> length (so_frames (S n))
     \<and> (n \<notin> set (hb_clients h)
          \<and> (\<forall>e \<in> set (evs (drop k (so_frames (S n)))). we_type e = js ''replay_reset'')
        \<or> (\<exists>b. c \<le> b \<and> b < hb_nextCursor h
             \<and> (n \<in> set (hb_clients h) \<longrightarrow> b = hb_nextCursor h - 1)
             \<and> feed L c b (drop k (so_frames (S n)))))"

definition hub_side_ok :: "stream_system \<Rightarrow> bool" where
  "hub_side_ok s \<longleftrightarrow> hub_inv (ss_log s) (ss_hub s) \<and> distinct (hb_clients (ss_hub s))
     \<and> (\<forall>m \<in> set (hb_clients (ss_hub s)). m < ss_next s)
     \<and> (\<forall>m \<ge> ss_next s. so_frames (ss_sockets s m) = [])"

definition client_side_ok :: "js_env \<Rightarrow> int \<Rightarrow> web_envelope list \<Rightarrow> int \<Rightarrow> stream_client \<Rightarrow> bool" where
  "client_side_ok E c0 lg nxt c \<longleftrightarrow> (cl_cursor c = c0 \<or> c0 < cl_cursor c \<and> cl_cursor c < nxt)
     \<and> (\<forall>e \<in> set (cl_received c). we_cursor e \<le> cl_cursor c \<and> we_cursor e < nxt)
     \<and> in_order (cl_received c)
     \<and> filter (\<lambda>e. e \<in> set lg) (cl_received c) = slice (filter (parseEnvelope E) lg) c0 (cl_cursor c)"

definition stream_inv :: "js_env \<Rightarrow> int \<Rightarrow> stream_system \<Rightarrow> bool" where
  "stream_inv E c0 s \<longleftrightarrow> hub_side_ok s
     \<and> (cl_suspended (ss_client s) \<or>
         client_side_ok E c0 (ss_log s) (hb_nextCursor (ss_hub s)) (ss_client s)
         \<and> (case cl_source (ss_client s) of None \<Rightarrow> True
            | Some (n, k) \<Rightarrow> n < ss_next s
                \<and> link_ok (filter (parseEnvelope E) (ss_log s)) (cl_cursor (ss_client s))
                     (ss_hub s) (ss_sockets s) n k))"

subsection \<open>Emission\<close>

definition emitted ::
  "network \<Rightarrow> (hub_error + web_envelope) \<Rightarrow> event_hub \<Rightarrow> sockets \<Rightarrow> event_hub \<Rightarrow> sockets \<Rightarrow> bool" where
  "emitted net r h S h' S' \<longleftrightarrow> hb_nextCursor h' = hb_nextCursor h + 1
     \<and> (case r of Inl _ \<Rightarrow> S' = S \<and> hb_clients h' = hb_clients h
        | Inr e \<Rightarrow> we_cursor e = hb_nextCursor h
            \<and> broadcast net (EventFrame e) (hb_clients h) S = (hb_clients h', S'))"

lemma hub_emit_spec:
  assumes "hub_emit E C net uid ts ev durable ctx (h, S) = (r, h', S')" "hub_inv lg h"
  shows "emitted net r h S h' S'" "hub_inv (grown (durable \<or> always_retained ev) r lg) h'"
proof -
  let ?h1 = "h\<lparr>hb_nextCursor := hb_nextCursor h + 1\<rparr>"
  have "emitted net r h S h' S' \<and> hub_inv (grown (durable \<or> always_retained ev) r lg) h'"
  proof (cases "toEnvelope uid ts (hb_nextCursor h) ctx durable ev")
    case (Inl x)
    have "r = Inl x" "h' = ?h1" "S' = S" using assms(1) Inl by (simp_all add: hub_emit_def Let_def)
    with assms(2) show ?thesis by (simp add: emitted_def grown_def hub_inv_next)
  next
    case (Inr e)
    let ?h2 = "if durable \<or> always_retained ev then retain E C e ?h1 else ?h1"
    have cur: "we_cursor e = hb_nextCursor h" using Inr by (rule toEnvelope_cursor)
    have keep: "hb_nextCursor ?h2 = hb_nextCursor h + 1" "hb_clients ?h2 = hb_clients h"
      by (simp_all add: retain_def Let_def)
    have inv: "hub_inv (grown (durable \<or> always_retained ev) (Inr e) lg) ?h2"
      using retain_inv [OF assms(2) cur] hub_inv_next [OF assms(2)] by (simp add: grown_def)
    obtain cs S2 where b: "broadcast net (EventFrame e) (hb_clients ?h2) S = (cs, S2)"
      by (cases "broadcast net (EventFrame e) (hb_clients ?h2) S")
    have "r = Inr e" "h' = ?h2\<lparr>hb_clients := cs\<rparr>" "S' = S2"
      using assms(1) Inr b by (simp_all add: hub_emit_def Let_def)
    with b cur keep inv show ?thesis by (simp add: emitted_def)
  qed
  then show "emitted net r h S h' S'" "hub_inv (grown (durable \<or> always_retained ev) r lg) h'" by auto
qed

lemma link_emitted:
  assumes em: "emitted net r h S h' S'" and link: "link_ok L c h S n k"
    and dist: "distinct (hb_clients h)" and L: "\<forall>x \<in> set L. we_cursor x < hb_nextCursor h"
    and L': "L' = (case r of Inr e \<Rightarrow> if kp then L @ [e] else L | Inl _ \<Rightarrow> L)"
  shows "link_ok L' c h' S' n k"
proof (cases r)
  case (Inl x)
  with em L' have same: "S' = S" "hb_clients h' = hb_clients h" "L' = L"
    "hb_nextCursor h' = hb_nextCursor h + 1" by (auto simp: emitted_def)
  have "feed L c (hb_nextCursor h) (drop k (so_frames (S n)))"
    if "feed L c (hb_nextCursor h - 1) (drop k (so_frames (S n)))"
    by (rule feed_upto [OF that]) (use L in auto)
  then show ?thesis
    using link unfolding link_ok_def same
    by (elim conjE disjE exE) (cases "n \<in> set (hb_clients h)"; auto intro: less_le_trans)+
next
  case (Inr e)
  with em have cur: "we_cursor e = hb_nextCursor h" and nx: "hb_nextCursor h' = hb_nextCursor h + 1"
    and b: "broadcast net (EventFrame e) (hb_clients h) S = (hb_clients h', S')"
    by (auto simp: emitted_def)
  have L'e: "L' = (if kp then L @ [e] else L)" using L' Inr by simp
  note B = broadcast_frames [OF b dist]
  have k: "k \<le> length (so_frames (S n))" using link by (simp add: link_ok_def)
  consider (out) "S' n = S n" "n \<notin> set (hb_clients h)" "n \<notin> set (hb_clients h')"
    | (lost) "so_frames (S' n) = so_frames (S n)" "n \<in> set (hb_clients h)" "n \<notin> set (hb_clients h')"
    | (got) "so_frames (S' n) = so_frames (S n) @ [EventFrame e]" "n \<in> set (hb_clients h)"
    using B by (metis append_self_conv list.discI subsetD)
  then show ?thesis
  proof cases
    case out
    have "feed L' c b (drop k (so_frames (S n)))"
      if "feed L c b (drop k (so_frames (S n)))" "b < hb_nextCursor h" for b
      using that feed_log [OF that(1), of e] cur L'e by simp
    then show ?thesis using link out nx unfolding link_ok_def by force
  next
    case lost
    have "feed L' c (hb_nextCursor h - 1) (drop k (so_frames (S n)))"
      if "feed L c (hb_nextCursor h - 1) (drop k (so_frames (S n)))"
      using that feed_log [OF that, of e] cur L'e by simp
    then show ?thesis using link lost nx unfolding link_ok_def by force
  next
    case got
    from link got(2) have f: "feed L c (hb_nextCursor h - 1) (drop k (so_frames (S n)))"
      and c: "c < hb_nextCursor h" unfolding link_ok_def by auto
    have "feed L' c (we_cursor e) (drop k (so_frames (S n)) @ [EventFrame e])"
      unfolding L'e by (rule feed_deliver [OF f]) (use cur c L in auto)
    then show ?thesis using got k cur nx c unfolding link_ok_def by force
  qed
qed

lemma client_emitted:
  assumes "client_side_ok E c0 lg nxt c" "nxt' = nxt + 1"
    and "lg' = lg \<or> (\<exists>e. lg' = lg @ [e] \<and> we_cursor e = nxt)"
  shows "client_side_ok E c0 lg' nxt' c"
  using assms(3)
proof
  assume "lg' = lg"
  with assms(1,2) show ?thesis by (auto simp: client_side_ok_def)
next
  assume "\<exists>e. lg' = lg @ [e] \<and> we_cursor e = nxt"
  then obtain e where e: "lg' = lg @ [e]" "we_cursor e = nxt" by auto
  have "filter (\<lambda>x. x \<in> set lg') (cl_received c) = filter (\<lambda>x. x \<in> set lg) (cl_received c)"
    using assms(1) e by (intro filter_cong) (auto simp: client_side_ok_def)
  moreover have "slice (filter (parseEnvelope E) [e]) c0 (cl_cursor c) = []"
    using assms(1) e by (auto simp: client_side_ok_def slice_def)
  ultimately show ?thesis using assms(1,2) e by (auto simp: client_side_ok_def)
qed

lemma logged_inv:
  assumes inv: "stream_inv E c0 s" and em: "emitted net r (ss_hub s) (ss_sockets s) h' S'"
    and hub: "hub_inv (grown kept r (ss_log s)) h'"
  shows "stream_inv E c0 (logged kept (r, h', S') s)"
proof -
  let ?lg = "ss_log s" and ?h = "ss_hub s" and ?lg' = "grown kept r (ss_log s)"
  let ?P = "filter (parseEnvelope E)"
  have s': "logged kept (r, h', S') s = s\<lparr>ss_hub := h', ss_sockets := S', ss_log := ?lg'\<rparr>"
    by (simp add: logged_def grown_def split: sum.split)
  have side: "hub_inv ?lg ?h" "distinct (hb_clients ?h)" "\<forall>m \<in> set (hb_clients ?h). m < ss_next s"
    "\<forall>m \<ge> ss_next s. so_frames (ss_sockets s m) = []"
    using inv by (auto simp: stream_inv_def hub_side_ok_def)
  have cl: "distinct (hb_clients h')" "set (hb_clients h') \<subseteq> set (hb_clients ?h)"
    "\<forall>m. m \<notin> set (hb_clients ?h) \<longrightarrow> S' m = ss_sockets s m"
    using em side(2) by (auto simp: emitted_def split: sum.splits dest!: broadcast_frames)
  have "\<forall>m \<ge> ss_next s. so_frames (S' m) = []"
    using cl(3) side(3,4) by (metis leD)
  with hub cl side(3) have hub': "hub_side_ok (s\<lparr>ss_hub := h', ss_sockets := S', ss_log := ?lg'\<rparr>)"
    by (auto simp: hub_side_ok_def)
  have lt: "\<forall>x \<in> set (?P ?lg). we_cursor x < hb_nextCursor ?h" using side(1) by (auto simp: hub_inv_def)
  have P': "?P ?lg' = (case r of Inr e \<Rightarrow> if kept \<and> parseEnvelope E e then ?P ?lg @ [e] else ?P ?lg
      | Inl _ \<Rightarrow> ?P ?lg)"
    by (auto simp: grown_def split: sum.split)
  have grow: "?lg' = ?lg \<or> (\<exists>e. ?lg' = ?lg @ [e] \<and> we_cursor e = hb_nextCursor ?h)"
    using em by (auto simp: grown_def emitted_def split: sum.splits)
  have P'': "?P ?lg' = (case r of Inr e \<Rightarrow> if kp then ?P ?lg @ [e] else ?P ?lg | Inl _ \<Rightarrow> ?P ?lg)"
    if "kp = (case r of Inr e \<Rightarrow> kept \<and> parseEnvelope E e | Inl _ \<Rightarrow> False)" for kp
    using P' that by (auto split: sum.splits)
  have link: "link_ok (?P ?lg') c h' S' n k" if "link_ok (?P ?lg) c ?h (ss_sockets s) n k" for c n k
    by (rule link_emitted [OF em that side(2) lt P'' [OF refl]])
  have nx: "hb_nextCursor h' = hb_nextCursor ?h + 1" using em by (simp add: emitted_def)
  show ?thesis
    unfolding s' stream_inv_def
    using inv hub' link client_emitted [OF _ nx grow]
    by (auto simp: stream_inv_def split: option.splits)
qed

subsection \<open>Heartbeats, attachment and loss\<close>

lemma hub_attach_spec:
  assumes at: "hub_attach net uid ts n c (h, S) = (h', S')" and inv: "hub_inv lg h"
    and fresh: "so_frames (S n) = []" "n \<notin> set (hb_clients h)"
  shows "hub_inv lg h'" "hb_nextCursor h' = hb_nextCursor h" "m \<noteq> n \<Longrightarrow> S' m = S m"
    "hb_clients h' = hb_clients h \<or> hb_clients h' = hb_clients h @ [n]"
    "link_ok (filter P lg) c h' S' n 0"
proof -
  have "hub_inv lg h' \<and> hb_nextCursor h' = hb_nextCursor h \<and> (\<forall>m. m \<noteq> n \<longrightarrow> S' m = S m)
    \<and> (hb_clients h' = hb_clients h \<or> hb_clients h' = hb_clients h @ [n])
    \<and> link_ok (filter P lg) c h' S' n 0"
  proof (cases "c > hb_nextCursor h - 1 \<or> c < hb_discarded h")
    case True
    let ?e = "reset_envelope uid ts (hb_nextCursor h - 1)"
    obtain ok S1 where w: "writeClient net n (EventFrame ?e) S = (ok, S1)"
      by (cases "writeClient net n (EventFrame ?e) S")
    note W = writeClient_frames [OF w]
    have h': "h' = h\<lparr>hb_resets := hb_resets h + 1\<rparr>"
      and S': "S' = (if ok then S1(n := (S1 n)\<lparr>so_open := False\<rparr>) else S1)"
      using at True w by (auto simp: hub_attach_def Let_def)
    have "so_frames (S' n) = so_frames (S1 n)" using S' by simp
    then have "\<forall>e \<in> set (evs (so_frames (S' n))). we_type e = js ''replay_reset''"
      using W(2) fresh(1) by (auto simp: reset_envelope_def)
    then show ?thesis using h' S' inv fresh(2) W(1) by (simp add: link_ok_def)
  next
    case False
    let ?X = "filter (\<lambda>e. c < we_cursor e) lg"
    have X: "?X = map rt_envelope (filter (\<lambda>i. c < we_cursor (rt_envelope i)) (hb_retained h))"
    proof -
      have "?X = filter (\<lambda>e. c < we_cursor e) (filter (\<lambda>e. hb_discarded h < we_cursor e) lg)"
        using False by (auto intro: filter_cong)
      also have "\<dots> = filter (\<lambda>e. c < we_cursor e) (map rt_envelope (hb_retained h))"
        using inv by (simp add: hub_inv_def)
      finally show ?thesis by (simp add: filter_map comp_def)
    qed
    obtain ok S1 where r: "replay_to net n c (hb_retained h) S = (ok, S1)"
      by (cases "replay_to net n c (hb_retained h) S")
    have h': "h' = (if ok then h\<lparr>hb_clients := hb_clients h @ [n]\<rparr> else h)" and S': "S' = S1"
      using at False r fresh(2) by (auto simp: hub_attach_def Let_def split: if_splits)
    from replay_to_frames [OF r X] obtain j where j: "j \<le> length ?X" "ok \<longrightarrow> j = length ?X"
      "so_frames (S1 n) = map EventFrame (take j ?X)" "\<forall>m. m \<noteq> n \<longrightarrow> S1 m = S m"
      using fresh(1) by auto
    obtain b where b: "c \<le> b" "b \<le> hb_nextCursor h - 1" "j = length ?X \<longrightarrow> b = hb_nextCursor h - 1"
      "feed (filter P lg) c b (map EventFrame (take j ?X))"
      using feed_replay [of lg ?X c j "hb_nextCursor h - 1" P] inv j(1) False
      by (auto simp: hub_inv_def)
    then have "link_ok (filter P lg) c h' S1 n 0"
      using j h' fresh(2) unfolding link_ok_def by (auto intro!: exI [of _ b])
    then show ?thesis using h' S' j(4) inv by simp
  qed
  then show "hub_inv lg h'" "hb_nextCursor h' = hb_nextCursor h" "m \<noteq> n \<Longrightarrow> S' m = S m"
    "hb_clients h' = hb_clients h \<or> hb_clients h' = hb_clients h @ [n]"
    "link_ok (filter P lg) c h' S' n 0" by auto
qed

text \<open>Fewer clients, or frames that carry no event, keep a link.\<close>

lemma link_ok_weaken:
  assumes "link_ok L c h S n k" "hb_nextCursor h' = hb_nextCursor h"
    "n \<in> set (hb_clients h') \<Longrightarrow> n \<in> set (hb_clients h)"
    "so_frames (S' n) = so_frames (S n) \<or> so_frames (S' n) = so_frames (S n) @ [HeartbeatFrame]"
  shows "link_ok L c h' S' n k"
proof -
  have ev: "evs (drop k (so_frames (S' n))) = evs (drop k (so_frames (S n)))"
    and k: "k \<le> length (so_frames (S' n))"
    using assms(1,4) by (auto simp: link_ok_def)
  then have "feed L c b (drop k (so_frames (S' n))) = feed L c b (drop k (so_frames (S n)))" for b
    by (simp add: feed_def)
  with assms(1-3) ev k show ?thesis by (auto simp: link_ok_def)
qed

lemma hub_change_inv:
  assumes inv: "stream_inv E c0 s" and hub: "hub_inv (ss_log s) h'"
    and nx: "hb_nextCursor h' = hb_nextCursor (ss_hub s)"
    and cl: "set (hb_clients h') \<subseteq> set (hb_clients (ss_hub s))" "distinct (hb_clients h')"
    and S: "\<And>m. so_frames (S' m) = so_frames (ss_sockets s m)
      \<or> m \<in> set (hb_clients (ss_hub s)) \<and> so_frames (S' m) = so_frames (ss_sockets s m) @ [HeartbeatFrame]"
  shows "stream_inv E c0 (s\<lparr>ss_hub := h', ss_sockets := S'\<rparr>)"
proof -
  have "so_frames (S' m) = []" if "ss_next s \<le> m" for m
  proof -
    have "m \<notin> set (hb_clients (ss_hub s))" using inv that by (auto simp: stream_inv_def hub_side_ok_def)
    with S [of m] inv that show ?thesis by (auto simp: stream_inv_def hub_side_ok_def)
  qed
  then have "hub_side_ok (s\<lparr>ss_hub := h', ss_sockets := S'\<rparr>)"
    using inv hub cl by (auto simp: stream_inv_def hub_side_ok_def)
  moreover have "link_ok L c h' S' n k" if "link_ok L c (ss_hub s) (ss_sockets s) n k" for L c n k
    by (rule link_ok_weaken [OF that nx]) (use cl(1) S [of n] in auto)
  ultimately show ?thesis
    using inv nx by (auto simp: stream_inv_def split: option.splits)
qed

lemma client_connect_inv:
  assumes "stream_inv E c0 s"
  shows "stream_inv E c0 (client_connect net uid ts s)"
proof -
  let ?c = "ss_client s" and ?n = "ss_next s"
  obtain h S where at: "hub_attach net uid ts ?n (cl_cursor ?c) (ss_hub s, ss_sockets s) = (h, S)"
    by (cases "hub_attach net uid ts ?n (cl_cursor ?c) (ss_hub s, ss_sockets s)")
  have side: "hub_inv (ss_log s) (ss_hub s)" "so_frames (ss_sockets s ?n) = []"
    "?n \<notin> set (hb_clients (ss_hub s))"
    using assms by (auto simp: stream_inv_def hub_side_ok_def)
  note A = hub_attach_spec [OF at side]
  have "hub_side_ok (s\<lparr>ss_hub := h, ss_sockets := S, ss_next := Suc ?n\<rparr>)"
    using assms A(1,3,4) side(3)
    by (auto simp: stream_inv_def hub_side_ok_def less_Suc_eq)
  then show ?thesis
    using assms A(2) A(5) [of "parseEnvelope E"] at
    by (auto simp: client_connect_def Let_def stream_inv_def hub_side_ok_def client_side_ok_def)
qed

lemma other_attach_inv:
  assumes inv: "stream_inv E c0 s"
    and at: "hub_attach net uid ts (ss_next s) cur (ss_hub s, ss_sockets s) = (h, S)"
  shows "stream_inv E c0 (s\<lparr>ss_hub := h, ss_sockets := S, ss_next := Suc (ss_next s)\<rparr>)"
proof -
  let ?n = "ss_next s"
  have side: "hub_inv (ss_log s) (ss_hub s)" "so_frames (ss_sockets s ?n) = []"
    "?n \<notin> set (hb_clients (ss_hub s))"
    using inv by (auto simp: stream_inv_def hub_side_ok_def)
  note A = hub_attach_spec [OF at side]
  have "hub_side_ok (s\<lparr>ss_hub := h, ss_sockets := S, ss_next := Suc ?n\<rparr>)"
    using inv A(1,3,4) side(3)
    by (auto simp: stream_inv_def hub_side_ok_def less_Suc_eq)
  moreover have "link_ok L c h S m k" if "link_ok L c (ss_hub s) (ss_sockets s) m k" "m < ?n" for L c m k
    by (rule link_ok_weaken [OF that(1) A(2)]) (use A(3,4) that(2) in auto)
  ultimately show ?thesis
    using inv A(2) by (auto simp: stream_inv_def less_Suc_eq split: option.splits)
qed

subsection \<open>The client reads\<close>

lemma client_message_inv:
  assumes cl: "client_side_ok E c0 lg nxt c" and ord: "in_order lg"
    and feed: "feed (filter (parseEnvelope E) lg) (cl_cursor c) b (EventFrame e # F)" and b: "b < nxt"
    and live: "\<not> cl_suspended (client_message E e c)"
  shows "client_side_ok E c0 lg nxt (client_message E e c)
    \<and> (cl_closed c \<or> cl_cursor (client_message E e c) \<le> b
         \<and> feed (filter (parseEnvelope E) lg) (cl_cursor (client_message E e c)) b F)
    \<and> cl_source (client_message E e c) = cl_source c"
proof -
  let ?L = "filter (parseEnvelope E) lg"
  have ordL: "in_order ?L" using ord by (rule in_order_filter)
  note R = feed_read [OF feed ordL]
  show ?thesis
  proof (cases "cl_closed c \<or> cl_suspended c")
    case True
    with live cl show ?thesis by (auto simp: client_message_def)
  next
    case run: False
    show ?thesis
    proof (cases "parseEnvelope E e")
      case False
      then have "feed ?L (cl_cursor c) b F" using feed_skip [OF feed] by simp
      with False run cl R(3,4) show ?thesis by (simp add: client_message_def client_side_ok_def)
    next
      case parse: True
      with live run R(3) have upd: "client_message E e c
          = c\<lparr>cl_cursor := we_cursor e, cl_received := cl_received c @ [e]\<rparr>"
        by (auto simp: client_message_def split: if_splits)
      have mem: "e \<in> set ?L \<longleftrightarrow> e \<in> set lg" using parse by simp
      have "c0 \<le> cl_cursor c" using cl by (auto simp: client_side_ok_def)
      then have "slice ?L c0 (we_cursor e)
          = slice ?L c0 (cl_cursor c) @ slice ?L (cl_cursor c) (we_cursor e)"
        by (rule slice_split [OF ordL]) (use R(3) in simp)
      then have eq: "filter (\<lambda>x. x \<in> set lg) (cl_received c @ [e]) = slice ?L c0 (we_cursor e)"
        using cl R(2) mem by (simp add: client_side_ok_def)
      have "c0 < we_cursor e" using \<open>c0 \<le> cl_cursor c\<close> R(3) by simp
      with cl eq R(3,4) b have "client_side_ok E c0 lg nxt (client_message E e c)"
        unfolding upd by (fastforce simp: client_side_ok_def)
      with upd R(1,4) show ?thesis by simp
    qed
  qed
qed

lemma client_message_reset:
  assumes "we_type e = js ''replay_reset''" "\<not> cl_suspended (client_message E e c)"
  shows "cl_cursor (client_message E e c) = cl_cursor c
    \<and> cl_received (client_message E e c) = cl_received c
    \<and> cl_source (client_message E e c) = cl_source c"
  using assms by (auto simp: client_message_def split: if_splits)

text \<open>
  A closed or suspended client has neither a source nor a retry pending, and a source is open
  only while the browser is online.
\<close>

definition at_rest :: "stream_system \<Rightarrow> bool" where
  "at_rest s \<longleftrightarrow> (cl_closed (ss_client s) \<or> cl_suspended (ss_client s) \<longrightarrow>
       cl_source (ss_client s) = None \<and> cl_timer (ss_client s) = None)
     \<and> (cl_source (ss_client s) \<noteq> None \<longrightarrow> ss_online s)"

definition trying :: "stream_system \<Rightarrow> bool" where
  "trying s \<longleftrightarrow> cl_closed (ss_client s) \<or> cl_suspended (ss_client s) \<or> \<not> ss_online s
     \<or> cl_source (ss_client s) \<noteq> None \<or> cl_timer (ss_client s) \<noteq> None"

lemma drop_nth_Cons: "k < length xs \<Longrightarrow> drop k xs = xs ! k # drop (Suc k) xs"
  by (rule Cons_nth_drop_Suc [symmetric])

lemma client_receive_inv:
  assumes inv: "stream_inv E c0 s" and src: "at_rest s"
  shows "stream_inv E c0 (client_receive E s)"
proof (cases "cl_source (ss_client s)")
  case None
  with inv show ?thesis by (simp add: client_receive_def)
next
  case (Some nk)
  obtain n k where nk: "nk = (n, k)" by (cases nk)
  let ?c = "ss_client s" and ?F = "so_frames (ss_sockets s n)" and ?L = "filter (parseEnvelope E) (ss_log s)"
  let ?c1 = "?c\<lparr>cl_source := Some (n, Suc k)\<rparr>" and ?nx = "hb_nextCursor (ss_hub s)"
  have side: "hub_side_ok s" using inv by (simp add: stream_inv_def)
  then have ord: "in_order (ss_log s)" by (simp add: hub_side_ok_def hub_inv_def)
  show ?thesis
  proof (cases "k < length ?F \<and> \<not> cl_suspended ?c")
    case False
    with inv Some nk show ?thesis
      by (auto simp: client_receive_def stream_inv_def hub_side_ok_def client_message_def Let_def
          split: sse_frame.split)
  next
    case True
    with inv Some nk have cl: "client_side_ok E c0 (ss_log s) ?nx ?c" and n: "n < ss_next s"
      and link: "link_ok ?L (cl_cursor ?c) (ss_hub s) (ss_sockets s) n k"
      by (auto simp: stream_inv_def)
    have F: "drop k ?F = ?F ! k # drop (Suc k) ?F" using True by (simp add: drop_nth_Cons)
    have cl1: "client_side_ok E c0 (ss_log s) ?nx ?c1" using cl by (simp add: client_side_ok_def)
    have keep: "stream_inv E c0 (s\<lparr>ss_client := d\<rparr>)"
      if "client_side_ok E c0 (ss_log s) ?nx d" "cl_source d = Some (n, Suc k)"
        "link_ok ?L (cl_cursor d) (ss_hub s) (ss_sockets s) n (Suc k)" for d
      using that side n by (simp add: stream_inv_def hub_side_ok_def)
    show ?thesis
    proof (cases "?F ! k")
      case HeartbeatFrame
      have "link_ok ?L (cl_cursor ?c) (ss_hub s) (ss_sockets s) n (Suc k)"
        using link True F HeartbeatFrame by (auto simp: link_ok_def feed_def)
      then have "stream_inv E c0 (s\<lparr>ss_client := ?c1\<rparr>)" by (intro keep) (use cl1 in simp_all)
      then show ?thesis using True Some nk HeartbeatFrame by (simp add: client_receive_def)
    next
      case (EventFrame e)
      let ?d = "client_message E e ?c1"
      have res: "client_receive E s = s\<lparr>ss_client := ?d\<rparr>"
        using True Some nk EventFrame by (simp add: client_receive_def Let_def)
      show ?thesis
      proof (cases "cl_suspended ?d")
        case True
        then show ?thesis unfolding res using side by (simp add: stream_inv_def hub_side_ok_def)
      next
        case live: False
        have open1: "\<not> cl_closed ?c1" using src Some by (simp add: at_rest_def)
        from link [unfolded link_ok_def] consider
            (reset) "n \<notin> set (hb_clients (ss_hub s))"
              "\<forall>x \<in> set (evs (drop k ?F)). we_type x = js ''replay_reset''"
          | (feed) b where "cl_cursor ?c \<le> b" "b < ?nx"
              "n \<in> set (hb_clients (ss_hub s)) \<longrightarrow> b = ?nx - 1" "feed ?L (cl_cursor ?c) b (drop k ?F)"
          by auto
        then show ?thesis
        proof cases
          case reset
          then have "we_type e = js ''replay_reset''" using F EventFrame by simp
          from client_message_reset [OF this live] have d: "cl_cursor ?d = cl_cursor ?c"
            "cl_received ?d = cl_received ?c" "cl_source ?d = Some (n, Suc k)" by simp_all
          have "link_ok ?L (cl_cursor ?d) (ss_hub s) (ss_sockets s) n (Suc k)"
            using reset True F EventFrame by (simp add: link_ok_def)
          with d cl show ?thesis unfolding res by (intro keep) (simp_all add: client_side_ok_def)
        next
          case feed
          have f: "feed ?L (cl_cursor ?c1) b (EventFrame e # drop (Suc k) ?F)"
            using feed(4) F EventFrame by simp
          note M = client_message_inv [OF cl1 ord f feed(2) live]
          have "link_ok ?L (cl_cursor ?d) (ss_hub s) (ss_sockets s) n (Suc k)"
            using M open1 True feed(2,3) unfolding link_ok_def by auto
          with M show ?thesis unfolding res by (intro keep) simp_all
        qed
      qed
    qed
  qed
qed

subsection \<open>Every step keeps the invariant\<close>

lemma client_fields_inv:
  assumes "stream_inv E c0 s" "cl_cursor d = cl_cursor (ss_client s)"
    "cl_received d = cl_received (ss_client s)" "cl_suspended d = cl_suspended (ss_client s)"
    "cl_source d = cl_source (ss_client s) \<or> cl_source d = None"
  shows "stream_inv E c0 (s\<lparr>ss_client := d\<rparr>)"
  using assms by (auto simp: stream_inv_def hub_side_ok_def client_side_ok_def split: option.splits)

lemma online_inv [simp]: "stream_inv E c0 (s\<lparr>ss_online := b\<rparr>) = stream_inv E c0 s"
  by (simp add: stream_inv_def hub_side_ok_def split: option.split)

lemma logged_over_hub [simp]:
  "logged kept r (s\<lparr>ss_hub := h, ss_sockets := S\<rparr>) = logged kept r s"
  "logged kept r (s\<lparr>ss_hub := h\<rparr>) = logged kept r s"
  by (cases r; simp add: logged_def split: sum.split)+

lemma emit_step_inv:
  assumes "stream_inv E c0 s" "hub_emit E C net uid ts ev durable ctx (ss_hub s, ss_sockets s) = r"
    "kept = (durable \<or> always_retained ev)"
  shows "stream_inv E c0 (logged kept r s)"
proof -
  obtain x h' S' where r: "r = (x, h', S')" by (cases r)
  have hub: "hub_inv (ss_log s) (ss_hub s)" using assms(1) by (simp add: stream_inv_def hub_side_ok_def)
  from hub_emit_spec [OF assms(2) [unfolded r] hub] show ?thesis
    unfolding r assms(3) by (rule logged_inv [OF assms(1)])
qed

lemma compact_keeps [simp]:
  "hb_nextCursor (snd (compactRuntimeEvent E ev sid h)) = hb_nextCursor h"
  "hb_clients (snd (compactRuntimeEvent E ev sid h)) = hb_clients h"
  "hub_inv lg (snd (compactRuntimeEvent E ev sid h)) = hub_inv lg h"
  by (auto simp: compactRuntimeEvent_def rememberTranscriptContent_def Let_def
      split: bool.split option.split)

lemma emitRuntime_step_inv:
  assumes "stream_inv E c0 s"
  shows "stream_inv E c0 (logged (isDurableRuntimeEvent ev)
    (emitRuntime E C net redact uid ts ev ctx (ss_hub s, ss_sockets s)) s)"
proof -
  let ?v = "sanitizeRuntimeEvent redact ev"
  let ?h = "snd (compactRuntimeEvent E ?v (fst ctx) (ss_hub s))"
    and ?w = "fst (compactRuntimeEvent E ?v (fst ctx) (ss_hub s))"
  have t: "stream_inv E c0 (s\<lparr>ss_hub := ?h, ss_sockets := ss_sockets s\<rparr>)"
    by (rule hub_change_inv [OF assms])
      (use assms in \<open>auto simp: stream_inv_def hub_side_ok_def\<close>)
  have k: "isDurableRuntimeEvent ev = (isDurableRuntimeEvent ev \<or> always_retained (WbRuntimeEvent ?w))"
    by simp
  from emit_step_inv [OF t refl k, where C = C and net = net and uid = uid and ts = ts and ctx = ctx]
  show ?thesis by (simp add: emitRuntime_def case_prod_beta)
qed

lemma heartbeat_inv:
  assumes inv: "stream_inv E c0 s" and hb: "heartbeat net (ss_hub s, ss_sockets s) = (h, S)"
  shows "stream_inv E c0 (s\<lparr>ss_hub := h, ss_sockets := S\<rparr>)"
proof -
  obtain cs S2 where b: "broadcast net HeartbeatFrame (hb_clients (ss_hub s)) (ss_sockets s) = (cs, S2)"
    by (cases "broadcast net HeartbeatFrame (hb_clients (ss_hub s)) (ss_sockets s)")
  with hb have r: "h = (ss_hub s)\<lparr>hb_clients := cs\<rparr>" "S = S2" by (auto simp: heartbeat_def)
  have side: "hub_side_ok s" using inv by (simp add: stream_inv_def)
  then have "distinct (hb_clients (ss_hub s))" by (simp add: hub_side_ok_def)
  note B = broadcast_frames [OF b this]
  have "so_frames (S2 m) = so_frames (ss_sockets s m)
      \<or> m \<in> set (hb_clients (ss_hub s)) \<and> so_frames (S2 m) = so_frames (ss_sockets s m) @ [HeartbeatFrame]" for m
    using B by metis
  then show ?thesis unfolding r
    by (intro hub_change_inv [OF inv]) (use B side in \<open>auto simp: hub_side_ok_def\<close>)
qed

lemma frames_after_close [simp]:
  "so_frames (fold (\<lambda>n S. S(n := (S n)\<lparr>so_open := False\<rparr>)) ns S m) = so_frames (S m)"
  by (induction ns arbitrary: S) auto

lemma quiet_hub_inv:
  assumes "stream_inv E c0 s" "h = (ss_hub s)\<lparr>hb_clients := filter P (hb_clients (ss_hub s))\<rparr>"
    "\<And>m. so_frames (S m) = so_frames (ss_sockets s m)"
  shows "stream_inv E c0 (s\<lparr>ss_hub := h, ss_sockets := S\<rparr>)"
  by (rule hub_change_inv [OF assms(1)])
    (use assms in \<open>auto simp: stream_inv_def hub_side_ok_def\<close>)

lemma stream_step_inv:
  assumes inv: "stream_inv E c0 s" and rest: "at_rest s"
  shows "stream_inv E c0 (stream_step E C net redact x s)"
proof (cases x)
  case (OpEmit uid ts ev durable ctx)
  then show ?thesis using emit_step_inv [OF inv refl refl] by simp
next
  case (OpEmitRuntime uid ts ev ctx)
  then show ?thesis using emitRuntime_step_inv [OF inv] by simp
next
  case (OpEmitThread uid ts ev sid)
  then show ?thesis using emit_step_inv [OF inv refl, where kept = True and durable = True]
    by (simp add: emitThread_def)
next
  case OpHeartbeat
  then show ?thesis using heartbeat_inv [OF inv] by (simp split: prod.split)
next
  case OpHubClose
  then show ?thesis
    using quiet_hub_inv [OF inv, where P = "\<lambda>_. False"] by (simp add: close_hub_def)
next
  case (OpOtherAttach uid ts cur)
  then show ?thesis using other_attach_inv [OF inv] by (simp split: prod.split)
next
  case (OpSocketDestroyed n)
  then show ?thesis
    using quiet_hub_inv [OF inv, where h = "ss_hub s" and P = "\<lambda>_. True"] inv by (simp add: stream_system.defs)
next
  case (OpSocketClosed n)
  then show ?thesis
    using quiet_hub_inv [OF inv, where S = "ss_sockets s" and P = "\<lambda>c. c \<noteq> n"] by (simp add: hub_detach_def)
next
  case (OpConnect uid ts)
  then show ?thesis using inv by (simp add: first_connect_def client_connect_inv)
next
  case (OpTimer uid ts)
  then show ?thesis
    using inv by (auto simp: client_timer_def intro!: client_connect_inv client_fields_inv)
next
  case (OpOnline uid ts)
  then show ?thesis using inv
    by (auto simp: client_online_def Let_def intro!: client_connect_inv client_fields_inv)
next
  case OpOffline
  then show ?thesis using inv by (auto simp: client_offline_def Let_def intro!: client_fields_inv)
next
  case OpOpened
  then show ?thesis using inv by (auto simp: client_opened_def intro!: client_fields_inv)
next
  case OpReceive
  then show ?thesis using client_receive_inv [OF inv rest] by simp
next
  case OpError
  then show ?thesis using inv
    by (auto simp: client_error_def Let_def intro!: client_fields_inv split: option.split)
next
  case OpClose
  then show ?thesis using inv by (auto simp: client_close_def intro!: client_fields_inv)
qed

lemma connect_rest:
  assumes "at_rest s" "cl_timer (ss_client s) = None \<or> \<not> cl_closed (ss_client s) \<and> \<not> cl_suspended (ss_client s)"
  shows "at_rest (client_connect net uid ts s)"
  using assms by (auto simp: at_rest_def client_connect_def Let_def split: prod.split)

lemma client_message_rest:
  "cl_closed (client_message E e c) = cl_closed c"
  "cl_source (client_message E e c) = None \<and> cl_timer (client_message E e c) = None
     \<and> cl_suspended (client_message E e c)
   \<or> cl_source (client_message E e c) = cl_source c \<and> cl_timer (client_message E e c) = cl_timer c
     \<and> cl_suspended (client_message E e c) = cl_suspended c"
  by (auto simp: client_message_def)

lemma logged_client [simp]:
  "ss_client (logged kept r s) = ss_client s" "ss_online (logged kept r s) = ss_online s"
  "ss_next (logged kept r s) = ss_next s"
  by (cases r; simp add: logged_def)+

lemma stream_step_rest:
  assumes "at_rest s"
  shows "at_rest (stream_step E C net redact x s)"
proof (cases x)
  case OpReceive
  then show ?thesis
    using assms client_message_rest
    by (fastforce simp: client_receive_def at_rest_def Let_def split: option.split sse_frame.split)
qed (use assms in \<open>auto simp: at_rest_def first_connect_def client_timer_def client_online_def
    client_offline_def client_opened_def client_error_def client_close_def client_connect_def Let_def
    split: prod.split option.split\<close>)

lemma connect_trying: "trying (client_connect net uid ts s)"
  by (auto simp: trying_def client_connect_def Let_def split: prod.split)

lemma stream_step_trying:
  assumes "at_rest s" "trying s"
  shows "trying (stream_step E C net redact x s)"
proof (cases x)
  case (OpTimer uid ts)
  then show ?thesis using assms(2) connect_trying by (simp add: client_timer_def)
next
  case (OpConnect uid ts)
  then show ?thesis using assms(2) connect_trying by (simp add: first_connect_def)
next
  case (OpOnline uid ts)
  then show ?thesis using connect_trying
    by (auto simp: client_online_def Let_def trying_def)
next
  case OpReceive
  then show ?thesis
    using assms client_message_rest
    by (fastforce simp: client_receive_def trying_def Let_def split: option.split sse_frame.split)
qed (use assms in \<open>auto simp: trying_def at_rest_def client_offline_def client_opened_def
    client_error_def client_close_def Let_def split: prod.split option.split\<close>)

text \<open>Sockets not used yet are open.\<close>

definition fresh_open :: "stream_system \<Rightarrow> bool" where
  "fresh_open s \<longleftrightarrow> (\<forall>m \<ge> ss_next s. so_open (ss_sockets s m))"

definition web_inv :: "js_env \<Rightarrow> int \<Rightarrow> stream_system \<Rightarrow> bool" where
  "web_inv E c0 s \<longleftrightarrow> stream_inv E c0 s \<and> at_rest s \<and> fresh_open s"

lemma hub_emit_sockets:
  assumes "hub_emit E C net uid ts ev durable ctx (h, S) = (r, h', S')" "hub_inv lg h"
    "distinct (hb_clients h)" "m \<notin> set (hb_clients h)"
  shows "S' m = S m"
  using hub_emit_spec(1) [OF assms(1,2)] assms(3,4)
  by (auto simp: emitted_def split: sum.splits dest: broadcast_frames)

lemma fold_close_other:
  "m \<notin> set ns \<Longrightarrow> fold (\<lambda>n S. S(n := (S n)\<lparr>so_open := False\<rparr>)) ns S m = S m"
  by (induction ns arbitrary: S) auto

lemma attach_other:
  assumes "web_inv E c0 s" "hub_attach net uid ts (ss_next s) c (ss_hub s, ss_sockets s) = (h, S)" "m \<noteq> ss_next s"
  shows "S m = ss_sockets s m"
  by (rule hub_attach_spec(3) [OF assms(2)])
    (use assms(1,3) in \<open>auto simp: web_inv_def stream_inv_def hub_side_ok_def\<close>)

lemma attach_fresh:
  assumes "web_inv E c0 s" "hub_attach net uid ts (ss_next s) c (ss_hub s, ss_sockets s) = (h, S)"
    "Suc (ss_next s) \<le> m"
  shows "so_open (S m)"
  using attach_other [OF assms(1,2), of m] assms(1,3) by (simp add: web_inv_def fresh_open_def)

lemma connect_fresh:
  assumes "web_inv E c0 s" "fresh_open s" "ss_hub t = ss_hub s" "ss_sockets t = ss_sockets s" "ss_next t = ss_next s"
  shows "fresh_open (client_connect net uid ts t)"
  using assms
  by (auto simp: client_connect_def Let_def fresh_open_def split: prod.split
      intro: attach_fresh [OF assms(1)])

lemma stream_step_fresh:
  assumes inv: "web_inv E c0 s"
  shows "fresh_open (stream_step E C net redact x s)"
proof -
  have side: "hub_inv (ss_log s) (ss_hub s)" "distinct (hb_clients (ss_hub s))"
    "\<And>m. ss_next s \<le> m \<Longrightarrow> m \<notin> set (hb_clients (ss_hub s))" and fr: "fresh_open s"
    using inv by (auto simp: web_inv_def stream_inv_def hub_side_ok_def)
  have emit: "fresh_open (logged kept (hub_emit E C net uid ts ev d ctx (h, ss_sockets s)) s)"
    if "hub_inv (ss_log s) h" "hb_clients h = hb_clients (ss_hub s)" for kept uid ts ev d ctx h
  proof -
    obtain r h' S' where e: "hub_emit E C net uid ts ev d ctx (h, ss_sockets s) = (r, h', S')"
      by (cases "hub_emit E C net uid ts ev d ctx (h, ss_sockets s)")
    have "S' m = ss_sockets s m" if "ss_next s \<le> m" for m
      by (rule hub_emit_sockets [OF e]) (use that \<open>hub_inv (ss_log s) h\<close> \<open>hb_clients h = hb_clients (ss_hub s)\<close> side in auto)
    then show ?thesis using fr e by (simp add: logged_def fresh_open_def)
  qed
  show ?thesis
  proof (cases x)
    case (OpEmit uid ts ev durable ctx)
    then show ?thesis using emit side by simp
  next
    case (OpEmitRuntime uid ts ev ctx)
    then show ?thesis using emit side by (simp add: emitRuntime_def case_prod_beta)
  next
    case (OpEmitThread uid ts ev sid)
    then show ?thesis using emit side by (simp add: emitThread_def)
  next
    case OpHeartbeat
    obtain cs S2 where b: "broadcast net HeartbeatFrame (hb_clients (ss_hub s)) (ss_sockets s) = (cs, S2)"
      by (cases "broadcast net HeartbeatFrame (hb_clients (ss_hub s)) (ss_sockets s)")
    then show ?thesis using OpHeartbeat fr side broadcast_frames [OF b side(2)]
      by (auto simp: heartbeat_def fresh_open_def)
  next
    case OpHubClose
    then show ?thesis using fr side by (auto simp: close_hub_def fresh_open_def fold_close_other)
  next
    case (OpOtherAttach uid ts cur)
    then show ?thesis
      by (auto simp: fresh_open_def split: prod.split intro: attach_fresh [OF inv])
  next
    case (OpConnect uid ts)
    then show ?thesis using connect_fresh [OF inv fr] fr by (auto simp: first_connect_def)
  next
    case (OpTimer uid ts)
    then show ?thesis using connect_fresh [OF inv fr] fr by (auto simp: client_timer_def)
  next
    case (OpOnline uid ts)
    then show ?thesis using connect_fresh [OF inv fr] fr
      by (auto simp: client_online_def Let_def fresh_open_def)
  qed (use fr in \<open>auto simp: fresh_open_def client_offline_def client_opened_def client_receive_def
      client_error_def client_close_def Let_def split: option.split sse_frame.split\<close>)
qed

interpretation web_stream: component "stream_step E C net redact" "web_inv E c0"
  for E C net redact c0
proof unfold_locales
  fix s x
  assume inv: "web_inv E c0 s"
  then have "stream_inv E c0 s" "at_rest s" by (simp_all add: web_inv_def)
  with stream_step_fresh [OF inv] show "web_inv E c0 (stream_step E C net redact x s)"
    by (simp add: web_inv_def stream_step_inv stream_step_rest)
qed

lemma new_hub_inv:
  assumes "new_hub me mb = Inr (C, h)" "0 \<le> c0"
  shows "web_inv E c0 (stream_start h c0)"
proof -
  have "h = \<lparr>hb_retained = [], hb_clients = [], hb_contents = [], hb_nextCursor = 1, hb_bytes = 0,
      hb_discarded = 0, hb_resets = 0\<rparr>"
    using assms(1) by (auto simp: new_hub_def split: sum.splits)
  then show ?thesis using assms(2)
    by (simp add: web_inv_def stream_inv_def hub_side_ok_def hub_inv_def client_side_ok_def
        stream_start_def at_rest_def fresh_open_def)
qed

end
