(* ===== verification/WebBounds.thy ===== *)
theory WebBounds
  imports WebDelivery
begin

section \<open>The memory of the web event hub\<close>

definition entries_ok :: "js_env \<Rightarrow> event_hub \<Rightarrow> bool" where
  "entries_ok E h \<longleftrightarrow> (\<forall>r \<in> set (hb_retained h). rt_bytes r = utf8_bytes (encodeSse E (rt_envelope r)))
     \<and> length (hb_contents h) \<le> contents_limit \<and> (\<forall>(k, v) \<in> set (hb_contents h). k \<noteq> [])"

lemma entries_ok_trim: "entries_ok E h \<Longrightarrow> entries_ok E (hub_trim C h)"
proof (induction C h rule: hub_trim.induct)
  case (1 C h)
  show ?case
  proof (cases "(length (hb_retained h) > hc_maxEvents C \<or> hb_bytes h > hc_maxBytes C)
      \<and> hb_retained h \<noteq> []")
    case False
    with 1(2) show ?thesis by (subst hub_trim.simps) (auto split: list.split)
  next
    case True
    then obtain r rest where r: "hb_retained h = r # rest" by (cases "hb_retained h") auto
    have "entries_ok E (h\<lparr>hb_retained := rest, hb_bytes := hb_bytes h - rt_bytes r,
        hb_discarded := max (hb_discarded h) (we_cursor (rt_envelope r))\<rparr>)"
      using 1(2) r by (simp add: entries_ok_def)
    with 1(1) [OF _ r] True r show ?thesis by (subst hub_trim.simps) simp
  qed
qed

lemma key_nonempty: "transcriptContentKey sid i \<noteq> []"
  by (simp add: transcriptContentKey_def transcriptSessionPrefix_def)

lemma drop_oldest_ok:
  assumes "\<forall>(k, v) \<in> set m. k \<noteq> []"
  shows "length (drop_oldest m) \<le> contents_limit \<and> (\<forall>(k, v) \<in> set (drop_oldest m). k \<noteq> [])"
  using assms
proof (induction m rule: drop_oldest.induct)
  case (1 m)
  show ?case
  proof (cases "length m > contents_limit")
    case False
    with 1(2) show ?thesis by (subst (1 2) drop_oldest.simps) simp
  next
    case True
    then obtain k v rest where m: "m = (k, v) # rest" by (cases m) auto
    with 1(2) have k: "k \<noteq> []" and rest: "\<forall>(k, v) \<in> set rest. k \<noteq> []" by auto
    have "drop_oldest m = drop_oldest rest"
      by (subst drop_oldest.simps) (use True m k in simp)
    with 1(1) [OF True m refl k rest] show ?thesis by simp
  qed
qed

lemma set_AList_delete: "set (AList.delete k m) \<subseteq> set m"
  by (induction m) auto

lemma entries_ok_compact:
  assumes "entries_ok E h"
  shows "entries_ok E (snd (compactRuntimeEvent E' ev sid h))"
proof -
  let ?m = "hb_contents h"
  have keys: "\<forall>(k, v) \<in> set ?m. k \<noteq> []" and len: "length ?m \<le> contents_limit"
    using assms by (auto simp: entries_ok_def)
  have "\<forall>(k, v) \<in> set (AList.delete key ?m @ [(key, c)]). k \<noteq> []" if "key \<noteq> []" for key c
    using keys that set_AList_delete [of key ?m] by auto
  from drop_oldest_ok [OF this [OF key_nonempty]]
  have rem: "entries_ok E (rememberTranscriptContent (transcriptContentKey sid i) c h)" for i c
    using assms by (auto simp: rememberTranscriptContent_def entries_ok_def)
  have del: "entries_ok E (h\<lparr>hb_contents := AList.delete key ?m\<rparr>)" for key
    using assms set_AList_delete [of key ?m] length_delete_le [of key ?m]
    by (force simp: entries_ok_def)
  have fil: "entries_ok E (h\<lparr>hb_contents := filter P ?m\<rparr>)" for P
    using assms by (auto simp: entries_ok_def intro: order_trans [OF length_filter_le])
  show ?thesis
    using assms rem del fil
    by (auto simp: compactRuntimeEvent_def Let_def split: bool.split option.split)
qed

lemma entries_ok_emit:
  assumes "entries_ok E h" "hub_emit E C net uid ts ev durable ctx (h, S) = (r, h', S')"
  shows "entries_ok E h'"
proof (cases "toEnvelope uid ts (hb_nextCursor h) ctx durable ev")
  case (Inl x)
  with assms show ?thesis by (simp add: hub_emit_def entries_ok_def Let_def) (auto simp: entries_ok_def)
next
  case (Inr e)
  have keep: "entries_ok E (h1\<lparr>hb_clients := cs\<rparr>) = entries_ok E h1" for h1 cs
    by (simp add: entries_ok_def)
  have "entries_ok E (retain E C e (h\<lparr>hb_nextCursor := hb_nextCursor h + 1\<rparr>))"
    unfolding retain_def Let_def
    by (rule entries_ok_trim) (use assms(1) in \<open>simp add: entries_ok_def\<close>)
  moreover have "entries_ok E (h\<lparr>hb_nextCursor := hb_nextCursor h + 1\<rparr>)"
    using assms(1) by (simp add: entries_ok_def)
  ultimately show ?thesis using assms(2) Inr
    by (auto simp: hub_emit_def Let_def keep split: prod.splits if_splits)
qed

definition hub_bounded :: "js_env \<Rightarrow> hub_config \<Rightarrow> event_hub \<Rightarrow> bool" where
  "hub_bounded E C h \<longleftrightarrow> entries_ok E h
     \<and> length (hb_retained h) \<le> hc_maxEvents C \<and> hb_bytes h \<le> hc_maxBytes C"

lemma hub_bounded_cong:
  "hb_retained h' = hb_retained h \<Longrightarrow> hb_bytes h' = hb_bytes h \<Longrightarrow> hb_contents h' = hb_contents h
    \<Longrightarrow> hub_bounded E C h' = hub_bounded E C h"
  by (simp add: hub_bounded_def entries_ok_def)

lemma hub_bounded_emit:
  assumes "hub_bounded E C h" "hub_inv lg h"
    "hub_emit E C net uid ts ev durable ctx (h, S) = (r, h', S')"
  shows "hub_bounded E C h'"
proof -
  let ?h1 = "h\<lparr>hb_nextCursor := hb_nextCursor h + 1\<rparr>"
  have ent: "entries_ok E h'" by (rule entries_ok_emit [OF _ assms(3)]) (use assms(1) in \<open>simp add: hub_bounded_def\<close>)
  have "length (hb_retained h') \<le> hc_maxEvents C \<and> hb_bytes h' \<le> hc_maxBytes C"
  proof (cases "toEnvelope uid ts (hb_nextCursor h) ctx durable ev")
    case (Inl x)
    then have "h' = ?h1" using assms(3) by (simp add: hub_emit_def Let_def)
    with assms(1) show ?thesis by (simp add: hub_bounded_def)
  next
    case (Inr e)
    let ?a = "?h1\<lparr>hb_retained := hb_retained h @
        [\<lparr>rt_envelope = e, rt_encoded = encodeSse E e, rt_bytes = utf8_bytes (encodeSse E e)\<rparr>],
      hb_bytes := hb_bytes h + utf8_bytes (encodeSse E e)\<rparr>"
    have "hub_inv (lg @ [e]) ?a"
      using assms(2) toEnvelope_cursor [OF Inr] by (fastforce simp: hub_inv_def)
    from hub_trim_bounds [OF this, of C]
    have "length (hb_retained (retain E C e ?h1)) \<le> hc_maxEvents C \<and> hb_bytes (retain E C e ?h1) \<le> hc_maxBytes C"
      by (simp add: retain_def Let_def)
    with assms(1,3) Inr show ?thesis
      by (auto simp: hub_emit_def hub_bounded_def Let_def split: prod.splits if_splits)
  qed
  with ent show ?thesis by (simp add: hub_bounded_def)
qed

lemma hub_bounded_compact:
  assumes "hub_bounded E C h"
  shows "hub_bounded E C (snd (compactRuntimeEvent E' ev sid h))"
proof -
  let ?h = "snd (compactRuntimeEvent E' ev sid h)"
  have "hb_retained ?h = hb_retained h \<and> hb_bytes ?h = hb_bytes h"
    by (auto simp: compactRuntimeEvent_def rememberTranscriptContent_def Let_def
        split: bool.split option.split)
  with assms entries_ok_compact [of E h E' ev sid] show ?thesis by (simp add: hub_bounded_def)
qed

lemma attach_bounded:
  assumes "hub_attach net uid ts n c (h, S) = (h', S')"
  shows "hub_bounded E C h' = hub_bounded E C h"
  using assms
  by (intro hub_bounded_cong) (auto simp: hub_attach_def Let_def split: prod.splits if_splits)

lemma connect_bounded:
  "hub_bounded E C (ss_hub (client_connect net uid ts s)) = hub_bounded E C (ss_hub s)"
  by (auto simp: client_connect_def Let_def attach_bounded split: prod.split)

lemma stream_step_bounded:
  assumes inv: "web_inv E c0 s" and b: "hub_bounded E C (ss_hub s)"
  shows "hub_bounded E C (ss_hub (stream_step E C net redact x s))"
proof -
  have hub: "hub_inv (ss_log s) (ss_hub s)" using inv by (simp add: web_inv_def stream_inv_def hub_side_ok_def)
  have emit: "hub_bounded E C (ss_hub (logged kept (hub_emit E C net uid ts ev d ctx (h, S)) s))"
    if "hub_inv (ss_log s) h" "hub_bounded E C h" for kept uid ts ev d ctx h S
    using hub_bounded_emit [OF that(2,1)]
    by (cases "hub_emit E C net uid ts ev d ctx (h, S)") (auto simp: logged_def)
  have clients: "hub_bounded E C ((ss_hub s)\<lparr>hb_clients := cs\<rparr>)" for cs
    using b by (simp add: hub_bounded_def entries_ok_def)
  show ?thesis
  proof (cases x)
    case (OpEmit uid ts ev durable ctx)
    then show ?thesis using emit hub b by simp
  next
    case (OpEmitRuntime uid ts ev ctx)
    then show ?thesis using emit hub hub_bounded_compact [OF b] by (simp add: emitRuntime_def case_prod_beta)
  next
    case (OpEmitThread uid ts ev sid)
    then show ?thesis using emit hub b by (simp add: emitThread_def)
  next
    case OpHeartbeat
    then show ?thesis using clients by (simp add: heartbeat_def split: prod.split)
  next
    case OpHubClose
    then show ?thesis using clients by (simp add: close_hub_def)
  next
    case (OpOtherAttach uid ts cur)
    then show ?thesis using b by (simp add: attach_bounded split: prod.split)
  next
    case (OpSocketClosed n)
    then show ?thesis using clients by (simp add: hub_detach_def)
  next
    case (OpConnect uid ts)
    then show ?thesis using b by (simp add: first_connect_def connect_bounded)
  next
    case (OpTimer uid ts)
    then show ?thesis using b by (simp add: client_timer_def connect_bounded)
  next
    case (OpOnline uid ts)
    then show ?thesis using b by (simp add: client_online_def Let_def connect_bounded)
  qed (use b in \<open>auto simp: client_offline_def client_opened_def client_receive_def client_error_def
      client_close_def Let_def split: option.split sse_frame.split\<close>)
qed

text \<open>Whatever is emitted and whoever connects, the hub retains at most \<open>maxEvents\<close> events of
  together at most \<open>maxBytes\<close> bytes of encoded text, its byte counter is the sum over the
  retained events, and it remembers the streamed text of at most 128 transcript entries.
\<close>

lemma web_hub_bounded:
  assumes "new_hub me mb = Inr (C, h)" and "0 \<le> c0"
    and "h' = ss_hub (run (stream_step E C net redact) ops (stream_start h c0))"
  shows "length (hb_retained h') \<le> hc_maxEvents C \<and> hb_bytes h' \<le> hc_maxBytes C
    \<and> hb_bytes h' = sum_list (map (\<lambda>r. utf8_bytes (encodeSse E (rt_envelope r))) (hb_retained h'))
    \<and> length (hb_contents h') \<le> 128"
proof -
  let ?s = "run (stream_step E C net redact) ops (stream_start h c0)"
  have "h = \<lparr>hb_retained = [], hb_clients = [], hb_contents = [], hb_nextCursor = 1, hb_bytes = 0,
      hb_discarded = 0, hb_resets = 0\<rparr>"
    using assms(1) by (auto simp: new_hub_def split: sum.splits)
  then have start: "hub_bounded E C (ss_hub (stream_start h c0))"
    by (simp add: hub_bounded_def entries_ok_def stream_start_def)
  have "hub_bounded E C (ss_hub ?s)"
    by (rule web_stream.run_keeps [where Q = "\<lambda>s. hub_bounded E C (ss_hub s)",
          OF new_hub_inv [OF assms(1,2)] start]) (rule stream_step_bounded)
  then have b: "hub_bounded E C h'" by (simp add: assms(3))
  have "web_inv E c0 ?s"
    by (rule web_stream.run_inv) (rule new_hub_inv [OF assms(1,2)])
  then have "hb_bytes h' = sum_list (map rt_bytes (hb_retained h'))"
    by (simp add: web_inv_def stream_inv_def hub_side_ok_def hub_inv_def assms(3))
  moreover have "map rt_bytes (hb_retained h') = map (\<lambda>r. utf8_bytes (encodeSse E (rt_envelope r))) (hb_retained h')"
    using b by (simp add: hub_bounded_def entries_ok_def)
  ultimately have "hb_bytes h' = sum_list (map (\<lambda>r. utf8_bytes (encodeSse E (rt_envelope r))) (hb_retained h'))"
    by simp
  with b show ?thesis unfolding hub_bounded_def entries_ok_def contents_limit_def by blast
qed

lemma web_hub_bounded_witness:
  "\<exists>C h. new_hub (Some 2) (Some 64) = Inr (C, h)
    \<and> length (hb_retained (ss_hub (run (stream_step quiet_env C (\<lambda>n i. WriteAccepted) id)
        [OpEmit [] [] (WbReplayReset JNull) True (None, None), OpEmit [] [] (WbReplayReset JNull) True (None, None),
         OpEmit [] [] (WbReplayReset JNull) True (None, None)] (stream_start h 0)))) \<le> 2"
proof -
  obtain C h where n: "new_hub (Some 2) (Some 64) = Inr (C, h)" and C: "hc_maxEvents C = 2"
    by (auto simp: new_hub_def hub_positive_def is_safe_integer_def)
  from web_hub_bounded [OF n _ refl, of 0 quiet_env "\<lambda>n i. WriteAccepted" id
      "[OpEmit [] [] (WbReplayReset JNull) True (None, None), OpEmit [] [] (WbReplayReset JNull) True (None, None),
         OpEmit [] [] (WbReplayReset JNull) True (None, None)]"] n C
  show ?thesis by (metis order_refl)
qed

end
