(* ===== verification/WebProperties.thy ===== *)
theory WebProperties
  imports WebBounds
begin

section \<open>What the web event stream guarantees\<close>

lemma filter_slice:
  "filter (\<lambda>e. P e \<and> a < we_cursor e \<and> we_cursor e \<le> b) L = slice (filter P L) a b"
  unfolding slice_def by (auto intro: filter_cong)

text \<open>C24: Whatever is emitted, whichever connections break or are refused mid-replay, and whenever
  the browser goes offline or retries: a client that has not been told to reload has received
  exactly the events to be kept that its parser accepts, from its starting cursor to its
  current one, each once and in cursor order.
\<close>

theorem web_replay_complete:
  assumes "new_hub me mb = Inr (C, h)" and "0 \<le> c0"
    and s: "s = run (stream_step E C net redact) ops (stream_start h c0)"
    and live: "\<not> cl_suspended (ss_client s)"
  shows "filter (\<lambda>e. e \<in> set (ss_log s)) (cl_received (ss_client s))
      = filter (\<lambda>e. parseEnvelope E e \<and> c0 < we_cursor e \<and> we_cursor e \<le> cl_cursor (ss_client s))
          (ss_log s)
    \<and> sorted_wrt (\<lambda>x y. we_cursor x < we_cursor y) (cl_received (ss_client s))"
proof -
  have "web_inv E c0 s"
    unfolding s by (rule web_stream.run_inv) (rule new_hub_inv [OF assms(1,2)])
  with live show ?thesis
    by (simp add: web_inv_def stream_inv_def client_side_ok_def in_order_def filter_slice)
qed

subsection \<open>Catching up\<close>

lemma replay_to_accepted:
  assumes "\<And>i. net n i = WriteAccepted" "so_open (S n)"
  shows "fst (replay_to net n c items S) \<and> so_open (snd (replay_to net n c items S) n)"
  using assms(2)
proof (induction items arbitrary: S)
  case (Cons i items)
  let ?S = "S(n := (S n)\<lparr>so_frames := so_frames (S n) @ [EventFrame (rt_envelope i)]\<rparr>)"
  have "so_open (?S n)" using Cons.prems by simp
  with Cons assms(1) show ?case by (simp add: writeClient_def)
qed simp

lemma receive_keeps:
  "ss_hub (client_receive E s) = ss_hub s" "ss_sockets (client_receive E s) = ss_sockets s"
  "ss_log (client_receive E s) = ss_log s" "cl_closed (ss_client (client_receive E s)) = cl_closed (ss_client s)"
  by (auto simp: client_receive_def client_message_def Let_def split: option.split sse_frame.split)

lemma receive_source:
  assumes "cl_source (ss_client s) = Some (n, k)" "k < length (so_frames (ss_sockets s n))"
    "\<not> cl_suspended (ss_client (client_receive E s))"
  shows "cl_source (ss_client (client_receive E s)) = Some (n, Suc k)"
  using assms by (auto simp: client_receive_def client_message_def Let_def split: sse_frame.splits if_splits)

text \<open>Reading to the end of the socket: either a reset was read or everything was.\<close>

lemma receive_all:
  assumes "cl_source (ss_client s) = Some (n, k)" "length (so_frames (ss_sockets s n)) = k + m"
  shows "\<exists>j. let t = run (stream_step E C net redact) (replicate j OpReceive) s in
    cl_suspended (ss_client t)
    \<or> cl_source (ss_client t) = Some (n, k + m) \<and> ss_hub t = ss_hub s \<and> ss_sockets t = ss_sockets s
      \<and> ss_log t = ss_log s"
  using assms
proof (induction m arbitrary: s k)
  case 0
  then show ?case by (intro exI [of _ 0]) simp
next
  case (Suc m)
  let ?t = "client_receive E s"
  show ?case
  proof (cases "cl_suspended (ss_client ?t)")
    case True
    then show ?thesis by (intro exI [of _ 1]) simp
  next
    case False
    have "cl_source (ss_client ?t) = Some (n, Suc k)"
      by (rule receive_source [OF Suc.prems(1) _ False]) (use Suc.prems(2) in simp)
    moreover have "length (so_frames (ss_sockets ?t n)) = Suc k + m"
      using Suc.prems(2) by (simp add: receive_keeps)
    ultimately obtain j where "let t = run (stream_step E C net redact) (replicate j OpReceive) ?t in
      cl_suspended (ss_client t)
      \<or> cl_source (ss_client t) = Some (n, Suc k + m) \<and> ss_hub t = ss_hub ?t \<and> ss_sockets t = ss_sockets ?t
        \<and> ss_log t = ss_log ?t"
      using Suc.IH by blast
    then show ?thesis by (intro exI [of _ "Suc j"]) (simp add: receive_keeps Let_def)
  qed
qed

lemma reset_accepted:
  assumes "isRuntimeId uid" "0 \<le> c" "is_safe_integer c"
  shows "parseEnvelope E (reset_envelope uid ts c)"
proof -
  have types: "js ''replay_reset'' \<in> set envelope_types" by code_simp
  have ne: "js ''replay_reset'' \<notin> set [js ''runtime_event'', js ''thread_event'', js ''workbench_state'',
     js ''settings_invalidated'', js ''session_runtime_changed'', js ''workspace_mutation_changed'',
     js ''workspace_resource_invalidated'', js ''composer_state_changed'']" by code_simp
  have keys: "js ''snapshotRequired'' \<noteq> js ''reason''" by code_simp
  show ?thesis using assms types ne keys
    by (simp add: parseEnvelope_def reset_envelope_def payload_ok_def Let_def is_str_def)
qed

lemma attach_accepted:
  assumes "\<And>i. net n i = WriteAccepted" "so_open (S n)" "so_frames (S n) = []"
    and at: "hub_attach net uid ts n c (h, S) = (h', S')"
  shows "n \<in> set (hb_clients h') \<or> so_frames (S' n) = [EventFrame (reset_envelope uid ts (hb_nextCursor h - 1))]"
proof (cases "c > hb_nextCursor h - 1 \<or> c < hb_discarded h")
  case True
  with at assms(1-3) show ?thesis
    by (auto simp: hub_attach_def writeClient_def Let_def)
next
  case False
  have "fst (replay_to net n c (hb_retained h) S)" 
    using replay_to_accepted [of net n S c "hb_retained h"] assms(1,2) by simp
  with at False show ?thesis
    by (auto simp: hub_attach_def Let_def split: prod.splits if_splits)
qed

text \<open>The state after a connection that is accepted throughout, read to its end.\<close>

lemma connected_catches_up:
  assumes inv: "web_inv E c0 s" and net: "\<And>i. net (ss_next s) i = WriteAccepted"
    and run: "\<not> cl_closed (ss_client s)" "\<not> cl_suspended (ss_client s)" "ss_online s"
    and ids: "isRuntimeId uid" "hb_nextCursor (ss_hub s) \<le> 2 ^ 53"
  shows "\<exists>j. let t = run (stream_step E C net redact) (replicate j OpReceive) (client_connect net uid ts s) in
    cl_suspended (ss_client t)
    \<or> ss_log t = ss_log s
      \<and> filter (\<lambda>e. e \<in> set (ss_log s)) (cl_received (ss_client t))
        = filter (\<lambda>e. parseEnvelope E e \<and> c0 < we_cursor e) (ss_log s)"
proof -
  let ?n = "ss_next s" and ?c = "cl_cursor (ss_client s)" and ?L = "filter (parseEnvelope E) (ss_log s)"
    and ?nx = "hb_nextCursor (ss_hub s)"
  obtain h S where at: "hub_attach net uid ts ?n ?c (ss_hub s, ss_sockets s) = (h, S)"
    by (cases "hub_attach net uid ts ?n ?c (ss_hub s, ss_sockets s)")
  let ?s = "client_connect net uid ts s"
  have s1: "?s = s\<lparr>ss_hub := h, ss_sockets := S, ss_next := Suc ?n,
      ss_client := (ss_client s)\<lparr>cl_source := Some (?n, 0)\<rparr>\<rparr>"
    using run at by (simp add: client_connect_def Let_def)
  have side: "hub_inv (ss_log s) (ss_hub s)" "so_frames (ss_sockets s ?n) = []" "so_open (ss_sockets s ?n)"
    "?n \<notin> set (hb_clients (ss_hub s))"
    using inv by (auto simp: web_inv_def stream_inv_def hub_side_ok_def fresh_open_def)
  have nx: "hb_nextCursor h = ?nx" by (rule hub_attach_spec(2) [OF at side(1,2,4)])
  have inv1: "web_inv E c0 ?s"
    using inv client_connect_inv connect_rest connect_fresh [OF inv] run by (simp add: web_inv_def)
  from attach_accepted [OF net side(3,2) at] show ?thesis
  proof
    assume frames: "so_frames (S ?n) = [EventFrame (reset_envelope uid ts (?nx - 1))]"
    have "0 \<le> ?nx - 1" "is_safe_integer (?nx - 1)"
      using side(1) ids(2) by (auto simp: hub_inv_def is_safe_integer_def)
    from reset_accepted [OF ids(1) this] have "cl_suspended (ss_client (client_receive E ?s))"
      using frames run by (simp add: s1 client_receive_def client_message_def reset_envelope_def)
    then show ?thesis by (intro exI [of _ 1]) simp
  next
    assume reg: "?n \<in> set (hb_clients h)"
    obtain j where j: "let t = run (stream_step E C net redact) (replicate j OpReceive) ?s in
        cl_suspended (ss_client t)
        \<or> cl_source (ss_client t) = Some (?n, 0 + length (so_frames (S ?n))) \<and> ss_hub t = ss_hub ?s
          \<and> ss_sockets t = ss_sockets ?s \<and> ss_log t = ss_log ?s"
      using receive_all [of ?s ?n 0 "length (so_frames (S ?n))" E C net redact] s1 by auto
    define t where "t = run (stream_step E C net redact) (replicate j OpReceive) ?s"
    have jt: "cl_suspended (ss_client t)
        \<or> cl_source (ss_client t) = Some (?n, length (so_frames (S ?n))) \<and> ss_hub t = h
          \<and> ss_sockets t = S \<and> ss_log t = ss_log s"
      using j by (simp add: t_def [symmetric] Let_def) (simp add: s1)
    have invt: "web_inv E c0 t" unfolding t_def by (rule web_stream.run_inv [OF inv1])
    have "filter (\<lambda>e. e \<in> set (ss_log s)) (cl_received (ss_client t))
        = filter (\<lambda>e. parseEnvelope E e \<and> c0 < we_cursor e) (ss_log s)"
      if live: "\<not> cl_suspended (ss_client t)"
    proof -
      let ?ct = "cl_cursor (ss_client t)"
      from jt live have t: "cl_source (ss_client t) = Some (?n, length (so_frames (S ?n)))"
        "ss_hub t = h" "ss_sockets t = S" "ss_log t = ss_log s" by auto
      with invt live have cl: "client_side_ok E c0 (ss_log s) ?nx (ss_client t)"
        and link: "link_ok ?L ?ct h S ?n (length (so_frames (S ?n)))"
        by (auto simp: web_inv_def stream_inv_def nx)
      from link reg have rest: "?ct < ?nx" "slice ?L ?ct (?nx - 1) = []"
        by (auto simp: link_ok_def feed_def nx)
      have c0: "c0 \<le> ?ct" using cl by (auto simp: client_side_ok_def)
      have ord: "in_order ?L" using side(1) by (simp add: hub_inv_def in_order_filter)
      have "slice ?L c0 (?nx - 1) = slice ?L c0 ?ct"
        using slice_split [OF ord c0, of "?nx - 1"] rest by simp
      moreover have "slice ?L c0 (?nx - 1) = filter (\<lambda>e. parseEnvelope E e \<and> c0 < we_cursor e) (ss_log s)"
        using side(1) unfolding slice_def by (auto simp: hub_inv_def intro!: filter_cong)
      ultimately show ?thesis using cl by (simp add: client_side_ok_def)
    qed
    with jt have "cl_suspended (ss_client t) \<or> ss_log t = ss_log s
      \<and> filter (\<lambda>e. e \<in> set (ss_log s)) (cl_received (ss_client t))
        = filter (\<lambda>e. parseEnvelope E e \<and> c0 < we_cursor e) (ss_log s)" by auto
    then show ?thesis unfolding Let_def t_def by (intro exI [of _ j])
  qed
qed

lemma error_then_timer:
  assumes "web_inv E c0 s" "trying s" "\<not> cl_closed (ss_client s)" "\<not> cl_suspended (ss_client s)" "ss_online s"
  shows "\<exists>s1. client_timer net uid ts (client_error s) = client_connect net uid ts s1
    \<and> web_inv E c0 s1 \<and> \<not> cl_closed (ss_client s1) \<and> \<not> cl_suspended (ss_client s1) \<and> ss_online s1
    \<and> ss_log s1 = ss_log s \<and> ss_hub s1 = ss_hub s \<and> ss_next s1 = ss_next s"
proof -
  let ?e = "client_error s"
  let ?s1 = "?e\<lparr>ss_client := (ss_client ?e)\<lparr>cl_timer := None\<rparr>\<rparr>"
  have "cl_timer (ss_client ?e) \<noteq> None" and src: "cl_source (ss_client ?e) = None"
    using assms(2-5) by (auto simp: client_error_def trying_def Let_def split: option.split)
  then obtain d where d: "cl_timer (ss_client ?e) = Some d" by auto
  have same: "cl_closed (ss_client ?e) = cl_closed (ss_client s)"
    "cl_suspended (ss_client ?e) = cl_suspended (ss_client s)" "ss_online ?e = ss_online s"
    "ss_log ?e = ss_log s" "ss_hub ?e = ss_hub s" "ss_next ?e = ss_next s" "ss_sockets ?e = ss_sockets s"
    by (auto simp: client_error_def Let_def split: option.split)
  have "web_inv E c0 ?e" using web_stream.step_inv [OF assms(1), where x = OpError] by simp
  then have "stream_inv E c0 ?e" and fr: "fresh_open ?e" by (simp_all add: web_inv_def)
  then have "stream_inv E c0 ?s1" by (intro client_fields_inv) simp_all
  moreover have "at_rest ?s1" using src by (simp add: at_rest_def)
  moreover have "fresh_open ?s1" using fr by (simp add: fresh_open_def)
  ultimately have "web_inv E c0 ?s1" by (simp add: web_inv_def)
  moreover have "client_timer net uid ts ?e = client_connect net uid ts ?s1"
    using d by (simp add: client_timer_def)
  ultimately show ?thesis using assms(3-5) same by (intro exI [of _ ?s1]) simp
qed

text \<open>C25: A client that has connected once never gives up on its own: from every state that can
  arise while it is open and the browser online, losing its connection (if it still has one)
  and letting the retry timer fire leads, over a connection that accepts what is written, after
  finitely many messages either to the order to reload or to a client that has received every
  kept event its parser accepts past its starting cursor.
\<close>

theorem client_catches_up:
  assumes "new_hub me mb = Inr (C, h)" and "0 \<le> c0"
    and s: "s = run (stream_step E C net redact) (OpConnect uid0 ts0 # ops) (stream_start h c0)"
    and "\<not> cl_closed (ss_client s)" and "\<not> cl_suspended (ss_client s)" and "ss_online s"
    and "\<And>i. net (ss_next s) i = WriteAccepted"
    and "isRuntimeId uid" and "hb_nextCursor (ss_hub s) \<le> 2 ^ 53"
  shows "\<exists>j. let t = run (stream_step E C net redact) ([OpError, OpTimer uid ts] @ replicate j OpReceive) s in
    cl_suspended (ss_client t)
    \<or> filter (\<lambda>e. e \<in> set (ss_log t)) (cl_received (ss_client t))
        = filter (\<lambda>e. parseEnvelope E e \<and> c0 < we_cursor e) (ss_log t)"
proof -
  have inv: "web_inv E c0 s"
    unfolding s by (rule web_stream.run_inv) (rule new_hub_inv [OF assms(1,2)])
  have start: "trying (stream_step E C net redact (OpConnect uid0 ts0) (stream_start h c0))"
    using connect_trying by (simp add: first_connect_def stream_start_def)
  have "trying s"
    unfolding s run_simps
    by (rule web_stream.run_keeps [where Q = trying,
          OF web_stream.step_inv [OF new_hub_inv [OF assms(1,2)]] start])
      (simp add: stream_step_trying web_inv_def)
  from error_then_timer [OF inv this assms(4-6)] obtain s1 where
    eq: "client_timer net uid ts (client_error s) = client_connect net uid ts s1"
    and s1: "web_inv E c0 s1" "\<not> cl_closed (ss_client s1)" "\<not> cl_suspended (ss_client s1)" "ss_online s1"
      "ss_hub s1 = ss_hub s" "ss_next s1 = ss_next s" by blast
  from connected_catches_up [OF s1(1), where net = net and uid = uid and ts = ts and C = C and redact = redact]
  obtain j where "let t = run (stream_step E C net redact) (replicate j OpReceive) (client_connect net uid ts s1) in
    cl_suspended (ss_client t)
    \<or> ss_log t = ss_log s1
      \<and> filter (\<lambda>e. e \<in> set (ss_log s1)) (cl_received (ss_client t))
        = filter (\<lambda>e. parseEnvelope E e \<and> c0 < we_cursor e) (ss_log s1)"
    using s1 assms(7-9) by auto
  then show ?thesis by (intro exI [of _ j]) (auto simp: eq Let_def)
qed

subsection \<open>Witnesses\<close>

definition uid_1 :: jsstr where
  "uid_1 = js ''00000000-0000-4000-8000-000000000001''"

definition stop_event :: web_event where
  "stop_event = WbRuntimeEvent (JObj [(js ''type'', JStr (js ''shutdown_requested''))])"

definition accept_all :: network where
  "accept_all n i = WriteAccepted"

text \<open>Two events, a connection lost after the first and taken up again.\<close>

definition web_ops :: "stream_op list" where
  "web_ops = [OpEmit uid_1 [] stop_event True (None, None), OpReceive, OpError,
     OpEmit uid_1 [] stop_event True (None, None), OpTimer uid_1 [], OpReceive]"

definition example_limits :: hub_config where
  "example_limits = \<lparr>hc_maxEvents = 10, hc_maxBytes = 1000\<rparr>"

definition example_hub :: event_hub where
  "example_hub = \<lparr>hb_retained = [], hb_clients = [], hb_contents = [], hb_nextCursor = 1,
     hb_bytes = 0, hb_discarded = 0, hb_resets = 0\<rparr>"

definition stop_envelope :: "int \<Rightarrow> web_envelope" where
  "stop_envelope c = \<lparr>we_eventId = uid_1, we_cursor = c, we_sessionId = None, we_threadId = None,
     we_durable = True, we_timestamp = [], we_type = js ''runtime_event'',
     we_payload = web_payload stop_event\<rparr>"

lemma stop_envelope_accepted:
  assumes "0 \<le> c" "is_safe_integer c"
  shows "parseEnvelope quiet_env (stop_envelope c)"
proof -
  have "js ''runtime_event'' \<in> set envelope_types" by code_simp
  moreover have "isRuntimeId uid_1" unfolding uid_1_def by code_simp
  moreover have "js ''value'' \<noteq> js ''eventType''" by code_simp
  ultimately show ?thesis using assms
    by (simp add: parseEnvelope_def stop_envelope_def payload_ok_def Let_def stop_event_def is_str_def)
qed

lemma stop_envelope_bytes: "utf8_bytes (encodeSse quiet_env (stop_envelope c)) = 26"
proof -
  have "encodeSse quiet_env (stop_envelope c) = js ''id: '' @ [0x0A] @ js ''event: orion'' @ [0x0A] @ js ''data: '' @ [0x0A, 0x0A]"
    by (simp add: encodeSse_def quiet_env_def)
  also have "utf8_bytes \<dots> = 26" by code_simp
  finally show ?thesis .
qed

lemma emit_stop:
  "hub_emit quiet_env example_limits accept_all uid_1 [] stop_event True (None, None) (h, S)
    = (Inr (stop_envelope (hb_nextCursor h)),
       (let h2 = retain quiet_env example_limits (stop_envelope (hb_nextCursor h))
              (h\<lparr>hb_nextCursor := hb_nextCursor h + 1\<rparr>);
            (cs, S') = broadcast accept_all (EventFrame (stop_envelope (hb_nextCursor h))) (hb_clients h2) S in
        (h2\<lparr>hb_clients := cs\<rparr>, S')))"
  by (simp add: hub_emit_def toEnvelope_def stop_event_def stop_envelope_def Let_def split: prod.split)

lemma retain_stop:
  assumes "length (hb_retained h) < 10" "hb_bytes h \<le> 974"
  shows "retain quiet_env example_limits (stop_envelope c) h
    = h\<lparr>hb_retained := hb_retained h @ [\<lparr>rt_envelope = stop_envelope c,
          rt_encoded = encodeSse quiet_env (stop_envelope c), rt_bytes = 26\<rparr>],
        hb_bytes := hb_bytes h + 26\<rparr>"
  using assms
  by (simp add: retain_def stop_envelope_bytes, subst hub_trim.simps, simp add: example_limits_def)

lemmas web_example_simps = stream_start_def example_hub_def emit_stop retain_stop
  logged_def first_connect_def client_connect_def hub_attach_def writeClient_def
  accept_all_def client_receive_def client_message_def stop_envelope_accepted is_safe_integer_def
  client_error_def client_timer_def

definition web_example :: stream_system where
  "web_example = run (stream_step quiet_env example_limits accept_all id)
     (OpConnect uid_1 [] # web_ops) (stream_start example_hub 0)"

lemma web_example_state:
  "\<not> cl_suspended (ss_client web_example)" "\<not> cl_closed (ss_client web_example)"
  "ss_online web_example" "hb_nextCursor (ss_hub web_example) = 3"
  "cl_received (ss_client web_example) = [stop_envelope 1, stop_envelope 2]"
  "ss_log web_example = [stop_envelope 1, stop_envelope 2]" "cl_cursor (ss_client web_example) = 2"
proof -
  have cur: "we_cursor (stop_envelope c) = c" "we_type (stop_envelope c) \<noteq> js ''replay_reset''" for c
    by (simp_all add: stop_envelope_def) code_simp
  show "\<not> cl_suspended (ss_client web_example)" "\<not> cl_closed (ss_client web_example)"
    "ss_online web_example" "hb_nextCursor (ss_hub web_example) = 3"
    "cl_received (ss_client web_example) = [stop_envelope 1, stop_envelope 2]"
    "ss_log web_example = [stop_envelope 1, stop_envelope 2]" "cl_cursor (ss_client web_example) = 2"
    unfolding web_example_def web_ops_def run_simps stream_step.simps
    by (simp_all add: web_example_simps cur)
qed

lemma new_example_hub: "new_hub (Some 10) (Some 1000) = Inr (example_limits, example_hub)"
  by (simp add: new_hub_def hub_positive_def is_safe_integer_def example_limits_def example_hub_def)

lemma web_replay_complete_witness:
  "filter (\<lambda>e. e \<in> set (ss_log web_example)) (cl_received (ss_client web_example))
      = filter (\<lambda>e. parseEnvelope quiet_env e \<and> 0 < we_cursor e
          \<and> we_cursor e \<le> cl_cursor (ss_client web_example)) (ss_log web_example)
    \<and> cl_received (ss_client web_example) = [stop_envelope 1, stop_envelope 2]"
  using conjunct1 [OF web_replay_complete [OF new_example_hub order_refl web_example_def web_example_state(1)]]
    web_example_state(5) by (rule conjI)

lemma client_catches_up_witness:
  "\<exists>j. let t = run (stream_step quiet_env example_limits accept_all id)
        ([OpError, OpTimer uid_1 []] @ replicate j OpReceive) web_example in
    cl_suspended (ss_client t)
    \<or> filter (\<lambda>e. e \<in> set (ss_log t)) (cl_received (ss_client t))
        = filter (\<lambda>e. parseEnvelope quiet_env e \<and> 0 < we_cursor e) (ss_log t)"
proof (rule client_catches_up [OF new_example_hub order_refl web_example_def])
  show "isRuntimeId uid_1" unfolding uid_1_def by code_simp
qed (simp_all add: web_example_state accept_all_def)

end
