(* ===== verification/WebPrivacy.thy ===== *)
theory WebPrivacy
  imports WebProperties
begin

section \<open>What the browser may see\<close>

lemma plain_keys:
  "\<not> isSensitiveFieldName (js ''eventType'')" "\<not> isSensitiveFieldName (js ''value'')"
  "\<not> isSensitiveFieldName (js ''event'')" "\<not> isSensitiveFieldName (js ''patch'')"
  "\<not> isSensitiveFieldName (js ''contentDelta'')" "\<not> isSensitiveFieldName (js ''contentStart'')"
  "\<not> isSensitiveFieldName (js ''approved'')" "\<not> isSensitiveFieldName (js ''source'')"
  "\<not> isSensitiveFieldName (js ''behavior'')" "\<not> isSensitiveFieldName (js ''reason'')"
  "\<not> isSensitiveFieldName (js ''sequence'')"
  by code_simp+

text \<open>Fields and texts the hub lets through.\<close>

definition field_allowed :: "bool \<Rightarrow> jsstr \<Rightarrow> bool" where
  "field_allowed finished k \<longleftrightarrow> \<not> isSensitiveFieldName k \<or> finished \<and> k = js ''authorization''"

definition text_allowed :: "(jsstr \<Rightarrow> jsstr) \<Rightarrow> jsstr \<Rightarrow> bool" where
  "text_allowed redact s \<longleftrightarrow> (\<exists>t. suffix s (redact t)) \<or> s \<in> set authorization_sources
     \<or> s \<in> set [js ''allow'', js ''ask'', js ''deny'']"

lemma all_fields_weaken:
  "all_fields P Q v \<Longrightarrow> (\<And>k. P k \<Longrightarrow> P' k) \<Longrightarrow> (\<And>s. Q s \<Longrightarrow> Q' s) \<Longrightarrow> all_fields P' Q' v"
proof (induction v)
  case (JObj kvs)
  then show ?case by (fastforce simp: list_all_iff)
qed (auto simp: list_all_iff)

lemma sanitizeValue_allowed:
  "all_fields (field_allowed b) (text_allowed redact) (sanitizeValue redact v)"
  by (rule all_fields_weaken [OF sanitizeValue_clean])
    (auto simp: forwarded_key_def isSecretKey_def field_allowed_def text_allowed_def)

lemma str_in_cases: "str_in v xs \<Longrightarrow> \<exists>s. v = JStr s \<and> s \<in> set xs"
  by (cases v) auto

lemma is_bool_fields [simp]: "is_bool v \<Longrightarrow> all_fields P Q v"
  by (cases v) auto

lemma authorization_allowed:
  assumes "sanitizeToolAuthorization redact a = Some v"
  shows "all_fields (field_allowed b) (text_allowed redact) v"
proof -
  have keys: "field_allowed b (js ''approved'')" "field_allowed b (js ''source'')"
    "field_allowed b (js ''behavior'')" "field_allowed b (js ''reason'')"
    by (simp_all add: field_allowed_def plain_keys)
  have red: "text_allowed redact (redact r)" for r by (auto simp: text_allowed_def)
  have "all_fields (field_allowed b) (text_allowed redact) (get_prop a (js ''source''))"
    if "str_in (get_prop a (js ''source'')) authorization_sources"
    using str_in_cases [OF that] by (auto simp: text_allowed_def)
  moreover have "all_fields (field_allowed b) (text_allowed redact) (get_prop a (js ''behavior''))"
    if "str_in (get_prop a (js ''behavior'')) [js ''allow'', js ''ask'', js ''deny'']"
    using str_in_cases [OF that] by (auto simp: text_allowed_def)
  ultimately show ?thesis
    using assms keys red
    by (auto simp: sanitizeToolAuthorization_def split: if_splits option.splits)
qed

lemma sanitizeRuntimeEvent_allowed:
  "all_fields (field_allowed (type_is ''tool_finished'' event)) (text_allowed redact)
     (sanitizeRuntimeEvent redact event)"
proof -
  let ?b = "type_is ''tool_finished'' event"
  have key: "field_allowed ?b (js ''event'')" by (simp add: field_allowed_def plain_keys)
  have "all_fields (field_allowed ?b) (text_allowed redact)
      (set_prop (js ''event'') (set_prop (js ''authorization'') a
        (get_prop (sanitizeValue redact event) (js ''event''))) (sanitizeValue redact event))"
    if "?b" "sanitizeToolAuthorization redact x = Some a" for a x
  proof -
    have "field_allowed ?b (js ''authorization'')" using that(1) by (simp add: field_allowed_def)
    then show ?thesis
      by (intro all_fields_set_prop all_fields_get_prop sanitizeValue_allowed key
          authorization_allowed [OF that(2)])
  qed
  then show ?thesis
    by (auto simp: sanitizeRuntimeEvent_def Let_def type_is_def sanitizeValue_allowed split: option.split)
qed

lemma all_fields_delete_prop: "all_fields P Q v \<Longrightarrow> all_fields P Q (delete_prop k v)"
  using set_AList_delete by (cases v) (fastforce simp: list_all_iff)+

lemma get_set_prop_other: "k' \<noteq> k \<Longrightarrow> get_prop (set_prop k x v) k' = get_prop v k'"
  by (cases v) (auto simp: update_conv')

lemma compact_allowed:
  assumes "v = sanitizeRuntimeEvent redact event" "b = type_is ''tool_finished'' event"
  shows "all_fields (field_allowed b) (text_allowed redact) (fst (compactRuntimeEvent E v sid h))"
proof -
  let ?patch = "get_prop v (js ''patch'')"
  have v: "all_fields (field_allowed b) (text_allowed redact) v"
    unfolding assms by (rule sanitizeRuntimeEvent_allowed)
  have keys: "field_allowed b (js ''patch'')" "field_allowed b (js ''contentDelta'')"
    "field_allowed b (js ''contentStart'')" by (simp_all add: field_allowed_def plain_keys)
  have patch: "all_fields (field_allowed b) (text_allowed redact) (delete_prop (js ''content'') ?patch)"
    by (intro all_fields_delete_prop all_fields_get_prop v)
  have "text_allowed redact (drop n c)"
    if c: "js_str_of (get_prop ?patch (js ''content'')) = Some c" "type_is ''transcript_update'' v" for n c
  proof -
    have "v = sanitizeValue redact event"
    proof -
      have "js ''tool_finished'' \<noteq> js ''transcript_update''" "js ''type'' \<noteq> js ''event''" by code_simp+
      with c(2) show ?thesis unfolding assms(1)
        by (auto simp: sanitizeRuntimeEvent_def type_is_def Let_def get_set_prop_other
            split: option.splits if_splits)
    qed
    then have "?patch = JUndefined \<or> (\<exists>p. ?patch = sanitizeValue redact p)"
      by (auto simp: get_prop_sanitizeValue)
    then have "get_prop ?patch (js ''content'') = JUndefined \<or> (\<exists>p. get_prop ?patch (js ''content'') = sanitizeValue redact p)"
      by (metis get_prop.simps(2) get_prop_sanitizeValue)
    with c(1) obtain p where "JStr c = sanitizeValue redact p"
      by (cases "get_prop ?patch (js ''content'')") auto
    then obtain t where "c = redact t" by (cases p) auto
    then show ?thesis by (auto simp: text_allowed_def intro: suffix_drop)
  qed
  then show ?thesis
    using v patch keys
    by (auto simp: compactRuntimeEvent_def Let_def jint_def split: bool.split option.split
        intro!: all_fields_set_prop)
qed


definition secret_event :: jsval where
  "secret_event = JObj [(js ''type'', JStr (js ''status_changed'')), (js ''password'', JStr (js ''pw''))]"


end
