(* ===== verification/WebTranscript.thy ===== *)
theory WebTranscript
  imports EventHub
begin

section \<open>Streamed transcript text between the hub and the browser\<close>

text \<open>
  Models the transcript cases of \<open>reduceRuntimeEvent\<close> in \<open>src/web/src/reducer.ts\<close>, on the two
  fields they use: whether the browser asks for a reload (\<open>connection\<close> is
  \<open>replay-required\<close>), and the transcript. The hub sends the new tail of a streamed text instead
  of the whole; the browser appends it when the length of what it has is the one the hub states.
\<close>

record browser_view =
  bv_replay :: bool
  bv_transcript :: "jsval list"

definition max_transcript :: nat where
  "max_transcript = 10000"

text \<open>\<open>slice(-n)\<close> and \<open>appendBounded\<close>.\<close>

definition last_n :: "nat \<Rightarrow> 'a list \<Rightarrow> 'a list" where
  "last_n n xs = drop (length xs - n) xs"

definition web_entry_id :: "js_env \<Rightarrow> int \<Rightarrow> jsstr" where
  "web_entry_id E cursor = js ''web-entry-'' @ string_of E (jint cursor)"

definition as_object :: "jsval \<Rightarrow> jsval" where
  "as_object v = (if is_record v then v else JObj [])"

text \<open>\<open>entry.content ?? ''\<close> of an entry, whose content is a string where it has one.\<close>

definition content_text :: "jsval \<Rightarrow> jsstr" where
  "content_text e = (case js_str_of (get_prop e (js ''content'')) of Some s \<Rightarrow> s | None \<Rightarrow> [])"

definition same_id :: "jsval \<Rightarrow> jsval \<Rightarrow> bool" where
  "same_id event entry \<longleftrightarrow> get_prop entry (js ''id'') = get_prop event (js ''id'')"

definition append_entry :: "js_env \<Rightarrow> jsstr \<Rightarrow> int \<Rightarrow> jsstr \<Rightarrow> jsval \<Rightarrow> jsval" where
  "append_entry E eventId cursor ts entry =
     set_prop (js ''receivedAt'') (JStr ts) (set_prop (js ''order'') (jint cursor)
       (set_prop (js ''eventId'') (JStr eventId)
         (set_prop (js ''id'') (JStr (web_entry_id E cursor)) (as_object entry))))"

text \<open>The place of a restored entry between two cursors is a quotient of doubles: \<open>ord\<close>.\<close>

definition restored_entry ::
  "js_env \<Rightarrow> (int \<Rightarrow> nat \<Rightarrow> nat \<Rightarrow> jsval) \<Rightarrow> jsstr \<Rightarrow> int \<Rightarrow> jsstr \<Rightarrow> nat \<Rightarrow> nat \<Rightarrow> jsval \<Rightarrow> jsval" where
  "restored_entry E ord eventId cursor ts cnt index entry =
     set_prop (js ''live'') (JBool False) (set_prop (js ''receivedAt'') (JStr ts)
       (set_prop (js ''order'') (ord cursor index cnt)
         (set_prop (js ''eventId'') (JStr (eventId @ js '':'' @ string_of E (jint (int index))))
           (as_object entry))))"

definition update_entry :: "jsval \<Rightarrow> jsval \<Rightarrow> jsval" where
  "update_entry event entry =
     (let merged = spread_into entry (get_prop event (js ''patch'')) in
      case js_str_of (get_prop event (js ''contentDelta'')) of
        None \<Rightarrow> merged
      | Some d \<Rightarrow> set_prop (js ''content'') (JStr (content_text entry @ d)) merged)"

definition baseline_changed :: "jsval \<Rightarrow> jsval list \<Rightarrow> bool" where
  "baseline_changed event transcript =
     (case find (same_id event) transcript of
        None \<Rightarrow> True
      | Some target \<Rightarrow> get_prop event (js ''contentStart'') = JUndefined
          \<or> jint (int (length (content_text target))) \<noteq> get_prop event (js ''contentStart''))"

fun array_of :: "jsval \<Rightarrow> jsval list" where
  "array_of (JArr xs) = xs"
| "array_of v = []"

definition reduceRuntimeEvent ::
  "js_env \<Rightarrow> (int \<Rightarrow> nat \<Rightarrow> nat \<Rightarrow> jsval) \<Rightarrow> jsstr \<Rightarrow> int \<Rightarrow> jsstr \<Rightarrow> jsval \<Rightarrow> browser_view \<Rightarrow> browser_view" where
  "reduceRuntimeEvent E ord eventId cursor ts event V = (let T = bv_transcript V in
     if type_is ''transcript_append'' event then
       V\<lparr>bv_transcript := last_n max_transcript
            (T @ [append_entry E eventId cursor ts (get_prop event (js ''entry''))])\<rparr>
     else if type_is ''transcript_update'' event then
       (if get_prop event (js ''contentDelta'') \<noteq> JUndefined \<and> baseline_changed event T
        then V\<lparr>bv_replay := True\<rparr>
        else V\<lparr>bv_transcript :=
          map (\<lambda>entry. if same_id event entry then update_entry event entry else entry) T\<rparr>)
     else if type_is ''transcript_finalize'' event then
       V\<lparr>bv_transcript := map (\<lambda>entry. if same_id event entry
           then set_prop (js ''live'') (JBool False) (spread_into entry (get_prop event (js ''patch'')))
           else entry) T\<rparr>
     else if type_is ''transcript_remove'' event then
       V\<lparr>bv_transcript := filter (\<lambda>entry. \<not> same_id event entry) T\<rparr>
     else if type_is ''transcript_replace'' event then
       (let entries = array_of (get_prop event (js ''entries'')); cnt = max 1 (length entries);
            kept = last_n max_transcript entries in
        V\<lparr>bv_transcript := map (\<lambda>(i, e). restored_entry E ord eventId cursor ts cnt i e)
             (zip [0..<length kept] kept)\<rparr>)
     else if type_is ''transcript_clear'' event then V\<lparr>bv_transcript := []\<rparr>
     else V)"

text \<open>A browser that asks for a reload ignores later events.\<close>

definition reduce_view ::
  "js_env \<Rightarrow> (int \<Rightarrow> nat \<Rightarrow> nat \<Rightarrow> jsval) \<Rightarrow> jsstr \<Rightarrow> int \<Rightarrow> jsstr \<Rightarrow> jsval \<Rightarrow> browser_view \<Rightarrow> browser_view" where
  "reduce_view E ord eventId cursor ts event V =
     (if bv_replay V then V else reduceRuntimeEvent E ord eventId cursor ts event V)"

subsection \<open>The compaction is transparent\<close>

text \<open>
  What the hub remembers of a streamed text is the content of the entries of that identity in
  a view that has followed all updates.
\<close>

definition in_step :: "js_env \<Rightarrow> jsstr option \<Rightarrow> (jsstr \<times> jsstr) list \<Rightarrow> jsval list \<Rightarrow> bool" where
  "in_step E sid m T \<longleftrightarrow> list_all is_record T
     \<and> (\<forall>i c. (transcriptContentKey sid i, c) \<in> set m \<longrightarrow>
          (\<forall>e \<in> set T. get_prop e (js ''id'') = JStr i \<longrightarrow> get_prop e (js ''content'') = JStr c))"

text \<open>
  The events of one conversation: a patch is an object that sets each property once and not the
  identity, and its content is a text; an update, a finalization and a removal name a string
  identity, not that of an entry yet to be appended.
\<close>

fun patch_ok :: "jsval \<Rightarrow> bool" where
  "patch_ok (JObj ps) \<longleftrightarrow> distinct (map fst ps) \<and> js ''id'' \<notin> fst ` set ps
     \<and> (case map_of ps (js ''content'') of None \<Rightarrow> True | Some v \<Rightarrow> js_str_of v \<noteq> None)"
| "patch_ok v \<longleftrightarrow> v = JUndefined"

definition addressed :: "js_env \<Rightarrow> int \<Rightarrow> jsval \<Rightarrow> bool" where
  "addressed E cursor event \<longleftrightarrow>
     (type_is ''transcript_update'' event \<or> type_is ''transcript_finalize'' event
       \<or> type_is ''transcript_remove'' event \<longrightarrow>
       is_record event \<and> patch_ok (get_prop event (js ''patch''))
       \<and> get_prop event (js ''contentDelta'') = JUndefined
       \<and> (\<exists>i. get_prop event (js ''id'') = JStr i \<and> (\<forall>c \<ge> cursor. i \<noteq> web_entry_id E c)))"

lemma contentKey_inject [simp]:
  "transcriptContentKey sid i = transcriptContentKey sid j \<longleftrightarrow> i = j"
  by (simp add: transcriptContentKey_def)

lemma contentKey_prefix [simp]: "starts_with (transcriptContentKey sid i) (transcriptSessionPrefix sid)"
  by (simp add: transcriptContentKey_def starts_with_def)

lemma set_drop_oldest: "set (drop_oldest m) \<subseteq> set m"
proof (induction m rule: drop_oldest.induct)
  case (1 m)
  show ?case
  proof (cases "length m > contents_limit")
    case False
    then show ?thesis by (subst drop_oldest.simps) simp
  next
    case True
    show ?thesis
    proof (cases m)
      case Nil
      then show ?thesis by (subst drop_oldest.simps) simp
    next
      case (Cons kv rest)
      obtain k v where kv: "kv = (k, v)" by (cases kv)
      show ?thesis
      proof (cases "k = []")
        case True
        then show ?thesis using Cons kv by (subst drop_oldest.simps) simp
      next
        case False
        then have "drop_oldest m = drop_oldest rest"
          using \<open>length m > contents_limit\<close> Cons kv by (subst drop_oldest.simps) simp
        moreover have "set (drop_oldest rest) \<subseteq> set rest"
          using 1 [OF \<open>length m > contents_limit\<close> Cons kv [symmetric] False] .
        ultimately show ?thesis using Cons by auto
      qed
    qed
  qed
qed

lemma set_AList_delete_iff: "x \<in> set (AList.delete k m) \<longleftrightarrow> x \<in> set m \<and> fst x \<noteq> k"
  by (induction m) auto

lemma set_remembered:
  "set (hb_contents (rememberTranscriptContent key c h))
     \<subseteq> insert (key, c) {x \<in> set (hb_contents h). fst x \<noteq> key}"
  using set_drop_oldest [of "AList.delete key (hb_contents h) @ [(key, c)]"]
  by (auto simp: rememberTranscriptContent_def set_AList_delete_iff)

subsubsection \<open>Spreads\<close>

lemma keys_update [simp]: "k \<in> fst ` set (AList.update k' v kvs) \<longleftrightarrow> k = k' \<or> k \<in> fst ` set kvs"
  by (metis AList.update_keys fst_conv dom_map_of_conv_image_fst dom_fun_upd insert_iff option.distinct(1) update_conv')

lemma update_update_other:
  "k \<noteq> k' \<Longrightarrow> k \<in> fst ` set kvs \<Longrightarrow>
     AList.update k v (AList.update k' v' kvs) = AList.update k' v' (AList.update k v kvs)"
  by (induction kvs) auto

text \<open>A property already present may be set after the spread instead of by it.\<close>

lemma update_fold_other:
  assumes "k \<notin> fst ` set ps" "k \<in> fst ` set kvs"
  shows "AList.update k v (fold (\<lambda>(k, v). AList.update k v) ps kvs)
    = fold (\<lambda>(k, v). AList.update k v) ps (AList.update k v kvs)"
  using assms
proof (induction ps arbitrary: kvs)
  case Nil
  then show ?case by simp
next
  case (Cons p ps)
  obtain a b where p: "p = (a, b)" by (cases p)
  with Cons.prems have "k \<noteq> a" by auto
  with Cons p show ?case by (simp add: update_update_other)
qed

lemma spread_without:
  assumes "distinct (map fst ps)" "map_of ps k = Some v" "k \<in> fst ` set kvs"
  shows "fold (\<lambda>(k, v). AList.update k v) ps kvs
    = AList.update k v (fold (\<lambda>(k, v). AList.update k v) (AList.delete k ps) kvs)"
  using assms
proof (induction ps arbitrary: kvs)
  case Nil
  then show ?case by simp
next
  case (Cons p ps)
  obtain a b where p: "p = (a, b)" by (cases p)
  show ?case
  proof (cases "a = k")
    case True
    with Cons.prems p have bv: "b = v" and k: "k \<notin> fst ` set ps" by auto
    have "AList.delete k ps = ps" using k by (force simp: AList.delete_eq filter_id_conv)
    then show ?thesis using True p bv update_fold_other [OF k Cons.prems(3)] by simp
  next
    case False
    with Cons p show ?thesis by simp
  qed
qed

lemma map_of_spread:
  assumes "distinct (map fst ps)"
  shows "map_of (fold (\<lambda>(k, v). AList.update k v) ps kvs) k
    = (case map_of ps k of Some v \<Rightarrow> Some v | None \<Rightarrow> map_of kvs k)"
  using assms
proof (induction ps arbitrary: kvs)
  case Nil
  then show ?case by simp
next
  case (Cons p ps)
  obtain a b where p: "p = (a, b)" by (cases p)
  from Cons.prems p have "map_of ps a = None" by (auto simp: map_of_eq_None_iff)
  with Cons p show ?case by (auto simp: update_conv' split: option.split)
qed

subsubsection \<open>One event\<close>

lemma transcript_types:
  "distinct [js ''transcript_append'', js ''transcript_update'', js ''transcript_finalize'',
     js ''transcript_remove'', js ''transcript_replace'', js ''transcript_clear'']"
  by code_simp

lemma type_is_excl:
  "type_is ''transcript_append'' v \<Longrightarrow> \<not> type_is ''transcript_update'' v"
  "type_is ''transcript_update'' v \<Longrightarrow> \<not> type_is ''transcript_finalize'' v"
  "type_is ''transcript_update'' v \<Longrightarrow> \<not> type_is ''transcript_remove'' v"
  "type_is ''transcript_update'' v \<Longrightarrow> \<not> type_is ''transcript_clear'' v"
  "type_is ''transcript_update'' v \<Longrightarrow> \<not> type_is ''transcript_replace'' v"
  "type_is ''transcript_append'' v \<Longrightarrow> \<not> type_is ''transcript_finalize'' v"
  "type_is ''transcript_append'' v \<Longrightarrow> \<not> type_is ''transcript_remove'' v"
  "type_is ''transcript_append'' v \<Longrightarrow> \<not> type_is ''transcript_clear'' v"
  "type_is ''transcript_append'' v \<Longrightarrow> \<not> type_is ''transcript_replace'' v"
  "type_is ''transcript_finalize'' v \<Longrightarrow> \<not> type_is ''transcript_update'' v"
  "type_is ''transcript_finalize'' v \<Longrightarrow> \<not> type_is ''transcript_append'' v"
  "type_is ''transcript_remove'' v \<Longrightarrow> \<not> type_is ''transcript_finalize'' v"
  "type_is ''transcript_remove'' v \<Longrightarrow> \<not> type_is ''transcript_update'' v"
  "type_is ''transcript_remove'' v \<Longrightarrow> \<not> type_is ''transcript_append'' v"
  "type_is ''transcript_replace'' v \<Longrightarrow> \<not> type_is ''transcript_finalize'' v"
  "type_is ''transcript_replace'' v \<Longrightarrow> \<not> type_is ''transcript_remove'' v"
  "type_is ''transcript_replace'' v \<Longrightarrow> \<not> type_is ''transcript_update'' v"
  "type_is ''transcript_replace'' v \<Longrightarrow> \<not> type_is ''transcript_append'' v"
  "type_is ''transcript_clear'' v \<Longrightarrow> \<not> type_is ''transcript_finalize'' v"
  "type_is ''transcript_clear'' v \<Longrightarrow> \<not> type_is ''transcript_remove'' v"
  "type_is ''transcript_clear'' v \<Longrightarrow> \<not> type_is ''transcript_update'' v"
  "type_is ''transcript_clear'' v \<Longrightarrow> \<not> type_is ''transcript_append'' v"
  using transcript_types by (auto simp: type_is_def)

text \<open>Identities the hub remembers are not those of entries yet to be appended.\<close>

definition known_ids :: "js_env \<Rightarrow> int \<Rightarrow> jsstr option \<Rightarrow> (jsstr \<times> jsstr) list \<Rightarrow> bool" where
  "known_ids E cursor sid m \<longleftrightarrow>
     (\<forall>i c. (transcriptContentKey sid i, c) \<in> set m \<longrightarrow> (\<forall>k \<ge> cursor. i \<noteq> web_entry_id E k))"

lemma in_step_subset:
  "in_step E sid m T \<Longrightarrow> set m' \<subseteq> set m \<Longrightarrow> set T' \<subseteq> set T \<Longrightarrow> in_step E sid m' T'"
  unfolding in_step_def list_all_iff by blast

lemma known_ids_subset:
  assumes "known_ids E k sid m" "set m' \<subseteq> set m" "k \<le> k'"
  shows "known_ids E k' sid m'"
  unfolding known_ids_def
proof (intro allI impI)
  fix i c ka
  assume "(transcriptContentKey sid i, c) \<in> set m'" "k' \<le> ka"
  with assms(2,3) have "(transcriptContentKey sid i, c) \<in> set m" "k \<le> ka" by auto
  with assms(1) show "i \<noteq> web_entry_id E ka" unfolding known_ids_def by blast
qed

lemma key_neqs:
  "js ''id'' \<noteq> js ''patch''" "js ''id'' \<noteq> js ''contentDelta''" "js ''id'' \<noteq> js ''contentStart''"
  "js ''type'' \<noteq> js ''patch''" "js ''type'' \<noteq> js ''contentDelta''" "js ''type'' \<noteq> js ''contentStart''"
  "js ''patch'' \<noteq> js ''contentDelta''" "js ''patch'' \<noteq> js ''contentStart''"
  "js ''contentDelta'' \<noteq> js ''contentStart''" "js ''id'' \<noteq> js ''content''"
  "js ''id'' \<noteq> js ''live''" "js ''content'' \<noteq> js ''live''"
  "js ''id'' \<noteq> js ''eventId''" "js ''id'' \<noteq> js ''order''" "js ''id'' \<noteq> js ''receivedAt''"
  by code_simp+

lemmas key_neq = key_neqs key_neqs [symmetric]

text \<open>A spread of a patch on an entry: identity and content afterwards.\<close>

lemma spread_entry:
  assumes "is_record e" "patch_ok p"
  shows "get_prop (spread_into e p) (js ''id'') = get_prop e (js ''id'')"
    and "get_prop (spread_into e p) (js ''content'')
      = (if get_prop p (js ''content'') = JUndefined then get_prop e (js ''content'')
         else get_prop p (js ''content''))"
proof -
  from assms(1) obtain kvs where e: "e = JObj kvs" by (auto simp: is_record_ex)
  have "get_prop (spread_into e p) (js ''id'') = get_prop e (js ''id'')
    \<and> get_prop (spread_into e p) (js ''content'')
      = (if get_prop p (js ''content'') = JUndefined then get_prop e (js ''content'')
         else get_prop p (js ''content''))"
  proof (cases p)
    case (JObj ps)
    with assms(2) have "map_of ps (js ''id'') = None" by (simp add: map_of_eq_None_iff)
    with JObj e assms(2) show ?thesis
      by (auto simp: map_of_spread simp del: map_of_eq_Some_iff Some_eq_map_of_iff split: option.splits)
  qed (use assms(2) e in auto)
  then show "get_prop (spread_into e p) (js ''id'') = get_prop e (js ''id'')"
    and "get_prop (spread_into e p) (js ''content'')
      = (if get_prop p (js ''content'') = JUndefined then get_prop e (js ''content'')
         else get_prop p (js ''content''))" by auto
qed

lemma delta_restores:
  assumes "is_record e" "patch_ok p" "get_prop p (js ''content'') = JStr c"
    and "get_prop e (js ''content'') = JStr d"
  shows "set_prop (js ''content'') (JStr c) (spread_into e (delete_prop (js ''content'') p)) = spread_into e p"
proof -
  from assms(1) obtain kvs where e: "e = JObj kvs" by (auto simp: is_record_ex)
  from assms(3) obtain ps where p: "p = JObj ps" by (cases p) auto
  have "map_of ps (js ''content'') = Some (JStr c)" using assms(3) p by (auto split: option.splits)
  moreover have "js ''content'' \<in> fst ` set kvs"
    using assms(4) e by (auto split: option.splits dest!: map_of_SomeD intro: rev_image_eqI)
  ultimately show ?thesis using spread_without [of ps "js ''content''" "JStr c" kvs] assms(2) e p by simp
qed

lemma update_in_step:
  assumes st: "in_step E sid m T" and upd: "is_record v" "patch_ok (get_prop v (js ''patch''))"
    "get_prop v (js ''contentDelta'') = JUndefined" "get_prop v (js ''id'') = JStr i"
    and m': "get_prop (get_prop v (js ''patch'')) (js ''content'') = JUndefined \<and> set m' \<subseteq> set m
      \<or> (\<exists>c. get_prop (get_prop v (js ''patch'')) (js ''content'') = JStr c
          \<and> set m' \<subseteq> insert (transcriptContentKey sid i, c)
                {x \<in> set m. fst x \<noteq> transcriptContentKey sid i})"
  shows "in_step E sid m' (map (\<lambda>e. if same_id v e then update_entry v e else e) T)"
proof -
  let ?p = "get_prop v (js ''patch'')" and ?f = "\<lambda>e. if same_id v e then update_entry v e else e"
  have rec: "is_record e" if "e \<in> set T" for e using st that by (auto simp: in_step_def list_all_iff)
  have f: "update_entry v e = spread_into e ?p" for e using upd(3) by (simp add: update_entry_def Let_def)
  have "get_prop (?f e) (js ''content'') = JStr c"
    if e: "e \<in> set T" and key: "(transcriptContentKey sid j, c) \<in> set m'" and j: "get_prop (?f e) (js ''id'') = JStr j"
    for e j c
  proof -
    note S = spread_entry [OF rec [OF e] upd(2)]
    have idj: "get_prop e (js ''id'') = JStr j" using j S(1) f by (auto split: if_splits)
    have old: "get_prop e (js ''content'') = JStr c" if "(transcriptContentKey sid j, c) \<in> set m"
      using st that e idj by (auto simp: in_step_def)
    show ?thesis
    proof (cases "same_id v e")
      case False
      then have "j \<noteq> i" using idj upd(4) by (simp add: same_id_def)
      then have "(transcriptContentKey sid j, c) \<in> set m" using key m' by auto
      with False old show ?thesis by simp
    next
      case True
      then have "j = i" using idj upd(4) by (simp add: same_id_def)
      from m' show ?thesis
      proof
        assume a: "get_prop ?p (js ''content'') = JUndefined \<and> set m' \<subseteq> set m"
        with key old S(2) True f show ?thesis by auto
      next
        assume "\<exists>c. get_prop ?p (js ''content'') = JStr c
          \<and> set m' \<subseteq> insert (transcriptContentKey sid i, c)
                {x \<in> set m. fst x \<noteq> transcriptContentKey sid i}"
        with key \<open>j = i\<close> S(2) True f show ?thesis by auto
      qed
    qed
  qed
  moreover have "list_all is_record (map ?f T)"
    using rec by (auto simp: list_all_iff f)
  ultimately show ?thesis
    unfolding in_step_def set_map by (intro conjI allI impI ballI) (assumption, blast)
qed

lemma patch_content:
  assumes "patch_ok p"
  shows "get_prop p (js ''content'') = JUndefined \<and> js_str_of (get_prop p (js ''content'')) = None
    \<or> (\<exists>c. get_prop p (js ''content'') = JStr c)"
proof (cases p)
  case (JObj ps)
  with assms show ?thesis
    by (cases "map_of ps (js ''content'')"; simp; cases "the (map_of ps (js ''content''))"; simp)
qed (use assms in auto)

text \<open>
  The event the hub sends leads the browser to the same view as the event itself, or makes it
  ask for a reload.
\<close>

lemma update_step:
  assumes st: "in_step E sid (hb_contents h) (bv_transcript V)" and live: "\<not> bv_replay V"
    and ty: "type_is ''transcript_update'' v" and ad: "addressed E cursor v"
    and co: "compactRuntimeEvent E v sid h = (v', h')"
    and R: "reduceRuntimeEvent E ord eid cursor ts v' V = V'"
  shows "bv_replay V' \<or> V' = reduceRuntimeEvent E ord eid cursor ts v V \<and> \<not> bv_replay V'
      \<and> in_step E sid (hb_contents h') (bv_transcript V')"
proof -
  let ?p = "get_prop v (js ''patch'')" and ?T = "bv_transcript V" and ?m = "hb_contents h"
  from ad ty obtain i where upd: "is_record v" "patch_ok ?p" "get_prop v (js ''contentDelta'') = JUndefined"
    "get_prop v (js ''id'') = JStr i" by (auto simp: addressed_def)
  let ?key = "transcriptContentKey sid i"
  have key: "transcriptContentKey sid (ident_text E (get_prop v (js ''id''))) = ?key"
    using upd(4) by (simp add: ident_text_def)
  have plain: "reduceRuntimeEvent E ord eid cursor ts v V
      = V\<lparr>bv_transcript := map (\<lambda>e. if same_id v e then update_entry v e else e) ?T\<rparr>"
    using ty upd(3) type_is_excl(1) by (auto simp: reduceRuntimeEvent_def Let_def)
  from patch_content [OF upd(2)] show ?thesis
  proof
    assume none: "get_prop ?p (js ''content'') = JUndefined \<and> js_str_of (get_prop ?p (js ''content'')) = None"
    then have "v' = v" "h' = h" using co ty type_is_excl(2-5) by (auto simp: compactRuntimeEvent_def Let_def)
    moreover have "in_step E sid ?m (map (\<lambda>e. if same_id v e then update_entry v e else e) ?T)"
      by (rule update_in_step [OF st upd]) (use none in simp)
    ultimately show ?thesis using R plain live by auto
  next
    assume "\<exists>c. get_prop ?p (js ''content'') = JStr c"
    then obtain c where c: "get_prop ?p (js ''content'') = JStr c" by blast
    have h': "h' = rememberTranscriptContent ?key c h"
      using co ty c key by (auto simp: compactRuntimeEvent_def Let_def split: option.splits if_splits)
    have nxt: "in_step E sid (hb_contents h') (map (\<lambda>e. if same_id v e then update_entry v e else e) ?T)"
      unfolding h' by (rule update_in_step [OF st upd]) (use c set_remembered in blast)
    show ?thesis
    proof (cases "\<exists>d. map_of ?m ?key = Some d \<and> starts_with c d")
      case False
      then have "v' = v" using co ty c key by (auto simp: compactRuntimeEvent_def Let_def split: option.splits if_splits)
      with R plain live nxt show ?thesis by auto
    next
      case True
      then obtain d where d: "map_of ?m ?key = Some d" "starts_with c d" by blast
      have v': "v' = set_prop (js ''contentStart'') (jint (int (length d)))
                       (set_prop (js ''contentDelta'') (JStr (drop (length d) c))
                         (set_prop (js ''patch'') (delete_prop (js ''content'') ?p) v))"
        using co ty c d key by (auto simp: compactRuntimeEvent_def Let_def)
      have P: "get_prop v' (js ''type'') = get_prop v (js ''type'')" "get_prop v' (js ''id'') = JStr i"
        "get_prop v' (js ''contentDelta'') = JStr (drop (length d) c)"
        "get_prop v' (js ''patch'') = delete_prop (js ''content'') ?p"
        unfolding v' using upd(1,4) key_neq by simp_all
      then have same: "same_id v' = same_id v" using upd(4) by (simp add: same_id_def fun_eq_iff)
      have ty': "type_is ''transcript_update'' v'" using ty P(1) by (simp add: type_is_def)
      have upd_eq: "update_entry v' e = update_entry v e" if e: "e \<in> set ?T" "same_id v e" for e
      proof -
        have rec: "is_record e" and ce: "get_prop e (js ''content'') = JStr d"
          using st e d(1) upd(4) map_of_SomeD [OF d(1)] by (auto simp: in_step_def list_all_iff same_id_def)
        have "c = d @ drop (length d) c" using d(2) by (metis append_take_drop_id starts_with_def)
        then show ?thesis
          using delta_restores [OF rec upd(2) c ce] ce P(3,4) upd(3)
          by (simp add: update_entry_def Let_def content_text_def)
      qed
      have "V' = (if baseline_changed v' ?T then V\<lparr>bv_replay := True\<rparr>
          else V\<lparr>bv_transcript := map (\<lambda>e. if same_id v e then update_entry v' e else e) ?T\<rparr>)"
        using R ty' type_is_excl(1) [of v'] P(3) same by (auto simp: reduceRuntimeEvent_def Let_def)
      also have "map (\<lambda>e. if same_id v e then update_entry v' e else e) ?T
          = map (\<lambda>e. if same_id v e then update_entry v e else e) ?T"
        using upd_eq by (intro map_cong) auto
      finally show ?thesis using plain live nxt by (cases "baseline_changed v' ?T") simp_all
    qed
  qed
qed

lemma as_object_record [simp]: "is_record (as_object v)"
  by (simp add: as_object_def)

lemma other_step:
  assumes st: "in_step E sid (hb_contents h) (bv_transcript V)" and kn: "known_ids E cursor sid (hb_contents h)"
    and live: "\<not> bv_replay V" and ty: "\<not> type_is ''transcript_update'' v" and ad: "addressed E cursor v"
    and co: "compactRuntimeEvent E v sid h = (v', h')"
  shows "v' = v \<and> set (hb_contents h') \<subseteq> set (hb_contents h)
      \<and> \<not> bv_replay (reduceRuntimeEvent E ord eid cursor ts v V)
      \<and> in_step E sid (hb_contents h') (bv_transcript (reduceRuntimeEvent E ord eid cursor ts v V))"
proof -
  let ?T = "bv_transcript V" and ?R = "reduceRuntimeEvent E ord eid cursor ts v V"
  have v': "v' = v" using co ty by (auto simp: compactRuntimeEvent_def Let_def)
  have rec: "list_all is_record ?T" using st by (simp add: in_step_def)
  have sub: "set (hb_contents h') \<subseteq> set (hb_contents h)"
    using co ty by (auto simp: compactRuntimeEvent_def Let_def set_AList_delete_iff split: if_splits)
  have live': "\<not> bv_replay ?R" using live ty by (auto simp: reduceRuntimeEvent_def Let_def)
  have st': "in_step E sid (hb_contents h') ?T" by (rule in_step_subset [OF st sub]) simp
  have gone: "in_step E sid (hb_contents h') T"
    if "list_all is_record T" "\<And>i c. (transcriptContentKey sid i, c) \<notin> set (hb_contents h')" for T
    using that by (simp add: in_step_def)
  consider (app) "type_is ''transcript_append'' v" | (fin) "type_is ''transcript_finalize'' v"
    | (rem) "type_is ''transcript_remove'' v" | (rep) "type_is ''transcript_replace'' v"
    | (clr) "type_is ''transcript_clear'' v"
    | (none) "\<not> type_is ''transcript_append'' v" "\<not> type_is ''transcript_finalize'' v"
        "\<not> type_is ''transcript_remove'' v" "\<not> type_is ''transcript_replace'' v" "\<not> type_is ''transcript_clear'' v"
    by blast
  then have "in_step E sid (hb_contents h') (bv_transcript ?R)"
  proof cases
    case app
    let ?new = "append_entry E eid cursor ts (get_prop v (js ''entry''))"
    have new: "is_record ?new" "get_prop ?new (js ''id'') = JStr (web_entry_id E cursor)"
      using key_neq by (simp_all add: append_entry_def)
    have "in_step E sid (hb_contents h') (?T @ [?new])"
      unfolding in_step_def
    proof (intro conjI allI impI ballI)
      fix i c e
      assume key: "(transcriptContentKey sid i, c) \<in> set (hb_contents h')" and e: "e \<in> set (?T @ [?new])"
        and i: "get_prop e (js ''id'') = JStr i"
      have "i \<noteq> web_entry_id E cursor" using kn key sub unfolding known_ids_def by blast
      with e i new(2) have "e \<in> set ?T" by auto
      with st' key i show "get_prop e (js ''content'') = JStr c" unfolding in_step_def by blast
    qed (use rec new in simp)
    moreover have "set (last_n max_transcript (?T @ [?new])) \<subseteq> set (?T @ [?new])"
      unfolding last_n_def by (rule set_drop_subset)
    ultimately have "in_step E sid (hb_contents h') (last_n max_transcript (?T @ [?new]))"
      by (rule in_step_subset [OF _ subset_refl])
    then show ?thesis using app by (simp add: reduceRuntimeEvent_def Let_def)
  next
    case fin
    with ad obtain i where i: "get_prop v (js ''id'') = JStr i" "patch_ok (get_prop v (js ''patch''))"
      by (auto simp: addressed_def)
    have h': "hb_contents h' = AList.delete (transcriptContentKey sid i) (hb_contents h)"
      using co ty fin i by (auto simp: compactRuntimeEvent_def Let_def ident_text_def)
    let ?f = "\<lambda>e. if same_id v e
        then set_prop (js ''live'') (JBool False) (spread_into e (get_prop v (js ''patch''))) else e"
    have "in_step E sid (hb_contents h') (map ?f ?T)"
      unfolding in_step_def
    proof (intro conjI allI impI ballI)
      fix j c e'
      assume key: "(transcriptContentKey sid j, c) \<in> set (hb_contents h')" and e': "e' \<in> set (map ?f ?T)"
        and j: "get_prop e' (js ''id'') = JStr j"
      from e' obtain e where e: "e \<in> set ?T" "e' = ?f e" by auto
      have re: "is_record e" using rec e(1) by (auto simp: list_all_iff)
      have "j \<noteq> i" using key h' by (auto simp: set_AList_delete_iff)
      moreover have "get_prop (?f e) (js ''id'') = get_prop e (js ''id'')"
        using re spread_entry(1) [OF re i(2)] key_neq by simp
      ultimately have "\<not> same_id v e" using j e(2) i(1) by (auto simp: same_id_def)
      with e st' key j show "get_prop e' (js ''content'') = JStr c" unfolding in_step_def by auto
    qed (use rec in \<open>auto simp: list_all_iff\<close>)
    then show ?thesis using fin type_is_excl(10,11) by (auto simp: reduceRuntimeEvent_def Let_def)
  next
    case rem
    have "in_step E sid (hb_contents h') (filter (\<lambda>e. \<not> same_id v e) ?T)"
      by (rule in_step_subset [OF st']) auto
    then show ?thesis using rem type_is_excl(12-14) by (auto simp: reduceRuntimeEvent_def Let_def)
  next
    case rep
    have m: "hb_contents h' = filter (\<lambda>(k, v). \<not> starts_with k (transcriptSessionPrefix sid)) (hb_contents h)"
      using co ty rep type_is_excl(15-18) by (auto simp: compactRuntimeEvent_def Let_def)
    have "list_all is_record (map (\<lambda>(i, e). restored_entry E ord eid cursor ts cnt i e) xs)" for cnt xs
      by (auto simp: list_all_iff restored_entry_def)
    then show ?thesis using rep type_is_excl(15-18)
      by (intro gone) (auto simp: m reduceRuntimeEvent_def Let_def)
  next
    case clr
    have m: "hb_contents h' = filter (\<lambda>(k, v). \<not> starts_with k (transcriptSessionPrefix sid)) (hb_contents h)"
      using co ty clr type_is_excl(19-22) by (auto simp: compactRuntimeEvent_def Let_def)
    have "bv_transcript ?R = [] \<or> bv_transcript ?R = bv_transcript ?R \<and> list_all is_record (bv_transcript ?R)"
      using clr type_is_excl(19-22) by (auto simp: reduceRuntimeEvent_def Let_def list_all_iff restored_entry_def)
    then show ?thesis by (intro gone) (auto simp: m)
  next
    case none
    with ty st' show ?thesis by (simp add: reduceRuntimeEvent_def Let_def)
  qed
  with v' sub live' show ?thesis by blast
qed

subsubsection \<open>A conversation\<close>

text \<open>
  The hub compacts the events of a session one after the other, the first with cursor \<open>k\<close>; the
  browser reduces what arrives. \<open>plain_view\<close> is the browser given the events themselves.
\<close>

fun streamed_view ::
  "js_env \<Rightarrow> (int \<Rightarrow> nat \<Rightarrow> nat \<Rightarrow> jsval) \<Rightarrow> jsstr option \<Rightarrow> int \<Rightarrow> (jsstr \<times> jsstr \<times> jsval) list
     \<Rightarrow> event_hub \<Rightarrow> browser_view \<Rightarrow> browser_view" where
  "streamed_view E ord sid k [] h V = V"
| "streamed_view E ord sid k ((eid, ts, v) # vs) h V =
     (let (v', h') = compactRuntimeEvent E v sid h in
      streamed_view E ord sid (k + 1) vs h' (reduce_view E ord eid k ts v' V))"

fun plain_view ::
  "js_env \<Rightarrow> (int \<Rightarrow> nat \<Rightarrow> nat \<Rightarrow> jsval) \<Rightarrow> int \<Rightarrow> (jsstr \<times> jsstr \<times> jsval) list
     \<Rightarrow> browser_view \<Rightarrow> browser_view" where
  "plain_view E ord k [] V = V"
| "plain_view E ord k ((eid, ts, v) # vs) V =
     plain_view E ord (k + 1) vs (reduce_view E ord eid k ts v V)"

fun all_addressed :: "js_env \<Rightarrow> int \<Rightarrow> (jsstr \<times> jsstr \<times> jsval) list \<Rightarrow> bool" where
  "all_addressed E k [] \<longleftrightarrow> True"
| "all_addressed E k ((eid, ts, v) # vs) \<longleftrightarrow> addressed E k v \<and> all_addressed E (k + 1) vs"

lemma replay_stays: "bv_replay V \<Longrightarrow> streamed_view E ord sid k vs h V = V"
  by (induction vs arbitrary: k h) (auto simp: reduce_view_def split: prod.split)

lemma streamed_view_step:
  assumes "in_step E sid (hb_contents h) (bv_transcript V)" "known_ids E k sid (hb_contents h)"
    "\<not> bv_replay V" "all_addressed E k vs"
  shows "bv_replay (streamed_view E ord sid k vs h V)
    \<or> streamed_view E ord sid k vs h V = plain_view E ord k vs V"
  using assms
proof (induction vs arbitrary: k h V)
  case Nil
  then show ?case by simp
next
  case (Cons x vs)
  obtain eid ts v where x: "x = (eid, ts, v)" by (cases x)
  obtain v' h' where co: "compactRuntimeEvent E v sid h = (v', h')" by (cases "compactRuntimeEvent E v sid h")
  let ?V' = "reduceRuntimeEvent E ord eid k ts v' V" and ?W = "reduceRuntimeEvent E ord eid k ts v V"
  from Cons.prems(4) x have ad: "addressed E k v" and rest: "all_addressed E (k + 1) vs" by auto
  have step: "bv_replay ?V' \<or> ?V' = ?W \<and> \<not> bv_replay ?V' \<and> in_step E sid (hb_contents h') (bv_transcript ?V')"
  proof (cases "type_is ''transcript_update'' v")
    case True
    from update_step [OF Cons.prems(1,3) True ad co refl] show ?thesis by blast
  next
    case False
    from other_step [OF Cons.prems(1,2,3) False ad co] show ?thesis by simp
  qed
  have kn: "known_ids E (k + 1) sid (hb_contents h')"
  proof (cases "type_is ''transcript_update'' v")
    case False
    with other_step [OF Cons.prems(1,2,3) False ad co] Cons.prems(2) show ?thesis
      by (intro known_ids_subset [OF Cons.prems(2)]) auto
  next
    case True
    with ad obtain i where i: "get_prop v (js ''id'') = JStr i" "\<forall>c \<ge> k. i \<noteq> web_entry_id E c"
      by (auto simp: addressed_def)
    have "\<exists>c. set (hb_contents h') \<subseteq> insert (transcriptContentKey sid i, c) (set (hb_contents h))"
      using co True i(1) type_is_excl(2-5) [OF True] set_remembered
      by (auto simp: compactRuntimeEvent_def Let_def ident_text_def split: option.splits if_splits) blast+
    then obtain c where sub: "set (hb_contents h') \<subseteq> insert (transcriptContentKey sid i, c) (set (hb_contents h))"
      by blast
    show ?thesis
      unfolding known_ids_def
    proof (intro allI impI)
      fix j d ka
      assume key: "(transcriptContentKey sid j, d) \<in> set (hb_contents h')" and ka: "k + 1 \<le> ka"
      from key sub have "j = i \<or> (transcriptContentKey sid j, d) \<in> set (hb_contents h)" by auto
      then show "j \<noteq> web_entry_id E ka"
        using i(2) Cons.prems(2) ka unfolding known_ids_def by (metis add_increasing2 order_trans zle_add1_eq_le zless_add1_eq order_less_imp_le)
    qed
  qed
  from step show ?case
  proof
    assume "bv_replay ?V'"
    then show ?thesis using x co Cons.prems(3) by (simp add: reduce_view_def replay_stays)
  next
    assume ok: "?V' = ?W \<and> \<not> bv_replay ?V' \<and> in_step E sid (hb_contents h') (bv_transcript ?V')"
    then have eq: "?V' = ?W" and l: "\<not> bv_replay ?V'" and i: "in_step E sid (hb_contents h') (bv_transcript ?V')"
      by blast+
    from Cons.IH [OF i kn l rest] show ?thesis
      unfolding eq using x co Cons.prems(3) eq by (simp add: reduce_view_def)
  qed
qed

text \<open>C27: Sending only the new tail of a streamed text loses nothing: a browser that gets every
  event of a session from an empty hub memory on ends with exactly the transcript the full
  events give, or asks for a reload.
\<close>

theorem compaction_transparent:
  assumes "hb_contents h = []" and "list_all is_record (bv_transcript V)" and "\<not> bv_replay V"
    and "all_addressed E k vs"
  shows "bv_replay (streamed_view E ord sid k vs h V)
    \<or> streamed_view E ord sid k vs h V = plain_view E ord k vs V"
  by (rule streamed_view_step) (use assms in \<open>simp_all add: in_step_def known_ids_def\<close>)

lemma drop_oldest_drop: "\<exists>n. drop_oldest m = drop n m \<and> (m \<noteq> [] \<longrightarrow> n < length m)"
proof (induction m rule: drop_oldest.induct)
  case (1 m)
  show ?case
  proof (cases "length m > contents_limit \<and> fst (hd m) \<noteq> []")
    case False
    then have "drop_oldest m = drop 0 m" by (subst drop_oldest.simps) (auto split: list.split)
    then show ?thesis by (intro exI [of _ 0]) simp
  next
    case True
    then obtain k v rest where kv: "m = (k, v) # rest" "k \<noteq> []"
      by (cases m) (auto simp: contents_limit_def)
    with True have "rest \<noteq> []" by (auto simp: contents_limit_def)
    with kv have m: "m = (k, v) # rest" "k \<noteq> []" "rest \<noteq> []" by auto
    have "drop_oldest m = drop_oldest rest" using True m by (subst drop_oldest.simps) simp
    moreover obtain n where "drop_oldest rest = drop n rest" "n < length rest"
      using 1 [OF conjunct1 [OF True] m(1) refl m(2)] m(3) by blast
    ultimately show ?thesis using m by (intro exI [of _ "Suc n"]) simp
  qed
qed

lemma remembered: "map_of (hb_contents (rememberTranscriptContent key c h)) key = Some c"
proof -
  let ?m = "AList.delete key (hb_contents h) @ [(key, c)]"
  obtain n where n: "drop_oldest ?m = drop n ?m" "n < length ?m" using drop_oldest_drop [of ?m] by blast
  then have "drop_oldest ?m = drop n (AList.delete key (hb_contents h)) @ [(key, c)]" by simp
  moreover have "map_of (drop n (AList.delete key (hb_contents h))) key = None"
    by (auto simp: map_of_eq_None_iff set_AList_delete_iff dest!: in_set_dropD)
  ultimately show ?thesis by (simp add: rememberTranscriptContent_def map_add_def)
qed

definition text_update :: "jsstr \<Rightarrow> jsstr \<Rightarrow> jsval" where
  "text_update i c = JObj [(js ''type'', JStr (js ''transcript_update'')), (js ''id'', JStr i),
     (js ''patch'', JObj [(js ''content'', JStr c)])]"

text \<open>The content the events of a conversation set, as an example of \<open>addressed\<close>.\<close>

lemma text_update_props:
  "get_prop (text_update i c) (js ''type'') = JStr (js ''transcript_update'')"
  "get_prop (text_update i c) (js ''id'') = JStr i"
  "get_prop (text_update i c) (js ''patch'') = JObj [(js ''content'', JStr c)]"
  "get_prop (text_update i c) (js ''contentDelta'') = JUndefined"
  "is_record (text_update i c)"
proof -
  have "js ''type'' \<noteq> js ''id''" by code_simp
  then show "get_prop (text_update i c) (js ''type'') = JStr (js ''transcript_update'')"
    "get_prop (text_update i c) (js ''id'') = JStr i"
    "get_prop (text_update i c) (js ''patch'') = JObj [(js ''content'', JStr c)]"
    "get_prop (text_update i c) (js ''contentDelta'') = JUndefined"
    "is_record (text_update i c)"
    using key_neq by (auto simp: text_update_def)
qed

lemma text_update_addressed:
  assumes "\<And>c. i \<noteq> web_entry_id E c"
  shows "addressed E k (text_update i t)"
  using assms key_neq by (auto simp: addressed_def text_update_props)

text \<open>C28: The length is all the browser checks. A streamed text \<open>a\<close> is replaced by another of the
  same length, \<open>b\<close>, in an update the browser misses (updates are not kept for replay); the next
  update extends \<open>b\<close> by \<open>d\<close>. Then the browser shows \<open>a @ d\<close>, which the host never showed, and
  does not ask for a reload.
\<close>

theorem missed_update_undetected:
  assumes "map_of (hb_contents h) (transcriptContentKey sid i) = Some a"
    and "length a = length b" and "a \<noteq> b"
    and "compactRuntimeEvent E (text_update i b) sid h = (v1, h1)"
    and "compactRuntimeEvent E (text_update i (b @ d)) sid h1 = (v2, h2)"
    and "is_record e" and "get_prop e (js ''id'') = JStr i" and "get_prop e (js ''content'') = JStr a"
  shows "v1 = text_update i b \<and> \<not> isDurableRuntimeEvent v1
    \<and> (\<exists>e'. reduce_view E ord eid k ts v2 \<lparr>bv_replay = False, bv_transcript = [e]\<rparr>
            = \<lparr>bv_replay = False, bv_transcript = [e']\<rparr>
          \<and> get_prop e' (js ''content'') = JStr (a @ d) \<and> a @ d \<noteq> b @ d)"
proof -
  let ?key = "transcriptContentKey sid i"
  have ty: "type_is ''transcript_update'' (text_update i c)" for c by (simp add: type_is_def text_update_props)
  have nopre: "\<not> starts_with b a" using assms(2,3) by (simp add: starts_with_def)
  have v1: "v1 = text_update i b" and h1: "h1 = rememberTranscriptContent ?key b h"
    using assms(1,4) ty nopre
    by (auto simp: compactRuntimeEvent_def Let_def text_update_props ident_text_def)
  have mem: "map_of (hb_contents h1) ?key = Some b" unfolding h1 by (rule remembered)
  have v2: "v2 = set_prop (js ''contentStart'') (jint (int (length b)))
      (set_prop (js ''contentDelta'') (JStr d)
        (set_prop (js ''patch'') (JObj []) (text_update i (b @ d))))"
    using assms(5) ty mem
    by (auto simp: compactRuntimeEvent_def Let_def text_update_props ident_text_def starts_with_def)
  have P: "get_prop v2 (js ''type'') = JStr (js ''transcript_update'')" "get_prop v2 (js ''id'') = JStr i"
    "get_prop v2 (js ''contentDelta'') = JStr d" "get_prop v2 (js ''contentStart'') = jint (int (length b))"
    "get_prop v2 (js ''patch'') = JObj []"
    unfolding v2 using key_neq by (simp_all add: text_update_props)
  have same: "same_id v2 e" using P(2) assms(7) by (simp add: same_id_def)
  have base: "\<not> baseline_changed v2 [e]"
    using same P(4) assms(2,8) by (simp add: baseline_changed_def content_text_def jint_def)
  have "type_is ''transcript_update'' v2" "\<not> type_is ''transcript_append'' v2"
    using P(1) transcript_types by (auto simp: type_is_def)
  then have "reduce_view E ord eid k ts v2 \<lparr>bv_replay = False, bv_transcript = [e]\<rparr>
      = \<lparr>bv_replay = False, bv_transcript = [update_entry v2 e]\<rparr>"
    using base same by (simp add: reduce_view_def reduceRuntimeEvent_def Let_def)
  moreover have "get_prop (update_entry v2 e) (js ''content'') = JStr (a @ d)"
    using P(3,5) assms(6,8) by (simp add: update_entry_def Let_def content_text_def)
  moreover have "\<not> isDurableRuntimeEvent v1"
    unfolding v1 by (simp add: isDurableRuntimeEvent_def text_update_props)
  ultimately show ?thesis using v1 assms(3) by auto
qed

subsubsection \<open>Examples\<close>

definition stream_memory :: "(jsstr \<times> jsstr) list \<Rightarrow> event_hub" where
  "stream_memory m = \<lparr>hb_retained = [], hb_clients = [], hb_contents = m, hb_nextCursor = 1,
     hb_bytes = 0, hb_discarded = 0, hb_resets = 0\<rparr>"

definition message_entry :: "jsstr \<Rightarrow> jsval" where
  "message_entry c = JObj [(js ''id'', JStr (js ''m'')), (js ''content'', JStr c)]"

lemma message_entry_props:
  "is_record (message_entry c)" "get_prop (message_entry c) (js ''id'') = JStr (js ''m'')"
  "get_prop (message_entry c) (js ''content'') = JStr c"
  using key_neq by (simp_all add: message_entry_def)

lemma compaction_transparent_witness:
  "let V = \<lparr>bv_replay = False, bv_transcript = [message_entry []]\<rparr>;
       vs = [([], [], text_update (js ''m'') (js ''ab'')), ([], [], text_update (js ''m'') (js ''abc''))];
       W = streamed_view quiet_env (\<lambda>_ _ _. JNull) None 1 vs (stream_memory []) V in
   bv_replay W \<or> W = plain_view quiet_env (\<lambda>_ _ _. JNull) 1 vs V"
proof -
  have ids: "\<And>c. js ''m'' \<noteq> web_entry_id quiet_env c"
    unfolding web_entry_id_def quiet_env_def js_env.simps append_Nil2 by code_simp
  show ?thesis
    unfolding Let_def
    by (rule compaction_transparent)
      (simp_all add: stream_memory_def message_entry_props text_update_addressed [OF ids])
qed

lemma missed_update_undetected_witness:
  "let h = stream_memory [(transcriptContentKey None (js ''m''), js ''1s'')];
       (v1, h1) = compactRuntimeEvent quiet_env (text_update (js ''m'') (js ''2s'')) None h;
       (v2, h2) = compactRuntimeEvent quiet_env (text_update (js ''m'') (js ''2s'' @ js '' ok'')) None h1 in
   \<exists>e'. reduce_view quiet_env (\<lambda>_ _ _. JNull) [] 1 [] v2
          \<lparr>bv_replay = False, bv_transcript = [message_entry (js ''1s'')]\<rparr>
        = \<lparr>bv_replay = False, bv_transcript = [e']\<rparr>
      \<and> get_prop e' (js ''content'') = JStr (js ''1s'' @ js '' ok'')"
proof -
  let ?h = "stream_memory [(transcriptContentKey None (js ''m''), js ''1s'')]"
  obtain v1 h1 where 1: "compactRuntimeEvent quiet_env (text_update (js ''m'') (js ''2s'')) None ?h = (v1, h1)"
    by (cases "compactRuntimeEvent quiet_env (text_update (js ''m'') (js ''2s'')) None ?h")
  obtain v2 h2 where 2: "compactRuntimeEvent quiet_env (text_update (js ''m'') (js ''2s'' @ js '' ok'')) None h1 = (v2, h2)"
    by (cases "compactRuntimeEvent quiet_env (text_update (js ''m'') (js ''2s'' @ js '' ok'')) None h1")
  have "length (js ''1s'') = length (js ''2s'')" "js ''1s'' \<noteq> js ''2s''" by code_simp+
  moreover have "map_of (hb_contents ?h) (transcriptContentKey None (js ''m'')) = Some (js ''1s'')"
    by (simp add: stream_memory_def)
  ultimately show ?thesis
    using missed_update_undetected [OF _ _ _ 1 2 message_entry_props(1) message_entry_props(2)
        message_entry_props(3), of "js ''1s''" "\<lambda>_ _ _. JNull" "[]" 1 "[]"] 1 2
    by (simp add: Let_def)
qed

end
