(* ===== verification/WorkspaceArbiter.thy ===== *)
theory WorkspaceArbiter
  imports OrionPrelude
begin

section \<open>The workspace mutation arbiter\<close>

text \<open>
  Models \<open>WorkspaceMutationArbiterV1\<close> of \<open>src/src/web/workspace-mutation-arbiter.ts\<close>: side effects
  on one workspace run one at a time in the order of their admission, and only if the target
  is still at the revision it had before. \<open>mutationTargetRevision\<close> reads files; the revisions it
  returns are arguments of the steps, and so are the abort signals as they stand at a step.
  Promises are numbered by admission; \<open>ar_out\<close> lists what becomes visible: states published,
  operations called, promises settled.
\<close>

subsection \<open>Data\<close>

text \<open>\<open>running\<close> is \<open>wm_stage \<noteq> WmWaiting\<close>; the other two stages are the two awaits of \<open>startHead\<close>.\<close>

datatype wm_stage = WmWaiting | WmReading | WmOperating

record wm_entry =
  wm_serial :: nat
  wm_workspace :: jsstr
  wm_invocation :: jsstr
  wm_baseline :: jsstr
  wm_stage :: wm_stage

datatype wm_phase = PhQueued | PhRunning | PhCompleted | PhFailed | PhCancelled

record wm_state =
  ws_workspaceId :: jsstr
  ws_invocationId :: jsstr
  ws_phase :: wm_phase
  ws_queuePosition :: "nat option"

datatype wm_code = MutationCancelled | MutationConflict | MutationDuplicate

datatype wm_reason = ArbiterError wm_code | OtherError

datatype wm_outcome = WmResolved | WmRejected wm_reason

datatype wm_out = Publish wm_state | Operate jsstr nat | Settle nat wm_outcome

text \<open>
  A call of \<open>runWorkspaceMutation\<close> past its checks: reading the baseline, awaiting the promise of
  \<open>run\<close>, or awaiting one that was rejected at once.
\<close>

datatype wm_ticket_stage = TkPreparing | TkAwaiting nat | TkRejected

record wm_ticket =
  tk_workspace :: jsstr
  tk_invocation :: jsstr
  tk_stage :: wm_ticket_stage

record arbiter =
  ar_queues :: "(jsstr \<times> wm_entry list) list"
  ar_preparing :: "jsstr list"
  ar_closed :: bool
  ar_next :: nat
  ar_tickets :: "(nat \<times> wm_ticket) list"
  ar_nextTicket :: nat
  ar_out :: "wm_out list"

datatype run_result = RunThrows wm_reason | RunRejected wm_reason | RunPromise nat

definition new_arbiter :: arbiter where
  "new_arbiter = \<lparr>ar_queues = [], ar_preparing = [], ar_closed = False, ar_next = 0,
     ar_tickets = [], ar_nextTicket = 0, ar_out = []\<rparr>"

definition is_running :: "wm_entry \<Rightarrow> bool" where
  "is_running e \<longleftrightarrow> wm_stage e \<noteq> WmWaiting"

definition queue_of :: "arbiter \<Rightarrow> jsstr \<Rightarrow> wm_entry list" where
  "queue_of s ws = (case map_of (ar_queues s) ws of None \<Rightarrow> [] | Some q \<Rightarrow> q)"

text \<open>\<open>find\<close>: whether some queue holds the invocation.\<close>

definition find_invocation :: "arbiter \<Rightarrow> jsstr \<Rightarrow> bool" where
  "find_invocation s ivk \<longleftrightarrow> list_ex (\<lambda>(ws, q). list_ex (\<lambda>e. wm_invocation e = ivk) q) (ar_queues s)"

subsection \<open>Publishing\<close>

definition waitingPosition :: "wm_entry list \<Rightarrow> nat \<Rightarrow> nat" where
  "waitingPosition q i = i + (if q \<noteq> [] \<and> is_running (hd q) then 0 else 1)"

definition publish :: "wm_entry \<Rightarrow> wm_phase \<Rightarrow> nat option \<Rightarrow> wm_out" where
  "publish e ph pos = Publish \<lparr>ws_workspaceId = wm_workspace e, ws_invocationId = wm_invocation e,
     ws_phase = ph, ws_queuePosition = pos\<rparr>"

definition publishQueue :: "wm_entry list \<Rightarrow> wm_out list" where
  "publishQueue q = concat (map (\<lambda>(i, e). if is_running e then []
     else [publish e PhQueued (Some (waitingPosition q i))]) (zip [0..<length q] q))"

definition arbiter_snapshot :: "jsstr option \<Rightarrow> arbiter \<Rightarrow> wm_state list" where
  "arbiter_snapshot only s = concat (map (\<lambda>(ws, q).
     if only \<noteq> None \<and> only \<noteq> Some [] \<and> only \<noteq> Some ws then []
     else map (\<lambda>(i, e). \<lparr>ws_workspaceId = ws, ws_invocationId = wm_invocation e,
       ws_phase = (if is_running e then PhRunning else PhQueued),
       ws_queuePosition = (if is_running e then None else Some (waitingPosition q i))\<rparr>)
       (zip [0..<length q] q)) (ar_queues s))"

subsection \<open>The head of a queue\<close>

text \<open>
  \<open>startHead\<close> up to its first await, on the queue: entries cancelled while they waited are
  rejected and shifted out (\<open>finishHead\<close> with an early error), the next one starts running.
\<close>

fun startHead :: "bool \<Rightarrow> (nat \<Rightarrow> bool) \<Rightarrow> wm_entry list \<Rightarrow> wm_entry list \<times> wm_out list" where
  "startHead closed aborted [] = ([], [])"
| "startHead closed aborted (e # rest) =
     (if is_running e then (e # rest, [])
      else if closed \<or> aborted (wm_serial e)
      then (let (q, out) = startHead closed aborted rest in
        (q, [Settle (wm_serial e) (WmRejected (ArbiterError MutationCancelled)),
             publish e PhCancelled None] @ publishQueue rest @ out))
      else (e\<lparr>wm_stage := WmReading\<rparr> # rest, [publish e PhRunning None]))"

text \<open>\<open>finishHead\<close> of the running head.\<close>

definition finishHead ::
  "bool \<Rightarrow> (nat \<Rightarrow> bool) \<Rightarrow> nat \<Rightarrow> wm_entry list \<Rightarrow> wm_entry list \<times> wm_out list" where
  "finishHead closed aborted serial q = (case q of
     [] \<Rightarrow> (q, [])
   | e # rest \<Rightarrow>
       (if wm_serial e \<noteq> serial then (q, [])
        else let (q', out) = startHead closed aborted rest in (q', publishQueue rest @ out)))"

definition put_queue :: "jsstr \<Rightarrow> wm_entry list \<Rightarrow> wm_out list \<Rightarrow> arbiter \<Rightarrow> arbiter" where
  "put_queue ws q out s = s\<lparr>ar_out := ar_out s @ out,
     ar_queues := (if q = [] then AList.delete ws (ar_queues s) else AList.update ws q (ar_queues s))\<rparr>"

subsection \<open>run\<close>

definition run_mutation ::
  "(nat \<Rightarrow> bool) \<Rightarrow> jsstr \<Rightarrow> jsstr \<Rightarrow> jsstr \<Rightarrow> bool \<Rightarrow> arbiter \<Rightarrow> run_result \<times> arbiter" where
  "run_mutation aborted workspaceId invocationId baseline own s =
     (let ws = js_trim workspaceId; ivk = js_trim invocationId in
      if ar_closed s then (RunThrows (ArbiterError MutationCancelled), s)
      else if ws = [] \<or> ivk = [] \<or> js_trim baseline = [] then (RunThrows OtherError, s)
      else if own then (RunRejected (ArbiterError MutationCancelled), s)
      else if List.member (ar_preparing s) ivk \<or> find_invocation s ivk
      then (RunThrows (ArbiterError MutationDuplicate), s)
      else let e = \<lparr>wm_serial = ar_next s, wm_workspace = ws, wm_invocation = ivk,
                    wm_baseline = baseline, wm_stage = WmWaiting\<rparr>;
               q = queue_of s ws @ [e];
               (q', out) = (if length q = 1 then startHead False aborted q else (q, [])) in
        (RunPromise (ar_next s),
         put_queue ws q' (publishQueue q @ out) (s\<lparr>ar_next := Suc (ar_next s)\<rparr>)))"

subsection \<open>runWorkspaceMutation\<close>

definition remove_preparing :: "jsstr \<Rightarrow> arbiter \<Rightarrow> arbiter" where
  "remove_preparing ivk s = s\<lparr>ar_preparing := filter (\<lambda>i. i \<noteq> ivk) (ar_preparing s)\<rparr>"

definition begin_mutation :: "jsstr \<Rightarrow> jsstr \<Rightarrow> arbiter \<Rightarrow> wm_reason option \<times> arbiter" where
  "begin_mutation workspaceId invocationId s =
     (let ivk = js_trim invocationId in
      if ar_closed s then (Some (ArbiterError MutationCancelled), s)
      else if ivk = [] \<or> List.member (ar_preparing s) ivk \<or> find_invocation s ivk
      then (Some (ArbiterError MutationDuplicate), s)
      else (None, s\<lparr>ar_preparing := ar_preparing s @ [ivk],
        ar_tickets := ar_tickets s @ [(ar_nextTicket s,
          \<lparr>tk_workspace = workspaceId, tk_invocation = ivk, tk_stage = TkPreparing\<rparr>)],
        ar_nextTicket := Suc (ar_nextTicket s)\<rparr>))"

text \<open>The baseline has been read: \<open>run\<close>, which ends the call when it throws.\<close>

definition prepared_mutation :: "(nat \<Rightarrow> bool) \<Rightarrow> nat \<Rightarrow> jsstr \<Rightarrow> bool \<Rightarrow> arbiter \<Rightarrow> arbiter" where
  "prepared_mutation aborted t baseline own s = (case map_of (ar_tickets s) t of
     Some tk \<Rightarrow>
       (if tk_stage tk = TkPreparing
        then (case run_mutation aborted (tk_workspace tk) (tk_invocation tk) baseline own
                     (remove_preparing (tk_invocation tk) s) of
            (RunPromise n, s') \<Rightarrow> s'\<lparr>ar_tickets := AList.update t (tk\<lparr>tk_stage := TkAwaiting n\<rparr>) (ar_tickets s')\<rparr>
          | (RunRejected r, s') \<Rightarrow> s'\<lparr>ar_tickets := AList.update t (tk\<lparr>tk_stage := TkRejected\<rparr>) (ar_tickets s')\<rparr>
          | (RunThrows r, s') \<Rightarrow> s'\<lparr>ar_tickets := AList.delete t (ar_tickets s')\<rparr>)
        else s)
   | None \<Rightarrow> s)"

definition settled :: "arbiter \<Rightarrow> nat \<Rightarrow> bool" where
  "settled s n \<longleftrightarrow> list_ex (\<lambda>x. case x of Settle m r \<Rightarrow> m = n | _ \<Rightarrow> False) (ar_out s)"

text \<open>The \<open>finally\<close> clause runs some time after the promise of \<open>run\<close> is settled.\<close>

definition ticket_over :: "arbiter \<Rightarrow> wm_ticket \<Rightarrow> bool" where
  "ticket_over s tk = (case tk_stage tk of
     TkAwaiting n \<Rightarrow> settled s n | TkRejected \<Rightarrow> True | TkPreparing \<Rightarrow> False)"

definition finally_mutation :: "nat \<Rightarrow> arbiter \<Rightarrow> arbiter" where
  "finally_mutation t s = (case map_of (ar_tickets s) t of
     Some tk \<Rightarrow>
       (if ticket_over s tk
        then (remove_preparing (tk_invocation tk) s)\<lparr>ar_tickets := AList.delete t (ar_tickets s)\<rparr>
        else s)
   | None \<Rightarrow> s)"

subsection \<open>The awaits of startHead\<close>

definition error_phase :: "wm_reason \<Rightarrow> wm_phase" where
  "error_phase r = (if r = ArbiterError MutationCancelled then PhCancelled else PhFailed)"

text \<open>The head of a workspace fails: its promise is rejected and the next entry starts.\<close>

definition fail_head :: "(nat \<Rightarrow> bool) \<Rightarrow> jsstr \<Rightarrow> wm_entry \<Rightarrow> wm_reason \<Rightarrow> arbiter \<Rightarrow> arbiter" where
  "fail_head aborted ws e r s =
     (let (q, out) = finishHead (ar_closed s) aborted (wm_serial e) (queue_of s ws) in
      put_queue ws q ([Settle (wm_serial e) (WmRejected r), publish e (error_phase r) None] @ out) s)"

text \<open>\<open>readCurrentRevision\<close> returned, or threw (\<open>None\<close>).\<close>

definition revision_read :: "(nat \<Rightarrow> bool) \<Rightarrow> jsstr \<Rightarrow> jsstr option \<Rightarrow> arbiter \<Rightarrow> arbiter" where
  "revision_read aborted ws res s = (case queue_of s ws of
     e # rest \<Rightarrow>
       (if wm_stage e \<noteq> WmReading then s
        else case res of
          None \<Rightarrow> fail_head aborted ws e OtherError s
        | Some revision \<Rightarrow>
            (if revision \<noteq> wm_baseline e
             then fail_head aborted ws e (ArbiterError MutationConflict) s
             else put_queue ws (e\<lparr>wm_stage := WmOperating\<rparr> # rest) [Operate ws (wm_serial e)] s))
   | [] \<Rightarrow> s)"

text \<open>The operation returned, or threw a reason.\<close>

definition operation_done :: "(nat \<Rightarrow> bool) \<Rightarrow> jsstr \<Rightarrow> wm_reason option \<Rightarrow> arbiter \<Rightarrow> arbiter" where
  "operation_done aborted ws res s = (case queue_of s ws of
     e # rest \<Rightarrow>
       (if wm_stage e \<noteq> WmOperating then s
        else case res of
          Some r \<Rightarrow> fail_head aborted ws e r s
        | None \<Rightarrow>
            (let (q, out) = finishHead (ar_closed s) aborted (wm_serial e) (queue_of s ws) in
             put_queue ws q ([Settle (wm_serial e) WmResolved, publish e PhCompleted None] @ out) s))
   | [] \<Rightarrow> s)"

subsection \<open>close\<close>

definition cancel_waiting :: "wm_entry list \<Rightarrow> wm_out list" where
  "cancel_waiting q = concat (map (\<lambda>e. if is_running e then []
     else [Settle (wm_serial e) (WmRejected (ArbiterError MutationCancelled)), publish e PhCancelled None]) q)"

definition close_arbiter :: "arbiter \<Rightarrow> arbiter" where
  "close_arbiter s = (if ar_closed s then s
     else s\<lparr>ar_closed := True,
            ar_out := ar_out s @ concat (map (\<lambda>(ws, q). cancel_waiting q) (ar_queues s)),
            ar_queues := map (\<lambda>(ws, q). (ws, filter is_running q)) (ar_queues s)\<rparr>)"

subsection \<open>Steps\<close>

datatype arbiter_op =
    ArRun "nat \<Rightarrow> bool" jsstr jsstr jsstr bool
  | ArBegin jsstr jsstr
  | ArPrepared "nat \<Rightarrow> bool" nat jsstr bool
  | ArFinally nat
  | ArRevision "nat \<Rightarrow> bool" jsstr "jsstr option"
  | ArOperation "nat \<Rightarrow> bool" jsstr "wm_reason option"
  | ArClose

fun arbiter_step :: "arbiter_op \<Rightarrow> arbiter \<Rightarrow> arbiter" where
  "arbiter_step (ArRun ab ws ivk baseline own) s = snd (run_mutation ab ws ivk baseline own s)"
| "arbiter_step (ArBegin ws ivk) s = snd (begin_mutation ws ivk s)"
| "arbiter_step (ArPrepared ab t baseline own) s = prepared_mutation ab t baseline own s"
| "arbiter_step (ArFinally t) s = finally_mutation t s"
| "arbiter_step (ArRevision ab ws res) s = revision_read ab ws res s"
| "arbiter_step (ArOperation ab ws res) s = operation_done ab ws res s"
| "arbiter_step ArClose s = close_arbiter s"

end
