(* ===== verification/ArbiterProperties.thy ===== *)
theory ArbiterProperties
  imports WorkspaceArbiter
begin

section \<open>Mutations of a workspace: one at a time, in order, each settled once\<close>

subsection \<open>The invariant\<close>

definition settles :: "wm_out list \<Rightarrow> nat list" where
  "settles out = concat (map (\<lambda>x. case x of Settle n r \<Rightarrow> [n] | _ \<Rightarrow> []) out)"

definition operates :: "jsstr \<Rightarrow> wm_out list \<Rightarrow> nat list" where
  "operates ws out = concat (map (\<lambda>x. case x of Operate w n \<Rightarrow> if w = ws then [n] else [] | _ \<Rightarrow> []) out)"

definition id_of :: "wm_entry \<Rightarrow> wm_entry" where
  "id_of e = e\<lparr>wm_stage := WmWaiting\<rparr>"

definition shape :: "wm_entry list \<Rightarrow> bool" where
  "shape q \<longleftrightarrow> (q \<noteq> [] \<longrightarrow> is_running (hd q)) \<and> list_all (\<lambda>e. \<not> is_running e) (tl q)"

definition queue_ok :: "jsstr \<Rightarrow> nat \<Rightarrow> wm_entry list \<Rightarrow> bool" where
  "queue_ok ws nxt q \<longleftrightarrow> shape q \<and> (\<forall>e \<in> set q. wm_workspace e = ws \<and> wm_serial e < nxt)
     \<and> sorted_wrt (<) (map wm_serial q) \<and> distinct (map wm_invocation q)"

definition ops_ok :: "nat list \<Rightarrow> nat list \<Rightarrow> wm_entry list \<Rightarrow> bool" where
  "ops_ok ops done_ones q \<longleftrightarrow> sorted_wrt (<) ops
     \<and> (\<forall>n \<in> set ops. n \<in> set done_ones \<or> (\<exists>e \<in> set q. wm_serial e = n \<and> wm_stage e = WmOperating))
     \<and> (\<forall>n \<in> set ops. \<forall>e \<in> set q. n \<le> wm_serial e \<and> (n = wm_serial e \<longrightarrow> wm_stage e = WmOperating))"

definition arb_inv :: "arbiter \<Rightarrow> bool" where
  "arb_inv s \<longleftrightarrow> distinct (map fst (ar_queues s))
     \<and> (\<forall>ws. queue_ok ws (ar_next s) (queue_of s ws)
          \<and> ops_ok (operates ws (ar_out s)) (settles (ar_out s)) (queue_of s ws)
          \<and> set (settles (ar_out s)) \<inter> set (map wm_serial (queue_of s ws)) = {})
     \<and> (\<forall>ws ws'. ws \<noteq> ws' \<longrightarrow>
          set (map wm_invocation (queue_of s ws)) \<inter> set (map wm_invocation (queue_of s ws')) = {}
          \<and> set (map wm_serial (queue_of s ws)) \<inter> set (map wm_serial (queue_of s ws')) = {})
     \<and> distinct (settles (ar_out s))
     \<and> (\<forall>n. n < ar_next s \<longleftrightarrow>
          n \<in> set (settles (ar_out s)) \<or> (\<exists>ws. n \<in> set (map wm_serial (queue_of s ws))))"

lemma out_simps [simp]:
  "settles [] = []" "settles (a @ b) = settles a @ settles b"
  "operates ws [] = []" "operates ws (a @ b) = operates ws a @ operates ws b"
  "settles (Settle n r # out) = n # settles out" "settles (Publish st # out) = settles out"
  "settles (Operate w n # out) = settles out" "operates ws (Settle n r # out) = operates ws out"
  "operates ws (Publish st # out) = operates ws out"
  "operates ws (Operate w n # out) = (if w = ws then n # operates ws out else operates ws out)"
  "settles (publish e ph pos # out) = settles out" "operates ws (publish e ph pos # out) = operates ws out"
  by (simp_all add: settles_def operates_def publish_def)

lemma publishQueue_silent [simp]: "settles (publishQueue q) = []" "operates ws (publishQueue q) = []"
  by (auto simp: publishQueue_def settles_def operates_def publish_def)

lemma queue_of_put [simp]:
  "queue_of (put_queue ws q out s) ws' = (if ws' = ws then q else queue_of s ws')"
  by (simp add: queue_of_def put_queue_def update_conv' delete_conv')

lemma put_queue_fields [simp]:
  "ar_out (put_queue ws q out s) = ar_out s @ out" "ar_next (put_queue ws q out s) = ar_next s"
  "ar_closed (put_queue ws q out s) = ar_closed s" "ar_preparing (put_queue ws q out s) = ar_preparing s"
  "ar_tickets (put_queue ws q out s) = ar_tickets s" "ar_nextTicket (put_queue ws q out s) = ar_nextTicket s"
  by (simp_all add: put_queue_def)

lemma put_queue_keys: "distinct (map fst (ar_queues s)) \<Longrightarrow> distinct (map fst (ar_queues (put_queue ws q out s)))"
  by (simp add: put_queue_def distinct_delete distinct_update)

lemma id_of_fields [simp]:
  "wm_serial (id_of e) = wm_serial e" "wm_invocation (id_of e) = wm_invocation e"
  "wm_workspace (id_of e) = wm_workspace e" "wm_baseline (id_of e) = wm_baseline e"
  by (simp_all add: id_of_def)

text \<open>What starting the head of a queue of waiting entries does.\<close>

lemma startHead_spec:
  assumes "startHead closed aborted q = (q', out)" "list_all (\<lambda>e. \<not> is_running e) q"
  shows "\<exists>k \<le> length q. map id_of q' = drop k (map id_of q) \<and> settles out = take k (map wm_serial q)
    \<and> shape q' \<and> (\<forall>ws. operates ws out = []) \<and> (\<forall>e \<in> set q'. wm_stage e \<noteq> WmOperating)
    \<and> (\<not> closed \<longrightarrow> (\<forall>e \<in> set q. \<not> aborted (wm_serial e)) \<longrightarrow> k = 0)"
  using assms
proof (induction q arbitrary: q' out)
  case Nil
  then show ?case by (simp add: shape_def)
next
  case (Cons e rest)
  from Cons.prems(2) have e: "\<not> is_running e" and rest: "list_all (\<lambda>e. \<not> is_running e) rest" by auto
  show ?case
  proof (cases "closed \<or> aborted (wm_serial e)")
    case True
    obtain q2 out2 where r: "startHead closed aborted rest = (q2, out2)"
      by (cases "startHead closed aborted rest")
    from Cons.IH [OF r rest] obtain k where "k \<le> length rest" "map id_of q2 = drop k (map id_of rest)"
      "settles out2 = take k (map wm_serial rest)" "shape q2" "\<forall>ws. operates ws out2 = []"
      "\<forall>e \<in> set q2. wm_stage e \<noteq> WmOperating" by blast
    with Cons.prems(1) e True r show ?thesis by (intro exI [of _ "Suc k"]) auto
  next
    case False
    with Cons.prems(1) e have "q' = e\<lparr>wm_stage := WmReading\<rparr> # rest" "out = [publish e PhRunning None]" by auto
    with rest show ?thesis
      by (intro exI [of _ 0]) (auto simp: shape_def is_running_def id_of_def list_all_iff)
  qed
qed

lemma finishHead_spec:
  assumes "finishHead closed aborted (wm_serial e) (e # rest) = (q', out)" "list_all (\<lambda>e. \<not> is_running e) rest"
  shows "\<exists>k. map id_of q' = drop (Suc k) (map id_of (e # rest))
    \<and> wm_serial e # settles out = take (Suc k) (map wm_serial (e # rest))
    \<and> shape q' \<and> (\<forall>ws. operates ws out = []) \<and> (\<forall>e \<in> set q'. wm_stage e \<noteq> WmOperating)"
proof -
  obtain q2 out2 where r: "startHead closed aborted rest = (q2, out2)"
    by (cases "startHead closed aborted rest")
  from startHead_spec [OF r assms(2)] show ?thesis
    using assms(1) r by (auto simp: finishHead_def)
qed

text \<open>A queue loses a prefix, all of it settled, and keeps no operating entry.\<close>

lemma id_serials: "map id_of q' = drop k (map id_of q) \<Longrightarrow> map wm_serial q' = drop k (map wm_serial q)"
  by (metis (no_types, lifting) drop_map id_of_fields(1) list.map_comp map_eq_conv comp_apply)

lemma id_invocations: "map id_of q' = drop k (map id_of q) \<Longrightarrow> map wm_invocation q' = drop k (map wm_invocation q)"
  by (metis (no_types, lifting) drop_map id_of_fields(2) list.map_comp map_eq_conv comp_apply)

lemma id_workspaces: "map id_of q' = drop k (map id_of q) \<Longrightarrow> map wm_workspace q' = drop k (map wm_workspace q)"
  by (metis (no_types, lifting) drop_map id_of_fields(3) list.map_comp map_eq_conv comp_apply)

lemma set_take_drop_sorted:
  "sorted_wrt (<) (xs :: nat list) \<Longrightarrow> set (take k xs) \<inter> set (drop k xs) = {}"
  by (metis set_take_disj_set_drop_if_distinct strict_sorted_iff le_refl)

lemma shrink_inv:
  assumes inv: "arb_inv s"
    and ids: "map id_of q' = drop (Suc k) (map id_of (queue_of s ws))"
    and st: "settles out = take (Suc k) (map wm_serial (queue_of s ws))"
    and sh: "shape q'" and op: "\<forall>w. operates w out = []" and no: "\<forall>e \<in> set q'. wm_stage e \<noteq> WmOperating"
    and fields: "ar_next t = ar_next s" "ar_out t = ar_out s @ out" "distinct (map fst (ar_queues t))"
      "\<And>w. queue_of t w = (if w = ws then q' else queue_of s w)"
  shows "arb_inv t"
proof -
  let ?q = "queue_of s ws" and ?S = "settles (ar_out s)"
  note ser = id_serials [OF ids] and ivk = id_invocations [OF ids] and wsp = id_workspaces [OF ids]
  from inv have q: "queue_ok ws (ar_next s) ?q" "ops_ok (operates ws (ar_out s)) ?S ?q"
      "set ?S \<inter> set (map wm_serial ?q) = {}" "distinct ?S"
    and all: "\<And>w. queue_ok w (ar_next s) (queue_of s w)" "\<And>w. ops_ok (operates w (ar_out s)) ?S (queue_of s w)"
      "\<And>w. set ?S \<inter> set (map wm_serial (queue_of s w)) = {}"
    and cross: "\<And>w w'. w \<noteq> w' \<Longrightarrow> set (map wm_invocation (queue_of s w)) \<inter> set (map wm_invocation (queue_of s w')) = {}
          \<and> set (map wm_serial (queue_of s w)) \<inter> set (map wm_serial (queue_of s w')) = {}"
    and tot: "\<And>n. n < ar_next s \<longleftrightarrow> n \<in> set ?S \<or> (\<exists>w. n \<in> set (map wm_serial (queue_of s w)))"
    by (auto simp: arb_inv_def)
  have sorted: "sorted_wrt (<) (map wm_serial ?q)" using q(1) by (simp add: queue_ok_def)
  have S': "settles (ar_out t) = ?S @ take (Suc k) (map wm_serial ?q)" by (simp add: fields st)
  have O': "operates w (ar_out t) = operates w (ar_out s)" for w by (simp add: fields op)
  have subs: "set (map wm_serial q') \<subseteq> set (map wm_serial ?q)" "set (map wm_invocation q') \<subseteq> set (map wm_invocation ?q)"
    "set (map wm_workspace q') \<subseteq> set (map wm_workspace ?q)"
    unfolding ser ivk wsp by (rule set_drop_subset)+
  have parts: "set (take (Suc k) (map wm_serial ?q)) \<union> set (map wm_serial q') = set (map wm_serial ?q)"
    unfolding ser by (metis append_take_drop_id set_append)
  have disj: "set (take (Suc k) (map wm_serial ?q)) \<inter> set (map wm_serial q') = {}"
    unfolding ser by (rule set_take_drop_sorted [OF sorted])
  have qok: "queue_ok ws (ar_next t) q'"
  proof -
    have "sorted_wrt (<) (map wm_serial q')" unfolding ser using sorted by (rule sorted_wrt_drop)
    moreover have "distinct (map wm_invocation q')" unfolding ivk using q(1) by (simp add: queue_ok_def)
    moreover have "wm_workspace e = ws \<and> wm_serial e < ar_next t" if "e \<in> set q'" for e
    proof -
      from that subs(1,3) have "wm_serial e \<in> set (map wm_serial ?q)" "wm_workspace e \<in> set (map wm_workspace ?q)" by auto
      with q(1) fields(1) show ?thesis by (auto simp: queue_ok_def)
    qed
    ultimately show ?thesis using sh by (simp add: queue_ok_def)
  qed
  have head: "wm_serial e \<in> set (take (Suc k) (map wm_serial ?q))" if "e \<in> set ?q" "wm_stage e = WmOperating" for e
  proof -
    from that(1) obtain x xs where x: "?q = x # xs" by (cases ?q) auto
    have "e = x" using that q(1) x by (auto simp: queue_ok_def shape_def list_all_iff is_running_def)
    then show ?thesis by (simp add: x)
  qed
  have oq: "ops_ok (operates ws (ar_out t)) (settles (ar_out t)) q'"
    unfolding ops_ok_def O'
  proof (intro conjI ballI)
    show "sorted_wrt (<) (operates ws (ar_out s))" using q(2) by (simp add: ops_ok_def)
    show "n \<in> set (settles (ar_out t)) \<or> (\<exists>e\<in>set q'. wm_serial e = n \<and> wm_stage e = WmOperating)"
      if "n \<in> set (operates ws (ar_out s))" for n
      using q(2) that head unfolding ops_ok_def S' by fastforce
    fix n e assume n: "n \<in> set (operates ws (ar_out s))" and e: "e \<in> set q'"
    obtain e0 where e0: "e0 \<in> set ?q" "wm_serial e0 = wm_serial e" using subs(1) e by fastforce
    have le: "n \<le> wm_serial e0" "n = wm_serial e0 \<Longrightarrow> wm_stage e0 = WmOperating"
      using q(2) n e0(1) by (auto simp: ops_ok_def)
    have "n \<noteq> wm_serial e"
    proof
      assume "n = wm_serial e"
      with e0 le have "wm_serial e \<in> set (take (Suc k) (map wm_serial ?q))" using head [OF e0(1)] by simp
      with disj e show False by auto
    qed
    with le e0 show "n \<le> wm_serial e" "n = wm_serial e \<longrightarrow> wm_stage e = WmOperating" by simp_all
  qed
  have ow: "ops_ok (operates w (ar_out t)) (settles (ar_out t)) (queue_of s w)" for w
    using all(2) [of w] unfolding ops_ok_def O' S' by auto
  show ?thesis
    unfolding arb_inv_def
  proof (intro conjI allI impI)
    fix w
    show "queue_ok w (ar_next t) (queue_of t w)" using qok all(1) fields(1,4) by simp
    show "ops_ok (operates w (ar_out t)) (settles (ar_out t)) (queue_of t w)" using oq ow fields(4) by simp
    show "set (settles (ar_out t)) \<inter> set (map wm_serial (queue_of t w)) = {}"
    proof (cases "w = ws")
      case True
      then have "queue_of t w = q'" by (simp add: fields(4))
      with disj q(3) subs(1) show ?thesis unfolding S' set_append by blast
    next
      case False
      have "set (take (Suc k) (map wm_serial ?q)) \<inter> set (map wm_serial (queue_of s w)) = {}"
        using cross [OF False] set_take_subset by fastforce
      with False all(3) [of w] show ?thesis unfolding S' by (auto simp: fields(4))
    qed
  next
    fix w w' :: jsstr assume ne: "w \<noteq> w'"
    have a: "set (map wm_invocation (queue_of t v)) \<subseteq> set (map wm_invocation (queue_of s v))"
      and b: "set (map wm_serial (queue_of t v)) \<subseteq> set (map wm_serial (queue_of s v))" for v
      using subs by (simp_all add: fields(4))
    show "set (map wm_invocation (queue_of t w)) \<inter> set (map wm_invocation (queue_of t w')) = {}"
      using cross [OF ne] a [of w] a [of w'] by blast
    show "set (map wm_serial (queue_of t w)) \<inter> set (map wm_serial (queue_of t w')) = {}"
      using cross [OF ne] b [of w] b [of w'] by blast
  next
    show "distinct (settles (ar_out t))"
    proof -
      have "distinct (map wm_serial ?q)" using sorted by (simp only: strict_sorted_iff)
      then have "distinct (take (Suc k) (map wm_serial ?q))" by (rule distinct_take)
      moreover have "set ?S \<inter> set (take (Suc k) (map wm_serial ?q)) = {}"
        using q(3) set_take_subset [of "Suc k" "map wm_serial ?q"] by blast
      ultimately show ?thesis unfolding S' distinct_append using q(4) by blast
    qed
    fix n
    have m: "set (map wm_serial (queue_of t w))
        = (if w = ws then set (map wm_serial q') else set (map wm_serial (queue_of s w)))" for w
      by (simp add: fields(4))
    have "(\<exists>w. n \<in> set (map wm_serial (queue_of s w)))
        \<longleftrightarrow> n \<in> set (take (Suc k) (map wm_serial ?q)) \<or> (\<exists>w. n \<in> set (map wm_serial (queue_of t w)))"
    proof
      assume "\<exists>w. n \<in> set (map wm_serial (queue_of s w))"
      then obtain w where w: "n \<in> set (map wm_serial (queue_of s w))" by blast
      show "n \<in> set (take (Suc k) (map wm_serial ?q)) \<or> (\<exists>w. n \<in> set (map wm_serial (queue_of t w)))"
      proof (cases "w = ws")
        case True
        with w parts m [of ws] show ?thesis by (metis Un_iff)
      next
        case False
        with w m [of w] show ?thesis by metis
      qed
    next
      assume "n \<in> set (take (Suc k) (map wm_serial ?q)) \<or> (\<exists>w. n \<in> set (map wm_serial (queue_of t w)))"
      with m parts show "\<exists>w. n \<in> set (map wm_serial (queue_of s w))" by (metis Un_iff)
    qed
    then show "n < ar_next t \<longleftrightarrow> n \<in> set (settles (ar_out t)) \<or> (\<exists>w. n \<in> set (map wm_serial (queue_of t w)))"
      unfolding S' fields(1) tot by auto
  qed (rule fields(3))
qed

lemma waiting_tail: "queue_ok ws nxt (e # rest) \<Longrightarrow> list_all (\<lambda>e. \<not> is_running e) rest"
  by (simp add: queue_ok_def shape_def)

lemma finish_head_inv:
  assumes inv: "arb_inv s" and q: "queue_of s ws = e # rest"
    and f: "finishHead (ar_closed s) aborted (wm_serial e) (queue_of s ws) = (q', out)"
  shows "arb_inv (put_queue ws q' ([Settle (wm_serial e) r, publish e ph None] @ out) s)"
proof -
  have w: "list_all (\<lambda>e. \<not> is_running e) rest"
    using inv q waiting_tail [of ws "ar_next s" e rest] by (metis arb_inv_def)
  from finishHead_spec [OF f [unfolded q] w] obtain k where
    k: "map id_of q' = drop (Suc k) (map id_of (queue_of s ws))"
      "wm_serial e # settles out = take (Suc k) (map wm_serial (queue_of s ws))"
      "shape q'" "\<forall>ws. operates ws out = []" "\<forall>e \<in> set q'. wm_stage e \<noteq> WmOperating"
    unfolding q by blast
  show ?thesis
    by (rule shrink_inv [OF inv k(1), where out = "[Settle (wm_serial e) r, publish e ph None] @ out"])
      (use k inv in \<open>simp_all add: put_queue_keys arb_inv_def\<close>)
qed

lemma fail_head_inv:
  assumes "arb_inv s" "queue_of s ws = e # rest"
  shows "arb_inv (fail_head aborted ws e r s)"
proof -
  obtain q' out where f: "finishHead (ar_closed s) aborted (wm_serial e) (queue_of s ws) = (q', out)"
    by (cases "finishHead (ar_closed s) aborted (wm_serial e) (queue_of s ws)")
  from finish_head_inv [OF assms f] f show ?thesis by (simp add: fail_head_def)
qed

lemma operate_inv:
  assumes inv: "arb_inv s" and q: "queue_of s ws = e # rest" and e: "wm_stage e = WmReading"
  shows "arb_inv (put_queue ws (e\<lparr>wm_stage := WmOperating\<rparr> # rest) [Operate ws (wm_serial e)] s)"
proof -
  let ?q' = "e\<lparr>wm_stage := WmOperating\<rparr> # rest"
  let ?t = "put_queue ws ?q' [Operate ws (wm_serial e)] s"
  from inv q have Q: "queue_ok ws (ar_next s) (e # rest)" "ops_ok (operates ws (ar_out s)) (settles (ar_out s)) (e # rest)"
    by (metis arb_inv_def)+
  have ser: "map wm_serial ?q' = map wm_serial (queue_of s ws)" "map wm_invocation ?q' = map wm_invocation (queue_of s ws)"
    using q by simp_all
  have "queue_ok ws (ar_next s) ?q'" using Q(1) by (simp add: queue_ok_def shape_def is_running_def)
  moreover have "ops_ok (operates ws (ar_out s) @ [wm_serial e]) (settles (ar_out s)) ?q'"
  proof -
    have le: "n < wm_serial e" if "n \<in> set (operates ws (ar_out s))" for n
      using Q(2) that e unfolding ops_ok_def by (metis le_neq_implies_less list.set_intros(1) wm_stage.distinct(5))
    have lt: "wm_serial e < wm_serial x" if "x \<in> set rest" for x
      using Q(1) that by (auto simp: queue_ok_def)
    have noop: "wm_stage x \<noteq> WmOperating" if "x \<in> set rest" for x
      using Q(1) that by (auto simp: queue_ok_def shape_def is_running_def list_all_iff)
    show ?thesis
      unfolding ops_ok_def
    proof (intro conjI ballI)
      show "sorted_wrt (<) (operates ws (ar_out s) @ [wm_serial e])"
        using Q(2) le by (auto simp: ops_ok_def sorted_wrt_append)
      fix n assume n: "n \<in> set (operates ws (ar_out s) @ [wm_serial e])"
      show "n \<in> set (settles (ar_out s)) \<or> (\<exists>x\<in>set ?q'. wm_serial x = n \<and> wm_stage x = WmOperating)"
      proof (cases "n = wm_serial e")
        case True
        then show ?thesis by simp
      next
        case False
        with n have "n \<in> set (operates ws (ar_out s))" by simp
        with Q(2) e noop show ?thesis unfolding ops_ok_def by fastforce
      qed
      fix x assume x: "x \<in> set ?q'"
      have "n < wm_serial x" if "x \<in> set rest"
        using n le lt [OF that] by (auto dest: less_trans)
      then show "n \<le> wm_serial x" "n = wm_serial x \<longrightarrow> wm_stage x = WmOperating"
        using x n le by fastforce+
    qed
  qed
  moreover have "ops_ok (operates w (ar_out s)) (settles (ar_out s)) (queue_of s w)" for w
    using inv by (simp add: arb_inv_def)
  moreover have "map wm_serial (queue_of ?t w) = map wm_serial (queue_of s w)"
    "map wm_invocation (queue_of ?t w) = map wm_invocation (queue_of s w)" for w
    using ser by (simp_all del: list.map)
  moreover have "distinct (map fst (ar_queues ?t))" using inv by (simp add: put_queue_keys arb_inv_def)
  ultimately show ?thesis
    using inv unfolding arb_inv_def by (simp del: list.map set_map)
qed

lemma not_found:
  assumes "\<not> find_invocation s i" "e \<in> set (queue_of s ws)"
  shows "wm_invocation e \<noteq> i"
proof -
  from assms(2) obtain q where "map_of (ar_queues s) ws = Some q" "e \<in> set q"
    by (cases "map_of (ar_queues s) ws") (auto simp: queue_of_def)
  then have "(ws, q) \<in> set (ar_queues s)" by (simp add: map_of_SomeD)
  with assms(1) \<open>e \<in> set q\<close> show ?thesis by (force simp: find_invocation_def list_ex_iff)
qed

lemma queue_of_next [simp]: "queue_of (s\<lparr>ar_next := n\<rparr>) ws = queue_of s ws"
  by (simp add: queue_of_def)

lemma extend_inv:
  assumes inv: "arb_inv s" and new: "\<not> find_invocation s (wm_invocation e)"
    and e: "wm_serial e = ar_next s" "wm_workspace e = ws" "wm_stage e \<noteq> WmOperating"
    and sh: "shape (queue_of s ws @ [e])" and out: "settles out = []" "\<forall>w. operates w out = []"
  shows "arb_inv (put_queue ws (queue_of s ws @ [e]) out (s\<lparr>ar_next := Suc (ar_next s)\<rparr>))"
proof -
  let ?q = "queue_of s ws" and ?t = "put_queue ws (queue_of s ws @ [e]) out (s\<lparr>ar_next := Suc (ar_next s)\<rparr>)"
  from inv have all: "\<And>w. queue_ok w (ar_next s) (queue_of s w)"
      "\<And>w. ops_ok (operates w (ar_out s)) (settles (ar_out s)) (queue_of s w)"
      "\<And>w. set (settles (ar_out s)) \<inter> set (map wm_serial (queue_of s w)) = {}"
    and cross: "\<And>w w'. w \<noteq> w' \<Longrightarrow> set (map wm_invocation (queue_of s w)) \<inter> set (map wm_invocation (queue_of s w')) = {}
          \<and> set (map wm_serial (queue_of s w)) \<inter> set (map wm_serial (queue_of s w')) = {}"
    and tot: "\<And>n. n < ar_next s \<longleftrightarrow> n \<in> set (settles (ar_out s)) \<or> (\<exists>w. n \<in> set (map wm_serial (queue_of s w)))"
    by (auto simp: arb_inv_def)
  have low: "wm_serial x < ar_next s" if "x \<in> set (queue_of s w)" for x w
    using all(1) [of w] that by (simp add: queue_ok_def)
  have ninv: "wm_invocation x \<noteq> wm_invocation e" if "x \<in> set (queue_of s w)" for x w
    by (rule not_found [OF new that])
  have settled_low: "n < ar_next s" if "n \<in> set (settles (ar_out s))" for n using tot that by blast
  have ops_low: "n < ar_next s" if "n \<in> set (operates w (ar_out s))" for n w
    using all(2) [of w] that settled_low low [of _ w] unfolding ops_ok_def by blast
  have q: "queue_of ?t w = (if w = ws then ?q @ [e] else queue_of s w)" for w by simp
  have qok: "queue_ok w (Suc (ar_next s)) (queue_of ?t w)" for w
  proof (cases "w = ws")
    case False
    with all(1) [of w] show ?thesis by (auto simp: queue_ok_def less_SucI)
  next
    case True
    have "wm_invocation e \<notin> wm_invocation ` set ?q" using ninv [of _ ws] by fastforce
    then have "sorted_wrt (<) (map wm_serial (?q @ [e]))" "distinct (map wm_invocation (?q @ [e]))"
      using all(1) [of ws] e(1) low [of _ ws]
      by (auto simp: queue_ok_def sorted_wrt_append simp del: strict_sorted_iff)
    moreover have "\<forall>x \<in> set (?q @ [e]). wm_workspace x = ws \<and> wm_serial x < Suc (ar_next s)"
      using all(1) [of ws] e by (auto simp: queue_ok_def less_SucI)
    ultimately show ?thesis using sh True by (simp add: queue_ok_def del: map_append)
  qed
  have sets: "set (map wm_serial (queue_of ?t w)) = (if w = ws then insert (ar_next s) (set (map wm_serial ?q))
      else set (map wm_serial (queue_of s w)))" for w using e by simp
  have seti: "set (map wm_invocation (queue_of ?t w)) = (if w = ws then insert (wm_invocation e) (set (map wm_invocation ?q))
      else set (map wm_invocation (queue_of s w)))" for w by simp
  have ook: "ops_ok (operates w (ar_out s)) (settles (ar_out s)) (queue_of ?t w)" for w
  proof (cases "w = ws")
    case False
    then show ?thesis using all(2) [of w] by simp
  next
    case True
    have "n \<le> wm_serial e \<and> n \<noteq> wm_serial e" if "n \<in> set (operates ws (ar_out s))" for n
      using ops_low [OF that] e(1) by simp
    then show ?thesis using all(2) [of ws] True unfolding ops_ok_def by auto
  qed
  show ?thesis
    unfolding arb_inv_def
  proof (intro conjI allI impI)
    show "distinct (map fst (ar_queues ?t))" using inv by (simp add: put_queue_keys arb_inv_def)
    show "distinct (settles (ar_out ?t))" using inv out by (simp add: arb_inv_def)
    show "queue_ok w (ar_next ?t) (queue_of ?t w)" for w using qok by simp
    show "ops_ok (operates w (ar_out ?t)) (settles (ar_out ?t)) (queue_of ?t w)" for w
      using ook out by simp
    have fresh: "ar_next s \<notin> set (settles (ar_out s))" using settled_low [of "ar_next s"] by blast
    have st: "settles (ar_out ?t) = settles (ar_out s)" using out(1) by simp
    show "set (settles (ar_out ?t)) \<inter> set (map wm_serial (queue_of ?t w)) = {}" for w
    proof (cases "w = ws")
      case True
      with all(3) [of ws] fresh show ?thesis unfolding sets st by simp
    next
      case False
      with all(3) [of w] show ?thesis unfolding sets st by simp
    qed
    show "n < ar_next ?t \<longleftrightarrow> n \<in> set (settles (ar_out ?t)) \<or> (\<exists>w. n \<in> set (map wm_serial (queue_of ?t w)))" for n
    proof -
      have "(\<exists>w. n \<in> set (map wm_serial (queue_of ?t w))) \<longleftrightarrow> n = ar_next s \<or> (\<exists>w. n \<in> set (map wm_serial (queue_of s w)))"
        unfolding sets by (auto split: if_splits)
      then show ?thesis using tot [of n] out(1) by (auto simp: less_Suc_eq)
    qed
    fix w w' :: jsstr assume ne: "w \<noteq> w'"
    have "wm_invocation e \<notin> set (map wm_invocation (queue_of s v))" for v using ninv [of _ v] by fastforce
    then show "set (map wm_invocation (queue_of ?t w)) \<inter> set (map wm_invocation (queue_of ?t w')) = {}"
      unfolding seti using cross [OF ne] ne by (cases "w = ws"; cases "w' = ws") simp_all
    have "ar_next s \<notin> set (map wm_serial (queue_of s v))" for v using low [of _ v] by fastforce
    then show "set (map wm_serial (queue_of ?t w)) \<inter> set (map wm_serial (queue_of ?t w')) = {}"
      unfolding sets using cross [OF ne] ne by (cases "w = ws"; cases "w' = ws") simp_all
  qed
qed

lemma cancelled_at_once_inv:
  assumes inv: "arb_inv s" and q: "queue_of s ws = []"
    and out: "settles out = [ar_next s]" "\<forall>w. operates w out = []"
  shows "arb_inv (put_queue ws [] out (s\<lparr>ar_next := Suc (ar_next s)\<rparr>))"
proof -
  let ?t = "put_queue ws [] out (s\<lparr>ar_next := Suc (ar_next s)\<rparr>)"
  have same: "queue_of ?t w = queue_of s w" for w using q by simp
  have low: "n < ar_next s" if "n \<in> set (settles (ar_out s)) \<or> n \<in> set (map wm_serial (queue_of s w))" for n w
    using inv that unfolding arb_inv_def by blast
  have ok: "queue_ok w (Suc (ar_next s)) (queue_of s w)" for w
    using inv by (auto simp: arb_inv_def queue_ok_def less_SucI)
  have ops: "ops_ok (operates w (ar_out s)) (settles (ar_out s) @ [ar_next s]) (queue_of s w)" for w
    using inv unfolding arb_inv_def ops_ok_def by auto
  show ?thesis
    unfolding arb_inv_def same
  proof (intro conjI allI impI)
    show "distinct (map fst (ar_queues ?t))" using inv by (simp add: put_queue_keys arb_inv_def)
    show "distinct (settles (ar_out ?t))"
    proof -
      have "ar_next s \<notin> set (settles (ar_out s))" using low [of "ar_next s"] by blast
      moreover have "distinct (settles (ar_out s))" using inv by (simp add: arb_inv_def)
      ultimately show ?thesis using out(1) by simp
    qed
    show "queue_ok w (ar_next ?t) (queue_of s w)" for w using ok by simp
    show "ops_ok (operates w (ar_out ?t)) (settles (ar_out ?t)) (queue_of s w)" for w using ops out by simp
    show "set (settles (ar_out ?t)) \<inter> set (map wm_serial (queue_of s w)) = {}" for w
    proof -
      have "ar_next s \<notin> set (map wm_serial (queue_of s w))" using low [of "ar_next s" w] by blast
      moreover have "set (settles (ar_out s)) \<inter> set (map wm_serial (queue_of s w)) = {}"
        using inv unfolding arb_inv_def by blast
      ultimately show ?thesis using out(1) by simp
    qed
    have tot: "n < ar_next s \<longleftrightarrow> n \<in> set (settles (ar_out s)) \<or> (\<exists>w. n \<in> set (map wm_serial (queue_of s w)))" for n
      using inv unfolding arb_inv_def by blast
    show "n < ar_next ?t \<longleftrightarrow> n \<in> set (settles (ar_out ?t)) \<or> (\<exists>w. n \<in> set (map wm_serial (queue_of s w)))" for n
      using tot [of n] out(1) by (auto simp: less_Suc_eq)
    fix w w' :: jsstr assume ne: "w \<noteq> w'"
    then show "set (map wm_invocation (queue_of s w)) \<inter> set (map wm_invocation (queue_of s w')) = {}"
      and "set (map wm_serial (queue_of s w)) \<inter> set (map wm_serial (queue_of s w')) = {}"
      using inv unfolding arb_inv_def by blast+
  qed
qed

lemma arb_inv_cong:
  assumes "arb_inv s" "ar_queues t = ar_queues s" "ar_next t = ar_next s" "ar_out t = ar_out s"
  shows "arb_inv t"
proof -
  have "queue_of t = queue_of s" using assms(2) by (simp add: fun_eq_iff queue_of_def)
  with assms show ?thesis by (simp add: arb_inv_def)
qed

lemma run_mutation_inv:
  assumes inv: "arb_inv s"
  shows "arb_inv (snd (run_mutation aborted wsp iv baseline own s))"
proof -
  let ?ws = "js_trim wsp" and ?i = "js_trim iv"
  let ?e = "\<lparr>wm_serial = ar_next s, wm_workspace = ?ws, wm_invocation = ?i,
      wm_baseline = baseline, wm_stage = WmWaiting\<rparr>"
  let ?q = "queue_of s ?ws"
  consider (refused) "snd (run_mutation aborted wsp iv baseline own s) = s"
    | (queued) "\<not> find_invocation s ?i" "?q \<noteq> []" "snd (run_mutation aborted wsp iv baseline own s)
        = put_queue ?ws (?q @ [?e]) (publishQueue (?q @ [?e])) (s\<lparr>ar_next := Suc (ar_next s)\<rparr>)"
    | (first) q' out where "\<not> find_invocation s ?i" "?q = []" "startHead False aborted [?e] = (q', out)"
        "snd (run_mutation aborted wsp iv baseline own s)
          = put_queue ?ws q' (publishQueue [?e] @ out) (s\<lparr>ar_next := Suc (ar_next s)\<rparr>)"
  proof -
    let ?bad = "ar_closed s \<or> ?ws = [] \<or> ?i = [] \<or> js_trim baseline = [] \<or> own
      \<or> List.member (ar_preparing s) ?i \<or> find_invocation s ?i"
    obtain q' out where h: "startHead False aborted [?e] = (q', out)" by (cases "startHead False aborted [?e]")
    show ?thesis
    proof (cases ?bad)
      case True
      then have "snd (run_mutation aborted wsp iv baseline own s) = s" unfolding run_mutation_def Let_def by auto
      then show ?thesis by (rule that(1))
    next
      case ok: False
      show ?thesis
      proof (cases "?q = []")
        case True
        show ?thesis by (rule that(3) [OF _ True h]) (use ok True h in \<open>simp_all add: run_mutation_def Let_def del: startHead.simps\<close>)
      next
        case False
        show ?thesis by (rule that(2) [OF _ False]) (use ok False in \<open>simp_all add: run_mutation_def Let_def del: startHead.simps\<close>)
      qed
    qed
  qed
  then show ?thesis
  proof cases
    case refused
    with inv show ?thesis by simp
  next
    case queued
    have "shape (?q @ [?e])"
      using inv queued(2) by (auto simp: arb_inv_def queue_ok_def shape_def is_running_def tl_append split: list.split)
    from extend_inv [OF inv _ _ _ _ this, where out = "publishQueue (?q @ [?e])"] queued show ?thesis by simp
  next
    case first
    show ?thesis
    proof (cases "aborted (ar_next s)")
      case True
      with first(3) have "q' = []" "settles out = [ar_next s]" "\<forall>w. operates w out = []"
        by (auto simp: is_running_def)
      with cancelled_at_once_inv [OF inv first(2), where out = "publishQueue [?e] @ out"] first(4)
      show ?thesis by simp
    next
      case False
      let ?r = "?e\<lparr>wm_stage := WmReading\<rparr>"
      from False first(3) have q': "q' = [?r]" "settles out = []" "\<forall>w. operates w out = []"
        by (auto simp: is_running_def)
      have "shape (?q @ [?r])" using first(2) by (simp add: shape_def is_running_def)
      from extend_inv [OF inv _ _ _ _ this, where out = "publishQueue [?e] @ out"] first q'
      show ?thesis by simp
    qed
  qed
qed

lemma map_of_map_pairs: "map_of (map (\<lambda>(k, v). (k, f v)) xs) k = map_option f (map_of xs k)"
  by (induction xs) auto

lemma queue_of_close: "\<not> ar_closed s \<Longrightarrow> queue_of (close_arbiter s) ws = filter is_running (queue_of s ws)"
  by (simp add: queue_of_def close_arbiter_def map_of_map_pairs split: option.split)

lemma settles_cancel: "settles (cancel_waiting q) = map wm_serial (filter (\<lambda>e. \<not> is_running e) q)"
  by (induction q) (auto simp: cancel_waiting_def)

lemma operates_cancel: "operates ws (cancel_waiting q) = []"
  by (induction q) (auto simp: cancel_waiting_def)

lemma distinct_concat_keys:
  assumes "distinct (map fst L)" "\<And>k v. (k, v) \<in> set L \<Longrightarrow> distinct (f v)"
    "\<And>k v k' v'. (k, v) \<in> set L \<Longrightarrow> (k', v') \<in> set L \<Longrightarrow> k \<noteq> k' \<Longrightarrow> set (f v) \<inter> set (f v') = {}"
  shows "distinct (concat (map (\<lambda>(k, v). f v) L))"
  using assms
proof (induction L)
  case (Cons x L)
  obtain k v where x: "x = (k, v)" by (cases x)
  have "set (f v) \<inter> set (f v') = {}" if "(k', v') \<in> set L" for k' v'
  proof (rule Cons.prems(3))
    show "(k, v) \<in> set (x # L)" "(k', v') \<in> set (x # L)" using x that by simp_all
    have "k' \<in> set (map fst L)" using that by force
    with Cons.prems(1) x show "k \<noteq> k'" by auto
  qed
  then have "set (f v) \<inter> set (concat (map (\<lambda>(k, v). f v) L)) = {}" by fastforce
  moreover have "distinct (concat (map (\<lambda>(k, v). f v) L))"
    using Cons.prems by (intro Cons.IH) (simp, meson list.set_intros(2), meson list.set_intros(2))
  ultimately show ?case using Cons.prems(2) [of k v] x by simp
qed simp

lemma close_inv:
  assumes inv: "arb_inv s"
  shows "arb_inv (close_arbiter s)"
proof (cases "ar_closed s")
  case True
  with inv show ?thesis by (simp add: close_arbiter_def)
next
  case False
  let ?t = "close_arbiter s" and ?S = "settles (ar_out s)"
  let ?w = "\<lambda>q. map wm_serial (filter (\<lambda>e. \<not> is_running e) q)"
  let ?W = "concat (map (\<lambda>(ws, q). ?w q) (ar_queues s))"
  have keys: "distinct (map fst (ar_queues s))" using inv by (simp add: arb_inv_def)
  from inv have all: "\<And>w. queue_ok w (ar_next s) (queue_of s w)"
      "\<And>w. ops_ok (operates w (ar_out s)) ?S (queue_of s w)"
      "\<And>w. set ?S \<inter> set (map wm_serial (queue_of s w)) = {}" "distinct ?S"
    and cross: "\<And>w w'. w \<noteq> w' \<Longrightarrow> set (map wm_invocation (queue_of s w)) \<inter> set (map wm_invocation (queue_of s w')) = {}
          \<and> set (map wm_serial (queue_of s w)) \<inter> set (map wm_serial (queue_of s w')) = {}"
    and tot: "\<And>n. n < ar_next s \<longleftrightarrow> n \<in> set ?S \<or> (\<exists>w. n \<in> set (map wm_serial (queue_of s w)))"
    by (auto simp: arb_inv_def)
  have out: "ar_out ?t = ar_out s @ concat (map (\<lambda>(ws, q). cancel_waiting q) (ar_queues s))"
    and nxt: "ar_next ?t = ar_next s" and keys': "distinct (map fst (ar_queues ?t))"
    using False keys by (auto simp: close_arbiter_def comp_def case_prod_beta)
  have "settles (concat (map (\<lambda>(ws, q). cancel_waiting q) L)) = concat (map (\<lambda>(ws, q). ?w q) L)" for L :: "(jsstr \<times> wm_entry list) list"
    by (induction L) (auto simp: settles_cancel)
  then have S': "settles (ar_out ?t) = ?S @ ?W" by (simp only: out out_simps)
  have "operates ws (concat (map (\<lambda>(ws, q). cancel_waiting q) L)) = []" for ws and L :: "(jsstr \<times> wm_entry list) list"
    by (induction L) (auto simp: operates_cancel)
  then have O': "operates ws (ar_out ?t) = operates ws (ar_out s)" for ws by (simp only: out out_simps append_Nil2)
  have Q': "queue_of ?t ws = filter is_running (queue_of s ws)" for ws by (rule queue_of_close [OF False])
  have pair: "q = queue_of s ws" if "(ws, q) \<in> set (ar_queues s)" for ws q
    using that keys by (simp add: queue_of_def)
  have mem: "queue_of s ws = [] \<or> (ws, queue_of s ws) \<in> set (ar_queues s)" for ws
    by (auto simp: queue_of_def split: option.split dest: map_of_SomeD)
  have W: "n \<in> set ?W \<longleftrightarrow> (\<exists>ws. n \<in> set (?w (queue_of s ws)))" for n
  proof
    assume "n \<in> set ?W"
    then obtain ws q where "(ws, q) \<in> set (ar_queues s)" "n \<in> set (?w q)" by auto
    with pair show "\<exists>ws. n \<in> set (?w (queue_of s ws))" by blast
  next
    assume "\<exists>ws. n \<in> set (?w (queue_of s ws))"
    then obtain ws where "n \<in> set (?w (queue_of s ws))" by blast
    with mem [of ws] show "n \<in> set ?W" by fastforce
  qed
  have sorted: "distinct (map wm_serial (queue_of s w))" for w
    using all(1) [of w] by (simp add: queue_ok_def strict_sorted_iff)
  have apart: "set (?w (queue_of s w)) \<inter> set (map wm_serial (filter is_running (queue_of s w'))) = {}" for w w'
  proof (cases "w = w'")
    case False
    then show ?thesis using cross [OF False] by fastforce
  next
    case True
    with sorted [of w] show ?thesis by (auto simp: distinct_map inj_on_def)
  qed
  have dW: "distinct ?W"
  proof (rule distinct_concat_keys [OF keys])
    fix ws q assume "(ws, q) \<in> set (ar_queues s)"
    then show "distinct (?w q)" using sorted [of ws] pair by (auto simp: distinct_map inj_on_def)
  next
    fix ws q ws' q' assume "(ws, q) \<in> set (ar_queues s)" "(ws', q') \<in> set (ar_queues s)" and ne: "ws \<noteq> ws'"
    then have "q = queue_of s ws" "q' = queue_of s ws'" using pair by auto
    with cross [OF ne] show "set (?w q) \<inter> set (?w q') = {}" by fastforce
  qed
  have SW: "set ?S \<inter> set ?W = {}"
  proof -
    have "n \<notin> set ?S" if "n \<in> set ?W" for n
    proof -
      from that obtain ws where "n \<in> set (?w (queue_of s ws))" using W by blast
      with all(3) [of ws] show ?thesis by auto
    qed
    then show ?thesis by blast
  qed
  show ?thesis
    unfolding arb_inv_def S' O' Q' nxt
  proof (intro conjI allI impI)
    show "distinct (map fst (ar_queues ?t))" by (rule keys')
    show "distinct (?S @ ?W)" using all(4) dW SW by simp
    show "queue_ok w (ar_next s) (filter is_running (queue_of s w))" for w
    proof -
      have "shape (filter is_running (queue_of s w))"
        using all(1) [of w] by (cases "queue_of s w") (auto simp: queue_ok_def shape_def list_all_iff filter_empty_conv)
      moreover have "sorted_wrt (<) (map wm_serial (filter is_running (queue_of s w)))"
        using all(1) [of w] by (simp add: queue_ok_def sorted_wrt_map sorted_wrt_filter del: strict_sorted_iff)
      moreover have "distinct (map wm_invocation (filter is_running (queue_of s w)))"
        using all(1) [of w] by (simp add: queue_ok_def distinct_map_filter)
      ultimately show ?thesis using all(1) [of w] by (simp add: queue_ok_def)
    qed
    show "ops_ok (operates w (ar_out s)) (?S @ ?W) (filter is_running (queue_of s w))" for w
      using all(2) [of w] unfolding ops_ok_def by (fastforce simp: is_running_def)
    show "set (?S @ ?W) \<inter> set (map wm_serial (filter is_running (queue_of s w))) = {}" for w
    proof -
      have "n \<notin> set (map wm_serial (filter is_running (queue_of s w)))" if "n \<in> set ?W" for n
        using that W apart by blast
      moreover have "n \<notin> set (map wm_serial (filter is_running (queue_of s w)))" if "n \<in> set ?S" for n
        using that all(3) [of w] by auto
      ultimately show ?thesis unfolding set_append by blast
    qed
    show "n < ar_next s \<longleftrightarrow> n \<in> set (?S @ ?W) \<or> (\<exists>w. n \<in> set (map wm_serial (filter is_running (queue_of s w))))" for n
    proof -
      have "n \<in> set (map wm_serial q) \<longleftrightarrow> n \<in> set (?w q) \<or> n \<in> set (map wm_serial (filter is_running q))" for q
        by auto
      then show ?thesis unfolding tot set_append using W by blast
    qed
    fix w w' :: jsstr assume ne: "w \<noteq> w'"
    show "set (map wm_invocation (filter is_running (queue_of s w)))
        \<inter> set (map wm_invocation (filter is_running (queue_of s w'))) = {}"
      and "set (map wm_serial (filter is_running (queue_of s w)))
        \<inter> set (map wm_serial (filter is_running (queue_of s w'))) = {}"
      using cross [OF ne] by fastforce+
  qed
qed

lemma arbiter_step_inv:
  assumes inv: "arb_inv s"
  shows "arb_inv (arbiter_step x s)"
proof (cases x)
  case (ArRun ab ws i b own)
  then show ?thesis using run_mutation_inv [OF inv] by simp
next
  case (ArBegin ws i)
  then show ?thesis using inv by (auto simp: begin_mutation_def Let_def intro: arb_inv_cong)
next
  case (ArPrepared ab t b own)
  have r: "arb_inv (snd (run_mutation ab w i b own (remove_preparing j s)))" for w i j
    by (rule run_mutation_inv) (rule arb_inv_cong [OF inv]; simp add: remove_preparing_def)
  have "arb_inv (prepared_mutation ab t b own s)"
  proof (cases "map_of (ar_tickets s) t")
    case None
    with inv show ?thesis by (simp add: prepared_mutation_def)
  next
    case (Some tk)
    obtain res s' where m: "run_mutation ab (tk_workspace tk) (tk_invocation tk) b own
        (remove_preparing (tk_invocation tk) s) = (res, s')" by fastforce
    with r [of "tk_workspace tk" "tk_invocation tk" "tk_invocation tk"] have "arb_inv s'" by simp
    then have "arb_inv (s'\<lparr>ar_tickets := ts\<rparr>)" for ts by (rule arb_inv_cong) simp_all
    then show ?thesis using Some m inv by (auto simp: prepared_mutation_def split: run_result.split)
  qed
  then show ?thesis using ArPrepared by simp
next
  case (ArFinally t)
  then show ?thesis using inv
    by (auto simp: finally_mutation_def remove_preparing_def split: option.split intro: arb_inv_cong)
next
  case (ArRevision ab ws res)
  then show ?thesis using inv
    by (auto simp: revision_read_def fail_head_inv operate_inv split: list.split option.split)
next
  case (ArOperation ab ws res)
  have "arb_inv (operation_done ab ws res s)"
  proof (cases "queue_of s ws")
    case Nil
    with inv show ?thesis by (simp add: operation_done_def)
  next
    case (Cons e rest)
    obtain q' out where f: "finishHead (ar_closed s) ab (wm_serial e) (queue_of s ws) = (q', out)"
      by (cases "finishHead (ar_closed s) ab (wm_serial e) (queue_of s ws)")
    from finish_head_inv [OF inv Cons f, of WmResolved PhCompleted] f Cons show ?thesis
      using inv fail_head_inv [OF inv Cons] by (auto simp: operation_done_def split: option.split)
  qed
  then show ?thesis using ArOperation by simp
next
  case ArClose
  then show ?thesis using close_inv [OF inv] by simp
qed

lemma new_arbiter_inv: "arb_inv new_arbiter"
  by (simp add: arb_inv_def new_arbiter_def queue_of_def queue_ok_def ops_ok_def shape_def)

subsection \<open>What becomes visible only grows\<close>

text \<open>An operation is called in a step of its own, when every earlier one of the workspace is settled.\<close>

definition quiet :: "wm_out list \<Rightarrow> bool" where
  "quiet out \<longleftrightarrow> list_all (\<lambda>x. case x of Operate w n \<Rightarrow> False | _ \<Rightarrow> True) out"

definition exclusive :: "wm_out list \<Rightarrow> bool" where
  "exclusive out \<longleftrightarrow> (\<forall>a w n b. out = a @ Operate w n # b \<longrightarrow> set (operates w a) \<subseteq> set (settles a))"

lemma quiet_simps [simp]:
  "quiet []" "quiet (a @ b) \<longleftrightarrow> quiet a \<and> quiet b" "quiet (Settle n r # a) \<longleftrightarrow> quiet a"
  "quiet (publish e ph pos # a) \<longleftrightarrow> quiet a" "\<not> quiet (Operate w n # a)"
  by (simp_all add: quiet_def publish_def)

lemma quiet_concat: "(\<And>x. x \<in> set xs \<Longrightarrow> quiet x) \<Longrightarrow> quiet (concat xs)"
  by (induction xs) auto

lemma quiet_publishQueue [simp]: "quiet (publishQueue q)"
  by (auto simp: publishQueue_def intro!: quiet_concat)

lemma quiet_startHead: "startHead closed aborted q = (q', out) \<Longrightarrow> quiet out"
  by (induction q arbitrary: q' out) (auto split: if_splits prod.splits)

lemma quiet_finishHead: "finishHead closed aborted n q = (q', out) \<Longrightarrow> quiet out"
  by (auto simp: finishHead_def quiet_startHead split: list.splits if_splits prod.splits)

lemma exclusiveD: "exclusive (a @ Operate w n # b) \<Longrightarrow> set (operates w a) \<subseteq> set (settles a)"
  unfolding exclusive_def by blast

lemma split_in_prefix:
  assumes "a @ b = c @ x # d" "x \<notin> set b"
  obtains d' where "a = c @ x # d'"
proof -
  from assms(1) obtain us where "a = c @ us \<and> us @ b = x # d \<or> a @ us = c \<and> b = us @ x # d"
    unfolding append_eq_append_conv2 by blast
  with assms(2) that show thesis by (auto simp: append_eq_Cons_conv)
qed

lemma exclusive_quiet:
  assumes "exclusive a" "quiet b"
  shows "exclusive (a @ b)"
  unfolding exclusive_def
proof (intro allI impI)
  fix c w n d assume s: "a @ b = c @ Operate w n # d"
  have "Operate w n \<notin> set b" using assms(2) by (auto simp: quiet_def list_all_iff)
  with s obtain d' where "a = c @ Operate w n # d'" by (rule split_in_prefix)
  with assms(1) show "set (operates w c) \<subseteq> set (settles c)" using exclusiveD by blast
qed

lemma exclusive_operate:
  assumes "exclusive a" "set (operates w a) \<subseteq> set (settles a)"
  shows "exclusive (a @ [Operate w n])"
  unfolding exclusive_def
proof (intro allI impI)
  fix c v m d assume s: "a @ [Operate w n] = c @ Operate v m # d"
  show "set (operates v c) \<subseteq> set (settles c)"
  proof (cases d rule: rev_cases)
    case Nil
    with s assms(2) show ?thesis by simp
  next
    case (snoc d' z)
    with s have "a = c @ Operate v m # d'" by simp
    with assms(1) show ?thesis using exclusiveD by blast
  qed
qed

lemma run_mutation_out: "\<exists>out. ar_out (snd (run_mutation ab w i b own s)) = ar_out s @ out \<and> quiet out"
proof (cases "startHead False ab [\<lparr>wm_serial = ar_next s, wm_workspace = js_trim w,
    wm_invocation = js_trim i, wm_baseline = b, wm_stage = WmWaiting\<rparr>]")
  case (Pair q out)
  then show ?thesis using quiet_startHead [OF Pair]
    by (auto simp: run_mutation_def Let_def simp del: startHead.simps)
qed

lemma fail_head_out: "\<exists>out. ar_out (fail_head ab ws e r s) = ar_out s @ out \<and> quiet out"
  by (auto simp: fail_head_def quiet_finishHead split: prod.split)

lemma fail_head_quiet: "\<exists>out. ar_out (fail_head ab ws e r s) = ar_out s @ out \<and> (quiet out \<or> P out)"
  using fail_head_out [of ab ws e r s] by blast

lemma step_out:
  assumes inv: "arb_inv s"
  shows "\<exists>out. ar_out (arbiter_step x s) = ar_out s @ out
    \<and> (quiet out \<or> (\<exists>ws n. out = [Operate ws n] \<and> set (operates ws (ar_out s)) \<subseteq> set (settles (ar_out s))))"
proof (cases x)
  case (ArRun ab ws i b own)
  then show ?thesis using run_mutation_out [of ab ws i b own s] by auto
next
  case (ArBegin ws i)
  then show ?thesis by (auto simp: begin_mutation_def Let_def)
next
  case (ArPrepared ab t b own)
  show ?thesis
  proof (cases "map_of (ar_tickets s) t")
    case None
    then show ?thesis using ArPrepared by (simp add: prepared_mutation_def)
  next
    case (Some tk)
    obtain res s' where m: "run_mutation ab (tk_workspace tk) (tk_invocation tk) b own
        (remove_preparing (tk_invocation tk) s) = (res, s')" by fastforce
    with run_mutation_out [of ab "tk_workspace tk" "tk_invocation tk" b own "remove_preparing (tk_invocation tk) s"]
    obtain out where "ar_out s' = ar_out s @ out" "quiet out" by (auto simp: remove_preparing_def)
    then show ?thesis using Some m ArPrepared by (auto simp: prepared_mutation_def split: run_result.split)
  qed
next
  case (ArFinally t)
  then show ?thesis by (auto simp: finally_mutation_def remove_preparing_def split: option.split)
next
  case (ArRevision ab ws res)
  show ?thesis
  proof (cases "queue_of s ws")
    case Nil
    then show ?thesis using ArRevision by (simp add: revision_read_def)
  next
    case (Cons e rest)
    have all: "set (operates ws (ar_out s)) \<subseteq> set (settles (ar_out s))" if "wm_stage e = WmReading"
    proof -
      have "queue_ok ws (ar_next s) (e # rest)" "ops_ok (operates ws (ar_out s)) (settles (ar_out s)) (e # rest)"
        using inv Cons by (metis arb_inv_def)+
      then show ?thesis using that
        by (fastforce simp: queue_ok_def ops_ok_def shape_def is_running_def list_all_iff)
    qed
    show ?thesis using ArRevision Cons all by (auto simp: revision_read_def fail_head_quiet split: option.split)
  qed
next
  case (ArOperation ab ws res)
  show ?thesis
    using ArOperation
    by (auto simp: operation_done_def quiet_finishHead fail_head_quiet split: list.split option.split prod.split)
next
  case ArClose
  have "quiet (cancel_waiting q)" for q by (auto simp: cancel_waiting_def intro!: quiet_concat)
  then show ?thesis using ArClose by (auto simp: close_arbiter_def intro!: quiet_concat)
qed

lemma step_exclusive:
  assumes "arb_inv s" "exclusive (ar_out s)"
  shows "exclusive (ar_out (arbiter_step x s))"
  using step_out [OF assms(1), of x] assms(2) exclusive_quiet exclusive_operate by fastforce

interpretation workspace_arbiter: component arbiter_step "\<lambda>s. arb_inv s \<and> exclusive (ar_out s)"
  by unfold_locales (simp add: arbiter_step_inv step_exclusive)

interpretation workspace_arbiter_inv: component arbiter_step arb_inv
  by unfold_locales (rule arbiter_step_inv)

lemma arbiter_run_inv:
  "arb_inv (run arbiter_step ops new_arbiter)" "exclusive (ar_out (run arbiter_step ops new_arbiter))"
proof -
  have "arb_inv new_arbiter \<and> exclusive (ar_out new_arbiter)"
    by (simp add: new_arbiter_inv) (simp add: new_arbiter_def exclusive_def)
  then show "arb_inv (run arbiter_step ops new_arbiter)" "exclusive (ar_out (run arbiter_step ops new_arbiter))"
    using workspace_arbiter.run_inv [of new_arbiter ops] by simp_all
qed

subsection \<open>Every mutation settles\<close>

text \<open>
  One round answers what the head of a workspace's queue awaits: its revision read, then its
  operation, each with a value or an error. A round whose head awaits only the operation
  ignores the first answer.
\<close>

definition head_round ::
  "jsstr \<Rightarrow> (nat \<Rightarrow> bool) \<times> jsstr option \<times> wm_reason option \<Rightarrow> arbiter_op list" where
  "head_round ws r = (case r of (ab, rd, res) \<Rightarrow> [ArRevision ab ws rd, ArOperation ab ws res])"

definition head_rounds ::
  "jsstr \<Rightarrow> ((nat \<Rightarrow> bool) \<times> jsstr option \<times> wm_reason option) list \<Rightarrow> arbiter_op list" where
  "head_rounds ws rs = concat (map (head_round ws) rs)"

lemma finishHead_shorter:
  assumes "arb_inv s" "queue_of s ws = e # rest"
    "finishHead closed ab (wm_serial e) (e # rest) = (q', out)"
  shows "length q' \<le> length rest"
proof -
  have w: "list_all (\<lambda>e. \<not> is_running e) rest"
    using assms(1,2) waiting_tail [of ws "ar_next s" e rest] by (metis arb_inv_def)
  from finishHead_spec [OF assms(3) w] obtain k where "map id_of q' = drop (Suc k) (map id_of (e # rest))" by blast
  then have "length q' = length (e # rest) - Suc k" by (metis length_drop length_map)
  then show ?thesis by simp
qed

lemma fail_head_shorter:
  assumes "arb_inv s" "queue_of s ws = e # rest"
  shows "length (queue_of (fail_head ab ws e r s) ws) \<le> length rest"
  using finishHead_shorter [OF assms] assms(2) by (auto simp: fail_head_def split: prod.split)

lemma revision_read_cases:
  assumes "arb_inv s" "queue_of s ws = e # rest"
  shows "length (queue_of (revision_read ab ws rd s) ws) \<le> length rest
    \<or> (\<exists>e'. queue_of (revision_read ab ws rd s) ws = e' # rest \<and> wm_stage e' = WmOperating)"
proof -
  have "is_running e" using assms by (metis arb_inv_def queue_ok_def shape_def list.sel(1) list.distinct(1))
  then have "wm_stage e = WmReading \<or> wm_stage e = WmOperating"
    by (cases "wm_stage e") (simp_all add: is_running_def)
  then show ?thesis using assms fail_head_shorter [OF assms]
    by (auto simp: revision_read_def split: option.split)
qed

lemma operation_done_shorter:
  assumes "arb_inv s" "queue_of s ws = e # rest"
  shows "length (queue_of (operation_done ab ws res s) ws) \<le> Suc (length rest)"
    "wm_stage e = WmOperating \<Longrightarrow> length (queue_of (operation_done ab ws res s) ws) \<le> length rest"
  using finishHead_shorter [OF assms] fail_head_shorter [OF assms] assms(2)
  by (auto simp: operation_done_def le_SucI split: option.split prod.split)

lemma operation_done_no_longer:
  assumes "arb_inv s"
  shows "length (queue_of (operation_done ab ws res s) ws) \<le> length (queue_of s ws)"
proof (cases "queue_of s ws")
  case Nil
  then show ?thesis by (simp add: operation_done_def)
next
  case (Cons e rest)
  with operation_done_shorter(1) [OF assms Cons] show ?thesis by simp
qed

lemma head_round_shorter:
  assumes inv: "arb_inv s"
  shows "length (queue_of (run arbiter_step (head_round ws r) s) ws) \<le> length (queue_of s ws) - 1"
proof -
  obtain ab rd res where r: "r = (ab, rd, res)" by (cases r)
  let ?t = "revision_read ab ws rd s"
  have t: "arb_inv ?t" using arbiter_step_inv [OF inv, of "ArRevision ab ws rd"] by simp
  show ?thesis
  proof (cases "queue_of s ws")
    case Nil
    then have "?t = s" by (simp add: revision_read_def)
    with Nil show ?thesis by (simp add: r head_round_def operation_done_def)
  next
    case (Cons e rest)
    from revision_read_cases [OF inv Cons, of ab rd] show ?thesis
    proof
      assume "length (queue_of ?t ws) \<le> length rest"
      with operation_done_no_longer [OF t, of ab ws res] Cons show ?thesis by (simp add: r head_round_def)
    next
      assume "\<exists>e'. queue_of ?t ws = e' # rest \<and> wm_stage e' = WmOperating"
      then obtain e' where "queue_of ?t ws = e' # rest" "wm_stage e' = WmOperating" by blast
      with operation_done_shorter(2) [OF t this, of ab res] Cons show ?thesis by (simp add: r head_round_def)
    qed
  qed
qed

lemma head_rounds_drain:
  "arb_inv s \<Longrightarrow> length (queue_of s ws) \<le> length rs \<Longrightarrow> queue_of (run arbiter_step (head_rounds ws rs) s) ws = []"
proof (induction rs arbitrary: s)
  case Nil
  then show ?case by (simp add: head_rounds_def)
next
  case (Cons r rs)
  let ?t = "run arbiter_step (head_round ws r) s"
  have "arb_inv ?t" by (rule workspace_arbiter_inv.run_inv [OF Cons.prems(1)])
  moreover have "length (queue_of ?t ws) \<le> length rs"
    using head_round_shorter [OF Cons.prems(1), of ws r] Cons.prems(2) by simp
  ultimately show ?case using Cons.IH [of ?t] by (simp add: head_rounds_def)
qed

definition elsewhere_same :: "jsstr \<Rightarrow> arbiter \<Rightarrow> arbiter \<Rightarrow> bool" where
  "elsewhere_same ws s t \<longleftrightarrow> ar_next t = ar_next s \<and> (\<forall>w. w \<noteq> ws \<longrightarrow> queue_of t w = queue_of s w)"

lemma head_steps_elsewhere:
  "elsewhere_same ws s (revision_read ab ws rd s)" "elsewhere_same ws s (operation_done ab ws res s)"
  by (auto simp: elsewhere_same_def revision_read_def operation_done_def fail_head_def
      split: list.split option.split prod.split)

lemma head_rounds_elsewhere: "elsewhere_same ws s (run arbiter_step (head_rounds ws rs) s)"
proof (induction rs arbitrary: s)
  case Nil
  then show ?case by (simp add: head_rounds_def elsewhere_same_def)
next
  case (Cons r rs)
  obtain ab rd res where r: "r = (ab, rd, res)" by (cases r)
  let ?t = "operation_done ab ws res (revision_read ab ws rd s)"
  have "elsewhere_same ws s ?t"
    using head_steps_elsewhere(1) [of ws s ab rd] head_steps_elsewhere(2) [of ws "revision_read ab ws rd s" ab res]
    by (simp add: elsewhere_same_def)
  with Cons.IH [of ?t] show ?case by (simp add: head_rounds_def head_round_def r elsewhere_same_def)
qed

lemma drained_settles:
  assumes inv: "arb_inv s" and len: "length (queue_of s ws) \<le> length rs"
  shows "set (map wm_serial (queue_of s ws)) \<subseteq> set (settles (ar_out (run arbiter_step (head_rounds ws rs) s)))"
proof
  let ?t = "run arbiter_step (head_rounds ws rs) s"
  fix n assume n: "n \<in> set (map wm_serial (queue_of s ws))"
  have t: "arb_inv ?t" using workspace_arbiter_inv.run_inv [OF inv] .
  have e: "ar_next ?t = ar_next s" "\<And>w. w \<noteq> ws \<Longrightarrow> queue_of ?t w = queue_of s w"
    using head_rounds_elsewhere [of ws s rs] by (simp_all add: elsewhere_same_def)
  have "n < ar_next ?t" using inv n e(1) unfolding arb_inv_def by auto
  then have "n \<in> set (settles (ar_out ?t)) \<or> (\<exists>w. n \<in> set (map wm_serial (queue_of ?t w)))"
    using t unfolding arb_inv_def by blast
  moreover have "n \<notin> set (map wm_serial (queue_of ?t w))" for w
  proof (cases "w = ws")
    case True
    with head_rounds_drain [OF inv len] show ?thesis by simp
  next
    case False
    then have "set (map wm_serial (queue_of s w)) \<inter> set (map wm_serial (queue_of s ws)) = {}"
      using inv unfolding arb_inv_def by blast
    with n e(2) [OF False] show ?thesis by auto
  qed
  ultimately show "n \<in> set (settles (ar_out ?t))" by blast
qed

subsection \<open>The properties\<close>

text \<open>C32: In every run of the arbiter (mutations admitted with or without their preparation,
  revision reads and operations returning or failing, cancellations, closing, in any order) the
  operations of one workspace are called in the order of their admission, each at most once,
  and one is called only when the promises of all called before it are settled.\<close>

theorem mutations_exclusive_fifo:
  "let out = ar_out (run arbiter_step ops new_arbiter) in
     sorted_wrt (<) (operates ws out)
     \<and> (\<forall>a n b. out = a @ Operate ws n # b \<longrightarrow> set (operates ws a) \<subseteq> set (settles a))"
proof -
  let ?s = "run arbiter_step ops new_arbiter"
  have "sorted_wrt (<) (operates ws (ar_out ?s))"
    using arbiter_run_inv(1) [of ops] unfolding arb_inv_def ops_ok_def by blast
  moreover have "exclusive (ar_out ?s)" by (rule arbiter_run_inv(2))
  ultimately show ?thesis unfolding exclusive_def Let_def by blast
qed

definition sample_run :: "arbiter_op list" where
  "sample_run = (let no = (\<lambda>n. False); w = js ''w'' in
     [ArRun no w (js ''a'') (js ''1'') False, ArRun no w (js ''b'') (js ''1'') False,
      ArRevision no w (Some (js ''1'')), ArOperation no w None, ArRevision no w (Some (js ''1''))])"

lemma mutations_exclusive_fifo_witness:
  "\<exists>a b. ar_out (run arbiter_step sample_run new_arbiter) = a @ Operate (js ''w'') 1 # b \<and> set (settles a) = {0}"
proof -
  let ?out = "ar_out (run arbiter_step sample_run new_arbiter)"
  have o: "?out = take 8 ?out @ Operate (js ''w'') 1 # drop 9 ?out" by code_simp
  have "operates (js ''w'') (take 8 ?out) = [0]" by code_simp
  with mutations_exclusive_fifo [of sample_run "js ''w''"] o
  have "0 \<in> set (settles (take 8 ?out))" unfolding Let_def by (metis list.set_intros(1) subsetD)
  moreover have "settles (take 8 ?out) = [0]" by code_simp
  ultimately show ?thesis using o by (metis list.set(1) list.simps(15))
qed

text \<open>C33: Every mutation the arbiter admits is settled exactly once. None is settled twice in any
  run, an admitted one is settled or still queued and never both, and as soon as the head of a
  workspace's queue has been answered as often as the queue is long - by values or errors, with
  signals aborted or not, the arbiter open or closed - all its mutations are settled and the
  queue is empty.\<close>

theorem mutations_settle_once:
  assumes "s = run arbiter_step ops new_arbiter" "length (queue_of s ws) \<le> length rs"
    and "t = run arbiter_step (head_rounds ws rs) s"
  shows "distinct (settles (ar_out s)) \<and> distinct (settles (ar_out t)) \<and> queue_of t ws = []
    \<and> (n < ar_next s \<longleftrightarrow> n \<in> set (settles (ar_out s)) \<or> (\<exists>w. n \<in> set (map wm_serial (queue_of s w))))
    \<and> set (settles (ar_out s)) \<inter> set (map wm_serial (queue_of s ws)) = {}
    \<and> set (map wm_serial (queue_of s ws)) \<subseteq> set (settles (ar_out t))"
proof -
  have s: "arb_inv s" using arbiter_run_inv(1) [of ops] assms(1) by simp
  have t: "arb_inv t" using workspace_arbiter_inv.run_inv [OF s] assms(3) by simp
  have "distinct (settles (ar_out s))" "distinct (settles (ar_out t))" using s t by (simp_all add: arb_inv_def)
  moreover have "queue_of t ws = []" "set (map wm_serial (queue_of s ws)) \<subseteq> set (settles (ar_out t))"
    using head_rounds_drain [OF s assms(2)] drained_settles [OF s assms(2)] by (simp_all only: assms(3))
  moreover have "n < ar_next s \<longleftrightarrow> n \<in> set (settles (ar_out s)) \<or> (\<exists>w. n \<in> set (map wm_serial (queue_of s w)))"
    "set (settles (ar_out s)) \<inter> set (map wm_serial (queue_of s ws)) = {}"
    using s unfolding arb_inv_def by blast+
  ultimately show ?thesis by blast
qed

lemma mutations_settle_once_witness:
  "queue_of (run arbiter_step (head_rounds (js ''w'') [((\<lambda>n. True), None, None), ((\<lambda>n. True), None, None)])
     (run arbiter_step (take 2 sample_run) new_arbiter)) (js ''w'') = []"
proof -
  have "length (queue_of (run arbiter_step (take 2 sample_run) new_arbiter) (js ''w'')) = 2" by code_simp
  then show ?thesis
    using mutations_settle_once [OF refl _ refl, of "take 2 sample_run" "js ''w''"
        "[((\<lambda>n. True), None, None), ((\<lambda>n. True), None, None)]"] by simp
qed

end
