(* ===== verification/TurnCommit.thy ===== *)
theory TurnCommit
  imports StoreRecovery MessageFingerprint
begin

section \<open>The commit of a turn\<close>

text \<open>
  Models \<open>src/src/runtime/turn-commit.ts\<close>: the receipt that makes the outcome of a turn durable
  (history, TaskContext, Goal, compact pointer, stop decision, receipts), the receipt of a plan inside
  it, and the journal that appends it to the Thread. Receipts read back from the log are untyped
  JSON values; reading a property of the wrong type throws (\<open>CommitTypeError\<close>).
\<close>

subsection \<open>Data\<close>

datatype commit_terminal = CommitCompleted "jsstr option" | CommitFailed jsstr | CommitInterrupted "jsstr option"

record plan_commit_input =
  pi_plan :: jsstr
  pi_returnMode :: jsstr
  pi_promptReceiptDigest :: jsstr

text \<open>\<open>ci_taskContextRevision\<close> and \<open>ci_createdAt\<close> are integers; the others are as in the source.\<close>

record commit_input =
  ci_commitId :: "jsstr option"
  ci_turnId :: jsstr
  ci_history :: "message list"
  ci_taskContextState :: jsval
  ci_taskContextRevision :: int
  ci_terminal :: commit_terminal
  ci_goalState :: "jsval option"
  ci_compactPointer :: "jsval option"
  ci_stopDecision :: "jsval option"
  ci_plan :: "plan_commit_input option"
  ci_createdAt :: "int option"

text \<open>What the journal adds to the input.\<close>

record commit_facts =
  cf_commitId :: jsstr
  cf_threadId :: jsstr
  cf_sourceCursor :: int
  cf_stepSnapshotDigests :: "jsstr list"
  cf_capabilityReceiptDigests :: "jsstr list"
  cf_toolReceiptDigests :: "jsstr list"
  cf_createdAt :: int

datatype commit_error =
    CommitInvalid | CommitConflict | CommitOpenItem
  | CommitTypeError
  | CommitGroups group_error
  | CommitReplay replay_error
  | CommitAppend append_error

subsection \<open>JSON values of the inputs\<close>

definition tool_call_value :: "tool_call \<Rightarrow> jsval" where
  "tool_call_value c = JObj (prop_str ''id'' (tc_id c) @ prop_str ''type'' (js ''function'') @
     [(js ''function'', JObj (prop_str ''name'' (tc_name c) @ prop_str ''arguments'' (tc_arguments c)))])"

definition message_value :: "message \<Rightarrow> jsval" where
  "message_value m = JObj (prop_str ''role'' (role_text (ms_role m)) @ prop_str ''content'' (ms_content m)
     @ (case ms_toolCalls m of None \<Rightarrow> [] | Some cs \<Rightarrow> [(js ''tool_calls'', JArr (map tool_call_value cs))])
     @ opt_str ''tool_call_id'' (ms_toolCallId m)
     @ (case ms_cacheControl m of None \<Rightarrow> [] | Some v \<Rightarrow> [(js ''cacheControl'', v)]))"

definition history_value :: "message list \<Rightarrow> jsval" where
  "history_value ms = JArr (map message_value ms)"

definition prop_strs :: "string \<Rightarrow> jsstr list \<Rightarrow> (jsstr \<times> jsval) list" where
  "prop_strs k xs = [(js k, JArr (map JStr xs))]"

subsection \<open>Checks that throw\<close>

text \<open>\<open>a || b || ...\<close> from left to right, where an operand may throw.\<close>

fun any_true :: "('e + bool) list \<Rightarrow> 'e + bool" where
  "any_true [] = Inr False"
| "any_true (Inl e # xs) = Inl e"
| "any_true (Inr b # xs) = (if b then Inr True else any_true xs)"

text \<open>\<open>!v.trim()\<close>, \<open>v.length === 0\<close> and \<open>v.some(x => !x.trim())\<close>.\<close>

fun blank :: "jsval \<Rightarrow> commit_error + bool" where
  "blank (JStr s) = Inr (js_trim s = [])"
| "blank v = Inl CommitTypeError"

fun length_zero :: "jsval \<Rightarrow> commit_error + bool" where
  "length_zero (JArr xs) = Inr (xs = [])"
| "length_zero (JStr s) = Inr (s = [])"
| "length_zero JUndefined = Inl CommitTypeError"
| "length_zero JNull = Inl CommitTypeError"
| "length_zero v = Inr (get_prop v (js ''length'') = jint 0)"

fun some_blank :: "jsval \<Rightarrow> commit_error + bool" where
  "some_blank (JArr xs) = any_true (map blank xs)"
| "some_blank v = Inl CommitTypeError"

fun finite_number :: "jsval \<Rightarrow> bool" where
  "finite_number (JNum (Fin q)) = True"
| "finite_number v = False"

fun number_below_zero :: "jsval \<Rightarrow> bool" where
  "number_below_zero (JNum (Fin q)) = (q < 0)"
| "number_below_zero (JNum NegInf) = True"
| "number_below_zero v = False"

text \<open>The coercion of \<open>JSON.parse\<close>'s argument, and \<open>!v\<close>.\<close>

fun text_of :: "js_env \<Rightarrow> jsval \<Rightarrow> jsstr" where
  "text_of E (JStr s) = s"
| "text_of E v = string_of E v"

definition js_falsy :: "jsval \<Rightarrow> bool" where
  "js_falsy v \<longleftrightarrow> v \<in> set [JUndefined, JNull, JBool False, JStr [], JNum NaN, JNum (Fin 0)]"

subsection \<open>Plan receipts\<close>

definition validatePlanReceiptContent :: "js_env \<Rightarrow> jsval \<Rightarrow> commit_error option" where
  "validatePlanReceiptContent E v =
     (let p = (\<lambda>k. get_prop v (js k)) in
      case any_true
        [Inr (p ''version'' \<noteq> jint 1),
         Inr (\<not> is_runtime_id (p ''threadId'')),
         Inr (\<not> is_runtime_id (p ''turnId'')),
         blank (p ''plan''),
         Inr (JStr (digestRuntimeValue E (p ''plan'')) \<noteq> p ''planDigest''),
         Inr (p ''returnMode'' \<notin> set [JStr (js ''build''), JStr (js ''auto'')]),
         Inr (\<not> val_is_safe_integer (p ''taskContextRevision'')),
         Inr (number_below_zero (p ''taskContextRevision'')),
         Inr (\<not> finite_number (p ''createdAt'')),
         Inr (number_below_zero (p ''createdAt'')),
         blank (p ''historyDigest''),
         blank (p ''taskContextDigest''),
         blank (p ''stopDecisionDigest''),
         length_zero (p ''capabilityReceiptDigests''),
         some_blank (p ''capabilityReceiptDigests''),
         some_blank (p ''toolReceiptDigests''),
         blank (p ''promptReceiptDigest'')]
      of Inl e \<Rightarrow> Some e
       | Inr bad \<Rightarrow> (if bad then Some CommitInvalid else None))"

text \<open>\<open>{ ...content, digest: digestRuntimeValue(content) }\<close>.\<close>

definition sealed :: "js_env \<Rightarrow> (jsstr \<times> jsval) list \<Rightarrow> jsval" where
  "sealed E kvs = JObj (kvs @ prop_str ''digest'' (digestRuntimeValue E (JObj kvs)))"

definition digest_of :: "jsval \<Rightarrow> jsstr" where
  "digest_of v = (case get_prop v (js ''digest'') of JStr d \<Rightarrow> d | _ \<Rightarrow> [])"

definition plan_content :: "js_env \<Rightarrow> commit_input \<Rightarrow> commit_facts \<Rightarrow> plan_commit_input \<Rightarrow> (jsstr \<times> jsval) list" where
  "plan_content E x f pl =
     prop_int ''version'' 1 @ prop_str ''threadId'' (cf_threadId f) @ prop_str ''turnId'' (ci_turnId x)
     @ prop_str ''plan'' (js_trim (pi_plan pl))
     @ prop_str ''planDigest'' (digestRuntimeValue E (JStr (js_trim (pi_plan pl))))
     @ prop_str ''returnMode'' (pi_returnMode pl)
     @ prop_str ''historyDigest'' (digestRuntimeValue E (history_value (ci_history x)))
     @ prop_str ''taskContextDigest'' (digestRuntimeValue E (ci_taskContextState x))
     @ prop_int ''taskContextRevision'' (ci_taskContextRevision x)
     @ [(js ''stopDecisionDigest'',
         case ci_stopDecision x of None \<Rightarrow> JUndefined | Some v \<Rightarrow> JStr (digestRuntimeValue E v))]
     @ prop_strs ''capabilityReceiptDigests'' (cf_capabilityReceiptDigests f)
     @ prop_strs ''toolReceiptDigests'' (cf_toolReceiptDigests f)
     @ prop_str ''promptReceiptDigest'' (pi_promptReceiptDigest pl)
     @ prop_int ''createdAt'' (cf_createdAt f)"

definition createPlanReceiptV1 ::
  "js_env \<Rightarrow> commit_input \<Rightarrow> commit_facts \<Rightarrow> plan_commit_input \<Rightarrow> commit_error + jsval" where
  "createPlanReceiptV1 E x f pl =
     (let content = plan_content E x f pl in
      case validatePlanReceiptContent E (JObj content) of
        Some e \<Rightarrow> Inl e
      | None \<Rightarrow> Inr (sealed E content))"

text \<open>\<open>const { digest, ...content } = parsed\<close> throws on \<open>null\<close>.\<close>

definition digest_fits :: "js_env \<Rightarrow> jsval \<Rightarrow> bool" where
  "digest_fits E v \<longleftrightarrow>
     get_prop v (js ''digest'') = JStr (digestRuntimeValue E (rest_without (js ''digest'') v))"

definition parsePlanReceiptV1 :: "js_env \<Rightarrow> jsval \<Rightarrow> commit_error + jsval" where
  "parsePlanReceiptV1 E receipt =
     (case json_parse E (text_of E receipt) of
        None \<Rightarrow> Inl CommitInvalid
      | Some v \<Rightarrow>
          if v = JNull then Inl CommitTypeError
          else case validatePlanReceiptContent E (rest_without (js ''digest'') v) of
            Some e \<Rightarrow> Inl e
          | None \<Rightarrow> (if digest_fits E v then Inr v else Inl CommitInvalid))"

subsection \<open>Turn commits\<close>

fun commit_terminal_of :: "commit_terminal \<Rightarrow> turn_terminal" where
  "commit_terminal_of (CommitCompleted r) = TermCompleted"
| "commit_terminal_of (CommitFailed e) = TermFailed"
| "commit_terminal_of (CommitInterrupted r) = TermInterrupted"

fun commit_outcome :: "commit_terminal \<Rightarrow> jsstr option" where
  "commit_outcome (CommitCompleted r) = r"
| "commit_outcome _ = None"

fun commit_error_text :: "commit_terminal \<Rightarrow> jsstr option" where
  "commit_error_text (CommitFailed e) = Some e"
| "commit_error_text _ = None"

fun commit_reason :: "commit_terminal \<Rightarrow> jsstr option" where
  "commit_reason (CommitInterrupted r) = r"
| "commit_reason _ = None"

text \<open>An optional value with its digest beside it.\<close>

definition opt_digested :: "js_env \<Rightarrow> string \<Rightarrow> string \<Rightarrow> jsval option \<Rightarrow> (jsstr \<times> jsval) list" where
  "opt_digested E k d v = (case v of None \<Rightarrow> []
     | Some x \<Rightarrow> prop_str k (canonicalRuntimeJson E x) @ prop_str d (digestRuntimeValue E x))"

definition commit_content ::
  "js_env \<Rightarrow> commit_input \<Rightarrow> commit_facts \<Rightarrow> (jsstr \<times> jsstr) option \<Rightarrow> (jsstr \<times> jsval) list" where
  "commit_content E x f planReceipt =
     prop_int ''version'' 1 @ prop_str ''commitId'' (cf_commitId f)
     @ prop_str ''threadId'' (cf_threadId f) @ prop_str ''turnId'' (ci_turnId x)
     @ prop_int ''sourceCursor'' (cf_sourceCursor f)
     @ prop_str ''terminal'' (terminal_name (commit_terminal_of (ci_terminal x)))
     @ opt_str ''outcome'' (commit_outcome (ci_terminal x))
     @ opt_str ''error'' (commit_error_text (ci_terminal x))
     @ opt_str ''reason'' (commit_reason (ci_terminal x))
     @ prop_str ''history'' (canonicalRuntimeJson E (history_value (ci_history x)))
     @ prop_str ''historyDigest'' (digestRuntimeValue E (history_value (ci_history x)))
     @ prop_str ''taskContext'' (canonicalRuntimeJson E (ci_taskContextState x))
     @ prop_str ''taskContextDigest'' (digestRuntimeValue E (ci_taskContextState x))
     @ prop_int ''taskContextRevision'' (ci_taskContextRevision x)
     @ opt_digested E ''goalState'' ''goalStateDigest'' (ci_goalState x)
     @ opt_digested E ''compactPointer'' ''compactPointerDigest'' (ci_compactPointer x)
     @ opt_digested E ''stopDecision'' ''stopDecisionDigest'' (ci_stopDecision x)
     @ (case planReceipt of None \<Rightarrow> []
        | Some (text, digest) \<Rightarrow> prop_str ''planReceipt'' text @ prop_str ''planReceiptDigest'' digest)
     @ prop_strs ''capabilityReceiptDigests'' (cf_capabilityReceiptDigests f)
     @ prop_strs ''stepSnapshotDigests'' (cf_stepSnapshotDigests f)
     @ prop_strs ''toolReceiptDigests'' (cf_toolReceiptDigests f)
     @ prop_int ''createdAt'' (cf_createdAt f)"

definition createTurnCommitV1 :: "js_env \<Rightarrow> commit_input \<Rightarrow> commit_facts \<Rightarrow> commit_error + jsval" where
  "createTurnCommitV1 E x f = (case ci_plan x of
     None \<Rightarrow> Inr (sealed E (commit_content E x f None))
   | Some pl \<Rightarrow>
       (case createPlanReceiptV1 E x f pl of
          Inl e \<Rightarrow> Inl e
        | Inr receipt \<Rightarrow> Inr (sealed E (commit_content E x f
            (Some (canonicalRuntimeJson E receipt, digest_of receipt))))))"

definition assertPlanReceiptBinding :: "js_env \<Rightarrow> jsval \<Rightarrow> jsval \<Rightarrow> bool" where
  "assertPlanReceiptBinding E commit receipt \<longleftrightarrow>
     get_prop commit (js ''planReceiptDigest'') = get_prop receipt (js ''digest'')
     \<and> (\<forall>k \<in> set [''threadId'', ''turnId'', ''historyDigest'', ''taskContextDigest'', ''taskContextRevision'',
           ''stopDecisionDigest'']. get_prop commit (js k) = get_prop receipt (js k))
     \<and> (\<forall>k \<in> set [''capabilityReceiptDigests'', ''toolReceiptDigests''].
          canonicalRuntimeJson E (get_prop commit (js k)) = canonicalRuntimeJson E (get_prop receipt (js k)))"

definition parseTurnCommitV1 :: "js_env \<Rightarrow> jsstr \<Rightarrow> commit_error + jsval" where
  "parseTurnCommitV1 E receipt =
     (case json_parse E receipt of
        None \<Rightarrow> Inl CommitInvalid
      | Some v \<Rightarrow>
          if v = JNull then Inl CommitTypeError
          else if get_prop v (js ''version'') \<noteq> jint 1 \<or> \<not> digest_fits E v then Inl CommitInvalid
          else if get_prop v (js ''planReceipt'') \<noteq> JUndefined
          then (case parsePlanReceiptV1 E (get_prop v (js ''planReceipt'')) of
              Inl e \<Rightarrow> Inl e
            | Inr r \<Rightarrow> (if assertPlanReceiptBinding E v r then Inr v else Inl CommitInvalid))
          else if get_prop v (js ''planReceiptDigest'') \<noteq> JUndefined then Inl CommitInvalid
          else Inr v)"

subsection \<open>The journal\<close>

definition validateInput :: "jsstr \<Rightarrow> commit_input \<Rightarrow> bool" where
  "validateInput tid x \<longleftrightarrow>
     isRuntimeId tid \<and> isRuntimeId (ci_turnId x)
     \<and> (truthy (ci_commitId x) \<longrightarrow> isRuntimeId (the (ci_commitId x)))
     \<and> non_negative_safe (ci_taskContextRevision x)
     \<and> (case ci_terminal x of CommitFailed e \<Rightarrow> js_trim e \<noteq> [] | _ \<Rightarrow> True)
     \<and> (case ci_plan x of None \<Rightarrow> True
        | Some pl \<Rightarrow> commit_terminal_of (ci_terminal x) = TermCompleted \<and> ci_stopDecision x \<noteq> None
            \<and> js_trim (pi_plan pl) \<noteq> [] \<and> pi_returnMode pl \<in> set [js ''build'', js ''auto'']
            \<and> js_trim (pi_promptReceiptDigest pl) \<noteq> [])"

definition sameSemanticPlanReceipt :: "js_env \<Rightarrow> jsval \<Rightarrow> jsval \<Rightarrow> commit_error + bool" where
  "sameSemanticPlanReceipt E left right =
     (let l = get_prop left (js ''planReceipt''); r = get_prop right (js ''planReceipt'') in
      if js_falsy l \<or> js_falsy r then Inr (l = r)
      else case parsePlanReceiptV1 E l of Inl e \<Rightarrow> Inl e
      | Inr lr \<Rightarrow> (case parsePlanReceiptV1 E r of Inl e \<Rightarrow> Inl e
        | Inr rr \<Rightarrow> Inr (\<forall>k \<in> set [''planDigest'', ''returnMode'', ''promptReceiptDigest''].
            get_prop lr (js k) = get_prop rr (js k))))"

definition semantic_keys :: "string list" where
  "semantic_keys = [''turnId'', ''terminal'', ''outcome'', ''error'', ''reason'', ''historyDigest'',
     ''taskContextDigest'', ''taskContextRevision'', ''goalStateDigest'', ''compactPointerDigest'',
     ''stopDecisionDigest'']"

definition digest_list_keys :: "string list" where
  "digest_list_keys = [''capabilityReceiptDigests'', ''stepSnapshotDigests'', ''toolReceiptDigests'']"

definition sameSemanticCommit :: "js_env \<Rightarrow> jsval \<Rightarrow> jsval \<Rightarrow> commit_error + bool" where
  "sameSemanticCommit E left right =
     (if \<exists>k \<in> set semantic_keys. get_prop left (js k) \<noteq> get_prop right (js k) then Inr False
      else case sameSemanticPlanReceipt E left right of Inl e \<Rightarrow> Inl e
      | Inr same \<Rightarrow> Inr (same \<and> (\<forall>k \<in> set digest_list_keys.
          canonicalRuntimeJson E (get_prop left (js k)) = canonicalRuntimeJson E (get_prop right (js k)))))"

text \<open>The digests of the turn's receipts in the log.\<close>

definition capability_digests :: "envelope list \<Rightarrow> jsstr list" where
  "capability_digests evs = concat (map (\<lambda>ev. case en_payload ev of
     CapabilityReceiptEvent i d r \<Rightarrow> [d] | _ \<Rightarrow> []) evs)"

definition snapshot_digests :: "envelope list \<Rightarrow> jsstr list" where
  "snapshot_digests evs = concat (map (\<lambda>ev. case en_payload ev of
     StepSnapshotEvent i d r \<Rightarrow> [d] | _ \<Rightarrow> []) evs)"

definition tool_digests :: "envelope list \<Rightarrow> jsstr list" where
  "tool_digests evs = concat (map (\<lambda>ev. case en_payload ev of
     ToolReceiptEvent d \<Rightarrow> [tr_receiptDigest d] | _ \<Rightarrow> []) evs)"

definition turn_facts ::
  "jsstr \<Rightarrow> int \<Rightarrow> commit_input \<Rightarrow> thread_store \<Rightarrow> envelope list \<Rightarrow> commit_facts" where
  "turn_facts fresh now x s events =
     (let evs = filter (\<lambda>ev. en_turnId ev = Some (ci_turnId x)) events in
      \<lparr>cf_commitId = (case ci_commitId x of None \<Rightarrow> fresh | Some c \<Rightarrow> c), cf_threadId = ts_threadId s,
       cf_sourceCursor = cursor (fst (ts_head s)), cf_stepSnapshotDigests = snapshot_digests evs,
       cf_capabilityReceiptDigests = capability_digests evs, cf_toolReceiptDigests = tool_digests evs,
       cf_createdAt = (case ci_createdAt x of None \<Rightarrow> now | Some n \<Rightarrow> n)\<rparr>)"

definition committed_input :: "js_env \<Rightarrow> commit_input \<Rightarrow> commit_facts \<Rightarrow> jsval \<Rightarrow> append_input" where
  "committed_input E x f commit =
     \<lparr>ai_turnId = Some (ci_turnId x), ai_stepId = None, ai_itemId = None, ai_timestamp = None,
      ai_payload = TurnCommitted \<lparr>cd_commitId = cf_commitId f, cd_terminal = commit_terminal_of (ci_terminal x),
        cd_digest = digest_of commit, cd_receipt = canonicalRuntimeJson E commit,
        cd_outcome = commit_outcome (ci_terminal x), cd_error = commit_error_text (ci_terminal x),
        cd_reason = commit_reason (ci_terminal x)\<rparr>\<rparr>"

text \<open>
  \<open>commit\<close>: \<open>fresh\<close> and \<open>now\<close> are what \<open>randomUUID\<close> and the clock return, \<open>mx\<close> is the page size of the
  store; a log of n events has at most n + 1 pages, the fuel of the loop over them.
\<close>

definition commitJournal ::
  "js_env \<Rightarrow> (projection \<Rightarrow> jsstr) \<Rightarrow> (int \<Rightarrow> jsstr) \<Rightarrow> (int \<Rightarrow> int) \<Rightarrow> int \<Rightarrow> jsstr \<Rightarrow> int
     \<Rightarrow> commit_input \<Rightarrow> thread_store \<Rightarrow> (commit_error + jsval) \<times> thread_store" where
  "commitJournal E D ids clk mx fresh now x s =
     (if \<not> validateInput (ts_threadId s) x then (Inl CommitInvalid, s)
      else case assertToolCallGroups (ci_history x) of Some e \<Rightarrow> (Inl (CommitGroups e), s)
      | None \<Rightarrow>
     (let st = fst (ts_head s) in
      case active_turn st (ci_turnId x) of None \<Rightarrow> (Inl CommitInvalid, s)
      | Some tn \<Rightarrow>
      if ci_plan x \<noteq> None \<and> tp_mode tn \<noteq> ModePlan then (Inl CommitInvalid, s)
      else case first_open_item st (tp_itemIds tn) of Inl e \<Rightarrow> (Inl CommitTypeError, s)
      | Inr (Some i) \<Rightarrow> (Inl CommitOpenItem, s)
      | Inr None \<Rightarrow>
      (case the (read_pages (Suc (length (ts_events s))) mx 0 mx s) of Inl e \<Rightarrow> (Inl (CommitReplay e), s)
       | Inr events \<Rightarrow>
       (let f = turn_facts fresh now x s events in
        case createTurnCommitV1 E x f of Inl e \<Rightarrow> (Inl e, s)
        | Inr commit \<Rightarrow>
        (case tp_commit tn of
           Some c \<Rightarrow>
             (case parseTurnCommitV1 E (cp_receipt c) of Inl e \<Rightarrow> (Inl e, s)
              | Inr existing \<Rightarrow>
                (case sameSemanticCommit E existing commit of Inl e \<Rightarrow> (Inl e, s)
                 | Inr same \<Rightarrow> (if same then (Inr existing, s) else (Inl CommitConflict, s))))
         | None \<Rightarrow>
             (case appendDurableBatch E D ids clk s [committed_input E x f commit] of
                (Inl e, s') \<Rightarrow> (Inl (CommitAppend e), s')
              | (Inr evs, s') \<Rightarrow> (Inr commit, s')))))))"

end
