(* ===== verification/CommitReceipts.thy ===== *)
theory CommitReceipts
  imports TurnCommit "HOL-Library.Sublist"
begin

section \<open>Receipts read back what was sealed\<close>

subsection \<open>Sealed objects in canonical order\<close>

text \<open>A sealed object has only values that \<open>sortValue\<close> leaves as they are.\<close>

fun plain :: "jsval \<Rightarrow> bool" where
  "plain (JArr xs) \<longleftrightarrow> (\<forall>x \<in> set xs. plain x)"
| "plain (JObj kvs) \<longleftrightarrow> False"
| "plain v \<longleftrightarrow> True"

definition plain_object :: "(jsstr \<times> jsval) list \<Rightarrow> bool" where
  "plain_object kvs \<longleftrightarrow> distinct (map fst kvs) \<and> (\<forall>v \<in> snd ` set kvs. plain v)"

lemma sortValue_plain: "plain v \<Longrightarrow> sortValue le v = v"
proof (induction v)
  case (JArr xs)
  then have "map (sortValue le) xs = xs" by (intro map_idI) auto
  then show ?case by simp
qed auto

lemma mset_own_order [simp]: "mset (own_order kvs) = mset kvs"
proof -
  have "mset (filter P kvs) + mset (filter (Not \<circ> P) kvs) = mset kvs" for P :: "jsstr \<times> 'a \<Rightarrow> bool"
    by (induction kvs) auto
  then show ?thesis by (simp add: own_order_def comp_assoc flip: mset_filter)
qed

lemma sorted_object:
  assumes "plain_object kvs"
  obtains kvs' where "sortValue le (JObj kvs) = JObj kvs'" "mset kvs' = mset kvs"
proof -
  have "map (\<lambda>(k, v). (k, sortValue le v)) kvs = kvs"
    using assms by (intro map_idI) (force simp: plain_object_def sortValue_plain)
  with that show thesis by simp
qed

lemma map_of_permuted:
  assumes "distinct (map fst kvs)" "mset kvs' = mset kvs"
  shows "map_of kvs' = map_of kvs"
proof (rule map_of_inject_set [THEN iffD2])
  show "distinct (map fst kvs)" by (rule assms)
  show "distinct (map fst kvs')"
    using assms by (metis mset_map mset_eq_imp_distinct_iff)
  show "set kvs' = set kvs" using assms(2) by (rule mset_eq_setD)
qed

lemma filter_key: "k \<notin> fst ` set kvs \<Longrightarrow> filter (\<lambda>kv. fst kv \<noteq> k) kvs = kvs"
  by (induction kvs) auto

text \<open>What a sealed object becomes when it is written in canonical form and read back.\<close>

lemma sealed_read_back:
  fixes kvs E
  defines "v \<equiv> sortValue (locale_le E) (sealed E kvs)"
  assumes pl: "plain_object kvs" and new: "js ''digest'' \<notin> fst ` set kvs"
    and lin: "linear_on (locale_le E) (fst ` set kvs)"
  shows "v \<noteq> JNull" "get_prop v k = get_prop (sealed E kvs) k"
    "get_prop (rest_without (js ''digest'') v) k = get_prop (JObj kvs) k" "digest_fits E v"
proof -
  let ?d = "(js ''digest'', JStr (digestRuntimeValue E (JObj kvs)))"
  have pl': "plain_object (kvs @ [?d])" using pl new by (auto simp: plain_object_def image_iff)
  from sorted_object [OF pl', of "locale_le E"] obtain ws where
    ws: "v = JObj ws" "mset ws = mset (kvs @ [?d])" unfolding v_def sealed_def prop_str_def by blast
  show "v \<noteq> JNull" by (simp add: ws)
  show gp: "get_prop v k = get_prop (sealed E kvs) k" for k
    using map_of_permuted [OF _ ws(2)] pl' unfolding ws(1) sealed_def prop_str_def
    by (simp add: plain_object_def)
  let ?r = "filter (\<lambda>kv. fst kv \<noteq> js ''digest'') ws"
  have "mset ?r = filter_mset (\<lambda>kv. fst kv \<noteq> js ''digest'') (mset (kvs @ [?d]))" by (simp add: ws(2))
  also have "\<dots> = mset (filter (\<lambda>kv. fst kv \<noteq> js ''digest'') (kvs @ [?d]))" by (simp only: mset_filter)
  also have "\<dots> = mset kvs" using filter_key [OF new] by simp
  finally have r: "mset ?r = mset kvs" .
  show "get_prop (rest_without (js ''digest'') v) k = get_prop (JObj kvs) k"
    using map_of_permuted [OF _ r] pl by (simp add: ws(1) plain_object_def)
  have "same_up_to_order (JObj kvs) (JObj ?r)"
    by (rule same_obj [of _ kvs]) (use pl r in \<open>auto simp: plain_object_def list_all2_same same_refl\<close>)
  moreover have "keys_of (JObj kvs) = fst ` set kvs"
  proof -
    have "keys_of x = {}" if "plain x" for x using that by (induction x) auto
    then show ?thesis using pl by (force simp: plain_object_def)
  qed
  ultimately have "digestRuntimeValue E (JObj kvs) = digestRuntimeValue E (JObj ?r)"
    using digest_ignores_property_order [of "JObj kvs" "JObj ?r" E] lin by simp
  moreover have "map_of kvs (js ''digest'') = None" using new by (simp add: map_of_eq_None_iff)
  then have "get_prop v (js ''digest'') = snd ?d"
    unfolding gp by (simp add: sealed_def prop_str_def map_add_def)
  ultimately show "digest_fits E v" by (simp add: digest_fits_def ws(1))
qed

subsection \<open>The contents of commits and plan receipts\<close>

definition commit_keys :: "string list" where
  "commit_keys = [''version'', ''commitId'', ''threadId'', ''turnId'', ''sourceCursor'', ''terminal'',
     ''outcome'', ''error'', ''reason'', ''history'', ''historyDigest'', ''taskContext'',
     ''taskContextDigest'', ''taskContextRevision'', ''goalState'', ''goalStateDigest'',
     ''compactPointer'', ''compactPointerDigest'', ''stopDecision'', ''stopDecisionDigest'',
     ''planReceipt'', ''planReceiptDigest'', ''capabilityReceiptDigests'', ''stepSnapshotDigests'',
     ''toolReceiptDigests'', ''createdAt'']"

definition plan_keys :: "string list" where
  "plan_keys = [''version'', ''threadId'', ''turnId'', ''plan'', ''planDigest'', ''returnMode'',
     ''historyDigest'', ''taskContextDigest'', ''taskContextRevision'', ''stopDecisionDigest'',
     ''capabilityReceiptDigests'', ''toolReceiptDigests'', ''promptReceiptDigest'', ''createdAt'']"

lemmas props = prop_str_def prop_int_def prop_strs_def opt_str_def opt_digested_def

lemma next_key:
  assumes "subseq (map fst xs) (map js ks)"
  shows "subseq (map fst (prop_str k s @ xs)) (map js (k # ks))" "subseq (map fst (prop_int k n @ xs)) (map js (k # ks))"
    "subseq (map fst (prop_strs k l @ xs)) (map js (k # ks))" "subseq (map fst (opt_str k v @ xs)) (map js (k # ks))"
    "subseq (map fst (opt_digested E k d w @ xs)) (map js (k # d # ks))"
  using assms by (auto simp: props split: option.split)

lemma last_key: "subseq (map fst (prop_int k n)) (map js [k])"
  by (simp add: props)

lemma commit_content_keys: "subseq (map fst (commit_content E x f r)) (map js commit_keys)"
  unfolding commit_content_def commit_keys_def
  by (intro next_key last_key) (auto simp: props split: option.split)

lemma plan_content_keys: "map fst (plan_content E x f pl) = map js plan_keys"
  by (simp add: plan_content_def plan_keys_def props)

lemma subseq_facts: "subseq xs ys \<Longrightarrow> set xs \<subseteq> set ys" "subseq xs ys \<Longrightarrow> distinct ys \<Longrightarrow> distinct xs"
  by (auto simp: subseq_conv_nths distinct_nthsI dest: set_nths_subset [THEN subsetD])

lemma js_distinct: "distinct (map js ks) = distinct ks"
  by (simp add: distinct_map inj_on_def)

lemma commit_content_plain: "plain_object (commit_content E x f r)"
proof -
  have "distinct (map js commit_keys)" by (simp add: js_distinct commit_keys_def)
  then have "distinct (map fst (commit_content E x f r))"
    using commit_content_keys subseq_facts(2) by blast
  moreover have "\<forall>v \<in> snd ` set (commit_content E x f r). plain v"
    by (simp add: commit_content_def image_Un ball_Un) (auto simp: props jint_def split: option.split)
  ultimately show ?thesis by (simp add: plain_object_def)
qed

lemma plan_content_plain: "plain_object (plan_content E x f pl)"
proof -
  have "distinct (map fst (plan_content E x f pl))" unfolding plan_content_keys js_distinct
    by (simp add: plan_keys_def)
  moreover have "\<forall>v \<in> snd ` set (plan_content E x f pl). plain v"
    by (auto simp: plan_content_def props jint_def split: option.split)
  ultimately show ?thesis by (simp add: plain_object_def)
qed

text \<open>The collation orders the keys of receipts linearly; both texts are printed and parsed faithfully.\<close>

definition receipt_keys_ordered :: "js_env \<Rightarrow> bool" where
  "receipt_keys_ordered E \<longleftrightarrow> linear_on (locale_le E) (js ` (set commit_keys \<union> set plan_keys))"

definition reads_back :: "js_env \<Rightarrow> jsval \<Rightarrow> bool" where
  "reads_back E v \<longleftrightarrow> json_parse E (canonicalRuntimeJson E v) = Some (sortValue (locale_le E) v)"

lemma commit_key_facts:
  assumes "receipt_keys_ordered E"
  shows "js ''digest'' \<notin> fst ` set (commit_content E x f r)" "linear_on (locale_le E) (fst ` set (commit_content E x f r))"
proof -
  have sub: "fst ` set (commit_content E x f r) \<subseteq> js ` set commit_keys"
    using subseq_facts(1) [OF commit_content_keys [of E x f r]] by simp
  then show "js ''digest'' \<notin> fst ` set (commit_content E x f r)" by (auto simp: commit_keys_def)
  show "linear_on (locale_le E) (fst ` set (commit_content E x f r))"
    using linear_on_subset [OF assms [unfolded receipt_keys_ordered_def]] sub by blast
qed

lemma plan_key_facts:
  assumes "receipt_keys_ordered E"
  shows "js ''digest'' \<notin> fst ` set (plan_content E x f pl)" "linear_on (locale_le E) (fst ` set (plan_content E x f pl))"
proof -
  have eq: "fst ` set (plan_content E x f pl) = js ` set plan_keys"
    using arg_cong [OF plan_content_keys [of E x f pl], of set] by simp
  then show "js ''digest'' \<notin> fst ` set (plan_content E x f pl)" by (auto simp: plan_keys_def)
  show "linear_on (locale_le E) (fst ` set (plan_content E x f pl))"
    unfolding eq by (rule linear_on_subset [OF assms [unfolded receipt_keys_ordered_def]]) blast
qed

lemmas commit_read_back = sealed_read_back [OF commit_content_plain commit_key_facts]
lemmas plan_read_back = sealed_read_back [OF plan_content_plain plan_key_facts]

lemma validate_cong:
  "(\<And>k. get_prop v k = get_prop w k) \<Longrightarrow> validatePlanReceiptContent E v = validatePlanReceiptContent E w"
  by (simp add: validatePlanReceiptContent_def)

subsection \<open>Reading a plan receipt back\<close>

lemma plan_receipt_parses:
  assumes ord: "receipt_keys_ordered E" and r: "createPlanReceiptV1 E x f pl = Inr r" and faithful: "reads_back E r"
  shows "parsePlanReceiptV1 E (JStr (canonicalRuntimeJson E r)) = Inr (sortValue (locale_le E) r)"
    "get_prop (sortValue (locale_le E) r) k = get_prop r k" "r = sealed E (plan_content E x f pl)"
proof -
  from r have v: "validatePlanReceiptContent E (JObj (plan_content E x f pl)) = None"
    and eq: "r = sealed E (plan_content E x f pl)"
    by (auto simp: createPlanReceiptV1_def Let_def split: option.splits)
  note rb = plan_read_back [OF ord ord, of x f pl, folded eq]
  show "r = sealed E (plan_content E x f pl)" by (rule eq)
  show "get_prop (sortValue (locale_le E) r) k = get_prop r k" by (rule rb(2))
  have "validatePlanReceiptContent E (rest_without (js ''digest'') (sortValue (locale_le E) r)) = None"
    using validate_cong [OF rb(3)] v by simp
  with faithful rb(1,4) show "parsePlanReceiptV1 E (JStr (canonicalRuntimeJson E r)) = Inr (sortValue (locale_le E) r)"
    by (simp add: parsePlanReceiptV1_def reads_back_def)
qed

subsection \<open>Reading a commit back\<close>

lemma piece_lookup:
  "map_of (prop_str k s) (js j) = (if j = k then Some (JStr s) else None)"
  "map_of (prop_int k n) (js j) = (if j = k then Some (jint n) else None)"
  "map_of (prop_strs k xs) (js j) = (if j = k then Some (JArr (map JStr xs)) else None)"
  "map_of (opt_str k v) (js j) = (if j = k then map_option JStr v else None)"
  "k \<noteq> d \<Longrightarrow> map_of (opt_digested E k d w) (js j) =
     (if j = k then map_option (\<lambda>x. JStr (canonicalRuntimeJson E x)) w
      else if j = d then map_option (\<lambda>x. JStr (digestRuntimeValue E x)) w else None)"
  by (auto simp: props split: option.split)

definition plan_piece :: "(jsstr \<times> jsstr) option \<Rightarrow> (jsstr \<times> jsval) list" where
  "plan_piece r = (case r of None \<Rightarrow> []
     | Some (text, digest) \<Rightarrow> prop_str ''planReceipt'' text @ prop_str ''planReceiptDigest'' digest)"

lemma plan_piece_lookup:
  "map_of (plan_piece r) (js j) = (if j = ''planReceipt'' then map_option (JStr \<circ> fst) r
     else if j = ''planReceiptDigest'' then map_option (JStr \<circ> snd) r else None)"
  by (auto simp: plan_piece_def piece_lookup map_add_def split: option.split)

lemmas lookups = piece_lookup plan_piece_lookup

lemmas commit_content_pieces = commit_content_def [folded plan_piece_def]

lemma sealed_lookup:
  "k \<noteq> ''digest'' \<Longrightarrow> get_prop (sealed E kvs) (js k) = get_prop (JObj kvs) (js k)"
  by (simp add: sealed_def lookups map_add_def split: option.split)

text \<open>The properties of a commit that are read back.\<close>

lemma commit_props:
  "get_prop (JObj (commit_content E x f r)) (js ''version'') = jint 1"
  "get_prop (JObj (commit_content E x f r)) (js ''commitId'') = JStr (cf_commitId f)"
  "get_prop (JObj (commit_content E x f r)) (js ''terminal'') = JStr (terminal_name (commit_terminal_of (ci_terminal x)))"
  "get_prop (JObj (commit_content E x f r)) (js ''planReceipt'') = (case r of None \<Rightarrow> JUndefined | Some p \<Rightarrow> JStr (fst p))"
  "get_prop (JObj (commit_content E x f r)) (js ''planReceiptDigest'') = (case r of None \<Rightarrow> JUndefined | Some p \<Rightarrow> JStr (snd p))"
  "get_prop (JObj (commit_content E x f r)) (js ''threadId'') = JStr (cf_threadId f)"
  "get_prop (JObj (commit_content E x f r)) (js ''turnId'') = JStr (ci_turnId x)"
  "get_prop (JObj (commit_content E x f r)) (js ''historyDigest'') = JStr (digestRuntimeValue E (history_value (ci_history x)))"
  "get_prop (JObj (commit_content E x f r)) (js ''taskContextDigest'') = JStr (digestRuntimeValue E (ci_taskContextState x))"
  "get_prop (JObj (commit_content E x f r)) (js ''taskContextRevision'') = jint (ci_taskContextRevision x)"
  "get_prop (JObj (commit_content E x f r)) (js ''stopDecisionDigest'')
     = (case ci_stopDecision x of None \<Rightarrow> JUndefined | Some v \<Rightarrow> JStr (digestRuntimeValue E v))"
  "get_prop (JObj (commit_content E x f r)) (js ''capabilityReceiptDigests'') = JArr (map JStr (cf_capabilityReceiptDigests f))"
  "get_prop (JObj (commit_content E x f r)) (js ''toolReceiptDigests'') = JArr (map JStr (cf_toolReceiptDigests f))"
  by (simp_all add: commit_content_pieces lookups map_add_def split: option.split)

lemma plan_props:
  "get_prop (JObj (plan_content E x f pl)) (js ''threadId'') = JStr (cf_threadId f)"
  "get_prop (JObj (plan_content E x f pl)) (js ''turnId'') = JStr (ci_turnId x)"
  "get_prop (JObj (plan_content E x f pl)) (js ''planDigest'') = JStr (digestRuntimeValue E (JStr (js_trim (pi_plan pl))))"
  "get_prop (JObj (plan_content E x f pl)) (js ''returnMode'') = JStr (pi_returnMode pl)"
  "get_prop (JObj (plan_content E x f pl)) (js ''promptReceiptDigest'') = JStr (pi_promptReceiptDigest pl)"
  "get_prop (JObj (plan_content E x f pl)) (js ''historyDigest'') = JStr (digestRuntimeValue E (history_value (ci_history x)))"
  "get_prop (JObj (plan_content E x f pl)) (js ''taskContextDigest'') = JStr (digestRuntimeValue E (ci_taskContextState x))"
  "get_prop (JObj (plan_content E x f pl)) (js ''taskContextRevision'') = jint (ci_taskContextRevision x)"
  "get_prop (JObj (plan_content E x f pl)) (js ''stopDecisionDigest'')
     = (case ci_stopDecision x of None \<Rightarrow> JUndefined | Some v \<Rightarrow> JStr (digestRuntimeValue E v))"
  "get_prop (JObj (plan_content E x f pl)) (js ''capabilityReceiptDigests'') = JArr (map JStr (cf_capabilityReceiptDigests f))"
  "get_prop (JObj (plan_content E x f pl)) (js ''toolReceiptDigests'') = JArr (map JStr (cf_toolReceiptDigests f))"
  by (simp_all add: plan_content_def props split: option.split)

lemma sealed_digest:
  assumes "map_of kvs (js ''digest'') = None"
  shows "get_prop (sealed E kvs) (js ''digest'') = JStr (digestRuntimeValue E (JObj kvs))"
  using assms by (simp add: sealed_def lookups map_add_def)

text \<open>The cases of \<open>createTurnCommitV1\<close>.\<close>

lemma created_commit:
  assumes "createTurnCommitV1 E x f = Inr c"
  obtains (plain) "ci_plan x = None" "c = sealed E (commit_content E x f None)"
    | (plan) pl r where "ci_plan x = Some pl" "createPlanReceiptV1 E x f pl = Inr r"
        "c = sealed E (commit_content E x f (Some (canonicalRuntimeJson E r, digest_of r)))"
  using assms by (auto simp: createTurnCommitV1_def split: option.splits sum.splits)

text \<open>The texts of the commit and of its plan receipt are not empty and parse to what was printed.\<close>

definition receipts_read_back :: "js_env \<Rightarrow> commit_input \<Rightarrow> commit_facts \<Rightarrow> bool" where
  "receipts_read_back E x f \<longleftrightarrow> receipt_keys_ordered E
     \<and> (case createTurnCommitV1 E x f of Inr c \<Rightarrow> reads_back E c \<and> canonicalRuntimeJson E c \<noteq> [] \<and> digest_of c \<noteq> []
        | Inl e \<Rightarrow> True)
     \<and> (case ci_plan x of None \<Rightarrow> True
        | Some pl \<Rightarrow> (case createPlanReceiptV1 E x f pl of Inr r \<Rightarrow> reads_back E r | Inl e \<Rightarrow> True))"

lemma commit_parses:
  assumes env: "receipts_read_back E x f" and c: "createTurnCommitV1 E x f = Inr c"
  shows "parseTurnCommitV1 E (canonicalRuntimeJson E c) = Inr (sortValue (locale_le E) c)"
    "get_prop (sortValue (locale_le E) c) k = get_prop c k" "digest_fits E (sortValue (locale_le E) c)"
proof -
  from env c have ord: "receipt_keys_ordered E" and faithful: "reads_back E c"
    by (simp_all add: receipts_read_back_def)
  obtain rr where eq: "c = sealed E (commit_content E x f rr)"
    and plan: "rr = None \<or> (\<exists>pl r. ci_plan x = Some pl \<and> createPlanReceiptV1 E x f pl = Inr r
      \<and> rr = Some (canonicalRuntimeJson E r, digest_of r))"
    using c by (rule created_commit) blast+
  let ?v = "sortValue (locale_le E) c"
  note rb = commit_read_back [OF ord ord, of x f rr, folded eq]
  show "get_prop ?v k = get_prop c k" "digest_fits E ?v" by (rule rb(2), rule rb(4))
  have look: "get_prop ?v (js k) = get_prop (JObj (commit_content E x f rr)) (js k)" if "k \<noteq> ''digest''" for k
    unfolding rb(2) unfolding eq using that by (rule sealed_lookup)
  from plan show "parseTurnCommitV1 E (canonicalRuntimeJson E c) = Inr ?v"
  proof (elim disjE exE conjE)
    assume "rr = None"
    then show ?thesis using faithful rb(1,4)
      by (simp add: parseTurnCommitV1_def reads_back_def look commit_props del: get_prop.simps)
  next
    fix pl r assume pl: "ci_plan x = Some pl" "createPlanReceiptV1 E x f pl = Inr r"
      and rr: "rr = Some (canonicalRuntimeJson E r, digest_of r)"
    have "reads_back E r" using env pl by (simp add: receipts_read_back_def)
    note pr = plan_receipt_parses [OF ord pl(2) this]
    have lookp: "get_prop r (js k) = get_prop (JObj (plan_content E x f pl)) (js k)" if "k \<noteq> ''digest''" for k
      unfolding pr(3) using that by (rule sealed_lookup)
    have d: "get_prop r (js ''digest'') = JStr (digest_of r)"
      using sealed_digest [of "plan_content E x f pl" E] plan_key_facts(1) [OF ord, of x f pl]
      by (simp add: pr(3) digest_of_def map_of_eq_None_iff)
    have "assertPlanReceiptBinding E ?v (sortValue (locale_le E) r)"
      by (simp add: assertPlanReceiptBinding_def pr(2) d look lookp commit_props plan_props rr del: get_prop.simps)
    then show ?thesis using faithful rb(1,4) pr(1)
      by (simp add: parseTurnCommitV1_def reads_back_def look commit_props rr del: get_prop.simps)
  qed
qed

end
