(* ===== verification/CommitProperties.thy ===== *)
theory CommitProperties
  imports CommitReceipts
begin

section \<open>A turn is committed once, durably and for good\<close>

subsection \<open>The journal past its checks\<close>

definition committing :: "commit_input \<Rightarrow> thread_store \<Rightarrow> turn_projection \<Rightarrow> bool" where
  "committing x s tn \<longleftrightarrow> validateInput (ts_threadId s) x \<and> assertToolCallGroups (ci_history x) = None
     \<and> active_turn (fst (ts_head s)) (ci_turnId x) = Some tn
     \<and> (ci_plan x \<noteq> None \<longrightarrow> tp_mode tn = ModePlan)
     \<and> first_open_item (fst (ts_head s)) (tp_itemIds tn) = Inr None"

definition page_size_ok :: "int \<Rightarrow> thread_store \<Rightarrow> bool" where
  "page_size_ok mx s \<longleftrightarrow> 0 < mx \<and> is_safe_integer mx \<and> is_safe_integer (int (length (ts_events s)))"

lemma all_pages:
  "store_ok E D s \<Longrightarrow> page_size_ok mx s \<Longrightarrow>
     read_pages (Suc (length (ts_events s))) mx 0 mx s = Some (Inr (ts_events s))"
  using replay_pages_complete [of E D s mx mx 0] by (simp add: page_size_ok_def)

lemma commitJournal_first:
  assumes "store_ok E D s" "page_size_ok mx s" "committing x s tn" "tp_commit tn = None"
    "createTurnCommitV1 E x (turn_facts fresh now x s (ts_events s)) = Inr c"
  shows "commitJournal E D ids clk mx fresh now x s =
    (case appendDurableBatch E D ids clk s [committed_input E x (turn_facts fresh now x s (ts_events s)) c] of
       (Inl e, s') \<Rightarrow> (Inl (CommitAppend e), s') | (Inr evs, s') \<Rightarrow> (Inr c, s'))"
  using assms all_pages [OF assms(1,2)]
  by (auto simp: commitJournal_def committing_def Let_def simp del: read_pages.simps)

lemma commitJournal_again:
  assumes "store_ok E D s" "page_size_ok mx s" "committing x s tn" "tp_commit tn = Some cp"
    "createTurnCommitV1 E x (turn_facts fresh now x s (ts_events s)) = Inr c"
    "parseTurnCommitV1 E (cp_receipt cp) = Inr v" "sameSemanticCommit E v c = Inr same"
  shows "commitJournal E D ids clk mx fresh now x s = (if same then Inr v else Inl CommitConflict, s)"
  using assms all_pages [OF assms(1,2)]
  by (auto simp: commitJournal_def committing_def Let_def simp del: read_pages.simps)

subsection \<open>The projection accepts the commit\<close>

lemma commit_accepted:
  assumes turn: "active_turn st (ci_turnId x) = Some tn" "tp_commit tn = None"
      "first_open_item st (tp_itemIds tn) = Inr None" "ci_turnId x \<noteq> []"
    and c: "createTurnCommitV1 E x f = Inr c" and env: "receipts_read_back E x f"
    and ev: "en_turnId ev = Some (ci_turnId x)" "ai_payload (committed_input E x f c) = TurnCommitted d"
  shows "commitTurn E st ev d = Inr (put_turn st (ci_turnId x) (tn\<lparr>tp_commit := Some
      \<lparr>cp_commitId = cf_commitId f, cp_terminal = commit_terminal_of (ci_terminal x), cp_digest = digest_of c,
       cp_receipt = canonicalRuntimeJson E c, cp_outcome = cd_outcome d, cp_error = cd_error d,
       cp_reason = cd_reason d, cp_seq = en_seq ev\<rparr>\<rparr>))"
proof -
  let ?v = "sortValue (locale_le E) c"
  from c env have v: "json_parse E (canonicalRuntimeJson E c) = Some ?v" and ord: "receipt_keys_ordered E"
    by (simp_all add: receipts_read_back_def reads_back_def)
  obtain rr where eq: "c = sealed E (commit_content E x f rr)" using c by (rule created_commit)
  note rb = commit_read_back [OF ord ord, of x f rr, folded eq]
  have look: "get_prop ?v (js k) = get_prop (JObj (commit_content E x f rr)) (js k)" if "k \<noteq> ''digest''" for k
    unfolding rb(2) unfolding eq using that by (rule sealed_lookup)
  have dig: "get_prop ?v (js ''digest'') = JStr (digest_of c)"
    using sealed_digest [of "commit_content E x f rr" E] commit_key_facts(1) [OF ord, of x f rr]
    unfolding rb(2) by (simp add: eq digest_of_def map_of_eq_None_iff)
  from ev(2) have d: "d = \<lparr>cd_commitId = cf_commitId f, cd_terminal = commit_terminal_of (ci_terminal x),
      cd_digest = digest_of c, cd_receipt = canonicalRuntimeJson E c, cd_outcome = commit_outcome (ci_terminal x),
      cd_error = commit_error_text (ci_terminal x), cd_reason = commit_reason (ci_terminal x)\<rparr>"
    by (simp add: committed_input_def)
  have "commit_receipt_valid E ?v d"
    using rb(4) dig by (simp add: commit_receipt_valid_def digest_fits_def look commit_props d del: get_prop.simps)
  then show ?thesis using turn ev(1) v rb(1) d by (simp add: commitTurn_def)
qed

lemma append_commit:
  assumes ok: "store_ok E D s" and go: "committing x s tn" and new: "tp_commit tn = None"
    and c: "createTurnCommitV1 E x f = Inr c" and env: "receipts_read_back E x f"
    and fresh: "fresh_for s 1 ids clk" and id: "cf_commitId f \<noteq> []"
  defines "ev \<equiv> input_event (ts_threadId s) ids clk (cursor (fst (ts_head s)) + 1) (committed_input E x f c)"
  defines "cp \<equiv> \<lparr>cp_commitId = cf_commitId f, cp_terminal = commit_terminal_of (ci_terminal x), cp_digest = digest_of c,
       cp_receipt = canonicalRuntimeJson E c, cp_outcome = commit_outcome (ci_terminal x),
       cp_error = commit_error_text (ci_terminal x), cp_reason = commit_reason (ci_terminal x), cp_seq = en_seq ev\<rparr>"
  defines "st \<equiv> (put_turn (fst (ts_head s)) (ci_turnId x) (tn\<lparr>tp_commit := Some cp\<rparr>))\<lparr>cursor := en_seq ev\<rparr>"
  shows "appendDurableBatch E D ids clk s [committed_input E x f c]
    = (Inr [ev], s\<lparr>ts_events := ts_events s @ [ev], ts_head := (st, D st)\<rparr>)"
proof -
  obtain st0 where head: "ts_head s = (st0, D st0)" using store_head(4) [OF ok] by (cases "ts_head s") auto
  note sh = store_head [OF ok head]
  let ?n = "cursor st0 + 1"
  from fresh head sh(5) have n: "isRuntimeId (ids ?n)" "ids ?n \<notin> set (map en_eventId (ts_events s))"
      "non_negative_safe (clk ?n)" "is_safe_integer ?n"
    by (auto simp: fresh_for_def Let_def)
  from go have ids: "isRuntimeId (ts_threadId s)" "isRuntimeId (ci_turnId x)"
    by (auto simp: committing_def validateInput_def)
  have "envelope_ok ev"
    using n ids id env c sh(5) head
    by (simp add: ev_def input_event_def committed_input_def envelope_ok_def opt_id_ok_def
        non_negative_safe_def receipts_read_back_def)
  then have "assertRuntimeEventEnvelopeV1 (envelope_value ev) = []" by (simp add: envelope_valid_accept)
  then have seal: "seal_inputs (ts_threadId s) ids clk (cursor (fst (ts_head s))) (map en_eventId (ts_events s))
      [committed_input E x f c] = Inr [ev]"
    using n head by (simp add: ev_def Let_def)
  have "commitTurn E st0 ev \<lparr>cd_commitId = cf_commitId f, cd_terminal = commit_terminal_of (ci_terminal x),
      cd_digest = digest_of c, cd_receipt = canonicalRuntimeJson E c, cd_outcome = commit_outcome (ci_terminal x),
      cd_error = commit_error_text (ci_terminal x), cd_reason = commit_reason (ci_terminal x)\<rparr>
    = Inr (put_turn st0 (ci_turnId x) (tn\<lparr>tp_commit := Some cp\<rparr>))"
  proof (subst commit_accepted [OF _ new _ _ c env])
    show "active_turn st0 (ci_turnId x) = Some tn" "first_open_item st0 (tp_itemIds tn) = Inr None"
      using go head by (simp_all add: committing_def)
    show "ci_turnId x \<noteq> []" using ids(2) by (rule isRuntimeId_nonempty)
    show "en_turnId ev = Some (ci_turnId x)" by (simp add: ev_def input_event_def committed_input_def)
  qed (simp_all add: committed_input_def cp_def)
  then have "applyThreadEvent E st0 ev = Inr st"
    using sh(3) head
    by (simp add: applyThreadEvent_def st_def ev_def input_event_def committed_input_def)
  then have "advanceThreadProjection E D (ts_head s) [ev] = Inr (st, D st)"
    by (simp add: advanceThreadProjection_def head verifyThreadProjectionDigest_def freezeProjection_def)
  with seal show ?thesis by (simp add: appendDurableBatch_def del: seal_inputs.simps)
qed

lemma active_turn_put:
  assumes "active_turn st t = Some tn" "tp_status tn' = tp_status tn"
  shows "active_turn ((put_turn st t tn')\<lparr>cursor := n\<rparr>) t = Some tn'"
  using assms by (auto simp: active_turn_def turn_of_def put_turn_def update_conv' split: option.splits if_splits)

lemma first_open_item_same:
  "items st' = items st \<Longrightarrow> first_open_item st' is = first_open_item st is"
  by (induction "is") (auto simp: item_of_def split: option.split)

text \<open>The store after a commit.\<close>

lemma commit_stored:
  assumes ok: "store_ok E D s" and pages: "page_size_ok mx s"
    and go: "committing x s tn" and new: "tp_commit tn = None"
    and f: "f = turn_facts fresh now x s (ts_events s)" and id: "cf_commitId f \<noteq> []"
    and c: "createTurnCommitV1 E x f = Inr c" and env: "receipts_read_back E x f"
    and ids: "fresh_for s 1 ids clk"
    and run: "commitJournal E D ids clk mx fresh now x s = (r, s')"
  obtains ev d cp where "r = Inr c" "store_ok E D s'" "ts_threadId s' = ts_threadId s"
    "ts_events s' = ts_events s @ [ev]" "en_payload ev = TurnCommitted d" "en_turnId ev = Some (ci_turnId x)"
    "active_turn (fst (ts_head s')) (ci_turnId x) = Some (tn\<lparr>tp_commit := Some cp\<rparr>)"
    "cp_receipt cp = canonicalRuntimeJson E c" "cp_terminal cp = commit_terminal_of (ci_terminal x)"
    "items (fst (ts_head s')) = items (fst (ts_head s))"
proof -
  let ?y = "committed_input E x f c"
  have j: "commitJournal E D ids clk mx fresh now x s = (case appendDurableBatch E D ids clk s [?y] of
       (Inl e, s') \<Rightarrow> (Inl (CommitAppend e), s') | (Inr evs, s') \<Rightarrow> (Inr c, s'))"
    unfolding f by (rule commitJournal_first [OF ok pages go new c [unfolded f]])
  note app = append_commit [OF ok go new c env ids id]
  have s': "s' = snd (appendDurableBatch E D ids clk s [?y])" and r: "r = Inr c"
    using run unfolding j app by auto
  have "active_turn (fst (ts_head s)) (ci_turnId x) = Some tn" using go by (simp add: committing_def)
  note act = active_turn_put [OF this]
  let ?ev = "input_event (ts_threadId s) ids clk (cursor (fst (ts_head s)) + 1) ?y"
  let ?cp = "\<lparr>cp_commitId = cf_commitId f, cp_terminal = commit_terminal_of (ci_terminal x), cp_digest = digest_of c,
       cp_receipt = canonicalRuntimeJson E c, cp_outcome = commit_outcome (ci_terminal x),
       cp_error = commit_error_text (ci_terminal x), cp_reason = commit_reason (ci_terminal x), cp_seq = en_seq ?ev\<rparr>"
  obtain d where d: "ai_payload ?y = TurnCommitted d" by (simp add: committed_input_def)
  show thesis
  proof (rule that [OF r, where ev = ?ev and d = d and cp = ?cp])
    show "store_ok E D s'" unfolding s' by (rule appendDurableBatch_ok [OF ok])
    show "active_turn (fst (ts_head s')) (ci_turnId x) = Some (tn\<lparr>tp_commit := Some ?cp\<rparr>)"
      unfolding s' app snd_conv by (simp add: act)
    show "ts_events s' = ts_events s @ [?ev]" "ts_threadId s' = ts_threadId s"
      "items (fst (ts_head s')) = items (fst (ts_head s))"
      unfolding s' app snd_conv by (simp_all add: put_turn_def)
    show "en_payload ?ev = TurnCommitted d" "en_turnId ?ev = Some (ci_turnId x)"
      using d by (simp_all add: input_event_def committed_input_def)
  qed simp_all
qed

subsection \<open>The same commit again\<close>

lemma any_true_False: "any_true xs = Inr False \<longleftrightarrow> (\<forall>y \<in> set xs. y = Inr False)"
  by (induction xs rule: any_true.induct) auto

lemma validate_None:
  "validatePlanReceiptContent E v = None \<longleftrightarrow> (let p = (\<lambda>k. get_prop v (js k)) in
     p ''version'' = jint 1 \<and> is_runtime_id (p ''threadId'') \<and> is_runtime_id (p ''turnId'')
     \<and> blank (p ''plan'') = Inr False \<and> JStr (digestRuntimeValue E (p ''plan'')) = p ''planDigest''
     \<and> p ''returnMode'' \<in> set [JStr (js ''build''), JStr (js ''auto'')]
     \<and> val_is_safe_integer (p ''taskContextRevision'') \<and> \<not> number_below_zero (p ''taskContextRevision'')
     \<and> finite_number (p ''createdAt'') \<and> \<not> number_below_zero (p ''createdAt'')
     \<and> blank (p ''historyDigest'') = Inr False \<and> blank (p ''taskContextDigest'') = Inr False
     \<and> blank (p ''stopDecisionDigest'') = Inr False
     \<and> length_zero (p ''capabilityReceiptDigests'') = Inr False
     \<and> some_blank (p ''capabilityReceiptDigests'') = Inr False
     \<and> some_blank (p ''toolReceiptDigests'') = Inr False \<and> blank (p ''promptReceiptDigest'') = Inr False)"
proof -
  have "(case any_true xs of Inl e \<Rightarrow> Some e | Inr bad \<Rightarrow> if bad then Some CommitInvalid else None) = None
      \<longleftrightarrow> any_true xs = Inr False" for xs
    by (auto split: sum.split)
  then show ?thesis unfolding validatePlanReceiptContent_def Let_def by (simp only: any_true_False) simp
qed

text \<open>Facts that differ in what a repeated call may change: the id of the commit, the cursor and the clock.\<close>

definition same_facts :: "commit_facts \<Rightarrow> commit_facts \<Rightarrow> bool" where
  "same_facts f g \<longleftrightarrow> cf_threadId f = cf_threadId g \<and> cf_stepSnapshotDigests f = cf_stepSnapshotDigests g
     \<and> cf_capabilityReceiptDigests f = cf_capabilityReceiptDigests g
     \<and> cf_toolReceiptDigests f = cf_toolReceiptDigests g"

definition same_input :: "commit_input \<Rightarrow> commit_input \<Rightarrow> bool" where
  "same_input x y \<longleftrightarrow> y = x\<lparr>ci_commitId := ci_commitId y, ci_createdAt := ci_createdAt y\<rparr>"

lemma same_inputD:
  assumes "same_input x y"
  shows "ci_turnId y = ci_turnId x" "ci_history y = ci_history x" "ci_taskContextState y = ci_taskContextState x"
    "ci_taskContextRevision y = ci_taskContextRevision x" "ci_terminal y = ci_terminal x"
    "ci_goalState y = ci_goalState x" "ci_compactPointer y = ci_compactPointer x"
    "ci_stopDecision y = ci_stopDecision x" "ci_plan y = ci_plan x"
  using assms unfolding same_input_def by (cases x; cases y; simp)+

lemma map_of_append_cong:
  "map_of xs k = map_of xs' k \<Longrightarrow> map_of ys k = map_of ys' k \<Longrightarrow> map_of (xs @ ys) k = map_of (xs' @ ys') k"
  by (simp add: map_add_def split: option.split)

lemma plan_content_same:
  assumes "same_input x y" "same_facts f g" "k \<noteq> ''createdAt''"
  shows "get_prop (JObj (plan_content E y g pl)) (js k) = get_prop (JObj (plan_content E x f pl)) (js k)"
proof -
  have "map_of (plan_content E y g pl) (js k) = map_of (plan_content E x f pl) (js k)"
    unfolding plan_content_def same_inputD [OF assms(1)]
    by (intro map_of_append_cong) (use assms(2,3) in \<open>simp_all add: same_facts_def lookups del: map_of.simps\<close>)
  then show ?thesis by simp
qed

lemma createdAt_prop: "get_prop (JObj (plan_content E x f pl)) (js ''createdAt'') = jint (cf_createdAt f)"
  by (simp add: plan_content_def props split: option.split)

lemma plan_receipt_again:
  assumes same: "same_input x y" "same_facts f g" and r: "createPlanReceiptV1 E x f pl = Inr r"
    and now: "0 \<le> cf_createdAt g"
  shows "createPlanReceiptV1 E y g pl = Inr (sealed E (plan_content E y g pl))"
proof -
  have "validatePlanReceiptContent E (JObj (plan_content E x f pl)) = None"
    using r by (auto simp: createPlanReceiptV1_def Let_def split: option.splits)
  moreover have "finite_number (jint (cf_createdAt g))" "\<not> number_below_zero (jint (cf_createdAt g))"
    using now by (simp_all add: jint_def)
  ultimately have "validatePlanReceiptContent E (JObj (plan_content E y g pl)) = None"
    by (simp add: validate_None Let_def plan_content_same [OF same] createdAt_prop del: get_prop.simps)
  then show ?thesis by (simp add: createPlanReceiptV1_def)
qed

lemma commit_content_same:
  assumes "same_input x y" "same_facts f g"
    "k \<notin> set [''commitId'', ''sourceCursor'', ''createdAt'', ''planReceipt'', ''planReceiptDigest'']"
  shows "get_prop (JObj (commit_content E y g q)) (js k) = get_prop (JObj (commit_content E x f p)) (js k)"
proof -
  have "map_of (commit_content E y g q) (js k) = map_of (commit_content E x f p) (js k)"
    unfolding commit_content_pieces same_inputD [OF assms(1)]
    by (intro map_of_append_cong) (use assms(2,3) in \<open>simp_all add: same_facts_def lookups\<close>)
  then show ?thesis by simp
qed

lemma turn_digests_ignore_commits:
  assumes "en_payload ev = TurnCommitted d"
  shows "capability_digests (evs @ [ev]) = capability_digests evs"
    "snapshot_digests (evs @ [ev]) = snapshot_digests evs" "tool_digests (evs @ [ev]) = tool_digests evs"
  using assms by (simp_all add: capability_digests_def snapshot_digests_def tool_digests_def)

lemma turn_facts_again:
  assumes "ts_threadId s' = ts_threadId s" "ts_events s' = ts_events s @ [ev]" "en_payload ev = TurnCommitted d"
    "same_input x y"
  shows "same_facts (turn_facts fresh now x s (ts_events s)) (turn_facts fresh' now' y s' (ts_events s'))"
  using assms(1,2) turn_digests_ignore_commits [OF assms(3)]
  by (simp add: same_facts_def turn_facts_def Let_def same_inputD [OF assms(4)])

text \<open>What a repeated call compares.\<close>

lemma semantic_key: "k \<in> set semantic_keys \<Longrightarrow> k \<noteq> ''digest''
    \<and> k \<notin> set [''commitId'', ''sourceCursor'', ''createdAt'', ''planReceipt'', ''planReceiptDigest'']"
  by (auto simp: semantic_keys_def)

lemma digest_list_key: "k \<in> set digest_list_keys \<Longrightarrow> k \<noteq> ''digest''
    \<and> k \<notin> set [''commitId'', ''sourceCursor'', ''createdAt'', ''planReceipt'', ''planReceiptDigest'']"
  by (auto simp: digest_list_keys_def)

lemma truthy_text: "canonicalRuntimeJson E r \<noteq> [] \<Longrightarrow> \<not> js_falsy (JStr (canonicalRuntimeJson E r))"
  by (simp add: js_falsy_def)

lemma falsy_undefined: "js_falsy JUndefined"
  by (simp add: js_falsy_def)

lemma parse_plan_nonempty:
  assumes "parsePlanReceiptV1 E (JStr t) = Inr v" "json_parse E [] = None"
  shows "t \<noteq> []"
  using assms by (auto simp: parsePlanReceiptV1_def)

lemma sealed_commit_same:
  assumes "same_input x y" "same_facts f g" "k \<in> set semantic_keys \<or> k \<in> set digest_list_keys"
  shows "get_prop (sealed E (commit_content E y g q)) (js k) = get_prop (sealed E (commit_content E x f p)) (js k)"
proof -
  have k: "k \<noteq> ''digest''"
    "k \<notin> set [''commitId'', ''sourceCursor'', ''createdAt'', ''planReceipt'', ''planReceiptDigest'']"
    using assms(3) semantic_key [of k] digest_list_key [of k] by blast+
  show ?thesis unfolding sealed_lookup [OF k(1)] by (rule commit_content_same [OF assms(1,2) k(2)])
qed

lemma sameSemanticCommit_plan:
  assumes "\<And>k. k \<in> set semantic_keys \<or> k \<in> set digest_list_keys \<Longrightarrow> get_prop v (js k) = get_prop c (js k)"
    "sameSemanticPlanReceipt E v c = Inr True"
  shows "sameSemanticCommit E v c = Inr True"
  using assms by (simp add: sameSemanticCommit_def)

lemma commit_again_plain:
  assumes same: "same_input x y" "same_facts f g" and pl: "ci_plan x = None"
    and c: "createTurnCommitV1 E x f = Inr c" and env: "receipts_read_back E x f"
  shows "createTurnCommitV1 E y g = Inr (sealed E (commit_content E y g None))"
    "sameSemanticCommit E (sortValue (locale_le E) c) (sealed E (commit_content E y g None)) = Inr True"
proof -
  let ?v = "sortValue (locale_le E) c" and ?c = "sealed E (commit_content E y g None)"
  have eq: "c = sealed E (commit_content E x f None)" using c pl by (simp add: createTurnCommitV1_def)
  note rb = commit_parses(2) [OF env c]
  show "createTurnCommitV1 E y g = Inr ?c" using pl by (simp add: createTurnCommitV1_def same_inputD [OF same(1)])
  have "get_prop ?v (js ''planReceipt'') = JUndefined" "get_prop ?c (js ''planReceipt'') = JUndefined"
    unfolding rb unfolding eq by (simp_all add: sealed_lookup commit_props del: get_prop.simps)
  then have "sameSemanticPlanReceipt E ?v ?c = Inr True"
    by (simp add: sameSemanticPlanReceipt_def falsy_undefined del: get_prop.simps)
  then show "sameSemanticCommit E ?v ?c = Inr True"
  proof (rule sameSemanticCommit_plan [rotated])
    fix k assume k: "k \<in> set semantic_keys \<or> k \<in> set digest_list_keys"
    show "get_prop ?v (js k) = get_prop ?c (js k)"
      unfolding rb unfolding eq by (rule sealed_commit_same [OF same k, symmetric])
  qed
qed

lemma commit_again_plan:
  assumes same: "same_input x y" "same_facts f g" and now: "0 \<le> cf_createdAt g" and pl: "ci_plan x = Some pl"
    and c: "createTurnCommitV1 E x f = Inr c" and env: "receipts_read_back E x f" "receipts_read_back E y g"
    and empty: "json_parse E [] = None"
  obtains c' where "createTurnCommitV1 E y g = Inr c'"
    "sameSemanticCommit E (sortValue (locale_le E) c) c' = Inr True"
proof -
  let ?v = "sortValue (locale_le E) c"
  from c pl obtain r where r: "createPlanReceiptV1 E x f pl = Inr r"
    and eq: "c = sealed E (commit_content E x f (Some (canonicalRuntimeJson E r, digest_of r)))"
    by (auto simp: createTurnCommitV1_def split: sum.splits)
  define r2 where "r2 = sealed E (plan_content E y g pl)"
  define c2 where "c2 = sealed E (commit_content E y g (Some (canonicalRuntimeJson E r2, digest_of r2)))"
  note rb = commit_parses(2) [OF env(1) c]
  have r': "createPlanReceiptV1 E y g pl = Inr r2" unfolding r2_def by (rule plan_receipt_again [OF same r now])
  have c': "createTurnCommitV1 E y g = Inr c2"
    using pl r' by (simp add: createTurnCommitV1_def same_inputD [OF same(1)] c2_def)
  have ord: "receipt_keys_ordered E" and rr: "reads_back E r" "reads_back E r2"
    using env pl r r' by (simp_all add: receipts_read_back_def same_inputD [OF same(1)])
  note p1 = plan_receipt_parses [OF ord r rr(1)] and p2 = plan_receipt_parses [OF ord r' rr(2)]
  have g1: "get_prop ?v (js ''planReceipt'') = JStr (canonicalRuntimeJson E r)"
    unfolding rb unfolding eq by (simp add: sealed_lookup commit_props del: get_prop.simps)
  have g2: "get_prop c2 (js ''planReceipt'') = JStr (canonicalRuntimeJson E r2)"
    unfolding c2_def by (simp add: sealed_lookup commit_props del: get_prop.simps)
  have "get_prop (sortValue (locale_le E) r) (js k) = get_prop (sortValue (locale_le E) r2) (js k)"
    if k: "k \<noteq> ''createdAt''" "k \<noteq> ''digest''" for k
    unfolding p1(2) p2(2) unfolding p1(3) p2(3) sealed_lookup [OF k(2)]
    by (rule plan_content_same [OF same k(1), symmetric])
  then have "sameSemanticPlanReceipt E ?v c2 = Inr True"
    using truthy_text [OF parse_plan_nonempty [OF p1(1) empty]] truthy_text [OF parse_plan_nonempty [OF p2(1) empty]]
    by (simp add: sameSemanticPlanReceipt_def Let_def g1 g2 p1(1) p2(1) del: get_prop.simps)
  then have "sameSemanticCommit E ?v c2 = Inr True"
  proof (rule sameSemanticCommit_plan [rotated])
    fix k assume k: "k \<in> set semantic_keys \<or> k \<in> set digest_list_keys"
    show "get_prop ?v (js k) = get_prop c2 (js k)"
      unfolding rb unfolding eq c2_def by (rule sealed_commit_same [OF same k, symmetric])
  qed
  with c' show thesis by (rule that)
qed

subsection \<open>The properties\<close>

text \<open>C29: A commit that passes the journal's checks is accepted by the Thread's projection. Given a
  consistent log, a turn that is active, has no open item and no commit, JSON texts that parse to
  what was printed, and a usable event id and clock, the journal appends one event; the log stays
  consistent, the turn stays active and now carries a receipt that parses, with its digest checked
  and its plan receipt bound to it, to the commit returned.\<close>

theorem turn_commit_durable:
  assumes "store_ok E D s" "page_size_ok mx s" "committing x s tn" "tp_commit tn = None"
    and "f = turn_facts fresh now x s (ts_events s)" "cf_commitId f \<noteq> []"
    and "createTurnCommitV1 E x f = Inr c" "receipts_read_back E x f" "fresh_for s 1 ids clk"
    and "commitJournal E D ids clk mx fresh now x s = (r, s')"
  shows "r = Inr c \<and> store_ok E D s' \<and> length (ts_events s') = Suc (length (ts_events s))
    \<and> (\<exists>cp. active_turn (fst (ts_head s')) (ci_turnId x) = Some (tn\<lparr>tp_commit := Some cp\<rparr>)
         \<and> cp_terminal cp = commit_terminal_of (ci_terminal x)
         \<and> parseTurnCommitV1 E (cp_receipt cp) = Inr (sortValue (locale_le E) c))"
proof -
  obtain ev d cp where "r = Inr c" "store_ok E D s'" "ts_events s' = ts_events s @ [ev]"
    "active_turn (fst (ts_head s')) (ci_turnId x) = Some (tn\<lparr>tp_commit := Some cp\<rparr>)"
    "cp_receipt cp = canonicalRuntimeJson E c" "cp_terminal cp = commit_terminal_of (ci_terminal x)"
    by (rule commit_stored [OF assms(1-4) assms(5-8) assms(9,10)])
  with commit_parses(1) [OF assms(8,7)] show ?thesis
    by (intro conjI exI [of _ cp]) simp_all
qed

text \<open>C30: Committing a turn again with the same content, under another commit id or at another time,
  returns the commit that is already durable and changes nothing: a caller may repeat a commit
  whose answer it lost.\<close>

theorem commit_idempotent:
  assumes "store_ok E D s" "page_size_ok mx s" "committing x s tn" "tp_commit tn = None"
    and "f = turn_facts fresh now x s (ts_events s)" "cf_commitId f \<noteq> []"
    and "createTurnCommitV1 E x f = Inr c" "receipts_read_back E x f" "fresh_for s 1 ids clk"
    and "commitJournal E D ids clk mx fresh now x s = (r, s')"
    and "same_input x y" "validateInput (ts_threadId s) y" "page_size_ok mx s'"
    and "g = turn_facts fresh' now' y s' (ts_events s')" "0 \<le> cf_createdAt g"
    and "receipts_read_back E y g" "json_parse E [] = None"
  shows "commitJournal E D ids' clk' mx fresh' now' y s' = (Inr (sortValue (locale_le E) c), s')"
proof -
  note y = same_inputD [OF assms(11)]
  obtain ev d cp where st: "store_ok E D s'" "ts_threadId s' = ts_threadId s"
    "ts_events s' = ts_events s @ [ev]" "en_payload ev = TurnCommitted d"
    "active_turn (fst (ts_head s')) (ci_turnId x) = Some (tn\<lparr>tp_commit := Some cp\<rparr>)"
    "cp_receipt cp = canonicalRuntimeJson E c" "items (fst (ts_head s')) = items (fst (ts_head s))"
    by (rule commit_stored [OF assms(1-4) assms(5-8) assms(9,10)])
  have go: "committing y s' (tn\<lparr>tp_commit := Some cp\<rparr>)"
    using assms(3,12) st(2,5) first_open_item_same [OF st(7)] by (simp add: committing_def y)
  have facts: "same_facts f g" unfolding assms(5,14) by (rule turn_facts_again [OF st(2-4) assms(11)])
  obtain c' where c': "createTurnCommitV1 E y g = Inr c'"
    "sameSemanticCommit E (sortValue (locale_le E) c) c' = Inr True"
  proof (cases "ci_plan x")
    case None
    show thesis by (rule that [OF commit_again_plain [OF assms(11) facts None assms(7,8)]])
  next
    case (Some pl)
    show thesis by (rule commit_again_plan [OF assms(11) facts assms(15) Some assms(7,8,16,17) that])
  qed
  show ?thesis
    using commitJournal_again [OF st(1) assms(13) go _ c'(1) [unfolded assms(14)] _ c'(2)] st(6)
      commit_parses(1) [OF assms(8,7)] by simp
qed

text \<open>C31: The durable commit of a turn is final: whatever is committed for the turn afterwards, the log
  is left as it is, and the call returns the durable commit, and only if the new one has the same
  terminal, history, TaskContext and revision, up to digests; otherwise it fails.\<close>

theorem commit_is_final:
  assumes "active_turn (fst (ts_head s)) (ci_turnId y) = Some tn" "tp_commit tn = Some cp"
    and "parseTurnCommitV1 E (cp_receipt cp) = Inr v"
    and "commitJournal E D ids clk mx fresh now y s = (r, s')"
  shows "s' = s \<and> (r = Inr w \<longrightarrow> w = v
    \<and> get_prop v (js ''terminal'') = JStr (terminal_name (commit_terminal_of (ci_terminal y)))
    \<and> get_prop v (js ''historyDigest'') = JStr (digestRuntimeValue E (history_value (ci_history y)))
    \<and> get_prop v (js ''taskContextDigest'') = JStr (digestRuntimeValue E (ci_taskContextState y))
    \<and> get_prop v (js ''taskContextRevision'') = jint (ci_taskContextRevision y))"
proof -
  have "s' = s \<and> (r = Inr w \<longrightarrow> w = v \<and> (\<exists>f c. createTurnCommitV1 E y f = Inr c \<and> sameSemanticCommit E v c = Inr True))"
    using assms(4) unfolding commitJournal_def Let_def assms(1) option.case
    by (auto simp: assms(2,3) split: if_splits option.splits sum.splits)
  moreover have "get_prop v (js k) = get_prop (JObj (commit_content E y f rr)) (js k)"
    if "sameSemanticCommit E v (sealed E (commit_content E y f rr)) = Inr True" "k \<in> set semantic_keys" for f rr k
  proof -
    have "get_prop v (js k) = get_prop (sealed E (commit_content E y f rr)) (js k)"
      using that by (auto simp: sameSemanticCommit_def split: if_splits)
    with semantic_key [OF that(2)] show ?thesis by (simp add: sealed_lookup del: get_prop.simps)
  qed
  ultimately show ?thesis
    using commit_props by (auto simp: semantic_keys_def simp del: get_prop.simps elim!: created_commit)
qed

subsection \<open>A concrete commit\<close>

definition demo_input :: "nat \<Rightarrow> commit_input" where
  "demo_input n = \<lparr>ci_commitId = Some (test_id (int n)), ci_turnId = test_id 1, ci_history = [],
     ci_taskContextState = JNull, ci_taskContextRevision = 0, ci_terminal = CommitCompleted None,
     ci_goalState = None, ci_compactPointer = None, ci_stopDecision = None, ci_plan = None,
     ci_createdAt = Some 7\<rparr>"

definition demo_facts :: "nat \<Rightarrow> int \<Rightarrow> commit_facts" where
  "demo_facts n sourceCursor = \<lparr>cf_commitId = test_id (int n), cf_threadId = test_id 0,
     cf_sourceCursor = sourceCursor, cf_stepSnapshotDigests = [], cf_capabilityReceiptDigests = [],
     cf_toolReceiptDigests = [], cf_createdAt = 7\<rparr>"

text \<open>An environment that prints a commit as its id.\<close>

definition print_env :: js_env where
  "print_env = \<lparr>json_stringify = (\<lambda>v. case get_prop v (js ''commitId'') of JStr i \<Rightarrow> i | _ \<Rightarrow> js ''x''),
     json_parse = (\<lambda>s. None), string_of = (\<lambda>v. []), sha256_hex = (\<lambda>s. js ''d''), locale_le = unit_le\<rparr>"

definition demo_commit :: "nat \<Rightarrow> int \<Rightarrow> jsval" where
  "demo_commit n k = sealed print_env (commit_content print_env (demo_input n) (demo_facts n k) None)"

definition demo_env :: js_env where
  "demo_env = print_env\<lparr>json_parse := (\<lambda>s.
     if s = test_id 4 then Some (sortValue unit_le (demo_commit 4 2))
     else if s = test_id 5 then Some (sortValue unit_le (demo_commit 5 3)) else None)\<rparr>"

definition demo_store :: thread_store where
  "demo_store = (let evs = take 2 crashed_log in \<lparr>ts_threadId = test_id 0, ts_events = evs,
     ts_head = (case replay (applyThreadEvent demo_env) (new_projection (test_id 0)) evs of
       Inl e \<Rightarrow> new_projection [] | Inr st \<Rightarrow> st, [])\<rparr>)"

lemma demo_env_prints:
  "canonicalRuntimeJson demo_env = canonicalRuntimeJson print_env"
  "digestRuntimeValue demo_env = digestRuntimeValue print_env" "locale_le demo_env = unit_le"
  by (simp_all add: demo_env_def canonicalRuntimeJson_def digestRuntimeValue_def print_env_def fun_eq_iff)

lemma demo_created: "createTurnCommitV1 demo_env (demo_input n) (demo_facts n k) = Inr (demo_commit n k)"
  by (simp add: createTurnCommitV1_def demo_commit_def demo_input_def sealed_def commit_content_def
      opt_digested_def demo_env_prints)

lemma demo_ordered: "receipt_keys_ordered demo_env" "receipt_keys_ordered print_env"
  by (simp_all add: receipt_keys_ordered_def demo_env_prints print_env_def unit_le_linear)

lemma demo_text: "canonicalRuntimeJson print_env (demo_commit n k) = test_id (int n)"
proof -
  have "get_prop (sortValue unit_le (demo_commit n k)) (js ''commitId'') = JStr (test_id (int n))"
    using commit_read_back(2) [OF demo_ordered(2) demo_ordered(2), of "demo_input n" "demo_facts n k" None "js ''commitId''"]
    by (simp add: demo_commit_def print_env_def sealed_lookup commit_props demo_facts_def del: get_prop.simps)
  then show ?thesis by (simp add: canonicalRuntimeJson_def print_env_def)
qed

lemma demo_ids: "test_id 4 \<noteq> test_id 5" "test_id n \<noteq> []" "[] \<noteq> test_id n"
  by (simp_all add: test_id_def)

lemma demo_digest: "digest_of (demo_commit n k) = js ''d''"
  using sealed_digest [of "commit_content print_env (demo_input n) (demo_facts n k) None" print_env]
    commit_key_facts(1) [OF demo_ordered(2), of "demo_input n" "demo_facts n k" None]
  by (simp add: demo_commit_def digest_of_def map_of_eq_None_iff digestRuntimeValue_def print_env_def)

lemma demo_reads: "receipts_read_back demo_env (demo_input 4) (demo_facts 4 2)"
    "receipts_read_back demo_env (demo_input 5) (demo_facts 5 3)"
  by (simp_all add: receipts_read_back_def demo_ordered demo_created reads_back_def demo_env_prints demo_text
      demo_ids demo_digest)
    (simp_all add: demo_input_def demo_env_def demo_ids demo_ids(1) [symmetric])

lemma demo_replay:
  "\<not> isl (replay (applyThreadEvent demo_env) (new_projection (test_id 0)) (take 2 crashed_log))"
  "cursor (fst (ts_head demo_store)) = 2"
  "map_option tp_commit (active_turn (fst (ts_head demo_store)) (test_id 1)) = Some None"
  "map_option tp_itemIds (active_turn (fst (ts_head demo_store)) (test_id 1)) = Some []"
  by code_simp+

lemma demo_store_fields: "ts_threadId demo_store = test_id 0" "ts_events demo_store = take 2 crashed_log"
  by (simp_all add: demo_store_def Let_def)

lemma demo_events: "map en_eventId (take 2 crashed_log) = [test_id 1, test_id 2]" "length (take 2 crashed_log) = 2"
  by (simp_all add: crashed_log_def input_event_def)

lemma demo_store_ok: "store_ok demo_env (\<lambda>st. []) demo_store"
proof -
  obtain st where st: "replay (applyThreadEvent demo_env) (new_projection (test_id 0)) (take 2 crashed_log) = Inr st"
    using demo_replay(1) by (cases "replay (applyThreadEvent demo_env) (new_projection (test_id 0)) (take 2 crashed_log)") auto
  have "list_all envelope_ok (take 2 crashed_log)"
    using crashed_log_ok by (auto simp: list_all_iff dest: in_set_takeD)
  moreover have "distinct (map en_eventId (take 2 crashed_log))" unfolding demo_events by (simp add: test_id_def)
  ultimately show ?thesis
    using st by (simp add: store_ok_def demo_store_def Let_def projectThreadEvents_Inr)
qed

lemma demo_turn:
  obtains tn where "active_turn (fst (ts_head demo_store)) (test_id 1) = Some tn" "tp_commit tn = None" "tp_itemIds tn = []"
  using demo_replay(3,4) by auto

lemma demo_valid: "validateInput (test_id 0) (demo_input 4)" "validateInput (test_id 0) (demo_input 5)"
  using test_ids by (simp_all add: validateInput_def demo_input_def non_negative_safe_def is_safe_integer_def)

lemma demo_committing:
  assumes "active_turn (fst (ts_head demo_store)) (test_id 1) = Some tn" "tp_itemIds tn = []"
  shows "committing (demo_input 4) demo_store tn"
  using assms demo_valid
  by (simp add: committing_def demo_store_fields) (simp add: demo_input_def assertToolCallGroups_def)

lemma demo_turn_facts: "turn_facts [] 0 (demo_input 4) demo_store (ts_events demo_store) = demo_facts 4 2"
proof -
  have "capability_digests (filter P (take 2 crashed_log)) = []" "snapshot_digests (filter P (take 2 crashed_log)) = []"
    "tool_digests (filter P (take 2 crashed_log)) = []" for P
    by (simp_all add: crashed_log_def input_event_def test_input_def capability_digests_def
        snapshot_digests_def tool_digests_def)
  then show ?thesis
    by (simp add: turn_facts_def demo_facts_def demo_store_fields demo_replay Let_def) (simp add: demo_input_def)
qed

lemma demo_pages: "page_size_ok 10 demo_store"
  by (simp add: page_size_ok_def demo_store_fields demo_events is_safe_integer_def)

lemma demo_fresh: "fresh_for demo_store 1 test_id id"
  using test_ids unfolding fresh_for_def Let_def demo_store_fields demo_replay
  by (simp add: demo_events is_safe_integer_def non_negative_safe_def test_id_def)

lemma turn_commit_durable_witness:
  "\<exists>s'. commitJournal demo_env (\<lambda>st. []) test_id id 10 [] 0 (demo_input 4) demo_store = (Inr (demo_commit 4 2), s')
     \<and> length (ts_events s') = 3"
proof -
  obtain tn where tn: "active_turn (fst (ts_head demo_store)) (test_id 1) = Some tn" "tp_commit tn = None"
    "tp_itemIds tn = []" by (rule demo_turn)
  obtain r s' where run: "commitJournal demo_env (\<lambda>st. []) test_id id 10 [] 0 (demo_input 4) demo_store = (r, s')"
    by fastforce
  have "cf_commitId (demo_facts 4 2) \<noteq> []" by (simp add: demo_facts_def demo_ids)
  from turn_commit_durable [OF demo_store_ok demo_pages demo_committing [OF tn(1,3)] tn(2)
      demo_turn_facts [symmetric] this demo_created demo_reads(1) demo_fresh run] run
  have "r = Inr (demo_commit 4 2)" "length (ts_events s') = Suc (length (take 2 crashed_log))"
    unfolding demo_store_fields by blast+
  with run show ?thesis unfolding demo_events(2) by simp
qed

lemma demo_committed:
  obtains s' ev d cp tn where
    "commitJournal demo_env (\<lambda>st. []) test_id id 10 [] 0 (demo_input 4) demo_store = (Inr (demo_commit 4 2), s')"
    "store_ok demo_env (\<lambda>st. []) s'" "ts_threadId s' = test_id 0" "ts_events s' = ts_events demo_store @ [ev]"
    "en_payload ev = TurnCommitted d" "active_turn (fst (ts_head s')) (test_id 1) = Some (tn\<lparr>tp_commit := Some cp\<rparr>)"
    "cp_receipt cp = test_id 4"
proof -
  obtain tn where tn: "active_turn (fst (ts_head demo_store)) (test_id 1) = Some tn" "tp_commit tn = None"
    "tp_itemIds tn = []" by (rule demo_turn)
  obtain r s' where run: "commitJournal demo_env (\<lambda>st. []) test_id id 10 [] 0 (demo_input 4) demo_store = (r, s')"
    by fastforce
  have id: "cf_commitId (demo_facts 4 2) \<noteq> []" by (simp add: demo_facts_def demo_ids)
  have turn: "ci_turnId (demo_input 4) = test_id 1" by (simp add: demo_input_def)
  obtain ev d cp where "r = Inr (demo_commit 4 2)" "store_ok demo_env (\<lambda>st. []) s'"
    "ts_threadId s' = ts_threadId demo_store" "ts_events s' = ts_events demo_store @ [ev]"
    "en_payload ev = TurnCommitted d"
    "active_turn (fst (ts_head s')) (test_id 1) = Some (tn\<lparr>tp_commit := Some cp\<rparr>)"
    "cp_receipt cp = canonicalRuntimeJson demo_env (demo_commit 4 2)"
    by (rule commit_stored [OF demo_store_ok demo_pages demo_committing [OF tn(1,3)] tn(2)
      demo_turn_facts [symmetric] id demo_created demo_reads(1) demo_fresh run, unfolded turn]) blast
  with run that show thesis by (simp add: demo_env_prints demo_text demo_store_fields)
qed

lemma commit_idempotent_witness:
  "\<exists>s' v. commitJournal demo_env (\<lambda>st. []) test_id id 10 [] 0 (demo_input 4) demo_store = (Inr (demo_commit 4 2), s')
     \<and> commitJournal demo_env (\<lambda>st. []) test_id id 10 [] 0 (demo_input 5) s' = (Inr v, s')"
proof -
  obtain tn where tn: "active_turn (fst (ts_head demo_store)) (test_id 1) = Some tn" "tp_commit tn = None"
    "tp_itemIds tn = []" by (rule demo_turn)
  obtain s' ev d where run: "commitJournal demo_env (\<lambda>st. []) test_id id 10 [] 0 (demo_input 4) demo_store
      = (Inr (demo_commit 4 2), s')" and st: "store_ok demo_env (\<lambda>st. []) s'" "ts_threadId s' = test_id 0"
    "ts_events s' = ts_events demo_store @ [ev]" "en_payload ev = TurnCommitted d" by (rule demo_committed)
  have id: "cf_commitId (demo_facts 4 2) \<noteq> []" by (simp add: demo_facts_def demo_ids)
  have same: "same_input (demo_input 4) (demo_input 5)" by (simp add: same_input_def demo_input_def)
  have pages: "page_size_ok 10 s'" using demo_pages by (simp add: page_size_ok_def st(3) demo_store_fields demo_events is_safe_integer_def)
  have "same_facts (demo_facts 4 2) (turn_facts [] 0 (demo_input 5) s' (ts_events s'))"
    by (rule turn_facts_again [OF _ st(3,4) same, of "[]" 0 "[]" 0, unfolded demo_turn_facts demo_store_fields(1), OF st(2)])
  moreover have "cursor (fst (ts_head s')) = 3"
    using store_seqs(2) [OF st(1)] demo_events(2) by (simp add: st(3) demo_store_fields)
  ultimately have g: "turn_facts [] 0 (demo_input 5) s' (ts_events s') = demo_facts 5 3"
    by (simp add: same_facts_def demo_facts_def turn_facts_def Let_def demo_input_def)
  have now: "0 \<le> cf_createdAt (demo_facts 5 3)" by (simp add: demo_facts_def)
  have empty: "json_parse demo_env [] = None" by (simp add: demo_env_def demo_ids)
  from commit_idempotent [OF demo_store_ok demo_pages demo_committing [OF tn(1,3)] tn(2) demo_turn_facts [symmetric]
      id demo_created demo_reads(1) demo_fresh run same
      demo_valid(2) [folded demo_store_fields(1)] pages g [symmetric] now demo_reads(2) empty] run
  show ?thesis by blast
qed

lemma commit_is_final_witness:
  "\<exists>s' s''. fst (commitJournal demo_env (\<lambda>st. []) test_id id 10 [] 0 (demo_input 4) demo_store) = Inr (demo_commit 4 2)
     \<and> s' = snd (commitJournal demo_env (\<lambda>st. []) test_id id 10 [] 0 (demo_input 4) demo_store)
     \<and> s'' = snd (commitJournal demo_env (\<lambda>st. []) test_id id 10 [] 0
         ((demo_input 5)\<lparr>ci_terminal := CommitFailed (js ''e'')\<rparr>) s') \<and> s'' = s'"
proof -
  let ?y = "(demo_input 5)\<lparr>ci_terminal := CommitFailed (js ''e'')\<rparr>"
  obtain s' ev d cp tn where run: "commitJournal demo_env (\<lambda>st. []) test_id id 10 [] 0 (demo_input 4) demo_store
      = (Inr (demo_commit 4 2), s')" and turn: "active_turn (fst (ts_head s')) (test_id 1) = Some (tn\<lparr>tp_commit := Some cp\<rparr>)"
    and cp: "cp_receipt cp = test_id 4" by (rule demo_committed)
  have "ci_turnId ?y = test_id 1" by (simp add: demo_input_def)
  with turn have t: "active_turn (fst (ts_head s')) (ci_turnId ?y) = Some (tn\<lparr>tp_commit := Some cp\<rparr>)" by simp
  have v: "parseTurnCommitV1 demo_env (cp_receipt cp) = Inr (sortValue unit_le (demo_commit 4 2))"
    using commit_parses(1) [OF demo_reads(1) demo_created] by (simp add: cp demo_env_prints demo_text)
  obtain r s'' where again: "commitJournal demo_env (\<lambda>st. []) test_id id 10 [] 0 ?y s' = (r, s'')" by fastforce
  have "s'' = s'" using commit_is_final [OF t _ v again] by simp
  with run again show ?thesis by simp
qed

end
