(* ===== verification/ResourceScope.thy ===== *)
theory ResourceScope
  imports JsonValue
begin

section \<open>Resource scopes\<close>

text \<open>
  Models \<open>ResourceScope\<close> of \<open>src/src/runtime/resource-scope.ts\<close>: the owner of cancellable resources
  for one lifetime. Asynchronous methods are cut at their awaits: an activation in flight is a
  ticket, and the close of the scope is a stage that the wait for leases, its timer and the
  disposers advance. Disposers may call back into the scope, so other operations can come between
  any two of them. Disposers and leases are numbered as they are handed to or by the scope; clocks,
  timers and the answers of activations and disposers are arguments of the steps.
\<close>

subsection \<open>Data\<close>

datatype scope_phase = ScopeActive | ScopeDraining | ScopeClosed

datatype scope_error =
    ScopeStateError scope_phase | ResourceIdEmpty | ResourceIdTaken | NoDisposer
  | StaleResourceEpoch int | ResourceActivationError | DeadlineRange

text \<open>
  The close: waiting for leases, with the outcome once it is decided; the resources still to be
  disposed of; one whose disposer returned a promise; over.
\<close>

datatype close_stage =
    LeaseWait "bool option"
  | Disposing "(jsstr \<times> nat) list"
  | Settling jsstr "(jsstr \<times> nat) list"
  | CloseDone

record closing =
  cl_reason :: jsstr
  cl_startedAt :: int
  cl_deadlineAt :: rat
  cl_stage :: close_stage
  cl_deadlineAborted :: bool
  cl_timedOut :: bool
  cl_leaseTimedOut :: bool
  cl_disposed :: "jsstr list"
  cl_errors :: "(jsstr \<times> jsstr) list"
  cl_completedAt :: "int option"

datatype disposal_cause = Teardown | StaleEpoch

datatype scope_out = Disposed nat jsstr disposal_cause

record scope =
  sc_id :: jsstr
  sc_defaultDeadline :: rat
  sc_phase :: scope_phase
  sc_epoch :: int
  sc_resources :: "(jsstr \<times> nat) list"
  sc_resourceIds :: "jsstr list"
  sc_pending :: "jsstr list"
  sc_leases :: "nat list"
  sc_closing :: "closing option"
  sc_activations :: "(nat \<times> jsstr \<times> int) list"
  sc_nextDisposer :: nat
  sc_nextTicket :: nat
  sc_nextLease :: nat
  sc_out :: "scope_out list"

fun validateDeadline :: "jsnum \<Rightarrow> rat option" where
  "validateDeadline (Fin q) = (if q < 0 then None else Some q)"
| "validateDeadline n = None"

definition new_scope :: "jsstr option \<Rightarrow> jsstr \<Rightarrow> jsnum option \<Rightarrow> scope option" where
  "new_scope given fresh deadline =
     map_option (\<lambda>ms. \<lparr>sc_id = (case given of None \<Rightarrow> fresh | Some i \<Rightarrow> if js_trim i = [] then fresh else js_trim i),
       sc_defaultDeadline = ms, sc_phase = ScopeActive, sc_epoch = 1, sc_resources = [],
       sc_resourceIds = [], sc_pending = [], sc_leases = [], sc_closing = None, sc_activations = [],
       sc_nextDisposer = 0, sc_nextTicket = 0, sc_nextLease = 0, sc_out = []\<rparr>)
     (validateDeadline (case deadline of None \<Rightarrow> Fin 5000 | Some d \<Rightarrow> d))"

subsection \<open>Epochs and checks\<close>

definition isCurrentEpoch :: "int \<Rightarrow> scope \<Rightarrow> bool" where
  "isCurrentEpoch e s \<longleftrightarrow> sc_phase s = ScopeActive \<and> e = sc_epoch s"

definition advanceEpoch :: "scope \<Rightarrow> (scope_error + int) \<times> scope" where
  "advanceEpoch s = (if sc_phase s \<noteq> ScopeActive then (Inl (ScopeStateError (sc_phase s)), s)
     else (Inr (sc_epoch s + 1), s\<lparr>sc_epoch := sc_epoch s + 1\<rparr>))"

definition commitIfCurrent :: "int \<Rightarrow> ('a \<Rightarrow> 'b) \<Rightarrow> 'a \<Rightarrow> scope \<Rightarrow> 'b option" where
  "commitIfCurrent e commit x s = (if isCurrentEpoch e s then Some (commit x) else None)"

text \<open>The checks \<open>register\<close> and \<open>activate\<close> share; \<open>callable\<close> is the \<open>typeof\<close> check.\<close>

definition resource_refused :: "jsstr \<Rightarrow> bool \<Rightarrow> scope \<Rightarrow> scope_error option" where
  "resource_refused i callable s = (let rid = js_trim i in
     if sc_phase s \<noteq> ScopeActive then Some (ScopeStateError (sc_phase s))
     else if rid = [] then Some ResourceIdEmpty
     else if List.member (sc_resourceIds s) rid \<or> List.member (sc_pending s) rid then Some ResourceIdTaken
     else if \<not> callable then Some NoDisposer else None)"

subsection \<open>close\<close>

definition scope_reason :: "jsstr option \<Rightarrow> jsstr" where
  "scope_reason r = (case r of None \<Rightarrow> js ''scope_closed''
     | Some t \<Rightarrow> if js_trim t = [] then js ''scope_closed'' else js_trim t)"

text \<open>\<open>waitForLeases\<close> up to its promise.\<close>

definition waitForLeases :: "rat \<Rightarrow> int \<Rightarrow> scope \<Rightarrow> bool option" where
  "waitForLeases deadlineAt now s = (if sc_leases s = [] then Some True
     else if max 0 (deadlineAt - of_int now) = 0 then Some False else None)"

definition close_scope ::
  "int \<Rightarrow> int \<Rightarrow> jsstr option \<Rightarrow> jsnum option \<Rightarrow> scope \<Rightarrow> scope_error option \<times> scope" where
  "close_scope now now' reason deadline s =
     (if sc_closing s \<noteq> None then (None, s)
      else case validateDeadline (case deadline of None \<Rightarrow> Fin (sc_defaultDeadline s) | Some d \<Rightarrow> d) of
        None \<Rightarrow> (Some DeadlineRange, s)
      | Some ms \<Rightarrow> (None, s\<lparr>sc_phase := ScopeDraining, sc_epoch := sc_epoch s + 1,
          sc_closing := Some \<lparr>cl_reason = scope_reason reason, cl_startedAt = now,
            cl_deadlineAt = of_int now + ms, cl_stage = LeaseWait (waitForLeases (of_int now + ms) now' s),
            cl_deadlineAborted = False, cl_timedOut = False, cl_leaseTimedOut = False,
            cl_disposed = [], cl_errors = [], cl_completedAt = None\<rparr>\<rparr>))"

text \<open>The timer of the wait for leases.\<close>

definition lease_timer :: "scope \<Rightarrow> scope" where
  "lease_timer s = (case sc_closing s of
     Some c \<Rightarrow> (if cl_stage c = LeaseWait None
       then s\<lparr>sc_closing := Some (c\<lparr>cl_stage := LeaseWait (Some False)\<rparr>)\<rparr> else s)
   | None \<Rightarrow> s)"

text \<open>The loop over the resources goes on, or the scope is closed and the report made.\<close>

definition next_disposal :: "int \<Rightarrow> (jsstr \<times> nat) list \<Rightarrow> closing \<Rightarrow> scope \<Rightarrow> scope" where
  "next_disposal now todo c s =
     (if todo = []
      then s\<lparr>sc_pending := [], sc_phase := ScopeClosed,
             sc_closing := Some (c\<lparr>cl_stage := CloseDone, cl_completedAt := Some now\<rparr>)\<rparr>
      else s\<lparr>sc_closing := Some (c\<lparr>cl_stage := Disposing todo\<rparr>)\<rparr>)"

definition expire :: "closing \<Rightarrow> closing" where
  "expire c = c\<lparr>cl_timedOut := True, cl_deadlineAborted := True\<rparr>"

definition resume_close :: "int \<Rightarrow> scope \<Rightarrow> scope" where
  "resume_close now s = (case sc_closing s of
     Some c \<Rightarrow>
       (case cl_stage c of
          LeaseWait (Some drained) \<Rightarrow>
            next_disposal now (rev (sc_resources s))
              (if drained then c else (expire c)\<lparr>cl_leaseTimedOut := True\<rparr>)
              (s\<lparr>sc_resources := [], sc_resourceIds := []\<rparr>)
        | _ \<Rightarrow> s)
   | None \<Rightarrow> s)"

text \<open>
  A disposer returned, threw an error with a message, or returned a promise. The clock is read before
  the disposer is called and, after the last one, for the report.
\<close>

datatype dispose_answer = DisposeReturned | DisposeThrew jsstr | DisposePromise

definition dispose_next :: "int \<Rightarrow> int \<Rightarrow> dispose_answer \<Rightarrow> scope \<Rightarrow> scope" where
  "dispose_next now now' answer s = (case sc_closing s of
     Some c \<Rightarrow>
       (case cl_stage c of
          Disposing ((i, n) # todo) \<Rightarrow>
            (let over = max 0 (cl_deadlineAt c - of_int now) = 0;
                 c1 = c\<lparr>cl_disposed := cl_disposed c @ [i]\<rparr>;
                 c2 = (if over \<and> \<not> cl_deadlineAborted c then expire c1 else c1);
                 s1 = s\<lparr>sc_out := sc_out s @ [Disposed n i Teardown]\<rparr> in
             case answer of
               DisposeReturned \<Rightarrow> next_disposal now' todo c2 s1
             | DisposeThrew m \<Rightarrow> next_disposal now' todo (c2\<lparr>cl_errors := cl_errors c2 @ [(i, m)]\<rparr>) s1
             | DisposePromise \<Rightarrow>
                 (if over then next_disposal now' todo c2 s1
                  else s1\<lparr>sc_closing := Some (c2\<lparr>cl_stage := Settling i todo\<rparr>)\<rparr>))
        | _ \<Rightarrow> s)
   | None \<Rightarrow> s)"

text \<open>
  The promise of a disposer resolved, was rejected (\<open>None\<close>: with \<open>undefined\<close>, which the code takes
  for success), or the deadline came first.
\<close>

datatype disposal_outcome = DisposalResolved | DisposalRejected "jsstr option" | DisposalTimedOut

definition settle_disposal :: "int \<Rightarrow> disposal_outcome \<Rightarrow> scope \<Rightarrow> scope" where
  "settle_disposal now outcome s = (case sc_closing s of
     Some c \<Rightarrow>
       (case cl_stage c of
          Settling i todo \<Rightarrow> next_disposal now todo
            (case outcome of DisposalResolved \<Rightarrow> c | DisposalRejected None \<Rightarrow> c
             | DisposalRejected (Some m) \<Rightarrow> c\<lparr>cl_errors := cl_errors c @ [(i, m)]\<rparr>
             | DisposalTimedOut \<Rightarrow> expire c) s
        | _ \<Rightarrow> s)
   | None \<Rightarrow> s)"

subsection \<open>register and activate\<close>

definition add_resource :: "jsstr \<Rightarrow> scope \<Rightarrow> scope" where
  "add_resource i s = s\<lparr>sc_resourceIds := sc_resourceIds s @ [i],
     sc_resources := sc_resources s @ [(i, sc_nextDisposer s)], sc_nextDisposer := Suc (sc_nextDisposer s)\<rparr>"

definition register_resource :: "jsstr \<Rightarrow> bool \<Rightarrow> scope \<Rightarrow> scope_error option \<times> scope" where
  "register_resource i callable s = (case resource_refused i callable s of
     Some e \<Rightarrow> (Some e, s) | None \<Rightarrow> (None, add_resource (js_trim i) s))"

definition activate_resource :: "jsstr \<Rightarrow> bool \<Rightarrow> scope \<Rightarrow> scope_error option \<times> scope" where
  "activate_resource i callable s = (case resource_refused i callable s of
     Some e \<Rightarrow> (Some e, s)
   | None \<Rightarrow> (None, s\<lparr>sc_pending := sc_pending s @ [js_trim i],
       sc_activations := sc_activations s @ [(sc_nextTicket s, js_trim i, sc_epoch s)],
       sc_nextTicket := Suc (sc_nextTicket s)\<rparr>))"

text \<open>
  An activation ends: with a value and a disposer, or not (it threw, or returned no disposer), which
  closes the scope. What the caller then gets is \<open>StaleResourceEpoch\<close> or
  \<open>ResourceActivationError\<close>, the first when the stale resource is disposed of (with the epoch of that
  later time, left out here), the latter when the close is over.
\<close>

definition activation_ended ::
  "int \<Rightarrow> int \<Rightarrow> nat \<Rightarrow> bool \<Rightarrow> scope \<Rightarrow> scope_error option \<times> scope" where
  "activation_ended now now' t succeeded s = (case map_of (sc_activations s) t of
     None \<Rightarrow> (None, s)
   | Some (i, e) \<Rightarrow>
       (let s1 = s\<lparr>sc_pending := filter (\<lambda>j. j \<noteq> i) (sc_pending s),
                  sc_activations := AList.delete t (sc_activations s)\<rparr> in
        if \<not> succeeded
        then (Some ResourceActivationError,
              snd (close_scope now now' (Some (js ''activation_failed:'' @ i)) None s1))
        else if \<not> isCurrentEpoch e s
        then (Some (StaleResourceEpoch e),
              s1\<lparr>sc_out := sc_out s @ [Disposed (sc_nextDisposer s) i StaleEpoch],
                 sc_nextDisposer := Suc (sc_nextDisposer s)\<rparr>)
        else (None, add_resource i s1)))"

subsection \<open>Leases\<close>

definition acquireLease :: "scope \<Rightarrow> (scope_error + nat) \<times> scope" where
  "acquireLease s = (if sc_phase s \<noteq> ScopeActive then (Inl (ScopeStateError (sc_phase s)), s)
     else (Inr (sc_nextLease s), s\<lparr>sc_leases := sc_leases s @ [sc_nextLease s],
       sc_nextLease := Suc (sc_nextLease s)\<rparr>))"

text \<open>\<open>release\<close> of a lease and the notice to the waiter of the close.\<close>

definition release_lease :: "nat \<Rightarrow> scope \<Rightarrow> scope" where
  "release_lease l s =
     (let s1 = s\<lparr>sc_leases := filter (\<lambda>m. m \<noteq> l) (sc_leases s)\<rparr> in
      case sc_closing s1 of
        Some c \<Rightarrow> (if sc_leases s1 = [] \<and> cl_stage c = LeaseWait None
          then s1\<lparr>sc_closing := Some (c\<lparr>cl_stage := LeaseWait (Some True)\<rparr>)\<rparr> else s1)
      | None \<Rightarrow> s1)"

subsection \<open>Children\<close>

text \<open>
  \<open>createChild\<close>: the child listens to the parent's signal and is closed by a resource of the parent.
  Both happen to the child as \<open>close_scope\<close>, with the reasons \<open>parent_aborted\<close> and
  \<open>parent_closed:\<close> and the parent's id. The child is made before the parent may refuse the resource.
\<close>

definition createChild ::
  "int \<Rightarrow> int \<Rightarrow> jsstr \<Rightarrow> jsnum option \<Rightarrow> scope \<Rightarrow> scope_error option \<times> scope option \<times> scope" where
  "createChild now now' i deadline s =
     (if js_trim i = [] then (Some ResourceIdEmpty, None, s)
      else case new_scope (Some (sc_id s @ js ''/'' @ js_trim i)) [] deadline of
        None \<Rightarrow> (Some DeadlineRange, None, s)
      | Some child \<Rightarrow>
          (let child' = (if sc_closing s \<noteq> None
               then snd (close_scope now now' (Some (js ''parent_aborted'')) None child) else child);
               (e, s') = register_resource (js ''child:'' @ js_trim i) True s in
           (e, Some child', s')))"

subsection \<open>Steps\<close>

datatype scope_op =
    ScRegister jsstr bool
  | ScActivate jsstr bool
  | ScActivated int int nat bool
  | ScAcquire
  | ScRelease nat
  | ScAdvance
  | ScClose int int "jsstr option" "jsnum option"
  | ScTimer
  | ScResume int
  | ScDispose int int dispose_answer
  | ScSettled int disposal_outcome

fun scope_step :: "scope_op \<Rightarrow> scope \<Rightarrow> scope" where
  "scope_step (ScRegister i callable) s = snd (register_resource i callable s)"
| "scope_step (ScActivate i callable) s = snd (activate_resource i callable s)"
| "scope_step (ScActivated now now' t succeeded) s = snd (activation_ended now now' t succeeded s)"
| "scope_step ScAcquire s = snd (acquireLease s)"
| "scope_step (ScRelease l) s = release_lease l s"
| "scope_step ScAdvance s = snd (advanceEpoch s)"
| "scope_step (ScClose now now' reason deadline) s = snd (close_scope now now' reason deadline s)"
| "scope_step ScTimer s = lease_timer s"
| "scope_step (ScResume now) s = resume_close now s"
| "scope_step (ScDispose now now' answer) s = dispose_next now now' answer s"
| "scope_step (ScSettled now outcome) s = settle_disposal now outcome s"

end
