(* ===== verification/ScopeProperties.thy ===== *)
theory ScopeProperties
  imports ResourceScope
begin

section \<open>Every resource of a scope is disposed of once, last first, and closing ends\<close>

subsection \<open>The invariant\<close>

definition disposals :: "scope_out list \<Rightarrow> nat list" where
  "disposals out = map (\<lambda>x. case x of Disposed n i c \<Rightarrow> n) out"

definition teardown :: "scope_out list \<Rightarrow> nat list" where
  "teardown out = concat (map (\<lambda>x. case x of Disposed n i c \<Rightarrow> if c = Teardown then [n] else []) out)"

lemma scope_out_simps [simp]:
  "disposals [] = []" "disposals (a @ b) = disposals a @ disposals b"
  "disposals [Disposed n i c] = [n]" "teardown [] = []" "teardown (a @ b) = teardown a @ teardown b"
  "teardown [Disposed n i Teardown] = [n]" "teardown [Disposed n i StaleEpoch] = []"
  by (simp_all add: disposals_def teardown_def)

text \<open>The resources the close has still to dispose of.\<close>

fun stage_todo :: "close_stage \<Rightarrow> (jsstr \<times> nat) list" where
  "stage_todo (Disposing todo) = todo"
| "stage_todo (Settling i todo) = todo"
| "stage_todo _ = []"

definition scope_todo :: "scope \<Rightarrow> (jsstr \<times> nat) list" where
  "scope_todo s = (case sc_closing s of None \<Rightarrow> [] | Some c \<Rightarrow> stage_todo (cl_stage c))"

text \<open>Every disposer handed to the scope is at exactly one place.\<close>

definition held :: "scope \<Rightarrow> nat list" where
  "held s = map snd (sc_resources s) @ map snd (scope_todo s) @ disposals (sc_out s)"

definition numbers_ok :: "scope \<Rightarrow> bool" where
  "numbers_ok s \<longleftrightarrow> distinct (held s) \<and> set (held s) = {0 ..< sc_nextDisposer s}"

definition order_ok :: "scope \<Rightarrow> bool" where
  "order_ok s \<longleftrightarrow> sorted_wrt (<) (map snd (sc_resources s))
     \<and> sorted_wrt (>) (teardown (sc_out s) @ map snd (scope_todo s))"

fun scope_stage_ok :: "scope \<Rightarrow> closing \<Rightarrow> close_stage \<Rightarrow> bool" where
  "scope_stage_ok s c (LeaseWait w) \<longleftrightarrow> sc_phase s = ScopeDraining \<and> teardown (sc_out s) = []
     \<and> (w = Some True \<longrightarrow> sc_leases s = [])"
| "scope_stage_ok s c (Disposing todo) \<longleftrightarrow> sc_phase s = ScopeDraining \<and> sc_resources s = [] \<and> todo \<noteq> []
     \<and> (\<not> cl_leaseTimedOut c \<longrightarrow> sc_leases s = [])"
| "scope_stage_ok s c (Settling i todo) \<longleftrightarrow> sc_phase s = ScopeDraining \<and> sc_resources s = []
     \<and> (\<not> cl_leaseTimedOut c \<longrightarrow> sc_leases s = [])"
| "scope_stage_ok s c CloseDone \<longleftrightarrow> sc_phase s = ScopeClosed \<and> sc_resources s = []
     \<and> (\<not> cl_leaseTimedOut c \<longrightarrow> sc_leases s = [])"

definition scope_phase_ok :: "scope \<Rightarrow> bool" where
  "scope_phase_ok s \<longleftrightarrow> (case sc_closing s of
     None \<Rightarrow> sc_phase s = ScopeActive \<and> teardown (sc_out s) = []
       \<and> distinct (map fst (sc_resources s) @ map (fst \<circ> snd) (sc_activations s))
       \<and> set (sc_resourceIds s) = set (map fst (sc_resources s))
       \<and> set (sc_pending s) = set (map (fst \<circ> snd) (sc_activations s))
   | Some c \<Rightarrow> scope_stage_ok s c (cl_stage c))"

definition scope_inv :: "scope \<Rightarrow> bool" where
  "scope_inv s \<longleftrightarrow> numbers_ok s \<and> order_ok s \<and> scope_phase_ok s \<and> 0 \<le> sc_defaultDeadline s
     \<and> distinct (map fst (sc_activations s)) \<and> (\<forall>t \<in> set (map fst (sc_activations s)). t < sc_nextTicket s)"

lemmas scope_inv_defs = scope_inv_def numbers_ok_def order_ok_def scope_phase_ok_def held_def scope_todo_def

lemma new_scope_inv: "new_scope given fresh deadline = Some s \<Longrightarrow> scope_inv s"
  by (cases "case deadline of None \<Rightarrow> Fin 5000 | Some d \<Rightarrow> d")
    (auto simp: new_scope_def scope_inv_defs split: if_splits)

lemma scope_active_iff: "scope_phase_ok s \<Longrightarrow> sc_phase s = ScopeActive \<longleftrightarrow> sc_closing s = None"
proof (cases "sc_closing s")
  case (Some c)
  assume "scope_phase_ok s"
  with Some show ?thesis by (cases "cl_stage c") (simp_all add: scope_phase_ok_def)
qed (simp add: scope_phase_ok_def)

text \<open>Operations that leave resources, disposals and tickets alone.\<close>

lemma scope_inv_frame:
  assumes "scope_inv s" "sc_resources t = sc_resources s" "scope_todo t = scope_todo s" "sc_out t = sc_out s"
    "sc_nextDisposer t = sc_nextDisposer s" "sc_activations t = sc_activations s"
    "sc_nextTicket t = sc_nextTicket s" "sc_defaultDeadline t = sc_defaultDeadline s" "scope_phase_ok t"
  shows "scope_inv t"
  using assms by (simp add: scope_inv_def numbers_ok_def order_ok_def held_def)

lemma scope_inv_phase: "scope_inv s \<Longrightarrow> scope_phase_ok s"
  by (simp add: scope_inv_def)

lemma scope_close_inv:
  assumes inv: "scope_inv s"
  shows "scope_inv (snd (close_scope now now' reason deadline s))"
proof (cases "sc_closing s")
  case None
  have ph: "scope_phase_ok s" by (rule scope_inv_phase [OF inv])
  show ?thesis
  proof (cases "validateDeadline (case deadline of None \<Rightarrow> Fin (sc_defaultDeadline s) | Some d \<Rightarrow> d)")
    case (Some ms)
    show ?thesis
      by (rule scope_inv_frame [OF inv])
        (use None Some ph in \<open>simp_all add: close_scope_def scope_todo_def scope_phase_ok_def waitForLeases_def\<close>)
  qed (use None inv in \<open>simp add: close_scope_def\<close>)
qed (use inv in \<open>simp add: close_scope_def\<close>)

lemma scope_stage_frame:
  assumes "scope_stage_ok s c st" "sc_phase t = sc_phase s" "sc_out t = sc_out s" "sc_resources t = sc_resources s"
    "sc_leases s = [] \<Longrightarrow> sc_leases t = []"
  shows "scope_stage_ok t c st"
  using assms by (cases st) auto

lemma scope_timer_inv:
  assumes inv: "scope_inv s"
  shows "scope_inv (lease_timer s)"
proof (cases "sc_closing s")
  case None
  with inv show ?thesis by (simp add: lease_timer_def)
next
  case (Some c)
  show ?thesis
  proof (cases "cl_stage c = LeaseWait None")
    case True
    show ?thesis
      by (rule scope_inv_frame [OF inv])
        (use Some True scope_inv_phase [OF inv] in \<open>simp_all add: lease_timer_def scope_todo_def scope_phase_ok_def\<close>)
  qed (use Some inv in \<open>simp add: lease_timer_def\<close>)
qed

lemma scope_active_inv:
  assumes inv: "scope_inv s" and act: "sc_phase s = ScopeActive"
    and same: "sc_resources t = sc_resources s" "sc_closing t = sc_closing s" "sc_out t = sc_out s"
    "sc_nextDisposer t = sc_nextDisposer s" "sc_activations t = sc_activations s" "sc_phase t = sc_phase s"
    "sc_nextTicket t = sc_nextTicket s" "sc_defaultDeadline t = sc_defaultDeadline s"
    "sc_resourceIds t = sc_resourceIds s" "sc_pending t = sc_pending s"
  shows "scope_inv t"
proof (rule scope_inv_frame [OF inv])
  have "sc_closing s = None" using scope_active_iff [OF scope_inv_phase [OF inv]] act by simp
  then show "scope_phase_ok t" using scope_inv_phase [OF inv] by (simp add: scope_phase_ok_def same)
qed (simp_all add: same scope_todo_def)

lemma scope_acquire_inv: "scope_inv s \<Longrightarrow> scope_inv (snd (acquireLease s))"
  by (cases "sc_phase s = ScopeActive") (auto simp: acquireLease_def intro: scope_active_inv)

lemma scope_advance_inv: "scope_inv s \<Longrightarrow> scope_inv (snd (advanceEpoch s))"
  by (cases "sc_phase s = ScopeActive") (auto simp: advanceEpoch_def intro: scope_active_inv)

lemma scope_release_inv:
  assumes inv: "scope_inv s"
  shows "scope_inv (release_lease l s)"
proof (cases "sc_closing s")
  case None
  show ?thesis
    by (rule scope_inv_frame [OF inv])
      (use None scope_inv_phase [OF inv] in \<open>simp_all add: release_lease_def scope_todo_def scope_phase_ok_def\<close>)
next
  case (Some c)
  let ?s1 = "s\<lparr>sc_leases := filter (\<lambda>m. m \<noteq> l) (sc_leases s)\<rparr>"
  have st: "scope_stage_ok ?s1 c (cl_stage c)"
    by (rule scope_stage_frame [of s]) (use Some scope_inv_phase [OF inv] in \<open>simp_all add: scope_phase_ok_def\<close>)
  show ?thesis
  proof (cases "sc_leases ?s1 = [] \<and> cl_stage c = LeaseWait None")
    case True
    then have "release_lease l s = ?s1\<lparr>sc_closing := Some (c\<lparr>cl_stage := LeaseWait (Some True)\<rparr>)\<rparr>"
      using Some by (simp add: release_lease_def)
    then show ?thesis
      using True Some st by (intro scope_inv_frame [OF inv]) (simp_all add: scope_todo_def scope_phase_ok_def)
  next
    case False
    then have "release_lease l s = ?s1" using Some by (auto simp: release_lease_def)
    then show ?thesis
      using Some st by (intro scope_inv_frame [OF inv]) (simp_all add: scope_todo_def scope_phase_ok_def)
  qed
qed

subsection \<open>Registering and activating\<close>

lemma scope_add_inv:
  assumes inv: "scope_inv s" and act: "sc_closing s = None"
    and new: "i \<notin> set (sc_resourceIds s)" "i \<notin> set (sc_pending s)"
  shows "scope_inv (add_resource i s)"
proof -
  have n: "set (held s) = {0 ..< sc_nextDisposer s}" "distinct (held s)" using inv by (simp_all add: scope_inv_def numbers_ok_def)
  have "numbers_ok (add_resource i s)"
  proof -
    have "mset (held (add_resource i s)) = add_mset (sc_nextDisposer s) (mset (held s))"
      by (simp add: held_def add_resource_def scope_todo_def)
    then have "mset (held (add_resource i s)) = mset (sc_nextDisposer s # held s)" by simp
    then have "set (held (add_resource i s)) = set (sc_nextDisposer s # held s)"
      "distinct (held (add_resource i s)) \<longleftrightarrow> distinct (sc_nextDisposer s # held s)"
      by (rule mset_eq_setD, rule mset_eq_imp_distinct_iff)
    with n show ?thesis by (auto simp: numbers_ok_def add_resource_def)
  qed
  moreover have "order_ok (add_resource i s)"
  proof -
    have "\<forall>r \<in> set (sc_resources s). snd r < sc_nextDisposer s" 
    proof
      fix r assume "r \<in> set (sc_resources s)"
      then have "snd r \<in> set (held s)" by (simp add: held_def)
      with n(1) show "snd r < sc_nextDisposer s" by simp
    qed
    then show ?thesis using inv
      by (auto simp: scope_inv_def order_ok_def add_resource_def scope_todo_def sorted_wrt_append simp del: strict_sorted_iff)
  qed
  moreover have "scope_phase_ok (add_resource i s)"
    using scope_inv_phase [OF inv] act new by (auto simp: scope_phase_ok_def add_resource_def)
  ultimately show ?thesis using inv by (simp add: scope_inv_def add_resource_def)
qed

lemma scope_refused_None:
  assumes "resource_refused i callable s = None" "scope_inv s"
  shows "sc_closing s = None" "js_trim i \<notin> set (sc_resourceIds s)" "js_trim i \<notin> set (sc_pending s)"
  using assms scope_active_iff [OF scope_inv_phase [OF assms(2)]]
  by (auto simp: resource_refused_def Let_def split: if_splits)

lemma scope_register_inv: "scope_inv s \<Longrightarrow> scope_inv (snd (register_resource i callable s))"
  by (cases "resource_refused i callable s") (auto simp: register_resource_def intro: scope_add_inv dest: scope_refused_None)

lemma scope_activate_inv:
  assumes inv: "scope_inv s"
  shows "scope_inv (snd (activate_resource i callable s))"
proof (cases "resource_refused i callable s")
  case None
  note r = scope_refused_None [OF None inv]
  let ?t = "snd (activate_resource i callable s)"
  have "scope_phase_ok ?t"
    using scope_inv_phase [OF inv] r None by (auto simp: scope_phase_ok_def activate_resource_def)
  then show ?thesis
    using inv None by (auto simp: scope_inv_def numbers_ok_def order_ok_def held_def scope_todo_def activate_resource_def less_SucI)
qed (use inv in \<open>simp add: activate_resource_def\<close>)

text \<open>The end of an activation.\<close>

definition drop_ticket :: "nat \<Rightarrow> jsstr \<Rightarrow> scope \<Rightarrow> scope" where
  "drop_ticket t i s = s\<lparr>sc_pending := filter (\<lambda>j. j \<noteq> i) (sc_pending s),
     sc_activations := AList.delete t (sc_activations s)\<rparr>"

lemma scope_delete_ids:
  assumes "distinct (map (fst \<circ> snd) xs)" "distinct (map fst xs)" "map_of xs t = Some (i, e)"
  shows "set (map (fst \<circ> snd) (AList.delete t xs)) = set (map (fst \<circ> snd) xs) - {i}"
  using assms by (induction xs) (auto simp: AList.delete_eq rev_image_eqI split: if_splits)

lemma drop_ticket_inv:
  assumes inv: "scope_inv s" and t: "map_of (sc_activations s) t = Some (i, e)"
  shows "scope_inv (drop_ticket t i s)"
    "sc_closing s = None \<Longrightarrow> i \<notin> set (sc_resourceIds s) \<and> i \<notin> set (sc_pending (drop_ticket t i s))"
proof -
  have ph: "scope_phase_ok s" by (rule scope_inv_phase [OF inv])
  have tk: "distinct (map fst (sc_activations s))" using inv by (simp add: scope_inv_def)
  have mem: "i \<in> set (map (fst \<circ> snd) (sc_activations s))" using map_of_SomeD [OF t] by force
  have "scope_phase_ok (drop_ticket t i s)"
  proof (cases "sc_closing s")
    case None
    with ph have d: "distinct (map fst (sc_resources s) @ map (fst \<circ> snd) (sc_activations s))"
      "set (sc_resourceIds s) = set (map fst (sc_resources s))"
      "set (sc_pending s) = set (map (fst \<circ> snd) (sc_activations s))" "sc_phase s = ScopeActive" "teardown (sc_out s) = []"
      by (simp_all add: scope_phase_ok_def)
    have ids: "set (map (fst \<circ> snd) (AList.delete t (sc_activations s))) = set (map (fst \<circ> snd) (sc_activations s)) - {i}"
      by (rule scope_delete_ids [OF _ tk t]) (use d(1) in simp)
    have "distinct (map (fst \<circ> snd) (AList.delete t (sc_activations s)))"
      using d(1) by (simp add: AList.delete_eq distinct_map_filter del: map_map)
    with d ids show ?thesis unfolding scope_phase_ok_def by (auto simp: drop_ticket_def None)
  next
    case (Some c)
    have "scope_stage_ok (drop_ticket t i s) c (cl_stage c)"
      by (rule scope_stage_frame [of s]) (use ph Some in \<open>simp_all add: scope_phase_ok_def drop_ticket_def\<close>)
    with Some show ?thesis by (simp add: scope_phase_ok_def drop_ticket_def)
  qed
  with inv show "scope_inv (drop_ticket t i s)"
    by (auto simp: scope_inv_def numbers_ok_def order_ok_def held_def scope_todo_def drop_ticket_def distinct_delete
        AList.delete_eq distinct_map_filter)
  assume "sc_closing s = None"
  with ph mem show "i \<notin> set (sc_resourceIds s) \<and> i \<notin> set (sc_pending (drop_ticket t i s))"
    by (auto simp: scope_phase_ok_def drop_ticket_def)
qed

lemma scope_stale_inv:
  assumes inv: "scope_inv s"
  shows "scope_inv (s\<lparr>sc_out := sc_out s @ [Disposed (sc_nextDisposer s) i StaleEpoch],
    sc_nextDisposer := Suc (sc_nextDisposer s)\<rparr>)" (is "scope_inv ?t")
proof -
  have n: "set (held s) = {0 ..< sc_nextDisposer s}" "distinct (held s)" using inv by (simp_all add: scope_inv_def numbers_ok_def)
  have "held ?t = held s @ [sc_nextDisposer s]" by (simp add: held_def scope_todo_def)
  then have "numbers_ok ?t" using n by (auto simp: numbers_ok_def)
  moreover have "scope_phase_ok ?t"
  proof (cases "sc_closing s")
    case (Some c)
    then have "scope_stage_ok s c (cl_stage c)" using scope_inv_phase [OF inv] by (simp add: scope_phase_ok_def)
    then have "scope_stage_ok ?t c (cl_stage c)" by (cases "cl_stage c") auto
    with Some show ?thesis by (simp add: scope_phase_ok_def)
  qed (use scope_inv_phase [OF inv] in \<open>simp add: scope_phase_ok_def\<close>)
  ultimately show ?thesis using inv by (simp add: scope_inv_def order_ok_def scope_todo_def)
qed

lemma scope_activated_inv:
  assumes inv: "scope_inv s"
  shows "scope_inv (snd (activation_ended now now' t succeeded s))"
proof (cases "map_of (sc_activations s) t")
  case None
  with inv show ?thesis by (simp add: activation_ended_def)
next
  case (Some p)
  obtain i e where p: "p = (i, e)" by (cases p)
  note d = drop_ticket_inv [OF inv Some [unfolded p]]
  have fields: "sc_closing (drop_ticket t i s) = sc_closing s" "sc_resourceIds (drop_ticket t i s) = sc_resourceIds s"
    "sc_out (drop_ticket t i s) = sc_out s" "sc_nextDisposer (drop_ticket t i s) = sc_nextDisposer s"
    by (simp_all add: drop_ticket_def)
  have "sc_closing s = None" if "isCurrentEpoch e s"
    using that scope_active_iff [OF scope_inv_phase [OF inv]] by (simp add: isCurrentEpoch_def)
  then have "scope_inv (add_resource i (drop_ticket t i s))" if "isCurrentEpoch e s"
    using that d by (intro scope_add_inv) (simp_all add: fields)
  then show ?thesis
    using scope_close_inv [OF d(1)] scope_stale_inv [OF d(1), unfolded fields] Some p
    by (simp add: activation_ended_def Let_def drop_ticket_def)
qed

subsection \<open>Closing\<close>

lemma next_disposal_inv:
  assumes "distinct (map snd todo @ disposals (sc_out s))"
    "set (map snd todo @ disposals (sc_out s)) = {0 ..< sc_nextDisposer s}" "sc_resources s = []"
    "sorted_wrt (>) (teardown (sc_out s) @ map snd todo)" "sc_phase s = ScopeDraining"
    "\<not> cl_leaseTimedOut c \<Longrightarrow> sc_leases s = []" "0 \<le> sc_defaultDeadline s" "distinct (map fst (sc_activations s))"
    "\<forall>t \<in> set (map fst (sc_activations s)). t < sc_nextTicket s"
  shows "scope_inv (next_disposal now todo c s)"
  using assms by (auto simp: next_disposal_def scope_inv_def numbers_ok_def order_ok_def scope_phase_ok_def held_def scope_todo_def
      simp del: strict_sorted_iff)

lemma scope_resume_inv:
  assumes inv: "scope_inv s"
  shows "scope_inv (resume_close now s)"
proof -
  have mid: "scope_inv (next_disposal now (rev (sc_resources s)) c' (s\<lparr>sc_resources := [], sc_resourceIds := []\<rparr>))"
    if c: "sc_closing s = Some c" "cl_stage c = LeaseWait (Some drained)"
      and l: "\<not> cl_leaseTimedOut c' \<Longrightarrow> drained" for c drained c'
  proof (rule next_disposal_inv)
    have st: "scope_stage_ok s c (cl_stage c)" using scope_inv_phase [OF inv] c(1) by (simp add: scope_phase_ok_def)
    have todo: "scope_todo s = []" using c by (simp add: scope_todo_def)
    show "distinct (map snd (rev (sc_resources s)) @ disposals (sc_out (s\<lparr>sc_resources := [], sc_resourceIds := []\<rparr>)))"
      "set (map snd (rev (sc_resources s)) @ disposals (sc_out (s\<lparr>sc_resources := [], sc_resourceIds := []\<rparr>)))
        = {0 ..< sc_nextDisposer (s\<lparr>sc_resources := [], sc_resourceIds := []\<rparr>)}"
      using inv todo by (auto simp: scope_inv_def numbers_ok_def held_def rev_map [symmetric])
    have "sorted_wrt (>) (map snd (rev (sc_resources s)))"
      using inv by (simp add: scope_inv_def order_ok_def sorted_wrt_rev rev_map [symmetric] del: strict_sorted_iff)
    then show "sorted_wrt (>) (teardown (sc_out (s\<lparr>sc_resources := [], sc_resourceIds := []\<rparr>)) @ map snd (rev (sc_resources s)))"
      using st c(2) by simp
    show "sc_phase (s\<lparr>sc_resources := [], sc_resourceIds := []\<rparr>) = ScopeDraining" using st c(2) by simp
    show "sc_leases (s\<lparr>sc_resources := [], sc_resourceIds := []\<rparr>) = []" if "\<not> cl_leaseTimedOut c'"
      using st c(2) l [OF that] by simp
  qed (use inv in \<open>simp_all add: scope_inv_def\<close>)
  show ?thesis
  proof (cases "\<exists>c drained. sc_closing s = Some c \<and> cl_stage c = LeaseWait (Some drained)")
    case True
    then obtain c drained where c: "sc_closing s = Some c" "cl_stage c = LeaseWait (Some drained)" by blast
    then show ?thesis
      using mid [OF c, of "if drained then c else (expire c)\<lparr>cl_leaseTimedOut := True\<rparr>"]
      by (cases drained) (simp_all add: resume_close_def)
  next
    case False
    with inv show ?thesis by (auto simp: resume_close_def split: option.split close_stage.split)
  qed
qed

lemma scope_settle_inv:
  assumes inv: "scope_inv s"
  shows "scope_inv (settle_disposal now outcome s)"
proof -
  have "scope_inv (next_disposal now todo c' s)"
    if c: "sc_closing s = Some c" "cl_stage c = Settling i todo" and l: "cl_leaseTimedOut c' = cl_leaseTimedOut c" for c i todo c'
  proof -
    have "scope_stage_ok s c (cl_stage c)" using scope_inv_phase [OF inv] c(1) by (simp add: scope_phase_ok_def)
    then have "sc_resources s = []" "sc_phase s = ScopeDraining" "\<not> cl_leaseTimedOut c' \<Longrightarrow> sc_leases s = []"
      using c(2) l by simp_all
    then show ?thesis
      by (intro next_disposal_inv) (use inv c in \<open>simp_all add: scope_inv_def numbers_ok_def order_ok_def held_def scope_todo_def\<close>)
  qed
  then show ?thesis using inv
    by (auto simp: settle_disposal_def expire_def split: option.split close_stage.split disposal_outcome.split)
qed

lemma scope_dispose_inv:
  assumes inv: "scope_inv s"
  shows "scope_inv (dispose_next now now' answer s)"
proof (cases "\<exists>c i n todo. sc_closing s = Some c \<and> cl_stage c = Disposing ((i, n) # todo)")
  case False
  have "dispose_next now now' answer s = s"
  proof (cases "sc_closing s")
    case (Some c)
    with False show ?thesis
      by (cases "cl_stage c") (auto simp: dispose_next_def split: list.split)
  qed (simp add: dispose_next_def)
  with inv show ?thesis by simp
next
  case True
  then obtain c i n todo where c: "sc_closing s = Some c" "cl_stage c = Disposing ((i, n) # todo)" by blast
  let ?s1 = "s\<lparr>sc_out := sc_out s @ [Disposed n i Teardown]\<rparr>"
  have st: "scope_stage_ok s c (cl_stage c)" using scope_inv_phase [OF inv] c(1) by (simp add: scope_phase_ok_def)
  then have res: "sc_resources s = []" "sc_phase s = ScopeDraining" "\<not> cl_leaseTimedOut c \<Longrightarrow> sc_leases s = []"
    using c(2) by simp_all
  have held: "held s = n # map snd todo @ disposals (sc_out s)"
    using res(1) c by (simp add: held_def scope_todo_def)
  have num: "distinct (map snd todo @ disposals (sc_out ?s1))"
    "set (map snd todo @ disposals (sc_out ?s1)) = {0 ..< sc_nextDisposer ?s1}"
    using inv held by (auto simp: scope_inv_def numbers_ok_def)
  have ord: "sorted_wrt (>) (teardown (sc_out ?s1) @ map snd todo)"
    using inv c by (simp add: scope_inv_def order_ok_def scope_todo_def)
  have next_ok: "scope_inv (next_disposal now' todo c' ?s1)" if "cl_leaseTimedOut c' = cl_leaseTimedOut c" for c'
    by (rule next_disposal_inv [OF num _ ord]) (use inv res that in \<open>simp_all add: scope_inv_def\<close>)
  have settling: "scope_inv (?s1\<lparr>sc_closing := Some c'\<rparr>)"
    if "cl_leaseTimedOut c' = cl_leaseTimedOut c" "cl_stage c' = Settling i todo" for c'
    using inv num ord res that
    by (simp add: scope_inv_def numbers_ok_def order_ok_def scope_phase_ok_def held_def scope_todo_def)
  show ?thesis
    using next_ok settling c by (cases answer) (simp_all add: dispose_next_def Let_def expire_def)
qed

lemma scope_step_inv: "scope_inv s \<Longrightarrow> scope_inv (scope_step x s)"
  by (cases x) (simp_all add: scope_register_inv scope_activate_inv scope_activated_inv scope_acquire_inv scope_release_inv scope_advance_inv
      scope_close_inv scope_timer_inv scope_resume_inv scope_dispose_inv scope_settle_inv)

interpretation resource_scope: component scope_step scope_inv
  by unfold_locales (rule scope_step_inv)

lemmas scope_reached_inv = resource_scope.run_inv [OF new_scope_inv]

subsection \<open>What a closing scope accepts\<close>

text \<open>After the close has begun nothing is added, and the close is not undone.\<close>

definition keeps_closing :: "scope \<Rightarrow> scope \<Rightarrow> bool" where
  "keeps_closing s t \<longleftrightarrow> sc_phase t \<noteq> ScopeActive \<and> (sc_phase s = ScopeClosed \<longrightarrow> sc_phase t = ScopeClosed)
     \<and> sc_epoch t = sc_epoch s \<and> set (sc_leases t) \<subseteq> set (sc_leases s)
     \<and> set (sc_resources t) \<union> set (scope_todo t) \<subseteq> set (sc_resources s) \<union> set (scope_todo s)"

lemma keeps_closing_trans: "keeps_closing r s \<Longrightarrow> keeps_closing s t \<Longrightarrow> keeps_closing r t"
  unfolding keeps_closing_def by (auto dest: subsetD)

lemma next_disposal_keeps:
  assumes "sc_phase s = ScopeDraining"
  shows "sc_phase (next_disposal now todo c s) \<noteq> ScopeActive" "sc_epoch (next_disposal now todo c s) = sc_epoch s"
    "sc_leases (next_disposal now todo c s) = sc_leases s" "sc_resources (next_disposal now todo c s) = sc_resources s"
    "scope_todo (next_disposal now todo c s) = todo"
  using assms by (simp_all add: next_disposal_def scope_todo_def)

lemma closing_step_keeps:
  assumes inv: "scope_inv s" and cl: "sc_closing s = Some c"
  shows "keeps_closing s (scope_step x s)"
proof -
  have st: "scope_stage_ok s c (cl_stage c)" using scope_inv_phase [OF inv] cl by (simp add: scope_phase_ok_def)
  have na: "sc_phase s \<noteq> ScopeActive" using scope_active_iff [OF scope_inv_phase [OF inv]] cl by simp
  have refl: "keeps_closing s s" using na by (simp add: keeps_closing_def)
  have ref: "resource_refused i callable s \<noteq> None" for i callable using na by (simp add: resource_refused_def Let_def)
  show ?thesis
  proof (cases x)
    case (ScRegister i callable)
    with ref [of i callable] refl show ?thesis by (auto simp: register_resource_def)
  next
    case (ScActivate i callable)
    with ref [of i callable] refl show ?thesis by (auto simp: activate_resource_def)
  next
    case (ScActivated now now' t ok)
    then show ?thesis using na cl
      by (auto simp: activation_ended_def Let_def close_scope_def isCurrentEpoch_def keeps_closing_def scope_todo_def
          split: option.split)
  next
    case ScAcquire
    with na refl show ?thesis by (simp add: acquireLease_def)
  next
    case (ScRelease l)
    then show ?thesis using na cl by (auto simp: release_lease_def Let_def keeps_closing_def scope_todo_def)
  next
    case ScAdvance
    with na refl show ?thesis by (simp add: advanceEpoch_def)
  next
    case (ScClose now now' reason deadline)
    with cl refl show ?thesis by (simp add: close_scope_def)
  next
    case ScTimer
    then show ?thesis using na cl by (auto simp: lease_timer_def keeps_closing_def scope_todo_def)
  next
    case (ScResume now)
    show ?thesis
    proof (cases "\<exists>drained. cl_stage c = LeaseWait (Some drained)")
      case True
      then obtain drained where d: "cl_stage c = LeaseWait (Some drained)" by blast
      with st have "sc_phase s = ScopeDraining" by simp
      moreover have "scope_todo s = []" using cl d by (simp add: scope_todo_def)
      ultimately show ?thesis using ScResume cl d by (simp add: resume_close_def keeps_closing_def next_disposal_keeps)
    next
      case False
      with ScResume cl refl show ?thesis by (auto simp: resume_close_def split: close_stage.split)
    qed
  next
    case (ScDispose now now' answer)
    show ?thesis
    proof (cases "cl_stage c")
      case (Disposing todo)
      then obtain i n rest where todo: "todo = (i, n) # rest" using st by (cases todo) auto
      have s: "scope_todo s = (i, n) # rest" "sc_phase s = ScopeDraining" "sc_resources s = []"
        using cl Disposing todo st by (simp_all add: scope_todo_def)
      let ?s1 = "s\<lparr>sc_out := sc_out s @ [Disposed n i Teardown]\<rparr>"
      have nx: "keeps_closing s (next_disposal now' rest c' ?s1)" for c'
        using s by (auto simp: keeps_closing_def next_disposal_keeps)
      have wt: "keeps_closing s (?s1\<lparr>sc_closing := Some c'\<rparr>)" if "stage_todo (cl_stage c') = rest" for c'
        using s that by (auto simp: keeps_closing_def scope_todo_def)
      show ?thesis using ScDispose cl Disposing todo nx wt
        by (cases answer) (simp_all add: dispose_next_def Let_def)
    qed (use ScDispose cl refl in \<open>simp_all add: dispose_next_def\<close>)
  next
    case (ScSettled now outcome)
    show ?thesis
    proof (cases "cl_stage c")
      case (Settling i todo)
      then have "scope_todo s = todo" "sc_phase s = ScopeDraining" using cl st by (simp_all add: scope_todo_def)
      then show ?thesis using ScSettled cl Settling
        by (simp add: settle_disposal_def keeps_closing_def next_disposal_keeps)
    qed (use ScSettled cl refl in \<open>simp_all add: settle_disposal_def\<close>)
  qed
qed

lemma closing_run_keeps:
  assumes inv: "scope_inv s" and cl: "sc_closing s \<noteq> None"
  shows "keeps_closing s (run scope_step ops s)"
proof (rule resource_scope.run_keeps [OF inv])
  show "keeps_closing s s" using cl scope_active_iff [OF scope_inv_phase [OF inv]] by (simp add: keeps_closing_def)
  fix x t assume t: "scope_inv t" "keeps_closing s t"
  then have "sc_closing t \<noteq> None" using scope_active_iff [OF scope_inv_phase] by (auto simp: keeps_closing_def)
  with t show "keeps_closing s (scope_step x t)" by (auto intro: keeps_closing_trans closing_step_keeps)
qed

subsection \<open>A close ends\<close>

text \<open>How many disposers the close may still have to wait for.\<close>

definition close_left :: "scope \<Rightarrow> nat" where
  "close_left s = (case sc_closing s of None \<Rightarrow> 0
     | Some c \<Rightarrow> (case cl_stage c of LeaseWait w \<Rightarrow> Suc (length (sc_resources s))
         | Disposing todo \<Rightarrow> length todo | Settling i todo \<Rightarrow> Suc (length todo) | CloseDone \<Rightarrow> 0))"

text \<open>A round of answers: the timers fire, and the disposer called returns, throws or settles.\<close>

type_synonym scope_answers = "int \<times> int \<times> dispose_answer \<times> disposal_outcome"

definition close_round :: "scope_answers \<Rightarrow> scope_op list" where
  "close_round r = (case r of (now, now', answer, outcome) \<Rightarrow>
     [ScTimer, ScResume now, ScDispose now now' answer, ScSettled now outcome])"

definition close_rounds :: "scope_answers list \<Rightarrow> scope_op list" where
  "close_rounds rs = concat (map close_round rs)"

lemma close_left_next: "close_left (next_disposal now todo c s) = length todo"
  by (simp add: close_left_def next_disposal_def)

lemma timer_left: "close_left (lease_timer s) = close_left s"
  by (simp add: close_left_def lease_timer_def split: option.split close_stage.split)

lemma resume_left: "close_left (resume_close now s) \<le> close_left s"
  by (simp add: resume_close_def close_left_next split: option.split close_stage.split)
    (auto simp: close_left_def)

lemma dispose_left: "close_left (dispose_next now now' answer s) \<le> close_left s"
  by (simp add: dispose_next_def Let_def close_left_next split: option.split close_stage.split list.split prod.split dispose_answer.split)
    (simp add: close_left_def)

lemma settle_left: "close_left (settle_disposal now outcome s) \<le> close_left s"
  by (simp add: settle_disposal_def close_left_next split: option.split close_stage.split)
    (simp add: close_left_def)

lemma settle_left_less:
  "sc_closing s = Some c \<Longrightarrow> cl_stage c = Settling i todo
    \<Longrightarrow> close_left (settle_disposal now outcome s) < close_left s"
  by (simp add: settle_disposal_def close_left_next) (simp add: close_left_def)

lemma resume_left_less:
  "sc_closing s = Some c \<Longrightarrow> cl_stage c = LeaseWait (Some d) \<Longrightarrow> close_left (resume_close now s) < close_left s"
  by (simp add: resume_close_def close_left_next) (simp add: close_left_def)

lemma dispose_left_settle:
  assumes "sc_closing s = Some c" "cl_stage c = Disposing (p # todo)"
  shows "close_left (settle_disposal now outcome (dispose_next now now' answer s)) < close_left s"
proof -
  obtain i n where p: "p = (i, n)" by (cases p)
  have e: "close_left s = Suc (length todo)" using assms by (simp add: close_left_def)
  have "close_left (settle_disposal now outcome (next_disposal now' todo c' s')) \<le> length todo" for c' s'
    using settle_left [of now outcome "next_disposal now' todo c' s'"] by (simp add: close_left_next)
  moreover have "close_left (settle_disposal now outcome (s'\<lparr>sc_closing := Some (c'\<lparr>cl_stage := Settling i todo\<rparr>)\<rparr>)) \<le> length todo"
    for c' s'
    by (simp add: settle_disposal_def close_left_next)
  ultimately show ?thesis
    using assms p by (cases answer) (simp_all add: dispose_next_def Let_def e less_Suc_eq_le)
qed

lemma round_eq:
  "run scope_step (close_round (now, now', answer, outcome)) s
    = settle_disposal now outcome (dispose_next now now' answer (resume_close now (lease_timer s)))"
  by (simp add: close_round_def)

lemma round_shorter:
  assumes inv: "scope_inv s" and left: "close_left s \<noteq> 0"
  shows "close_left (run scope_step (close_round r) s) < close_left s"
proof -
  obtain now now' answer outcome where r: "r = (now, now', answer, outcome)" by (cases r)
  obtain c where c: "sc_closing s = Some c" using left by (cases "sc_closing s") (simp_all add: close_left_def)
  let ?t = "lease_timer s"
  have le: "close_left (settle_disposal now outcome (dispose_next now now' answer u)) \<le> close_left u" for u
    using settle_left [of now outcome "dispose_next now now' answer u"] dispose_left [of now now' answer u] by simp
  have "close_left (settle_disposal now outcome (dispose_next now now' answer (resume_close now ?t))) < close_left s"
  proof (cases "cl_stage c")
    case (LeaseWait w)
    then have "\<exists>c' d. sc_closing ?t = Some c' \<and> cl_stage c' = LeaseWait (Some d)"
      using c by (cases w) (auto simp: lease_timer_def intro: exI [of _ False])
    then obtain c' d where "sc_closing ?t = Some c'" "cl_stage c' = LeaseWait (Some d)" by blast
    from resume_left_less [OF this, of now] le [of "resume_close now ?t"] timer_left [of s] show ?thesis by simp
  next
    case (Disposing todo)
    have t: "resume_close now ?t = s" using c Disposing by (simp add: lease_timer_def resume_close_def)
    from left c Disposing obtain p rest where "todo = p # rest" by (cases todo) (simp_all add: close_left_def)
    with dispose_left_settle [OF c, of p rest] Disposing t show ?thesis by simp
  next
    case (Settling i todo)
    have "dispose_next now now' answer (resume_close now ?t) = s"
      using c Settling by (simp add: lease_timer_def resume_close_def dispose_next_def)
    with settle_left_less [OF c Settling] show ?thesis by simp
  next
    case CloseDone
    with left c show ?thesis by (simp add: close_left_def)
  qed
  then show ?thesis by (simp add: r round_eq)
qed

lemma round_no_longer: "close_left (run scope_step (close_round r) s) \<le> close_left s"
proof -
  obtain now now' answer outcome where r: "r = (now, now', answer, outcome)" by (cases r)
  show ?thesis
    using settle_left [of now outcome "dispose_next now now' answer (resume_close now (lease_timer s))"]
      dispose_left [of now now' answer "resume_close now (lease_timer s)"] resume_left [of now "lease_timer s"] timer_left [of s]
    by (simp add: r round_eq)
qed

lemma rounds_end:
  assumes "scope_inv s" "close_left s \<le> length rs"
  shows "close_left (run scope_step (close_rounds rs) s) = 0"
  using assms
proof (induction rs arbitrary: s)
  case Nil
  then show ?case by (simp add: close_rounds_def)
next
  case (Cons r rs)
  let ?t = "run scope_step (close_round r) s"
  have "scope_inv ?t" by (rule resource_scope.run_inv [OF Cons.prems(1)])
  moreover have "close_left ?t \<le> length rs"
    using round_shorter [OF Cons.prems(1), of r] round_no_longer [of r s] Cons.prems(2) by (cases "close_left s = 0") auto
  ultimately show ?case using Cons.IH [of ?t] by (simp add: close_rounds_def)
qed

lemma left_closed:
  assumes inv: "scope_inv s" and "sc_closing s \<noteq> None" "close_left s = 0"
  shows "sc_phase s = ScopeClosed"
proof -
  obtain c where c: "sc_closing s = Some c" using assms(2) by blast
  then have "scope_stage_ok s c (cl_stage c)" using scope_inv_phase [OF inv] by (simp add: scope_phase_ok_def)
  with c assms(3) show ?thesis by (cases "cl_stage c") (simp_all add: close_left_def)
qed

lemma closed_disposed:
  assumes inv: "scope_inv s" and "sc_phase s = ScopeClosed"
  shows "set (disposals (sc_out s)) = {0 ..< sc_nextDisposer s}"
proof -
  obtain c where c: "sc_closing s = Some c" using scope_inv_phase [OF inv] assms(2) by (auto simp: scope_phase_ok_def split: option.splits)
  then have "scope_stage_ok s c (cl_stage c)" using scope_inv_phase [OF inv] by (simp add: scope_phase_ok_def)
  then have "sc_resources s = []" "scope_todo s = []" using c assms(2) by (cases "cl_stage c"; simp add: scope_todo_def)+
  then show ?thesis using inv by (simp add: scope_inv_def numbers_ok_def held_def)
qed

subsection \<open>The properties\<close>

text \<open>C34: In every run of a resource scope (resources registered, activations ending well, badly or in
  a stale epoch, leases taken and given back, epochs advanced, the scope closed at any time) a
  disposer the scope was given is called at most once, whether by the teardown or as a stale result,
  and when the scope is closed every disposer it was ever given has been called.\<close>

theorem scope_disposes_once:
  assumes "new_scope given fresh deadline = Some s0" "s = run scope_step ops s0"
  shows "distinct (disposals (sc_out s)) \<and> set (disposals (sc_out s)) \<subseteq> {0 ..< sc_nextDisposer s}
    \<and> (sc_phase s = ScopeClosed \<longrightarrow> set (disposals (sc_out s)) = {0 ..< sc_nextDisposer s})"
proof -
  have inv: "scope_inv s" unfolding assms(2) by (rule scope_reached_inv [OF assms(1)])
  then have "distinct (held s)" "set (held s) = {0 ..< sc_nextDisposer s}" by (simp_all add: scope_inv_def numbers_ok_def)
  then have "distinct (disposals (sc_out s))" "set (disposals (sc_out s)) \<subseteq> {0 ..< sc_nextDisposer s}"
    by (auto simp: held_def)
  with closed_disposed [OF inv] show ?thesis by blast
qed

definition sample_scope :: "scope option" where
  "sample_scope = new_scope (Some (js ''s'')) [] None"

definition sample_close :: "scope_op list" where
  "sample_close = [ScRegister (js ''a'') True, ScActivate (js ''b'') True, ScActivate (js ''c'') True,
     ScActivated 0 0 0 True, ScAdvance, ScActivated 0 0 1 True, ScAcquire, ScClose 0 0 None None,
     ScRelease 0, ScResume 1, ScDispose 1 1 DisposePromise, ScSettled 2 DisposalResolved,
     ScDispose 2 2 DisposeReturned]"

theorem scope_disposes_once_witness:
  "set (disposals (sc_out (run scope_step sample_close (the sample_scope)))) = {0, 1, 2}"
proof -
  have n: "new_scope (Some (js ''s'')) [] None = Some (the sample_scope)" by code_simp
  have "sc_phase (run scope_step sample_close (the sample_scope)) = ScopeClosed"
    "sc_nextDisposer (run scope_step sample_close (the sample_scope)) = 3" by code_simp+
  with scope_disposes_once [OF n refl, of sample_close] show ?thesis by (simp add: atLeast0_lessThan_Suc eval_nat_numeral insert_commute)
qed

text \<open>C35: Teardown is last in, first out, and waits for the leases: in every run the resources the
  close disposes of are disposed of in the reverse of the order they were added in, those it has
  still to dispose of come after all it has disposed of, and none is disposed of before the scope was
  closed and every lease given back or the wait for leases timed out.\<close>

theorem scope_teardown_lifo:
  assumes "new_scope given fresh deadline = Some s0" "s = run scope_step ops s0"
  shows "sorted_wrt (>) (teardown (sc_out s) @ map snd (scope_todo s))
    \<and> (teardown (sc_out s) \<noteq> [] \<longrightarrow>
        (\<exists>c. sc_closing s = Some c \<and> (cl_leaseTimedOut c \<or> sc_leases s = [])))"
proof -
  have inv: "scope_inv s" unfolding assms(2) by (rule scope_reached_inv [OF assms(1)])
  have "cl_leaseTimedOut c \<or> sc_leases s = []" if "sc_closing s = Some c" "teardown (sc_out s) \<noteq> []" for c
  proof -
    have "scope_stage_ok s c (cl_stage c)" using scope_inv_phase [OF inv] that(1) by (simp add: scope_phase_ok_def)
    with that(2) show ?thesis by (cases "cl_stage c") auto
  qed
  moreover have "sc_closing s \<noteq> None" if "teardown (sc_out s) \<noteq> []"
    using scope_inv_phase [OF inv] that by (auto simp: scope_phase_ok_def split: option.splits)
  ultimately show ?thesis using inv unfolding scope_inv_def order_ok_def by blast
qed

theorem scope_teardown_lifo_witness:
  "teardown (sc_out (run scope_step sample_close (the sample_scope))) = [1, 0]
    \<and> sc_leases (run scope_step sample_close (the sample_scope)) = []"
proof -
  let ?s = "run scope_step sample_close (the sample_scope)"
  have n: "new_scope (Some (js ''s'')) [] None = Some (the sample_scope)" by code_simp
  have t: "teardown (sc_out ?s) = [1, 0]" by code_simp
  then obtain c where "sc_closing ?s = Some c" "cl_leaseTimedOut c \<or> sc_leases ?s = []"
    using scope_teardown_lifo [OF n refl, of sample_close] by auto
  moreover have "map_option cl_leaseTimedOut (sc_closing ?s) = Some False" by code_simp
  ultimately show ?thesis using t by simp
qed

text \<open>C36: Closing ends and is final. Once the close of a scope has begun, whatever comes after it, no
  resource and no lease is added, the epoch stands still and the scope is never active again. And it ends: as
  many answers as there are resources to dispose of, and one more for the leases, close the scope,
  even when no lease is given back, disposers throw, and promises never settle before the
  deadline.\<close>

theorem scope_close_ends:
  assumes "new_scope given fresh deadline = Some s0" "s = run scope_step ops s0" "sc_closing s \<noteq> None"
    and "length (sc_resources s) + length (scope_todo s) < length rs"
  shows "keeps_closing s (run scope_step later s)
    \<and> sc_phase (run scope_step (close_rounds rs) s) = ScopeClosed"
proof -
  have inv: "scope_inv s" unfolding assms(2) by (rule scope_reached_inv [OF assms(1)])
  have "close_left s \<le> Suc (length (sc_resources s) + length (scope_todo s))"
    by (simp add: close_left_def scope_todo_def split: option.split close_stage.split)
  then have "close_left (run scope_step (close_rounds rs) s) = 0"
    using assms(4) by (intro rounds_end [OF inv]) simp
  moreover have keeps: "keeps_closing s (run scope_step later s)" for later
    by (rule closing_run_keeps [OF inv assms(3)])
  moreover have ri: "scope_inv (run scope_step (close_rounds rs) s)" by (rule resource_scope.run_inv [OF inv])
  moreover have "sc_closing (run scope_step (close_rounds rs) s) \<noteq> None"
    using keeps [of "close_rounds rs"] scope_active_iff [OF scope_inv_phase [OF ri]] by (simp add: keeps_closing_def)
  ultimately show ?thesis using left_closed by blast
qed

theorem scope_close_ends_witness:
  "sc_phase (run scope_step (close_rounds (replicate 3 (9000, 9000, DisposePromise, DisposalTimedOut)))
     (run scope_step (take 8 sample_close) (the sample_scope))) = ScopeClosed"
proof -
  let ?s = "run scope_step (take 8 sample_close) (the sample_scope)"
  have n: "new_scope (Some (js ''s'')) [] None = Some (the sample_scope)" by code_simp
  have "sc_phase ?s \<noteq> ScopeActive" "length (sc_resources ?s) = 2" "scope_todo ?s = []" by code_simp+
  moreover have "map_option cl_disposed (sc_closing ?s) = Some []" by code_simp
  ultimately show ?thesis
    using scope_close_ends [OF n refl, of "take 8 sample_close" "replicate 3 (9000, 9000, DisposePromise, DisposalTimedOut)"]
    by auto
qed

end
