(* ===== verification/SubagentTree.thy ===== *)
theory SubagentTree
  imports JsonValue
begin

section \<open>The tree of subagent threads\<close>

text \<open>
  Models \<open>SubagentThreadTreeScopeV1\<close> and \<open>SubagentThreadBudgetLeaseV1\<close> of
  \<open>src/src/runtime/subagent-thread-runtime.ts\<close>, the root owner of the concurrency, the model and
  tool budgets and the cancellation of child agents, with the part of \<open>SubagentThreadRuntimeV1.run\<close>
  that takes and gives back a slot and a budget. A child is a run that has reached \<open>acquire\<close>;
  it has its linked abort signal, the place it is at between two awaits, and its budget lease.
\<close>

subsection \<open>Data\<close>

datatype tree_error =
  SubInvalidRequest | SubAborted | SubOverloaded | SubBudgetExceeded | SubTreeClosed | SubChildFailed jsstr

record tree_limits =
  tl_maxConcurrent :: int
  tl_maxQueued :: int
  tl_maxModelRequests :: int
  tl_maxToolCalls :: int

record sub_budget =
  sb_modelRequests :: int
  sb_toolCalls :: int

record budget_lease =
  le_limits :: sub_budget
  le_modelRequests :: int
  le_toolCalls :: int
  le_failed :: bool
  le_released :: bool

text \<open>A child waits for a slot, was granted one, runs with a lease, or is over.\<close>

datatype child_place = AtWaiting | AtGranted | AtRunning | AtOver "tree_error option"

record tree_child =
  ch_aborted :: bool
  ch_place :: child_place
  ch_request :: "jsnum \<times> jsnum"
  ch_lease :: "budget_lease option"

record agent_tree =
  at_limits :: tree_limits
  at_closed :: bool
  at_active :: int
  at_waiters :: "nat list"
  at_modelUsed :: int
  at_modelReserved :: int
  at_toolUsed :: int
  at_toolReserved :: int
  at_children :: "tree_child list"

subsection \<open>Checks\<close>

fun safe_integer :: "jsnum \<Rightarrow> int option" where
  "safe_integer (Fin q) = (if of_int \<lfloor>q\<rfloor> = q \<and> is_safe_integer \<lfloor>q\<rfloor> then Some \<lfloor>q\<rfloor> else None)"
| "safe_integer n = None"

definition positive_integer_of :: "jsnum \<Rightarrow> int option" where
  "positive_integer_of n = (case safe_integer n of Some i \<Rightarrow> if i \<le> 0 then None else Some i | None \<Rightarrow> None)"

definition non_negative_integer_of :: "jsnum \<Rightarrow> int option" where
  "non_negative_integer_of n = (case safe_integer n of Some i \<Rightarrow> if i < 0 then None else Some i | None \<Rightarrow> None)"

definition validateBudgetRequest :: "jsnum \<times> jsnum \<Rightarrow> sub_budget option" where
  "validateBudgetRequest r = (case positive_integer_of (fst r) of None \<Rightarrow> None
     | Some m \<Rightarrow> (case non_negative_integer_of (snd r) of None \<Rightarrow> None
         | Some t \<Rightarrow> Some \<lparr>sb_modelRequests = m, sb_toolCalls = t\<rparr>))"

text \<open>The constructor; the default of \<open>maxQueued\<close> is computed before anything is checked.\<close>

fun four_times :: "jsnum \<Rightarrow> jsnum" where
  "four_times (Fin q) = Fin (4 * q)"
| "four_times n = n"

definition new_tree :: "jsnum \<Rightarrow> jsnum option \<Rightarrow> jsnum \<Rightarrow> jsnum \<Rightarrow> bool \<Rightarrow> agent_tree option" where
  "new_tree concurrent queued model tool parentAborted =
     (case positive_integer_of concurrent of None \<Rightarrow> None | Some c \<Rightarrow>
      (case non_negative_integer_of (case queued of None \<Rightarrow> four_times concurrent | Some q \<Rightarrow> q) of None \<Rightarrow> None | Some q \<Rightarrow>
       (case positive_integer_of model of None \<Rightarrow> None | Some m \<Rightarrow>
        (case non_negative_integer_of tool of None \<Rightarrow> None | Some t \<Rightarrow>
          Some \<lparr>at_limits = \<lparr>tl_maxConcurrent = c, tl_maxQueued = q, tl_maxModelRequests = m, tl_maxToolCalls = t\<rparr>,
            at_closed = parentAborted, at_active = 0, at_waiters = [], at_modelUsed = 0, at_modelReserved = 0,
            at_toolUsed = 0, at_toolReserved = 0, at_children = []\<rparr>))))"

subsection \<open>Slots\<close>

definition set_child :: "nat \<Rightarrow> tree_child \<Rightarrow> agent_tree \<Rightarrow> agent_tree" where
  "set_child n c s = s\<lparr>at_children := (at_children s)[n := c]\<rparr>"

definition place_child :: "nat \<Rightarrow> child_place \<Rightarrow> agent_tree \<Rightarrow> agent_tree" where
  "place_child n p s = set_child n ((at_children s ! n)\<lparr>ch_place := p\<rparr>) s"

definition child_at :: "nat \<Rightarrow> agent_tree \<Rightarrow> tree_child option" where
  "child_at n s = (if n < length (at_children s) then Some (at_children s ! n) else None)"

text \<open>
  \<open>run\<close> at \<open>acquire\<close>: the child's signal follows those of the request and of the tree. A refusal
  is a rejection of \<open>run\<close>, which holds nothing yet.
\<close>

definition acquire_slot :: "bool \<Rightarrow> jsnum \<times> jsnum \<Rightarrow> agent_tree \<Rightarrow> agent_tree" where
  "acquire_slot requestAborted request s =
     (let n = length (at_children s); aborted = (requestAborted \<or> at_closed s);
          add = (\<lambda>p t. t\<lparr>at_children := at_children t @
            [\<lparr>ch_aborted = aborted, ch_place = p, ch_request = request, ch_lease = None\<rparr>]\<rparr>) in
      if at_closed s then add (AtOver (Some SubAborted)) s
      else if aborted then add (AtOver (Some SubAborted)) s
      else if at_active s < tl_maxConcurrent (at_limits s)
      then add AtGranted (s\<lparr>at_active := at_active s + 1\<rparr>)
      else if int (length (at_waiters s)) \<ge> tl_maxQueued (at_limits s)
      then add (AtOver (Some SubOverloaded)) s
      else add AtWaiting (s\<lparr>at_waiters := at_waiters s @ [n]\<rparr>))"

text \<open>\<open>promote\<close>, over the waiters in the order they came.\<close>

fun promote_waiters :: "nat list \<Rightarrow> agent_tree \<Rightarrow> agent_tree" where
  "promote_waiters [] s = s\<lparr>at_waiters := []\<rparr>"
| "promote_waiters (n # ns) s =
     (if at_active s < tl_maxConcurrent (at_limits s)
      then if ch_aborted (at_children s ! n)
        then promote_waiters ns (place_child n (AtOver (Some SubAborted)) s)
        else promote_waiters ns (place_child n AtGranted (s\<lparr>at_active := at_active s + 1\<rparr>))
      else s\<lparr>at_waiters := n # ns\<rparr>)"

definition release_slot :: "agent_tree \<Rightarrow> agent_tree" where
  "release_slot s = (let s1 = s\<lparr>at_active := at_active s - 1\<rparr> in promote_waiters (at_waiters s1) s1)"

subsection \<open>Budgets\<close>

definition fits_budget :: "int \<Rightarrow> int \<Rightarrow> agent_tree \<Rightarrow> bool" where
  "fits_budget model tool s \<longleftrightarrow>
     \<not> (at_modelUsed s + at_modelReserved s + model > tl_maxModelRequests (at_limits s)
        \<or> at_toolUsed s + at_toolReserved s + tool > tl_maxToolCalls (at_limits s))"

definition reserveBudget :: "jsnum \<times> jsnum \<Rightarrow> agent_tree \<Rightarrow> tree_error + budget_lease \<times> agent_tree" where
  "reserveBudget request s = (if at_closed s then Inl SubAborted
     else case validateBudgetRequest request of
       None \<Rightarrow> Inl SubInvalidRequest
     | Some l \<Rightarrow> (if \<not> fits_budget (sb_modelRequests l) (sb_toolCalls l) s then Inl SubBudgetExceeded
         else Inr (\<lparr>le_limits = l, le_modelRequests = 0, le_toolCalls = 0, le_failed = False, le_released = False\<rparr>,
           s\<lparr>at_modelReserved := at_modelReserved s + sb_modelRequests l,
             at_toolReserved := at_toolReserved s + sb_toolCalls l\<rparr>)))"

definition releaseBudget :: "budget_lease \<Rightarrow> agent_tree \<Rightarrow> agent_tree" where
  "releaseBudget l s =
     s\<lparr>at_modelReserved := at_modelReserved s - (sb_modelRequests (le_limits l) - le_modelRequests l),
       at_toolReserved := at_toolReserved s - (sb_toolCalls (le_limits l) - le_toolCalls l)\<rparr>"

datatype tree_resource = ModelRequests | ToolCalls

text \<open>\<open>consumeModelRequests\<close> and \<open>consumeToolCalls\<close> of a child's lease, and \<open>consume\<close> of the tree.\<close>

definition consume_budget ::
  "tree_resource \<Rightarrow> jsnum \<Rightarrow> budget_lease \<Rightarrow> agent_tree \<Rightarrow> tree_error option \<times> budget_lease \<times> agent_tree" where
  "consume_budget r amount l s =
     (if le_released l then (Some SubTreeClosed, l, s)
      else if at_closed s then (Some SubAborted, l, s)
      else case positive_integer_of amount of
        None \<Rightarrow> (Some SubInvalidRequest, l, s)
      | Some k \<Rightarrow>
         (case r of
            ModelRequests \<Rightarrow>
              (if le_modelRequests l + k > sb_modelRequests (le_limits l)
               then (Some SubBudgetExceeded, l\<lparr>le_failed := True\<rparr>, s)
               else (None, l\<lparr>le_modelRequests := le_modelRequests l + k\<rparr>,
                 s\<lparr>at_modelReserved := at_modelReserved s - k, at_modelUsed := at_modelUsed s + k\<rparr>))
          | ToolCalls \<Rightarrow>
              (if le_toolCalls l + k > sb_toolCalls (le_limits l)
               then (Some SubBudgetExceeded, l\<lparr>le_failed := True\<rparr>, s)
               else (None, l\<lparr>le_toolCalls := le_toolCalls l + k\<rparr>,
                 s\<lparr>at_toolReserved := at_toolReserved s - k, at_toolUsed := at_toolUsed s + k\<rparr>))))"

definition recordRootUsage :: "jsnum \<Rightarrow> jsnum \<Rightarrow> agent_tree \<Rightarrow> tree_error option \<times> agent_tree" where
  "recordRootUsage model tool s = (if at_closed s then (Some SubAborted, s)
     else case non_negative_integer_of model of None \<Rightarrow> (Some SubInvalidRequest, s)
     | Some m \<Rightarrow> (case non_negative_integer_of tool of None \<Rightarrow> (Some SubInvalidRequest, s)
       | Some t \<Rightarrow> (if \<not> fits_budget m t s then (Some SubBudgetExceeded, s)
           else (None, s\<lparr>at_modelUsed := at_modelUsed s + m, at_toolUsed := at_toolUsed s + t\<rparr>))))"

subsection \<open>A child's run\<close>

text \<open>\<open>finally\<close> of \<open>run\<close>: the lease is given back, then the slot.\<close>

definition finish_child :: "nat \<Rightarrow> tree_error option \<Rightarrow> agent_tree \<Rightarrow> agent_tree" where
  "finish_child n e s =
     (let c = at_children s ! n;
          s1 = (case ch_lease c of
                  Some l \<Rightarrow> (if le_released l then s
                    else set_child n (c\<lparr>ch_lease := Some (l\<lparr>le_released := True\<rparr>)\<rparr>) (releaseBudget l s))
                | None \<Rightarrow> s) in
      release_slot (place_child n (AtOver e) s1))"

text \<open>\<open>run\<close> goes on with its slot.\<close>

definition resume_child :: "nat \<Rightarrow> agent_tree \<Rightarrow> agent_tree" where
  "resume_child n s = (case child_at n s of
     Some c \<Rightarrow> (if ch_place c \<noteq> AtGranted then s
       else if ch_aborted c then finish_child n (Some SubAborted) s
       else case reserveBudget (ch_request c) s of
         Inl e \<Rightarrow> finish_child n (Some e) s
       | Inr (l, s1) \<Rightarrow> set_child n (c\<lparr>ch_place := AtRunning, ch_lease := Some l\<rparr>) s1)
   | None \<Rightarrow> s)"

definition child_consumes :: "nat \<Rightarrow> tree_resource \<Rightarrow> jsnum \<Rightarrow> agent_tree \<Rightarrow> tree_error option \<times> agent_tree" where
  "child_consumes n r amount s = (case child_at n s of
     Some c \<Rightarrow> (case ch_lease c of
       Some l \<Rightarrow> (case consume_budget r amount l s of
         (e, l', s1) \<Rightarrow> (e, set_child n (c\<lparr>ch_lease := Some l'\<rparr>) s1))
     | None \<Rightarrow> (None, s))
   | None \<Rightarrow> (None, s))"

text \<open>The rest of \<open>run\<close>: it throws, or finds the failure of its lease, or returns.\<close>

definition child_ends :: "nat \<Rightarrow> tree_error option \<Rightarrow> agent_tree \<Rightarrow> agent_tree" where
  "child_ends n e s = (case child_at n s of
     Some c \<Rightarrow> (if ch_place c \<noteq> AtRunning then s
       else finish_child n (case e of Some x \<Rightarrow> Some x
         | None \<Rightarrow> (case ch_lease c of Some l \<Rightarrow> if le_failed l then Some SubBudgetExceeded else None
             | None \<Rightarrow> None)) s)
   | None \<Rightarrow> s)"

subsection \<open>Cancellation\<close>

text \<open>A linked signal aborts; a waiter of it leaves the queue and is rejected.\<close>

definition abort_child :: "nat \<Rightarrow> agent_tree \<Rightarrow> agent_tree" where
  "abort_child n s = (case child_at n s of
     Some c \<Rightarrow> (let s1 = set_child n (c\<lparr>ch_aborted := True\<rparr>) s in
       if ch_place c = AtWaiting
       then place_child n (AtOver (Some SubAborted)) (s1\<lparr>at_waiters := removeAll n (at_waiters s1)\<rparr>)
       else s1)
   | None \<Rightarrow> s)"

text \<open>\<open>close\<close>: the signals linked to the tree abort in turn; then the queue is emptied.\<close>

definition close_tree :: "agent_tree \<Rightarrow> agent_tree" where
  "close_tree s =
     (let s1 = (if at_closed s then s
        else fold abort_child [0 ..< length (at_children s)] (s\<lparr>at_closed := True\<rparr>)) in
      fold (\<lambda>n. place_child n (AtOver (Some SubAborted))) (at_waiters s1) (s1\<lparr>at_waiters := []\<rparr>))"

subsection \<open>Steps\<close>

datatype tree_op =
    TrAcquire bool "jsnum \<times> jsnum"
  | TrResume nat
  | TrConsume nat tree_resource jsnum
  | TrEnd nat "tree_error option"
  | TrAbort nat
  | TrRootUsage jsnum jsnum
  | TrClose

fun tree_step :: "tree_op \<Rightarrow> agent_tree \<Rightarrow> agent_tree" where
  "tree_step (TrAcquire aborted request) s = acquire_slot aborted request s"
| "tree_step (TrResume n) s = resume_child n s"
| "tree_step (TrConsume n r amount) s = snd (child_consumes n r amount s)"
| "tree_step (TrEnd n e) s = child_ends n e s"
| "tree_step (TrAbort n) s = abort_child n s"
| "tree_step (TrRootUsage model tool) s = snd (recordRootUsage model tool s)"
| "tree_step TrClose s = close_tree s"

end
