(* ===== verification/TreeProperties.thy ===== *)
theory TreeProperties
  imports SubagentTree "HOL-Library.Sublist"
begin

section \<open>The tree of subagents stays within its slots and budgets, and gives everything back\<close>

subsection \<open>The invariant\<close>

definition holds_slot :: "tree_child \<Rightarrow> bool" where
  "holds_slot c \<longleftrightarrow> ch_place c = AtGranted \<or> ch_place c = AtRunning"

definition slot_of :: "tree_child \<Rightarrow> int" where
  "slot_of c = (if holds_slot c then 1 else 0)"

text \<open>What the open lease of a child still reserves.\<close>

definition open_model :: "tree_child \<Rightarrow> int" where
  "open_model c = (case ch_lease c of None \<Rightarrow> 0
     | Some l \<Rightarrow> if le_released l then 0 else sb_modelRequests (le_limits l) - le_modelRequests l)"

definition open_tool :: "tree_child \<Rightarrow> int" where
  "open_tool c = (case ch_lease c of None \<Rightarrow> 0
     | Some l \<Rightarrow> if le_released l then 0 else sb_toolCalls (le_limits l) - le_toolCalls l)"

definition lease_ok :: "budget_lease \<Rightarrow> bool" where
  "lease_ok l \<longleftrightarrow> 0 \<le> le_modelRequests l \<and> le_modelRequests l \<le> sb_modelRequests (le_limits l)
     \<and> 0 \<le> le_toolCalls l \<and> le_toolCalls l \<le> sb_toolCalls (le_limits l)"

definition child_ok :: "tree_child \<Rightarrow> bool" where
  "child_ok c \<longleftrightarrow> (case ch_lease c of None \<Rightarrow> ch_place c \<noteq> AtRunning
     | Some l \<Rightarrow> lease_ok l \<and> (if le_released l then (\<exists>e. ch_place c = AtOver e) else ch_place c = AtRunning))"

definition child_total :: "(tree_child \<Rightarrow> int) \<Rightarrow> agent_tree \<Rightarrow> int" where
  "child_total f s = sum_list (map f (at_children s))"

definition slots_ok :: "nat list \<Rightarrow> agent_tree \<Rightarrow> bool" where
  "slots_ok ns s \<longleftrightarrow> at_active s = child_total slot_of s \<and> at_active s \<le> tl_maxConcurrent (at_limits s)
     \<and> distinct ns \<and> set ns = {n. n < length (at_children s) \<and> ch_place (at_children s ! n) = AtWaiting}
     \<and> int (length ns) \<le> tl_maxQueued (at_limits s)"

definition budget_ok :: "agent_tree \<Rightarrow> bool" where
  "budget_ok s \<longleftrightarrow> at_modelReserved s = child_total open_model s \<and> at_toolReserved s = child_total open_tool s
     \<and> at_modelUsed s + at_modelReserved s \<le> tl_maxModelRequests (at_limits s)
     \<and> at_toolUsed s + at_toolReserved s \<le> tl_maxToolCalls (at_limits s)
     \<and> 0 \<le> at_modelUsed s \<and> 0 \<le> at_toolUsed s \<and> (\<forall>c \<in> set (at_children s). child_ok c)"

definition tree_inv :: "agent_tree \<Rightarrow> bool" where
  "tree_inv s \<longleftrightarrow> slots_ok (at_waiters s) s \<and> budget_ok s \<and> 0 < tl_maxConcurrent (at_limits s)
     \<and> 0 \<le> tl_maxQueued (at_limits s)
     \<and> (at_waiters s \<noteq> [] \<longrightarrow> at_active s = tl_maxConcurrent (at_limits s) \<and> \<not> at_closed s)
     \<and> (\<forall>n \<in> set (at_waiters s). \<not> ch_aborted (at_children s ! n))"

lemma total_update:
  "n < length (at_children s) \<Longrightarrow> child_total f (set_child n c s) = child_total f s - f (at_children s ! n) + f c"
proof -
  have "sum_list (map f (xs[n := c])) = sum_list (map f xs) - f (xs ! n) + f c" if "n < length xs" for xs
    using that by (induction xs arbitrary: n) (auto split: nat.split)
  then show "n < length (at_children s) \<Longrightarrow> ?thesis" by (simp add: child_total_def set_child_def)
qed

lemma set_child_fields [simp]:
  "at_limits (set_child n c s) = at_limits s" "at_closed (set_child n c s) = at_closed s"
  "at_active (set_child n c s) = at_active s" "at_waiters (set_child n c s) = at_waiters s"
  "at_modelUsed (set_child n c s) = at_modelUsed s" "at_modelReserved (set_child n c s) = at_modelReserved s"
  "at_toolUsed (set_child n c s) = at_toolUsed s" "at_toolReserved (set_child n c s) = at_toolReserved s"
  "at_children (set_child n c s) = (at_children s)[n := c]"
  by (simp_all add: set_child_def)

lemma new_tree_inv: "new_tree c q m t aborted = Some s \<Longrightarrow> tree_inv s"
  by (auto simp: new_tree_def positive_integer_of_def non_negative_integer_of_def tree_inv_def slots_ok_def budget_ok_def child_total_def
      split: option.splits if_splits)

lemma total_fields [simp]:
  "child_total f (s\<lparr>at_active := a\<rparr>) = child_total f s" "child_total f (s\<lparr>at_waiters := w\<rparr>) = child_total f s"
  "child_total f (s\<lparr>at_modelUsed := a\<rparr>) = child_total f s" "child_total f (s\<lparr>at_modelReserved := a\<rparr>) = child_total f s"
  "child_total f (s\<lparr>at_toolUsed := a\<rparr>) = child_total f s" "child_total f (s\<lparr>at_toolReserved := a\<rparr>) = child_total f s"
  "child_total f (s\<lparr>at_closed := b\<rparr>) = child_total f s"
  by (simp_all add: child_total_def)

lemma budget_fields [simp]:
  "budget_ok (s\<lparr>at_active := a\<rparr>) = budget_ok s" "budget_ok (s\<lparr>at_waiters := w\<rparr>) = budget_ok s"
  "budget_ok (s\<lparr>at_closed := b\<rparr>) = budget_ok s"
  by (simp_all add: budget_ok_def)

lemma slots_fields [simp]:
  "slots_ok ns (s\<lparr>at_waiters := w\<rparr>) = slots_ok ns s" "slots_ok ns (s\<lparr>at_closed := b\<rparr>) = slots_ok ns s"
  "slots_ok ns (s\<lparr>at_modelUsed := a\<rparr>) = slots_ok ns s" "slots_ok ns (s\<lparr>at_modelReserved := a\<rparr>) = slots_ok ns s"
  "slots_ok ns (s\<lparr>at_toolUsed := a\<rparr>) = slots_ok ns s" "slots_ok ns (s\<lparr>at_toolReserved := a\<rparr>) = slots_ok ns s"
  by (simp_all add: slots_ok_def)

lemma budget_same_lease:
  assumes "budget_ok s" "n < length (at_children s)" "ch_lease c = ch_lease (at_children s ! n)" "child_ok c"
  shows "budget_ok (set_child n c s)"
proof -
  have "open_model c = open_model (at_children s ! n)" "open_tool c = open_tool (at_children s ! n)"
    using assms(3) by (simp_all add: open_model_def open_tool_def)
  then show ?thesis
    using assms by (auto simp: budget_ok_def total_update dest!: set_update_subset_insert [THEN subsetD])
qed

lemma waiting_no_lease:
  assumes "budget_ok s" "n < length (at_children s)" "ch_place (at_children s ! n) = AtWaiting"
  shows "ch_lease (at_children s ! n) = None"
proof -
  have "child_ok (at_children s ! n)" using assms(1,2) by (auto simp: budget_ok_def)
  with assms(3) show ?thesis by (auto simp: child_ok_def split: option.splits if_splits)
qed

text \<open>A waiter leaves the queue, with a slot or without.\<close>

lemma leave_queue:
  assumes ok: "slots_ok ns s" "n \<in> set ns"
    and p: "p \<noteq> AtWaiting" "at_active s + slot_of c \<le> tl_maxConcurrent (at_limits s)"
    and c: "c = (at_children s ! n)\<lparr>ch_place := p\<rparr>"
  shows "slots_ok (removeAll n ns) (set_child n c (s\<lparr>at_active := at_active s + slot_of c\<rparr>))"
proof -
  have n: "n < length (at_children s)" "ch_place (at_children s ! n) = AtWaiting" using ok by (auto simp: slots_ok_def)
  have "slot_of (at_children s ! n) = 0" using n(2) by (simp add: slot_of_def holds_slot_def)
  then have "at_active s + slot_of c = child_total slot_of (set_child n c s)"
    using ok(1) n(1) by (simp add: slots_ok_def total_update)
  moreover have "set (removeAll n ns) = {m. m < length ((at_children s)[n := c]) \<and> ch_place ((at_children s)[n := c] ! m) = AtWaiting}"
    using ok(1) n(1) p(1) c by (auto simp: slots_ok_def nth_list_update)
  moreover have "int (length (removeAll n ns)) \<le> tl_maxQueued (at_limits s)"
  proof -
    have "int (length ns) \<le> tl_maxQueued (at_limits s)" using ok(1) by (simp add: slots_ok_def)
    with length_removeAll_less_eq [of n ns] show ?thesis by linarith
  qed
  ultimately show ?thesis using ok(1) p(2)
    by (simp add: slots_ok_def set_child_def child_total_def distinct_removeAll)
qed

lemma leave_queue_budget:
  assumes "budget_ok s" "slots_ok ns s" "n \<in> set ns" "p \<noteq> AtRunning"
  shows "budget_ok (set_child n ((at_children s ! n)\<lparr>ch_place := p\<rparr>) s)"
proof -
  have n: "n < length (at_children s)" "ch_place (at_children s ! n) = AtWaiting" using assms(2,3) by (auto simp: slots_ok_def)
  have l: "ch_lease (at_children s ! n) = None" by (rule waiting_no_lease [OF assms(1) n])
  show ?thesis by (rule budget_same_lease [OF assms(1) n(1)]) (simp_all add: child_ok_def l assms(4))
qed

definition promoted_ok :: "nat list \<Rightarrow> agent_tree \<Rightarrow> agent_tree \<Rightarrow> bool" where
  "promoted_ok ns s t \<longleftrightarrow> slots_ok (at_waiters t) t \<and> budget_ok t
     \<and> (at_waiters t \<noteq> [] \<longrightarrow> at_active t = tl_maxConcurrent (at_limits t))
     \<and> at_limits t = at_limits s \<and> at_closed t = at_closed s \<and> suffix (at_waiters t) ns
     \<and> (\<forall>n. n \<notin> set ns \<or> n \<in> set (at_waiters t) \<longrightarrow> at_children t ! n = at_children s ! n)
     \<and> length (at_children t) = length (at_children s)"

lemma removeAll_head: "distinct (n # ns) \<Longrightarrow> removeAll n (n # ns) = ns"
  by simp

lemma promoted_ok_Cons:
  assumes t: "promoted_ok ns (set_child n c s') t" and d: "distinct (n # ns)"
    and s': "at_limits s' = at_limits s" "at_closed s' = at_closed s" "at_children s' = at_children s"
  shows "promoted_ok (n # ns) s t"
proof -
  have "set (at_waiters t) \<subseteq> set ns" using t set_mono_suffix unfolding promoted_ok_def by blast
  then have "at_children t ! m = at_children s ! m" if "m \<notin> set (n # ns) \<or> m \<in> set (at_waiters t)" for m
    using that t d s' unfolding promoted_ok_def by (metis distinct.simps(2) list.set_intros(2) nth_list_update_neq set_child_fields(9) subsetD list.set_intros(1))
  with t s' show ?thesis by (simp add: promoted_ok_def suffix_ConsI)
qed

lemma promote_ok: "slots_ok ns s \<Longrightarrow> budget_ok s \<Longrightarrow> promoted_ok ns s (promote_waiters ns s)"
proof (induction ns arbitrary: s)
  case Nil
  then show ?case by (simp add: promoted_ok_def)
next
  case (Cons n ns)
  let ?c = "\<lambda>p. (at_children s ! n)\<lparr>ch_place := p\<rparr>"
  have d: "distinct (n # ns)" using Cons.prems(1) by (simp add: slots_ok_def)
  have step: "promoted_ok (n # ns) s (promote_waiters ns (set_child n (?c p) (s\<lparr>at_active := at_active s + slot_of (?c p)\<rparr>)))"
    if p: "p \<noteq> AtWaiting" "p \<noteq> AtRunning" "at_active s + slot_of (?c p) \<le> tl_maxConcurrent (at_limits s)" for p
  proof -
    let ?t = "set_child n (?c p) (s\<lparr>at_active := at_active s + slot_of (?c p)\<rparr>)"
    have "slots_ok ns ?t"
      using leave_queue [OF Cons.prems(1) _ p(1,3) refl] removeAll_head [OF d] by simp
    moreover have "budget_ok ?t"
      using leave_queue_budget [OF Cons.prems(2,1) _ p(2), of n] by (simp add: set_child_def budget_ok_def child_total_def)
    ultimately have "promoted_ok ns ?t (promote_waiters ns ?t)" by (rule Cons.IH)
    then show ?thesis using promoted_ok_Cons [OF _ d] by simp
  qed
  show ?case
  proof (cases "at_active s < tl_maxConcurrent (at_limits s)")
    case True
    have g: "slot_of (?c AtGranted) = 1" "slot_of (?c (AtOver e)) = 0" for e by (simp_all add: slot_of_def holds_slot_def)
    from step [of AtGranted] step [of "AtOver (Some SubAborted)"] True show ?thesis
      by (simp add: place_child_def g)
  next
    case False
    then show ?thesis using Cons.prems
      by (auto simp: promoted_ok_def slots_ok_def)
  qed
qed

lemma promoted_inv:
  assumes "slots_ok ns s" "budget_ok s" "0 < tl_maxConcurrent (at_limits s)" "0 \<le> tl_maxQueued (at_limits s)"
    and open_queue: "ns \<noteq> [] \<Longrightarrow> \<not> at_closed s" and un: "\<forall>n \<in> set ns. \<not> ch_aborted (at_children s ! n)"
  shows "tree_inv (promote_waiters ns s)"
proof -
  let ?t = "promote_waiters ns s"
  have t: "promoted_ok ns s ?t" by (rule promote_ok [OF assms(1,2)])
  then have sub: "set (at_waiters ?t) \<subseteq> set ns" using set_mono_suffix unfolding promoted_ok_def by blast
  have "at_waiters ?t \<noteq> [] \<Longrightarrow> ns \<noteq> []" using sub by auto
  moreover have "\<forall>n \<in> set (at_waiters ?t). \<not> ch_aborted (at_children ?t ! n)"
    using t sub un unfolding promoted_ok_def by (metis subsetD)
  ultimately show ?thesis using t assms(3,4) open_queue unfolding tree_inv_def promoted_ok_def by simp
qed

subsection \<open>Replacing one child\<close>

lemma budget_set:
  assumes "budget_ok s" "n < length (at_children s)" "child_ok c" "at_children u = (at_children s)[n := c]"
    "at_limits u = at_limits s"
    "at_modelReserved u = at_modelReserved s - open_model (at_children s ! n) + open_model c"
    "at_toolReserved u = at_toolReserved s - open_tool (at_children s ! n) + open_tool c"
    "at_modelUsed u + at_modelReserved u \<le> tl_maxModelRequests (at_limits s)"
    "at_toolUsed u + at_toolReserved u \<le> tl_maxToolCalls (at_limits s)" "0 \<le> at_modelUsed u" "0 \<le> at_toolUsed u"
  shows "budget_ok u"
proof -
  have e: "child_total f u = child_total f (set_child n c s)" for f using assms(4) by (simp add: child_total_def)
  have "\<forall>x \<in> set ((at_children s)[n := c]). child_ok x"
    using assms(1,3) set_update_subset_insert [of "at_children s" n c] by (auto simp: budget_ok_def)
  then show ?thesis using assms by (simp add: budget_ok_def e total_update)
qed

lemma slots_set:
  assumes "slots_ok ns s" "n < length (at_children s)" "ch_place (at_children s ! n) \<noteq> AtWaiting" "ch_place c \<noteq> AtWaiting"
    "at_children u = (at_children s)[n := c]" "at_limits u = at_limits s"
    "at_active u = at_active s - slot_of (at_children s ! n) + slot_of c" "at_active u \<le> tl_maxConcurrent (at_limits s)"
  shows "slots_ok ns u"
proof -
  have "child_total slot_of u = child_total slot_of (set_child n c s)" using assms(5) by (simp add: child_total_def)
  moreover have "{m. m < length (at_children u) \<and> ch_place (at_children u ! m) = AtWaiting}
      = {m. m < length (at_children s) \<and> ch_place (at_children s ! m) = AtWaiting}"
    using assms(2-5) by (auto simp: nth_list_update)
  ultimately show ?thesis using assms by (simp add: slots_ok_def total_update)
qed

lemma inv_budget:
  assumes "tree_inv s"
  shows "budget_ok s" "at_modelUsed s + at_modelReserved s \<le> tl_maxModelRequests (at_limits s)"
    "at_toolUsed s + at_toolReserved s \<le> tl_maxToolCalls (at_limits s)" "0 \<le> at_modelUsed s" "0 \<le> at_toolUsed s"
  using assms by (simp_all add: tree_inv_def budget_ok_def)

lemma not_waiting: "tree_inv s \<Longrightarrow> n < length (at_children s) \<Longrightarrow> ch_place (at_children s ! n) \<noteq> AtWaiting
    \<Longrightarrow> n \<notin> set (at_waiters s)"
  by (auto simp: tree_inv_def slots_ok_def)

lemma child_okI: "tree_inv s \<Longrightarrow> n < length (at_children s) \<Longrightarrow> child_ok (at_children s ! n)"
  by (auto simp: tree_inv_def budget_ok_def)

lemma waiters_untouched:
  assumes "tree_inv s" "n < length (at_children s)" "ch_place (at_children s ! n) \<noteq> AtWaiting"
    and "at_children u = (at_children s)[n := c]"
  shows "\<forall>m \<in> set (at_waiters s). \<not> ch_aborted (at_children u ! m)"
proof
  fix m assume m: "m \<in> set (at_waiters s)"
  then have "m \<noteq> n" using not_waiting [OF assms(1-3)] by blast
  with m assms(1,4) show "\<not> ch_aborted (at_children u ! m)" by (simp add: tree_inv_def)
qed

text \<open>A state in which only one child that does not wait differs, and what it reserves.\<close>

lemma tree_inv_set:
  assumes inv: "tree_inv s" and n: "n < length (at_children s)"
    and p: "ch_place (at_children s ! n) \<noteq> AtWaiting" "ch_place c \<noteq> AtWaiting" "slot_of c = slot_of (at_children s ! n)"
    and b: "budget_ok u" and u: "at_children u = (at_children s)[n := c]" "at_limits u = at_limits s"
      "at_active u = at_active s" "at_waiters u = at_waiters s" "at_closed u = at_closed s"
  shows "tree_inv u"
proof -
  have "slots_ok (at_waiters s) u"
    by (rule slots_set [OF _ n p(1,2) u(1,2)]) (use inv in \<open>simp_all add: tree_inv_def slots_ok_def p(3) u\<close>)
  moreover have "\<forall>m \<in> set (at_waiters s). \<not> ch_aborted (at_children u ! m)"
    by (rule waiters_untouched [OF inv n p(1) u(1)])
  ultimately show ?thesis using inv b u by (simp add: tree_inv_def)
qed

subsection \<open>The operations\<close>

lemma finish_ok:
  assumes inv: "tree_inv s" and n: "n < length (at_children s)" and h: "holds_slot (at_children s ! n)"
  shows "tree_inv (finish_child n e s)"
proof -
  define c where "c = at_children s ! n"
  have ok: "child_ok c" using child_okI [OF inv n] by (simp add: c_def)
  have nw: "ch_place c \<noteq> AtWaiting" using h by (auto simp: holds_slot_def c_def)
  define l' where "l' = map_option (\<lambda>l. l\<lparr>le_released := True\<rparr>) (ch_lease c)"
  define d where "d = c\<lparr>ch_lease := l', ch_place := AtOver e\<rparr>"
  define u where "u = set_child n d (s\<lparr>at_active := at_active s - 1, at_modelReserved := at_modelReserved s - open_model c,
    at_toolReserved := at_toolReserved s - open_tool c\<rparr>)"
  have rel: "ch_lease c = Some l \<Longrightarrow> \<not> le_released l" for l
    using ok h by (auto simp: child_ok_def holds_slot_def c_def split: if_splits)
  have eq: "finish_child n e s = promote_waiters (at_waiters u) u"
  proof (cases "ch_lease c")
    case None
    then have "open_model c = 0" "open_tool c = 0" "d = c\<lparr>ch_place := AtOver e\<rparr>"
      by (simp_all add: open_model_def open_tool_def d_def l'_def)
    then have "(place_child n (AtOver e) s)\<lparr>at_active := at_active s - 1\<rparr> = u"
      by (simp add: u_def place_child_def set_child_def flip: c_def)
    with None show ?thesis by (simp add: finish_child_def release_slot_def Let_def u_def place_child_def flip: c_def)
  next
    case (Some l)
    note r = rel [OF Some]
    have "(place_child n (AtOver e) (set_child n (c\<lparr>ch_lease := Some (l\<lparr>le_released := True\<rparr>)\<rparr>) (releaseBudget l s)))
        \<lparr>at_active := at_active s - 1\<rparr> = u"
      using n Some r by (simp add: u_def place_child_def set_child_def releaseBudget_def d_def l'_def open_model_def open_tool_def)
    with Some r show ?thesis
      by (simp add: finish_child_def release_slot_def Let_def u_def place_child_def releaseBudget_def flip: c_def)
  qed
  have open_d: "open_model d = 0" "open_tool d = 0"
    by (simp_all add: d_def l'_def open_model_def open_tool_def split: option.split)
  have lo: "0 \<le> open_model c" "0 \<le> open_tool c"
    using ok by (auto simp: child_ok_def open_model_def open_tool_def lease_ok_def split: option.splits)
  have dk: "child_ok d"
    using ok by (auto simp: child_ok_def d_def l'_def lease_ok_def split: option.splits)
  have b: "budget_ok u"
    by (rule budget_set [of s n d]) (use inv_budget [OF inv] lo in \<open>simp_all add: n dk u_def open_d flip: c_def\<close>)
  have sl: "slot_of c = 1" "slot_of d = 0" using h by (simp_all add: slot_of_def holds_slot_def c_def d_def)
  have "slots_ok (at_waiters s) u"
    by (rule slots_set [of _ s n d]) (use inv nw sl in \<open>simp_all add: n u_def tree_inv_def slots_ok_def d_def flip: c_def\<close>)
  moreover have "\<forall>m \<in> set (at_waiters s). \<not> ch_aborted (at_children u ! m)"
    using nw by (intro waiters_untouched [OF inv n]) (simp_all add: u_def c_def)
  moreover have u: "at_waiters u = at_waiters s" "at_limits u = at_limits s" "at_closed u = at_closed s" by (simp_all add: u_def)
  ultimately show ?thesis unfolding eq u
    using inv b by (intro promoted_inv) (simp_all add: u tree_inv_def)
qed

lemma child_at_Some: "child_at n s = Some c \<longleftrightarrow> n < length (at_children s) \<and> at_children s ! n = c"
  by (simp add: child_at_def)

lemma reserve_ok:
  assumes inv: "tree_inv s" and n: "n < length (at_children s)" "ch_place (at_children s ! n) = AtGranted"
    and r: "reserveBudget req s = Inr (l, s1)"
  shows "tree_inv (set_child n ((at_children s ! n)\<lparr>ch_place := AtRunning, ch_lease := Some l\<rparr>) s1)"
proof -
  obtain b where b: "validateBudgetRequest req = Some b" "fits_budget (sb_modelRequests b) (sb_toolCalls b) s"
    and l: "l = \<lparr>le_limits = b, le_modelRequests = 0, le_toolCalls = 0, le_failed = False, le_released = False\<rparr>"
    and s1: "s1 = s\<lparr>at_modelReserved := at_modelReserved s + sb_modelRequests b, at_toolReserved := at_toolReserved s + sb_toolCalls b\<rparr>"
    using r by (auto simp: reserveBudget_def split: if_splits option.splits)
  have pos: "0 \<le> sb_modelRequests b" "0 \<le> sb_toolCalls b"
    using b(1) by (auto simp: validateBudgetRequest_def positive_integer_of_def non_negative_integer_of_def split: option.splits if_splits)
  have old: "open_model (at_children s ! n) = 0" "open_tool (at_children s ! n) = 0"
    using child_okI [OF inv n(1)] n(2) by (auto simp: child_ok_def open_model_def open_tool_def split: option.splits)
  let ?c = "(at_children s ! n)\<lparr>ch_place := AtRunning, ch_lease := Some l\<rparr>"
  have ck: "child_ok ?c" using pos by (simp add: child_ok_def lease_ok_def l)
  have op: "open_model ?c = sb_modelRequests b" "open_tool ?c = sb_toolCalls b"
    by (simp_all add: open_model_def open_tool_def l)
  have "budget_ok (set_child n ?c s1)"
    by (rule budget_set [of s n ?c]) (use inv_budget [OF inv] b(2) ck op in \<open>simp_all add: n s1 old fits_budget_def\<close>)
  then show ?thesis
    by (intro tree_inv_set [OF inv n(1)]) (simp_all add: n slot_of_def holds_slot_def s1)
qed

lemma resume_ok:
  assumes inv: "tree_inv s"
  shows "tree_inv (resume_child n s)"
proof (cases "child_at n s")
  case (Some c)
  then have c: "n < length (at_children s)" "at_children s ! n = c" by (simp_all add: child_at_Some)
  show ?thesis
  proof (cases "ch_place c = AtGranted")
    case True
    then have "tree_inv (finish_child n e s)" for e by (intro finish_ok [OF inv c(1)]) (simp add: c(2) holds_slot_def)
    moreover have "tree_inv (set_child n (c\<lparr>ch_place := AtRunning, ch_lease := Some l\<rparr>) s1)"
      if "reserveBudget (ch_request c) s = Inr (l, s1)" for l s1
      using reserve_ok [OF inv c(1) _ that] True c(2) by simp
    ultimately show ?thesis using Some True
      by (auto simp: resume_child_def split: sum.split)
  qed (use Some inv in \<open>simp add: resume_child_def\<close>)
qed (use inv in \<open>simp add: resume_child_def\<close>)

lemma ends_ok:
  assumes inv: "tree_inv s"
  shows "tree_inv (child_ends n e s)"
proof (cases "child_at n s")
  case (Some c)
  then have c: "n < length (at_children s)" "at_children s ! n = c" by (simp_all add: child_at_Some)
  show ?thesis
  proof (cases "ch_place c = AtRunning")
    case True
    then have "tree_inv (finish_child n x s)" for x by (intro finish_ok [OF inv c(1)]) (simp add: c(2) holds_slot_def)
    then show ?thesis using Some True by (simp add: child_ends_def)
  qed (use Some inv in \<open>simp add: child_ends_def\<close>)
qed (use inv in \<open>simp add: child_ends_def\<close>)

text \<open>Consuming moves the amount from the reservation to what is used.\<close>

lemma consume_cases:
  assumes "consume_budget r amount l s = (e, l', s1)" "lease_ok l"
  shows "le_limits l' = le_limits l \<and> le_released l' = le_released l \<and> lease_ok l'
    \<and> (\<exists>k j. 0 \<le> k \<and> 0 \<le> j \<and> le_modelRequests l' = le_modelRequests l + k \<and> le_toolCalls l' = le_toolCalls l + j
      \<and> (le_released l \<longrightarrow> k = 0 \<and> j = 0)
      \<and> s1 = s\<lparr>at_modelReserved := at_modelReserved s - k, at_modelUsed := at_modelUsed s + k,
          at_toolReserved := at_toolReserved s - j, at_toolUsed := at_toolUsed s + j\<rparr>)"
proof -
  have pos: "positive_integer_of amount = Some i \<Longrightarrow> 0 < i" for i
    by (auto simp: positive_integer_of_def split: option.splits if_splits)
  consider (same) "s1 = s" "l' = l \<or> l' = l\<lparr>le_failed := True\<rparr>"
    | (model) i where "0 < i" "\<not> le_released l" "l' = l\<lparr>le_modelRequests := le_modelRequests l + i\<rparr>"
        "le_modelRequests l + i \<le> sb_modelRequests (le_limits l)"
        "s1 = s\<lparr>at_modelReserved := at_modelReserved s - i, at_modelUsed := at_modelUsed s + i\<rparr>"
    | (tool) i where "0 < i" "\<not> le_released l" "l' = l\<lparr>le_toolCalls := le_toolCalls l + i\<rparr>"
        "le_toolCalls l + i \<le> sb_toolCalls (le_limits l)"
        "s1 = s\<lparr>at_toolReserved := at_toolReserved s - i, at_toolUsed := at_toolUsed s + i\<rparr>"
    using assms(1) pos by (auto simp: consume_budget_def split: if_splits option.splits tree_resource.splits)
  then show ?thesis
  proof cases
    case same
    with assms(2) show ?thesis by (intro conjI exI [of _ 0]) (auto simp: lease_ok_def)
  next
    case model
    with assms(2) show ?thesis by (intro conjI exI [of _ i] exI [of _ 0]) (auto simp: lease_ok_def)
  next
    case tool
    with assms(2) show ?thesis by (intro conjI exI [of _ 0] exI [of _ i]) (auto simp: lease_ok_def)
  qed
qed

lemma consume_ok:
  assumes inv: "tree_inv s"
  shows "tree_inv (snd (child_consumes n r amount s))"
proof (cases "child_at n s")
  case None
  with inv show ?thesis by (simp add: child_consumes_def)
next
  case (Some c)
  then have c: "n < length (at_children s)" "at_children s ! n = c" by (simp_all add: child_at_Some)
  show ?thesis
  proof (cases "ch_lease c")
    case None
    with Some inv show ?thesis by (simp add: child_consumes_def)
  next
    case (Some l)
    obtain e l' s1 where u: "consume_budget r amount l s = (e, l', s1)" by (cases "consume_budget r amount l s")
    have ck: "child_ok c" using child_okI [OF inv c(1)] c(2) by simp
    then have lk: "lease_ok l" using Some by (simp add: child_ok_def)
    obtain k j where kj: "0 \<le> k" "0 \<le> j" "le_modelRequests l' = le_modelRequests l + k" "le_toolCalls l' = le_toolCalls l + j"
      "le_released l \<Longrightarrow> k = 0 \<and> j = 0"
      "s1 = s\<lparr>at_modelReserved := at_modelReserved s - k, at_modelUsed := at_modelUsed s + k,
          at_toolReserved := at_toolReserved s - j, at_toolUsed := at_toolUsed s + j\<rparr>"
      and l': "le_limits l' = le_limits l" "le_released l' = le_released l" "lease_ok l'"
      using consume_cases [OF u lk] by blast
    let ?c = "c\<lparr>ch_lease := Some l'\<rparr>"
    have ck': "child_ok ?c" using ck Some l' by (simp add: child_ok_def)
    have op: "open_model ?c = open_model c - k" "open_tool ?c = open_tool c - j"
      using Some l' kj by (auto simp: open_model_def open_tool_def)
    have "ch_place c \<noteq> AtWaiting" using ck Some by (auto simp: child_ok_def split: if_splits)
    moreover have "budget_ok (set_child n ?c s1)"
      by (rule budget_set [of s n ?c]) (use inv_budget [OF inv] ck' op kj(1,2) in \<open>simp_all add: c kj(6)\<close>)
    ultimately have "tree_inv (set_child n ?c s1)"
      by (intro tree_inv_set [OF inv c(1)]) (simp_all add: c kj(6) slot_of_def holds_slot_def)
    then show ?thesis using \<open>child_at n s = Some c\<close> Some u by (simp add: child_consumes_def)
  qed
qed

lemma root_usage_ok:
  assumes inv: "tree_inv s"
  shows "tree_inv (snd (recordRootUsage model tool s))"
proof -
  have "tree_inv (s\<lparr>at_modelUsed := at_modelUsed s + m, at_toolUsed := at_toolUsed s + t\<rparr>)"
    if "0 \<le> m" "0 \<le> t" "fits_budget m t s" for m t
    using inv that by (simp add: tree_inv_def budget_ok_def fits_budget_def)
  then show ?thesis using inv
    by (auto simp: recordRootUsage_def non_negative_integer_of_def split: option.splits if_splits)
qed

subsection \<open>Acquiring, aborting and closing\<close>

lemma added_child:
  assumes "budget_ok s" "slots_ok ns s" "p \<noteq> AtRunning"
    and c: "c = \<lparr>ch_aborted = b, ch_place = p, ch_request = q, ch_lease = None\<rparr>"
    and u: "at_children u = at_children s @ [c]" "at_limits u = at_limits s" "at_modelUsed u = at_modelUsed s"
      "at_modelReserved u = at_modelReserved s" "at_toolUsed u = at_toolUsed s" "at_toolReserved u = at_toolReserved s"
      "at_active u = at_active s + slot_of c" "at_active u \<le> tl_maxConcurrent (at_limits s)"
    and ns': "ns' = (if p = AtWaiting then ns @ [length (at_children s)] else ns)"
      "int (length ns') \<le> tl_maxQueued (at_limits s)"
  shows "budget_ok u" "slots_ok ns' u"
proof -
  have "child_total f u = child_total f s + f c" for f by (simp add: child_total_def u)
  moreover have "open_model c = 0" "open_tool c = 0" "child_ok c" using assms(3) by (simp_all add: c open_model_def open_tool_def child_ok_def)
  ultimately show "budget_ok u" using assms(1) by (simp add: budget_ok_def u)
  have "{n. n < length (at_children u) \<and> ch_place (at_children u ! n) = AtWaiting}
      = {n. n < length (at_children s) \<and> ch_place (at_children s ! n) = AtWaiting} \<union> (if p = AtWaiting then {length (at_children s)} else {})"
    by (auto simp: u c nth_append less_Suc_eq)
  then show "slots_ok ns' u"
    using assms(2) ns' u(8) \<open>\<And>f. child_total f u = child_total f s + f c\<close>
    by (auto simp: slots_ok_def u(2,7))
qed

lemma acquire_ok:
  assumes inv: "tree_inv s"
  shows "tree_inv (acquire_slot b q s)"
proof -
  let ?n = "length (at_children s)"
  let ?c = "\<lambda>p. \<lparr>ch_aborted = b \<or> at_closed s, ch_place = p, ch_request = q, ch_lease = None\<rparr>"
  have s: "budget_ok s" "slots_ok (at_waiters s) s" "at_active s \<le> tl_maxConcurrent (at_limits s)"
    "int (length (at_waiters s)) \<le> tl_maxQueued (at_limits s)" "\<forall>n \<in> set (at_waiters s). n < ?n"
    using inv by (auto simp: tree_inv_def slots_ok_def)
  have over: "tree_inv (s\<lparr>at_children := at_children s @ [?c (AtOver e)]\<rparr>)" for e
    using inv added_child [OF s(1,2) _ refl, of "AtOver e" "s\<lparr>at_children := at_children s @ [?c (AtOver e)]\<rparr>"] s(3-5)
    by (auto simp: tree_inv_def slot_of_def holds_slot_def nth_append)
  have granted: "tree_inv (s\<lparr>at_active := at_active s + 1, at_children := at_children s @ [?c AtGranted]\<rparr>)"
    if "at_active s < tl_maxConcurrent (at_limits s)"
    using inv that s(3-5)
      added_child [OF s(1,2) _ refl, of AtGranted "s\<lparr>at_active := at_active s + 1, at_children := at_children s @ [?c AtGranted]\<rparr>"]
    by (auto simp: tree_inv_def slot_of_def holds_slot_def nth_append)
  have waiting: "tree_inv (s\<lparr>at_waiters := at_waiters s @ [?n], at_children := at_children s @ [?c AtWaiting]\<rparr>)"
    if "\<not> at_active s < tl_maxConcurrent (at_limits s)" "\<not> tl_maxQueued (at_limits s) \<le> int (length (at_waiters s))"
      "\<not> at_closed s" "\<not> b"
    using inv that s(3-5)
      added_child [OF s(1,2) _ refl, of AtWaiting "s\<lparr>at_waiters := at_waiters s @ [?n], at_children := at_children s @ [?c AtWaiting]\<rparr>"]
    by (auto simp: tree_inv_def slot_of_def holds_slot_def nth_append)
  show ?thesis using over granted waiting by (auto simp: acquire_slot_def Let_def)
qed

text \<open>A signal may abort while the tree is closing: the invariant but for the closed queue.\<close>

definition tree_core :: "agent_tree \<Rightarrow> bool" where
  "tree_core s \<longleftrightarrow> tree_inv (s\<lparr>at_closed := False\<rparr>)"

lemma tree_inv_core: "tree_inv s \<longleftrightarrow> tree_core s \<and> (at_waiters s \<noteq> [] \<longrightarrow> \<not> at_closed s)"
  by (auto simp: tree_core_def tree_inv_def)

lemma flag_slots: 
  assumes "slots_ok ns s" "n < length (at_children s)"
  shows "slots_ok ns (set_child n ((at_children s ! n)\<lparr>ch_aborted := b\<rparr>) s)"
proof -
  let ?c = "(at_children s ! n)\<lparr>ch_aborted := b\<rparr>"
  have "child_total slot_of (set_child n ?c s) = child_total slot_of s"
    using assms(2) by (simp add: total_update slot_of_def holds_slot_def)
  moreover have "ch_place ((at_children s)[n := ?c] ! m) = ch_place (at_children s ! m)" for m
    using assms(2) by (cases "m = n") simp_all
  ultimately show ?thesis using assms(1) by (simp add: slots_ok_def)
qed

lemma flag_budget:
  assumes "budget_ok s" "n < length (at_children s)"
  shows "budget_ok (set_child n ((at_children s ! n)\<lparr>ch_aborted := b\<rparr>) s)"
proof -
  have "child_ok (at_children s ! n)" using assms by (simp add: budget_ok_def)
  then show ?thesis by (intro budget_same_lease [OF assms]) (simp_all add: child_ok_def split: option.splits)
qed

lemma abort_core:
  assumes core: "tree_core s"
  shows "tree_core (abort_child n s)"
proof (cases "child_at n s")
  case None
  with core show ?thesis by (simp add: abort_child_def)
next
  case (Some c)
  then have c: "n < length (at_children s)" "at_children s ! n = c" by (simp_all add: child_at_Some)
  have s: "slots_ok (at_waiters s) s" "budget_ok s" "0 < tl_maxConcurrent (at_limits s)" "0 \<le> tl_maxQueued (at_limits s)"
    "at_waiters s \<noteq> [] \<Longrightarrow> at_active s = tl_maxConcurrent (at_limits s)"
    "\<forall>n \<in> set (at_waiters s). \<not> ch_aborted (at_children s ! n)"
    using core by (simp_all add: tree_core_def tree_inv_def)
  let ?s1 = "set_child n (c\<lparr>ch_aborted := True\<rparr>) s"
  have s1: "slots_ok (at_waiters s) ?s1" "budget_ok ?s1"
    using flag_slots [OF s(1) c(1)] flag_budget [OF s(2) c(1)] c(2) by simp_all
  show ?thesis
  proof (cases "ch_place c = AtWaiting")
    case True
    let ?d = "c\<lparr>ch_aborted := True, ch_place := AtOver (Some SubAborted)\<rparr>"
    have e: "?d = (at_children ?s1 ! n)\<lparr>ch_place := AtOver (Some SubAborted)\<rparr>" using c(1) by simp
    have w: "n \<in> set (at_waiters s)" using s(1) c True by (simp add: slots_ok_def)
    have d: "slot_of ?d = 0" by (simp add: slot_of_def holds_slot_def)
    have same: "?s1\<lparr>at_active := at_active ?s1 + slot_of ?d\<rparr> = ?s1" by (cases s) (simp add: d set_child_def)
    have act: "at_active s = tl_maxConcurrent (at_limits s)" by (rule s(5)) (use w in auto)
    have "slots_ok (removeAll n (at_waiters s)) (set_child n ?d (?s1\<lparr>at_active := at_active ?s1 + slot_of ?d\<rparr>))"
      using s(1) by (intro leave_queue [OF s1(1) w _ _ e]) (simp_all add: d slots_ok_def)
    moreover have "budget_ok (set_child n ?d ?s1)"
      unfolding e by (rule leave_queue_budget [OF s1(2,1) w]) simp
    ultimately have "tree_core ((set_child n ?d ?s1)\<lparr>at_waiters := removeAll n (at_waiters s)\<rparr>)"
      unfolding same using s(3,4,6) act by (simp add: tree_core_def tree_inv_def)
    moreover have "abort_child n s = (set_child n ?d ?s1)\<lparr>at_waiters := removeAll n (at_waiters s)\<rparr>"
      using Some True c(1) by (cases s) (simp add: abort_child_def place_child_def set_child_def Let_def)
    ultimately show ?thesis by simp
  next
    case False
    then have "n \<notin> set (at_waiters s)" using s(1) c by (auto simp: slots_ok_def)
    then have "\<forall>m \<in> set (at_waiters s). (at_children s)[n := c\<lparr>ch_aborted := True\<rparr>] ! m = at_children s ! m"
      by (metis nth_list_update_neq)
    then have "tree_core ?s1" using s s1 by (simp add: tree_core_def tree_inv_def)
    then show ?thesis using Some False by (simp add: abort_child_def)
  qed
qed

lemma abort_fields [simp]:
  "at_closed (abort_child n s) = at_closed s" "length (at_children (abort_child n s)) = length (at_children s)"
  "at_limits (abort_child n s) = at_limits s"
  by (simp_all add: abort_child_def place_child_def Let_def split: option.split)

lemma abort_subset: "set (at_waiters (abort_child n s)) \<subseteq> set (at_waiters s)"
  by (auto simp: abort_child_def place_child_def Let_def split: option.split)

lemma abort_ok: "tree_inv s \<Longrightarrow> tree_inv (abort_child n s)"
  using abort_core [of s n] abort_subset [of n s] by (auto simp: tree_inv_core)

lemma abort_leaves: "tree_core s \<Longrightarrow> n \<notin> set (at_waiters (abort_child n s))"
proof -
  assume "tree_core s"
  then have "slots_ok (at_waiters s) s" by (simp add: tree_core_def tree_inv_def)
  then show ?thesis by (auto simp: abort_child_def child_at_def place_child_def Let_def slots_ok_def)
qed

lemma abort_all:
  assumes "tree_core s"
  shows "tree_core (fold abort_child ns s) \<and> at_closed (fold abort_child ns s) = at_closed s
    \<and> set (at_waiters (fold abort_child ns s)) \<subseteq> set (at_waiters s) - set ns"
  using assms
proof (induction ns arbitrary: s)
  case (Cons n ns)
  from Cons.IH [OF abort_core [OF Cons.prems]] abort_leaves [OF Cons.prems] abort_subset [of n s]
  show ?case by auto
qed simp

lemma none_left: "X \<subseteq> A - B \<Longrightarrow> A \<subseteq> B \<Longrightarrow> X = {}"
  by auto

lemma close_tree_eq:
  assumes inv: "tree_inv s"
  shows "close_tree s = (if at_closed s then s else fold abort_child [0 ..< length (at_children s)] (s\<lparr>at_closed := True\<rparr>))"
    and "tree_inv (close_tree s)"
proof -
  let ?s1 = "if at_closed s then s else fold abort_child [0 ..< length (at_children s)] (s\<lparr>at_closed := True\<rparr>)"
  have w: "at_waiters ?s1 = [] \<and> tree_core ?s1"
  proof (cases "at_closed s")
    case True
    with inv show ?thesis by (auto simp: tree_inv_core)
  next
    case False
    let ?f = "fold abort_child [0 ..< length (at_children s)] (s\<lparr>at_closed := True\<rparr>)"
    have "tree_core (s\<lparr>at_closed := True\<rparr>)" using inv by (simp add: tree_core_def tree_inv_def)
    note all = abort_all [OF this, of "[0 ..< length (at_children s)]"]
    have "set (at_waiters s) \<subseteq> {0 ..< length (at_children s)}" using inv by (auto simp: tree_inv_def slots_ok_def)
    moreover have "set (at_waiters ?f) \<subseteq> set (at_waiters s) - {0 ..< length (at_children s)}" using all by simp
    ultimately have "set (at_waiters ?f) = {}" by (rule none_left [rotated])
    then have "at_waiters ?f = []" by (simp only: set_empty)
    with False all show ?thesis by simp
  qed
  then show "close_tree s = ?s1" by (simp add: close_tree_def Let_def)
  with w show "tree_inv (close_tree s)" by (simp add: tree_inv_core)
qed

lemma tree_step_ok: "tree_inv s \<Longrightarrow> tree_inv (tree_step x s)"
  by (cases x) (simp_all add: acquire_ok resume_ok consume_ok ends_ok abort_ok root_usage_ok close_tree_eq(2))

interpretation agent_tree_component: component tree_step tree_inv
  by unfold_locales (rule tree_step_ok)

lemmas reached_tree_inv = agent_tree_component.run_inv [OF new_tree_inv]

subsection \<open>Slots go in the order they are asked for\<close>

text \<open>A child that holds a slot asked for it before every child that waits.\<close>

definition fifo_ok :: "agent_tree \<Rightarrow> bool" where
  "fifo_ok s \<longleftrightarrow> sorted_wrt (<) (at_waiters s)
     \<and> (\<forall>h < length (at_children s). \<forall>w \<in> set (at_waiters s). holds_slot (at_children s ! h) \<longrightarrow> h < w)"

lemma fifo_mono:
  assumes "fifo_ok s" "sorted_wrt (<) (at_waiters t)" "set (at_waiters t) \<subseteq> set (at_waiters s)"
    "length (at_children t) = length (at_children s)"
    "\<And>h. h < length (at_children s) \<Longrightarrow> holds_slot (at_children t ! h) \<Longrightarrow> holds_slot (at_children s ! h)"
  shows "fifo_ok t"
  using assms unfolding fifo_ok_def by (metis subsetD)

lemma promote_fifo:
  assumes "sorted_wrt (<) ns" "\<forall>h < length (at_children s). \<forall>w \<in> set ns. holds_slot (at_children s ! h) \<longrightarrow> h < w"
    "\<forall>n \<in> set ns. n < length (at_children s)"
  shows "fifo_ok (promote_waiters ns s)"
  using assms
proof (induction ns arbitrary: s)
  case (Cons n ns)
  have "fifo_ok (promote_waiters ns (place_child n p s'))" if "at_children s' = at_children s" for p s'
  proof (rule Cons.IH)
    show "sorted_wrt (<) ns" using Cons.prems(1) by simp
    show "\<forall>h < length (at_children (place_child n p s')). \<forall>w \<in> set ns.
        holds_slot (at_children (place_child n p s') ! h) \<longrightarrow> h < w"
    proof (intro allI impI ballI)
      fix h w assume h: "h < length (at_children (place_child n p s'))" "w \<in> set ns"
        "holds_slot (at_children (place_child n p s') ! h)"
      show "h < w"
      proof (cases "h = n")
        case True
        with Cons.prems(1) h(2) show ?thesis by simp
      next
        case False
        with h that have "h < length (at_children s)" "holds_slot (at_children s ! h)" by (simp_all add: place_child_def)
        with Cons.prems(2) h(2) show ?thesis by simp
      qed
    qed
    show "\<forall>m \<in> set ns. m < length (at_children (place_child n p s'))" using Cons.prems(3) that by (simp add: place_child_def)
  qed
  then have moved: "fifo_ok (promote_waiters ns (place_child n (AtOver (Some SubAborted)) s))"
    "fifo_ok (promote_waiters ns (place_child n AtGranted (s\<lparr>at_active := at_active s + 1\<rparr>)))"
    by simp_all
  have "fifo_ok (s\<lparr>at_waiters := n # ns\<rparr>)" using Cons.prems(1,2) unfolding fifo_ok_def by simp
  with moved show ?case by (simp only: promote_waiters.simps split: if_split) simp
qed (simp add: fifo_ok_def)

lemma promote_untouched:
  "m \<notin> set ns \<Longrightarrow> at_children (promote_waiters ns s) ! m = at_children s ! m"
  "length (at_children (promote_waiters ns s)) = length (at_children s)"
  by (induction ns arbitrary: s) (simp_all add: place_child_def)

text \<open>\<open>finally\<close>: one child is over and the queue moves up.\<close>

lemma finish_shape:
  assumes "n < length (at_children s)"
  obtains u d where "finish_child n e s = promote_waiters (at_waiters s) u"
    "at_children u = (at_children s)[n := d]" "ch_place d = AtOver e"
proof (cases "\<exists>l. ch_lease (at_children s ! n) = Some l \<and> \<not> le_released l")
  case True
  then obtain l where l: "ch_lease (at_children s ! n) = Some l" "\<not> le_released l" by blast
  show thesis
    by (rule that [of "(place_child n (AtOver e) (set_child n ((at_children s ! n)\<lparr>ch_lease := Some (l\<lparr>le_released := True\<rparr>)\<rparr>)
        (releaseBudget l s)))\<lparr>at_active := at_active s - 1\<rparr>"
      "(at_children s ! n)\<lparr>ch_lease := Some (l\<lparr>le_released := True\<rparr>), ch_place := AtOver e\<rparr>"])
      (use assms l in \<open>simp_all add: finish_child_def release_slot_def Let_def place_child_def releaseBudget_def\<close>)
next
  case False
  have e: "finish_child n e s = release_slot (place_child n (AtOver e) s)"
    using False by (auto simp: finish_child_def Let_def split: option.split)
  show thesis
    by (rule that [of "(place_child n (AtOver e) s)\<lparr>at_active := at_active s - 1\<rparr>" "(at_children s ! n)\<lparr>ch_place := AtOver e\<rparr>"])
      (simp_all add: e release_slot_def Let_def place_child_def)
qed

lemma finish_fifo:
  assumes inv: "tree_inv s" and f: "fifo_ok s" and n: "n < length (at_children s)"
  shows "fifo_ok (finish_child n e s)"
proof -
  obtain u d where u: "finish_child n e s = promote_waiters (at_waiters s) u"
    "at_children u = (at_children s)[n := d]" "ch_place d = AtOver e" by (rule finish_shape [OF n, of e])
  have "\<not> holds_slot d" using u(3) by (simp add: holds_slot_def)
  then have "holds_slot (at_children u ! h) \<Longrightarrow> holds_slot (at_children s ! h)" for h
    using n u(2) by (cases "h = n") simp_all
  moreover have "\<forall>w \<in> set (at_waiters s). w < length (at_children s)" using inv by (auto simp: tree_inv_def slots_ok_def)
  ultimately show ?thesis unfolding u(1) using f u(2) by (intro promote_fifo) (auto simp: fifo_ok_def)
qed

lemma finish_places:
  assumes inv: "tree_inv s" and n: "n < length (at_children s)" and m: "m \<notin> set (at_waiters s)"
  shows "ch_place (at_children (finish_child n e s) ! m) = (if m = n then AtOver e else ch_place (at_children s ! m))"
    "length (at_children (finish_child n e s)) = length (at_children s)"
proof -
  obtain u d where u: "finish_child n e s = promote_waiters (at_waiters s) u"
    "at_children u = (at_children s)[n := d]" "ch_place d = AtOver e" by (rule finish_shape [OF n, of e])
  show "ch_place (at_children (finish_child n e s) ! m) = (if m = n then AtOver e else ch_place (at_children s ! m))"
    using u n promote_untouched(1) [OF m, of u] by simp
  show "length (at_children (finish_child n e s)) = length (at_children s)"
    using u promote_untouched(2) [of "at_waiters s" u] by simp
qed

lemma same_places_fifo:
  assumes "fifo_ok s" "at_waiters t = at_waiters s" "length (at_children t) = length (at_children s)"
    "\<And>h. holds_slot (at_children t ! h) \<Longrightarrow> holds_slot (at_children s ! h)"
  shows "fifo_ok t"
  using assms by (intro fifo_mono [of s t]) (simp_all add: fifo_ok_def)

lemma acquire_fifo:
  assumes inv: "tree_inv s" and f: "fifo_ok s"
  shows "fifo_ok (acquire_slot b q s)"
proof -
  let ?n = "length (at_children s)"
  have w: "\<forall>w \<in> set (at_waiters s). w < ?n" using inv by (auto simp: tree_inv_def slots_ok_def)
  have q: "at_active s < tl_maxConcurrent (at_limits s) \<Longrightarrow> at_waiters s = []" using inv by (auto simp: tree_inv_def)
  have new: "fifo_ok (t\<lparr>at_children := at_children s @ [c]\<rparr>)"
    if "\<not> holds_slot c" "at_waiters t = at_waiters s \<or> at_waiters t = at_waiters s @ [?n]" for t c
    using f w that unfolding fifo_ok_def by (auto simp: nth_append sorted_wrt_append less_Suc_eq)
  have "fifo_ok (t\<lparr>at_children := at_children s @ [c]\<rparr>)" if "at_waiters t = []" for t c
    using that by (simp add: fifo_ok_def)
  then show ?thesis using new q by (auto simp: acquire_slot_def Let_def holds_slot_def)
qed

lemma resume_cases:
  obtains (same) "resume_child n s = s" "\<not> (n < length (at_children s) \<and> ch_place (at_children s ! n) = AtGranted)"
  | (finish) e where "resume_child n s = finish_child n e s" "n < length (at_children s)" "ch_place (at_children s ! n) = AtGranted"
  | (running) l where "at_children (resume_child n s) = (at_children s)[n := (at_children s ! n)\<lparr>ch_place := AtRunning, ch_lease := Some l\<rparr>]"
      "at_waiters (resume_child n s) = at_waiters s" "n < length (at_children s)" "ch_place (at_children s ! n) = AtGranted"
proof (cases "n < length (at_children s) \<and> ch_place (at_children s ! n) = AtGranted")
  case True
  then have c: "child_at n s = Some (at_children s ! n)" "ch_place (at_children s ! n) = AtGranted" by (simp_all add: child_at_def)
  show thesis
  proof (cases "ch_aborted (at_children s ! n)")
    case True
    with c show thesis by (intro finish [of "Some SubAborted"]) (simp_all add: resume_child_def child_at_def split: if_splits)
  next
    case False
    show thesis
    proof (cases "reserveBudget (ch_request (at_children s ! n)) s")
      case (Inl e)
      with c False show thesis by (intro finish [of "Some e"]) (simp_all add: resume_child_def child_at_def split: if_splits)
    next
      case (Inr p)
      obtain l s1 where p: "p = (l, s1)" by (cases p)
      have "at_children s1 = at_children s" "at_waiters s1 = at_waiters s"
        using Inr p by (auto simp: reserveBudget_def split: if_splits option.splits)
      with c False Inr p show thesis by (intro running [of l]) (simp_all add: resume_child_def child_at_def split: if_splits)
    qed
  qed
next
  case False
  then show thesis by (intro same) (auto simp: resume_child_def child_at_def)
qed

lemma ends_cases:
  obtains (same) "child_ends n e s = s" "\<not> (n < length (at_children s) \<and> ch_place (at_children s ! n) = AtRunning)"
  | (finish) x where "child_ends n e s = finish_child n x s" "n < length (at_children s)" "ch_place (at_children s ! n) = AtRunning"
proof (cases "n < length (at_children s) \<and> ch_place (at_children s ! n) = AtRunning")
  case True
  then show thesis by (intro finish) (auto simp: child_ends_def child_at_def)
next
  case False
  then show thesis by (intro same) (auto simp: child_ends_def child_at_def)
qed

lemma resume_fifo: "tree_inv s \<Longrightarrow> fifo_ok s \<Longrightarrow> fifo_ok (resume_child n s)"
proof (cases rule: resume_cases [of n s])
  case (running l)
  assume "fifo_ok s"
  then show ?thesis
  proof (rule same_places_fifo)
    fix h assume "holds_slot (at_children (resume_child n s) ! h)"
    then show "holds_slot (at_children s ! h)" using running by (cases "h = n") (simp_all add: holds_slot_def)
  qed (simp_all add: running)
qed (simp_all add: finish_fifo)

lemma consume_fifo:
  assumes f: "fifo_ok s"
  shows "fifo_ok (snd (child_consumes n r amount s))"
proof -
  have "at_children (snd (snd (consume_budget r amount l s))) = at_children s \<and> at_waiters (snd (snd (consume_budget r amount l s))) = at_waiters s" for l
    by (simp add: consume_budget_def split: option.split tree_resource.split)
  then have c: "consume_budget r amount l s = (e, l', s1) \<Longrightarrow> at_children s1 = at_children s \<and> at_waiters s1 = at_waiters s" for l e l' s1
    by (metis snd_conv)
  show ?thesis
  proof (rule same_places_fifo [OF f])
    show "at_waiters (snd (child_consumes n r amount s)) = at_waiters s"
      "length (at_children (snd (child_consumes n r amount s))) = length (at_children s)"
      using c by (auto simp: child_consumes_def split: option.split prod.split)
    fix h assume h: "holds_slot (at_children (snd (child_consumes n r amount s)) ! h)"
    have "ch_place (at_children (snd (child_consumes n r amount s)) ! h) = ch_place (at_children s ! h)"
      using c by (cases "h = n") (auto simp: child_consumes_def child_at_def split: option.split prod.split)
    with h show "holds_slot (at_children s ! h)" by (simp add: holds_slot_def)
  qed
qed

lemma abort_fifo:
  assumes "fifo_ok s"
  shows "fifo_ok (abort_child n s)"
proof (rule fifo_mono [OF assms])
  have "sorted_wrt (<) (removeAll n (at_waiters s))"
    using assms by (simp add: fifo_ok_def removeAll_filter_not_eq sorted_wrt_filter del: strict_sorted_iff)
  then show "sorted_wrt (<) (at_waiters (abort_child n s))"
    using assms by (auto simp: abort_child_def place_child_def Let_def fifo_ok_def simp del: strict_sorted_iff split: option.split)
  show "set (at_waiters (abort_child n s)) \<subseteq> set (at_waiters s)" by (rule abort_subset)
  fix h assume "h < length (at_children s)" "holds_slot (at_children (abort_child n s) ! h)"
  then show "holds_slot (at_children s ! h)"
    by (cases "h = n") (auto simp: abort_child_def place_child_def child_at_def holds_slot_def Let_def split: if_splits)
qed simp

lemma abort_all_fifo: "fifo_ok s \<Longrightarrow> fifo_ok (fold abort_child ns s)"
  by (induction ns arbitrary: s) (simp_all add: abort_fifo)

lemma step_fifo: "tree_inv s \<Longrightarrow> fifo_ok s \<Longrightarrow> fifo_ok (tree_step x s)"
proof (cases x)
  case TrClose
  assume inv: "tree_inv s" and f: "fifo_ok s"
  have "fifo_ok (s\<lparr>at_closed := True\<rparr>)" using f by (simp add: fifo_ok_def)
  with f TrClose show ?thesis by (simp add: close_tree_eq(1) [OF inv] abort_all_fifo)
next
  case (TrEnd n e)
  assume "tree_inv s" "fifo_ok s"
  with TrEnd show ?thesis by (cases rule: ends_cases [of n e s]) (simp_all add: finish_fifo)
next
  case (TrRootUsage m t)
  assume "fifo_ok s"
  with TrRootUsage show ?thesis by (auto simp: recordRootUsage_def fifo_ok_def split: option.split)
qed (simp_all add: acquire_fifo resume_fifo consume_fifo abort_fifo)

lemma new_tree_fifo: "new_tree c q m t aborted = Some s \<Longrightarrow> fifo_ok s"
  by (auto simp: new_tree_def fifo_ok_def split: option.splits)

lemma reached_fifo:
  assumes "new_tree c q m t aborted = Some s"
  shows "fifo_ok (run tree_step ops s)"
  by (rule agent_tree_component.run_keeps [OF new_tree_inv [OF assms] new_tree_fifo [OF assms] step_fifo])

subsection \<open>Everything is given back\<close>

definition is_over :: "agent_tree \<Rightarrow> nat \<Rightarrow> bool" where
  "is_over s m \<longleftrightarrow> (\<exists>e. ch_place (at_children s ! m) = AtOver e)"

text \<open>Each child in turn goes on with its slot, if it has one, and comes to its end.\<close>

definition drain_ops :: "nat \<Rightarrow> (nat \<Rightarrow> tree_error option) \<Rightarrow> tree_op list" where
  "drain_ops k e = concat (map (\<lambda>n. [TrResume n, TrEnd n (e n)]) [0 ..< k])"

lemma over_not_waiting: "tree_inv s \<Longrightarrow> is_over s m \<Longrightarrow> m \<notin> set (at_waiters s)"
  by (auto simp: tree_inv_def slots_ok_def is_over_def)

lemma over_stays:
  assumes inv: "tree_inv s" and m: "is_over s m"
  shows "is_over (resume_child n s) m" "is_over (child_ends n e s) m"
proof -
  have fin: "is_over (finish_child n x s) m" if "n < length (at_children s)" for x
    using finish_places(1) [OF inv that over_not_waiting [OF inv m]] m by (simp add: is_over_def)
  show "is_over (resume_child n s) m"
  proof (cases rule: resume_cases [of n s])
    case (running l)
    then show ?thesis using m by (cases "m = n") (auto simp: is_over_def)
  qed (use m fin in simp_all)
  show "is_over (child_ends n e s) m"
    by (cases rule: ends_cases [of n e s]) (use m fin in simp_all)
qed

lemma child_total_zero:
  assumes "\<forall>c \<in> set (at_children s). f c = 0"
  shows "child_total f s = 0"
proof -
  have "\<forall>c \<in> set xs. f c = 0 \<Longrightarrow> sum_list (map f xs) = 0" for xs by (induction xs) auto
  with assms show ?thesis by (simp add: child_total_def)
qed

lemma child_over:
  assumes inv: "tree_inv s" and f: "fifo_ok s" and n: "n < length (at_children s)" and before: "\<forall>m < n. is_over s m"
  shows "is_over (child_ends n e (resume_child n s)) n"
    "length (at_children (child_ends n e (resume_child n s))) = length (at_children s)"
proof -
  have nw: "n \<notin> set (at_waiters s)"
  proof
    assume w: "n \<in> set (at_waiters s)"
    then have "at_active s = tl_maxConcurrent (at_limits s)" "0 < tl_maxConcurrent (at_limits s)"
      "at_active s = child_total slot_of s" using inv by (auto simp: tree_inv_def slots_ok_def)
    then have "\<exists>c \<in> set (at_children s). slot_of c \<noteq> 0"
      using child_total_zero [of s slot_of] by auto
    then obtain h where h: "h < length (at_children s)" "holds_slot (at_children s ! h)"
      by (auto simp: in_set_conv_nth slot_of_def split: if_splits)
    with f w have "h < n" by (simp add: fifo_ok_def)
    with before h show False by (auto simp: is_over_def holds_slot_def)
  qed
  have inv': "tree_inv (resume_child n s)" by (rule resume_ok [OF inv])
  have r: "length (at_children (resume_child n s)) = length (at_children s)
      \<and> (is_over (resume_child n s) n \<or> ch_place (at_children (resume_child n s) ! n) = AtRunning)"
  proof (cases rule: resume_cases [of n s])
    case same
    then show ?thesis using n nw inv
      by (cases "ch_place (at_children s ! n)") (auto simp: is_over_def tree_inv_def slots_ok_def)
  next
    case (finish x)
    then show ?thesis using finish_places [OF inv n nw, of x] by (simp add: is_over_def)
  next
    case (running l)
    then show ?thesis by simp
  qed
  have "is_over (child_ends n e (resume_child n s)) n
      \<and> length (at_children (child_ends n e (resume_child n s))) = length (at_children s)"
  proof (cases rule: ends_cases [of n e "resume_child n s"])
    case same
    with r n show ?thesis by auto
  next
    case (finish x)
    have "n \<notin> set (at_waiters (resume_child n s))" using not_waiting [OF inv' finish(2)] finish(3) by simp
    from finish_places [OF inv' finish(2) this, of x] finish r show ?thesis by (simp add: is_over_def)
  qed
  then show "is_over (child_ends n e (resume_child n s)) n"
    "length (at_children (child_ends n e (resume_child n s))) = length (at_children s)" by blast+
qed

lemma drain_over:
  assumes "tree_inv s" "fifo_ok s" "k \<le> length (at_children s)"
  shows "(\<forall>m < k. is_over (run tree_step (drain_ops k e) s) m)
    \<and> length (at_children (run tree_step (drain_ops k e) s)) = length (at_children s)"
  using assms(3)
proof (induction k)
  case (Suc k)
  let ?t = "run tree_step (drain_ops k e) s"
  have t: "tree_inv ?t" by (rule agent_tree_component.run_inv [OF assms(1)])
  have ft: "fifo_ok ?t" by (rule agent_tree_component.run_keeps [OF assms(1,2) step_fifo])
  have r: "run tree_step (drain_ops (Suc k) e) s = child_ends k (e k) (resume_child k ?t)"
    by (simp add: drain_ops_def)
  have ih: "\<forall>m < k. is_over ?t m" "length (at_children ?t) = length (at_children s)" using Suc by simp_all
  have k: "k < length (at_children ?t)" using Suc.prems ih(2) by simp
  note over = child_over [OF t ft k ih(1), of "e k"]
  have "is_over (child_ends k (e k) (resume_child k ?t)) m" if "m < k" for m
    using over_stays(2) [OF resume_ok [OF t] over_stays(1) [OF t]] ih(1) that by blast
  with over ih(2) show ?case unfolding r by (simp add: less_Suc_eq)
qed (simp add: drain_ops_def)

lemma all_over:
  assumes inv: "tree_inv s" and over: "\<forall>m < length (at_children s). is_over s m"
  shows "at_active s = 0" "at_waiters s = []" "at_modelReserved s = 0" "at_toolReserved s = 0"
proof -
  have o: "\<forall>c \<in> set (at_children s). \<exists>e. ch_place c = AtOver e" using over by (auto simp: is_over_def in_set_conv_nth)
  then have "\<forall>c \<in> set (at_children s). slot_of c = 0" by (auto simp: slot_of_def holds_slot_def)
  moreover have "\<forall>c \<in> set (at_children s). open_model c = 0 \<and> open_tool c = 0"
  proof
    fix c assume c: "c \<in> set (at_children s)"
    then have "child_ok c" using inv by (simp add: tree_inv_def budget_ok_def)
    with o c show "open_model c = 0 \<and> open_tool c = 0"
      by (auto simp: child_ok_def open_model_def open_tool_def split: option.splits if_splits)
  qed
  ultimately have "child_total slot_of s = 0" "child_total open_model s = 0" "child_total open_tool s = 0"
    by (simp_all add: child_total_zero)
  then show "at_active s = 0" "at_modelReserved s = 0" "at_toolReserved s = 0"
    using inv by (simp_all add: tree_inv_def slots_ok_def budget_ok_def)
  have "set (at_waiters s) = {}" using inv over by (auto simp: tree_inv_def slots_ok_def is_over_def)
  then show "at_waiters s = []" by (simp only: set_empty)
qed

subsection \<open>The properties\<close>

text \<open>C37: In every run of the subagent tree (children that ask for a slot, go on, consume, end or are
  aborted, the root's own usage, the tree closed at any time) no more children hold a slot than
  the limit, the queue is within its limit and never waits beside a free slot or in a closed tree, what is
  used and what open leases reserve together stay within both budgets, the reservations are
  exactly what the open leases have left, and no child consumes more than its lease.\<close>

theorem tree_bounded:
  assumes "new_tree c q m t aborted = Some s0" "s = run tree_step ops s0"
  shows "at_active s = int (length (filter holds_slot (at_children s)))
    \<and> at_active s \<le> tl_maxConcurrent (at_limits s)
    \<and> int (length (at_waiters s)) \<le> tl_maxQueued (at_limits s)
    \<and> (at_waiters s \<noteq> [] \<longrightarrow> at_active s = tl_maxConcurrent (at_limits s) \<and> \<not> at_closed s)
    \<and> at_modelUsed s + at_modelReserved s \<le> tl_maxModelRequests (at_limits s)
    \<and> at_toolUsed s + at_toolReserved s \<le> tl_maxToolCalls (at_limits s)
    \<and> at_modelReserved s = child_total open_model s \<and> at_toolReserved s = child_total open_tool s
    \<and> (\<forall>ch \<in> set (at_children s). \<forall>l. ch_lease ch = Some l \<longrightarrow> lease_ok l)"
proof -
  have inv: "tree_inv s" unfolding assms(2) by (rule reached_tree_inv [OF assms(1)])
  have "sum_list (map slot_of xs) = int (length (filter holds_slot xs))" for xs
    by (induction xs) (simp_all add: slot_of_def)
  then have "at_active s = int (length (filter holds_slot (at_children s)))"
    using inv by (simp add: tree_inv_def slots_ok_def child_total_def)
  moreover have "lease_ok l" if "ch \<in> set (at_children s)" "ch_lease ch = Some l" for ch l
  proof -
    have "child_ok ch" using inv that(1) by (simp add: tree_inv_def budget_ok_def)
    with that(2) show ?thesis by (simp add: child_ok_def)
  qed
  ultimately show ?thesis using inv unfolding tree_inv_def slots_ok_def budget_ok_def by blast
qed

definition sample_tree :: agent_tree where
  "sample_tree = the (new_tree (Fin 1) None (Fin 5) (Fin 4) False)"

definition sample_children :: "tree_op list" where
  "sample_children = [TrAcquire False (Fin 3, Fin 2), TrAcquire False (Fin 3, Fin 2), TrResume 0,
     TrConsume 0 ModelRequests (Fin 2), TrConsume 0 ToolCalls (Fin 3)]"

lemma sample_tree_new: "new_tree (Fin 1) None (Fin 5) (Fin 4) False = Some sample_tree"
  by code_simp

theorem tree_bounded_witness:
  "let s = run tree_step sample_children sample_tree in
     at_modelUsed s = 2 \<and> at_modelReserved s = 1 \<and> at_waiters s = [1]
     \<and> at_active s = tl_maxConcurrent (at_limits s)"
proof -
  have "at_modelUsed (run tree_step sample_children sample_tree) = 2"
    "at_modelReserved (run tree_step sample_children sample_tree) = 1"
    "at_waiters (run tree_step sample_children sample_tree) = [1]" by code_simp+
  with tree_bounded [OF sample_tree_new refl, of sample_children] show ?thesis by (simp add: Let_def)
qed

text \<open>C38: Slots go to children in the order they asked for them, and all is given back: in every
  reachable state each child that holds a slot asked before each child that waits, and once each
  child in turn goes on and comes to its end, however it ends, all children are over, the queue is empty,
  no slot is taken and nothing is reserved.\<close>

theorem tree_drains:
  assumes "new_tree c q m t aborted = Some s0" "s = run tree_step ops s0"
    and "u = run tree_step (drain_ops (length (at_children s)) e) s"
  shows "(h < length (at_children s) \<and> holds_slot (at_children s ! h) \<and> w \<in> set (at_waiters s) \<longrightarrow> h < w)
    \<and> (\<forall>n < length (at_children s). is_over u n)
    \<and> at_active u = 0 \<and> at_waiters u = [] \<and> at_modelReserved u = 0 \<and> at_toolReserved u = 0"
proof -
  have inv: "tree_inv s" unfolding assms(2) by (rule reached_tree_inv [OF assms(1)])
  have f: "fifo_ok s" unfolding assms(2) by (rule reached_fifo [OF assms(1)])
  have u: "tree_inv u" unfolding assms(3) by (rule agent_tree_component.run_inv [OF inv])
  have over: "(\<forall>n < length (at_children s). is_over u n) \<and> length (at_children u) = length (at_children s)"
    unfolding assms(3) by (rule drain_over [OF inv f order_refl])
  with all_over [OF u] f show ?thesis by (simp add: fifo_ok_def)
qed

theorem tree_drains_witness:
  "let u = run tree_step (drain_ops 2 (\<lambda>n. None)) (run tree_step sample_children sample_tree) in
     at_active u = 0 \<and> at_modelReserved u = 0 \<and> is_over u 1"
proof -
  have "length (at_children (run tree_step sample_children sample_tree)) = 2" by code_simp
  with tree_drains [OF sample_tree_new refl refl, where ops = sample_children and e = "\<lambda>n. None"] show ?thesis by (simp add: Let_def)
qed

end
