(* ===== verification/NodePath.thy ===== *)
theory NodePath
  imports JsonValue "HOL-Library.Sublist"
begin

section \<open>Paths\<close>

text \<open>
  What the program uses of Node's \<open>path\<close> module, on POSIX systems: \<open>resolve\<close>, \<open>relative\<close>,
  \<open>normalize\<close>, \<open>isAbsolute\<close>, and the containment check \<open>isWithin\<close> of
  \<open>src/src/runtime/subagent-thread-runtime.ts\<close>. The working directory is an argument. A path is
  compared by its segments: a path is within a root iff the segments of the root begin its own.
\<close>

subsection \<open>Segments\<close>

fun split_slash :: "jsstr \<Rightarrow> jsstr list" where
  "split_slash [] = [[]]"
| "split_slash (u # s) = (if u = 47 then [] # split_slash s
     else (case split_slash s of seg # segs \<Rightarrow> (u # seg) # segs | [] \<Rightarrow> [[u]]))"

fun join_slash :: "jsstr list \<Rightarrow> jsstr" where
  "join_slash [] = []"
| "join_slash [s] = s"
| "join_slash (s # t # ts) = s @ 47 # join_slash (t # ts)"

definition dot :: jsstr where "dot = js ''.''"
definition dotdot :: jsstr where "dotdot = js ''..''"

text \<open>One segment of Node's \<open>normalizeString\<close>; \<open>up\<close> is its \<open>allowAboveRoot\<close>.\<close>

definition norm_step :: "bool \<Rightarrow> jsstr list \<Rightarrow> jsstr \<Rightarrow> jsstr list" where
  "norm_step up st seg = (if seg = [] \<or> seg = dot then st
     else if seg = dotdot then (if st \<noteq> [] \<and> last st \<noteq> dotdot then butlast st
       else if up then st @ [seg] else st)
     else st @ [seg])"

definition norm_segs :: "bool \<Rightarrow> jsstr \<Rightarrow> jsstr list" where
  "norm_segs up p = foldl (norm_step up) [] (split_slash p)"

definition is_absolute :: "jsstr \<Rightarrow> bool" where
  "is_absolute p \<longleftrightarrow> starts_with p (js ''/'')"

subsection \<open>resolve, relative, normalize\<close>

definition resolved_path :: "jsstr \<Rightarrow> jsstr list \<Rightarrow> jsstr" where
  "resolved_path cwd ps = foldl (\<lambda>acc p. if p = [] then acc else if is_absolute p then p else acc @ 47 # p) cwd ps"

definition resolve_segs :: "jsstr \<Rightarrow> jsstr list \<Rightarrow> jsstr list" where
  "resolve_segs cwd ps = norm_segs False (resolved_path cwd ps)"

definition path_resolve :: "jsstr \<Rightarrow> jsstr list \<Rightarrow> jsstr" where
  "path_resolve cwd ps = 47 # join_slash (resolve_segs cwd ps)"

fun strip_common :: "'a list \<Rightarrow> 'a list \<Rightarrow> 'a list \<times> 'a list" where
  "strip_common (x # xs) (y # ys) = (if x = y then strip_common xs ys else (x # xs, y # ys))"
| "strip_common xs ys = (xs, ys)"

definition path_relative :: "jsstr \<Rightarrow> jsstr \<Rightarrow> jsstr \<Rightarrow> jsstr" where
  "path_relative cwd from_path to_path =
     (case strip_common (resolve_segs cwd [from_path]) (resolve_segs cwd [to_path]) of
        (ups, rest) \<Rightarrow> join_slash (replicate (length ups) dotdot @ rest))"

definition path_normalize :: "jsstr \<Rightarrow> jsstr" where
  "path_normalize p = (if p = [] then dot
     else let body = join_slash (norm_segs (\<not> is_absolute p) p); trailing = (last p = 47) in
       if body = [] then (if is_absolute p then js ''/'' else if trailing then js ''./'' else dot)
       else (if is_absolute p then [47] else []) @ body @ (if trailing then [47] else []))"

definition isWithin :: "jsstr \<Rightarrow> jsstr \<Rightarrow> jsstr \<Rightarrow> bool" where
  "isWithin cwd base candidate = (let path = path_relative cwd base candidate in
     path = [] \<or> path \<noteq> dotdot \<and> \<not> starts_with path (js ''../'') \<and> \<not> is_absolute path)"

subsection \<open>Lemmas\<close>

lemma dots [simp]: "dot = [46]" "dotdot = [46, 46]"
  by (simp_all add: dot_def dotdot_def js_def)

lemma js_slash [simp]: "js ''/'' = [47]" "js ''../'' = [46, 46, 47]" "js ''./'' = [46, 47]"
  by (simp_all add: js_def)

lemma split_ne [simp]: "split_slash s \<noteq> []"
  by (induction s) (auto split: list.split)

lemma split_append: "split_slash (a @ 47 # b) = split_slash a @ split_slash b"
proof (induction a)
  case (Cons u a)
  then show ?case by (cases "split_slash a") (auto split: list.split)
qed simp

lemma split_single: "47 \<notin> set s \<Longrightarrow> split_slash s = [s]"
  by (induction s) auto

lemma split_join: "segs \<noteq> [] \<Longrightarrow> \<forall>s \<in> set segs. 47 \<notin> set s \<Longrightarrow> split_slash (join_slash segs) = segs"
  by (induction segs rule: join_slash.induct) (auto simp: split_append split_single)

lemma split_no_slash: "seg \<in> set (split_slash s) \<Longrightarrow> 47 \<notin> set seg"
proof (induction s arbitrary: seg)
  case (Cons u s)
  then show ?case by (cases "split_slash s") (auto split: if_splits)
qed simp

definition proper :: "jsstr \<Rightarrow> bool" where
  "proper seg \<longleftrightarrow> seg \<noteq> [] \<and> seg \<noteq> dot \<and> seg \<noteq> dotdot \<and> 47 \<notin> set seg"

lemma norm_proper:
  "\<forall>s \<in> set st. proper s \<Longrightarrow> \<forall>s \<in> set segs. 47 \<notin> set s \<Longrightarrow> \<forall>s \<in> set (foldl (norm_step False) st segs). proper s"
proof (induction segs arbitrary: st)
  case (Cons seg segs)
  have "\<forall>s \<in> set (norm_step False st seg). proper s"
    using Cons.prems by (auto simp: norm_step_def proper_def dest: in_set_butlastD)
  with Cons show ?case by simp
qed simp

lemma resolve_proper: "\<forall>s \<in> set (resolve_segs cwd ps). proper s"
  unfolding resolve_segs_def norm_segs_def by (rule norm_proper) (auto dest: split_no_slash)

lemma norm_id: "\<forall>s \<in> set segs. proper s \<Longrightarrow> foldl (norm_step up) st segs = st @ segs"
  by (induction segs arbitrary: st) (auto simp: norm_step_def proper_def)

lemma norm_join: "\<forall>s \<in> set segs. proper s \<Longrightarrow> norm_segs up (join_slash segs) = segs"
proof (cases "segs = []")
  case False
  assume p: "\<forall>s \<in> set segs. proper s"
  then have "split_slash (join_slash segs) = segs" by (intro split_join False) (auto simp: proper_def)
  with norm_id [OF p] show ?thesis by (simp add: norm_segs_def)
qed (simp add: norm_segs_def norm_step_def)

lemma norm_slash: "norm_segs up (47 # s) = norm_segs up s"
  by (simp add: norm_segs_def norm_step_def)

lemma norm_under: "norm_segs up (a @ 47 # b) = foldl (norm_step up) (norm_segs up a) (split_slash b)"
  by (simp add: norm_segs_def split_append)

lemma resolve_one: "resolve_segs cwd [path_resolve cwd' ps] = resolve_segs cwd' ps"
proof -
  have "resolve_segs cwd [path_resolve cwd' ps] = norm_segs False (47 # join_slash (resolve_segs cwd' ps))"
    by (simp add: resolve_segs_def [of cwd] resolved_path_def path_resolve_def is_absolute_def starts_with_def)
  then show ?thesis by (simp add: norm_slash norm_join [OF resolve_proper])
qed

lemma strip_common_eq: "strip_common xs ys = (f, t) \<Longrightarrow> \<exists>c. xs = c @ f \<and> ys = c @ t"
  by (induction xs ys rule: strip_common.induct) (auto split: if_splits)

lemma strip_common_prefix: "strip_common xs ys = (f, t) \<Longrightarrow> f = [] \<longleftrightarrow> prefix xs ys"
  by (induction xs ys rule: strip_common.induct) (auto split: if_splits)

lemma join_absolute: "\<forall>s \<in> set segs. 47 \<notin> set s \<Longrightarrow> segs = [] \<or> hd segs \<noteq> [] \<Longrightarrow> \<not> is_absolute (join_slash segs)"
proof (cases segs rule: join_slash.cases)
  case (2 s)
  assume "\<forall>s \<in> set segs. 47 \<notin> set s" "segs = [] \<or> hd segs \<noteq> []"
  with 2 show ?thesis by (cases s) (simp_all add: is_absolute_def starts_with_def)
next
  case (3 s t ts)
  assume "\<forall>s \<in> set segs. 47 \<notin> set s" "segs = [] \<or> hd segs \<noteq> []"
  with 3 show ?thesis by (cases s) (simp_all add: is_absolute_def starts_with_def)
qed (simp add: is_absolute_def starts_with_def)

lemma starts_dotdot: "segs \<noteq> [] \<Longrightarrow> hd segs = dotdot \<Longrightarrow> starts_with (join_slash segs) dotdot"
  by (cases segs rule: join_slash.cases) (simp_all add: starts_with_def)

lemma first_segment:
  "split_slash s = seg # segs \<Longrightarrow> segs = [] \<and> s = seg \<or> (\<exists>b. s = seg @ 47 # b)"
proof (induction s arbitrary: seg)
  case (Cons u s)
  then show ?case by (cases "split_slash s") (auto split: if_splits)
qed simp

lemma escapes_iff: "p = dotdot \<or> starts_with p (js ''../'') \<longleftrightarrow> hd (split_slash p) = dotdot"
proof
  assume "p = dotdot \<or> starts_with p (js ''../'')"
  then show "hd (split_slash p) = dotdot"
  proof
    assume "starts_with p (js ''../'')"
    then obtain b where "p = dotdot @ 47 # b" by (metis append_Cons append_Nil append_take_drop_id dots(2) js_slash(2) starts_with_def)
    then show ?thesis by (simp only: split_append) simp
  qed simp
next
  assume h: "hd (split_slash p) = dotdot"
  then obtain segs where "split_slash p = dotdot # segs" by (metis list.collapse split_ne)
  from first_segment [OF this] show "p = dotdot \<or> starts_with p (js ''../'')"
    by (auto simp: starts_with_def)
qed

text \<open>The relative path tells whether one path is below another.\<close>

lemma relative_cases:
  obtains (below) rest where "resolve_segs cwd [to_path] = resolve_segs cwd [base] @ rest"
      "path_relative cwd base to_path = join_slash rest" "\<forall>s \<in> set rest. proper s"
  | (outside) segs where "\<not> prefix (resolve_segs cwd [base]) (resolve_segs cwd [to_path])"
      "path_relative cwd base to_path = join_slash (dotdot # segs)" "\<forall>s \<in> set segs. 47 \<notin> set s"
proof -
  obtain ups rest where s: "strip_common (resolve_segs cwd [base]) (resolve_segs cwd [to_path]) = (ups, rest)"
    by (cases "strip_common (resolve_segs cwd [base]) (resolve_segs cwd [to_path])")
  obtain c where c: "resolve_segs cwd [base] = c @ ups" "resolve_segs cwd [to_path] = c @ rest"
    using strip_common_eq [OF s] by blast
  have rel: "path_relative cwd base to_path = join_slash (replicate (length ups) dotdot @ rest)"
    by (simp add: path_relative_def s)
  have pr: "\<forall>s \<in> set rest. proper s" using resolve_proper [of cwd "[to_path]"] c(2) by simp
  show thesis
  proof (cases ups)
    case Nil
    with c rel pr show thesis by (intro below [of rest]) simp_all
  next
    case (Cons u us)
    then have "\<not> prefix (resolve_segs cwd [base]) (resolve_segs cwd [to_path])"
      using strip_common_prefix [OF s] by simp
    moreover have "path_relative cwd base to_path = join_slash (dotdot # replicate (length us) dotdot @ rest)"
      using rel Cons by simp
    moreover have "\<forall>s \<in> set (replicate (length us) dotdot @ rest). 47 \<notin> set s"
    proof
      fix s assume "s \<in> set (replicate (length us) dotdot @ rest)"
      then have "s = dotdot \<or> s \<in> set rest" by (simp add: set_replicate_conv_if split: if_splits)
      moreover have "47 \<notin> set dotdot" by simp
      ultimately show "47 \<notin> set s" using pr unfolding proper_def by blast
    qed
    ultimately show thesis by (rule outside)
  qed
qed

lemma join_hd: "\<forall>s \<in> set segs. 47 \<notin> set s \<Longrightarrow> segs \<noteq> [] \<Longrightarrow> hd (split_slash (join_slash segs)) = hd segs"
  by (simp add: split_join)

lemma proper_hd: "\<forall>s \<in> set segs. proper s \<Longrightarrow> segs \<noteq> [] \<Longrightarrow> hd segs \<noteq> dotdot \<and> hd segs \<noteq> []"
  by (cases segs) (auto simp: proper_def)

lemma below_not_escaping:
  assumes "\<forall>s \<in> set segs. proper s"
  shows "\<not> is_absolute (join_slash segs)" "join_slash segs \<noteq> dotdot" "\<not> starts_with (join_slash segs) (js ''../'')"
proof -
  have sl: "\<forall>s \<in> set segs. 47 \<notin> set s" using assms by (auto simp: proper_def)
  have h: "segs = [] \<or> hd segs \<noteq> [] \<and> hd segs \<noteq> dotdot" using proper_hd [OF assms] by blast
  then show "\<not> is_absolute (join_slash segs)" by (intro join_absolute [OF sl]) blast
  have "hd (split_slash (join_slash segs)) \<noteq> dotdot"
    using h join_hd [OF sl] by (cases "segs = []") auto
  then show "join_slash segs \<noteq> dotdot" "\<not> starts_with (join_slash segs) (js ''../'')"
    using escapes_iff by blast+
qed

lemma isWithin_iff: "isWithin cwd base p \<longleftrightarrow> prefix (resolve_segs cwd [base]) (resolve_segs cwd [p])"
proof (cases rule: relative_cases [of cwd p base])
  case (below rest)
  then show ?thesis using below_not_escaping [OF below(3)] by (simp add: isWithin_def del: dots js_slash)
next
  case (outside segs)
  then have "hd (split_slash (path_relative cwd base p)) = dotdot" by (simp add: join_hd)
  then have "path_relative cwd base p = dotdot \<or> starts_with (path_relative cwd base p) (js ''../'')"
    using escapes_iff by blast
  moreover have "path_relative cwd base p \<noteq> []" using outside(2) by (cases segs) simp_all
  ultimately show ?thesis using outside(1) by (auto simp: isWithin_def)
qed

text \<open>\<open>normalize\<close> of a path from a root to a path below it, and resolving it again.\<close>

lemma normalize_below:
  assumes p: "\<forall>s \<in> set segs. proper s"
  shows "path_normalize (join_slash segs) = (if segs = [] then dot else join_slash segs)"
proof (cases "segs = []")
  case False
  have "join_slash segs \<noteq> []"
    using False p by (cases segs rule: join_slash.cases) (auto simp: proper_def)
  moreover have "last (join_slash segs) \<noteq> 47"
  proof -
    have "last (join_slash segs) = last (last segs)"
      using p False
    proof (induction segs rule: join_slash.induct)
      case (3 s t ts)
      then have "join_slash (t # ts) \<noteq> []" by (cases ts) (auto simp: proper_def)
      with 3 show ?case by simp
    qed simp_all
    moreover have "last segs \<in> set segs" using False by simp
    ultimately show ?thesis using p by (metis last_in_set proper_def)
  qed
  ultimately show ?thesis
    using False below_not_escaping(1) [OF p] norm_join [OF p] by (simp add: path_normalize_def Let_def)
qed (simp add: path_normalize_def)

lemma resolve_below:
  assumes abs: "is_absolute cwd" and p: "\<forall>s \<in> set segs. proper s"
  shows "resolve_segs cwd [base, if segs = [] then dot else join_slash segs] = resolve_segs cwd [base] @ segs"
proof -
  have na: "\<not> is_absolute dot" "\<not> is_absolute (join_slash segs)"
    using below_not_escaping(1) [OF p] by (simp_all add: is_absolute_def starts_with_def)
  have ne: "segs \<noteq> [] \<Longrightarrow> join_slash segs \<noteq> []"
    using p by (cases segs rule: join_slash.cases) (auto simp: proper_def)
  have sp: "segs \<noteq> [] \<Longrightarrow> split_slash (join_slash segs) = segs" using p by (intro split_join) (auto simp: proper_def)
  have "resolve_segs cwd [base, d] = foldl (norm_step False) (resolve_segs cwd [base]) (split_slash d)"
    if "d \<noteq> []" "\<not> is_absolute d" for d
    using that by (simp add: resolve_segs_def resolved_path_def norm_under)
  from this [of dot] this [of "join_slash segs"] show ?thesis
    using na ne sp norm_id [OF p] by (cases "segs = []") (auto simp: norm_step_def)
qed

end
