(* ===== verification/SubagentAuthority.thy ===== *)
theory SubagentAuthority
  imports NodePath
begin

section \<open>The authority, scope and report of a subagent\<close>

text \<open>
  Models \<open>intersectSubagentAuthorityV1\<close>, \<open>truncateUtf8\<close>, \<open>BoundedEvidenceCollectorV1\<close> and the bounded
  summary and evidence of \<open>src/src/runtime/subagent-thread-runtime.ts\<close>, and
  \<open>canonicalizeScopePaths\<close> of \<open>src/src/runtime/subagents/policy.ts\<close>. The file system is an argument.
\<close>

subsection \<open>Authority\<close>

datatype confirmation_mode = ConfirmAllow | ConfirmAsk | ConfirmDeny
datatype filesystem_mode = FsFull | FsWorkspace
datatype network_mode = NetWrite | NetRead | NetDeny

record authority_snapshot =
  au_authorityId :: jsstr
  au_projectRoot :: jsstr
  au_confirmation :: confirmation_mode
  au_filesystem :: filesystem_mode
  au_network :: network_mode
  au_digest :: jsstr

fun confirmation_name :: "confirmation_mode \<Rightarrow> jsstr" where
  "confirmation_name ConfirmAllow = js ''allow''"
| "confirmation_name ConfirmAsk = js ''ask''"
| "confirmation_name ConfirmDeny = js ''deny''"

fun filesystem_name :: "filesystem_mode \<Rightarrow> jsstr" where
  "filesystem_name FsFull = js ''full''"
| "filesystem_name FsWorkspace = js ''workspace''"

fun network_name :: "network_mode \<Rightarrow> jsstr" where
  "network_name NetWrite = js ''write''"
| "network_name NetRead = js ''read''"
| "network_name NetDeny = js ''deny''"

definition authority_content :: "authority_snapshot \<Rightarrow> jsval" where
  "authority_content a = JObj [(js ''authorityId'', JStr (au_authorityId a)),
     (js ''projectRoot'', JStr (au_projectRoot a)),
     (js ''confirmation'', JStr (confirmation_name (au_confirmation a))),
     (js ''filesystem'', JStr (filesystem_name (au_filesystem a))),
     (js ''network'', JStr (network_name (au_network a)))]"

text \<open>\<open>createAuthoritySnapshotV1\<close> of \<open>src/src/runtime/step-snapshot.ts\<close> seals the content.\<close>

definition createAuthoritySnapshotV1 :: "js_env \<Rightarrow> authority_snapshot \<Rightarrow> authority_snapshot" where
  "createAuthoritySnapshotV1 E a = a\<lparr>au_digest := digestRuntimeValue E (authority_content a)\<rparr>"

definition assertAuthority :: "js_env \<Rightarrow> authority_snapshot \<Rightarrow> bool" where
  "assertAuthority E a \<longleftrightarrow> js_trim (au_authorityId a) \<noteq> [] \<and> js_trim (au_projectRoot a) \<noteq> []
     \<and> digestRuntimeValue E (authority_content a) = au_digest a"

fun index_of :: "'a list \<Rightarrow> 'a \<Rightarrow> nat" where
  "index_of [] x = 0"
| "index_of (y # ys) x = (if y = x then 0 else Suc (index_of ys x))"

definition moreRestrictive :: "'a \<Rightarrow> 'a \<Rightarrow> 'a list \<Rightarrow> 'a" where
  "moreRestrictive left right order = order ! max (index_of order left) (index_of order right)"

definition intersectProjectRoots :: "jsstr \<Rightarrow> jsstr \<Rightarrow> jsstr \<Rightarrow> jsstr option" where
  "intersectProjectRoots cwd parentRoot roleRoot =
     (let parent = path_resolve cwd [parentRoot]; role = path_resolve cwd [roleRoot] in
      if isWithin cwd parent role then Some role
      else if isWithin cwd role parent then Some parent else None)"

definition intersectSubagentAuthorityV1 ::
  "js_env \<Rightarrow> jsstr \<Rightarrow> authority_snapshot \<Rightarrow> authority_snapshot \<Rightarrow> authority_snapshot option" where
  "intersectSubagentAuthorityV1 E cwd parent role =
     (if \<not> assertAuthority E parent \<or> \<not> assertAuthority E role then None
      else case intersectProjectRoots cwd (au_projectRoot parent) (au_projectRoot role) of
        None \<Rightarrow> None
      | Some base \<Rightarrow> Some (createAuthoritySnapshotV1 E
          \<lparr>au_authorityId = js ''subagent:'' @ digestRuntimeValue E
             (JObj [(js ''parent'', JStr (au_digest parent)), (js ''role'', JStr (au_digest role))]),
           au_projectRoot = base,
           au_confirmation = moreRestrictive (au_confirmation parent) (au_confirmation role) [ConfirmAllow, ConfirmAsk, ConfirmDeny],
           au_filesystem = moreRestrictive (au_filesystem parent) (au_filesystem role) [FsFull, FsWorkspace],
           au_network = moreRestrictive (au_network parent) (au_network role) [NetWrite, NetRead, NetDeny],
           au_digest = []\<rparr>))"

subsection \<open>Scope paths\<close>

record path_env =
  pe_exists :: "jsstr \<Rightarrow> bool"
  pe_realpath :: "jsstr \<Rightarrow> jsstr option"

definition realpathSafe :: "path_env \<Rightarrow> jsstr \<Rightarrow> jsstr" where
  "realpathSafe F p = (case pe_realpath F p of Some q \<Rightarrow> q | None \<Rightarrow> p)"

definition escapes_root :: "jsstr \<Rightarrow> bool" where
  "escapes_root rel \<longleftrightarrow> starts_with rel dotdot \<or> is_absolute rel"

text \<open>The loop over the paths; \<open>Inl\<close> is the path that escapes.\<close>

fun scope_loop :: "path_env \<Rightarrow> jsstr \<Rightarrow> jsstr \<Rightarrow> jsstr \<Rightarrow> jsstr list \<Rightarrow> jsstr + jsstr list" where
  "scope_loop F cwd rootCwd realRoot [] = Inr []"
| "scope_loop F cwd rootCwd realRoot (raw # raws) =
     (let resolved = path_resolve cwd [rootCwd, raw]; rel = path_relative cwd rootCwd resolved in
      if js_trim raw = [] then Inl raw
      else if escapes_root rel then Inl raw
      else if pe_exists F resolved \<and> escapes_root (path_relative cwd realRoot (realpathSafe F resolved)) then Inl raw
      else case scope_loop F cwd rootCwd realRoot raws of
        Inl p \<Rightarrow> Inl p | Inr ps \<Rightarrow> Inr (path_normalize rel # ps))"

definition canonicalizeScopePaths :: "path_env \<Rightarrow> jsstr \<Rightarrow> jsstr \<Rightarrow> jsstr list option \<Rightarrow> jsstr + jsstr list" where
  "canonicalizeScopePaths F cwd rootCwd paths = (case paths of None \<Rightarrow> Inr []
     | Some ps \<Rightarrow> (if ps = [] then Inr [] else scope_loop F cwd rootCwd (realpathSafe F rootCwd) ps))"

subsection \<open>What the parent is shown\<close>

text \<open>The characters of a string, and as many of them as fit.\<close>

fun take_utf8 :: "nat \<Rightarrow> jsstr \<Rightarrow> jsstr" where
  "take_utf8 n [] = []"
| "take_utf8 n [u] = (if utf8_bytes [u] \<le> n then [u] else [])"
| "take_utf8 n (u # v # us) =
     (if 0xD800 \<le> u \<and> u \<le> 0xDBFF \<and> 0xDC00 \<le> v \<and> v \<le> 0xDFFF
      then (if 4 \<le> n then u # v # take_utf8 (n - 4) us else [])
      else (if utf8_bytes [u] \<le> n then u # take_utf8 (n - utf8_bytes [u]) (v # us) else []))"

definition truncateUtf8 :: "jsstr \<Rightarrow> nat \<Rightarrow> jsstr" where
  "truncateUtf8 s n = (if utf8_bytes s \<le> n then s else take_utf8 n s)"

datatype child_evidence_kind = EvVerification | EvFile | EvTool | EvRuntime

record child_evidence =
  ce_kind :: child_evidence_kind
  ce_source :: jsstr
  ce_detail :: jsstr
  ce_reference :: "jsstr option"

definition record_evidence :: "nat \<Rightarrow> nat \<Rightarrow> child_evidence \<Rightarrow> child_evidence list \<Rightarrow> bool \<times> child_evidence list" where
  "record_evidence maxItems maxBytes ev items =
     (if length items \<ge> maxItems then (False, items)
      else let source = truncateUtf8 (js_trim (ce_source ev)) maxBytes;
               detail = truncateUtf8 (js_trim (ce_detail ev)) maxBytes;
               reference = (if truthy (ce_reference ev)
                 then Some (truncateUtf8 (js_trim (the (ce_reference ev))) maxBytes) else None) in
        if source = [] \<or> detail = [] then (False, items)
        else (True, items @ [\<lparr>ce_kind = ce_kind ev, ce_source = source, ce_detail = detail,
          ce_reference = (if truthy reference then reference else None)\<rparr>]))"

definition boundedEvidence :: "child_evidence list \<Rightarrow> jsstr \<Rightarrow> nat \<Rightarrow> nat \<Rightarrow> child_evidence list" where
  "boundedEvidence collected commitDigest maxItems maxBytes =
     (let items = take maxItems collected in
      if items = []
      then [\<lparr>ce_kind = EvRuntime, ce_source = js ''subagent-thread-runtime'',
        ce_detail = truncateUtf8 (js ''Child completed without separately reported task evidence.'') maxBytes,
        ce_reference = Some (truncateUtf8 commitDigest maxBytes)\<rparr>]
      else items)"

end
