(* ===== verification/SubagentProperties.thy ===== *)
theory SubagentProperties
  imports SubagentAuthority
begin

section \<open>A subagent is never given more than its parent has\<close>

subsection \<open>Authority\<close>

text \<open>One authority grants at most what another grants: each mode is at least as strict, and its root is below.\<close>

definition at_most :: "jsstr \<Rightarrow> authority_snapshot \<Rightarrow> authority_snapshot \<Rightarrow> bool" where
  "at_most cwd a b \<longleftrightarrow>
     index_of [ConfirmAllow, ConfirmAsk, ConfirmDeny] (au_confirmation b) \<le> index_of [ConfirmAllow, ConfirmAsk, ConfirmDeny] (au_confirmation a)
     \<and> index_of [FsFull, FsWorkspace] (au_filesystem b) \<le> index_of [FsFull, FsWorkspace] (au_filesystem a)
     \<and> index_of [NetWrite, NetRead, NetDeny] (au_network b) \<le> index_of [NetWrite, NetRead, NetDeny] (au_network a)
     \<and> isWithin cwd (au_projectRoot b) (au_projectRoot a)"

lemma index_of_nth: "x \<in> set xs \<Longrightarrow> index_of xs x < length xs \<and> xs ! index_of xs x = x"
  by (induction xs) auto

lemma index_nth: "distinct xs \<Longrightarrow> i < length xs \<Longrightarrow> index_of xs (xs ! i) = i"
  by (induction xs arbitrary: i) (auto simp: nth_Cons split: nat.split)

lemma index_moreRestrictive:
  assumes "distinct order" "x \<in> set order" "y \<in> set order"
  shows "index_of order (moreRestrictive x y order) = max (index_of order x) (index_of order y)"
  using assms index_of_nth [of x order] index_of_nth [of y order]
  by (simp add: moreRestrictive_def index_nth)

lemma mode_index:
  "index_of [ConfirmAllow, ConfirmAsk, ConfirmDeny] (moreRestrictive c c' [ConfirmAllow, ConfirmAsk, ConfirmDeny])
    = max (index_of [ConfirmAllow, ConfirmAsk, ConfirmDeny] c) (index_of [ConfirmAllow, ConfirmAsk, ConfirmDeny] c')"
  by (rule index_moreRestrictive, simp, cases c, simp_all, cases c', simp_all)

lemma fs_index:
  "index_of [FsFull, FsWorkspace] (moreRestrictive f f' [FsFull, FsWorkspace])
    = max (index_of [FsFull, FsWorkspace] f) (index_of [FsFull, FsWorkspace] f')"
  by (rule index_moreRestrictive, simp, cases f, simp_all, cases f', simp_all)

lemma network_index:
  "index_of [NetWrite, NetRead, NetDeny] (moreRestrictive n n' [NetWrite, NetRead, NetDeny])
    = max (index_of [NetWrite, NetRead, NetDeny] n) (index_of [NetWrite, NetRead, NetDeny] n')"
  by (rule index_moreRestrictive, simp, cases n, simp_all, cases n', simp_all)

lemma within_trans: "isWithin cwd a b \<Longrightarrow> isWithin cwd b c \<Longrightarrow> isWithin cwd a c"
  by (simp add: isWithin_iff)

lemma within_resolved [simp]:
  "isWithin cwd (path_resolve cwd [a]) b = isWithin cwd a b" "isWithin cwd a (path_resolve cwd [b]) = isWithin cwd a b"
  by (simp_all add: isWithin_iff resolve_one)

lemma within_refl [simp]: "isWithin cwd a a"
  by (simp add: isWithin_iff)

lemma at_most_trans: "at_most cwd a b \<Longrightarrow> at_most cwd b c \<Longrightarrow> at_most cwd a c"
  unfolding at_most_def by (meson order_trans within_trans)

lemma intersect_roots:
  assumes "intersectProjectRoots cwd p r = Some b"
  shows "isWithin cwd p b" "isWithin cwd r b" "isWithin cwd p x \<Longrightarrow> isWithin cwd r x \<Longrightarrow> isWithin cwd b x"
    "js_trim b \<noteq> []"
proof -
  have b: "b = path_resolve cwd [r] \<and> isWithin cwd p r \<or> b = path_resolve cwd [p] \<and> isWithin cwd r p"
    using assms by (auto simp: intersectProjectRoots_def Let_def split: if_splits)
  then show "isWithin cwd p b" "isWithin cwd r b" by auto
  show "isWithin cwd p x \<Longrightarrow> isWithin cwd r x \<Longrightarrow> isWithin cwd b x" using b by auto
  have "\<not> js_white 47" by (simp add: js_white_def)
  then show "js_trim b \<noteq> []" using b by (auto simp: js_trim_eq_Nil_iff path_resolve_def)
qed

lemma subagent_prefix: "js_trim (js ''subagent:'' @ s) \<noteq> []"
  by (simp add: js_trim_eq_Nil_iff js_def js_white_def)

text \<open>A sealed authority passes the check it will be put to.\<close>

lemma sealed_authority:
  "js_trim (au_authorityId a) \<noteq> [] \<Longrightarrow> js_trim (au_projectRoot a) \<noteq> [] \<Longrightarrow> assertAuthority E (createAuthoritySnapshotV1 E a)"
  by (simp add: assertAuthority_def createAuthoritySnapshotV1_def authority_content_def)

lemma created_fields [simp]:
  "au_confirmation (createAuthoritySnapshotV1 E a) = au_confirmation a" "au_filesystem (createAuthoritySnapshotV1 E a) = au_filesystem a"
  "au_network (createAuthoritySnapshotV1 E a) = au_network a" "au_projectRoot (createAuthoritySnapshotV1 E a) = au_projectRoot a"
  by (simp_all add: createAuthoritySnapshotV1_def)

subsection \<open>Scope paths\<close>

lemma not_escaping:
  assumes abs: "is_absolute cwd" and rel: "\<not> escapes_root (path_relative cwd base p)"
  shows "isWithin cwd base p"
    "resolve_segs cwd [base, path_normalize (path_relative cwd base p)] = resolve_segs cwd [p]"
proof -
  consider segs where "resolve_segs cwd [p] = resolve_segs cwd [base] @ segs"
      "path_relative cwd base p = join_slash segs" "\<forall>s \<in> set segs. proper s"
    | segs where "path_relative cwd base p = join_slash (dotdot # segs)"
    by (rule relative_cases [of cwd p base]) blast+
  then obtain segs where s: "resolve_segs cwd [p] = resolve_segs cwd [base] @ segs"
      "path_relative cwd base p = join_slash segs" "\<forall>s \<in> set segs. proper s"
  proof cases
    case (2 segs)
    then have "starts_with (path_relative cwd base p) dotdot" by (simp add: starts_dotdot del: dots)
    with rel show thesis by (simp add: escapes_root_def)
  qed blast
  show "isWithin cwd base p" using s(1) by (simp add: isWithin_iff)
  show "resolve_segs cwd [base, path_normalize (path_relative cwd base p)] = resolve_segs cwd [p]"
    unfolding s(2) normalize_below [OF s(3)] resolve_below [OF abs s(3)] s(1) ..
qed

text \<open>One accepted path and what it becomes.\<close>

definition scope_path_ok :: "path_env \<Rightarrow> jsstr \<Rightarrow> jsstr \<Rightarrow> jsstr \<Rightarrow> jsstr \<Rightarrow> bool" where
  "scope_path_ok F cwd base raw canonical \<longleftrightarrow>
     isWithin cwd base (path_resolve cwd [base, raw])
     \<and> path_resolve cwd [base, canonical] = path_resolve cwd [base, raw]
     \<and> (pe_exists F (path_resolve cwd [base, raw])
         \<longrightarrow> isWithin cwd (realpathSafe F base) (realpathSafe F (path_resolve cwd [base, raw])))"

lemma scope_loop_ok:
  assumes "is_absolute cwd"
  shows "scope_loop F cwd base (realpathSafe F base) raws = Inr ps \<Longrightarrow> list_all2 (scope_path_ok F cwd base) raws ps"
proof (induction raws arbitrary: ps)
  case (Cons raw raws)
  let ?r = "path_resolve cwd [base, raw]"
  have ok: "\<not> escapes_root (path_relative cwd base ?r)"
    "pe_exists F ?r \<Longrightarrow> \<not> escapes_root (path_relative cwd (realpathSafe F base) (realpathSafe F ?r))"
    using Cons.prems by (auto simp: Let_def split: if_splits)
  obtain ps' where ps: "scope_loop F cwd base (realpathSafe F base) raws = Inr ps'"
    "ps = path_normalize (path_relative cwd base ?r) # ps'"
    using Cons.prems by (auto simp: Let_def split: if_splits sum.splits)
  have "path_resolve cwd [base, path_normalize (path_relative cwd base ?r)] = ?r"
    using not_escaping(2) [OF assms ok(1)] unfolding path_resolve_def [of cwd "[base, path_normalize p]" for p] resolve_one
    by (simp add: path_resolve_def)
  then have "scope_path_ok F cwd base raw (path_normalize (path_relative cwd base ?r))"
    using not_escaping(1) [OF assms ok(1)] not_escaping(1) [OF assms ok(2)] by (simp add: scope_path_ok_def del: within_resolved)
  with Cons.IH [OF ps(1)] ps(2) show ?case by simp
qed simp

subsection \<open>What the parent is shown\<close>

lemma take_utf8_starts: "take_utf8 n (u # us) = [] \<or> (\<exists>r. take_utf8 n (u # us) = u # r)"
  by (cases us) auto

lemma take_utf8_bytes: "utf8_bytes (take_utf8 n s) \<le> n"
proof (induction n s rule: take_utf8.induct)
  case (3 n u v us)
  show ?case
  proof (cases "0xD800 \<le> u \<and> u \<le> 0xDBFF \<and> 0xDC00 \<le> v \<and> v \<le> 0xDFFF")
    case True
    then have "\<not> u < 0x80" "\<not> u < 0x800" using order_trans [of "0x80" "0xD800" u] order_trans [of "0x800" "0xD800" u] by (simp_all add: not_less)
    with True 3(1) [OF True] show ?thesis by (cases "4 \<le> n") simp_all
  next
    case False
    from 3(2) [OF False] take_utf8_starts [of "n - utf8_bytes [u]" v us] False show ?thesis
      by (auto split: if_splits)
  qed
qed simp_all

lemma take_utf8_prefix: "prefix (take_utf8 n s) s"
  by (induction n s rule: take_utf8.induct) auto

lemma truncate_bytes: "utf8_bytes (truncateUtf8 s n) \<le> n"
  by (simp add: truncateUtf8_def take_utf8_bytes)

definition evidence_ok :: "nat \<Rightarrow> child_evidence \<Rightarrow> bool" where
  "evidence_ok n ev \<longleftrightarrow> ce_source ev \<noteq> [] \<and> ce_detail ev \<noteq> [] \<and> utf8_bytes (ce_source ev) \<le> n
     \<and> utf8_bytes (ce_detail ev) \<le> n \<and> (\<forall>r. ce_reference ev = Some r \<longrightarrow> r \<noteq> [] \<and> utf8_bytes r \<le> n)"

lemma record_evidence_ok:
  assumes "length items \<le> m" "\<forall>ev \<in> set items. evidence_ok n ev"
  shows "length (snd (record_evidence m n ev items)) \<le> m \<and> (\<forall>ev \<in> set (snd (record_evidence m n ev items)). evidence_ok n ev)"
  using assms by (auto simp: record_evidence_def Let_def evidence_ok_def truncate_bytes split: if_splits)

text \<open>The evidence a parent gets of a child, however much the child records, is bounded.\<close>

lemma collected_bounded:
  "length (fold (\<lambda>ev items. snd (record_evidence m n ev items)) evs []) \<le> m
    \<and> (\<forall>ev \<in> set (fold (\<lambda>ev items. snd (record_evidence m n ev items)) evs []). evidence_ok n ev)"
proof -
  have "length items \<le> m \<and> (\<forall>ev \<in> set items. evidence_ok n ev) \<Longrightarrow>
      length (fold (\<lambda>ev items. snd (record_evidence m n ev items)) evs items) \<le> m
      \<and> (\<forall>ev \<in> set (fold (\<lambda>ev items. snd (record_evidence m n ev items)) evs items). evidence_ok n ev)" for items
  proof (induction evs arbitrary: items)
    case (Cons ev evs)
    then have "length items \<le> m" "\<forall>ev \<in> set items. evidence_ok n ev" by blast+
    from Cons.IH [OF record_evidence_ok [OF this, of ev]] show ?case unfolding fold_Cons o_apply .
  next
    case Nil
    then show ?case by (auto simp: fold_Nil)
  qed
  from this [of "[]"] show ?thesis by simp
qed

subsection \<open>The properties\<close>

text \<open>C39: A subagent gets the greatest authority that neither its parent nor its role exceeds. If the
  intersection is made, its seal is right, in every mode it is at least as strict as both, its project root
  is inside both roots, and whatever is within both is within it. If it is refused, a seal was wrong or
  an identity blank, or no root contains the other.\<close>

theorem authority_narrowed:
  assumes "intersectSubagentAuthorityV1 E cwd parent role = r"
  shows "case r of
      Some a \<Rightarrow> assertAuthority E a \<and> at_most cwd a parent \<and> at_most cwd a role
        \<and> (\<forall>x. at_most cwd x parent \<and> at_most cwd x role \<longrightarrow> at_most cwd x a)
    | None \<Rightarrow> \<not> assertAuthority E parent \<or> \<not> assertAuthority E role
        \<or> \<not> isWithin cwd (au_projectRoot parent) (au_projectRoot role) \<and> \<not> isWithin cwd (au_projectRoot role) (au_projectRoot parent)"
proof (cases r)
  case None
  with assms show ?thesis by (auto simp: intersectSubagentAuthorityV1_def intersectProjectRoots_def Let_def split: if_splits option.splits)
next
  case (Some a)
  with assms obtain b where b: "intersectProjectRoots cwd (au_projectRoot parent) (au_projectRoot role) = Some b"
    by (auto simp: intersectSubagentAuthorityV1_def split: if_splits option.splits)
  have ok: "assertAuthority E a" and modes: "au_projectRoot a = b"
    "au_confirmation a = moreRestrictive (au_confirmation parent) (au_confirmation role) [ConfirmAllow, ConfirmAsk, ConfirmDeny]"
    "au_filesystem a = moreRestrictive (au_filesystem parent) (au_filesystem role) [FsFull, FsWorkspace]"
    "au_network a = moreRestrictive (au_network parent) (au_network role) [NetWrite, NetRead, NetDeny]"
    using assms Some b sealed_authority subagent_prefix intersect_roots(4) [OF b]
    by (auto simp: intersectSubagentAuthorityV1_def split: if_splits)
  have idx: "index_of [ConfirmAllow, ConfirmAsk, ConfirmDeny] (au_confirmation a)
      = max (index_of [ConfirmAllow, ConfirmAsk, ConfirmDeny] (au_confirmation parent)) (index_of [ConfirmAllow, ConfirmAsk, ConfirmDeny] (au_confirmation role))"
    "index_of [FsFull, FsWorkspace] (au_filesystem a)
      = max (index_of [FsFull, FsWorkspace] (au_filesystem parent)) (index_of [FsFull, FsWorkspace] (au_filesystem role))"
    "index_of [NetWrite, NetRead, NetDeny] (au_network a)
      = max (index_of [NetWrite, NetRead, NetDeny] (au_network parent)) (index_of [NetWrite, NetRead, NetDeny] (au_network role))"
    unfolding modes by (rule mode_index, rule fs_index, rule network_index)
  have "at_most cwd a parent" "at_most cwd a role"
    using intersect_roots(1,2) [OF b] unfolding at_most_def idx modes(1) by auto
  moreover have "at_most cwd x a" if "at_most cwd x parent \<and> at_most cwd x role" for x
    using that intersect_roots(3) [OF b] unfolding at_most_def idx modes(1) by auto
  ultimately show ?thesis using Some ok by simp
qed

definition sample_env :: js_env where
  "sample_env = \<lparr>json_stringify = (\<lambda>v. []), json_parse = (\<lambda>s. None), string_of = (\<lambda>v. []),
     sha256_hex = (\<lambda>s. js ''d''), locale_le = (\<lambda>a b. True)\<rparr>"

definition sample_parent :: authority_snapshot where
  "sample_parent = createAuthoritySnapshotV1 sample_env \<lparr>au_authorityId = js ''p'', au_projectRoot = js ''/w'',
     au_confirmation = ConfirmAsk, au_filesystem = FsFull, au_network = NetRead, au_digest = []\<rparr>"

definition sample_role :: authority_snapshot where
  "sample_role = createAuthoritySnapshotV1 sample_env \<lparr>au_authorityId = js ''r'', au_projectRoot = js ''/w/a'',
     au_confirmation = ConfirmAllow, au_filesystem = FsWorkspace, au_network = NetWrite, au_digest = []\<rparr>"

theorem authority_narrowed_witness:
  "\<exists>a. intersectSubagentAuthorityV1 sample_env (js ''/'') sample_parent sample_role = Some a
    \<and> at_most (js ''/'') a sample_parent \<and> au_projectRoot a = js ''/w/a''"
proof -
  have "map_option au_projectRoot (intersectSubagentAuthorityV1 sample_env (js ''/'') sample_parent sample_role) = Some (js ''/w/a'')"
    by code_simp
  then obtain a where a: "intersectSubagentAuthorityV1 sample_env (js ''/'') sample_parent sample_role = Some a"
    "au_projectRoot a = js ''/w/a''" by auto
  with authority_narrowed [OF a(1)] show ?thesis by simp
qed



end
