(* ===== verification/SubagentBudget.thy ===== *)
theory SubagentBudget
  imports JsonValue
begin

section \<open>The budget ledger of subagents\<close>

text \<open>
  Models \<open>src/src/runtime/subagents/budget.ts\<close> and \<open>sumSubtaskUsage\<close> of \<open>types.ts\<close>: requests are
  reserved for a task before it runs and replaced by its real usage after. Requests, calls, tokens
  and milliseconds are integers. The ledger never reserves beyond the limit of the turn, so that the
  turn exceeds it only by what tasks used beyond their own reservations.
\<close>

subsection \<open>Usage\<close>

record subtask_usage =
  su_modelRequests :: int
  su_toolCalls :: int
  su_promptTokens :: int
  su_completionTokens :: int
  su_durationMs :: int
  su_usageComplete :: "bool option"
  su_costUsd :: "rat option"

definition emptyUsage :: subtask_usage where
  "emptyUsage = \<lparr>su_modelRequests = 0, su_toolCalls = 0, su_promptTokens = 0, su_completionTokens = 0,
     su_durationMs = 0, su_usageComplete = Some True, su_costUsd = None\<rparr>"

definition add_usage :: "subtask_usage \<Rightarrow> subtask_usage \<Rightarrow> subtask_usage" where
  "add_usage acc u = \<lparr>su_modelRequests = su_modelRequests acc + su_modelRequests u,
     su_toolCalls = su_toolCalls acc + su_toolCalls u,
     su_promptTokens = su_promptTokens acc + su_promptTokens u,
     su_completionTokens = su_completionTokens acc + su_completionTokens u,
     su_durationMs = su_durationMs acc + su_durationMs u,
     su_usageComplete = Some (su_usageComplete acc = Some True \<and> su_usageComplete u = Some True),
     su_costUsd = None\<rparr>"

definition sumSubtaskUsage :: "subtask_usage list \<Rightarrow> subtask_usage" where
  "sumSubtaskUsage us = (let aggregate = foldl add_usage emptyUsage us in
     if us \<noteq> [] \<and> (\<forall>u \<in> set us. su_costUsd u \<noteq> None)
     then aggregate\<lparr>su_costUsd := Some (foldl (\<lambda>sum u. sum + the (su_costUsd u)) 0 us)\<rparr> else aggregate)"

subsection \<open>The ledger\<close>

record ledger_limits =
  ll_maxModelRequestsPerTurn :: int
  ll_maxModelRequestsPerTask :: int
  ll_maxToolCallsPerTask :: int
  ll_timeoutMs :: int

datatype limit_name = PerTaskRequests | PerTaskTools | PerTaskTime | PerTurnRequests

record budget_violation =
  bv_taskId :: jsstr
  bv_limit :: limit_name
  bv_observed :: int
  bv_enforced :: int

record ledger =
  bl_limits :: ledger_limits
  bl_reserved :: "(jsstr \<times> int) list"
  bl_reconciled :: "subtask_usage list"
  bl_violations :: "budget_violation list"

definition new_ledger :: "ledger_limits \<Rightarrow> ledger" where
  "new_ledger L = \<lparr>bl_limits = L, bl_reserved = [], bl_reconciled = [], bl_violations = []\<rparr>"

definition aggregateReservedOrUsed :: "ledger \<Rightarrow> int" where
  "aggregateReservedOrUsed s = sum_list (map snd (bl_reserved s)) + sum_list (map su_modelRequests (bl_reconciled s))"

definition aggregateUsedModelRequests :: "ledger \<Rightarrow> int" where
  "aggregateUsedModelRequests s = foldl (\<lambda>acc u. acc + su_modelRequests u) 0 (bl_reconciled s)"

definition availableModelRequests :: "ledger \<Rightarrow> int" where
  "availableModelRequests s = max 0 (ll_maxModelRequestsPerTurn (bl_limits s) - aggregateReservedOrUsed s)"

definition canReserveBatch :: "int \<Rightarrow> ledger \<Rightarrow> bool" where
  "canReserveBatch n s \<longleftrightarrow> availableModelRequests s \<ge> n"

definition reserve_requests :: "jsstr \<Rightarrow> int \<Rightarrow> ledger \<Rightarrow> int option \<times> ledger" where
  "reserve_requests task requested s =
     (let want = max 1 (min requested (ll_maxModelRequestsPerTask (bl_limits s))) in
      if map_of (bl_reserved s) task \<noteq> None then (None, s)
      else if want > availableModelRequests s then (None, s)
      else (Some want, s\<lparr>bl_reserved := AList.update task want (bl_reserved s)\<rparr>))"

definition release_requests :: "jsstr \<Rightarrow> ledger \<Rightarrow> ledger" where
  "release_requests task s = s\<lparr>bl_reserved := AList.delete task (bl_reserved s)\<rparr>"

definition task_violations :: "jsstr \<Rightarrow> subtask_usage \<Rightarrow> ledger_limits \<Rightarrow> budget_violation list" where
  "task_violations task u L =
     (if su_modelRequests u > ll_maxModelRequestsPerTask L
      then [\<lparr>bv_taskId = task, bv_limit = PerTaskRequests, bv_observed = su_modelRequests u, bv_enforced = ll_maxModelRequestsPerTask L\<rparr>] else [])
     @ (if su_toolCalls u > ll_maxToolCallsPerTask L
      then [\<lparr>bv_taskId = task, bv_limit = PerTaskTools, bv_observed = su_toolCalls u, bv_enforced = ll_maxToolCallsPerTask L\<rparr>] else [])
     @ (if su_durationMs u > ll_timeoutMs L
      then [\<lparr>bv_taskId = task, bv_limit = PerTaskTime, bv_observed = su_durationMs u, bv_enforced = ll_timeoutMs L\<rparr>] else [])"

definition reconcile_usage :: "jsstr \<Rightarrow> subtask_usage \<Rightarrow> ledger \<Rightarrow> bool \<times> ledger" where
  "reconcile_usage task u s =
     (let s1 = s\<lparr>bl_reserved := AList.delete task (bl_reserved s), bl_reconciled := bl_reconciled s @ [u],
        bl_violations := bl_violations s @ task_violations task u (bl_limits s)\<rparr> in
      (aggregateUsedModelRequests s1 \<le> ll_maxModelRequestsPerTurn (bl_limits s1), s1))"

subsection \<open>Steps\<close>

datatype ledger_op = LdReserve jsstr int | LdRelease jsstr | LdReconcile jsstr subtask_usage

fun ledger_step :: "ledger_op \<Rightarrow> ledger \<Rightarrow> ledger" where
  "ledger_step (LdReserve t n) s = snd (reserve_requests t n s)"
| "ledger_step (LdRelease t) s = release_requests t s"
| "ledger_step (LdReconcile t u) s = snd (reconcile_usage t u s)"

subsection \<open>The turn stays within its limit but for what tasks exceed\<close>

definition reservation :: "jsstr \<Rightarrow> ledger \<Rightarrow> int" where
  "reservation t s = (case map_of (bl_reserved s) t of Some n \<Rightarrow> n | None \<Rightarrow> 0)"

text \<open>What a task used beyond its reservation, and over a run.\<close>

fun excess :: "ledger_op \<Rightarrow> ledger \<Rightarrow> int" where
  "excess (LdReconcile t u) s = max 0 (su_modelRequests u - reservation t s)"
| "excess x s = 0"

fun run_excess :: "ledger_op list \<Rightarrow> ledger \<Rightarrow> int" where
  "run_excess [] s = 0"
| "run_excess (x # xs) s = excess x s + run_excess xs (ledger_step x s)"

definition ledger_inv :: "ledger \<Rightarrow> bool" where
  "ledger_inv s \<longleftrightarrow> distinct (map fst (bl_reserved s)) \<and> (\<forall>r \<in> set (bl_reserved s). 1 \<le> snd r)
     \<and> (\<forall>v \<in> set (bl_violations s). bv_limit v \<noteq> PerTurnRequests)"

lemma sum_delete:
  assumes "distinct (map fst xs)"
  shows "sum_list (map snd (AList.delete k xs)) = sum_list (map snd xs) - (case map_of xs k of Some n \<Rightarrow> n | None \<Rightarrow> (0 :: int))"
  using assms
proof (induction xs)
  case (Cons x xs)
  have "k \<notin> fst ` set xs \<Longrightarrow> AList.delete k xs = xs" by (simp add: delete_id)
  with Cons show ?case by (cases x) (auto simp: map_of_eq_None_iff)
qed simp

lemma update_new: "map_of xs k = None \<Longrightarrow> AList.update k v xs = xs @ [(k, v)]"
  by (induction xs) (auto split: if_splits)

lemma ledger_step_inv: "ledger_inv s \<Longrightarrow> ledger_inv (ledger_step x s)"
proof (cases x)
  case (LdReserve t n)
  assume "ledger_inv s"
  with LdReserve show ?thesis
    by (auto simp: ledger_inv_def reserve_requests_def Let_def update_new map_of_eq_None_iff image_iff)
next
  case (LdRelease t)
  assume "ledger_inv s"
  with LdRelease show ?thesis
    by (auto simp: ledger_inv_def release_requests_def AList.delete_eq distinct_map_filter)
next
  case (LdReconcile t u)
  assume "ledger_inv s"
  with LdReconcile show ?thesis
    by (auto simp: ledger_inv_def reconcile_usage_def Let_def task_violations_def AList.delete_eq distinct_map_filter
        split: if_splits)
qed

interpretation budget_ledger: component ledger_step ledger_inv
  by unfold_locales (rule ledger_step_inv)

lemma step_total:
  assumes inv: "ledger_inv s" and b: "aggregateReservedOrUsed s \<le> max 0 (ll_maxModelRequestsPerTurn (bl_limits s)) + k" and k: "0 \<le> k"
  shows "aggregateReservedOrUsed (ledger_step x s) \<le> max 0 (ll_maxModelRequestsPerTurn (bl_limits s)) + (k + excess x s)"
proof (cases x)
  case (LdReserve t n)
  with b k show ?thesis
    by (auto simp: reserve_requests_def Let_def update_new aggregateReservedOrUsed_def availableModelRequests_def)
next
  case (LdRelease t)
  have "0 \<le> reservation t s"
    using inv by (fastforce simp: ledger_inv_def reservation_def dest: map_of_SomeD split: option.split)
  with LdRelease b inv show ?thesis
    by (simp add: release_requests_def aggregateReservedOrUsed_def ledger_inv_def sum_delete reservation_def)
next
  case (LdReconcile t u)
  with b inv show ?thesis
    by (simp add: reconcile_usage_def Let_def aggregateReservedOrUsed_def ledger_inv_def sum_delete reservation_def)
qed

lemma step_limits: "bl_limits (ledger_step x s) = bl_limits s"
  by (cases x) (simp_all add: reserve_requests_def release_requests_def reconcile_usage_def Let_def)

lemma run_total:
  assumes "ledger_inv s" "aggregateReservedOrUsed s \<le> max 0 (ll_maxModelRequestsPerTurn (bl_limits s)) + k" "0 \<le> k"
  shows "aggregateReservedOrUsed (run ledger_step ops s) \<le> max 0 (ll_maxModelRequestsPerTurn (bl_limits s)) + (k + run_excess ops s)"
  using assms
proof (induction ops arbitrary: s k)
  case (Cons x xs)
  have "0 \<le> excess x s" by (cases x) simp_all
  with Cons.IH [OF ledger_step_inv [OF Cons.prems(1)], where k = "k + excess x s"] step_total [OF Cons.prems] Cons.prems(3)
  show ?case by (simp add: step_limits add.assoc)
qed simp

text \<open>
  The bound; and although the list of violations has a name for the limit of the turn, none is ever
  recorded under it.
\<close>

lemma ledger_bounded:
  "aggregateReservedOrUsed (run ledger_step ops (new_ledger L)) \<le> max 0 (ll_maxModelRequestsPerTurn L) + run_excess ops (new_ledger L)"
  "v \<in> set (bl_violations (run ledger_step ops (new_ledger L))) \<Longrightarrow> bv_limit v \<noteq> PerTurnRequests"
proof -
  have inv: "ledger_inv (new_ledger L)" by (simp add: ledger_inv_def new_ledger_def)
  show "aggregateReservedOrUsed (run ledger_step ops (new_ledger L)) \<le> max 0 (ll_maxModelRequestsPerTurn L) + run_excess ops (new_ledger L)"
    using run_total [OF inv, of 0 ops] by (simp add: aggregateReservedOrUsed_def new_ledger_def)
  show "v \<in> set (bl_violations (run ledger_step ops (new_ledger L))) \<Longrightarrow> bv_limit v \<noteq> PerTurnRequests"
    using budget_ledger.run_inv [OF inv, of ops] by (simp add: ledger_inv_def)
qed

end
