(* ===== verification/Spec2Isabelle.thy ===== *)
theory Spec2Isabelle
  imports ThreadProperties AdmissionProperties StoreRecovery BufferProperties CanonicalDigest
    CircuitBreaker GateProperties CoordinatorProperties GatewayProperties GoalProperties
    RuntimeProperties HistoryProperties MessageFingerprint WebPrivacy WebTranscript
    ArbiterProperties CommitProperties ScopeProperties
    TreeProperties SubagentProperties SubagentBudget
begin

text \<open>
  Verification of the core of Orion Code, a coding agent written in TypeScript.

  \<^bold>\<open>The program.\<close> A conversation is a Thread: a durable log of events
  (\<open>src/src/runtime/thread-event-store.ts\<close>) from which all state is projected
  (\<open>thread-projection.ts\<close>). Clients send commands; an admission controller decides which turn is
  active and which wait (\<open>thread-admission.ts\<close>), the runtime persists the decision and runs the
  turn (\<open>thread-runtime.ts\<close>), committed events go to consumers through a bounded buffer each
  (\<open>runtime-event-buffer.ts\<close>). A turn calls a model through the resilience layer
  (\<open>services/provider-resilience\<close>) and tools through a gateway that asks for policy, approval and
  sandbox and seals a receipt (\<open>tool-gateway.ts\<close>). A Goal continues by itself, turn after turn,
  until its lifecycle stops it (\<open>goal-lifecycle-v2.ts\<close>). Commands, events and envelopes have one
  schema (\<open>protocol/runtime-protocol-v1.ts\<close>), digests one canonical form (\<open>protocol/canonical.ts\<close>).

  \<^bold>\<open>The theories\<close>, in the order they import each other:
  \<^item> \<open>OrionPrelude\<close>: JavaScript strings, objects and \<open>Map\<close>s; replay of an event log; the locales
    \<open>event_log\<close> (a step that may reject an event and an invariant it keeps), \<open>component\<close> (a total
    step and an invariant) and \<open>monotone_component\<close> (and a measure that only grows).
  \<^item> \<open>JsonValue\<close>, \<open>CanonicalDigest\<close>: \<open>canonical.ts\<close>; the digest does not depend on the order of properties.
  \<^item> \<open>RuntimeProtocol\<close>, \<open>ProtocolSchema\<close>, \<open>ProtocolEncoding\<close>: the protocol's types, its schemas and
    validators as written, and the proof that the validators accept exactly the encodings of
    well-formed typed envelopes.
  \<^item> \<open>ThreadState\<close>, \<open>ThreadProjection\<close>, \<open>ThreadInvariants\<close>, \<open>ThreadProperties\<close>: the projection, one definition per
    event handler; its invariant (\<open>event_log\<close> is interpreted on \<open>applyThreadEvent\<close>); log shape,
    incremental projection, finality of terminal facts, commits, receipts, queue, plan review.
  \<^item> \<open>ThreadAdmission\<close>, \<open>AdmissionProperties\<close>: every method of the controller; queue accounting
    (\<open>component\<close> interpreted), promotion in order, snapshots.
  \<^item> \<open>ThreadStore\<close>, \<open>StoreRecovery\<close>: appending a batch, replay pages, recovery after a crash; the head of the
    store refines the projection of its log (\<open>component\<close> interpreted); recovery always succeeds.
  \<^item> \<open>ThreadRuntime\<close>, \<open>RuntimeSync\<close>, \<open>RuntimeProperties\<close>: the runtime over the models of the store and of the
    controller, the inductive relation \<open>rt_reach\<close> of the states it reaches, the invariant that the
    controller and the log agree, and the one window in which a command breaks it.
  \<^item> \<open>EventBuffer\<close>, \<open>BufferProperties\<close>: the consumer buffer; memory bounds, no silent loss of a durable event
    (\<open>monotone_component\<close> interpreted, with the acknowledged cursor as measure).
  \<^item> \<open>CircuitBreaker\<close>, \<open>StreamRecovery\<close>, \<open>ErrorClassifier\<close>, \<open>RequestGate\<close>, \<open>GateProperties\<close>, \<open>ProviderCoordinator\<close>,
    \<open>CoordinatorProperties\<close>: the resilience layer; the breaker's windows, the overlap of joined streams, retry
    decisions, the gate's leases and queue against a one-pass reference, and the coordinator's
    budgets, outcome and use of leases.
  \<^item> \<open>ToolGateway\<close>, \<open>GatewayProperties\<close>: the gateway's phases over the interface \<open>tool_journal\<close> (a locale:
    an entry is begun once and completed once), interpreted on the in-memory journal of the
    source; a tool runs at most once, receipts are sealed, a crash never runs a tool again,
    every invocation settles.
  \<^item> \<open>ToolCallGroups\<close>, \<open>CompactPlanner\<close>, \<open>MessageFingerprint\<close>, \<open>HistoryProperties\<close>: the model-visible history
    (\<open>services/compact/tool-call-groups.ts\<close>, \<open>planner.ts\<close>, \<open>fingerprint.ts\<close>, \<open>utils/token-estimate.ts\<close>,
    \<open>runtime/session-history-recovery.ts\<close>); repair as a normal form of the provider's check, recovery that
    never fails, compaction that cuts between tool call groups and within its budget.
  \<^item> \<open>WebSanitize\<close>, \<open>EventHub\<close>, \<open>WebClient\<close>, \<open>WebStream\<close>, \<open>WebDelivery\<close>, \<open>WebProperties\<close>, \<open>WebBounds\<close>,
    \<open>WebPrivacy\<close>, \<open>WebTranscript\<close>: the event stream of the web workbench (\<open>src/src/web/event-hub.ts\<close>) with the
    browser's end of it (\<open>connectEvents\<close> and \<open>parseEnvelope\<close> of \<open>src/web/src/api.ts\<close>, the transcript cases
    of \<open>reducer.ts\<close>): hub, sockets, one client and any number of others as one system
    (\<open>component\<close> interpreted); no kept event is lost or repeated across reconnects, a client
    catches up, memory is bounded, no sensitive field leaves the host, and the compaction of
    streamed text is transparent to a client that misses nothing.
  \<^item> \<open>TurnCommit\<close>, \<open>CommitReceipts\<close>, \<open>CommitProperties\<close>: the commit of a turn (\<open>src/src/runtime/turn-commit.ts\<close>): its
    receipt and the plan receipt inside it as JSON objects that are sealed, printed and read back, and
    the journal over the model of the store; a commit is accepted by the projection, may be repeated
    without effect, and is final.
  \<^item> \<open>WorkspaceArbiter\<close>, \<open>ArbiterProperties\<close>: the arbiter of side effects on a workspace
    (\<open>src/src/web/workspace-mutation-arbiter.ts\<close>), its promises numbered by admission
    (\<open>component\<close> interpreted); mutations of a workspace run one at a time and in order, each settles
    exactly once.
  \<^item> \<open>ResourceScope\<close>, \<open>ScopeProperties\<close>: the owner of cancellable resources
    (\<open>src/src/runtime/resource-scope.ts\<close>), its disposers numbered as they are handed over (\<open>component\<close>
    interpreted); every disposer is called once, last in first out and after the leases, a close
    accepts nothing more and ends.
  \<^item> \<open>SubagentTree\<close>, \<open>TreeProperties\<close>, \<open>NodePath\<close>, \<open>SubagentAuthority\<close>, \<open>SubagentProperties\<close>,
    \<open>SubagentBudget\<close>: child agents (\<open>src/src/runtime/subagent-thread-runtime.ts\<close>, \<open>subagents/policy.ts\<close>,
    \<open>subagents/budget.ts\<close>). The tree of their slots and budgets (\<open>component\<close> interpreted) stays within its
    limits, serves in order and gets everything back; a child's authority is the greatest within its
    parent's and its role's; its scope paths, on a model of Node's POSIX paths by segments, stay in
    the project; the evidence it returns is bounded; the ledger exceeds the limit of a turn only by
    what tasks use beyond their reservations (\<open>component\<close> interpreted).
  \<^item> \<open>GoalLifecycle\<close>, \<open>GoalProperties\<close>: stop decisions and the lifecycle of a Goal; its invariant, the bound
    on its turns, and what an exhausted Goal can no longer become.

  \<^bold>\<open>How state and effects are modelled.\<close> A class is a record of its fields and a method a function
  from its arguments and the state to its result and the new state. A method that throws returns
  \<open>Inl\<close> of the error together with the state it leaves behind, so errors after a mutation are
  visible. Every reading of a clock, a random number, an id factory, the file system or a service is an
  argument, or a field of the environment of the step, in the order of the calls. Asynchronous functions
  are cut at their awaits: invocations of the gateway, runs of the runtime and waiters of the
  gate advance one step at a time in any order. \<open>undefined\<close> is \<open>None\<close>, or \<open>JUndefined\<close> where the
  source inspects a value at run time. JavaScript's own built-ins that the code relies on
  (\<open>JSON.stringify\<close>, \<open>localeCompare\<close>, SHA-256, \<open>Number(text)\<close>) are fields of a record of functions; no
  theorem assumes more of them than it states. Numbers that the code keeps as safe integers are
  integers, delays and ratios are rationals, and the places where \<open>NaN\<close> or a fraction can occur
  keep it.

  \<^bold>\<open>Bounds.\<close> Loops are structural recursion over what they consume: the coordinator's attempt loop
  over the attempts its configuration allows, the gate's dispatch loop over the queue it
  shortens. The loop that pages through the
  log (\<open>read_pages\<close>) has fuel; one more than the length of the log is enough, which is proved. Gateway invocations settle in at most seven phases, which is proved.

  \<^bold>\<open>Defects shown.\<close> \<open>start_before_settlement_strands\<close>, \<open>last_attempt_fallback_untried\<close>,
  \<open>silent_probe_blocks_forever\<close>, \<open>replay_after_output_only_on_conflict\<close>,
  \<open>missed_update_undetected\<close> and \<open>exhausted_goal_never_completes\<close> state behaviour of the code that contradicts its intent or its messages.

  \<^bold>\<open>Not modelled.\<close> Terminal and web user interfaces (of the web workbench all but the event
  stream), the patterns of \<open>redactTraceText\<close>, the command line, the tools themselves, the
  providers' network clients, skills, migrations and product wiring: they are effects on files,
  processes, sockets and screens. Of the event store the files (locks, hash chain, fsync, caches,
  checkpoints) are left out, of the runtime the consumers, idle waiters and the steer handler, of
  the step snapshot its capture, of the coordinator its metrics counters, of the subagents the capture of
  the fork, the receipts, the batch supervisor and the loop of the child itself. Paths are POSIX paths.
\<close>

end
